(* ===== verification/Prelude.thy ===== *)
theory Prelude
  imports Main "HOL-Library.Word"
begin

text \<open>
  What every component theory shares: the types that stand for JavaScript's byte arrays and
  bounded integers, the little- and big-endian readers and writers behind \<open>DataView\<close>, decimal
  strings as \<open>BigInt\<close> and \<open>toString\<close> treat them, the sum-typed results in which errors are
  values, and one interface, \<open>strict_codec\<close>, that the wire formats interpret.

  A JavaScript string is a \<open>string\<close>, that is, a list of code units below 256; every string
  the modelled code inspects by character (identities, decimal cursors, base64, hex) is ASCII.
  A \<open>Uint8Array\<close> is a \<open>byte list\<close>, a \<open>bigint\<close> that cannot be negative is a \<open>nat\<close>.
\<close>

type_synonym byte = "8 word"
type_synonym bytes = "byte list"

named_theorems codec "facts that let the simplifier run encoders against decoders"
named_theorems inv_intros "introduction rules for the components' invariants"

section \<open>Results with errors as values\<close>

text \<open>An early \<open>throw\<close> is \<open>Inl\<close>; \<open>bindE\<close> runs the rest of the code on success only.\<close>

fun bindE :: "'e + 'a \<Rightarrow> ('a \<Rightarrow> 'e + 'b) \<Rightarrow> 'e + 'b" where
  "bindE (Inl e) f = Inl e"
| "bindE (Inr a) f = f a"

definition guardE :: "bool \<Rightarrow> 'e \<Rightarrow> 'e + unit" where
  "guardE ok e = (if ok then Inr () else Inl e)"

lemma bindE_Inr_iff: "bindE m f = Inr b \<longleftrightarrow> (\<exists>a. m = Inr a \<and> f a = Inr b)"
  by (cases m) auto

lemma bindE_Inl_iff: "bindE m f = Inl e \<longleftrightarrow> m = Inl e \<or> (\<exists>a. m = Inr a \<and> f a = Inl e)"
  by (cases m) auto

lemma guardE_Inr_iff [simp]: "guardE ok e = Inr u \<longleftrightarrow> ok"
  by (simp add: guardE_def)

lemma guardE_Inl_iff [simp]: "guardE ok e = Inl e' \<longleftrightarrow> \<not> ok \<and> e = e'"
  by (simp add: guardE_def)

lemma bindE_guardE [simp]: "bindE (guardE ok e) f = (if ok then f () else Inl e)"
  by (simp add: guardE_def)

lemmas result_simps = bindE_Inr_iff bindE_Inl_iff

section \<open>Bytes and fixed-width integers\<close>

text \<open>
  \<open>le_val\<close> is what \<open>DataView.getBigUint64 (off, true)\<close> reads from eight bytes, \<open>be_val\<close>
  what the big-endian getters read; \<open>le_bytes n v\<close> and \<open>be_bytes n v\<close> are the \<open>n\<close> bytes
  the setters write, which keep \<open>v\<close> modulo \<open>256 ^ n\<close>.
\<close>

fun le_val :: "bytes \<Rightarrow> nat" where
  "le_val [] = 0"
| "le_val (b # bs) = unat b + 256 * le_val bs"

fun le_bytes :: "nat \<Rightarrow> nat \<Rightarrow> bytes" where
  "le_bytes 0 v = []"
| "le_bytes (Suc n) v = word_of_nat v # le_bytes n (v div 256)"

definition be_val :: "bytes \<Rightarrow> nat" where
  "be_val bs = le_val (rev bs)"

definition be_bytes :: "nat \<Rightarrow> nat \<Rightarrow> bytes" where
  "be_bytes n v = rev (le_bytes n v)"

definition slice :: "nat \<Rightarrow> nat \<Rightarrow> 'a list \<Rightarrow> 'a list" where
  "slice off n xs = take n (drop off xs)"

lemma le_bytes_numeral:
  "le_bytes (numeral k) v = word_of_nat v # le_bytes (pred_numeral k) (v div 256)"
  by (simp only: numeral_eq_Suc[of k] le_bytes.simps)

lemma length_le_bytes [simp, codec]: "length (le_bytes n v) = n"
  by (induction n arbitrary: v) auto

lemma length_be_bytes [simp, codec]: "length (be_bytes n v) = n"
  by (simp add: be_bytes_def)

lemma unat_byte_bound: "unat (b :: byte) < 256"
proof -
  have "unat b < 2 ^ LENGTH(8)" by (rule unsigned_less)
  then show ?thesis by simp
qed

lemma unat_byte_of_nat: "unat (word_of_nat v :: byte) = v mod 256"
  by (simp add: unat_of_nat)

lemma le_val_le_bytes [codec]: "le_val (le_bytes n v) = v mod 256 ^ n"
proof (induction n arbitrary: v)
  case 0
  then show ?case by simp
next
  case (Suc n)
  have "v mod (256 * 256 ^ n) = 256 * (v div 256 mod 256 ^ n) + v mod 256"
    by (rule mod_mult2_eq)
  with Suc show ?case by (simp add: unat_byte_of_nat)
qed

lemma le_val_bound: "le_val bs < 256 ^ length bs"
proof (induction bs)
  case Nil
  then show ?case by simp
next
  case (Cons b bs)
  then show ?case using unat_byte_bound[of b] by simp
qed

lemma le_bytes_le_val: "le_bytes (length bs) (le_val bs) = bs"
proof (induction bs)
  case Nil
  then show ?case by simp
next
  case (Cons b bs)
  have 1: "(unat b + 256 * le_val bs) div 256 = le_val bs"
    using unat_byte_bound[of b] by simp
  have 2: "(word_of_nat (unat b + 256 * le_val bs) :: byte) = b"
    by (rule word_unat_eq_iff[THEN iffD2])
      (use unat_byte_bound[of b] in \<open>simp add: unat_byte_of_nat del: of_nat_add\<close>)
  show ?case
    unfolding le_val.simps list.size le_bytes.simps add_0_right add_Suc_right 1 2
    using Cons by simp
qed

lemma be_val_be_bytes [codec]: "be_val (be_bytes n v) = v mod 256 ^ n"
  by (simp add: be_val_def be_bytes_def le_val_le_bytes)

lemma be_val_bound: "be_val bs < 256 ^ length bs"
  using le_val_bound[of "rev bs"] by (simp add: be_val_def)

lemma be_bytes_be_val: "be_bytes (length bs) (be_val bs) = bs"
  using le_bytes_le_val[of "rev bs"] by (simp add: be_val_def be_bytes_def)

lemma be_bytes_be_val' [codec]: "length bs = n \<Longrightarrow> be_bytes n (be_val bs) = bs"
  using be_bytes_be_val by blast

lemma le_bytes_le_val' [codec]: "length bs = n \<Longrightarrow> le_bytes n (le_val bs) = bs"
  using le_bytes_le_val by blast

lemma length_slice [simp]: "off + n \<le> length xs \<Longrightarrow> length (slice off n xs) = n"
  by (simp add: slice_def)

lemma slice_split: "off + n \<le> length xs \<Longrightarrow> xs = take off xs @ slice off n xs @ drop (off + n) xs"
  by (simp add: slice_def) (metis add.commute append_take_drop_id drop_drop)

lemma slice_add: "slice off (m + n) xs = slice off m xs @ slice (off + m) n xs"
  by (simp add: slice_def take_add add.commute)

lemma slice_append_skip [codec]:
  "length xs = k \<Longrightarrow> slice (k + off) n (xs @ ys) = slice off n ys"
  by (simp add: slice_def)

lemma slice_append_hit [codec]: "length xs = n \<Longrightarrow> slice 0 n (xs @ ys) = xs"
  by (simp add: slice_def)

lemma slice_Cons_Suc [codec]: "slice (Suc off) n (x # xs) = slice off n xs"
  by (simp add: slice_def)

section \<open>Decimal strings\<close>

text \<open>
  \<open>show_nat\<close> is \<open>bigint.toString()\<close> of a non-negative value, \<open>dec_val\<close> the value of a
  string of decimal digits, \<open>canonical_dec\<close> the regular expression
  \<^verbatim>\<open>/^(?:0|[1-9][0-9]*)$/\<close> that the cursors are checked with.
\<close>

definition digit_char :: "nat \<Rightarrow> char" where
  "digit_char d = char_of (48 + d)"

definition digit_val :: "char \<Rightarrow> nat" where
  "digit_val c = of_char c - 48"

definition is_digit :: "char \<Rightarrow> bool" where
  "is_digit c \<longleftrightarrow> 48 \<le> (of_char c :: nat) \<and> (of_char c :: nat) \<le> 57"

fun show_nat :: "nat \<Rightarrow> string" where
  "show_nat n = (if n < 10 then [digit_char n] else show_nat (n div 10) @ [digit_char (n mod 10)])"

declare show_nat.simps [simp del]

definition dec_val :: "string \<Rightarrow> nat" where
  "dec_val s = foldl (\<lambda>a c. 10 * a + digit_val c) 0 s"

definition canonical_dec :: "string \<Rightarrow> bool" where
  "canonical_dec s \<longleftrightarrow> s = ''0'' \<or> (s \<noteq> [] \<and> hd s \<noteq> CHR ''0'' \<and> list_all is_digit s)"

definition positive_dec :: "string \<Rightarrow> bool" where
  "positive_dec s \<longleftrightarrow> s \<noteq> [] \<and> hd s \<noteq> CHR ''0'' \<and> list_all is_digit s"

lemma digit_val_digit_char [simp]: "d < 10 \<Longrightarrow> digit_val (digit_char d) = d"
  by (simp add: digit_val_def digit_char_def)

lemma is_digit_digit_char [simp]: "d < 10 \<Longrightarrow> is_digit (digit_char d)"
  by (simp add: is_digit_def digit_char_def)

lemma digit_char_digit_val [simp]: "is_digit c \<Longrightarrow> digit_char (digit_val c) = c"
  by (simp add: is_digit_def digit_val_def digit_char_def)

lemma digit_val_bound: "is_digit c \<Longrightarrow> digit_val c < 10"
  by (auto simp: is_digit_def digit_val_def)

lemma digit_char_0: "digit_char 0 = CHR ''0''"
  by (simp add: digit_char_def char_of_eq_iff)

lemma digit_char_eq_0: "d < 10 \<Longrightarrow> digit_char d = CHR ''0'' \<longleftrightarrow> d = 0"
proof -
  assume "d < 10"
  have "digit_val (CHR ''0'') = 0" by (simp add: digit_val_def)
  with \<open>d < 10\<close> have "digit_char d = CHR ''0'' \<Longrightarrow> d = 0"
    using digit_val_digit_char by metis
  then show ?thesis using digit_char_0 by blast
qed

lemma dec_val_snoc [simp]: "dec_val (s @ [c]) = 10 * dec_val s + digit_val c"
  by (simp add: dec_val_def)

lemma dec_val_single [simp]: "dec_val [c] = digit_val c"
  by (simp add: dec_val_def)

lemma dec_val_Nil [simp]: "dec_val [] = 0"
  by (simp add: dec_val_def)

lemma show_nat_digits: "list_all is_digit (show_nat n)"
proof (induction n rule: show_nat.induct)
  case (1 n)
  then show ?case by (subst show_nat.simps) simp
qed

lemma show_nat_not_Nil [simp]: "show_nat n \<noteq> []"
  by (subst show_nat.simps) simp

lemma dec_val_show_nat [simp]: "dec_val (show_nat n) = n"
proof (induction n rule: show_nat.induct)
  case (1 n)
  then show ?case by (subst show_nat.simps) simp
qed

lemma hd_show_nat: "0 < n \<Longrightarrow> hd (show_nat n) \<noteq> CHR ''0''"
proof (induction n rule: show_nat.induct)
  case (1 n)
  then show ?case by (subst show_nat.simps) (simp add: digit_char_eq_0)
qed

lemma show_nat_0: "show_nat 0 = ''0''"
  by (subst show_nat.simps) (simp add: digit_char_0)

lemma canonical_show_nat [simp]: "canonical_dec (show_nat n)"
  using show_nat_digits[of n] hd_show_nat[of n]
  by (cases "n = 0") (auto simp: canonical_dec_def show_nat_0)

lemma show_nat_inject [simp]: "show_nat m = show_nat n \<longleftrightarrow> m = n"
  by (metis dec_val_show_nat)

lemma dec_val_pos: "s \<noteq> [] \<Longrightarrow> list_all is_digit s \<Longrightarrow> hd s \<noteq> CHR ''0'' \<Longrightarrow> 0 < dec_val s"
proof (induction s rule: rev_induct)
  case Nil
  then show ?case by simp
next
  case (snoc c s)
  show ?case
  proof (cases "s = []")
    case True
    with snoc.prems have "is_digit c" "c \<noteq> CHR ''0''" by auto
    then have "digit_val c \<noteq> 0"
      using digit_char_digit_val[of c] by (metis digit_char_eq_0 zero_less_numeral)
    with True show ?thesis by simp
  next
    case False
    with snoc show ?thesis by simp
  qed
qed

lemma show_nat_dec_val_nz:
  "s \<noteq> [] \<Longrightarrow> list_all is_digit s \<Longrightarrow> hd s \<noteq> CHR ''0'' \<Longrightarrow> show_nat (dec_val s) = s"
proof (induction s rule: rev_induct)
  case Nil
  then show ?case by simp
next
  case (snoc c s)
  from snoc.prems have c: "is_digit c" by simp
  show ?case
  proof (cases "s = []")
    case True
    with c show ?thesis
      using digit_val_bound[OF c] by (subst show_nat.simps) simp
  next
    case False
    with snoc have ih: "show_nat (dec_val s) = s" and pos: "0 < dec_val s"
      by (auto intro: dec_val_pos)
    with c show ?thesis
      using digit_val_bound[OF c] by (subst show_nat.simps) simp
  qed
qed

lemma show_nat_dec_val: "canonical_dec s \<Longrightarrow> show_nat (dec_val s) = s"
  by (auto simp: canonical_dec_def show_nat_dec_val_nz)
    (simp add: show_nat_0 digit_val_def)

lemma canonical_dec_iff: "canonical_dec s \<longleftrightarrow> (\<exists>n. s = show_nat n)"
  using show_nat_dec_val by (metis canonical_show_nat)

lemma canonical_dec_inject:
  "canonical_dec s \<Longrightarrow> canonical_dec t \<Longrightarrow> dec_val s = dec_val t \<longleftrightarrow> s = t"
  by (metis show_nat_dec_val)

lemma length_show_nat: "n < 10 ^ Suc k \<Longrightarrow> length (show_nat n) \<le> Suc k"
proof (induction k arbitrary: n)
  case 0
  then show ?case by (subst show_nat.simps) simp
next
  case (Suc k)
  have "n div 10 < 10 ^ Suc k" using Suc.prems by (simp add: less_mult_imp_div_less mult.commute)
  with Suc.IH show ?case by (subst show_nat.simps) simp
qed

text \<open>\<open>toLowerCase\<close> on the code units below 256.\<close>

definition lower_char :: "char \<Rightarrow> char" where
  "lower_char c =
     (let n = of_char c :: nat
      in if (65 \<le> n \<and> n \<le> 90) \<or> (192 \<le> n \<and> n \<le> 222 \<and> n \<noteq> 215) then char_of (n + 32) else c)"

definition to_lower :: "string \<Rightarrow> string" where
  "to_lower s = map lower_char s"

section \<open>\<open>BigInt(text)\<close>\<close>

text \<open>
  ECMAScript's \<open>StringToBigInt\<close>: white space is trimmed, the empty string is 0, a sign is
  allowed before decimal digits only, and \<open>0x\<close>, \<open>0o\<close>, \<open>0b\<close> select a radix. \<open>None\<close> is
  the \<open>SyntaxError\<close> the code catches.
\<close>

definition js_space :: "char \<Rightarrow> bool" where
  "js_space c \<longleftrightarrow> (of_char c :: nat) \<in> {9, 10, 11, 12, 13, 32, 160}"

definition js_trim :: "string \<Rightarrow> string" where
  "js_trim s = rev (dropWhile js_space (rev (dropWhile js_space s)))"

definition radix_digit :: "nat \<Rightarrow> char \<Rightarrow> nat option" where
  "radix_digit r c =
     (let n = of_char c :: nat;
          d = (if 48 \<le> n \<and> n \<le> 57 then n - 48
               else if 97 \<le> n \<and> n \<le> 102 then n - 87
               else if 65 \<le> n \<and> n \<le> 70 then n - 55 else 16)
      in if d < r then Some d else None)"

fun radix_val :: "nat \<Rightarrow> nat \<Rightarrow> string \<Rightarrow> nat option" where
  "radix_val r acc [] = Some acc"
| "radix_val r acc (c # cs) =
     (case radix_digit r c of None \<Rightarrow> None | Some d \<Rightarrow> radix_val r (r * acc + d) cs)"

definition radix_lit :: "nat \<Rightarrow> string \<Rightarrow> nat option" where
  "radix_lit r cs = (if cs = [] then None else radix_val r 0 cs)"

definition js_BigInt :: "string \<Rightarrow> int option" where
  "js_BigInt s =
     (let t = js_trim s in
      if t = [] then Some 0
      else if take 2 t = ''0x'' \<or> take 2 t = ''0X'' then map_option int (radix_lit 16 (drop 2 t))
      else if take 2 t = ''0o'' \<or> take 2 t = ''0O'' then map_option int (radix_lit 8 (drop 2 t))
      else if take 2 t = ''0b'' \<or> take 2 t = ''0B'' then map_option int (radix_lit 2 (drop 2 t))
      else if hd t = CHR ''-'' then map_option (\<lambda>n. - int n) (radix_lit 10 (tl t))
      else if hd t = CHR ''+'' then map_option int (radix_lit 10 (tl t))
      else map_option int (radix_lit 10 t))"

lemma radix_digit_10: "is_digit c \<Longrightarrow> radix_digit 10 c = Some (digit_val c)"
  by (auto simp: radix_digit_def is_digit_def digit_val_def Let_def)

lemma radix_val_10: "list_all is_digit s \<Longrightarrow> radix_val 10 a s = Some (foldl (\<lambda>a c. 10 * a + digit_val c) a s)"
  by (induction s arbitrary: a) (auto simp: radix_digit_10)

lemma digit_not_space: "is_digit c \<Longrightarrow> \<not> js_space c"
  by (auto simp: is_digit_def js_space_def)

lemma dropWhile_digits: "list_all is_digit s \<Longrightarrow> dropWhile js_space s = s"
  by (cases s) (auto simp: digit_not_space)

lemma js_trim_digits: "list_all is_digit s \<Longrightarrow> js_trim s = s"
  by (simp add: js_trim_def dropWhile_digits list_all_rev)

lemma digits_no_prefix:
  assumes "list_all is_digit s" and "\<not> is_digit c"
  shows "take 2 s \<noteq> [d, c]"
proof
  assume h: "take 2 s = [d, c]"
  then have "c \<in> set s" by (metis in_set_takeD list.set_intros(1) list.set_intros(2))
  with assms show False by (simp add: list_all_iff)
qed

lemma js_BigInt_digits:
  assumes "s \<noteq> []" and "list_all is_digit s"
  shows "js_BigInt s = Some (int (dec_val s))"
proof -
  have nd: "\<not> is_digit c" if "c \<in> set ''xXoObB-+''" for c
    using that by (auto simp: is_digit_def)
  have "hd s \<in> set s" using assms(1) by simp
  then have "is_digit (hd s)" using assms(2) by (simp add: list_all_iff)
  then have "hd s \<noteq> CHR ''-''" "hd s \<noteq> CHR ''+''" using nd by auto
  then show ?thesis
    using assms nd
    by (simp add: js_BigInt_def js_trim_digits digits_no_prefix radix_lit_def radix_val_10 dec_val_def
        Let_def)
qed

lemma js_BigInt_show_nat [simp]: "js_BigInt (show_nat n) = Some (int n)"
  using js_BigInt_digits[OF show_nat_not_Nil show_nat_digits] by simp

lemma js_BigInt_canonical: "canonical_dec s \<Longrightarrow> js_BigInt s = Some (int (dec_val s))"
  by (metis canonical_dec_iff js_BigInt_show_nat dec_val_show_nat)

section \<open>\<open>split\<close> and \<open>join\<close>\<close>

fun split_on :: "'a \<Rightarrow> 'a list \<Rightarrow> 'a list list" where
  "split_on d [] = [[]]"
| "split_on d (x # xs) =
     (if x = d then [] # split_on d xs
      else case split_on d xs of [] \<Rightarrow> [[x]] | y # ys \<Rightarrow> (x # y) # ys)"

lemma split_on_not_Nil [simp]: "split_on d xs \<noteq> []"
  by (induction xs) (auto split: list.splits)

lemma split_on_absent: "d \<notin> set xs \<Longrightarrow> split_on d xs = [xs]"
  by (induction xs) auto

lemma split_on_append: "d \<notin> set xs \<Longrightarrow> split_on d (xs @ d # ys) = xs # split_on d ys"
  by (induction xs) auto

lemma split_on_join: "split_on d (xs @ d # ys) = split_on d xs @ split_on d ys"
  by (induction xs) (auto split: list.splits)

text \<open>\<open>segments.join(":")\<close>.\<close>

fun join_on :: "'a \<Rightarrow> 'a list list \<Rightarrow> 'a list" where
  "join_on d [] = []"
| "join_on d [x] = x"
| "join_on d (x # y # ys) = x @ d # join_on d (y # ys)"

section \<open>Strict codecs\<close>

text \<open>
  The contract every wire format of the program shares: decoding what was encoded gives the
  value back, and only encodings decode. The formats interpret it on their own functions.
\<close>

locale strict_codec =
  fixes enc :: "'a \<Rightarrow> 'b"
    and dec :: "'b \<Rightarrow> 'e + 'a"
    and wf :: "'a \<Rightarrow> bool"
  assumes dec_enc: "wf x \<Longrightarrow> dec (enc x) = Inr x"
    and enc_dec: "dec b = Inr x \<Longrightarrow> wf x \<and> enc x = b"
begin

lemma enc_inj: "wf x \<Longrightarrow> wf y \<Longrightarrow> enc x = enc y \<Longrightarrow> x = y"
  using dec_enc by (metis sum.inject(2))

lemma dec_unique: "dec b = Inr x \<Longrightarrow> dec b' = Inr x \<Longrightarrow> b = b'"
  using enc_dec by blast

lemma dec_iff: "dec b = Inr x \<longleftrightarrow> wf x \<and> b = enc x"
  using dec_enc enc_dec by blast

lemma dec_fails_iff: "(\<exists>e. dec b = Inl e) \<longleftrightarrow> b \<notin> enc ` Collect wf"
  using dec_enc enc_dec by (cases "dec b") auto

end

text \<open>Two codecs in sequence, the outer one applied to the inner one's output.\<close>

locale layered_codec =
  inner: strict_codec enc1 dec1 wf1 + outer: strict_codec enc2 dec2 wf2
  for enc1 :: "'a \<Rightarrow> 'b" and dec1 :: "'b \<Rightarrow> 'e + 'a" and wf1 :: "'a \<Rightarrow> bool"
    and enc2 :: "'b \<Rightarrow> 'c" and dec2 :: "'c \<Rightarrow> 'e + 'b" and wf2 :: "'b \<Rightarrow> bool" +
  assumes wf_layer: "wf1 x \<Longrightarrow> wf2 (enc1 x)"
begin

lemma layered_dec_enc: "wf1 x \<Longrightarrow> bindE (dec2 (enc2 (enc1 x))) dec1 = Inr x"
  by (simp add: outer.dec_enc wf_layer inner.dec_enc)

lemma layered_enc_dec: "bindE (dec2 c) dec1 = Inr x \<Longrightarrow> wf1 x \<and> enc2 (enc1 x) = c"
  using outer.enc_dec inner.enc_dec by (auto simp: bindE_Inr_iff)

end

sublocale layered_codec \<subseteq> both: strict_codec "enc2 \<circ> enc1" "\<lambda>c. bindE (dec2 c) dec1" wf1
  by unfold_locales (simp_all add: layered_dec_enc layered_enc_dec)

end
