(* ===== verification/Json.thy ===== *)
theory Json
  imports Prelude
begin

text \<open>
  JavaScript's \<open>JSON.parse\<close> and \<open>JSON.stringify\<close>, as far as the control frames and the
  stored payloads use them. A number that is an integer is \<open>JNum\<close>; any other number is kept
  as its literal in \<open>JFrac\<close>, since no modelled check looks at its value (rounding of literals
  beyond 53 bits is not modelled). An object is an association list with distinct keys in
  insertion order; \<open>JSON.parse\<close> lets the last of several equal keys win.
\<close>

datatype json =
    JNull
  | JBool bool
  | JNum int
  | JFrac string
  | JStr string
  | JArr "json list"
  | JObj "(string \<times> json) list"

section \<open>Scanning\<close>

definition json_ws :: "char \<Rightarrow> bool" where
  "json_ws c \<longleftrightarrow> c \<in> {CHR '' '', CHR 0x09, CHR 0x0A, CHR 0x0D}"

definition skip_ws :: "string \<Rightarrow> string" where
  "skip_ws s = dropWhile json_ws s"

definition starts :: "char \<Rightarrow> string \<Rightarrow> bool" where
  "starts c s \<longleftrightarrow> s \<noteq> [] \<and> hd s = c"

text \<open>The least integer that rounds to \<open>Infinity\<close>.\<close>

definition double_overflow :: int where
  "double_overflow = 2 ^ 1024 - 2 ^ 970"

definition int_of_dec :: "string \<Rightarrow> int \<Rightarrow> string \<Rightarrow> json" where
  "int_of_dec digits e lexeme =
     (let m = int (dec_val digits) in
      if 0 \<le> e then
        (if m * 10 ^ nat e < double_overflow then JNum (m * 10 ^ nat e) else JFrac lexeme)
      else if 10 ^ nat (- e) dvd m \<and> m div 10 ^ nat (- e) < double_overflow
        then JNum (m div 10 ^ nat (- e))
      else JFrac lexeme)"

fun negate_num :: "json \<Rightarrow> json" where
  "negate_num (JNum n) = JNum (- n)"
| "negate_num (JFrac l) = JFrac (CHR ''-'' # l)"
| "negate_num v = v"

definition lex_exponent :: "string \<Rightarrow> (int \<times> string) option" where
  "lex_exponent s =
     (if starts CHR ''e'' s \<or> starts CHR ''E'' s then
        let t = tl s;
            u = (if starts CHR ''+'' t \<or> starts CHR ''-'' t then tl t else t);
            ds = takeWhile is_digit u
        in if ds = [] then None
           else Some ((if starts CHR ''-'' t then - int (dec_val ds) else int (dec_val ds)),
                      dropWhile is_digit u)
      else Some (0, s))"

definition lex_unsigned :: "string \<Rightarrow> (json \<times> string) option" where
  "lex_unsigned s =
     (let ip = takeWhile is_digit s; t = dropWhile is_digit s in
      if ip = [] \<or> (hd ip = CHR ''0'' \<and> tl ip \<noteq> []) then None
      else
        let fp = (if starts CHR ''.'' t then takeWhile is_digit (tl t) else []);
            u = (if starts CHR ''.'' t then dropWhile is_digit (tl t) else t)
        in if starts CHR ''.'' t \<and> fp = [] then None
           else case lex_exponent u of
             None \<Rightarrow> None
           | Some (e, r) \<Rightarrow>
               Some (int_of_dec (ip @ fp) (e - int (length fp)) (take (length s - length r) s), r))"

definition lex_number :: "string \<Rightarrow> (json \<times> string) option" where
  "lex_number s =
     (if starts CHR ''-'' s
      then map_option (\<lambda>(v, r). (negate_num v, r)) (lex_unsigned (tl s))
      else lex_unsigned s)"

definition cons_char :: "char \<Rightarrow> (string \<times> string) option \<Rightarrow> (string \<times> string) option" where
  "cons_char c = map_option (\<lambda>(s, r). (c # s, r))"

text \<open>A string body, after its opening quote. A \<open>\u\<close> escape beyond the modelled code units
  (\<open>00FF\<close>) is refused.\<close>

definition simple_escape :: "char \<Rightarrow> char option" where
  "simple_escape e =
     (if e = CHR 0x22 then Some (CHR 0x22) else if e = CHR 0x5C then Some (CHR 0x5C)
      else if e = CHR ''/'' then Some (CHR ''/'') else if e = CHR ''b'' then Some (CHR 0x08)
      else if e = CHR ''f'' then Some (CHR 0x0C) else if e = CHR ''n'' then Some (CHR 0x0A)
      else if e = CHR ''r'' then Some (CHR 0x0D) else if e = CHR ''t'' then Some (CHR 0x09)
      else None)"

function (sequential) lex_string :: "string \<Rightarrow> (string \<times> string) option" where
  "lex_string [] = None"
| "lex_string (c # cs) =
     (if c = CHR 0x22 then Some ([], cs)
      else if c = CHR 0x5C then
        (case cs of
           [] \<Rightarrow> None
         | e # r \<Rightarrow>
             if e = CHR ''u'' then
               (if length r < 4 then None
                else case radix_lit 16 (take 4 r) of
                  None \<Rightarrow> None
                | Some v \<Rightarrow>
                    if v < 256 then cons_char (char_of v) (lex_string (drop 4 r)) else None)
             else case simple_escape e of
                 None \<Rightarrow> None
               | Some x \<Rightarrow> cons_char x (lex_string r))
      else if (of_char c :: nat) < 32 then None
      else cons_char c (lex_string cs))"
  by pat_completeness auto
termination
  by (relation "measure length") auto

declare lex_string.simps [simp del]

section \<open>Parsing\<close>

fun obj_put :: "string \<Rightarrow> 'v \<Rightarrow> (string \<times> 'v) list \<Rightarrow> (string \<times> 'v) list" where
  "obj_put k v [] = [(k, v)]"
| "obj_put k v ((k', v') # kvs) = (if k' = k then (k, v) # kvs else (k', v') # obj_put k v kvs)"

definition obj_of_list :: "(string \<times> 'v) list \<Rightarrow> (string \<times> 'v) list" where
  "obj_of_list kvs = foldl (\<lambda>o' (k, v). obj_put k v o') [] kvs"

lemma length_skip_ws: "length (skip_ws s) \<le> length s"
  by (simp add: skip_ws_def length_dropWhile_le)

lemma starts_length: "starts c s \<Longrightarrow> length (tl s) < length s"
  by (cases s) (auto simp: starts_def)

text \<open>
  Three mutually recursive parsers: a value, the elements of an array after \<open>[\<close>, the members of
  an object after \<open>{\<close>. The rest a parser returns is always shorter than its input
  (lemma \<open>p_shorter\<close> below), so the length tests before the recursive calls never fail; they
  only make the termination argument visible.
\<close>

function (sequential) p_value :: "string \<Rightarrow> (json \<times> string) option"
  and p_elems :: "string \<Rightarrow> (json list \<times> string) option"
  and p_members :: "string \<Rightarrow> ((string \<times> json) list \<times> string) option" where
  "p_value s0 =
     (let s = skip_ws s0 in
      if s = [] then None
      else if hd s = CHR ''{'' then
        (if starts CHR ''}'' (skip_ws (tl s)) then Some (JObj [], tl (skip_ws (tl s)))
         else map_option (\<lambda>(kvs, r). (JObj (obj_of_list kvs), r)) (p_members (tl s)))
      else if hd s = CHR ''['' then
        (if starts CHR '']'' (skip_ws (tl s)) then Some (JArr [], tl (skip_ws (tl s)))
         else map_option (\<lambda>(vs, r). (JArr vs, r)) (p_elems (tl s)))
      else if hd s = CHR 0x22 then map_option (\<lambda>(x, r). (JStr x, r)) (lex_string (tl s))
      else if take 4 s = ''null'' then Some (JNull, drop 4 s)
      else if take 4 s = ''true'' then Some (JBool True, drop 4 s)
      else if take 5 s = ''false'' then Some (JBool False, drop 5 s)
      else lex_number s)"
| "p_elems s =
     (case p_value s of
        None \<Rightarrow> None
      | Some (v, r) \<Rightarrow>
          let t = skip_ws r in
          if starts CHR '']'' t then Some ([v], tl t)
          else if starts CHR '','' t \<and> length t \<le> length s then
            map_option (\<lambda>(vs, r'). (v # vs, r')) (p_elems (tl t))
          else None)"
| "p_members s0 =
     (let s = skip_ws s0 in
      if \<not> starts CHR 0x22 s then None
      else case lex_string (tl s) of
        None \<Rightarrow> None
      | Some (k, r) \<Rightarrow>
          let t = skip_ws r in
          if starts CHR '':'' t \<and> length t \<le> length s then
            (case p_value (tl t) of
               None \<Rightarrow> None
             | Some (v, r2) \<Rightarrow>
                 let t2 = skip_ws r2 in
                 if starts CHR ''}'' t2 then Some ([(k, v)], tl t2)
                 else if starts CHR '','' t2 \<and> length t2 \<le> length s then
                   map_option (\<lambda>(kvs, r'). ((k, v) # kvs, r')) (p_members (tl t2))
                 else None)
          else None)"
  by pat_completeness auto

termination
proof (relation "measure (\<lambda>x. case x of Inl s \<Rightarrow> 2 * length s
    | Inr (Inl s) \<Rightarrow> 2 * length s + 1 | Inr (Inr s) \<Rightarrow> 2 * length s + 1)", goal_cases)
  case 1
  then show ?case by simp
next
  case (2 s0 s)
  then show ?case using length_skip_ws[of s0] by (cases "skip_ws s0") auto
next
  case (3 s0 s)
  then show ?case using length_skip_ws[of s0] by (cases "skip_ws s0") auto
next
  case (4 s)
  then show ?case by simp
next
  case (5 s a v r t)
  then show ?case using starts_length[of "CHR '',''" t] by auto
next
  case (6 s0 s a k r t)
  then show ?case using length_skip_ws[of s0] starts_length[of "CHR '':''" t] by auto
next
  case (7 s0 s a k r t b v r2 t2)
  then show ?case using length_skip_ws[of s0] starts_length[of "CHR '',''" t2] by auto
qed

declare p_value.simps [simp del] p_elems.simps [simp del] p_members.simps [simp del]

lemma lex_string_shorter: "lex_string s = Some (x, r) \<Longrightarrow> length r < length s"
proof (induction s arbitrary: x rule: measure_induct_rule[of length])
  case (less s)
  show ?case
  proof (cases s)
    case Nil
    with less.prems show ?thesis by (simp add: lex_string.simps)
  next
    case (Cons c cs)
    have "length r < length t" if "lex_string t = Some (y, r)" "length t \<le> length cs" for t y
      using less.IH[of t y] that Cons by simp
    note ih = this
    show ?thesis
      using less.prems unfolding Cons
      by (subst (asm) lex_string.simps)
        (fastforce simp: cons_char_def split: if_splits list.splits option.splits dest: ih)
  qed
qed

lemma length_dropWhile_digit: "length (dropWhile is_digit s) \<le> length s"
  by (rule length_dropWhile_le)

lemma lex_exponent_shorter: "lex_exponent s = Some (e, r) \<Longrightarrow> length r \<le> length s"
  using length_dropWhile_digit[of "tl s"] length_dropWhile_digit[of "tl (tl s)"]
  by (auto simp: lex_exponent_def Let_def split: if_splits)

lemma lex_unsigned_shorter: "lex_unsigned s = Some (v, r) \<Longrightarrow> length r < length s"
proof -
  assume h: "lex_unsigned s = Some (v, r)"
  let ?ip = "takeWhile is_digit s" and ?t = "dropWhile is_digit s"
  have "?ip \<noteq> []" using h by (auto simp: lex_unsigned_def Let_def)
  then have "0 < length ?ip" by blast
  moreover have "length ?ip + length ?t = length s"
    by (metis length_append takeWhile_dropWhile_id)
  moreover have "length r \<le> length ?t"
    using h length_dropWhile_digit[of "tl ?t"]
    by (auto simp: lex_unsigned_def Let_def split: if_splits option.splits dest!: lex_exponent_shorter)
  ultimately show ?thesis by linarith
qed

lemma lex_number_shorter: "lex_number s = Some (v, r) \<Longrightarrow> length r < length s"
  by (cases s) (auto simp: lex_number_def starts_def split: if_splits dest!: lex_unsigned_shorter)

lemma tl_shorter: "starts c s \<Longrightarrow> length (tl s) + 1 = length s"
  by (cases s) (auto simp: starts_def)

lemma p_shorter:
  "p_value s = Some (v, r) \<Longrightarrow> length r < length s"
  "p_elems s = Some (vs, r) \<Longrightarrow> length r < length s"
  "p_members s = Some (kvs, r) \<Longrightarrow> length r < length s"
proof (induction s and s and s arbitrary: v r and vs r and kvs r rule: p_value_p_elems_p_members.induct)
  case (1 s0)
  define s where "s = skip_ws s0"
  note ih = 1(1)[OF s_def] 1(2)[OF s_def]
  have le: "length s \<le> length s0" and tl_le: "length (skip_ws (tl s)) \<le> length (tl s)"
    unfolding s_def by (rule length_skip_ws)+
  have "length r < length s"
  proof (cases s)
    case Nil
    with 1(3) show ?thesis by (simp add: p_value.simps s_def[symmetric])
  next
    case (Cons c cs)
    note d = 1(3)[unfolded p_value.simps[of s0] s_def[symmetric] Let_def]
    consider "c = CHR ''{''" | "c = CHR ''[''" | "c = CHR 0x22" | "c \<notin> {CHR ''{'', CHR ''['', CHR 0x22}"
      by blast
    then show ?thesis
    proof cases
      case 1
      with d ih(1) tl_le Cons show ?thesis by (fastforce split: if_splits)
    next
      case 2
      with d ih(2) tl_le Cons show ?thesis by (fastforce split: if_splits)
    next
      case 3
      with d Cons show ?thesis by (auto dest: lex_string_shorter)
    next
      case 4
      with d Cons show ?thesis
        by (auto split: if_splits dest: lex_number_shorter)
    qed
  qed
  with le show ?case by linarith
next
  case (2 s)
  from 2(3) obtain v1 r1 where pv: "p_value s = Some (v1, r1)"
    by (auto simp: p_elems.simps split: option.splits)
  have "length (skip_ws r1) < length s"
    using 2(1)[OF pv] length_skip_ws[of r1] by linarith
  then show ?case
    using 2(3) 2(2)[OF pv refl refl] tl_shorter[of _ "skip_ws r1"]
    by (fastforce simp: p_elems.simps[of s] pv Let_def split: if_splits)
next
  case (3 s0)
  define s where "s = skip_ws s0"
  have le: "length s \<le> length s0" unfolding s_def by (rule length_skip_ws)
  note d = 3(3)[unfolded p_members.simps[of s0] s_def[symmetric] Let_def]
  from d have q: "starts CHR 0x22 s" by (auto split: if_splits)
  with d obtain k r1 where ls: "lex_string (tl s) = Some (k, r1)"
    by (auto split: option.splits)
  have r1: "length (skip_ws r1) + 1 < length s"
    using lex_string_shorter[OF ls] tl_shorter[OF q] length_skip_ws[of r1] by linarith
  from d q ls have c: "starts CHR '':'' (skip_ws r1)" by (auto split: if_splits)
  with d q ls obtain v2 r2 where pv: "p_value (tl (skip_ws r1)) = Some (v2, r2)"
    by (auto split: if_splits option.splits)
  have r2: "length (skip_ws r2) + 1 < length s"
    using 3(1)[OF s_def _ ls refl refl _ pv] q c r1 length_skip_ws[of r2] tl_shorter[OF c] by simp
  have ih: "p_members (tl (skip_ws r2)) = Some (kvs', r') \<Longrightarrow> starts CHR '','' (skip_ws r2)
      \<Longrightarrow> length r' < length (tl (skip_ws r2))" for kvs' r'
    using 3(2)[OF s_def _ ls refl refl _ pv refl refl] q c r1 r2 by (auto simp: starts_def)
  show ?case
    using d q c r1 r2 le tl_shorter[of _ "skip_ws r2"]
    by (fastforce simp: ls pv split: if_splits dest: ih)
qed

definition json_parse :: "string \<Rightarrow> json option" where
  "json_parse s =
     (case p_value s of
        None \<Rightarrow> None
      | Some (v, r) \<Rightarrow> if skip_ws r = [] then Some v else None)"

section \<open>Printing\<close>

definition hex_digit :: "nat \<Rightarrow> char" where
  "hex_digit d = ''0123456789abcdef'' ! d"

text \<open>A byte as two lower-case hex digits: \<open>b.toString(16).padStart(2, "0")\<close>.\<close>

definition hex2 :: "nat \<Rightarrow> string" where
  "hex2 b = [hex_digit (b div 16), hex_digit (b mod 16)]"

definition escape_char :: "char \<Rightarrow> string" where
  "escape_char c =
     (if c = CHR 0x22 then [CHR 0x5C, CHR 0x22] else if c = CHR 0x5C then [CHR 0x5C, CHR 0x5C]
      else if c = CHR 0x08 then [CHR 0x5C, CHR ''b''] else if c = CHR 0x0C then [CHR 0x5C, CHR ''f'']
      else if c = CHR 0x0A then [CHR 0x5C, CHR ''n''] else if c = CHR 0x0D then [CHR 0x5C, CHR ''r'']
      else if c = CHR 0x09 then [CHR 0x5C, CHR ''t'']
      else if (of_char c :: nat) < 32 then CHR 0x5C # ''u00'' @ hex2 (of_char c)
      else [c])"

definition quote_string :: "string \<Rightarrow> string" where
  "quote_string s = CHR 0x22 # concat (map escape_char s) @ [CHR 0x22]"

definition show_int :: "int \<Rightarrow> string" where
  "show_int n = (if n < 0 then CHR ''-'' # show_nat (nat (- n)) else show_nat (nat n))"

fun join_comma :: "string list \<Rightarrow> string" where
  "join_comma [] = []"
| "join_comma [x] = x"
| "join_comma (x # y # ys) = x @ CHR '','' # join_comma (y # ys)"

fun json_stringify :: "json \<Rightarrow> string" where
  "json_stringify JNull = ''null''"
| "json_stringify (JBool b) = (if b then ''true'' else ''false'')"
| "json_stringify (JNum n) = show_int n"
| "json_stringify (JFrac l) = l"
| "json_stringify (JStr s) = quote_string s"
| "json_stringify (JArr vs) = CHR ''['' # join_comma (map json_stringify vs) @ '']''"
| "json_stringify (JObj kvs) =
     CHR ''{'' # join_comma (map (\<lambda>(k, v). quote_string k @ CHR '':'' # json_stringify v) kvs) @ ''}''"

section \<open>Printing, then parsing, gives the value back\<close>

text \<open>The values the code prints: safe integers as numbers, objects with distinct keys.\<close>

fun json_wf :: "json \<Rightarrow> bool" where
  "json_wf (JNum n) = (\<bar>n\<bar> \<le> 9007199254740991)"
| "json_wf (JFrac l) = False"
| "json_wf (JArr vs) = (\<forall>v \<in> set vs. json_wf v)"
| "json_wf (JObj kvs) = (distinct (map fst kvs) \<and> (\<forall>kv \<in> set kvs. json_wf (snd kv)))"
| "json_wf v = True"

lemma hex_digits_all: "list_all (\<lambda>d. radix_digit 16 (hex_digit d) = Some d) [0..<16]"
  by (simp add: upt_rec hex_digit_def radix_digit_def)

lemma radix_digit_hex_digit [simp]: "d < 16 \<Longrightarrow> radix_digit 16 (hex_digit d) = Some d"
  using hex_digits_all by (simp add: list_all_iff)

lemma radix_lit_hex2: "v < 256 \<Longrightarrow> radix_lit 16 (CHR ''0'' # CHR ''0'' # hex2 v) = Some v"
proof -
  assume "v < 256"
  then have "v div 16 < 16" "v mod 16 < 16" by auto
  moreover have "radix_digit 16 (CHR ''0'') = Some 0" by (simp add: radix_digit_def)
  ultimately show ?thesis by (simp add: radix_lit_def hex2_def)
qed

lemma length_hex2 [simp]: "length (hex2 v) = 2"
  by (simp add: hex2_def)

lemma lex_string_close: "lex_string (CHR 0x22 # s) = Some ([], s)"
  by (simp add: lex_string.simps)

lemma lex_string_simple:
  "e \<noteq> CHR ''u'' \<Longrightarrow> lex_string (CHR 0x5C # e # s) =
     (case simple_escape e of None \<Rightarrow> None | Some x \<Rightarrow> cons_char x (lex_string s))"
  by (simp add: lex_string.simps)

lemma lex_string_u00:
  assumes "v < 256"
  shows "lex_string (CHR 0x5C # CHR ''u'' # CHR ''0'' # CHR ''0'' # hex2 v @ s) =
     cons_char (char_of v) (lex_string s)"
proof -
  have "take 4 (CHR ''0'' # CHR ''0'' # hex2 v @ s) = CHR ''0'' # CHR ''0'' # hex2 v"
    "drop 4 (CHR ''0'' # CHR ''0'' # hex2 v @ s) = s"
    by (simp_all add: hex2_def)
  then show ?thesis
    using assms by (subst lex_string.simps) (simp add: radix_lit_hex2 del: take_Cons_numeral drop_Cons_numeral)
qed

lemma lex_string_plain:
  "c \<noteq> CHR 0x22 \<Longrightarrow> c \<noteq> CHR 0x5C \<Longrightarrow> \<not> (of_char c :: nat) < 32 \<Longrightarrow>
     lex_string (c # s) = cons_char c (lex_string s)"
  by (simp add: lex_string.simps)

lemma lex_string_escape: "lex_string (escape_char c @ s) = cons_char c (lex_string s)"
  unfolding escape_char_def
  by (simp add: lex_string_simple simple_escape_def lex_string_u00 lex_string_plain)

lemma lex_string_quoted:
  "lex_string (concat (map escape_char k) @ CHR 0x22 # s) = Some (k, s)"
  by (induction k) (simp_all add: lex_string_escape lex_string_close cons_char_def)

lemma skip_ws_stop [simp]: "s \<noteq> [] \<Longrightarrow> \<not> json_ws (hd s) \<Longrightarrow> skip_ws s = s"
  by (cases s) (auto simp: skip_ws_def)

definition delimited :: "string \<Rightarrow> bool" where
  "delimited r \<longleftrightarrow> r = [] \<or> hd r \<in> {CHR '','', CHR '']'', CHR ''}''}"

lemma delimited_no_number:
  assumes "delimited r"
  shows "takeWhile is_digit r = []" "dropWhile is_digit r = r"
    "\<not> starts CHR ''.'' r" "lex_exponent r = Some (0, r)"
  using assms by (cases r; auto simp: delimited_def is_digit_def starts_def lex_exponent_def)+

lemma takeWhile_digits_append:
  "list_all is_digit s \<Longrightarrow> takeWhile is_digit (s @ r) = s @ takeWhile is_digit r"
  "list_all is_digit s \<Longrightarrow> dropWhile is_digit (s @ r) = dropWhile is_digit r"
  by (induction s) auto

lemma show_nat_leading_zero: "hd (show_nat n) = CHR ''0'' \<Longrightarrow> tl (show_nat n) = []"
  using hd_show_nat[of n] by (cases "n = 0") (auto simp: show_nat_0)

lemma safe_lt_overflow: "n \<le> 9007199254740991 \<Longrightarrow> n < double_overflow"
  by (simp add: double_overflow_def)

lemma lex_unsigned_show_nat:
  assumes "delimited r" and "int n \<le> 9007199254740991"
  shows "lex_unsigned (show_nat n @ r) = Some (JNum (int n), r)"
  using assms show_nat_leading_zero[of n] safe_lt_overflow[OF assms(2)]
  by (auto simp: lex_unsigned_def takeWhile_digits_append show_nat_digits delimited_no_number
      int_of_dec_def Let_def)

lemma is_digit_hd_show_nat: "is_digit (hd (show_nat n))"
  using show_nat_digits[of n] by (cases "show_nat n") auto

lemma show_nat_starts [simp]:
  "\<not> is_digit c \<Longrightarrow> \<not> starts c (show_nat n @ r)"
  using is_digit_hd_show_nat[of n] by (auto simp: starts_def hd_append)

lemma lex_number_show_int:
  assumes "delimited r" and "\<bar>n\<bar> \<le> 9007199254740991"
  shows "lex_number (show_int n @ r) = Some (JNum n, r)"
  using assms
  by (auto simp: lex_number_def show_int_def lex_unsigned_show_nat starts_def[of _ "_ # _"]
      is_digit_def)

lemma take_Cons_hd: "take n s = c # x \<Longrightarrow> hd s = c"
  by (cases s; cases n) auto

lemma p_value_number:
  assumes "delimited r" and "\<bar>n\<bar> \<le> 9007199254740991"
  shows "p_value (show_int n @ r) = Some (JNum n, r)"
proof -
  define s where "s = show_int n @ r"
  have hd: "hd s = CHR ''-'' \<or> is_digit (hd s)" and ne: "s \<noteq> []"
    using is_digit_hd_show_nat by (auto simp: s_def show_int_def hd_append)
  have letters: "\<forall>c \<in> set ''-{[ntf '' \<union> {CHR 0x22, CHR 0x09, CHR 0x0A, CHR 0x0D}. \<not> is_digit c"
    by (simp add: is_digit_def)
  then have nd: "hd s \<notin> set ''{[ntf '' \<union> {CHR 0x22, CHR 0x09, CHR 0x0A, CHR 0x0D}"
    using hd by auto
  then have ws: "skip_ws s = s"
    using ne by (intro skip_ws_stop) (simp_all add: json_ws_def)
  have "take 4 s \<noteq> ''null''" "take 4 s \<noteq> ''true''" "take 5 s \<noteq> ''false''"
    using nd take_Cons_hd by fastforce+
  then have "p_value s = lex_number s"
    using ne nd by (subst p_value.simps) (simp add: ws Let_def)
  then show ?thesis
    by (simp add: s_def lex_number_show_int[OF assms])
qed

lemma obj_put_fresh: "k \<notin> fst ` set kvs \<Longrightarrow> obj_put k v kvs = kvs @ [(k, v)]"
  by (induction k v kvs rule: obj_put.induct) auto

lemma obj_of_list_distinct: "distinct (map fst kvs) \<Longrightarrow> obj_of_list kvs = kvs"
  unfolding obj_of_list_def
  by (induction kvs rule: rev_induct) (auto simp: obj_put_fresh)

lemma keys_obj_put: "fst ` set (obj_put k v kvs) = insert k (fst ` set kvs)"
  by (induction k v kvs rule: obj_put.induct) auto

lemma map_fst_obj_put:
  "map fst (obj_put k v kvs) = (if k \<in> fst ` set kvs then map fst kvs else map fst kvs @ [k])"
  by (induction k v kvs rule: obj_put.induct) auto

lemma distinct_obj_put: "distinct (map fst kvs) \<Longrightarrow> distinct (map fst (obj_put k v kvs))"
  by (simp add: map_fst_obj_put)

lemma hd_escape_or_quote: "starts CHR 0x22 (quote_string k @ s)"
  by (simp add: quote_string_def starts_def)

lemma json_stringify_hd:
  "json_wf v \<Longrightarrow> json_stringify v \<noteq> [] \<and>
     (is_digit (hd (json_stringify v)) \<or> hd (json_stringify v) \<in> set ''ntf-[{'' \<union> {CHR 0x22})"
  using is_digit_hd_show_nat by (cases v) (auto simp: show_int_def quote_string_def)

lemma json_stringify_hd_not:
  assumes "json_wf v"
  shows "json_stringify v \<noteq> []" "\<not> json_ws (hd (json_stringify v))"
    "hd (json_stringify v) \<noteq> CHR '']''"
proof -
  have "\<forall>c \<in> set '' ]'' \<union> {CHR 0x09, CHR 0x0A, CHR 0x0D}. \<not> is_digit c"
    by (simp add: is_digit_def)
  then show "json_stringify v \<noteq> []" "\<not> json_ws (hd (json_stringify v))"
    "hd (json_stringify v) \<noteq> CHR '']''"
    using json_stringify_hd[OF assms] by (auto simp: json_ws_def)
qed

lemma skip_ws_structural [simp]:
  "skip_ws (CHR '','' # s) = CHR '','' # s" "skip_ws (CHR '']'' # s) = CHR '']'' # s"
  "skip_ws (CHR ''}'' # s) = CHR ''}'' # s" "skip_ws (CHR '':'' # s) = CHR '':'' # s"
  "skip_ws (CHR ''['' # s) = CHR ''['' # s" "skip_ws (CHR ''{'' # s) = CHR ''{'' # s"
  "skip_ws (CHR 0x22 # s) = CHR 0x22 # s"
  by (simp_all add: skip_ws_def json_ws_def)

lemma delimited_simps [simp]:
  "delimited []" "delimited (CHR '','' # s)" "delimited (CHR '']'' # s)" "delimited (CHR ''}'' # s)"
  by (simp_all add: delimited_def)

lemma starts_Cons [simp]: "starts c (x # xs) \<longleftrightarrow> x = c"
  by (simp add: starts_def)

lemma p_elems_join:
  assumes "vs \<noteq> []" and "\<And>v r. v \<in> set vs \<Longrightarrow> delimited r \<Longrightarrow> p_value (json_stringify v @ r) = Some (v, r)"
  shows "p_elems (join_comma (map json_stringify vs) @ CHR '']'' # r) = Some (vs, r)"
  using assms
proof (induction vs rule: list_nonempty_induct)
  case (single v)
  then show ?case by (subst p_elems.simps) (simp add: Let_def)
next
  case (cons v vs)
  then obtain w ws where vs: "vs = w # ws" by (cases vs) auto
  from cons have ih: "p_elems (join_comma (map json_stringify vs) @ CHR '']'' # r) = Some (vs, r)"
    by simp
  have v: "p_value (json_stringify v @ CHR '','' # x) = Some (v, CHR '','' # x)" for x
    using cons.prems by simp
  show ?case using ih v
    by (subst p_elems.simps) (simp add: vs Let_def)
qed

lemma p_members_join:
  assumes "kvs \<noteq> []" and "\<And>kv r. kv \<in> set kvs \<Longrightarrow> delimited r \<Longrightarrow>
    p_value (json_stringify (snd kv) @ r) = Some (snd kv, r)"
  shows "p_members (join_comma (map (\<lambda>(k, v). quote_string k @ CHR '':'' # json_stringify v) kvs)
    @ CHR ''}'' # r) = Some (kvs, r)"
  using assms
proof (induction kvs rule: list_nonempty_induct)
  case (single kv)
  then show ?case
    by (cases kv, subst p_members.simps) (simp add: quote_string_def lex_string_quoted Let_def)
next
  case (cons kv kvs)
  then obtain kw ks where kvs: "kvs = kw # ks" by (cases kvs) auto
  obtain k v where kv: "kv = (k, v)" by (cases kv)
  from cons have ih: "p_members (join_comma (map (\<lambda>(k, v). quote_string k @ CHR '':'' # json_stringify v) kvs)
    @ CHR ''}'' # r) = Some (kvs, r)"
    by simp
  have v: "p_value (json_stringify v @ CHR '','' # x) = Some (v, CHR '','' # x)" for x
    using cons.prems(1)[of kv] by (simp add: kv)
  show ?case using ih v
    by (subst p_members.simps) (simp add: kv kvs quote_string_def lex_string_quoted Let_def)
qed

lemma p_value_stringify:
  "json_wf v \<Longrightarrow> delimited r \<Longrightarrow> p_value (json_stringify v @ r) = Some (v, r)"
proof (induction v arbitrary: r)
  case (JNum n)
  then show ?case by (simp add: p_value_number)
next
  case (JStr s)
  then show ?case
    by (subst p_value.simps) (simp add: quote_string_def lex_string_quoted Let_def)
next
  case (JArr vs)
  show ?case
  proof (cases "vs = []")
    case True
    then show ?thesis by (subst p_value.simps) (simp add: Let_def)
  next
    case False
    then obtain w ws where vs: "vs = w # ws" by (cases vs) auto
    let ?t = "join_comma (map json_stringify vs) @ CHR '']'' # r"
    have el: "p_elems ?t = Some (vs, r)"
      by (rule p_elems_join[OF False]) (use JArr in auto)
    have w: "json_wf w" using JArr.prems vs by simp
    have "\<exists>x. ?t = json_stringify w @ x" by (cases ws) (simp_all add: vs)
    then have "\<not> starts CHR '']'' (skip_ws ?t)"
      using json_stringify_hd_not[OF w] by (auto simp: starts_def)
    with el show ?thesis by (subst p_value.simps) (simp add: Let_def)
  qed
next
  case (JObj kvs)
  show ?case
  proof (cases "kvs = []")
    case True
    then show ?thesis by (subst p_value.simps) (simp add: Let_def)
  next
    case False
    then obtain kw ks where kvs: "kvs = kw # ks" by (cases kvs) auto
    let ?t = "join_comma (map (\<lambda>(k, v). quote_string k @ CHR '':'' # json_stringify v) kvs)
      @ CHR ''}'' # r"
    have el: "p_members ?t = Some (kvs, r)"
    proof (rule p_members_join[OF False])
      fix kv r' assume "kv \<in> set kvs" "delimited r'"
      then show "p_value (json_stringify (snd kv) @ r') = Some (snd kv, r')"
        using JObj.IH[of kv "snd kv" r'] JObj.prems by (auto simp: snds.simps prod_set_simps)
    qed
    have "\<exists>k x. ?t = quote_string k @ x" by (cases ks; cases kw) (auto simp: kvs)
    then have "\<not> starts CHR ''}'' (skip_ws ?t)"
      by (auto simp: quote_string_def)
    with el show ?thesis
      using JObj.prems by (subst p_value.simps) (simp add: Let_def obj_of_list_distinct)
  qed
next
  case (JBool b)
  then show ?case by (subst p_value.simps) (auto simp: Let_def skip_ws_def json_ws_def)
next
  case JNull
  then show ?case by (subst p_value.simps) (auto simp: Let_def skip_ws_def json_ws_def)
qed simp

lemma json_parse_stringify: "json_wf v \<Longrightarrow> json_parse (json_stringify v) = Some v"
  using p_value_stringify[of v "[]"] by (simp add: json_parse_def skip_ws_def)

section \<open>What \<open>JSON.parse\<close> returns is an object with distinct keys\<close>

lemma distinct_obj_of_list: "distinct (map fst (obj_of_list kvs))"
  unfolding obj_of_list_def
  by (induction kvs rule: rev_induct) (auto simp: distinct_obj_put)

section \<open>Reading a property\<close>

text \<open>
  \<open>obj.k\<close> where the code has checked \<open>typeof\<close>: the string there, or \<open>None\<close> when it is
  missing or of another type; and the same for an integer.
\<close>

definition string_field :: "string \<Rightarrow> json \<Rightarrow> string option" where
  "string_field k v =
     (case v of
        JObj kvs \<Rightarrow> (case map_of kvs k of Some (JStr s) \<Rightarrow> Some s | _ \<Rightarrow> None)
      | _ \<Rightarrow> None)"

definition int_field :: "string \<Rightarrow> json \<Rightarrow> int option" where
  "int_field k v =
     (case v of
        JObj kvs \<Rightarrow> (case map_of kvs k of Some (JNum n) \<Rightarrow> Some n | _ \<Rightarrow> None)
      | _ \<Rightarrow> None)"

end
