(* ===== verification/Identities.thy ===== *)
theory Identities
  imports Prelude
begin

text \<open>
  \<open>src/lib/sync/identities.ts\<close>: the operation identity \<open>(replica, counter)\<close>, its wire text
  \<open>"replica:counter"\<close>, and its extraction from the header of canonical operation bytes.
\<close>

record ParsedIdentity =
  id_replica :: nat
  id_counter :: nat

definition parseOpIdentity :: "string \<Rightarrow> ParsedIdentity option" where
  "parseOpIdentity s =
     (case split_on CHR '':'' s of
        [p0, p1] \<Rightarrow>
          (case (js_BigInt p0, js_BigInt p1) of
             (Some r, Some c) \<Rightarrow>
               if r \<le> 0 \<or> c \<le> 0 then None
               else Some \<lparr>id_replica = nat r, id_counter = nat c\<rparr>
           | _ \<Rightarrow> None)
      | _ \<Rightarrow> None)"

definition formatOpIdentity :: "nat \<Rightarrow> nat \<Rightarrow> string" where
  "formatOpIdentity r c = show_nat r @ CHR '':'' # show_nat c"

definition identityFromOpBytes :: "bytes \<Rightarrow> ParsedIdentity option" where
  "identityFromOpBytes op =
     (if length op < 18 then None
      else if op ! 0 \<noteq> 1 then None
      else
        let r = le_val (slice 2 8 op); c = le_val (slice 10 8 op) in
        if r \<le> 0 \<or> c \<le> 0 then None
        else Some \<lparr>id_replica = r, id_counter = c\<rparr>)"

section \<open>Text\<close>

lemma colon_not_in_digits: "list_all is_digit s \<Longrightarrow> CHR '':'' \<notin> set s"
  by (auto simp: list_all_iff is_digit_def)

lemma colon_not_in_show_nat [simp]: "CHR '':'' \<notin> set (show_nat n)"
  by (rule colon_not_in_digits) (rule show_nat_digits)

lemma split_formatOpIdentity [simp]:
  "split_on CHR '':'' (formatOpIdentity r c) = [show_nat r, show_nat c]"
  by (simp add: formatOpIdentity_def split_on_append split_on_absent)

lemma formatOpIdentity_inject [simp]:
  "formatOpIdentity r c = formatOpIdentity r' c' \<longleftrightarrow> r = r' \<and> c = c'"
proof
  assume "formatOpIdentity r c = formatOpIdentity r' c'"
  then have "split_on CHR '':'' (formatOpIdentity r c) = split_on CHR '':'' (formatOpIdentity r' c')"
    by simp
  then show "r = r' \<and> c = c'" by simp
qed simp

lemma parse_format:
  "parseOpIdentity (formatOpIdentity r c) =
     (if 0 < r \<and> 0 < c then Some \<lparr>id_replica = r, id_counter = c\<rparr> else None)"
  by (simp add: parseOpIdentity_def)

section \<open>Bytes\<close>

text \<open>The header the engine writes in front of every operation: version 1, a type byte, the
  replica and the counter as little-endian 64-bit integers.\<close>

definition op_header :: "byte \<Rightarrow> nat \<Rightarrow> nat \<Rightarrow> bytes" where
  "op_header ty r c = [1, ty] @ le_bytes 8 r @ le_bytes 8 c"

lemma length_op_header [simp]: "length (op_header ty r c) = 18"
  by (simp add: op_header_def)

lemma slice_op_header:
  "slice 2 8 (op_header ty r c @ body) = le_bytes 8 r"
  "slice 10 8 (op_header ty r c @ body) = le_bytes 8 c"
proof -
  have "slice (2 + 0) 8 ([1, ty] @ (le_bytes 8 r @ le_bytes 8 c @ body)) = le_bytes 8 r"
    by (subst slice_append_skip) (simp_all add: slice_append_hit)
  then show "slice 2 8 (op_header ty r c @ body) = le_bytes 8 r"
    by (simp add: op_header_def)
  have "slice (10 + 0) 8 (([1, ty] @ le_bytes 8 r) @ (le_bytes 8 c @ body)) = le_bytes 8 c"
    by (subst slice_append_skip) (simp_all add: slice_append_hit)
  then show "slice 10 8 (op_header ty r c @ body) = le_bytes 8 c"
    by (simp add: op_header_def)
qed

lemma identity_of_header:
  assumes "0 < r" "r < 2 ^ 64" "0 < c" "c < 2 ^ 64"
  shows "identityFromOpBytes (op_header ty r c @ body) = Some \<lparr>id_replica = r, id_counter = c\<rparr>"
proof -
  have "(op_header ty r c @ body) ! 0 = 1" by (simp add: op_header_def)
  with assms show ?thesis
    by (simp add: identityFromOpBytes_def slice_op_header le_val_le_bytes)
qed

lemma identity_bounds:
  assumes "identityFromOpBytes op = Some i"
  shows "0 < id_replica i" "id_replica i < 2 ^ 64" "0 < id_counter i" "id_counter i < 2 ^ 64"
proof -
  have len: "18 \<le> length op"
    using assms by (simp add: identityFromOpBytes_def split: if_splits)
  have "le_val (slice 2 8 op) < 256 ^ 8" "le_val (slice 10 8 op) < 256 ^ 8"
    using le_val_bound[of "slice 2 8 op"] le_val_bound[of "slice 10 8 op"] len by simp_all
  with assms show "0 < id_replica i" "id_replica i < 2 ^ 64" "0 < id_counter i" "id_counter i < 2 ^ 64"
    by (auto simp: identityFromOpBytes_def Let_def split: if_splits)
qed

text \<open>Conversely, bytes that carry an identity begin with its header.\<close>

lemma identity_header_unique:
  assumes "identityFromOpBytes op = Some i"
  shows "take 18 op = op_header (op ! 1) (id_replica i) (id_counter i)"
proof -
  have len: "18 \<le> length op" and v: "op ! 0 = 1"
    and i: "i = \<lparr>id_replica = le_val (slice 2 8 op), id_counter = le_val (slice 10 8 op)\<rparr>"
    using assms by (auto simp: identityFromOpBytes_def Let_def split: if_splits)
  have s: "le_bytes 8 (le_val (slice 2 8 op)) = slice 2 8 op"
    "le_bytes 8 (le_val (slice 10 8 op)) = slice 10 8 op"
    using len by (simp_all add: le_bytes_le_val')
  have two: "take 2 op = [op ! 0, op ! 1]"
    using len by (cases op; cases "tl op") auto
  have "take (2 + (8 + 8)) op = take 2 op @ slice 2 8 op @ slice (2 + 8) 8 op"
    by (simp only: take_add drop_drop slice_def add.commute)
  then show ?thesis by (simp add: op_header_def i s two v)
qed

end
