(* ===== verification/Catchup_Briefing.thy ===== *)
theory Catchup_Briefing
  imports Identities
begin

text \<open>
  \<open>src/lib/sync/catchup-briefing.ts\<close>: the per-origin operation counts of one catch-up and the
  briefing made from them. The \<open>Map<string, number>\<close> is an association list in insertion
  order; the counters are JavaScript numbers that only grow by one, so \<open>nat\<close>.
\<close>

definition MAX_REPLICA_SUMMARY :: nat where
  "MAX_REPLICA_SUMMARY = 128"

record CatchupOpCounts =
  operationCount :: nat
  unattributedOperationCount :: nat
  replicas :: "(string \<times> nat) list"
  replicaListTruncated :: bool

definition emptyCatchupCounts :: CatchupOpCounts where
  "emptyCatchupCounts = \<lparr>operationCount = 0, unattributedOperationCount = 0, replicas = [],
     replicaListTruncated = False\<rparr>"

text \<open>\<open>Map.set\<close> on a key that is present keeps its position.\<close>

fun bump_replica :: "string \<Rightarrow> (string \<times> nat) list \<Rightarrow> (string \<times> nat) list" where
  "bump_replica k [] = []"
| "bump_replica k ((k', n) # rs) = (if k' = k then (k', n + 1) # rs else (k', n) # bump_replica k rs)"

definition count_one :: "CatchupOpCounts \<Rightarrow> bytes \<Rightarrow> CatchupOpCounts" where
  "count_one counts op =
     (case identityFromOpBytes op of
        None \<Rightarrow> counts\<lparr>unattributedOperationCount := unattributedOperationCount counts + 1\<rparr>
      | Some i \<Rightarrow>
          let replicaId = show_nat (id_replica i) in
          if replicaId \<in> fst ` set (replicas counts)
          then counts\<lparr>replicas := bump_replica replicaId (replicas counts)\<rparr>
          else if length (replicas counts) < MAX_REPLICA_SUMMARY
          then counts\<lparr>replicas := replicas counts @ [(replicaId, 1)]\<rparr>
          else counts\<lparr>replicaListTruncated := True\<rparr>)"

definition countCatchupOps :: "CatchupOpCounts \<Rightarrow> bytes list \<Rightarrow> CatchupOpCounts" where
  "countCatchupOps counts ops =
     foldl count_one (counts\<lparr>operationCount := operationCount counts + length ops\<rparr>) ops"

record CatchupBriefing =
  fromCursor :: string
  toCursor :: string
  durableOperationCount :: "nat option"
  briefing_replicas :: "(string \<times> nat) list option"
  briefing_unattributed :: "nat option"
  briefing_truncated :: "bool option"
  localUnackedOperationCount :: "nat option"

definition createCatchupBriefing ::
  "string \<Rightarrow> string \<Rightarrow> CatchupOpCounts \<Rightarrow> nat option \<Rightarrow> bool \<Rightarrow> CatchupBriefing option" where
  "createCatchupBriefing frm to counts localUnacked operationCountsComplete =
     (case (js_BigInt to, js_BigInt frm) of
        (Some t, Some f) \<Rightarrow>
          if t \<le> f then None
          else Some \<lparr>fromCursor = frm, toCursor = to,
            durableOperationCount =
              (if operationCountsComplete then Some (operationCount counts) else None),
            briefing_replicas = (if operationCountsComplete then Some (replicas counts) else None),
            briefing_unattributed =
              (if operationCountsComplete then Some (unattributedOperationCount counts) else None),
            briefing_truncated =
              (if operationCountsComplete then Some (replicaListTruncated counts) else None),
            localUnackedOperationCount = localUnacked\<rparr>
      | _ \<Rightarrow> None)"

section \<open>The counts add up\<close>

definition attributed :: "(string \<times> nat) list \<Rightarrow> nat" where
  "attributed rs = sum_list (map snd rs)"

definition counts_ok :: "nat \<Rightarrow> CatchupOpCounts \<Rightarrow> bool" where
  "counts_ok pending c \<longleftrightarrow>
     distinct (map fst (replicas c)) \<and> length (replicas c) \<le> MAX_REPLICA_SUMMARY \<and>
     attributed (replicas c) + unattributedOperationCount c + pending \<le> operationCount c \<and>
     (\<not> replicaListTruncated c \<longrightarrow>
        attributed (replicas c) + unattributedOperationCount c + pending = operationCount c)"

lemma map_fst_bump [simp]: "map fst (bump_replica k rs) = map fst rs"
  by (induction k rs rule: bump_replica.induct) auto

lemma length_bump [simp]: "length (bump_replica k rs) = length rs"
  by (induction k rs rule: bump_replica.induct) auto

lemma attributed_bump:
  "k \<in> fst ` set rs \<Longrightarrow> attributed (bump_replica k rs) = attributed rs + 1"
  by (induction k rs rule: bump_replica.induct) (auto simp: attributed_def)

lemma attributed_snoc [simp]: "attributed (rs @ [(k, n)]) = attributed rs + n"
  by (simp add: attributed_def)

text \<open>\<open>pending\<close> is the number of operations of the current page that the loop has not
  reached: the code adds the page's length to the total before it attributes them.\<close>

lemma count_one_ok [inv_intros]: "counts_ok (Suc n) c \<Longrightarrow> counts_ok n (count_one c op)"
  by (auto simp: counts_ok_def count_one_def Let_def attributed_bump split: option.split)

lemma foldl_count_ok: "counts_ok (length ops) c \<Longrightarrow> counts_ok 0 (foldl count_one c ops)"
  by (induction ops arbitrary: c) (auto intro: count_one_ok)

lemma countCatchupOps_ok [inv_intros]: "counts_ok 0 c \<Longrightarrow> counts_ok 0 (countCatchupOps c ops)"
  unfolding countCatchupOps_def
  by (rule foldl_count_ok) (auto simp: counts_ok_def)

lemma emptyCatchupCounts_ok [inv_intros]: "counts_ok 0 emptyCatchupCounts"
  by (simp add: counts_ok_def emptyCatchupCounts_def attributed_def)

definition countPages :: "bytes list list \<Rightarrow> CatchupOpCounts" where
  "countPages pages = foldl countCatchupOps emptyCatchupCounts pages"

lemma countPages_ok: "counts_ok 0 (countPages pages)"
proof -
  have "counts_ok 0 c \<Longrightarrow> counts_ok 0 (foldl countCatchupOps c pages)" for c
    by (induction pages arbitrary: c) (auto intro: countCatchupOps_ok)
  then show ?thesis by (simp add: countPages_def emptyCatchupCounts_ok)
qed

lemma operationCount_count_one [simp]: "operationCount (count_one c op) = operationCount c"
  by (simp add: count_one_def Let_def split: option.split)

lemma operationCount_foldl [simp]: "operationCount (foldl count_one c ops) = operationCount c"
  by (induction ops arbitrary: c) auto

lemma operationCount_pages: "operationCount (countPages pages) = sum_list (map length pages)"
proof -
  have "operationCount (foldl countCatchupOps c pages) =
      operationCount c + sum_list (map length pages)" for c
    by (induction pages arbitrary: c) (auto simp: countCatchupOps_def)
  then show ?thesis by (simp add: countPages_def emptyCatchupCounts_def)
qed

end
