(* ===== verification/Control_Frames.thy ===== *)
theory Control_Frames
  imports Json
begin

text \<open>
  The text half of the wire protocol, \<^verbatim>\<open>src/lib/sync/protocol.ts\<close>: the strict shape validators,
  the table of payload validators, and the decoder and encoder of control frames. A validator
  is a predicate here (\<open>True\<close> where the code's check returns \<open>null\<close>); of a
  \<open>ProtocolDecodeError\<close> its \<open>kind\<close> is kept and its message dropped. The payload
  interfaces of the file are modelled as type descriptors of their own, so that what the
  validators accept can be compared with what the rest of the client casts a payload to.
\<close>

section \<open>Constants\<close>

definition WIRE_VERSION :: nat where "WIRE_VERSION = 1"
definition MAX_TOKEN_BYTES :: nat where "MAX_TOKEN_BYTES = 32 * 1024"

definition ERROR_CODES :: "string list" where
  "ERROR_CODES =
     [''unauthorized'', ''forbidden'', ''unsupported_protocol_version'', ''unknown_frame_type'',
      ''invalid_state'', ''malformed_frame'', ''payload_too_large'', ''rate_limited'',
      ''database_unavailable'', ''server_draining'', ''internal_error'']"

definition FATAL_ERROR_CODES :: "string list" where
  "FATAL_ERROR_CODES = [''unauthorized'', ''unsupported_protocol_version'', ''payload_too_large'']"

definition CONTROL_FRAME_TYPES :: "string list" where
  "CONTROL_FRAME_TYPES =
     [''hello'', ''hello_ack'', ''authenticate'', ''authenticated'', ''join_document'',
      ''join_accepted'', ''sync_request'', ''sync_done'', ''durable_ack'', ''ping'', ''pong'',
      ''fetch_snapshot'', ''snapshot_resync_required'', ''snapshot_payload'', ''error'',
      ''server_draining'', ''presence'', ''presence_update'', ''presence_leave'']"

datatype decode_error =
    FrameTooLarge | InvalidJson | BadEnvelope | UnsupportedVersion
  | UnknownFrameType | BadPayload | BadBinaryHeader | BadBinaryBody

section \<open>Shape validators\<close>

type_synonym check = "json \<Rightarrow> bool"

definition isString :: check where
  "isString v = (case v of JStr s \<Rightarrow> True | _ \<Rightarrow> False)"

definition isUint :: check where
  "isUint v = (case v of JNum n \<Rightarrow> 0 \<le> n | _ \<Rightarrow> False)"

definition isEnum :: "string list \<Rightarrow> check" where
  "isEnum values v = (case v of JStr s \<Rightarrow> s \<in> set values | _ \<Rightarrow> False)"

definition arrayOf :: "check \<Rightarrow> check" where
  "arrayOf check v = (case v of JArr vs \<Rightarrow> list_all check vs | _ \<Rightarrow> False)"

text \<open>
  A shape is a plain object literal: its entries, each with the mark that \<open>optional\<close> leaves on
  a check. The code tests an object's keys with \<open>key in shape\<close>, which also finds what the
  literal inherits from \<open>Object.prototype\<close>. (The opposite test \<open>key in obj\<close> is only made
  for declared keys, none of which is inherited: lemma \<open>declared_not_inherited\<close>.)
\<close>

type_synonym shape = "(string \<times> bool \<times> check) list"

definition required :: "string \<Rightarrow> check \<Rightarrow> string \<times> bool \<times> check" where
  "required k c = (k, False, c)"

definition optional :: "string \<Rightarrow> check \<Rightarrow> string \<times> bool \<times> check" where
  "optional k c = (k, True, c)"

definition object_prototype_keys :: "string list" where
  "object_prototype_keys =
     [''constructor'', ''__defineGetter__'', ''__defineSetter__'', ''hasOwnProperty'',
      ''__lookupGetter__'', ''__lookupSetter__'', ''isPrototypeOf'', ''propertyIsEnumerable'',
      ''toString'', ''valueOf'', ''__proto__'', ''toLocaleString'']"

definition key_in_shape :: "string \<Rightarrow> shape \<Rightarrow> bool" where
  "key_in_shape k sh \<longleftrightarrow> k \<in> fst ` set sh \<or> k \<in> set object_prototype_keys"

definition isStrict :: "shape \<Rightarrow> check" where
  "isStrict sh v =
     (case v of
        JObj kvs \<Rightarrow>
          list_all (\<lambda>(k, is_optional, check).
            case map_of kvs k of None \<Rightarrow> is_optional | Some x \<Rightarrow> check x) sh
          \<and> list_all (\<lambda>(k, x). key_in_shape k sh) kvs
      | _ \<Rightarrow> False)"

section \<open>The payload validators\<close>

definition PAYLOAD_SHAPES :: "(string \<times> shape) list" where
  "PAYLOAD_SHAPES =
    [(''hello'', [required ''clientProtocolVersion'' isUint,
                  optional ''capabilities'' (arrayOf isString)]),
     (''hello_ack'', [required ''protocolVersion'' isUint, required ''connectionId'' isString,
                      optional ''capabilities'' (arrayOf isString)]),
     (''authenticate'', [required ''token'' isString]),
     (''authenticated'', [required ''userId'' isString, required ''clerkUserId'' isString,
                          optional ''orgId'' isString]),
     (''join_document'', [required ''documentId'' isString,
        required ''stateSummary''
          (arrayOf (isStrict [required ''replicaId'' isString, required ''sequence'' isString]))]),
     (''join_accepted'', [required ''documentId'' isString,
        required ''role'' (isEnum [''owner'', ''editor'', ''commenter'', ''viewer'']),
        required ''durableCursor'' isString]),
     (''sync_request'', [required ''cursor'' isString]),
     (''sync_done'', []),
     (''durable_ack'', [required ''batchId'' isString, required ''opIds'' (arrayOf isString)]),
     (''ping'', [required ''nonce'' isString]),
     (''pong'', [required ''nonce'' isString]),
     (''fetch_snapshot'', [required ''snapshotId'' isString]),
     (''snapshot_resync_required'',
        [required ''boundary'' isString, required ''snapshotId'' isString,
         required ''snapshotChecksum'' isString, required ''snapshotFormatVersion'' isString,
         required ''coverageOpCount'' isString]),
     (''snapshot_payload'',
        [required ''snapshotId'' isString, required ''formatVersion'' isString,
         required ''coverageSeq'' isString, required ''coveredOpCount'' isString,
         required ''stateDigest'' isString, required ''checksum'' isString,
         required ''payloadBase64'' isString, required ''payloadSize'' isString]),
     (''error'', [required ''code'' (isEnum ERROR_CODES), required ''message'' isString,
                  optional ''requestId'' isString]),
     (''server_draining'', [required ''reason'' isString, required ''graceMs'' isUint]),
     (''presence'',
        [required ''replicaId'' isString, optional ''anchorItem'' isString,
         required ''anchorSide'' (isEnum [''before'', ''after'']), optional ''headItem'' isString,
         required ''headSide'' (isEnum [''before'', ''after''])]),
     (''presence_update'',
        [required ''connectionId'' isString, required ''userId'' isString,
         required ''replicaId'' isString, optional ''anchorItem'' isString,
         required ''anchorSide'' (isEnum [''before'', ''after'']), optional ''headItem'' isString,
         required ''headSide'' (isEnum [''before'', ''after''])]),
     (''presence_leave'', [required ''connectionId'' isString])]"

definition PAYLOAD_VALIDATORS :: "string \<Rightarrow> check" where
  "PAYLOAD_VALIDATORS t v =
     (case map_of PAYLOAD_SHAPES t of None \<Rightarrow> False | Some sh \<Rightarrow> isStrict sh v)"

section \<open>Decoding and encoding\<close>

record ControlFrame =
  cf_id :: "string option"
  cf_type :: string
  cf_payload :: json

definition is_some_string :: "json option \<Rightarrow> bool" where
  "is_some_string v = (case v of Some (JStr s) \<Rightarrow> True | _ \<Rightarrow> False)"

definition token_too_long :: "string \<Rightarrow> json \<Rightarrow> bool" where
  "token_too_long t payload \<longleftrightarrow>
     t = ''authenticate''
     \<and> (case string_field ''token'' payload of None \<Rightarrow> False | Some tok \<Rightarrow> MAX_TOKEN_BYTES < length tok)"

definition extra_envelope_field :: "(string \<times> json) list \<Rightarrow> bool" where
  "extra_envelope_field obj \<longleftrightarrow>
     list_ex (\<lambda>(k, v). k \<notin> {''v'', ''type'', ''payload'', ''id''}) obj"

definition missing_envelope_field :: "(string \<times> json) list \<Rightarrow> bool" where
  "missing_envelope_field obj \<longleftrightarrow> list_ex (\<lambda>k. map_of obj k = None) [''v'', ''type'', ''payload'']"

definition decodeTyped :: "(string \<times> json) list \<Rightarrow> string \<Rightarrow> json \<Rightarrow> decode_error + ControlFrame" where
  "decodeTyped obj t payload =
     (if t \<notin> set CONTROL_FRAME_TYPES then Inl UnknownFrameType
      else if map_of obj ''id'' \<noteq> None \<and> \<not> is_some_string (map_of obj ''id'') then Inl BadEnvelope
      else if \<not> PAYLOAD_VALIDATORS t payload then Inl BadPayload
      else if token_too_long t payload then Inl BadPayload
      else Inr \<lparr>cf_id = string_field ''id'' (JObj obj), cf_type = t, cf_payload = payload\<rparr>)"

definition decodeEnvelope :: "(string \<times> json) list \<Rightarrow> decode_error + ControlFrame" where
  "decodeEnvelope obj =
     (if extra_envelope_field obj then Inl BadEnvelope
      else if missing_envelope_field obj then Inl BadEnvelope
      else if map_of obj ''v'' \<noteq> Some (JNum (int WIRE_VERSION)) then Inl UnsupportedVersion
      else case (map_of obj ''type'', map_of obj ''payload'') of
        (Some (JStr t), Some payload) \<Rightarrow> decodeTyped obj t payload
      | _ \<Rightarrow> Inl BadEnvelope)"

definition decodeControlFrame :: "string \<Rightarrow> decode_error + ControlFrame" where
  "decodeControlFrame text' =
     (case json_parse text' of
        None \<Rightarrow> Inl InvalidJson
      | Some (JObj obj) \<Rightarrow> decodeEnvelope obj
      | Some _ \<Rightarrow> Inl BadEnvelope)"

definition envelope :: "ControlFrame \<Rightarrow> (string \<times> json) list" where
  "envelope f =
     (''v'', JNum (int WIRE_VERSION))
     # (case cf_id f of None \<Rightarrow> [] | Some i \<Rightarrow> [(''id'', JStr i)])
     @ [(''type'', JStr (cf_type f)), (''payload'', cf_payload f)]"

definition encodeControlFrame :: "ControlFrame \<Rightarrow> string" where
  "encodeControlFrame f = json_stringify (JObj (envelope f))"

section \<open>The declared payload interfaces\<close>

text \<open>
  What the TypeScript interfaces of the file declare of a payload. A field of an object type is
  its name, whether it carries \<open>?\<close>, and its type.
\<close>

datatype ts_type =
    TString
  | TNumber
  | TUnion "string list"
  | TArray ts_type
  | TObject "(string \<times> bool \<times> ts_type) list"

fun has_type :: "ts_type \<Rightarrow> json \<Rightarrow> bool" where
  "has_type TString v = (case v of JStr s \<Rightarrow> True | _ \<Rightarrow> False)"
| "has_type TNumber v = (case v of JNum n \<Rightarrow> True | JFrac l \<Rightarrow> True | _ \<Rightarrow> False)"
| "has_type (TUnion ss) v = (case v of JStr s \<Rightarrow> s \<in> set ss | _ \<Rightarrow> False)"
| "has_type (TArray t) v = (case v of JArr vs \<Rightarrow> list_all (has_type t) vs | _ \<Rightarrow> False)"
| "has_type (TObject fs) v =
     (case v of
        JObj kvs \<Rightarrow>
          list_all (\<lambda>(k, opt, t). case map_of kvs k of None \<Rightarrow> opt | Some x \<Rightarrow> has_type t x) fs
      | _ \<Rightarrow> False)"

definition Role_type :: ts_type where
  "Role_type = TUnion [''owner'', ''editor'', ''commenter'', ''viewer'']"

definition PresenceSide :: ts_type where
  "PresenceSide = TUnion [''before'', ''after'']"

definition SummaryEntry :: ts_type where
  "SummaryEntry = TObject [(''replicaId'', False, TString), (''sequence'', False, TString)]"

definition PAYLOAD_INTERFACES :: "(string \<times> (string \<times> bool \<times> ts_type) list) list" where
  "PAYLOAD_INTERFACES =
    [(''hello'', [(''clientProtocolVersion'', False, TNumber),
                  (''capabilities'', True, TArray TString)]),
     (''hello_ack'', [(''protocolVersion'', False, TNumber), (''connectionId'', False, TString),
                      (''capabilities'', True, TArray TString)]),
     (''authenticate'', [(''token'', False, TString)]),
     (''authenticated'', [(''userId'', False, TString), (''clerkUserId'', False, TString),
                          (''orgId'', True, TString)]),
     (''join_document'', [(''documentId'', False, TString),
                          (''stateSummary'', False, TArray SummaryEntry)]),
     (''join_accepted'', [(''documentId'', False, TString), (''role'', False, Role_type),
                          (''durableCursor'', False, TString)]),
     (''sync_request'', [(''cursor'', False, TString)]),
     (''sync_done'', []),
     (''durable_ack'', [(''batchId'', False, TString), (''opIds'', False, TArray TString)]),
     (''ping'', [(''nonce'', False, TString)]),
     (''pong'', [(''nonce'', False, TString)]),
     (''fetch_snapshot'', [(''snapshotId'', False, TString)]),
     (''snapshot_resync_required'',
        [(''boundary'', False, TString), (''snapshotId'', False, TString),
         (''snapshotChecksum'', False, TString), (''snapshotFormatVersion'', False, TString),
         (''coverageOpCount'', False, TString)]),
     (''snapshot_payload'',
        [(''snapshotId'', False, TString), (''formatVersion'', False, TString),
         (''coverageSeq'', False, TString), (''coveredOpCount'', False, TString),
         (''stateDigest'', False, TString), (''checksum'', False, TString),
         (''payloadBase64'', False, TString), (''payloadSize'', False, TString)]),
     (''error'', [(''code'', False, TUnion ERROR_CODES), (''message'', False, TString),
                  (''requestId'', True, TString)]),
     (''server_draining'', [(''reason'', False, TString), (''graceMs'', False, TNumber)]),
     (''presence'',
        [(''replicaId'', False, TString), (''anchorItem'', True, TString),
         (''anchorSide'', False, PresenceSide), (''headItem'', True, TString),
         (''headSide'', False, PresenceSide)]),
     (''presence_update'',
        [(''connectionId'', False, TString), (''userId'', False, TString),
         (''replicaId'', False, TString), (''anchorItem'', True, TString),
         (''anchorSide'', False, PresenceSide), (''headItem'', True, TString),
         (''headSide'', False, PresenceSide)]),
     (''presence_leave'', [(''connectionId'', False, TString)])]"

section \<open>Validators against interfaces\<close>

lemma shape_types: "map fst PAYLOAD_SHAPES = CONTROL_FRAME_TYPES"
  by (simp add: PAYLOAD_SHAPES_def CONTROL_FRAME_TYPES_def)

lemma interface_types: "map fst PAYLOAD_INTERFACES = CONTROL_FRAME_TYPES"
  by (simp add: PAYLOAD_INTERFACES_def CONTROL_FRAME_TYPES_def)

lemma declared_not_inherited:
  "list_all (\<lambda>(t, sh). list_all (\<lambda>(k, c). k \<notin> set object_prototype_keys) sh) PAYLOAD_SHAPES"
  by (simp add: PAYLOAD_SHAPES_def object_prototype_keys_def required_def optional_def)

text \<open>
  A field of a shape agrees with a declared field: same name and optionality, and the check
  accepts only values of the declared type.
\<close>

definition field_agrees :: "(string \<times> bool \<times> check) \<Rightarrow> (string \<times> bool \<times> ts_type) \<Rightarrow> bool" where
  "field_agrees = (\<lambda>(k, opt, c) (k', opt', t). k = k' \<and> opt = opt' \<and> (\<forall>v. c v \<longrightarrow> has_type t v))"

lemma isString_type [simp]: "isString v \<Longrightarrow> has_type TString v"
  by (simp add: isString_def split: json.splits)

lemma isUint_type [simp]: "isUint v \<Longrightarrow> has_type TNumber v"
  by (simp add: isUint_def split: json.splits)

lemma isEnum_type [simp]: "isEnum ss v \<Longrightarrow> has_type (TUnion ss) v"
  by (simp add: isEnum_def split: json.splits)

lemma arrayOf_type: "arrayOf c v \<Longrightarrow> (\<And>x. c x \<Longrightarrow> has_type t x) \<Longrightarrow> has_type (TArray t) v"
  by (auto simp: arrayOf_def list_all_iff split: json.splits)

lemma arrayOf_string_type [simp]: "arrayOf isString v \<Longrightarrow> has_type (TArray TString) v"
  using arrayOf_type isString_type by blast

lemma agreeing_field:
  "list_all2 field_agrees sh fs \<Longrightarrow> (k, opt, t) \<in> set fs
    \<Longrightarrow> \<exists>c. (k, opt, c) \<in> set sh \<and> (\<forall>x. c x \<longrightarrow> has_type t x)"
  by (induction sh fs rule: list_all2_induct) (auto simp: field_agrees_def)

lemma isStrict_type:
  assumes "isStrict sh v" and "list_all2 field_agrees sh fs"
  shows "has_type (TObject fs) v"
proof -
  obtain kvs where v: "v = JObj kvs" using assms(1) by (auto simp: isStrict_def split: json.splits)
  have "case map_of kvs k of None \<Rightarrow> opt | Some x \<Rightarrow> has_type t x" if kf: "(k, opt, t) \<in> set fs" for k opt t
  proof -
    obtain c where "(k, opt, c) \<in> set sh" "\<forall>x. c x \<longrightarrow> has_type t x"
      using agreeing_field[OF assms(2) kf] by blast
    then show ?thesis
      using assms(1) by (fastforce simp: v isStrict_def list_all_iff split: option.splits)
  qed
  then show ?thesis by (auto simp: v list_all_iff)
qed

lemmas agree_simps =
  list.rel_inject list.rel_distinct list_all2_Nil prod.case simp_thms field_agrees_def required_def
  optional_def

lemma summary_type:
  assumes "arrayOf (isStrict [required ''replicaId'' isString, required ''sequence'' isString]) v"
  shows "has_type (TArray SummaryEntry) v"
proof (rule arrayOf_type[OF assms])
  fix x assume *: "isStrict [required ''replicaId'' isString, required ''sequence'' isString] x"
  show "has_type SummaryEntry x"
    unfolding SummaryEntry_def
    by (rule isStrict_type[OF *], simp only: agree_simps) (intro conjI allI impI; erule isString_type)
qed

lemmas checks_typed =
  isString_type isUint_type isEnum_type arrayOf_string_type summary_type[unfolded required_def]

lemma shapes_agree:
  "list_all2 (\<lambda>(t, sh) (t', fs). t = t' \<and> list_all2 field_agrees sh fs)
     PAYLOAD_SHAPES PAYLOAD_INTERFACES"
  unfolding PAYLOAD_SHAPES_def PAYLOAD_INTERFACES_def Role_type_def PresenceSide_def
  by (simp only: agree_simps) (intro conjI allI impI; erule checks_typed)

lemma map_of_list_all2:
  "list_all2 (\<lambda>(t, a) (t', b). t = t' \<and> R a b) xs ys \<Longrightarrow> map_of xs k = Some a
    \<Longrightarrow> \<exists>b. map_of ys k = Some b \<and> R a b"
  by (induction xs ys rule: list_all2_induct) (auto split: if_splits)

lemma validated_type:
  assumes "PAYLOAD_VALIDATORS t v"
  shows "\<exists>fs. map_of PAYLOAD_INTERFACES t = Some fs \<and> has_type (TObject fs) v"
proof -
  obtain sh where sh: "map_of PAYLOAD_SHAPES t = Some sh" "isStrict sh v"
    using assms by (auto simp: PAYLOAD_VALIDATORS_def split: option.splits)
  then obtain fs where "map_of PAYLOAD_INTERFACES t = Some fs" "list_all2 field_agrees sh fs"
    using map_of_list_all2[OF shapes_agree] by blast
  then show ?thesis using isStrict_type[OF sh(2)] by blast
qed

text \<open>What strictness leaves out: a payload's keys are declared or inherited.\<close>

lemma validated_keys:
  assumes "PAYLOAD_VALIDATORS t (JObj kvs)" and "map_of PAYLOAD_INTERFACES t = Some fs"
  shows "fst ` set kvs \<subseteq> fst ` set fs \<union> set object_prototype_keys"
proof -
  obtain sh where sh: "map_of PAYLOAD_SHAPES t = Some sh" "isStrict sh (JObj kvs)"
    using assms by (auto simp: PAYLOAD_VALIDATORS_def split: option.splits)
  have "list_all2 field_agrees sh fs"
    using map_of_list_all2[OF shapes_agree sh(1)] assms(2) by auto
  then have "map fst sh = map fst fs"
    by (induction rule: list_all2_induct) (auto simp: field_agrees_def)
  then have "fst ` set sh = fst ` set fs" by (metis list.set_map)
  with sh(2) show ?thesis
    by (auto simp: isStrict_def key_in_shape_def list_all_iff)
qed

section \<open>The decoder\<close>

lemma decodeEnvelope_Inr:
  assumes "decodeEnvelope obj = Inr f"
  shows "cf_type f \<in> set CONTROL_FRAME_TYPES" "PAYLOAD_VALIDATORS (cf_type f) (cf_payload f)"
    "\<not> token_too_long (cf_type f) (cf_payload f)" "map_of obj ''v'' = Some (JNum 1)"
    "map_of obj ''type'' = Some (JStr (cf_type f))" "map_of obj ''payload'' = Some (cf_payload f)"
    "map_of obj ''id'' = map_option JStr (cf_id f)"
    "fst ` set obj \<subseteq> {''v'', ''type'', ''payload'', ''id''}"
proof -
  have top: "\<not> extra_envelope_field obj" "map_of obj ''v'' = Some (JNum (int WIRE_VERSION))"
    and body: "(case (map_of obj ''type'', map_of obj ''payload'') of
        (Some (JStr t), Some payload) \<Rightarrow> decodeTyped obj t payload | _ \<Rightarrow> Inl BadEnvelope) = Inr f"
    using assms unfolding decodeEnvelope_def by (simp_all only: sum.distinct simp_thms split: if_split_asm)
  from top(2) show "map_of obj ''v'' = Some (JNum 1)" by (simp add: WIRE_VERSION_def)
  from top(1) show "fst ` set obj \<subseteq> {''v'', ''type'', ''payload'', ''id''}"
    unfolding extra_envelope_field_def list_ex_iff case_prod_unfold by blast
  obtain t payload where tp: "map_of obj ''type'' = Some (JStr t)" "map_of obj ''payload'' = Some payload"
    and dt: "decodeTyped obj t payload = Inr f"
    using body by (auto split: option.splits json.splits)
  have f: "f = \<lparr>cf_id = string_field ''id'' (JObj obj), cf_type = t, cf_payload = payload\<rparr>"
    and ok: "t \<in> set CONTROL_FRAME_TYPES" "PAYLOAD_VALIDATORS t payload" "\<not> token_too_long t payload"
      "map_of obj ''id'' = None \<or> is_some_string (map_of obj ''id'')"
    using dt unfolding decodeTyped_def by (simp_all only: sum.distinct sum.inject split: if_split_asm) simp_all
  show "cf_type f \<in> set CONTROL_FRAME_TYPES" "PAYLOAD_VALIDATORS (cf_type f) (cf_payload f)"
    "\<not> token_too_long (cf_type f) (cf_payload f)"
    "map_of obj ''type'' = Some (JStr (cf_type f))" "map_of obj ''payload'' = Some (cf_payload f)"
    using f ok tp by simp_all
  show "map_of obj ''id'' = map_option JStr (cf_id f)"
    using f ok(4) by (auto simp: is_some_string_def string_field_def split: option.splits json.splits)
qed

lemma decodeControlFrame_Inr:
  "decodeControlFrame s = Inr f \<longleftrightarrow>
    (\<exists>obj. json_parse s = Some (JObj obj) \<and> decodeEnvelope obj = Inr f)"
  by (auto simp: decodeControlFrame_def split: option.splits json.splits)

definition frame_ok :: "ControlFrame \<Rightarrow> bool" where
  "frame_ok f \<longleftrightarrow>
     cf_type f \<in> set CONTROL_FRAME_TYPES \<and> PAYLOAD_VALIDATORS (cf_type f) (cf_payload f)
     \<and> \<not> token_too_long (cf_type f) (cf_payload f)"

lemma decodeEnvelope_envelope: "frame_ok f \<Longrightarrow> decodeEnvelope (envelope f) = Inr f"
  by (cases "cf_id f")
    (simp_all add: decodeEnvelope_def decodeTyped_def extra_envelope_field_def
        missing_envelope_field_def envelope_def frame_ok_def is_some_string_def string_field_def)

lemma json_wf_envelope: "json_wf (cf_payload f) \<Longrightarrow> json_wf (JObj (envelope f))"
  by (cases "cf_id f") (simp_all add: envelope_def WIRE_VERSION_def)

lemma decode_encode_control:
  "frame_ok f \<Longrightarrow> json_wf (cf_payload f) \<Longrightarrow> decodeControlFrame (encodeControlFrame f) = Inr f"
  by (simp add: decodeControlFrame_def encodeControlFrame_def json_parse_stringify json_wf_envelope
      decodeEnvelope_envelope del: json_wf.simps json_stringify.simps)

lemma decode_frame_ok: "decodeControlFrame s = Inr f \<Longrightarrow> frame_ok f"
  using decodeEnvelope_Inr by (auto simp: decodeControlFrame_Inr frame_ok_def)

text \<open>
  The check of the rest is not as strict as the comment above it says: a field that every object
  inherits, such as \<open>constructor\<close>, is accepted in any valid payload.
\<close>

lemma inherited_field_accepted:
  assumes "PAYLOAD_VALIDATORS t (JObj kvs)" and "k \<in> set object_prototype_keys"
  shows "PAYLOAD_VALIDATORS t (JObj (kvs @ [(k, v)]))"
proof -
  obtain sh where sh: "map_of PAYLOAD_SHAPES t = Some sh" "isStrict sh (JObj kvs)"
    using assms(1) by (auto simp: PAYLOAD_VALIDATORS_def split: option.splits)
  have undeclared: "\<forall>e \<in> set sh. fst e \<noteq> k"
    using declared_not_inherited map_of_SomeD[OF sh(1)] assms(2) by (fastforce simp: list_all_iff)
  then have "map_of (kvs @ [(k, v)]) (fst e) = map_of kvs (fst e)" if "e \<in> set sh" for e
    using that by (auto simp: map_add_def split: option.split)
  then have "isStrict sh (JObj (kvs @ [(k, v)]))"
    using sh(2) assms(2)
    unfolding isStrict_def json.case list_all_append list_all_iff case_prod_unfold
    by (simp add: key_in_shape_def)
  with sh(1) show ?thesis by (simp add: PAYLOAD_VALIDATORS_def)
qed

section \<open>Properties\<close>

text \<open>
  C23: control frames round-trip. For any frame whose payload is a value that JSON can carry,
  decoding the encoded text gives the frame back exactly when its type is known, its payload
  passes the type's validator and its token is within the cap.
\<close>

theorem control_frame_roundtrip:
  assumes "json_wf (cf_payload f)"
  shows "decodeControlFrame (encodeControlFrame f) = Inr f \<longleftrightarrow> frame_ok f"
  using decode_encode_control[OF _ assms] decode_frame_ok by blast

definition sample_frame :: ControlFrame where
  "sample_frame =
     \<lparr>cf_id = Some ''r1'', cf_type = ''ping'', cf_payload = JObj [(''nonce'', JStr ''7'')]\<rparr>"

theorem control_frame_roundtrip_witness:
  "decodeControlFrame (encodeControlFrame sample_frame) = Inr sample_frame"
proof -
  have "frame_ok sample_frame"
    by (simp add: frame_ok_def sample_frame_def CONTROL_FRAME_TYPES_def PAYLOAD_VALIDATORS_def
        PAYLOAD_SHAPES_def isStrict_def isString_def required_def key_in_shape_def token_too_long_def)
  then show ?thesis
    using control_frame_roundtrip[of sample_frame] by (simp add: sample_frame_def)
qed

text \<open>
  C24: every frame the decoder accepts has the payload its TypeScript interface declares, so the
  casts the session and the transport make on it are sound, and beyond the declared fields its
  payload has only fields whose names are inherited by every object.
\<close>

theorem decoded_payload_typed:
  assumes "decodeControlFrame s = Inr f"
  shows "\<exists>fs kvs. map_of PAYLOAD_INTERFACES (cf_type f) = Some fs \<and> cf_payload f = JObj kvs
    \<and> has_type (TObject fs) (JObj kvs)
    \<and> fst ` set kvs \<subseteq> fst ` set fs \<union> set object_prototype_keys"
proof -
  have ok: "PAYLOAD_VALIDATORS (cf_type f) (cf_payload f)"
    using decode_frame_ok[OF assms] by (simp add: frame_ok_def)
  then obtain kvs where kvs: "cf_payload f = JObj kvs"
    by (auto simp: PAYLOAD_VALIDATORS_def isStrict_def split: option.splits json.splits)
  show ?thesis
    using validated_type[OF ok] validated_keys[OF ok[unfolded kvs]] kvs by metis
qed

theorem decoded_payload_typed_witness:
  "\<exists>fs kvs. map_of PAYLOAD_INTERFACES ''ping'' = Some fs \<and> JObj [(''nonce'', JStr ''7'')] = JObj kvs
    \<and> has_type (TObject fs) (JObj kvs)
    \<and> fst ` set kvs \<subseteq> fst ` set fs \<union> set object_prototype_keys"
proof -
  have "decodeControlFrame (encodeControlFrame sample_frame) = Inr sample_frame"
    by (rule decode_encode_control)
      (simp_all add: frame_ok_def sample_frame_def CONTROL_FRAME_TYPES_def PAYLOAD_VALIDATORS_def
        PAYLOAD_SHAPES_def isStrict_def isString_def required_def key_in_shape_def token_too_long_def)
  from decoded_payload_typed[OF this] show ?thesis by (simp only: sample_frame_def ControlFrame.simps)
qed

end
