(* ===== verification/Data_Frames.thy ===== *)
theory Data_Frames
  imports Control_Frames
begin

text \<open>
  The binary half of the wire protocol, \<^verbatim>\<open>src/lib/sync/protocol.ts\<close>: \<open>decodeDataFrame\<close>,
  \<open>readOps\<close> and \<open>encodeClientOps\<close>. A batch id is a \<open>number | string\<close>; operation bytes are
  copied verbatim. The encoder of sync batches is the gateway's; the reference
  \<open>sync_batch_bytes\<close> states the layout the decoder reads.
\<close>

section \<open>Constants and frames\<close>

definition MAX_BATCH_OPS :: nat where "MAX_BATCH_OPS = 1024"
definition MAX_BATCH_PAYLOAD_BYTES :: nat where "MAX_BATCH_PAYLOAD_BYTES = 4 * 1024 * 1024"
definition MAX_SYNC_PAGE_OPS :: nat where "MAX_SYNC_PAGE_OPS = 1024"
definition MAX_OP_BYTES :: nat where "MAX_OP_BYTES = 64 * 1024"
definition BATCH_KIND_CLIENT_OPS :: nat where "BATCH_KIND_CLIENT_OPS = 0x20"
definition BATCH_KIND_SYNC :: nat where "BATCH_KIND_SYNC = 0x21"
definition MAX_SAFE_INTEGER :: nat where "MAX_SAFE_INTEGER = 9007199254740991"

datatype batch_id = BNum int | BStr string

record ClientOpsFrame =
  co_batchId :: batch_id
  co_ops :: "bytes list"

record SyncBatchFrame =
  sb_nextCursor :: nat
  sb_hasMore :: bool
  sb_ops :: "bytes list"

datatype data_frame = ClientOps ClientOpsFrame | SyncBatch SyncBatchFrame

section \<open>Decoding\<close>

text \<open>The loop of \<open>readOps\<close>: \<open>n\<close> iterations left, reading at \<open>offset\<close>.\<close>

fun read_ops_from :: "bytes \<Rightarrow> nat \<Rightarrow> nat \<Rightarrow> decode_error + (bytes list \<times> nat)" where
  "read_ops_from bs offset 0 = Inr ([], offset)"
| "read_ops_from bs offset (Suc n) =
     (if length bs < offset + 4 then Inl BadBinaryBody
      else
        let opLen = be_val (slice offset 4 bs); off = offset + 4
        in if opLen = 0 \<or> MAX_OP_BYTES < opLen then Inl BadBinaryBody
           else if length bs < off + opLen then Inl BadBinaryBody
           else bindE (read_ops_from bs (off + opLen) n)
                  (\<lambda>(ops, end). Inr (slice off opLen bs # ops, end)))"

definition readOps :: "bytes \<Rightarrow> nat \<Rightarrow> nat \<Rightarrow> nat \<Rightarrow> decode_error + bytes list" where
  "readOps bs startOffset count maxCount =
     (if maxCount < count then Inl BadBinaryBody
      else bindE (read_ops_from bs startOffset count) (\<lambda>(ops, offset).
        if offset \<noteq> length bs then Inl BadBinaryBody else Inr ops))"

text \<open>\<open>ops.reduce((sum, o) => sum + o.length + 4, 0)\<close>\<close>

definition payload_bytes :: "bytes list \<Rightarrow> nat" where
  "payload_bytes ops = foldl (\<lambda>sum o'. sum + length o' + 4) 0 ops"

definition number_or_string :: "nat \<Rightarrow> batch_id" where
  "number_or_string b = (if MAX_SAFE_INTEGER < b then BStr (show_nat b) else BNum (int b))"

definition decodeClientOps :: "bytes \<Rightarrow> decode_error + ClientOpsFrame" where
  "decodeClientOps bs =
     (if length bs < 12 then Inl BadBinaryHeader
      else
        let batchId = be_val (slice 2 8 bs); count = be_val (slice 10 2 bs)
        in bindE (readOps bs 12 count MAX_BATCH_OPS) (\<lambda>ops.
             if MAX_BATCH_PAYLOAD_BYTES < payload_bytes ops then Inl BadBinaryBody
             else Inr \<lparr>co_batchId = number_or_string batchId, co_ops = ops\<rparr>))"

definition decodeSyncBatch :: "bytes \<Rightarrow> decode_error + SyncBatchFrame" where
  "decodeSyncBatch bs =
     (if length bs < 13 then Inl BadBinaryHeader
      else
        let nextCursor = be_val (slice 2 8 bs); hasMoreByte = unat (bs ! 10)
        in if 1 < hasMoreByte then Inl BadBinaryHeader
           else
             let count = be_val (slice 11 2 bs)
             in bindE (readOps bs 13 count MAX_SYNC_PAGE_OPS) (\<lambda>ops.
                  if MAX_SAFE_INTEGER < nextCursor then Inl BadBinaryBody
                  else Inr \<lparr>sb_nextCursor = nextCursor, sb_hasMore = (hasMoreByte = 1),
                            sb_ops = ops\<rparr>))"

definition decodeDataFrame :: "bytes \<Rightarrow> decode_error + data_frame" where
  "decodeDataFrame bs =
     (if length bs < 2 then Inl BadBinaryHeader
      else if unat (bs ! 0) \<noteq> WIRE_VERSION then Inl UnsupportedVersion
      else
        let kind = unat (bs ! 1)
        in if kind = BATCH_KIND_CLIENT_OPS then bindE (decodeClientOps bs) (\<lambda>f. Inr (ClientOps f))
           else if kind = BATCH_KIND_SYNC then bindE (decodeSyncBatch bs) (\<lambda>f. Inr (SyncBatch f))
           else Inl BadBinaryHeader)"

section \<open>Encoding\<close>

definition valid_batch_id :: "batch_id \<Rightarrow> bool" where
  "valid_batch_id b =
     (case b of
        BNum n \<Rightarrow> \<bar>n\<bar> \<le> int MAX_SAFE_INTEGER \<and> 0 \<le> n
      | BStr s \<Rightarrow> canonical_dec s)"

text \<open>\<open>BigInt(frame.batchId)\<close> on a batch id that passed the check above.\<close>

definition batch_id_value :: "batch_id \<Rightarrow> nat" where
  "batch_id_value b = (case b of BNum n \<Rightarrow> nat n | BStr s \<Rightarrow> dec_val s)"

definition op_bytes :: "bytes \<Rightarrow> bytes" where
  "op_bytes op = be_bytes 4 (length op) @ op"

definition encodeClientOps :: "ClientOpsFrame \<Rightarrow> decode_error + bytes" where
  "encodeClientOps f =
     (if \<not> valid_batch_id (co_batchId f) then Inl BadBinaryBody
      else if 0xffffffffffffffff < batch_id_value (co_batchId f) then Inl BadBinaryBody
      else if MAX_BATCH_OPS < length (co_ops f) then Inl BadBinaryBody
      else if MAX_BATCH_PAYLOAD_BYTES < payload_bytes (co_ops f) then Inl BadBinaryBody
      else Inr ([word_of_nat WIRE_VERSION, word_of_nat BATCH_KIND_CLIENT_OPS]
             @ be_bytes 8 (batch_id_value (co_batchId f)) @ be_bytes 2 (length (co_ops f))
             @ concat (map op_bytes (co_ops f))))"

definition sync_batch_bytes :: "SyncBatchFrame \<Rightarrow> bytes" where
  "sync_batch_bytes f =
     [word_of_nat WIRE_VERSION, word_of_nat BATCH_KIND_SYNC]
     @ be_bytes 8 (sb_nextCursor f) @ [if sb_hasMore f then 1 else 0]
     @ be_bytes 2 (length (sb_ops f)) @ concat (map op_bytes (sb_ops f))"

section \<open>Reading back a sequence of operations\<close>

definition op_ok :: "bytes \<Rightarrow> bool" where
  "op_ok op \<longleftrightarrow> op \<noteq> [] \<and> length op \<le> MAX_OP_BYTES"

lemma payload_bytes_shift: "foldl (\<lambda>sum o'. sum + length o' + 4) n ops = n + payload_bytes ops"
  unfolding payload_bytes_def
proof (induction ops arbitrary: n)
  case Nil
  then show ?case by simp
next
  case (Cons op ops)
  show ?case
    unfolding foldl_Cons Cons.IH[of "n + length op + 4"] Cons.IH[of "0 + length op + 4"] by simp
qed

lemma payload_bytes_simps [simp]:
  "payload_bytes [] = 0" "payload_bytes (op # ops) = length op + 4 + payload_bytes ops"
  using payload_bytes_shift[of "length op + 4" ops] by (simp_all add: payload_bytes_def)

lemma length_op_bytes [simp]: "length (op_bytes op) = length op + 4"
  by (simp add: op_bytes_def)

lemma length_concat_op_bytes: "length (concat (map op_bytes ops)) = payload_bytes ops"
  by (induction ops) simp_all

lemma read_ops_from_concat:
  assumes "list_all op_ok ops"
  shows "read_ops_from (pre @ concat (map op_bytes ops) @ post) (length pre) (length ops)
    = Inr (ops, length pre + payload_bytes ops)"
  using assms
proof (induction ops arbitrary: pre)
  case Nil
  then show ?case by simp
next
  case (Cons op ops)
  let ?rest = "concat (map op_bytes ops) @ post"
  have ok: "op \<noteq> []" "length op \<le> MAX_OP_BYTES" using Cons.prems by (auto simp: op_ok_def)
  have v: "be_val (be_bytes 4 (length op)) = length op"
    using ok by (simp add: be_val_be_bytes MAX_OP_BYTES_def)
  have s1: "slice (length pre) 4 (pre @ op_bytes op @ ?rest) = be_bytes 4 (length op)"
    by (simp add: slice_def op_bytes_def)
  have s2: "slice (length pre + 4) (length op) (pre @ op_bytes op @ ?rest) = op"
    by (simp add: slice_def op_bytes_def)
  have ih: "read_ops_from ((pre @ op_bytes op) @ ?rest) (length (pre @ op_bytes op)) (length ops)
      = Inr (ops, length (pre @ op_bytes op) + payload_bytes ops)"
    using Cons.prems by (intro Cons.IH) simp
  then have ih': "read_ops_from (pre @ op_bytes op @ ?rest) (length pre + 4 + length op) (length ops)
      = Inr (ops, length pre + (length op + 4 + payload_bytes ops))"
    by (simp add: add.assoc add.left_commute add.commute)
  show ?case
    using ok by (simp add: s1 s2 v ih' Let_def)
qed

lemma read_ops_from_Inr:
  assumes "read_ops_from bs off n = Inr (ops, e)"
  shows "length ops = n \<and> list_all op_ok ops \<and> e = off + payload_bytes ops \<and> e \<le> max off (length bs)
    \<and> slice off (e - off) bs = concat (map op_bytes ops)"
  using assms
proof (induction n arbitrary: off ops e)
  case 0
  then show ?case by (auto simp: slice_def)
next
  case (Suc n)
  define len where "len = be_val (slice off 4 bs)"
  from Suc.prems obtain ops' where *: "off + 4 \<le> length bs" "len \<noteq> 0" "len \<le> MAX_OP_BYTES"
    "off + 4 + len \<le> length bs" "read_ops_from bs (off + 4 + len) n = Inr (ops', e)"
    "ops = slice (off + 4) len bs # ops'"
    by (auto simp: Let_def len_def bindE_Inr_iff split: if_splits)
  let ?op = "slice (off + 4) len bs"
  from Suc.IH[OF *(5)] have ih: "length ops' = n" "list_all op_ok ops'"
    "e = off + 4 + len + payload_bytes ops'" "e \<le> length bs"
    "slice (off + 4 + len) (e - (off + 4 + len)) bs = concat (map op_bytes ops')"
    using *(4) by auto
  have lop: "length ?op = len" using *(4) by simp
  have hd: "be_bytes 4 len = slice off 4 bs"
    using *(1) unfolding len_def by (intro be_bytes_be_val') simp
  have "slice off (4 + len + payload_bytes ops') bs
      = slice off 4 bs @ slice (off + 4) len bs @ slice (off + 4 + len) (payload_bytes ops') bs"
    by (simp add: slice_add add.assoc)
  moreover have "op_ok ?op" using *(2,3) lop unfolding op_ok_def by (metis le_refl list.size(3))
  moreover have "op_bytes ?op = slice off 4 bs @ ?op" using lop hd by (simp add: op_bytes_def)
  ultimately show ?case
    using * ih lop by (simp add: add.assoc)
qed

lemma readOps_layout:
  assumes "list_all op_ok ops" and "length ops \<le> m" and "length pre = start"
  shows "readOps (pre @ concat (map op_bytes ops)) start (length ops) m = Inr ops"
  using assms read_ops_from_concat[OF assms(1), of pre "[]"]
  by (simp add: readOps_def length_concat_op_bytes)

lemma readOps_Inr:
  assumes "readOps bs start count m = Inr ops" and "start \<le> length bs"
  shows "length ops = count" "count \<le> m" "list_all op_ok ops"
    "bs = take start bs @ concat (map op_bytes ops)"
proof -
  have r: "read_ops_from bs start count = Inr (ops, length bs)" and "count \<le> m"
    using assms(1) by (auto simp: readOps_def bindE_Inr_iff split: if_splits)
  then show "count \<le> m" by simp
  from read_ops_from_Inr[OF r] show "length ops = count" "list_all op_ok ops" by simp_all
  have "slice start (length bs - start) bs = concat (map op_bytes ops)"
    using read_ops_from_Inr[OF r] by blast
  then show "bs = take start bs @ concat (map op_bytes ops)"
    by (simp add: slice_def) (metis append_take_drop_id)
qed

section \<open>The two frames\<close>

definition client_ops_bytes :: "ClientOpsFrame \<Rightarrow> bytes" where
  "client_ops_bytes f =
     [word_of_nat WIRE_VERSION, word_of_nat BATCH_KIND_CLIENT_OPS]
     @ be_bytes 8 (batch_id_value (co_batchId f)) @ be_bytes 2 (length (co_ops f))
     @ concat (map op_bytes (co_ops f))"

definition client_ops_wf :: "ClientOpsFrame \<Rightarrow> bool" where
  "client_ops_wf f \<longleftrightarrow>
     valid_batch_id (co_batchId f) \<and> co_batchId f = number_or_string (batch_id_value (co_batchId f))
     \<and> batch_id_value (co_batchId f) < 2 ^ 64 \<and> list_all op_ok (co_ops f)
     \<and> length (co_ops f) \<le> MAX_BATCH_OPS \<and> payload_bytes (co_ops f) \<le> MAX_BATCH_PAYLOAD_BYTES"

definition sync_batch_wf :: "SyncBatchFrame \<Rightarrow> bool" where
  "sync_batch_wf f \<longleftrightarrow>
     sb_nextCursor f \<le> MAX_SAFE_INTEGER \<and> list_all op_ok (sb_ops f)
     \<and> length (sb_ops f) \<le> MAX_SYNC_PAGE_OPS"

lemma encodeClientOps_eq:
  "client_ops_wf f \<Longrightarrow> encodeClientOps f = Inr (client_ops_bytes f)"
  by (simp add: encodeClientOps_def client_ops_bytes_def client_ops_wf_def)

lemma valid_number_or_string: "valid_batch_id (number_or_string b)"
  by (simp add: valid_batch_id_def number_or_string_def)

lemma value_number_or_string [simp]: "batch_id_value (number_or_string b) = b"
  by (simp add: batch_id_value_def number_or_string_def)

lemma two_bytes: "2 \<le> length bs \<Longrightarrow> take 2 bs = [bs ! 0, bs ! 1]"
  by (cases bs; cases "tl bs") auto

lemma byte_of_unat: "unat (b :: byte) = n \<Longrightarrow> b = word_of_nat n"
  by auto

lemma decodeClientOps_bytes:
  assumes "client_ops_wf f"
  shows "decodeClientOps (client_ops_bytes f) = Inr f"
proof -
  let ?v = "batch_id_value (co_batchId f)"
  let ?pre = "[word_of_nat WIRE_VERSION, word_of_nat BATCH_KIND_CLIENT_OPS]
     @ be_bytes 8 ?v @ be_bytes 2 (length (co_ops f))"
  have b: "client_ops_bytes f = ?pre @ concat (map op_bytes (co_ops f))"
    by (simp add: client_ops_bytes_def)
  have v: "be_val (slice 2 8 (client_ops_bytes f)) = ?v"
    using assms by (simp add: client_ops_bytes_def slice_def be_val_be_bytes client_ops_wf_def)
  have c: "be_val (slice 10 2 (client_ops_bytes f)) = length (co_ops f)"
    using assms
    by (simp add: client_ops_bytes_def slice_def be_val_be_bytes client_ops_wf_def MAX_BATCH_OPS_def)
  have r: "readOps (client_ops_bytes f) 12 (length (co_ops f)) MAX_BATCH_OPS = Inr (co_ops f)"
    unfolding b using assms by (intro readOps_layout) (simp_all add: client_ops_wf_def)
  have "12 \<le> length (client_ops_bytes f)" by (simp add: b)
  moreover have "payload_bytes (co_ops f) \<le> MAX_BATCH_PAYLOAD_BYTES"
    and "number_or_string ?v = co_batchId f"
    using assms by (simp_all add: client_ops_wf_def)
  ultimately show ?thesis
    by (simp add: decodeClientOps_def Let_def v c r)
qed

lemma decodeClientOps_Inr:
  assumes "decodeClientOps bs = Inr f"
    and "bs ! 0 = word_of_nat WIRE_VERSION" and "bs ! 1 = word_of_nat BATCH_KIND_CLIENT_OPS"
  shows "client_ops_wf f \<and> client_ops_bytes f = bs"
proof -
  let ?v = "be_val (slice 2 8 bs)" and ?n = "be_val (slice 10 2 bs)"
  obtain ops where len: "12 \<le> length bs" and r: "readOps bs 12 ?n MAX_BATCH_OPS = Inr ops"
    and cap: "payload_bytes ops \<le> MAX_BATCH_PAYLOAD_BYTES"
    and f: "f = \<lparr>co_batchId = number_or_string ?v, co_ops = ops\<rparr>"
    using assms(1) by (auto simp: decodeClientOps_def Let_def bindE_Inr_iff split: if_splits)
  note ro = readOps_Inr[OF r len]
  have "?v < 256 ^ length (slice 2 8 bs)" by (rule be_val_bound)
  then have v: "?v < 2 ^ 64" using len by simp
  have "bs = take 2 bs @ slice 2 8 bs @ slice 10 2 bs @ concat (map op_bytes ops)"
    using ro(4) take_add[of 2 10 bs] take_add[of 8 2 "drop 2 bs"] by (simp add: slice_def)
  moreover have "slice 2 8 bs = be_bytes 8 ?v" "slice 10 2 bs = be_bytes 2 ?n"
    using len by (simp_all add: be_bytes_be_val')
  ultimately have "client_ops_bytes f = bs"
    using assms(2,3) two_bytes[of bs] len ro(1) by (simp add: client_ops_bytes_def f)
  then show ?thesis
    using ro v cap by (simp add: client_ops_wf_def f valid_number_or_string)
qed

lemma decodeSyncBatch_bytes:
  assumes "sync_batch_wf f"
  shows "decodeSyncBatch (sync_batch_bytes f) = Inr f"
proof -
  let ?b = "sync_batch_bytes f"
  let ?pre = "[word_of_nat WIRE_VERSION, word_of_nat BATCH_KIND_SYNC]
     @ be_bytes 8 (sb_nextCursor f) @ [if sb_hasMore f then 1 else 0] @ be_bytes 2 (length (sb_ops f))"
  have b: "?b = ?pre @ concat (map op_bytes (sb_ops f))" by (simp add: sync_batch_bytes_def)
  have v: "be_val (slice 2 8 ?b) = sb_nextCursor f"
    using assms
    by (simp add: sync_batch_bytes_def slice_def be_val_be_bytes sync_batch_wf_def MAX_SAFE_INTEGER_def)
  have c: "be_val (slice 11 2 ?b) = length (sb_ops f)"
    using assms
    by (simp add: sync_batch_bytes_def slice_def be_val_be_bytes sync_batch_wf_def MAX_SYNC_PAGE_OPS_def)
  have m: "?b ! 10 = (if sb_hasMore f then 1 else 0)"
    by (simp add: sync_batch_bytes_def nth_append)
  have r: "readOps ?b 13 (length (sb_ops f)) MAX_SYNC_PAGE_OPS = Inr (sb_ops f)"
    unfolding b using assms by (intro readOps_layout) (simp_all add: sync_batch_wf_def)
  have "13 \<le> length ?b" by (simp add: b)
  with assms show ?thesis
    by (simp add: decodeSyncBatch_def Let_def v c r m sync_batch_wf_def)
qed

lemma decodeSyncBatch_Inr:
  assumes "decodeSyncBatch bs = Inr f"
    and "bs ! 0 = word_of_nat WIRE_VERSION" and "bs ! 1 = word_of_nat BATCH_KIND_SYNC"
  shows "sync_batch_wf f \<and> sync_batch_bytes f = bs"
proof -
  let ?v = "be_val (slice 2 8 bs)" and ?n = "be_val (slice 11 2 bs)" and ?m = "unat (bs ! 10)"
  obtain ops where len: "13 \<le> length bs" and r: "readOps bs 13 ?n MAX_SYNC_PAGE_OPS = Inr ops"
    and flag: "?m \<le> 1" and cap: "?v \<le> MAX_SAFE_INTEGER"
    and f: "f = \<lparr>sb_nextCursor = ?v, sb_hasMore = (?m = 1), sb_ops = ops\<rparr>"
    using assms(1) by (auto simp: decodeSyncBatch_def Let_def bindE_Inr_iff not_less split: if_splits)
  note ro = readOps_Inr[OF r len]
  have "bs = take 2 bs @ slice 2 8 bs @ slice 10 1 bs @ slice 11 2 bs @ concat (map op_bytes ops)"
    using ro(4) take_add[of 2 11 bs] take_add[of 8 3 "drop 2 bs"] take_add[of 1 2 "drop 10 bs"]
    by (simp add: slice_def numeral_3_eq_3)
  moreover have "slice 10 1 bs = [bs ! 10]"
    using len by (simp add: slice_def take_Suc_conv_app_nth hd_drop_conv_nth take_Suc)
  moreover have "slice 2 8 bs = be_bytes 8 ?v" "slice 11 2 bs = be_bytes 2 ?n"
    using len by (simp_all add: be_bytes_be_val')
  moreover have "bs ! 10 = (if ?m = 1 then 1 else 0)"
  proof -
    have "?m = 0 \<or> ?m = 1" using flag by linarith
    then show ?thesis by (auto dest: byte_of_unat)
  qed
  ultimately have "sync_batch_bytes f = bs"
    using assms(2,3) two_bytes[of bs] len ro(1) by (simp add: sync_batch_bytes_def f)
  then show ?thesis
    using ro cap by (simp add: sync_batch_wf_def f)
qed

section \<open>The codec\<close>

fun frame_bytes :: "data_frame \<Rightarrow> bytes" where
  "frame_bytes (ClientOps f) = client_ops_bytes f"
| "frame_bytes (SyncBatch f) = sync_batch_bytes f"

fun frame_wf :: "data_frame \<Rightarrow> bool" where
  "frame_wf (ClientOps f) = client_ops_wf f"
| "frame_wf (SyncBatch f) = sync_batch_wf f"

lemma decode_frame_bytes: "frame_wf x \<Longrightarrow> decodeDataFrame (frame_bytes x) = Inr x"
proof (cases x)
  case (ClientOps f)
  moreover assume "frame_wf x"
  moreover have "2 \<le> length (client_ops_bytes f)" "unat (client_ops_bytes f ! 0) = WIRE_VERSION"
    "unat (client_ops_bytes f ! 1) = BATCH_KIND_CLIENT_OPS"
    by (simp_all add: client_ops_bytes_def WIRE_VERSION_def BATCH_KIND_CLIENT_OPS_def)
  ultimately show ?thesis
    by (simp add: decodeDataFrame_def Let_def decodeClientOps_bytes)
next
  case (SyncBatch f)
  moreover assume "frame_wf x"
  moreover have "2 \<le> length (sync_batch_bytes f)" "unat (sync_batch_bytes f ! 0) = WIRE_VERSION"
    "unat (sync_batch_bytes f ! 1) = BATCH_KIND_SYNC"
    by (simp_all add: sync_batch_bytes_def WIRE_VERSION_def BATCH_KIND_SYNC_def)
  ultimately show ?thesis
    by (simp add: decodeDataFrame_def Let_def decodeSyncBatch_bytes BATCH_KIND_SYNC_def
        BATCH_KIND_CLIENT_OPS_def)
qed

lemma decodeDataFrame_Inr:
  assumes "decodeDataFrame bs = Inr x"
  shows "frame_wf x \<and> frame_bytes x = bs"
proof -
  have "unat (bs ! 0) = WIRE_VERSION"
    using assms by (auto simp: decodeDataFrame_def split: if_splits)
  note v = byte_of_unat[OF this]
  consider f where "unat (bs ! 1) = BATCH_KIND_CLIENT_OPS" "x = ClientOps f" "decodeClientOps bs = Inr f"
    | f where "unat (bs ! 1) = BATCH_KIND_SYNC" "x = SyncBatch f" "decodeSyncBatch bs = Inr f"
    using assms by (auto simp: decodeDataFrame_def Let_def bindE_Inr_iff split: if_splits)
  then show ?thesis
  proof cases
    case 1
    then show ?thesis using decodeClientOps_Inr[OF 1(3) v byte_of_unat[OF 1(1)]] by simp
  next
    case 2
    then show ?thesis using decodeSyncBatch_Inr[OF 2(3) v byte_of_unat[OF 2(1)]] by simp
  qed
qed

interpretation data_codec: strict_codec frame_bytes decodeDataFrame frame_wf
  by unfold_locales (simp_all add: decode_frame_bytes decodeDataFrame_Inr)

section \<open>The encoder\<close>

text \<open>
  \<open>encodeClientOps\<close> applies the decoder's checks except the one on the length of each
  operation: what it returns decodes exactly when every operation has 1 to 65536 bytes.
\<close>

lemma encodeClientOps_Inr:
  "encodeClientOps f = Inr b \<longleftrightarrow>
    valid_batch_id (co_batchId f) \<and> batch_id_value (co_batchId f) < 2 ^ 64
    \<and> length (co_ops f) \<le> MAX_BATCH_OPS \<and> payload_bytes (co_ops f) \<le> MAX_BATCH_PAYLOAD_BYTES
    \<and> b = client_ops_bytes f"
  by (auto simp: encodeClientOps_def client_ops_bytes_def)

definition normal_batch :: "ClientOpsFrame \<Rightarrow> ClientOpsFrame" where
  "normal_batch f = f\<lparr>co_batchId := number_or_string (batch_id_value (co_batchId f))\<rparr>"

lemma client_ops_bytes_normal: "client_ops_bytes (normal_batch f) = client_ops_bytes f"
  by (simp add: client_ops_bytes_def normal_batch_def)

lemma normal_batch_wf:
  "encodeClientOps f = Inr b \<Longrightarrow> list_all op_ok (co_ops f) \<Longrightarrow> client_ops_wf (normal_batch f)"
  by (simp add: encodeClientOps_Inr client_ops_wf_def normal_batch_def valid_number_or_string)

lemma decode_encodeClientOps:
  assumes "encodeClientOps f = Inr b" and "list_all op_ok (co_ops f)"
  shows "decodeDataFrame b = Inr (ClientOps (normal_batch f))"
proof -
  have "frame_wf (ClientOps (normal_batch f))" using normal_batch_wf[OF assms] by simp
  moreover have "b = frame_bytes (ClientOps (normal_batch f))"
    using assms by (simp add: encodeClientOps_Inr client_ops_bytes_normal)
  ultimately show ?thesis by (simp only: data_codec.dec_enc)
qed

section \<open>Properties\<close>

text \<open>
  C12: the binary decoder is strict. A byte string decodes to a frame exactly when it is the one
  layout of that frame and the frame is within the wire limits: no trailing byte, no second
  encoding of a header field, no operation that is empty or over the cap.
\<close>

theorem data_frame_strict:
  "decodeDataFrame bs = Inr x \<longleftrightarrow> frame_wf x \<and> bs = frame_bytes x"
  by (rule data_codec.dec_iff)

text \<open>
  What the client sends, the same protocol reads back. If \<open>encodeClientOps\<close> returns bytes
  for a batch whose operations have 1 to 65536 bytes each, they decode to the same operations
  under the same batch id, given as a number when it is a safe integer and as its decimal
  string otherwise.
\<close>

theorem client_ops_roundtrip:
  assumes "encodeClientOps f = Inr b" and "list_all op_ok (co_ops f)"
  shows "decodeDataFrame b = Inr (ClientOps \<lparr>co_batchId =
      number_or_string (batch_id_value (co_batchId f)), co_ops = co_ops f\<rparr>)"
proof -
  have "normal_batch f = \<lparr>co_batchId = number_or_string (batch_id_value (co_batchId f)), co_ops = co_ops f\<rparr>"
    by (simp add: normal_batch_def)
  then show ?thesis using decode_encodeClientOps[OF assms] by simp
qed

theorem client_ops_roundtrip_witness:
  "decodeDataFrame [1, 32, 0, 0, 0, 0, 0, 0, 0, 5, 0, 1, 0, 0, 0, 2, 7, 9]
    = Inr (ClientOps \<lparr>co_batchId = BNum 5, co_ops = [[7, 9]]\<rparr>)"
proof -
  let ?f = "\<lparr>co_batchId = BStr ''5'', co_ops = [[7, 9 :: byte]]\<rparr>"
  have e: "encodeClientOps ?f = Inr [1, 32, 0, 0, 0, 0, 0, 0, 0, 5, 0, 1, 0, 0, 0, 2, 7, 9]"
    by (simp add: encodeClientOps_def valid_batch_id_def canonical_dec_def is_digit_def
        batch_id_value_def dec_val_def digit_val_def MAX_BATCH_OPS_def MAX_BATCH_PAYLOAD_BYTES_def
        WIRE_VERSION_def BATCH_KIND_CLIENT_OPS_def be_bytes_def op_bytes_def
        le_bytes_numeral)
  have "list_all op_ok (co_ops ?f)" by (simp add: op_ok_def MAX_OP_BYTES_def)
  from client_ops_roundtrip[OF e this] show ?thesis
    by (simp add: batch_id_value_def dec_val_def digit_val_def number_or_string_def MAX_SAFE_INTEGER_def)
qed

end
