(* ===== verification/Snapshot_Codec.thy ===== *)
theory Snapshot_Codec
  imports Json
begin

text \<open>
  The codecs of \<^verbatim>\<open>src/lib/sync/snapshot-resync.ts\<close>: strict base64, the 41-byte snapshot
  wrapper, canonical u64 decimals, the envelope and frame parsers and
  \<open>validateServerSnapshot\<close>. The encoders exist only on the server; reference encoders stand
  beside the decoders to say what text the decoders accept. Web Crypto is not part of the
  repository: the digest is a parameter, \<open>None\<close> where \<open>crypto.subtle\<close> is missing.
\<close>

unbundle bit_operations_syntax

datatype resync_error =
    UnsupportedFormat | DocumentMismatch | SizeMismatch | ChecksumMismatch | CoverageMismatch
  | Truncated | TrailingBytes | BadBase64 | BadEnvelopeField | DigestUnavailable

definition SUPPORTED_CLIENT_FORMAT_VERSION :: nat where "SUPPORTED_CLIENT_FORMAT_VERSION = 1"
definition WRAPPER_HEADER_LEN :: nat where "WRAPPER_HEADER_LEN = 41"
definition U64_MAX :: nat where "U64_MAX = 0xffffffffffffffff"

section \<open>Base64\<close>

definition BASE64_ALPHABET :: string where
  "BASE64_ALPHABET = ''ABCDEFGHIJKLMNOPQRSTUVWXYZabcdefghijklmnopqrstuvwxyz0123456789+/''"

fun index_of :: "'a \<Rightarrow> 'a list \<Rightarrow> nat option" where
  "index_of x [] = None"
| "index_of x (y # ys) = (if x = y then Some 0 else map_option Suc (index_of x ys))"

text \<open>\<open>BASE64_INDEX\<close>, with \<open>-1\<close> as \<open>None\<close>; code units from 128 on are in no table.\<close>

definition BASE64_INDEX :: "char \<Rightarrow> nat option" where
  "BASE64_INDEX c = index_of c BASE64_ALPHABET"

text \<open>The inner loop: \<open>n = (n << 6) | value\<close> over the characters of one chunk.\<close>

fun chunk_value :: "nat \<Rightarrow> string \<Rightarrow> nat option" where
  "chunk_value n [] = Some n"
| "chunk_value n (c # cs) =
     (case BASE64_INDEX c of
        None \<Rightarrow> None
      | Some v \<Rightarrow> chunk_value (push_bit 6 n OR v) cs)"

definition low_byte :: "nat \<Rightarrow> byte" where
  "low_byte n = word_of_nat (n AND 0xff)"

definition chunk_bytes :: "nat \<Rightarrow> nat \<Rightarrow> bytes option" where
  "chunk_bytes len n =
     (if len = 4 then Some [low_byte (drop_bit 16 n), low_byte (drop_bit 8 n), low_byte n]
      else if len = 3 then
        (if n AND 3 \<noteq> 0 then None else Some [low_byte (drop_bit 10 n), low_byte (drop_bit 2 n)])
      else
        (if n AND 15 \<noteq> 0 then None else Some [low_byte (drop_bit 4 n)]))"

fun decode_chunks :: "string \<Rightarrow> bytes option" where
  "decode_chunks cs =
     (if cs = [] then Some []
      else case chunk_value 0 (take 4 cs) of
        None \<Rightarrow> None
      | Some n \<Rightarrow>
          (case chunk_bytes (length (take 4 cs)) n of
             None \<Rightarrow> None
           | Some bs \<Rightarrow> map_option (\<lambda>r. bs @ r) (decode_chunks (drop 4 cs))))"

declare decode_chunks.simps [simp del]

definition ends_with :: "string \<Rightarrow> string \<Rightarrow> bool" where
  "ends_with s suffix \<longleftrightarrow> length suffix \<le> length s \<and> drop (length s - length suffix) s = suffix"

definition pad_count :: "string \<Rightarrow> nat" where
  "pad_count s = (if ends_with s ''=='' then 2 else if ends_with s ''='' then 1 else 0)"

definition decodeBase64 :: "string \<Rightarrow> resync_error + bytes" where
  "decodeBase64 text' =
     (if text' = [] then Inr []
      else if length text' mod 4 \<noteq> 0 then Inl BadBase64
      else
        let chars = take (length text' - pad_count text') text'
        in if CHR ''='' \<in> set chars then Inl BadBase64
           else case decode_chunks chars of
             None \<Rightarrow> Inl BadBase64
           | Some bs \<Rightarrow> Inr bs)"

text \<open>The encoder whose output, and no other text, is accepted.\<close>

definition b64_char :: "nat \<Rightarrow> char" where
  "b64_char v = BASE64_ALPHABET ! v"

fun enc_chars :: "bytes \<Rightarrow> string" where
  "enc_chars [] = []"
| "enc_chars [a] = [b64_char (unat a div 4), b64_char (unat a mod 4 * 16)]"
| "enc_chars [a, b] =
     [b64_char (unat a div 4), b64_char (unat a mod 4 * 16 + unat b div 16),
      b64_char (unat b mod 16 * 4)]"
| "enc_chars (a # b # c # bs) =
     [b64_char (unat a div 4), b64_char (unat a mod 4 * 16 + unat b div 16),
      b64_char (unat b mod 16 * 4 + unat c div 64), b64_char (unat c mod 64)] @ enc_chars bs"

definition enc_pad :: "bytes \<Rightarrow> nat" where
  "enc_pad bs = (3 - length bs mod 3) mod 3"

definition encodeBase64 :: "bytes \<Rightarrow> string" where
  "encodeBase64 bs = enc_chars bs @ replicate (enc_pad bs) (CHR ''='')"

subsection \<open>Characters and bits\<close>

lemma index_of_Some: "index_of x xs = Some i \<Longrightarrow> i < length xs \<and> xs ! i = x"
  by (induction xs arbitrary: i) (auto split: if_splits)

lemma index_of_nth: "distinct xs \<Longrightarrow> i < length xs \<Longrightarrow> index_of (xs ! i) xs = Some i"
  by (induction xs arbitrary: i) (auto simp: nth_Cons split: nat.splits)

lemma length_alphabet [simp]: "length BASE64_ALPHABET = 64"
  by (simp add: BASE64_ALPHABET_def)

lemma distinct_alphabet: "distinct BASE64_ALPHABET"
  by (simp add: BASE64_ALPHABET_def)

lemma pad_not_in_alphabet: "CHR ''='' \<notin> set BASE64_ALPHABET"
  by (simp add: BASE64_ALPHABET_def)

lemma BASE64_INDEX_b64_char [simp]: "v < 64 \<Longrightarrow> BASE64_INDEX (b64_char v) = Some v"
  by (simp add: BASE64_INDEX_def b64_char_def index_of_nth distinct_alphabet)

lemma BASE64_INDEX_Some: "BASE64_INDEX c = Some v \<longleftrightarrow> v < 64 \<and> c = b64_char v"
  using index_of_Some[of c BASE64_ALPHABET v] BASE64_INDEX_b64_char[of v]
  by (auto simp: BASE64_INDEX_def b64_char_def)

lemma b64_char_not_pad [simp]: "v < 64 \<Longrightarrow> b64_char v \<noteq> CHR ''=''"
  using pad_not_in_alphabet by (metis b64_char_def length_alphabet nth_mem)

lemma shift_or: "v < 64 \<Longrightarrow> push_bit 6 n OR v = 64 * n + (v :: nat)"
proof -
  assume "v < 64"
  then have v: "take_bit 6 v = v" by (simp add: take_bit_nat_eq_self)
  have "push_bit 6 n AND v = 0"
    by (rule bit_eqI, subst v[symmetric]) (auto simp: bit_simps)
  then have "push_bit 6 n OR v = push_bit 6 n + v"
    by (simp add: disjunctive_add_eq_or)
  then show ?thesis by (simp add: push_bit_eq_mult)
qed

lemma and_masks:
  "(n :: nat) AND 255 = n mod 256" "(n :: nat) AND 3 = n mod 4" "(n :: nat) AND 15 = n mod 16"
  using take_bit_eq_mask[of 8 n] take_bit_eq_mask[of 2 n] take_bit_eq_mask[of 4 n]
  by (simp_all add: mask_eq_exp_minus_1 take_bit_eq_mod)

lemma low_byte_eq: "low_byte n = word_of_nat n"
proof -
  have "unat (low_byte n) = unat (word_of_nat n :: byte)"
    by (simp add: low_byte_def and_masks unat_byte_of_nat)
  then show ?thesis by (rule word_unat_eq_iff[THEN iffD2])
qed

lemma chunk_value_Some:
  "chunk_value n cs = Some m \<longleftrightarrow>
    (\<exists>vs. cs = map b64_char vs \<and> list_all (\<lambda>v. v < 64) vs \<and> m = foldl (\<lambda>n v. 64 * n + v) n vs)"
proof (induction cs arbitrary: n)
  case Nil
  then show ?case by auto
next
  case (Cons c cs)
  show ?case
  proof (cases "BASE64_INDEX c")
    case None
    then have "c \<noteq> b64_char v" if "v < 64" for v using that by auto
    with None show ?thesis by (auto simp: Cons_eq_map_conv)
  next
    case (Some v)
    then have v: "v < 64" "c = b64_char v" by (auto simp: BASE64_INDEX_Some)
    then have step: "chunk_value n (c # cs) = chunk_value (64 * n + v) cs"
      using Some by (simp add: shift_or)
    show ?thesis
    proof
      assume "chunk_value n (c # cs) = Some m"
      then obtain vs where "cs = map b64_char vs" "list_all (\<lambda>v. v < 64) vs"
        "m = foldl (\<lambda>n v. 64 * n + v) (64 * n + v) vs"
        using Cons.IH step by auto
      with v show "\<exists>vs. c # cs = map b64_char vs \<and> list_all (\<lambda>v. v < 64) vs
          \<and> m = foldl (\<lambda>n v. 64 * n + v) n vs"
        by (intro exI[of _ "v # vs"]) simp
    next
      assume "\<exists>vs. c # cs = map b64_char vs \<and> list_all (\<lambda>v. v < 64) vs
          \<and> m = foldl (\<lambda>n v. 64 * n + v) n vs"
      then obtain w ws where w: "c = b64_char w" "cs = map b64_char ws" "w < 64"
        "list_all (\<lambda>v. v < 64) ws" "m = foldl (\<lambda>n v. 64 * n + v) (64 * n + w) ws"
        by (auto simp: Cons_eq_map_conv)
      then have "w = v" using Some by simp
      with w Cons.IH[of "64 * n + v"] step show "chunk_value n (c # cs) = Some m" by auto
    qed
  qed
qed

lemma chunk_value_chars:
  "list_all (\<lambda>v. v < 64) vs \<Longrightarrow> chunk_value n (map b64_char vs) = Some (foldl (\<lambda>n v. 64 * n + v) n vs)"
  by (subst chunk_value_Some) blast

subsection \<open>The decoder inverts the encoder\<close>

lemma byte_parts:
  fixes a b c :: byte
  shows "unat a div 4 < 64" "unat a mod 4 * 16 < 64" "unat a mod 4 * 16 + unat b div 16 < 64"
    "unat b mod 16 * 4 < 64" "unat b mod 16 * 4 + unat c div 64 < 64" "unat c mod 64 < 64"
  using unat_byte_bound[of a] unat_byte_bound[of b] unat_byte_bound[of c] by linarith+

lemma sextets3:
  "q * 4 + r = a \<Longrightarrow> q' * 16 + r' = b
    \<Longrightarrow> (q * 64 + (r * 16 + q')) * 64 + r' * 4 = a * 1024 + (b :: nat) * 4"
  by (auto simp: algebra_simps)

lemma sextets4:
  "q * 4 + r = a \<Longrightarrow> q' * 16 + r' = b \<Longrightarrow> q'' * 64 + r'' = c
    \<Longrightarrow> ((q * 64 + (r * 16 + q')) * 64 + (r' * 4 + q'')) * 64 + r'' = a * 65536 + b * 256 + (c :: nat)"
  by (auto simp: algebra_simps)

lemma word_of_nat_byte: "m mod 256 = unat (a :: byte) \<Longrightarrow> word_of_nat m = a"
  by (rule word_unat_eq_iff[THEN iffD2]) (simp add: unat_byte_of_nat)

lemma digits_of_16:
  fixes x y :: nat
  assumes "x < 256" "y < 256"
  shows "(x * 1024 + y * 4) div 1024 mod 256 = x" "(x * 1024 + y * 4) div 4 mod 256 = y"
    "(x * 1024 + y * 4) mod 4 = 0"
proof -
  have 1: "x * 1024 + y * 4 = (x * 256 + y) * 4" by simp
  show "(x * 1024 + y * 4) div 1024 mod 256 = x" using assms by simp
  show "(x * 1024 + y * 4) div 4 mod 256 = y" unfolding 1 using assms by simp
  show "(x * 1024 + y * 4) mod 4 = 0" unfolding 1 by simp
qed

lemma digits_of_24:
  fixes x y z :: nat
  assumes "x < 256" "y < 256" "z < 256"
  shows "(x * 65536 + y * 256 + z) div 65536 mod 256 = x" "(x * 65536 + y * 256 + z) div 256 mod 256 = y"
    "(x * 65536 + y * 256 + z) mod 256 = z"
proof -
  have 2: "x * 65536 + y * 256 + z = (x * 256 + y) * 256 + z"
    and 3: "x * 65536 + y * 256 + z = x * 65536 + (y * 256 + z)" by simp_all
  have "y * 256 + z < 65536" using assms by linarith
  then show "(x * 65536 + y * 256 + z) div 65536 mod 256 = x" unfolding 3 using assms by simp
  have w: "(w * 256 + z) div 256 = w" "(w * 256 + z) mod 256 = z" for w using assms by simp_all
  from w[of "x * 256 + y"] show "(x * 65536 + y * 256 + z) div 256 mod 256 = y"
    "(x * 65536 + y * 256 + z) mod 256 = z"
    unfolding 2 using assms by simp_all
qed

lemma decode_chunks_enc: "decode_chunks (enc_chars bs) = Some bs"
proof (induction bs rule: enc_chars.induct)
  case 1
  show ?case by (simp add: decode_chunks.simps)
next
  case (2 a)
  let ?vs = "[unat a div 4, unat a mod 4 * 16]"
  have "unat a div 4 * 64 + unat a mod 4 * 16 = unat a * 16" by presburger
  then have "chunk_value 0 (map b64_char ?vs) = Some (unat a * 16)"
    by (subst chunk_value_chars) (simp_all add: byte_parts)
  then show ?case
    using unat_byte_bound[of a]
    by (subst decode_chunks.simps)
      (simp add: chunk_bytes_def and_masks low_byte_eq drop_bit_eq_div decode_chunks.simps[of "[]"])
next
  case (3 a b)
  let ?vs = "[unat a div 4, unat a mod 4 * 16 + unat b div 16, unat b mod 16 * 4]"
  define n where "n = unat a * 1024 + unat b * 4"
  have "(unat a div 4 * 64 + (unat a mod 4 * 16 + unat b div 16)) * 64 + unat b mod 16 * 4 = n"
    unfolding n_def by (rule sextets3[OF div_mult_mod_eq div_mult_mod_eq])
  then have "chunk_value 0 (map b64_char ?vs) = Some n"
    by (subst chunk_value_chars) (simp_all add: byte_parts)
  moreover have "word_of_nat (n div 1024) = a" "word_of_nat (n div 4) = b"
    unfolding n_def by (rule word_of_nat_byte, simp only: digits_of_16 unat_byte_bound)+
  moreover have "n mod 4 = 0" unfolding n_def by (rule digits_of_16(3)) (rule unat_byte_bound)+
  ultimately show ?case
    by (subst decode_chunks.simps)
      (simp add: chunk_bytes_def and_masks low_byte_eq drop_bit_eq_div decode_chunks.simps[of "[]"])
next
  case (4 a b c bs)
  let ?vs = "[unat a div 4, unat a mod 4 * 16 + unat b div 16, unat b mod 16 * 4 + unat c div 64,
    unat c mod 64]"
  define n where "n = unat a * 65536 + unat b * 256 + unat c"
  have "((unat a div 4 * 64 + (unat a mod 4 * 16 + unat b div 16)) * 64
      + (unat b mod 16 * 4 + unat c div 64)) * 64 + unat c mod 64 = n"
    unfolding n_def by (rule sextets4[OF div_mult_mod_eq div_mult_mod_eq div_mult_mod_eq])
  then have "chunk_value 0 (map b64_char ?vs) = Some n"
    by (subst chunk_value_chars) (simp_all add: byte_parts)
  moreover have "word_of_nat (n div 65536) = a" "word_of_nat (n div 256) = b" "word_of_nat n = c"
    unfolding n_def by (rule word_of_nat_byte, simp only: digits_of_24 unat_byte_bound)+
  ultimately show ?case
    using 4
    by (subst decode_chunks.simps) (simp add: chunk_bytes_def low_byte_eq drop_bit_eq_div)
qed

subsection \<open>Only what the encoder prints is accepted\<close>

lemma unat_word_of_nat_byte [simp]: "m < 256 \<Longrightarrow> unat (word_of_nat m :: byte) = m"
  by (simp add: unat_byte_of_nat)

lemma word_of_nat_mod_byte: "m mod 256 = k \<Longrightarrow> (word_of_nat m :: byte) = word_of_nat k"
  by (rule word_unat_eq_iff[THEN iffD2]) (auto simp: unat_byte_of_nat)

lemma chunk4:
  assumes "v0 < 64" "v1 < 64" "v2 < 64" "v3 < 64"
  defines "n \<equiv> ((v0 * 64 + v1) * 64 + v2) * 64 + v3"
  shows "enc_chars [word_of_nat (n div 65536), word_of_nat (n div 256), word_of_nat n]
    = [b64_char v0, b64_char v1, b64_char v2, b64_char v3]"
proof -
  define p q r s where "p = v1 div 16" "q = v1 mod 16" "r = v2 div 4" "s = v2 mod 4"
  then have v: "v1 = p * 16 + q" "v2 = r * 4 + s" by simp_all
  have b: "p < 4" "q < 16" "r < 16" "s < 4" using assms(2,3) by (auto simp: p_q_r_s_def)
  let ?x = "v0 * 4 + p" and ?y = "q * 16 + r" and ?z = "s * 64 + v3"
  have n: "n = ?x * 65536 + ?y * 256 + ?z" by (simp add: n_def v algebra_simps)
  have xyz: "?x < 256" "?y < 256" "?z < 256" using assms(1,4) b by linarith+
  have "(word_of_nat (n div 65536) :: byte) = word_of_nat ?x"
    "(word_of_nat (n div 256) :: byte) = word_of_nat ?y" "(word_of_nat n :: byte) = word_of_nat ?z"
    unfolding n by (rule word_of_nat_mod_byte, rule digits_of_24[OF xyz])+
  moreover have "?x div 4 = v0" "?x mod 4 = p" "?y div 16 = q" "?y mod 16 = r" "?z div 64 = s"
    "?z mod 64 = v3"
    using b assms(4) by simp_all
  ultimately show ?thesis
    using xyz by (simp del: of_nat_add of_nat_mult add: v)
qed

lemma chunk3:
  assumes "v0 < 64" "v1 < 64" "v2 < 64"
  defines "n \<equiv> (v0 * 64 + v1) * 64 + v2"
  assumes "n mod 4 = 0"
  shows "enc_chars [word_of_nat (n div 1024), word_of_nat (n div 4)]
    = [b64_char v0, b64_char v1, b64_char v2]"
proof -
  define p q r where "p = v1 div 16" "q = v1 mod 16" "r = v2 div 4"
  have "n = v2 + ((v0 * 64 + v1) * 16) * 4" by (simp add: n_def)
  then have "n mod 4 = v2 mod 4" by (simp only: mod_mult_self1)
  then have v: "v1 = p * 16 + q" "v2 = r * 4" using assms(5) by (auto simp: p_q_r_def)
  have b: "p < 4" "q < 16" "r < 16" using assms(2,3) by (auto simp: p_q_r_def)
  let ?x = "v0 * 4 + p" and ?y = "q * 16 + r"
  have n: "n = ?x * 1024 + ?y * 4" by (simp add: n_def v algebra_simps)
  have xy: "?x < 256" "?y < 256" using assms(1) b by linarith+
  have "(word_of_nat (n div 1024) :: byte) = word_of_nat ?x"
    "(word_of_nat (n div 4) :: byte) = word_of_nat ?y"
    unfolding n by (rule word_of_nat_mod_byte, rule digits_of_16[OF xy])+
  moreover have "?x div 4 = v0" "?x mod 4 = p" "?y div 16 = q" "?y mod 16 = r"
    using b by simp_all
  ultimately show ?thesis
    using xy by (simp del: of_nat_add of_nat_mult add: v)
qed

lemma chunk2:
  assumes "v0 < 64" "v1 < 64"
  defines "n \<equiv> v0 * 64 + v1"
  assumes "n mod 16 = 0"
  shows "enc_chars [word_of_nat (n div 16)] = [b64_char v0, b64_char v1]"
proof -
  have "n = v1 + (v0 * 4) * 16" by (simp add: n_def)
  then have "n mod 16 = v1 mod 16" by (simp only: mod_mult_self1)
  then obtain p where p: "v1 = p * 16" using assms(4) by auto
  then have "p < 4" using assms(2) by simp
  let ?x = "v0 * 4 + p"
  have "n = ?x * 16" by (simp add: n_def p algebra_simps)
  then have "n div 16 = ?x" by simp
  moreover have "?x < 256" "?x div 4 = v0" "?x mod 4 = p" using assms(1) \<open>p < 4\<close> by simp_all
  ultimately show ?thesis
    by (simp del: of_nat_add of_nat_mult add: p)
qed

lemma enc_chars_append3: "length bs = 3 \<Longrightarrow> enc_chars (bs @ cs) = enc_chars bs @ enc_chars cs"
  by (auto simp: length_Suc_conv numeral_3_eq_3)

lemma chunk_of_4:
  assumes "chunk_value 0 cs = Some n" and "chunk_bytes (length cs) n = Some bs" and "length cs = 4"
  shows "length bs = 3 \<and> enc_chars bs = cs"
proof -
  obtain vs where vs: "cs = map b64_char vs" "list_all (\<lambda>v. v < 64) vs"
    "n = foldl (\<lambda>n v. 64 * n + v) 0 vs"
    using assms(1) chunk_value_Some by blast
  then have "length vs = 4" using assms(3) by simp
  then obtain v0 v1 v2 v3 where v: "vs = [v0, v1, v2, v3]"
    by (auto simp: length_Suc_conv eval_nat_numeral)
  have n: "n = ((v0 * 64 + v1) * 64 + v2) * 64 + v3" by (simp add: vs v)
  have "bs = [word_of_nat (n div 65536), word_of_nat (n div 256), word_of_nat n]"
    using assms(2,3) by (simp add: chunk_bytes_def low_byte_eq drop_bit_eq_div)
  then show ?thesis using vs v chunk4[of v0 v1 v2 v3, folded n] by simp
qed

lemma chunk_of_3:
  assumes "chunk_value 0 cs = Some n" and "chunk_bytes (length cs) n = Some bs" and "length cs = 3"
  shows "length bs = 2 \<and> enc_chars bs = cs"
proof -
  obtain vs where vs: "cs = map b64_char vs" "list_all (\<lambda>v. v < 64) vs"
    "n = foldl (\<lambda>n v. 64 * n + v) 0 vs"
    using assms(1) chunk_value_Some by blast
  then have "length vs = 3" using assms(3) by simp
  then obtain v0 v1 v2 where v: "vs = [v0, v1, v2]"
    by (auto simp: length_Suc_conv eval_nat_numeral)
  have n: "n = (v0 * 64 + v1) * 64 + v2" by (simp add: vs v)
  have "n mod 4 = 0" and "bs = [word_of_nat (n div 1024), word_of_nat (n div 4)]"
    using assms(2,3) by (auto simp: chunk_bytes_def low_byte_eq drop_bit_eq_div and_masks split: if_splits)
  then show ?thesis using vs v chunk3[of v0 v1 v2, folded n] by simp
qed

lemma chunk_of_2:
  assumes "chunk_value 0 cs = Some n" and "chunk_bytes (length cs) n = Some bs" and "length cs = 2"
  shows "length bs = 1 \<and> enc_chars bs = cs"
proof -
  obtain vs where vs: "cs = map b64_char vs" "list_all (\<lambda>v. v < 64) vs"
    "n = foldl (\<lambda>n v. 64 * n + v) 0 vs"
    using assms(1) chunk_value_Some by blast
  then have "length vs = 2" using assms(3) by simp
  then obtain v0 v1 where v: "vs = [v0, v1]"
    by (auto simp: length_Suc_conv eval_nat_numeral)
  have n: "n = v0 * 64 + v1" by (simp add: vs v)
  have "n mod 16 = 0" and "bs = [word_of_nat (n div 16)]"
    using assms(2,3) by (auto simp: chunk_bytes_def low_byte_eq drop_bit_eq_div and_masks split: if_splits)
  then show ?thesis using vs v chunk2[of v0 v1, folded n] by simp
qed

lemma decode_chunks_Some:
  "decode_chunks cs = Some bs \<Longrightarrow> length cs mod 4 \<noteq> 1
    \<Longrightarrow> enc_chars bs = cs \<and> enc_pad bs = (4 - length cs mod 4) mod 4"
proof (induction cs arbitrary: bs rule: decode_chunks.induct)
  case (1 cs)
  show ?case
  proof (cases "cs = []")
    case True
    with 1(2) show ?thesis by (simp add: decode_chunks.simps enc_pad_def)
  next
    case False
    obtain n b1 b2 where d: "chunk_value 0 (take 4 cs) = Some n"
      "chunk_bytes (length (take 4 cs)) n = Some b1" "decode_chunks (drop 4 cs) = Some b2"
      "bs = b1 @ b2"
      using 1(2) False by (subst (asm) decode_chunks.simps) (auto split: option.splits)
    show ?thesis
    proof (cases "4 \<le> length cs")
      case True
      then have l: "length (take 4 cs) = 4" by simp
      note c = chunk_of_4[OF d(1,2) l]
      have m: "length (drop 4 cs) mod 4 = length cs mod 4"
        using True by (simp add: mod_if[of "length cs"])
      with 1 False d have "enc_chars b2 = drop 4 cs"
        "enc_pad b2 = (4 - length (drop 4 cs) mod 4) mod 4" by auto
      with c d(4) m show ?thesis
        by (simp add: enc_chars_append3 enc_pad_def)
    next
      case short: False
      then have "drop 4 cs = []" and t: "take 4 cs = cs" by simp_all
      with d have bs: "bs = b1" by (simp add: decode_chunks.simps)
      have "0 < length cs" "length cs < 4" "length cs \<noteq> 1"
        using short False 1(3) by auto
      then have "length cs = 2 \<or> length cs = 3" by linarith
      then show ?thesis
        using chunk_of_2[OF d(1,2)] chunk_of_3[OF d(1,2)] by (auto simp: t bs enc_pad_def)
    qed
  qed
qed

subsection \<open>The whole text\<close>

lemma length_enc_chars_mod: "length (enc_chars bs @ replicate (enc_pad bs) x) mod 4 = 0"
proof (induction bs rule: enc_chars.induct)
  case (4 a b c bs)
  have "length (a # b # c # bs) mod 3 = length bs mod 3"
  proof -
    have "length (a # b # c # bs) = length bs + 3" by simp
    then show ?thesis by (simp only: mod_add_self2)
  qed
  then have "enc_pad (a # b # c # bs) = enc_pad bs" by (simp only: enc_pad_def)
  with 4 show ?case by simp
qed (simp_all add: enc_pad_def)

lemma pad_not_in_enc_chars: "CHR ''='' \<notin> set (enc_chars bs)"
proof (induction bs rule: enc_chars.induct)
  case 1
  show ?case by simp
next
  case (2 a)
  show ?case using b64_char_not_pad byte_parts by (simp, metis)
next
  case (3 a b)
  show ?case using b64_char_not_pad byte_parts by (simp, metis)
next
  case (4 a b c bs)
  then show ?case using b64_char_not_pad byte_parts by (simp, metis)
qed

lemma pad_count_replicate:
  assumes "CHR ''='' \<notin> set cs" and "p \<le> 2"
  shows "pad_count (cs @ replicate p (CHR ''='')) = p"
proof -
  have "p = 0 \<or> p = 1 \<or> p = 2" using assms(2) by linarith
  moreover have "\<not> ends_with cs ''=''" "\<not> ends_with cs ''==''"
    using assms(1) by (auto simp: ends_with_def dest!: arg_cong[of _ _ set] in_set_dropD)
  moreover have "\<not> ends_with (cs @ ''='') ''==''"
    using assms(1) by (cases cs rule: rev_cases) (auto simp: ends_with_def)
  ultimately show ?thesis
    by (auto simp: pad_count_def ends_with_def numeral_2_eq_2)
qed

lemma decodeBase64_encode: "decodeBase64 (encodeBase64 bs) = Inr bs"
proof (cases "bs = []")
  case True
  then show ?thesis by (simp add: encodeBase64_def decodeBase64_def enc_pad_def)
next
  case False
  then have ne: "encodeBase64 bs \<noteq> []"
    by (cases bs rule: enc_chars.cases) (simp_all add: encodeBase64_def)
  have "enc_pad bs \<le> 2" by (simp add: enc_pad_def less_Suc_eq_le[symmetric])
  then have pc: "pad_count (encodeBase64 bs) = enc_pad bs"
    unfolding encodeBase64_def by (rule pad_count_replicate[OF pad_not_in_enc_chars])
  have m: "length (encodeBase64 bs) mod 4 = 0"
    unfolding encodeBase64_def by (rule length_enc_chars_mod)
  have "take (length (encodeBase64 bs) - enc_pad bs) (encodeBase64 bs) = enc_chars bs"
    by (simp add: encodeBase64_def)
  then show ?thesis
    using ne m pad_not_in_enc_chars by (simp add: decodeBase64_def pc Let_def decode_chunks_enc)
qed

lemma pad_count_split:
  "s = take (length s - pad_count s) s @ replicate (pad_count s) (CHR ''='') \<and> pad_count s \<le> 2"
proof -
  have *: "ends_with s t \<Longrightarrow> s = take (length s - length t) s @ t" for t
    unfolding ends_with_def by (metis append_take_drop_id)
  show ?thesis
    using *[of "''==''"] *[of "''=''"] by (auto simp: pad_count_def numeral_2_eq_2)
qed

lemma pad_arith: "(l + p) mod 4 = 0 \<Longrightarrow> p \<le> 2 \<Longrightarrow> l mod 4 \<noteq> 1 \<and> p = (4 - l mod 4) mod (4 :: nat)"
proof -
  assume a: "(l + p) mod 4 = 0" and p: "p \<le> 2"
  have "p = 0 \<or> p = 1 \<or> p = 2" using p by linarith
  moreover have "l mod 4 = 0 \<or> l mod 4 = 1 \<or> l mod 4 = 2 \<or> l mod 4 = 3" by linarith
  moreover have "(l mod 4 + p) mod 4 = 0" using a by (simp only: mod_add_left_eq)
  ultimately show ?thesis by (elim disjE) simp_all
qed

lemma decodeBase64_Inr:
  assumes "decodeBase64 s = Inr bs"
  shows "encodeBase64 bs = s"
proof (cases "s = []")
  case True
  with assms show ?thesis by (simp add: decodeBase64_def encodeBase64_def enc_pad_def)
next
  case False
  let ?cs = "take (length s - pad_count s) s"
  have m: "length s mod 4 = 0" and d: "decode_chunks ?cs = Some bs"
    using assms False by (auto simp: decodeBase64_def Let_def split: if_splits option.splits)
  have split: "s = ?cs @ replicate (pad_count s) (CHR ''='')" and p: "pad_count s \<le> 2"
    using pad_count_split by blast+
  have len: "length s = length ?cs + pad_count s"
    using arg_cong[OF split, of length] by simp
  have "(length ?cs + pad_count s) mod 4 = 0" using m len by simp
  note pa = pad_arith[OF this p]
  have "enc_chars bs = ?cs" "enc_pad bs = pad_count s"
    using decode_chunks_Some[OF d] pa by simp_all
  then show ?thesis
    unfolding encodeBase64_def using split by simp
qed

interpretation base64: strict_codec encodeBase64 decodeBase64 "\<lambda>_. True"
  by unfold_locales (simp_all add: decodeBase64_encode decodeBase64_Inr)

section \<open>The snapshot wrapper\<close>

record DecodedSnapshotWrapper =
  w_formatVersion :: nat
  w_documentId :: string
  w_coverageSeq :: nat
  w_coveredOpCount :: nat
  w_inner :: bytes

definition formatUuid :: "bytes \<Rightarrow> nat \<Rightarrow> string" where
  "formatUuid bs offset =
     concat (map (\<lambda>i. hex2 (unat (bs ! (offset + i))) @ (if i \<in> {3, 5, 7, 9} then ''-'' else []))
       [0..<16])"

definition decodeSnapshotWrapper :: "bytes \<Rightarrow> resync_error + DecodedSnapshotWrapper" where
  "decodeSnapshotWrapper bs =
     (if length bs < WRAPPER_HEADER_LEN then Inl Truncated
      else
        let formatVersion = unat (bs ! 0)
        in if formatVersion \<noteq> SUPPORTED_CLIENT_FORMAT_VERSION then Inl UnsupportedFormat
           else
             let documentId = formatUuid bs 1;
                 coverageSeq = le_val (slice 17 8 bs);
                 coveredOpCount = le_val (slice 25 8 bs);
                 innerLen = le_val (slice 33 8 bs);
                 total = WRAPPER_HEADER_LEN + innerLen;
                 actual = length bs
             in if actual < total then Inl Truncated
                else if total < actual then Inl TrailingBytes
                else Inr \<lparr>w_formatVersion = formatVersion, w_documentId = documentId,
                          w_coverageSeq = coverageSeq, w_coveredOpCount = coveredOpCount,
                          w_inner = (if innerLen = 0 then [] else drop WRAPPER_HEADER_LEN bs)\<rparr>)"

text \<open>The server's layout, from the uuid text back to its bytes.\<close>

fun hex_bytes :: "string \<Rightarrow> bytes" where
  "hex_bytes (a # b # r) =
     word_of_nat (16 * the (radix_digit 16 a) + the (radix_digit 16 b)) # hex_bytes r"
| "hex_bytes _ = []"

definition uuid_bytes :: "string \<Rightarrow> bytes" where
  "uuid_bytes d = hex_bytes (filter (\<lambda>c. c \<noteq> CHR ''-'') d)"

definition wrapper_bytes :: "DecodedSnapshotWrapper \<Rightarrow> bytes" where
  "wrapper_bytes w =
     word_of_nat (w_formatVersion w) # uuid_bytes (w_documentId w) @ le_bytes 8 (w_coverageSeq w)
     @ le_bytes 8 (w_coveredOpCount w) @ le_bytes 8 (length (w_inner w)) @ w_inner w"

definition wrapper_wf :: "DecodedSnapshotWrapper \<Rightarrow> bool" where
  "wrapper_wf w \<longleftrightarrow>
     w_formatVersion w = 1 \<and> length (uuid_bytes (w_documentId w)) = 16
     \<and> formatUuid (uuid_bytes (w_documentId w)) 0 = w_documentId w
     \<and> w_coverageSeq w < 2 ^ 64 \<and> w_coveredOpCount w < 2 ^ 64 \<and> length (w_inner w) < 2 ^ 64"

lemma hyphen_not_hex: "d < 16 \<Longrightarrow> hex_digit d \<noteq> CHR ''-''"
proof -
  have "list_all (\<lambda>d. hex_digit d \<noteq> CHR ''-'') [0..<16]" by (simp add: hex_digit_def upt_rec)
  then show "d < 16 \<Longrightarrow> ?thesis" by (simp add: list_all_iff)
qed

lemma hex_bytes_hex2: "hex_bytes (hex2 (unat b) @ r) = b # hex_bytes r"
proof -
  have "unat b div 16 < 16" using unat_byte_bound[of b] by linarith
  then show ?thesis by (simp add: hex2_def)
qed

lemma filter_hex2: "filter (\<lambda>c. c \<noteq> CHR ''-'') (hex2 (unat (b :: byte))) = hex2 (unat b)"
proof -
  have "unat b div 16 < 16" using unat_byte_bound[of b] by linarith
  then show ?thesis by (simp add: hex2_def hyphen_not_hex)
qed

lemma uuid_bytes_formatUuid: "off + 16 \<le> length bs \<Longrightarrow> uuid_bytes (formatUuid bs off) = slice off 16 bs"
proof -
  assume l: "off + 16 \<le> length bs"
  have h: "hex_bytes (concat (map (\<lambda>b. hex2 (unat b)) xs)) = xs" for xs :: bytes
    by (induction xs) (simp_all add: hex_bytes_hex2)
  have "filter (\<lambda>c. c \<noteq> CHR ''-'') (formatUuid bs off)
      = concat (map (\<lambda>i. hex2 (unat (bs ! (off + i)))) [0..<16])"
    unfolding formatUuid_def filter_concat map_map
    by (intro arg_cong[of _ _ concat] map_cong) (auto simp: filter_hex2)
  also have "\<dots> = concat (map (\<lambda>b. hex2 (unat b)) (map (\<lambda>i. bs ! (off + i)) [0..<16]))"
    by (simp only: map_map o_def)
  also have "map (\<lambda>i. bs ! (off + i)) [0..<16] = slice off 16 bs"
    using l by (intro nth_equalityI) (simp_all add: slice_def)
  finally show ?thesis by (simp add: uuid_bytes_def h)
qed

lemma formatUuid_slice: "off + 16 \<le> length bs \<Longrightarrow> formatUuid (slice off 16 bs) 0 = formatUuid bs off"
  unfolding formatUuid_def by (intro arg_cong[of _ _ concat] map_cong) (auto simp: slice_def)

lemma take_41: "take 41 bs = take 1 bs @ slice 1 16 bs @ slice 17 8 bs @ slice 25 8 bs @ slice 33 8 bs"
  using take_add[of 1 40 bs] take_add[of 16 24 "drop 1 bs"] take_add[of 8 16 "drop 17 bs"]
    take_add[of 8 8 "drop 25 bs"] by (simp add: slice_def)

lemma decode_wrapper_bytes:
  assumes "wrapper_wf w"
  shows "decodeSnapshotWrapper (wrapper_bytes w) = Inr w"
proof -
  let ?b = "wrapper_bytes w"
  note wf = assms[unfolded wrapper_wf_def]
  have l: "length ?b = 41 + length (w_inner w)" using wf by (simp add: wrapper_bytes_def)
  have v: "?b ! 0 = 1" using wf by (simp add: wrapper_bytes_def)
  have u: "slice 1 16 ?b = uuid_bytes (w_documentId w)"
    using wf by (simp add: wrapper_bytes_def slice_def)
  have doc: "formatUuid ?b 1 = w_documentId w"
    using formatUuid_slice[of 1 ?b] u wf l by simp
  have "le_val (slice 17 8 ?b) = w_coverageSeq w" "le_val (slice 25 8 ?b) = w_coveredOpCount w"
    "le_val (slice 33 8 ?b) = length (w_inner w)" "drop 41 ?b = w_inner w"
    using wf by (simp_all add: wrapper_bytes_def slice_def le_val_le_bytes drop_Cons')
  then show ?thesis
    using wf l v doc
    by (simp add: decodeSnapshotWrapper_def WRAPPER_HEADER_LEN_def SUPPORTED_CLIENT_FORMAT_VERSION_def
        Let_def)
qed

lemma decodeSnapshotWrapper_Inr:
  assumes "decodeSnapshotWrapper bs = Inr w"
  shows "wrapper_wf w \<and> wrapper_bytes w = bs"
proof -
  let ?c = "le_val (slice 17 8 bs)" and ?n = "le_val (slice 25 8 bs)" and ?i = "le_val (slice 33 8 bs)"
  have l: "length bs = 41 + ?i" and v: "unat (bs ! 0) = 1"
    and w: "w = \<lparr>w_formatVersion = 1, w_documentId = formatUuid bs 1, w_coverageSeq = ?c,
      w_coveredOpCount = ?n, w_inner = drop 41 bs\<rparr>"
    using assms
    by (auto simp: decodeSnapshotWrapper_def WRAPPER_HEADER_LEN_def SUPPORTED_CLIENT_FORMAT_VERSION_def
        Let_def split: if_splits)
  have u: "uuid_bytes (formatUuid bs 1) = slice 1 16 bs" using l by (simp add: uuid_bytes_formatUuid)
  have "?c < 256 ^ length (slice 17 8 bs)" "?n < 256 ^ length (slice 25 8 bs)"
    "?i < 256 ^ length (slice 33 8 bs)" by (rule le_val_bound)+
  then have b: "?c < 2 ^ 64" "?n < 2 ^ 64" "?i < 2 ^ 64" using l by simp_all
  have "bs ! 0 = 1" by (rule word_unat_eq_iff[THEN iffD2]) (simp add: v)
  then have h: "take 1 bs = [1]" using l by (cases bs) auto
  have le: "le_bytes 8 ?c = slice 17 8 bs" "le_bytes 8 ?n = slice 25 8 bs"
    "le_bytes 8 ?i = slice 33 8 bs"
    using l by (simp_all add: le_bytes_le_val')
  have "bs = take 41 bs @ drop 41 bs" by simp
  then have eq: "bs = 1 # slice 1 16 bs @ slice 17 8 bs @ slice 25 8 bs @ slice 33 8 bs @ drop 41 bs"
    unfolding take_41 h by simp
  have "length (w_inner w) = ?i" using l by (simp add: w)
  then have "wrapper_bytes w
      = 1 # slice 1 16 bs @ slice 17 8 bs @ slice 25 8 bs @ slice 33 8 bs @ drop 41 bs"
    by (simp add: wrapper_bytes_def w u[unfolded One_nat_def] le)
  then have "wrapper_bytes w = bs" using eq by simp
  then show ?thesis
    using l b formatUuid_slice[of 1 bs] by (simp add: wrapper_wf_def w u[unfolded One_nat_def])
qed

interpretation wrapper: strict_codec wrapper_bytes decodeSnapshotWrapper wrapper_wf
  by unfold_locales (simp_all add: decode_wrapper_bytes decodeSnapshotWrapper_Inr)

interpretation payload: layered_codec wrapper_bytes decodeSnapshotWrapper wrapper_wf
  encodeBase64 decodeBase64 "\<lambda>_. True"
  by unfold_locales simp

section \<open>Envelope and resync frame\<close>

record SnapshotEnvelope =
  env_snapshotId :: string
  env_formatVersion :: int
  env_coverageSeq :: string
  env_coveredOpCount :: string
  env_checksum :: string
  env_payloadBase64 :: string
  env_stateDigest :: string
  env_payloadSize :: string

record SnapshotResyncRequired =
  rr_boundary :: string
  rr_snapshotId :: string
  rr_snapshotChecksum :: string
  rr_snapshotFormatVersion :: int
  rr_coverageOpCount :: string

definition parseU64Decimal :: "string \<Rightarrow> nat option" where
  "parseU64Decimal s =
     (if \<not> (canonical_dec s \<and> length s \<le> 20) then None
      else if U64_MAX < dec_val s then None else Some (dec_val s))"

definition is_hex64 :: "string \<Rightarrow> bool" where
  "is_hex64 s \<longleftrightarrow> length s = 64 \<and> list_all (\<lambda>c. radix_digit 16 c \<noteq> None) s"

definition is_u64_field :: "string option \<Rightarrow> bool" where
  "is_u64_field f = (case f of None \<Rightarrow> False | Some s \<Rightarrow> parseU64Decimal s \<noteq> None)"

definition parseSnapshotEnvelope :: "json \<Rightarrow> SnapshotEnvelope option" where
  "parseSnapshotEnvelope obj =
     (case (string_field ''snapshot_id'' obj, int_field ''format_version'' obj,
            string_field ''coverage_seq'' obj, string_field ''covered_op_count'' obj,
            string_field ''checksum'' obj, string_field ''payload_base64'' obj,
            string_field ''state_digest'' obj, string_field ''payload_size'' obj) of
        (Some sid, Some fv, Some seq, Some cnt, Some chk, Some b64, Some dig, Some sz) \<Rightarrow>
          if parseU64Decimal seq = None \<or> parseU64Decimal cnt = None \<or> \<not> is_hex64 chk
             \<or> parseU64Decimal sz = None
          then None
          else Some \<lparr>env_snapshotId = sid, env_formatVersion = fv, env_coverageSeq = seq,
                 env_coveredOpCount = cnt, env_checksum = chk, env_payloadBase64 = b64,
                 env_stateDigest = dig, env_payloadSize = sz\<rparr>
      | _ \<Rightarrow> None)"

definition resync_keys :: "string list" where
  "resync_keys = [''boundary'', ''snapshot_id'', ''snapshot_checksum'', ''snapshot_format_version'',
     ''coverage_op_count'']"

definition parseSnapshotResyncRequired :: "json \<Rightarrow> SnapshotResyncRequired option" where
  "parseSnapshotResyncRequired payload =
     (case payload of
        JObj kvs \<Rightarrow>
          if list_ex (\<lambda>(k, v). k \<notin> set resync_keys) kvs then None
          else if list_ex (\<lambda>k. map_of kvs k = None) resync_keys then None
          else
            (case (string_field ''boundary'' payload, string_field ''snapshot_id'' payload,
                   string_field ''snapshot_checksum'' payload,
                   int_field ''snapshot_format_version'' payload,
                   string_field ''coverage_op_count'' payload) of
               (Some b, Some sid, Some chk, Some fv, Some cnt) \<Rightarrow>
                 if parseU64Decimal b = None \<or> parseU64Decimal cnt = None then None
                 else Some \<lparr>rr_boundary = b, rr_snapshotId = sid, rr_snapshotChecksum = chk,
                        rr_snapshotFormatVersion = fv, rr_coverageOpCount = cnt\<rparr>
             | _ \<Rightarrow> None)
      | _ \<Rightarrow> None)"

datatype mismatch = MFormat | MBoundary | MOpCount | MChecksum | MSnapshotId

definition envelopeResyncMismatch :: "SnapshotResyncRequired \<Rightarrow> SnapshotEnvelope \<Rightarrow> mismatch option" where
  "envelopeResyncMismatch frame env =
     (if rr_snapshotFormatVersion frame \<noteq> env_formatVersion env then Some MFormat
      else if rr_boundary frame \<noteq> env_coverageSeq env then Some MBoundary
      else if rr_coverageOpCount frame \<noteq> env_coveredOpCount env then Some MOpCount
      else if to_lower (rr_snapshotChecksum frame) \<noteq> to_lower (env_checksum env) then Some MChecksum
      else if rr_snapshotId frame \<noteq> env_snapshotId env then Some MSnapshotId
      else None)"

section \<open>Validation\<close>

definition hex_text :: "bytes \<Rightarrow> string" where
  "hex_text bs = concat (map (\<lambda>b. hex2 (unat b)) bs)"

type_synonym digest = "(bytes \<Rightarrow> bytes) option"

definition sha256Hex :: "digest \<Rightarrow> bytes \<Rightarrow> resync_error + string" where
  "sha256Hex subtle bs =
     (case subtle of None \<Rightarrow> Inl DigestUnavailable | Some h \<Rightarrow> Inr (hex_text (h bs)))"

definition declared :: "string \<Rightarrow> resync_error + nat" where
  "declared s = (case parseU64Decimal s of None \<Rightarrow> Inl BadEnvelopeField | Some n \<Rightarrow> Inr n)"

definition validateServerSnapshot ::
  "digest \<Rightarrow> string \<Rightarrow> SnapshotEnvelope \<Rightarrow> resync_error + (bytes \<times> nat)" where
  "validateServerSnapshot subtle expectedDocumentId env =
     bindE (guardE (env_formatVersion env = int SUPPORTED_CLIENT_FORMAT_VERSION) UnsupportedFormat) (\<lambda>_.
     bindE (decodeBase64 (env_payloadBase64 env)) (\<lambda>bs.
     bindE (declared (env_payloadSize env)) (\<lambda>declaredSize.
     bindE (guardE (declaredSize = length bs) SizeMismatch) (\<lambda>_.
     bindE (decodeSnapshotWrapper bs) (\<lambda>wrapper.
     bindE (guardE (w_documentId wrapper = to_lower expectedDocumentId) DocumentMismatch) (\<lambda>_.
     bindE (declared (env_coverageSeq env)) (\<lambda>declaredCoverage.
     bindE (guardE (declaredCoverage = w_coverageSeq wrapper) CoverageMismatch) (\<lambda>_.
     bindE (declared (env_coveredOpCount env)) (\<lambda>declaredOpCount.
     bindE (guardE (declaredOpCount = w_coveredOpCount wrapper) CoverageMismatch) (\<lambda>_.
     bindE (guardE (is_hex64 (env_checksum env)) BadEnvelopeField) (\<lambda>_.
     bindE (sha256Hex subtle bs) (\<lambda>computed.
     bindE (guardE (computed = to_lower (env_checksum env)) ChecksumMismatch) (\<lambda>_.
     Inr (w_inner wrapper, w_coverageSeq wrapper))))))))))))))"

lemma parseU64Decimal_Some: "parseU64Decimal s = Some n \<longleftrightarrow> n \<le> U64_MAX \<and> s = show_nat n"
proof -
  have "length (show_nat n) \<le> 20" if "n \<le> U64_MAX"
    using that length_show_nat[of n 19] by (simp add: U64_MAX_def)
  then show ?thesis
    using show_nat_dec_val[of s] by (auto simp: parseU64Decimal_def)
qed

lemma declared_Inr: "declared s = Inr n \<longleftrightarrow> n \<le> U64_MAX \<and> s = show_nat n"
  by (auto simp: declared_def parseU64Decimal_Some[symmetric] split: option.splits)

lemma sha256Hex_Inr: "sha256Hex subtle bs = Inr x \<longleftrightarrow> (\<exists>h. subtle = Some h \<and> x = hex_text (h bs))"
  by (auto simp: sha256Hex_def split: option.splits)

text \<open>Which envelopes pass, stated without the decoders.\<close>

definition served :: "digest \<Rightarrow> string \<Rightarrow> SnapshotEnvelope \<Rightarrow> DecodedSnapshotWrapper \<Rightarrow> bool" where
  "served subtle doc env w \<longleftrightarrow>
     env_formatVersion env = 1 \<and> wrapper_wf w
     \<and> env_payloadBase64 env = encodeBase64 (wrapper_bytes w)
     \<and> env_payloadSize env = show_nat (length (wrapper_bytes w))
     \<and> length (wrapper_bytes w) \<le> U64_MAX
     \<and> w_documentId w = to_lower doc
     \<and> env_coverageSeq env = show_nat (w_coverageSeq w)
     \<and> env_coveredOpCount env = show_nat (w_coveredOpCount w)
     \<and> is_hex64 (env_checksum env)
     \<and> (case subtle of None \<Rightarrow> False
         | Some h \<Rightarrow> hex_text (h (wrapper_bytes w)) = to_lower (env_checksum env))"

lemma wf_u64: "wrapper_wf w \<Longrightarrow> w_coverageSeq w \<le> U64_MAX \<and> w_coveredOpCount w \<le> U64_MAX"
  by (simp add: wrapper_wf_def U64_MAX_def)

lemma validate_iff:
  "validateServerSnapshot subtle doc env = Inr (inner, cov) \<longleftrightarrow>
    (\<exists>w. served subtle doc env w \<and> inner = w_inner w \<and> cov = w_coverageSeq w)"
proof
  assume "validateServerSnapshot subtle doc env = Inr (inner, cov)"
  then obtain w where "env_formatVersion env = 1" "wrapper_wf w"
    "env_payloadBase64 env = encodeBase64 (wrapper_bytes w)"
    "env_payloadSize env = show_nat (length (wrapper_bytes w))"
    "length (wrapper_bytes w) \<le> U64_MAX" "w_documentId w = to_lower doc"
    "env_coverageSeq env = show_nat (w_coverageSeq w)"
    "env_coveredOpCount env = show_nat (w_coveredOpCount w)" "is_hex64 (env_checksum env)"
    "case subtle of None \<Rightarrow> False
      | Some h \<Rightarrow> hex_text (h (wrapper_bytes w)) = to_lower (env_checksum env)"
    "inner = w_inner w" "cov = w_coverageSeq w"
    by (auto simp: validateServerSnapshot_def SUPPORTED_CLIENT_FORMAT_VERSION_def bindE_Inr_iff
        declared_Inr sha256Hex_Inr base64.dec_iff wrapper.dec_iff split: if_splits)
  then show "\<exists>w. served subtle doc env w \<and> inner = w_inner w \<and> cov = w_coverageSeq w"
    unfolding served_def by blast
next
  assume "\<exists>w. served subtle doc env w \<and> inner = w_inner w \<and> cov = w_coverageSeq w"
  then obtain w where w: "served subtle doc env w" and ic: "inner = w_inner w" "cov = w_coverageSeq w"
    by blast
  have d: "declared (show_nat n) = Inr n" if "n \<le> U64_MAX" for n
    using that by (simp add: declared_Inr)
  obtain h where "subtle = Some h" "hex_text (h (wrapper_bytes w)) = to_lower (env_checksum env)"
    using w by (auto simp: served_def split: option.splits)
  then show "validateServerSnapshot subtle doc env = Inr (inner, cov)"
    using w ic wf_u64[of w]
    by (simp add: served_def validateServerSnapshot_def SUPPORTED_CLIENT_FORMAT_VERSION_def
        base64.dec_enc wrapper.dec_enc d sha256Hex_def)
qed

lemma envelopeResyncMismatch_None:
  "envelopeResyncMismatch frame env = None \<longleftrightarrow>
    rr_snapshotFormatVersion frame = env_formatVersion env \<and> rr_boundary frame = env_coverageSeq env
    \<and> rr_coverageOpCount frame = env_coveredOpCount env
    \<and> to_lower (rr_snapshotChecksum frame) = to_lower (env_checksum env)
    \<and> rr_snapshotId frame = env_snapshotId env"
  by (auto simp: envelopeResyncMismatch_def)

section \<open>Properties\<close>

text \<open>
  C25: the payload text of a snapshot has exactly one reading. A base64 text decodes to a wrapper
  exactly when it is the base64 text of that wrapper's bytes: no other alphabet, padding,
  trailing bits, header version or trailing byte is accepted, and none is lost.
\<close>

theorem snapshot_payload_strict:
  "bindE (decodeBase64 s) decodeSnapshotWrapper = Inr w \<longleftrightarrow>
    wrapper_wf w \<and> s = encodeBase64 (wrapper_bytes w)"
  using payload.both.dec_iff[of s w] by simp

text \<open>
  C26: \<open>validateServerSnapshot\<close> fails closed and fails only when it must. It returns an inner
  snapshot and a boundary exactly when the envelope serves a well-formed wrapper of the
  requested document whose declared size, coverage and operation count are its own and whose
  SHA-256 is the declared checksum; without Web Crypto it returns nothing.
\<close>

theorem validate_snapshot_exact:
  "validateServerSnapshot subtle doc env = Inr (inner, cov) \<longleftrightarrow>
    (\<exists>w. served subtle doc env w \<and> inner = w_inner w \<and> cov = w_coverageSeq w)"
  by (rule validate_iff)

end
