(* ===== verification/Idb.thy ===== *)
theory Idb
  imports Identities
begin

text \<open>
  The browser's durable replica, \<^verbatim>\<open>src/lib/crdt/worker/idb.ts\<close>: the snapshot store, the
  operation log with its coverage proofs, and the sync cursor. A transaction is one definition;
  where the code throws after it has queued writes and does not abort, the writes stay, so an
  operation returns the error beside the new state.
\<close>

section \<open>State\<close>

record SnapshotRecord =
  sr_documentId :: string
  sr_snapshot :: bytes
  sr_savedAt :: nat

record OpLogRecord =
  ol_key :: string
  ol_documentId :: string
  ol_seq :: nat
  ol_op :: bytes
  ol_identity :: "string option"
  ol_coveredAtCursor :: "string option"

record IdbState =
  snapshots :: "string \<rightharpoonup> SnapshotRecord"
  oplog :: "OpLogRecord list"
  syncState :: "string \<rightharpoonup> string"

record LocalState =
  ls_snapshot :: "bytes option"
  ls_ops :: "bytes list"

record SyncProof =
  sp_cursor :: string
  sp_coveredOpIds :: "string list"

datatype idb_error = InvalidCursor

definition empty_idb :: IdbState where
  "empty_idb = \<lparr>snapshots = Map.empty, oplog = [], syncState = Map.empty\<rparr>"

text \<open>\<open>encodeURIComponent\<close> on the code units below 256, whose UTF-8 form has two bytes from 128 on.\<close>

definition upper_hex2 :: "nat \<Rightarrow> string" where
  "upper_hex2 b = [''0123456789ABCDEF'' ! (b div 16), ''0123456789ABCDEF'' ! (b mod 16)]"

definition uri_unreserved :: "char \<Rightarrow> bool" where
  "uri_unreserved c \<longleftrightarrow>
     is_digit c \<or> 65 \<le> (of_char c :: nat) \<and> (of_char c :: nat) \<le> 90
     \<or> 97 \<le> (of_char c :: nat) \<and> (of_char c :: nat) \<le> 122
     \<or> c \<in> set ''-_.!~*'' \<or> c = CHR 0x27 \<or> c = CHR ''('' \<or> c = CHR '')''"

definition encode_char :: "char \<Rightarrow> string" where
  "encode_char c =
     (let n = of_char c :: nat
      in if uri_unreserved c then [c]
         else if n < 128 then CHR ''%'' # upper_hex2 n
         else CHR ''%'' # upper_hex2 (192 + n div 64) @ CHR ''%'' # upper_hex2 (128 + n mod 64))"

definition encodeURIComponent :: "string \<Rightarrow> string" where
  "encodeURIComponent s = concat (map encode_char s)"

definition replicaStorageId :: "string \<Rightarrow> string option \<Rightarrow> string" where
  "replicaStorageId documentId userId =
     (case userId of
        None \<Rightarrow> documentId
      | Some u \<Rightarrow> if u = [] then documentId else documentId @ '':user:'' @ encodeURIComponent u)"

section \<open>Helpers of the module\<close>

definition opIdentity :: "bytes \<Rightarrow> string option" where
  "opIdentity op =
     (if length op < 18 \<or> unat (op ! 0) \<noteq> 1 then None
      else
        let replica = le_val (slice 2 8 op); counter = le_val (slice 10 8 op)
        in if 0 < replica \<and> 0 < counter then Some (show_nat replica @ '':'' @ show_nat counter)
           else None)"

definition maxCursor :: "string \<Rightarrow> string \<Rightarrow> idb_error + string" where
  "maxCursor left right =
     (if \<not> canonical_dec left \<or> \<not> canonical_dec right then Inl InvalidCursor
      else Inr (if dec_val right \<le> dec_val left then left else right))"

definition get_or :: "'a \<Rightarrow> 'a option \<Rightarrow> 'a" where
  "get_or d x = (case x of None \<Rightarrow> d | Some v \<Rightarrow> v)"

text \<open>\<open>store.put\<close>: the record replaces the one with its key.\<close>

fun put :: "OpLogRecord \<Rightarrow> OpLogRecord list \<Rightarrow> OpLogRecord list" where
  "put r [] = [r]"
| "put r (x # xs) = (if ol_key x = ol_key r then r # xs else x # put r xs)"

definition rows_of :: "string \<Rightarrow> string \<Rightarrow> OpLogRecord list \<Rightarrow> OpLogRecord list" where
  "rows_of documentId identity log =
     filter (\<lambda>r. ol_documentId r = documentId \<and> ol_identity r = Some identity) log"

text \<open>The module's own extractor agrees with the one of the sync layer.\<close>

lemma opIdentity_identity:
  "opIdentity op = map_option (\<lambda>i. formatOpIdentity (id_replica i) (id_counter i)) (identityFromOpBytes op)"
proof -
  have "unat (op ! 0) \<noteq> 1 \<longleftrightarrow> op ! 0 \<noteq> 1" 
    using word_unat_eq_iff[of "op ! 0" 1] by simp
  then show ?thesis
    by (simp add: opIdentity_def identityFromOpBytes_def formatOpIdentity_def Let_def)
qed

section \<open>Operations\<close>

definition loadLocalState :: "string \<Rightarrow> IdbState \<Rightarrow> LocalState" where
  "loadLocalState documentId st =
     \<lparr>ls_snapshot = map_option sr_snapshot (snapshots st documentId),
      ls_ops = map ol_op (sort_key ol_seq (filter (\<lambda>r. ol_documentId r = documentId) (oplog st)))\<rparr>"

definition new_row :: "string \<Rightarrow> nat \<Rightarrow> bytes \<Rightarrow> OpLogRecord" where
  "new_row documentId seq op =
     \<lparr>ol_key = documentId @ '':'' @ show_nat seq, ol_documentId = documentId, ol_seq = seq,
      ol_op = op, ol_identity = opIdentity op, ol_coveredAtCursor = None\<rparr>"

definition append_one :: "string \<Rightarrow> OpLogRecord list \<Rightarrow> bytes \<Rightarrow> OpLogRecord list" where
  "append_one documentId log op = put (new_row documentId (length log) op) log"

text \<open>The loop over the rows of one covered identity; it stops where \<open>maxCursor\<close> throws.\<close>

fun cover_rows :: "string \<Rightarrow> OpLogRecord list \<Rightarrow> OpLogRecord list \<Rightarrow> OpLogRecord list \<times> idb_error option" where
  "cover_rows cursor [] log = (log, None)"
| "cover_rows cursor (r # rs) log =
     (case maxCursor (get_or ''0'' (ol_coveredAtCursor r)) cursor of
        Inl e \<Rightarrow> (log, Some e)
      | Inr c \<Rightarrow> cover_rows cursor rs (put (r\<lparr>ol_coveredAtCursor := Some c\<rparr>) log))"

fun cover_ids ::
  "string \<Rightarrow> string \<Rightarrow> string list \<Rightarrow> OpLogRecord list \<Rightarrow> OpLogRecord list \<times> idb_error option" where
  "cover_ids documentId cursor [] log = (log, None)"
| "cover_ids documentId cursor (i # is) log =
     (case cover_rows cursor (rows_of documentId i log) log of
        (log', None) \<Rightarrow> cover_ids documentId cursor is log'
      | (log', Some e) \<Rightarrow> (log', Some e))"

definition appendOps ::
  "string \<Rightarrow> bytes list \<Rightarrow> SyncProof option \<Rightarrow> IdbState \<Rightarrow> IdbState \<times> idb_error option" where
  "appendOps documentId ops sync st =
     (if ops = [] \<and> sync = None then (st, None)
      else
        let log = foldl (append_one documentId) (oplog st) ops; st' = st\<lparr>oplog := log\<rparr>
        in case sync of
             None \<Rightarrow> (st', None)
           | Some p \<Rightarrow>
               (case maxCursor (get_or ''0'' (syncState st documentId)) (sp_cursor p) of
                  Inl e \<Rightarrow> (st', Some e)
                | Inr cursor \<Rightarrow>
                    (case cover_ids documentId (sp_cursor p) (remdups (sp_coveredOpIds p)) log of
                       (log', err) \<Rightarrow>
                         (st'\<lparr>oplog := log', syncState := (syncState st)(documentId \<mapsto> cursor)\<rparr>, err))))"

definition loadSyncCursor :: "string \<Rightarrow> IdbState \<Rightarrow> string" where
  "loadSyncCursor documentId st = get_or ''0'' (syncState st documentId)"

definition saveSyncCursor :: "string \<Rightarrow> string \<Rightarrow> IdbState \<Rightarrow> IdbState \<times> idb_error option" where
  "saveSyncCursor documentId cursor st =
     (case maxCursor (get_or ''0'' (syncState st documentId)) cursor of
        Inl e \<Rightarrow> (st, Some e)
      | Inr c \<Rightarrow> (st\<lparr>syncState := (syncState st)(documentId \<mapsto> c)\<rparr>, None))"

definition row_covered :: "string \<Rightarrow> OpLogRecord \<Rightarrow> idb_error + bool" where
  "row_covered cursor r =
     (case ol_coveredAtCursor r of
        None \<Rightarrow> Inr False
      | Some c \<Rightarrow> bindE (maxCursor cursor c) (\<lambda>m. Inr (m = cursor)))"

text \<open>\<open>rows.some(...)\<close>, which stops at the first hit and passes a throw on.\<close>

fun some_covered :: "string \<Rightarrow> OpLogRecord list \<Rightarrow> idb_error + bool" where
  "some_covered cursor [] = Inr False"
| "some_covered cursor (r # rs) =
     bindE (row_covered cursor r) (\<lambda>b. if b then Inr True else some_covered cursor rs)"

fun covered_of :: "string \<Rightarrow> string \<Rightarrow> OpLogRecord list \<Rightarrow> string list \<Rightarrow> idb_error + string list" where
  "covered_of documentId cursor log [] = Inr []"
| "covered_of documentId cursor log (i # is) =
     bindE (some_covered cursor (rows_of documentId i log)) (\<lambda>b.
     bindE (covered_of documentId cursor log is) (\<lambda>r. Inr (if b then i # r else r)))"

definition readCoveredOpIds :: "string \<Rightarrow> string list \<Rightarrow> IdbState \<Rightarrow> idb_error + string list" where
  "readCoveredOpIds documentId identities st =
     covered_of documentId (get_or ''0'' (syncState st documentId)) (oplog st) identities"

definition uncover_row :: "OpLogRecord list \<Rightarrow> OpLogRecord \<Rightarrow> OpLogRecord list" where
  "uncover_row log r =
     (if ol_coveredAtCursor r = None then log else put (r\<lparr>ol_coveredAtCursor := None\<rparr>) log)"

definition clearCoveredOpIds :: "string \<Rightarrow> string list \<Rightarrow> IdbState \<Rightarrow> IdbState" where
  "clearCoveredOpIds documentId identities st =
     st\<lparr>oplog := foldl (\<lambda>log i. foldl uncover_row log (rows_of documentId i log)) (oplog st)
       (remdups identities)\<rparr>"

definition hasReplicaData :: "string \<Rightarrow> IdbState \<Rightarrow> bool" where
  "hasReplicaData documentId st \<longleftrightarrow>
     snapshots st documentId \<noteq> None \<or> 0 < length (filter (\<lambda>r. ol_documentId r = documentId) (oplog st))"

definition saveSnapshot :: "string \<Rightarrow> bytes \<Rightarrow> nat \<Rightarrow> IdbState \<Rightarrow> IdbState" where
  "saveSnapshot documentId snapshot now st =
     st\<lparr>snapshots := (snapshots st)(documentId \<mapsto>
       \<lparr>sr_documentId = documentId, sr_snapshot = snapshot, sr_savedAt = now\<rparr>)\<rparr>"

definition clearDocument :: "string \<Rightarrow> IdbState \<Rightarrow> IdbState" where
  "clearDocument documentId st =
     st\<lparr>snapshots := (snapshots st)(documentId := None),
        syncState := (syncState st)(documentId := None),
        oplog := filter (\<lambda>r. ol_documentId r \<noteq> documentId) (oplog st)\<rparr>"

section \<open>The log invariant\<close>

text \<open>
  Every row sits under the key of its document and sequence number, keys are distinct, rows name
  their identity, proofs are canonical decimals. \<open>dense\<close> says that no row has a sequence
  number the next append could reuse; appending keeps it, clearing another document breaks it.
\<close>

definition row_ok :: "OpLogRecord \<Rightarrow> bool" where
  "row_ok r \<longleftrightarrow>
     ol_key r = ol_documentId r @ '':'' @ show_nat (ol_seq r) \<and> ol_identity r = opIdentity (ol_op r)
     \<and> (case ol_coveredAtCursor r of None \<Rightarrow> True | Some c \<Rightarrow> canonical_dec c)"

definition log_ok :: "OpLogRecord list \<Rightarrow> bool" where
  "log_ok log \<longleftrightarrow> distinct (map ol_key log) \<and> list_all row_ok log"

definition dense :: "OpLogRecord list \<Rightarrow> bool" where
  "dense log \<longleftrightarrow> list_all (\<lambda>r. ol_seq r < length log) log"

definition idb_ok :: "IdbState \<Rightarrow> bool" where
  "idb_ok st \<longleftrightarrow> log_ok (oplog st) \<and> dense (oplog st)
     \<and> (\<forall>d c. syncState st d = Some c \<longrightarrow> canonical_dec c)"

lemma key_inject:
  assumes "d @ '':'' @ show_nat n = d' @ '':'' @ show_nat m"
  shows "d = d' \<and> n = m"
proof -
  have split: "dropWhile (\<lambda>c. c \<noteq> CHR '':'') (rev (e @ '':'' @ show_nat k)) = CHR '':'' # rev e" for e k
    by (simp add: dropWhile_append)
  have "CHR '':'' # rev d = CHR '':'' # rev d'"
    using split[of d n] split[of d' m] assms by metis
  then have "d = d'" by simp
  with assms show ?thesis by simp
qed

lemma maxCursor_Inr:
  "maxCursor a b = Inr m \<longleftrightarrow> canonical_dec a \<and> canonical_dec b \<and> m = (if dec_val b \<le> dec_val a then a else b)"
  by (auto simp: maxCursor_def)

lemma maxCursor_val: "maxCursor a b = Inr m \<Longrightarrow> canonical_dec m \<and> dec_val m = max (dec_val a) (dec_val b)"
  by (auto simp: maxCursor_Inr)

lemma put_fresh: "ol_key r \<notin> ol_key ` set log \<Longrightarrow> put r log = log @ [r]"
  by (induction log) auto

lemma keys_put: "ol_key ` set (put r log) = insert (ol_key r) (ol_key ` set log)"
  by (induction log) auto

lemma map_key_put: "ol_key r \<in> ol_key ` set log \<Longrightarrow> map ol_key (put r log) = map ol_key log"
  by (induction log) auto

lemma put_in_log:
  assumes "distinct (map ol_key log)" and "x \<in> set log" and "ol_key r = ol_key x"
  shows "put r log = map (\<lambda>y. if ol_key y = ol_key r then r else y) log"
  using assms
proof (induction log)
  case (Cons y ys)
  show ?case
  proof (cases "ol_key y = ol_key r")
    case True
    then have "ol_key r \<notin> ol_key ` set ys" using Cons.prems(1) by auto
    then have "map (\<lambda>y. if ol_key y = ol_key r then r else y) ys = ys"
      by (intro map_idI) (auto simp: image_def)
    with True show ?thesis by simp
  next
    case False
    with Cons show ?thesis by auto
  qed
qed simp

lemma new_row_simps [simp]:
  "ol_seq (new_row d n op) = n" "ol_documentId (new_row d n op) = d" "ol_op (new_row d n op) = op"
  "ol_coveredAtCursor (new_row d n op) = None" "ol_identity (new_row d n op) = opIdentity op"
  "row_ok (new_row d n op)"
  by (simp_all add: new_row_def row_ok_def)

lemma append_one_fresh:
  assumes "log_ok log" and "dense log"
  shows "append_one d log op = log @ [new_row d (length log) op]"
    and "log_ok (log @ [new_row d (length log) op])" and "dense (log @ [new_row d (length log) op])"
proof -
  let ?r = "new_row d (length log) op"
  have fresh: "ol_key ?r \<notin> ol_key ` set log"
  proof
    assume "ol_key ?r \<in> ol_key ` set log"
    then obtain x where x: "x \<in> set log" "ol_key x = ol_key ?r" by auto
    then have "ol_seq x = length log"
      using assms(1) key_inject[of "ol_documentId x" "ol_seq x" d "length log"]
      by (auto simp: log_ok_def row_ok_def list_all_iff new_row_def)
    with x assms(2) show False by (auto simp: dense_def list_all_iff)
  qed
  then show "append_one d log op = log @ [?r]" by (simp add: append_one_def put_fresh)
  show "log_ok (log @ [?r])" using fresh assms(1) by (auto simp: log_ok_def)
  show "dense (log @ [?r])" using assms(2) by (auto simp: dense_def list_all_iff less_Suc_eq)
qed

lemma append_all:
  assumes "log_ok log" and "dense log"
  shows "\<exists>rs. foldl (append_one d) log ops = log @ rs \<and> map ol_op rs = ops
    \<and> map ol_seq rs = [length log..<length log + length ops]
    \<and> list_all (\<lambda>r. ol_documentId r = d \<and> ol_coveredAtCursor r = None) rs
    \<and> log_ok (log @ rs) \<and> dense (log @ rs)"
  using assms
proof (induction ops arbitrary: log)
  case Nil
  then show ?case by simp
next
  case (Cons op ops)
  let ?r = "new_row d (length log) op"
  note one = append_one_fresh[OF Cons.prems, of d op]
  obtain rs where "foldl (append_one d) (log @ [?r]) ops = (log @ [?r]) @ rs" "map ol_op rs = ops"
    "map ol_seq rs = [length (log @ [?r])..<length (log @ [?r]) + length ops]"
    "list_all (\<lambda>r. ol_documentId r = d \<and> ol_coveredAtCursor r = None) rs"
    "log_ok ((log @ [?r]) @ rs)" "dense ((log @ [?r]) @ rs)"
    using Cons.IH[OF one(2,3)] by blast
  then show ?case
    by (intro exI[of _ "?r # rs"]) (auto simp: one(1) upt_rec)
qed

section \<open>Coverage\<close>

definition later :: "string \<Rightarrow> string \<Rightarrow> string" where
  "later a b = (if dec_val b \<le> dec_val a then a else b)"

definition cover :: "string \<Rightarrow> OpLogRecord \<Rightarrow> OpLogRecord" where
  "cover cursor r = r\<lparr>ol_coveredAtCursor := Some (later (get_or ''0'' (ol_coveredAtCursor r)) cursor)\<rparr>"

lemma cover_simps [simp]:
  "ol_key (cover c r) = ol_key r" "ol_documentId (cover c r) = ol_documentId r"
  "ol_seq (cover c r) = ol_seq r" "ol_op (cover c r) = ol_op r" "ol_identity (cover c r) = ol_identity r"
  by (simp_all add: cover_def)

lemma canonical_zero [simp]: "canonical_dec ''0''"
  by (simp add: canonical_dec_def)

lemma maxCursor_later:
  "canonical_dec a \<Longrightarrow> canonical_dec b \<Longrightarrow> maxCursor a b = Inr (later a b)"
  by (simp add: maxCursor_def later_def)

lemma canonical_get_or: "row_ok r \<Longrightarrow> canonical_dec (get_or ''0'' (ol_coveredAtCursor r))"
  by (auto simp: row_ok_def get_or_def split: option.splits)

lemma row_ok_cover: "row_ok r \<Longrightarrow> canonical_dec c \<Longrightarrow> row_ok (cover c r)"
  using canonical_get_or[of r] by (simp add: row_ok_def cover_def later_def)

definition cover_where :: "(OpLogRecord \<Rightarrow> bool) \<Rightarrow> string \<Rightarrow> OpLogRecord list \<Rightarrow> OpLogRecord list" where
  "cover_where P c log = map (\<lambda>r. if P r then cover c r else r) log"

lemma cover_where_fields [simp]:
  "map ol_key (cover_where P c log) = map ol_key log"
  "map ol_op (cover_where P c log) = map ol_op log"
  "length (cover_where P c log) = length log"
  "map ol_seq (cover_where P c log) = map ol_seq log"
  by (simp_all add: cover_where_def)

lemma log_ok_cover_where: "log_ok log \<Longrightarrow> canonical_dec c \<Longrightarrow> log_ok (cover_where P c log)"
  using row_ok_cover by (auto simp: log_ok_def list_all_iff cover_where_def simp flip: map_map)
    (auto simp: o_def if_distrib cong: if_cong)

lemma dense_cover_where: "dense log \<Longrightarrow> dense (cover_where P c log)"
  by (auto simp: dense_def list_all_iff cover_where_def)

lemma same_key_same_row:
  "distinct (map ol_key log) \<Longrightarrow> x \<in> set log \<Longrightarrow> y \<in> set log \<Longrightarrow> ol_key x = ol_key y \<Longrightarrow> x = y"
  by (meson distinct_map inj_onD)

lemma cover_rows_eq:
  assumes "log_ok log" and "canonical_dec c" and "distinct (map ol_key rs)" and "set rs \<subseteq> set log"
  shows "cover_rows c rs log = (cover_where (\<lambda>y. ol_key y \<in> ol_key ` set rs) c log, None)"
  using assms
proof (induction rs arbitrary: log)
  case Nil
  then show ?case by (simp add: cover_where_def)
next
  case (Cons r rs)
  have r: "r \<in> set log" "row_ok r" and d: "distinct (map ol_key log)"
    using Cons.prems by (auto simp: log_ok_def list_all_iff)
  let ?log1 = "cover_where (\<lambda>y. ol_key y = ol_key r) c log"
  have "put (cover c r) log = ?log1"
    using put_in_log[OF d r(1), of "cover c r"] same_key_same_row[OF d _ r(1)]
    by (auto simp: cover_where_def)
  moreover have "maxCursor (get_or ''0'' (ol_coveredAtCursor r)) c
      = Inr (later (get_or ''0'' (ol_coveredAtCursor r)) c)"
    using canonical_get_or[OF r(2)] Cons.prems(2) by (rule maxCursor_later)
  ultimately have step: "cover_rows c (r # rs) log = cover_rows c rs ?log1"
    by (simp add: cover_def)
  have "set rs \<subseteq> set ?log1"
  proof
    fix x assume x: "x \<in> set rs"
    moreover have "ol_key r \<notin> ol_key ` set rs" using Cons.prems(3) by simp
    ultimately have "ol_key x \<noteq> ol_key r" by (metis imageI)
    then show "x \<in> set ?log1" using x Cons.prems(4) by (auto simp: cover_where_def intro: rev_image_eqI)
  qed
  then have "cover_rows c rs ?log1 = (cover_where (\<lambda>y. ol_key y \<in> ol_key ` set rs) c ?log1, None)"
    using Cons.IH[of ?log1] Cons.prems log_ok_cover_where by simp
  moreover have "cover_where (\<lambda>y. ol_key y \<in> ol_key ` set rs) c ?log1
      = cover_where (\<lambda>y. ol_key y \<in> ol_key ` set (r # rs)) c log"
    using Cons.prems(3) by (auto simp: cover_where_def)
  ultimately show ?case using step by simp
qed

lemma row_of_iff:
  "log_ok log \<Longrightarrow> y \<in> set log
    \<Longrightarrow> ol_key y \<in> ol_key ` set (rows_of d i log) \<longleftrightarrow> ol_documentId y = d \<and> ol_identity y = Some i"
  using same_key_same_row by (fastforce simp: log_ok_def rows_of_def)

lemma cover_where_cong:
  "(\<And>y. y \<in> set log \<Longrightarrow> P y = Q y) \<Longrightarrow> cover_where P c log = cover_where Q c log"
  by (simp add: cover_where_def)

lemma cover_ids_eq:
  assumes "log_ok log" and "canonical_dec c" and "distinct is"
  shows "cover_ids d c is log
    = (cover_where (\<lambda>y. ol_documentId y = d \<and> ol_identity y \<in> Some ` set is) c log, None)"
  using assms
proof (induction "is" arbitrary: log)
  case Nil
  then show ?case by (simp add: cover_where_def)
next
  case (Cons i "is")
  let ?log1 = "cover_where (\<lambda>y. ol_documentId y = d \<and> ol_identity y = Some i) c log"
  have "cover_rows c (rows_of d i log) log
      = (cover_where (\<lambda>y. ol_key y \<in> ol_key ` set (rows_of d i log)) c log, None)"
    using Cons.prems
    by (intro cover_rows_eq) (auto simp: rows_of_def log_ok_def distinct_map_filter)
  moreover have "cover_where (\<lambda>y. ol_key y \<in> ol_key ` set (rows_of d i log)) c log = ?log1"
    using row_of_iff[OF Cons.prems(1)] by (intro cover_where_cong) simp
  ultimately have "cover_ids d c (i # is) log = cover_ids d c is ?log1"
    by simp
  also have "\<dots> = (cover_where (\<lambda>y. ol_documentId y = d \<and> ol_identity y \<in> Some ` set is) c ?log1, None)"
    using Cons by (intro Cons.IH) (auto intro: log_ok_cover_where)
  also have "cover_where (\<lambda>y. ol_documentId y = d \<and> ol_identity y \<in> Some ` set is) c ?log1
      = cover_where (\<lambda>y. ol_documentId y = d \<and> ol_identity y \<in> Some ` set (i # is)) c log"
    using Cons.prems(3) by (auto simp: cover_where_def)
  finally show ?case .
qed

section \<open>Appending\<close>

lemma insort_key_append:
  "\<forall>y \<in> set ys. f x \<le> f y \<Longrightarrow> insort_key f x (zs @ ys) = insort_key f x zs @ ys"
  by (induction zs) (cases ys, auto)

lemma sort_key_append:
  assumes "sorted (map f ys)" and "\<forall>x \<in> set xs. \<forall>y \<in> set ys. f x \<le> f y"
  shows "sort_key f (xs @ ys) = sort_key f xs @ ys"
proof -
  have "foldr (insort_key f) xs ys = foldr (insort_key f) xs [] @ ys"
    using assms(2) insort_key_append[of ys f _ "foldr (insort_key f) _ []"]
    by (induction xs) auto
  then show ?thesis
    by (simp add: sort_key_def sort_key_id_if_sorted[OF assms(1), unfolded sort_key_def])
qed

lemma map_op_sort_map:
  assumes f: "\<And>r. ol_seq (f r) = ol_seq r \<and> ol_documentId (f r) = ol_documentId r \<and> ol_op (f r) = ol_op r"
  shows "map ol_op (sort_key ol_seq (filter (\<lambda>r. ol_documentId r = d) (map f log)))
    = map ol_op (sort_key ol_seq (filter (\<lambda>r. ol_documentId r = d) log))"
proof -
  have ins: "insort_key ol_seq (f x) (map f xs) = map f (insort_key ol_seq x xs)" for x xs
    by (induction xs) (simp_all add: f)
  have sort: "sort_key ol_seq (map f xs) = map f (sort_key ol_seq xs)" for xs
    by (induction xs) (simp_all add: ins)
  have "filter (\<lambda>r. ol_documentId r = d) (map f log) = map f (filter (\<lambda>r. ol_documentId r = d) log)"
    by (simp add: filter_map o_def f)
  then show ?thesis by (simp add: sort o_def f)
qed

definition ops_of :: "string \<Rightarrow> OpLogRecord list \<Rightarrow> bytes list" where
  "ops_of d log = map ol_op (sort_key ol_seq (filter (\<lambda>r. ol_documentId r = d) log))"

lemma ls_ops_eq: "ls_ops (loadLocalState d st) = ops_of d (oplog st)"
  by (simp add: loadLocalState_def ops_of_def)

lemma ops_of_cover [simp]: "ops_of d (cover_where P c log) = ops_of d log"
  unfolding ops_of_def cover_where_def by (rule map_op_sort_map) (simp add: cover_def)

lemma ops_of_append:
  assumes "dense log" and "map ol_seq rs = [length log..<length log + n]"
    and "list_all (\<lambda>r. ol_documentId r = d) rs"
  shows "ops_of e (log @ rs) = (if e = d then ops_of e log @ map ol_op rs else ops_of e log)"
proof (cases "e = d")
  case True
  have f: "filter (\<lambda>r. ol_documentId r = d) rs = rs"
    using assms(3) by (auto simp: list_all_iff intro: filter_True)
  have "\<forall>y \<in> set rs. length log \<le> ol_seq y"
  proof
    fix y assume "y \<in> set rs"
    then have "ol_seq y \<in> set (map ol_seq rs)" by simp
    then show "length log \<le> ol_seq y" unfolding assms(2) by simp
  qed
  then have "\<forall>x \<in> set (filter (\<lambda>r. ol_documentId r = d) log). \<forall>y \<in> set rs. ol_seq x \<le> ol_seq y"
    using assms(1) by (auto simp: dense_def list_all_iff) (meson le_trans less_imp_le)
  then show ?thesis
    using True by (simp add: ops_of_def f sort_key_append assms(2))
next
  case False
  then have "filter (\<lambda>r. ol_documentId r = e) rs = []"
    using assms(3) by (auto simp: list_all_iff filter_empty_conv)
  with False show ?thesis by (simp add: ops_of_def)
qed

lemma appendOps_spec:
  assumes "idb_ok st" and "case sync of None \<Rightarrow> True | Some p \<Rightarrow> canonical_dec (sp_cursor p)"
  obtains st' rs where "appendOps d ops sync st = (st', None)" "idb_ok st'"
    "\<And>e. ops_of e (oplog st') = (if e = d then ops_of e (oplog st) @ ops else ops_of e (oplog st))"
    "snapshots st' = snapshots st"
    "syncState st' = (case sync of None \<Rightarrow> syncState st
      | Some p \<Rightarrow> (syncState st)(d \<mapsto> later (loadSyncCursor d st) (sp_cursor p)))"
    "oplog st' = (case sync of None \<Rightarrow> oplog st @ rs
      | Some p \<Rightarrow> cover_where (\<lambda>y. ol_documentId y = d \<and> ol_identity y \<in> Some ` set (sp_coveredOpIds p))
          (sp_cursor p) (oplog st @ rs))"
    "map ol_op rs = ops" "list_all (\<lambda>r. ol_documentId r = d \<and> ol_coveredAtCursor r = None) rs"
proof (cases "ops = [] \<and> sync = None")
  case True
  then show thesis using assms(1) by (intro that[of st "[]"]) (auto simp: appendOps_def)
next
  case False
  have ok: "log_ok (oplog st)" "dense (oplog st)" using assms(1) by (auto simp: idb_ok_def)
  obtain rs where rs: "foldl (append_one d) (oplog st) ops = oplog st @ rs" "map ol_op rs = ops"
    "map ol_seq rs = [length (oplog st)..<length (oplog st) + length ops]"
    "list_all (\<lambda>r. ol_documentId r = d \<and> ol_coveredAtCursor r = None) rs"
    "log_ok (oplog st @ rs)" "dense (oplog st @ rs)"
    using append_all[OF ok] by blast
  have docs: "list_all (\<lambda>r. ol_documentId r = d) rs" using rs(4) by (auto simp: list_all_iff)
  note ops = ops_of_append[OF ok(2) rs(3) docs]
  show thesis
  proof (cases sync)
    case None
    with False rs ops assms(1) show thesis
      by (intro that[of "st\<lparr>oplog := oplog st @ rs\<rparr>" rs]) (auto simp: appendOps_def idb_ok_def)
  next
    case (Some p)
    have c: "canonical_dec (sp_cursor p)" using assms(2) Some by simp
    have cur: "canonical_dec (get_or ''0'' (syncState st d))"
      using assms(1) by (auto simp: idb_ok_def get_or_def split: option.splits)
    let ?log = "cover_where (\<lambda>y. ol_documentId y = d
      \<and> ol_identity y \<in> Some ` set (sp_coveredOpIds p)) (sp_cursor p) (oplog st @ rs)"
    have ci: "cover_ids d (sp_cursor p) (remdups (sp_coveredOpIds p)) (oplog st @ rs) = (?log, None)"
      using cover_ids_eq[OF rs(5) c] by simp
    have ok': "log_ok ?log" "dense ?log"
      using log_ok_cover_where[OF rs(5) c] dense_cover_where[OF rs(6)] by auto
    have "canonical_dec (later (loadSyncCursor d st) (sp_cursor p))"
      using c cur by (simp add: later_def loadSyncCursor_def)
    with Some ci ok' rs ops assms(1) show thesis
      by (intro that[of "st\<lparr>oplog := ?log,
            syncState := (syncState st)(d \<mapsto> later (loadSyncCursor d st) (sp_cursor p))\<rparr>" rs])
        (auto simp: appendOps_def maxCursor_later[OF cur c] idb_ok_def loadSyncCursor_def)
  qed
qed

text \<open>A malformed cursor makes the append throw after the rows are queued; they are kept.\<close>

lemma appendOps_bad_cursor:
  assumes "idb_ok st" and "\<not> canonical_dec (sp_cursor p)"
  shows "snd (appendOps d ops (Some p) st) = Some InvalidCursor"
    and "idb_ok (fst (appendOps d ops (Some p) st))"
proof -
  have ok: "log_ok (oplog st)" "dense (oplog st)" using assms(1) by (auto simp: idb_ok_def)
  have eq: "appendOps d ops (Some p) st
      = (st\<lparr>oplog := foldl (append_one d) (oplog st) ops\<rparr>, Some InvalidCursor)"
    unfolding appendOps_def Let_def maxCursor_def using assms(2) by simp
  show "snd (appendOps d ops (Some p) st) = Some InvalidCursor" unfolding eq by simp
  obtain rs where rs: "foldl (append_one d) (oplog st) ops = oplog st @ rs"
    "log_ok (oplog st @ rs)" "dense (oplog st @ rs)"
    using append_all[OF ok, of d ops] by blast
  show "idb_ok (fst (appendOps d ops (Some p) st))"
    unfolding eq rs(1) using assms(1) rs(2,3) by (simp add: idb_ok_def)
qed

lemma appendOps_ok: "idb_ok st \<Longrightarrow> idb_ok (fst (appendOps d ops sync st))"
proof (cases sync)
  case None
  assume i: "idb_ok st"
  show ?thesis
    by (rule appendOps_spec[OF i, of sync d ops]) (simp_all add: None)
next
  case (Some p)
  assume i: "idb_ok st"
  show ?thesis
  proof (cases "canonical_dec (sp_cursor p)")
    case True
    show ?thesis
      by (rule appendOps_spec[OF i, of sync d ops]) (simp_all add: Some True)
  next
    case False
    then show ?thesis using appendOps_bad_cursor(2)[OF i] Some by simp
  qed
qed

section \<open>What coverage means\<close>

text \<open>
  A proof on a row never runs ahead of the durable cursor of its document, so reading coverage
  is reading which rows carry a proof.
\<close>

definition proofs_ok :: "IdbState \<Rightarrow> bool" where
  "proofs_ok st \<longleftrightarrow>
     (\<forall>r \<in> set (oplog st). \<forall>c. ol_coveredAtCursor r = Some c
        \<longrightarrow> dec_val c \<le> dec_val (loadSyncCursor (ol_documentId r) st))"

definition covered :: "string \<Rightarrow> IdbState \<Rightarrow> string \<Rightarrow> bool" where
  "covered d st i \<longleftrightarrow>
     list_ex (\<lambda>r. ol_documentId r = d \<and> ol_identity r = Some i \<and> ol_coveredAtCursor r \<noteq> None) (oplog st)"

definition logged :: "string \<Rightarrow> IdbState \<Rightarrow> string \<Rightarrow> bool" where
  "logged d st i \<longleftrightarrow> list_ex (\<lambda>r. ol_documentId r = d \<and> ol_identity r = Some i) (oplog st)"

lemma canonical_cursor: "idb_ok st \<Longrightarrow> canonical_dec (loadSyncCursor d st)"
  by (auto simp: idb_ok_def loadSyncCursor_def get_or_def split: option.splits)

lemma row_covered_eq:
  assumes "row_ok r" and "canonical_dec c"
    and "\<And>k. ol_coveredAtCursor r = Some k \<Longrightarrow> dec_val k \<le> dec_val c"
  shows "row_covered c r = Inr (ol_coveredAtCursor r \<noteq> None)"
  using assms by (auto simp: row_covered_def row_ok_def maxCursor_def split: option.splits)

lemma some_covered_eq:
  assumes "list_all row_ok rs" and "canonical_dec c"
    and "\<And>r k. r \<in> set rs \<Longrightarrow> ol_coveredAtCursor r = Some k \<Longrightarrow> dec_val k \<le> dec_val c"
  shows "some_covered c rs = Inr (list_ex (\<lambda>r. ol_coveredAtCursor r \<noteq> None) rs)"
  using assms
proof (induction rs)
  case (Cons r rs)
  then have "row_covered c r = Inr (ol_coveredAtCursor r \<noteq> None)"
    by (intro row_covered_eq) auto
  moreover have "some_covered c rs = Inr (list_ex (\<lambda>r. ol_coveredAtCursor r \<noteq> None) rs)"
    by (rule Cons.IH) (use Cons.prems in auto)
  ultimately show ?case by simp
qed simp

lemma readCoveredOpIds_eq:
  assumes "idb_ok st" and "proofs_ok st"
  shows "readCoveredOpIds d ids st = Inr (filter (covered d st) ids)"
proof -
  let ?c = "get_or ''0'' (syncState st d)"
  have c: "canonical_dec ?c" using canonical_cursor[OF assms(1), of d] by (simp add: loadSyncCursor_def)
  have "some_covered ?c (rows_of d i (oplog st)) = Inr (covered d st i)" for i
  proof -
    have "some_covered ?c (rows_of d i (oplog st))
        = Inr (list_ex (\<lambda>r. ol_coveredAtCursor r \<noteq> None) (rows_of d i (oplog st)))"
      using assms c
      by (intro some_covered_eq)
        (auto simp: rows_of_def idb_ok_def log_ok_def list_all_iff proofs_ok_def loadSyncCursor_def)
    also have "list_ex (\<lambda>r. ol_coveredAtCursor r \<noteq> None) (rows_of d i (oplog st)) = covered d st i"
      by (auto simp: rows_of_def covered_def list_ex_iff)
    finally show ?thesis .
  qed
  then have "covered_of d ?c (oplog st) ids = Inr (filter (covered d st) ids)"
    by (induction ids) auto
  then show ?thesis by (simp add: readCoveredOpIds_def)
qed

lemma later_val: "dec_val (later a b) = max (dec_val a) (dec_val b)"
  by (simp add: later_def)

lemma list_ex_cover_where:
  "list_ex (\<lambda>r. ol_documentId r = d \<and> ol_identity r = x) (cover_where P c log)
    = list_ex (\<lambda>r. ol_documentId r = d \<and> ol_identity r = x) log"
  "list_ex (\<lambda>r. ol_documentId r = d \<and> ol_identity r = x \<and> ol_coveredAtCursor r \<noteq> None) (cover_where P c log)
    = list_ex (\<lambda>r. ol_documentId r = d \<and> ol_identity r = x \<and> (P r \<or> ol_coveredAtCursor r \<noteq> None)) log"
proof -
  have *: "(ol_coveredAtCursor (if P r then cover c r else r) \<noteq> None) = (P r \<or> ol_coveredAtCursor r \<noteq> None)"
    and "ol_documentId (if P r then cover c r else r) = ol_documentId r"
    and "ol_identity (if P r then cover c r else r) = ol_identity r" for r
    by (simp_all add: cover_def)
  then show "list_ex (\<lambda>r. ol_documentId r = d \<and> ol_identity r = x) (cover_where P c log)
    = list_ex (\<lambda>r. ol_documentId r = d \<and> ol_identity r = x) log"
    "list_ex (\<lambda>r. ol_documentId r = d \<and> ol_identity r = x \<and> ol_coveredAtCursor r \<noteq> None) (cover_where P c log)
    = list_ex (\<lambda>r. ol_documentId r = d \<and> ol_identity r = x \<and> (P r \<or> ol_coveredAtCursor r \<noteq> None)) log"
    unfolding cover_where_def list_ex_iff set_map bex_simps by metis+
qed

lemma appendOps_proofs:
  assumes "idb_ok st" and "proofs_ok st"
    and "case sync of None \<Rightarrow> True | Some p \<Rightarrow> canonical_dec (sp_cursor p)"
    and "appendOps d ops sync st = (st', e)"
  shows "proofs_ok st'"
    and "covered d st' i \<longleftrightarrow> covered d st i
      \<or> (\<exists>p. sync = Some p \<and> i \<in> set (sp_coveredOpIds p) \<and> logged d st' i)"
proof -
  obtain rs where log: "oplog st' = (case sync of None \<Rightarrow> oplog st @ rs
      | Some p \<Rightarrow> cover_where (\<lambda>y. ol_documentId y = d \<and> ol_identity y \<in> Some ` set (sp_coveredOpIds p))
          (sp_cursor p) (oplog st @ rs))"
    and rs: "list_all (\<lambda>r. ol_documentId r = d \<and> ol_coveredAtCursor r = None) rs"
    and cur: "syncState st' = (case sync of None \<Rightarrow> syncState st
      | Some p \<Rightarrow> (syncState st)(d \<mapsto> later (loadSyncCursor d st) (sp_cursor p)))"
  proof (rule appendOps_spec[OF assms(1,3), of d ops])
    fix s rs
    assume "appendOps d ops sync st = (s, None)"
    then have "s = st'" using assms(4) by simp
    moreover assume "oplog s = (case sync of None \<Rightarrow> oplog st @ rs
      | Some p \<Rightarrow> cover_where (\<lambda>y. ol_documentId y = d \<and> ol_identity y \<in> Some ` set (sp_coveredOpIds p))
          (sp_cursor p) (oplog st @ rs))"
      "list_all (\<lambda>r. ol_documentId r = d \<and> ol_coveredAtCursor r = None) rs"
      "syncState s = (case sync of None \<Rightarrow> syncState st
      | Some p \<Rightarrow> (syncState st)(d \<mapsto> later (loadSyncCursor d st) (sp_cursor p)))"
    ultimately show thesis using that by simp
  qed
  show "proofs_ok st'"
  proof (cases sync)
    case None
    then show ?thesis
      using assms(2) rs log cur by (auto simp: proofs_ok_def loadSyncCursor_def list_all_iff)
  next
    case (Some p)
    have "dec_val k \<le> dec_val (loadSyncCursor (ol_documentId r) st')"
      if "r \<in> set (oplog st @ rs)" and "ol_coveredAtCursor r = Some k" for r k
      using that assms(2) rs cur Some
      by (auto simp: proofs_ok_def loadSyncCursor_def list_all_iff get_or_def later_val split: if_splits
          dest!: bspec)
    moreover have "dec_val (sp_cursor p) \<le> dec_val (loadSyncCursor d st')"
      using cur Some by (simp add: loadSyncCursor_def get_or_def later_val)
    moreover have "dec_val (get_or ''0'' x) \<le> n" if "\<And>k. x = Some k \<Longrightarrow> dec_val k \<le> n" for x n
      using that by (auto simp: get_or_def digit_val_def split: option.splits)
    ultimately show ?thesis
      using log Some by (auto simp: proofs_ok_def cover_where_def cover_def later_val)
  qed
  show "covered d st' i \<longleftrightarrow> covered d st i
      \<or> (\<exists>p. sync = Some p \<and> i \<in> set (sp_coveredOpIds p) \<and> logged d st' i)"
  proof (cases sync)
    case None
    then show ?thesis using log rs by (auto simp: covered_def list_ex_iff list_all_iff)
  next
    case (Some p)
    let ?is = "set (sp_coveredOpIds p)"
    have *: "covered d st' i \<longleftrightarrow> list_ex (\<lambda>r. ol_documentId r = d \<and> ol_identity r = Some i
        \<and> ((ol_documentId r = d \<and> ol_identity r \<in> Some ` ?is) \<or> ol_coveredAtCursor r \<noteq> None)) (oplog st @ rs)"
      using log Some by (simp only: covered_def option.case list_ex_cover_where)
    have "covered d st' i \<longleftrightarrow> (\<exists>r \<in> set (oplog st @ rs). ol_documentId r = d \<and> ol_identity r = Some i
        \<and> (i \<in> ?is \<or> ol_coveredAtCursor r \<noteq> None))"
    proof -
      have eq: "(ol_documentId r = d \<and> ol_identity r = Some i
          \<and> ((ol_documentId r = d \<and> ol_identity r \<in> Some ` ?is) \<or> ol_coveredAtCursor r \<noteq> None))
        \<longleftrightarrow> (ol_documentId r = d \<and> ol_identity r = Some i \<and> (i \<in> ?is \<or> ol_coveredAtCursor r \<noteq> None))"
        for r by (cases "ol_identity r = Some i") auto
      show ?thesis using * unfolding list_ex_iff eq .
    qed
    moreover have "logged d st' i \<longleftrightarrow> (\<exists>r \<in> set (oplog st @ rs). ol_documentId r = d \<and> ol_identity r = Some i)"
    proof -
      have "logged d st' i \<longleftrightarrow> list_ex (\<lambda>r. ol_documentId r = d \<and> ol_identity r = Some i) (oplog st @ rs)"
        using log Some by (simp only: logged_def option.case list_ex_cover_where)
      then show ?thesis unfolding list_ex_iff .
    qed
    moreover have "covered d st i \<longleftrightarrow> (\<exists>r \<in> set (oplog st @ rs). ol_documentId r = d \<and> ol_identity r = Some i
        \<and> ol_coveredAtCursor r \<noteq> None)"
    proof -
      have "\<not> (\<exists>r \<in> set rs. ol_documentId r = d \<and> ol_identity r = Some i \<and> ol_coveredAtCursor r \<noteq> None)"
        using rs by (auto simp: list_all_iff)
      then show ?thesis unfolding covered_def list_ex_iff set_append bex_Un by (simp only: simp_thms)
    qed
    ultimately have "covered d st' i \<longleftrightarrow> covered d st i \<or> (i \<in> ?is \<and> logged d st' i)" by blast
    then show ?thesis using Some by simp
  qed
qed

lemma saveSyncCursor_spec:
  assumes "idb_ok st" and "canonical_dec c"
  shows "saveSyncCursor d c st
    = (st\<lparr>syncState := (syncState st)(d \<mapsto> later (loadSyncCursor d st) c)\<rparr>, None)"
    and "idb_ok (fst (saveSyncCursor d c st))"
    and "proofs_ok st \<Longrightarrow> proofs_ok (fst (saveSyncCursor d c st))"
proof -
  have "canonical_dec (get_or ''0'' (syncState st d))"
    using canonical_cursor[OF assms(1)] by (simp add: loadSyncCursor_def)
  then show eq: "saveSyncCursor d c st
      = (st\<lparr>syncState := (syncState st)(d \<mapsto> later (loadSyncCursor d st) c)\<rparr>, None)"
    using maxCursor_later[OF _ assms(2)] by (simp add: saveSyncCursor_def loadSyncCursor_def)
  have "canonical_dec (later (loadSyncCursor d st) c)"
    using canonical_cursor[OF assms(1)] assms(2) by (simp add: later_def)
  with assms(1) show "idb_ok (fst (saveSyncCursor d c st))" by (auto simp: eq idb_ok_def)
  have "dec_val (loadSyncCursor e st) \<le> dec_val (loadSyncCursor e (fst (saveSyncCursor d c st)))" for e
    by (simp add: eq loadSyncCursor_def get_or_def later_val)
  then show "proofs_ok st \<Longrightarrow> proofs_ok (fst (saveSyncCursor d c st))"
    unfolding proofs_ok_def by (auto simp: eq intro: le_trans)
qed

section \<open>Pruning coverage\<close>

text \<open>Pruning changes no row but for its proof.\<close>

definition strip :: "OpLogRecord \<Rightarrow> OpLogRecord" where
  "strip r = r\<lparr>ol_coveredAtCursor := None\<rparr>"

lemma strip_fields [simp]:
  "ol_key (strip r) = ol_key r" "ol_seq (strip r) = ol_seq r" "ol_documentId (strip r) = ol_documentId r"
  "ol_op (strip r) = ol_op r" "strip (strip r) = strip r"
  by (simp_all add: strip_def)

lemma row_ok_strip: "row_ok r \<Longrightarrow> row_ok (strip r)"
  by (simp add: row_ok_def strip_def)

definition same_rows :: "OpLogRecord list \<Rightarrow> OpLogRecord list \<Rightarrow> bool" where
  "same_rows log log' \<longleftrightarrow> map strip log' = map strip log \<and> (log_ok log \<longrightarrow> log_ok log')"

lemma same_rows_keys: "map strip log' = map strip log \<Longrightarrow> map ol_key log' = map ol_key log"
  by (metis (no_types, lifting) map_eq_conv map_map o_apply strip_fields(1))

lemma put_strip:
  assumes "log_ok log" and "x \<in> set log" and "strip x = strip r"
  shows "same_rows log (put (strip r) log)"
proof -
  have k: "ol_key (strip r) = ol_key x" using assms(3) by (metis strip_fields(1))
  have d: "distinct (map ol_key log)" using assms(1) by (simp add: log_ok_def)
  have eq: "put (strip r) log = map (\<lambda>y. if ol_key y = ol_key (strip r) then strip r else y) log"
    by (rule put_in_log[OF d assms(2) k])
  have "strip (if ol_key y = ol_key (strip r) then strip r else y) = strip y" if "y \<in> set log" for y
    using same_key_same_row[OF d that assms(2)] k assms(3) by auto
  then have m: "map strip (put (strip r) log) = map strip log" by (simp add: eq)
  have "row_ok x" using assms(1,2) by (simp add: log_ok_def list_all_iff)
  then have "row_ok (strip r)" using row_ok_strip assms(3) by metis
  then have "list_all row_ok (put (strip r) log)"
    using assms(1) by (auto simp: eq log_ok_def list_all_iff)
  then show ?thesis using m d same_rows_keys[OF m] by (simp add: same_rows_def log_ok_def)
qed

lemma same_rows_trans: "same_rows a b \<Longrightarrow> same_rows b c \<Longrightarrow> same_rows a c"
  by (simp add: same_rows_def)

lemma uncover_rows:
  "log_ok log \<Longrightarrow> strip ` set rs \<subseteq> strip ` set log \<Longrightarrow> same_rows log (foldl uncover_row log rs)"
proof (induction rs arbitrary: log)
  case (Cons r rs)
  obtain x where x: "x \<in> set log" "strip x = strip r" using Cons.prems(2) by auto
  have one: "same_rows log (uncover_row log r)"
    using put_strip[OF Cons.prems(1) x] by (simp add: uncover_row_def strip_def[symmetric] same_rows_def)
  then have "log_ok (uncover_row log r)" using Cons.prems(1) by (simp add: same_rows_def)
  moreover have "set (map strip (uncover_row log r)) = set (map strip log)"
    using one by (simp only: same_rows_def)
  then have "strip ` set rs \<subseteq> strip ` set (uncover_row log r)" using Cons.prems(2) by simp
  ultimately show ?case using Cons.IH[of "uncover_row log r"] same_rows_trans[OF one] by simp
qed (simp add: same_rows_def)

lemma clear_rows:
  "log_ok log \<Longrightarrow> same_rows log (foldl (\<lambda>log i. foldl uncover_row log (rows_of d i log)) log is)"
proof (induction "is" arbitrary: log)
  case (Cons i ids)
  have "set (rows_of d i log) \<subseteq> set log" by (auto simp: rows_of_def)
  then have one: "same_rows log (foldl uncover_row log (rows_of d i log))"
    using Cons.prems by (intro uncover_rows) auto
  moreover have "log_ok (foldl uncover_row log (rows_of d i log))"
    using one Cons.prems by (simp add: same_rows_def)
  ultimately show ?case using Cons.IH same_rows_trans[OF one] by simp
qed (simp add: same_rows_def)

lemma clearCovered_keeps:
  assumes "idb_ok st"
  shows "idb_ok (clearCoveredOpIds d ids st)"
    and "loadLocalState e (clearCoveredOpIds d ids st) = loadLocalState e st"
    and "loadSyncCursor e (clearCoveredOpIds d ids st) = loadSyncCursor e st"
proof -
  let ?log = "oplog (clearCoveredOpIds d ids st)"
  have same: "same_rows (oplog st) ?log"
    using assms by (simp add: clearCoveredOpIds_def idb_ok_def clear_rows)
  have m: "map strip ?log = map strip (oplog st)" using same by (simp add: same_rows_def)
  have ops: "ops_of e (map strip log) = ops_of e log" for e log
    unfolding ops_of_def by (rule map_op_sort_map) simp
  have "ops_of e ?log = ops_of e (oplog st)" using ops[of e ?log] ops[of e "oplog st"] m by simp
  then have "ls_ops (loadLocalState e (clearCoveredOpIds d ids st)) = ls_ops (loadLocalState e st)"
    by (simp add: ls_ops_eq)
  then show "loadLocalState e (clearCoveredOpIds d ids st) = loadLocalState e st"
    by (simp add: loadLocalState_def clearCoveredOpIds_def)
  show "loadSyncCursor e (clearCoveredOpIds d ids st) = loadSyncCursor e st"
    by (simp add: loadSyncCursor_def clearCoveredOpIds_def)
  have "length ?log = length (oplog st)" using m by (metis length_map)
  moreover have "map ol_seq ?log = map ol_seq (oplog st)"
    using m by (metis (no_types, lifting) map_eq_conv map_map o_apply strip_fields(2))
  moreover have "dense l \<longleftrightarrow> (\<forall>n \<in> set (map ol_seq l). n < length l)" for l
    by (auto simp: dense_def list_all_iff)
  moreover have "dense (oplog st)" using assms by (simp add: idb_ok_def)
  ultimately have "dense ?log" by (simp only:)
  then show "idb_ok (clearCoveredOpIds d ids st)"
    using assms same by (simp add: idb_ok_def same_rows_def clearCoveredOpIds_def)
qed

lemma idb_ok_empty: "idb_ok empty_idb" "proofs_ok empty_idb"
  by (simp_all add: idb_ok_def empty_idb_def log_ok_def dense_def proofs_ok_def)

text \<open>
  \<open>store.count()\<close> counts the rows of every document, so clearing one document lets the next
  append of another document reuse a key and overwrite a durable operation.
\<close>

definition overwrite_scenario :: IdbState where
  "overwrite_scenario =
     (let s1 = fst (appendOps ''a'' [[1]] None empty_idb);
          s2 = fst (appendOps ''b'' [[2]] None s1)
      in fst (appendOps ''b'' [[3]] None (clearDocument ''a'' s2)))"

lemma clear_then_append_overwrites: "ls_ops (loadLocalState ''b'' overwrite_scenario) = [[3]]"
  by (simp add: overwrite_scenario_def appendOps_def empty_idb_def append_one_def new_row_def
      clearDocument_def loadLocalState_def)

section \<open>Upgrade from version 2\<close>

text \<open>
  The upgrade walks the log once. A row gets its identity, and the proof of the old coverage
  store when it has one; a malformed cursor aborts the whole upgrade (\<open>None\<close>).
\<close>

definition migrate_row :: "(string \<rightharpoonup> string) option \<Rightarrow> OpLogRecord \<Rightarrow> OpLogRecord option" where
  "migrate_row legacy r =
     (case opIdentity (ol_op r) of
        None \<Rightarrow> Some r
      | Some i \<Rightarrow>
          let r' = r\<lparr>ol_identity := Some i\<rparr>
          in (case legacy of
                None \<Rightarrow> Some r'
              | Some cov \<Rightarrow>
                  (case cov (ol_documentId r @ '':'' @ i) of
                     None \<Rightarrow> Some r'
                   | Some proof_cursor \<Rightarrow>
                       (case maxCursor (get_or ''0'' (ol_coveredAtCursor r)) proof_cursor of
                          Inl e \<Rightarrow> None
                        | Inr c \<Rightarrow> Some (r'\<lparr>ol_coveredAtCursor := Some c\<rparr>)))))"

fun migrate :: "(string \<rightharpoonup> string) option \<Rightarrow> OpLogRecord list \<Rightarrow> OpLogRecord list option" where
  "migrate legacy [] = Some []"
| "migrate legacy (r # rs) =
     (case migrate_row legacy r of
        None \<Rightarrow> None
      | Some r' \<Rightarrow> map_option ((#) r') (migrate legacy rs))"

definition v2_row_ok :: "OpLogRecord \<Rightarrow> bool" where
  "v2_row_ok r \<longleftrightarrow>
     ol_key r = ol_documentId r @ '':'' @ show_nat (ol_seq r) \<and> ol_identity r = None
     \<and> ol_coveredAtCursor r = None"

lemma canonical_le_zero: "canonical_dec c \<Longrightarrow> dec_val c \<le> dec_val ''0'' \<Longrightarrow> c = ''0''"
  using canonical_dec_inject[of c "''0''"] by (simp add: digit_val_def)

lemma migrate_row_ok:
  assumes "v2_row_ok r" and "migrate_row legacy r = Some r'"
  shows "row_ok r' \<and> ol_key r' = ol_key r \<and> ol_op r' = ol_op r \<and> ol_documentId r' = ol_documentId r
    \<and> ol_seq r' = ol_seq r \<and> ol_coveredAtCursor r' =
        (case (legacy, opIdentity (ol_op r)) of
           (Some cov, Some i) \<Rightarrow> cov (ol_documentId r @ '':'' @ i) | _ \<Rightarrow> None)"
  using assms
  by (auto simp: migrate_row_def v2_row_ok_def row_ok_def get_or_def maxCursor_Inr Let_def
      simp del: dec_val_single split: option.splits sum.splits if_splits dest: canonical_le_zero)

section \<open>Properties\<close>

text \<open>
  A durable append adds and never loses. On a log whose sequence numbers are all below its
  length, \<open>appendOps\<close> with a well-formed cursor succeeds, the document's operations are the
  old ones followed by the new ones in order, every other document reads as before, the
  snapshots are untouched and the sync cursor never moves backwards; the log keeps that shape.
\<close>

theorem append_is_durable:
  assumes "idb_ok st" and "case sync of None \<Rightarrow> True | Some p \<Rightarrow> canonical_dec (sp_cursor p)"
  shows "let (st', err) = appendOps d ops sync st in
    err = None \<and> idb_ok st'
    \<and> ls_ops (loadLocalState d st') = ls_ops (loadLocalState d st) @ ops
    \<and> (\<forall>e. e \<noteq> d \<longrightarrow> loadLocalState e st' = loadLocalState e st)
    \<and> dec_val (loadSyncCursor d st') =
        (case sync of None \<Rightarrow> dec_val (loadSyncCursor d st)
         | Some p \<Rightarrow> max (dec_val (loadSyncCursor d st)) (dec_val (sp_cursor p)))"
proof (rule appendOps_spec[OF assms(1,2), of d ops])
  fix s rs
  assume s: "appendOps d ops sync st = (s, None)" "idb_ok s"
    "\<And>e. ops_of e (oplog s) = (if e = d then ops_of e (oplog st) @ ops else ops_of e (oplog st))"
    "snapshots s = snapshots st"
    "syncState s = (case sync of None \<Rightarrow> syncState st
      | Some p \<Rightarrow> (syncState st)(d \<mapsto> later (loadSyncCursor d st) (sp_cursor p)))"
  have "loadLocalState e s = loadLocalState e st" if "e \<noteq> d" for e
    using s(3)[of e] s(4) that by (simp add: loadLocalState_def ops_of_def)
  moreover have "dec_val (loadSyncCursor d s) = (case sync of None \<Rightarrow> dec_val (loadSyncCursor d st)
         | Some p \<Rightarrow> max (dec_val (loadSyncCursor d st)) (dec_val (sp_cursor p)))"
    using s(5) by (auto simp: loadSyncCursor_def get_or_def later_val split: option.splits)
  ultimately show ?thesis
    using s(1,2) s(3)[of d] by (simp add: ls_ops_eq Let_def)
qed

theorem append_is_durable_witness:
  "ls_ops (loadLocalState ''d'' (fst (appendOps ''d'' [[7]] (Some \<lparr>sp_cursor = ''12'', sp_coveredOpIds = []\<rparr>)
     empty_idb))) = [[7]]"
proof -
  have c: "case Some \<lparr>sp_cursor = ''12'', sp_coveredOpIds = []\<rparr> of None \<Rightarrow> True
      | Some p \<Rightarrow> canonical_dec (sp_cursor p)"
    by (simp add: canonical_dec_def is_digit_def)
  show ?thesis
    using append_is_durable[OF idb_ok_empty(1) c, of "''d''" "[[7]]"]
    by (simp add: case_prod_unfold Let_def loadLocalState_def empty_idb_def)
qed

text \<open>
  Coverage is exact. After a catch-up append, reading the coverage of any identities
  returns just those that were covered before or that the append both claims and has in the
  log of the document; so an acknowledged operation is only ever compacted when a catch-up page
  at or below the durable cursor contained it.
\<close>

theorem coverage_exact:
  assumes "idb_ok st" and "proofs_ok st" and "canonical_dec (sp_cursor p)"
  shows "let st' = fst (appendOps d ops (Some p) st) in
    readCoveredOpIds d ids st'
    = Inr (filter (\<lambda>i. covered d st i \<or> (i \<in> set (sp_coveredOpIds p) \<and> logged d st' i)) ids)"
proof (rule appendOps_spec[of st "Some p" d ops])
  show "idb_ok st" "case Some p of None \<Rightarrow> True | Some p \<Rightarrow> canonical_dec (sp_cursor p)"
    using assms by simp_all
  fix s rs
  assume s: "appendOps d ops (Some p) st = (s, None)" "idb_ok s"
  have c: "case Some p of None \<Rightarrow> True | Some p \<Rightarrow> canonical_dec (sp_cursor p)"
    using assms(3) by simp
  have "proofs_ok s" and "\<And>i. covered d s i \<longleftrightarrow> covered d st i
      \<or> (i \<in> set (sp_coveredOpIds p) \<and> logged d s i)"
    using appendOps_proofs[OF assms(1,2) c s(1)] by auto
  then show ?thesis
    using readCoveredOpIds_eq[OF s(2), of d ids]
    by (simp add: s(1) Let_def cong: filter_cong)
qed

theorem coverage_exact_witness:
  "readCoveredOpIds ''d'' [formatOpIdentity 5 6, formatOpIdentity 3 4]
     (fst (appendOps ''d'' [op_header 0 3 4]
       (Some \<lparr>sp_cursor = ''12'', sp_coveredOpIds = [formatOpIdentity 3 4]\<rparr>) empty_idb))
    = Inr [formatOpIdentity 3 4]"
proof -
  let ?p = "\<lparr>sp_cursor = ''12'', sp_coveredOpIds = [formatOpIdentity 3 4]\<rparr>"
  let ?st = "fst (appendOps ''d'' [op_header 0 3 4] (Some ?p) empty_idb)"
  have c: "canonical_dec (sp_cursor ?p)" by (simp add: canonical_dec_def is_digit_def)
  have id: "opIdentity (op_header 0 3 4) = Some (formatOpIdentity 3 4)"
    using identity_of_header[of 3 4 0 "[]"] by (simp add: opIdentity_identity)
  have "logged ''d'' ?st (formatOpIdentity 3 4)"
    using c by (simp add: logged_def appendOps_def append_one_def new_row_def empty_idb_def id
        maxCursor_def get_or_def rows_of_def)
  moreover have "\<not> covered ''d'' empty_idb i" for i by (simp add: covered_def empty_idb_def)
  ultimately show ?thesis
    using coverage_exact[OF idb_ok_empty c, of "''d''" "[op_header 0 3 4]"
        "[formatOpIdentity 5 6, formatOpIdentity 3 4]"]
    by (simp add: Let_def)
qed

end
