(* ===== verification/Worker_Core.thy ===== *)
theory Worker_Core
  imports Idb Json
begin

text \<open>
  The CRDT worker, \<^verbatim>\<open>src/lib/crdt/worker/core.ts\<close>: one engine and the durable state behind it.
  The engine itself is WebAssembly and not part of this model: it is a record of functions, a
  parameter of every definition. A call of a persistence method takes a flag that says whether
  its transaction commits; a request that throws returns its error beside the state it leaves.
  Stream indices are natural numbers, as the editor adapter emits them.
\<close>

section \<open>The engine as a parameter\<close>

datatype apply_outcome = Applied | Duplicate | Threw

record StreamEntry =
  se_r :: string
  se_c :: string
  se_k :: string
  se_t :: bool
  se_s :: "nat list"
  se_a :: "(string \<times> string) list"

record 'e EnginePort =
  eng_create :: "nat \<Rightarrow> 'e"
  eng_import :: "nat \<Rightarrow> bytes \<Rightarrow> 'e option"
  eng_applyRemote :: "bytes \<Rightarrow> 'e \<Rightarrow> 'e \<times> apply_outcome"
  eng_restoreAllocation :: "nat \<Rightarrow> nat \<Rightarrow> 'e \<Rightarrow> 'e"
  eng_insertText :: "nat \<Rightarrow> nat \<Rightarrow> 'e \<Rightarrow> 'e \<times> bytes option"
  eng_insertDelimiter :: "nat \<Rightarrow> string \<Rightarrow> 'e \<Rightarrow> 'e \<times> bytes option"
  eng_delete :: "nat \<Rightarrow> 'e \<Rightarrow> 'e \<times> bytes option option"
  eng_setAttr :: "nat \<Rightarrow> string \<Rightarrow> string option \<Rightarrow> 'e \<Rightarrow> 'e \<times> bytes option"
  eng_stream :: "'e \<Rightarrow> StreamEntry list"
  eng_streamSize :: "'e \<Rightarrow> nat"
  eng_visible :: "'e \<Rightarrow> string"
  eng_digest :: "'e \<Rightarrow> string"
  eng_exportSnapshot :: "'e \<Rightarrow> bytes"

record WorkerConfig =
  wc_documentId :: string
  wc_storageId :: "string option"
  wc_replicaId :: nat

datatype crdt_error =
    StateCorruption | InvalidArgument | UnsupportedVersionError | EngineThrew | PersistenceFailed

text \<open>\<open>wk_starting\<close> is the error of the restore promise, when that promise was rejected.\<close>

record 'e Worker =
  wk_engine :: "'e option"
  wk_starting :: "crdt_error option"
  wk_idb :: IdbState

datatype seed_kind = InsertText | InsertDelimiter | Delete | SetAttr

record SeedOperation =
  so_kind :: seed_kind
  so_streamIndex :: nat
  so_codepoint :: "nat option"
  so_blockType :: "string option"
  so_name :: "string option"
  so_value :: "string option"

datatype WorkerRequest =
    Init string "string option"
  | LoadSnapshot bytes
  | ApplyRemote "bytes list" "string option"
  | Seed "SeedOperation list"
  | Reconcile "SeedOperation list" "StreamEntry list option"
  | LocalInsertText nat nat
  | LocalInsertDelimiter nat string
  | LocalDelete nat
  | LocalSetAttr nat string "string option"
  | VisibleJson
  | ReadView
  | Digest
  | StreamSize
  | ExportSnapshot
  | ExportOps
  | ExportStream
  | ReplicaInfo
  | LocalOpsSince string
  | ImportSnapshot bytes bool
  | GetSyncCursor
  | PersistSyncCursor string

datatype WorkerResult =
    RInit
  | RLoadSnapshot nat
  | RApplyRemote nat nat "bytes list"
  | RSeed "bytes list"
  | RLocalOps "bytes list" nat "StreamEntry list option"
  | RVisibleJson string
  | RReadView string "StreamEntry list"
  | RDigest string
  | RStreamSize nat
  | RExportSnapshot bytes
  | RExportOps "bytes list"
  | RExportStream "StreamEntry list"
  | RReplicaInfo string string
  | RLocalOpsSince "bytes list" string
  | RImportSnapshot nat
  | RSyncCursor string
  | RPersistSyncCursor string

section \<open>Identities\<close>

record OpIdentity =
  oi_replicaId :: nat
  oi_counter :: nat
  oi_lamport :: nat

definition readOpIdentity :: "bytes \<Rightarrow> OpIdentity option" where
  "readOpIdentity frame =
     (if length frame < 26 then None
      else Some \<lparr>oi_replicaId = le_val (slice 2 8 frame), oi_counter = le_val (slice 10 8 frame),
                 oi_lamport = le_val (slice 18 8 frame)\<rparr>)"

text \<open>\<open>TextEncoder\<close> on the code units below 256, and the 64-bit FNV-1a hash of the document id.\<close>

definition utf8_char :: "char \<Rightarrow> nat list" where
  "utf8_char c = (let n = of_char c in if n < 128 then [n] else [192 + n div 64, 128 + n mod 64])"

definition fnv_step :: "64 word \<Rightarrow> nat \<Rightarrow> 64 word" where
  "fnv_step hash byte = (xor hash (word_of_nat byte)) * 0x100000001b3"

definition seedReplicaId :: "WorkerConfig \<Rightarrow> nat" where
  "seedReplicaId cfg =
     (let hash = foldl fnv_step 0xcbf29ce484222325 (concat (map utf8_char (wc_documentId cfg)));
          low = unat (and hash (mask 62))
      in if low = 0 then 1 else low)"

definition storageId :: "WorkerConfig \<Rightarrow> string" where
  "storageId cfg = get_or (wc_documentId cfg) (wc_storageId cfg)"

section \<open>Restoring\<close>

text \<open>
  The replay loop. An engine that throws stops it; the engine keeps what it had applied, and the
  highest own counter and lamport are not returned.
\<close>

fun replay_ops ::
  "('e, 'x) EnginePort_scheme \<Rightarrow> nat \<Rightarrow> nat \<Rightarrow> nat \<Rightarrow> bytes list \<Rightarrow> 'e \<Rightarrow> 'e \<times> (nat \<times> nat) option" where
  "replay_ops eng me own lam [] e = (e, Some (own, lam))"
| "replay_ops eng me own lam (op # ops) e =
     (case eng_applyRemote eng op e of
        (e', Threw) \<Rightarrow> (e', None)
      | (e', _) \<Rightarrow>
          (case readOpIdentity op of
             None \<Rightarrow> replay_ops eng me own lam ops e'
           | Some i \<Rightarrow>
               replay_ops eng me (if oi_replicaId i = me \<and> own < oi_counter i then oi_counter i else own)
                 (if lam < oi_lamport i then oi_lamport i else lam) ops e'))"

text \<open>The boolean says whether the replay completed.\<close>

definition replayAndRestoreAllocation ::
  "('e, 'x) EnginePort_scheme \<Rightarrow> WorkerConfig \<Rightarrow> bytes list \<Rightarrow> 'e \<Rightarrow> 'e \<times> bool" where
  "replayAndRestoreAllocation eng cfg ops e =
     (if ops = [] then (e, True)
      else case replay_ops eng (wc_replicaId cfg) 0 0 ops e of
        (e', None) \<Rightarrow> (e', False)
      | (e', Some (own, lam)) \<Rightarrow> (eng_restoreAllocation eng (own + 1) (lam + 1) e', True))"

text \<open>\<open>restore\<close> assigns \<open>this.engine\<close> before it replays, so a failed replay leaves it set.\<close>

definition restore ::
  "('e, 'x) EnginePort_scheme \<Rightarrow> WorkerConfig \<Rightarrow> 'e Worker \<Rightarrow> 'e Worker" where
  "restore eng cfg w =
     (let state = loadLocalState (storageId cfg) (wk_idb w);
          base = (case ls_snapshot state of
                    Some snap \<Rightarrow> eng_import eng (wc_replicaId cfg) snap
                  | None \<Rightarrow> Some (eng_create eng (wc_replicaId cfg)))
      in case base of
           None \<Rightarrow> w\<lparr>wk_starting := Some EngineThrew\<rparr>
         | Some e \<Rightarrow>
             (case replayAndRestoreAllocation eng cfg (ls_ops state) e of
                (e', done) \<Rightarrow> w\<lparr>wk_engine := Some e', wk_starting := (if done then None else Some EngineThrew)\<rparr>))"

definition ensureEngine ::
  "('e, 'x) EnginePort_scheme \<Rightarrow> WorkerConfig \<Rightarrow> 'e Worker \<Rightarrow> 'e Worker \<times> (crdt_error + 'e)" where
  "ensureEngine eng cfg w =
     (case wk_engine w of
        Some e \<Rightarrow> (w, Inr e)
      | None \<Rightarrow>
          let w' = (if wk_starting w = None then restore eng cfg w else w)
          in (case (wk_starting w', wk_engine w') of
                (Some err, _) \<Rightarrow> (w', Inl err)
              | (None, None) \<Rightarrow> (w', Inl StateCorruption)
              | (None, Some e) \<Rightarrow> (w', Inr e)))"

text \<open>\<open>appendOrReset\<close>: a failed append discards the engine, so the next request restores it.\<close>

definition reset_engine :: "'e Worker \<Rightarrow> 'e Worker" where
  "reset_engine w = w\<lparr>wk_engine := None, wk_starting := None\<rparr>"

definition appendOrReset ::
  "WorkerConfig \<Rightarrow> bool \<Rightarrow> bytes list \<Rightarrow> SyncProof option \<Rightarrow> 'e Worker \<Rightarrow> 'e Worker \<times> bool" where
  "appendOrReset cfg commits ops sync w =
     (if ops = [] \<and> sync = None then (w, True)
      else if \<not> commits then (reset_engine w, False)
      else case appendOps (storageId cfg) ops sync (wk_idb w) of
        (idb, None) \<Rightarrow> (w\<lparr>wk_idb := idb\<rparr>, True)
      | (idb, Some e) \<Rightarrow> (reset_engine (w\<lparr>wk_idb := idb\<rparr>), False))"

section \<open>Remote operations\<close>

text \<open>The loop of \<open>applyRemote\<close>: the operations to log and the number of duplicates, or a throw.\<close>

fun apply_all ::
  "('e, 'x) EnginePort_scheme \<Rightarrow> bytes list \<Rightarrow> 'e \<Rightarrow> 'e \<times> (bytes list \<times> nat) option" where
  "apply_all eng [] e = (e, Some ([], 0))"
| "apply_all eng (op # ops) e =
     (case eng_applyRemote eng op e of
        (e', Threw) \<Rightarrow> (e', None)
      | (e', Applied) \<Rightarrow>
          (case apply_all eng ops e' of
             (e'', r) \<Rightarrow> (e'', map_option (\<lambda>(ds, n). (op # ds, n)) r))
      | (e', Duplicate) \<Rightarrow>
          (case apply_all eng ops e' of
             (e'', r) \<Rightarrow> (e'', map_option (\<lambda>(ds, n). (ds, Suc n)) r)))"

definition covered_op_ids :: "WorkerConfig \<Rightarrow> bytes list \<Rightarrow> string list" where
  "covered_op_ids cfg ops =
     concat (map (\<lambda>op. case readOpIdentity op of
         None \<Rightarrow> []
       | Some i \<Rightarrow> if oi_replicaId i \<noteq> wc_replicaId cfg then []
                   else [show_nat (oi_replicaId i) @ '':'' @ show_nat (oi_counter i)]) ops)"

definition handle_applyRemote ::
  "('e, 'x) EnginePort_scheme \<Rightarrow> WorkerConfig \<Rightarrow> bool \<Rightarrow> bytes list \<Rightarrow> string option \<Rightarrow> 'e Worker
    \<Rightarrow> 'e Worker \<times> (crdt_error + WorkerResult)" where
  "handle_applyRemote eng cfg commits ops cursor w0 =
     (case ensureEngine eng cfg w0 of
        (w, Inl err) \<Rightarrow> (w, Inl err)
      | (w, Inr e) \<Rightarrow>
          (case apply_all eng ops e of
             (e', None) \<Rightarrow> (w\<lparr>wk_engine := Some e'\<rparr>, Inl EngineThrew)
           | (e', Some (durable, duplicates)) \<Rightarrow>
               let sync = map_option (\<lambda>c. \<lparr>sp_cursor = c, sp_coveredOpIds = covered_op_ids cfg ops\<rparr>) cursor
               in (case appendOrReset cfg commits durable sync (w\<lparr>wk_engine := Some e'\<rparr>) of
                     (w', True) \<Rightarrow> (w', Inr (RApplyRemote (length durable) duplicates durable))
                   | (w', False) \<Rightarrow> (w', Inl PersistenceFailed))))"

section \<open>Local operations\<close>

text \<open>A local request: the engine generates, then the operation is logged.\<close>

definition log_local ::
  "('e, 'x) EnginePort_scheme \<Rightarrow> WorkerConfig \<Rightarrow> bool \<Rightarrow> ('e \<Rightarrow> 'e \<times> bytes option option) \<Rightarrow> 'e Worker
    \<Rightarrow> 'e Worker \<times> (crdt_error + WorkerResult)" where
  "log_local eng cfg commits generate w0 =
     (case ensureEngine eng cfg w0 of
        (w, Inl err) \<Rightarrow> (w, Inl err)
      | (w, Inr e) \<Rightarrow>
          (case generate e of
             (e', None) \<Rightarrow> (w\<lparr>wk_engine := Some e'\<rparr>, Inl EngineThrew)
           | (e', Some None) \<Rightarrow>
               (w\<lparr>wk_engine := Some e'\<rparr>, Inr (RLocalOps [] (eng_streamSize eng e') None))
           | (e', Some (Some op)) \<Rightarrow>
               (case appendOrReset cfg commits [op] None (w\<lparr>wk_engine := Some e'\<rparr>) of
                  (w', True) \<Rightarrow> (w', Inr (RLocalOps [op] (eng_streamSize eng e') None))
                | (w', False) \<Rightarrow> (w', Inl PersistenceFailed))))"

definition must :: "'e \<times> bytes option \<Rightarrow> 'e \<times> bytes option option" where
  "must r = (fst r, map_option Some (snd r))"

section \<open>Seeding and reconciling\<close>

definition is_insert :: "seed_kind \<Rightarrow> bool" where
  "is_insert k \<longleftrightarrow> k = InsertText \<or> k = InsertDelimiter"

fun find_index :: "('a \<Rightarrow> bool) \<Rightarrow> 'a list \<Rightarrow> nat option" where
  "find_index P [] = None"
| "find_index P (x # xs) = (if P x then Some 0 else map_option Suc (find_index P xs))"

text \<open>
  Where an edit of the view goes in the current stream: without a base stream at its own index;
  with one, at the item it referred to, found by identity, or at the end when it refers past the
  view.
\<close>

definition base_target :: "StreamEntry list option \<Rightarrow> nat \<Rightarrow> StreamEntry option" where
  "base_target base i =
     (case base of None \<Rightarrow> None | Some b \<Rightarrow> if i < length b then Some (b ! i) else None)"

definition rebase_index ::
  "StreamEntry list option \<Rightarrow> StreamEntry list \<Rightarrow> SeedOperation \<Rightarrow> nat option" where
  "rebase_index base cur o' =
     (case base of
        None \<Rightarrow> Some (so_streamIndex o')
      | Some b \<Rightarrow>
          (case base_target base (so_streamIndex o') of
             None \<Rightarrow> if is_insert (so_kind o') then Some (length cur) else None
           | Some t \<Rightarrow> find_index (\<lambda>en. se_r en = se_r t \<and> se_c en = se_c t) cur))"

definition generate_op ::
  "('e, 'x) EnginePort_scheme \<Rightarrow> SeedOperation \<Rightarrow> nat \<Rightarrow> 'e \<Rightarrow> 'e \<times> bytes option option" where
  "generate_op eng o' i e =
     (case so_kind o' of
        InsertText \<Rightarrow> must (eng_insertText eng i (get_or 0x20 (so_codepoint o')) e)
      | InsertDelimiter \<Rightarrow> must (eng_insertDelimiter eng i (get_or ''paragraph'' (so_blockType o')) e)
      | Delete \<Rightarrow> eng_delete eng i e
      | SetAttr \<Rightarrow> must (eng_setAttr eng i (get_or [] (so_name o')) (so_value o') e))"

definition entry_of :: "SeedOperation \<Rightarrow> OpIdentity \<Rightarrow> StreamEntry" where
  "entry_of o' i =
     \<lparr>se_r = show_nat (oi_replicaId i), se_c = show_nat (oi_counter i),
      se_k = (if so_kind o' = InsertText then ''text'' else ''delim''), se_t = False,
      se_s = (if so_kind o' = InsertText then [get_or 0x20 (so_codepoint o')] else []),
      se_a = (if so_kind o' = InsertText then [] else [(''type'', get_or ''paragraph'' (so_blockType o'))])\<rparr>"

definition splice_in :: "nat \<Rightarrow> 'a \<Rightarrow> 'a list \<Rightarrow> 'a list" where
  "splice_in i x xs = take i xs @ x # drop i xs"

definition edit_target :: "SeedOperation \<Rightarrow> StreamEntry \<Rightarrow> StreamEntry" where
  "edit_target o' t =
     (if so_kind o' = Delete then t\<lparr>se_t := True\<rparr>
      else
        let k = get_or ''undefined'' (so_name o')
        in case so_value o' of
             None \<Rightarrow> t\<lparr>se_a := filter (\<lambda>(k', v). k' \<noteq> k) (se_a t)\<rparr>
           | Some v \<Rightarrow> t\<lparr>se_a := obj_put k v (se_a t)\<rparr>)"

fun reconcile_loop ::
  "('e, 'x) EnginePort_scheme \<Rightarrow> SeedOperation list \<Rightarrow> 'e \<Rightarrow> StreamEntry list option \<Rightarrow> StreamEntry list
    \<Rightarrow> bytes list \<Rightarrow> ('e \<times> bytes list \<times> StreamEntry list option) option" where
  "reconcile_loop eng [] e base cur generated = Some (e, generated, base)"
| "reconcile_loop eng (o' # os) e base cur generated =
     (case rebase_index base cur o' of
        None \<Rightarrow> None
      | Some i \<Rightarrow>
          (case generate_op eng o' i e of
             (e', None) \<Rightarrow> None
           | (e', Some produced) \<Rightarrow>
               let generated' = generated @ (case produced of None \<Rightarrow> [] | Some op \<Rightarrow> [op])
               in (case base of
                     None \<Rightarrow> reconcile_loop eng os e' base cur generated'
                   | Some b \<Rightarrow>
                       if is_insert (so_kind o') then
                         (case Option.bind produced readOpIdentity of
                            None \<Rightarrow> None
                          | Some oid \<Rightarrow>
                              reconcile_loop eng os e' (Some (splice_in (so_streamIndex o') (entry_of o' oid) b))
                                (splice_in i (entry_of o' oid) cur) generated')
                       else
                         reconcile_loop eng os e'
                           (Some (b[so_streamIndex o' := edit_target o' (b ! so_streamIndex o')])) cur generated')))"

definition handle_reconcile ::
  "('e, 'x) EnginePort_scheme \<Rightarrow> WorkerConfig \<Rightarrow> bool \<Rightarrow> SeedOperation list \<Rightarrow> StreamEntry list option
    \<Rightarrow> 'e Worker \<Rightarrow> 'e Worker \<times> (crdt_error + WorkerResult)" where
  "handle_reconcile eng cfg commits ops baseStream w0 =
     (case ensureEngine eng cfg w0 of
        (w, Inl err) \<Rightarrow> (w, Inl err)
      | (w, Inr e) \<Rightarrow>
          if ops = [] then (w, Inr (RLocalOps [] (eng_streamSize eng e) None))
          else
            let cur = (if baseStream = None then [] else eng_stream eng e)
            in (case reconcile_loop eng ops e baseStream cur [] of
                  None \<Rightarrow> (reset_engine w, Inl EngineThrew)
                | Some (e', generated, base') \<Rightarrow>
                    (case appendOrReset cfg commits generated None (w\<lparr>wk_engine := Some e'\<rparr>) of
                       (w', True) \<Rightarrow> (w', Inr (RLocalOps generated (eng_streamSize eng e') base'))
                     | (w', False) \<Rightarrow> (w', Inl PersistenceFailed))))"

definition handle_seed ::
  "('e, 'x) EnginePort_scheme \<Rightarrow> WorkerConfig \<Rightarrow> bool \<Rightarrow> SeedOperation list \<Rightarrow> 'e Worker
    \<Rightarrow> 'e Worker \<times> (crdt_error + WorkerResult)" where
  "handle_seed eng cfg commits ops w0 =
     (case ensureEngine eng cfg w0 of
        (w, Inl err) \<Rightarrow> (w, Inl err)
      | (w, Inr e) \<Rightarrow>
          if ops = [] then (w, Inr (RSeed []))
          else
            (case reconcile_loop eng ops (eng_create eng (seedReplicaId cfg)) None [] [] of
               None \<Rightarrow> (reset_engine w, Inl EngineThrew)
             | Some (seedEngine, generated, _) \<Rightarrow>
                 (case apply_all eng generated e of
                    (e', None) \<Rightarrow> (reset_engine w, Inl EngineThrew)
                  | (e', Some (durable, _)) \<Rightarrow>
                      (case appendOrReset cfg commits durable None (w\<lparr>wk_engine := Some e'\<rparr>) of
                         (w', True) \<Rightarrow> (w', Inr (RSeed generated))
                       | (w', False) \<Rightarrow> (w', Inl PersistenceFailed)))))"

section \<open>Snapshots and queries\<close>

definition persist_snapshot :: "WorkerConfig \<Rightarrow> bytes \<Rightarrow> nat \<Rightarrow> 'e Worker \<Rightarrow> 'e Worker" where
  "persist_snapshot cfg snap now w = w\<lparr>wk_idb := saveSnapshot (storageId cfg) snap now (wk_idb w)\<rparr>"

definition handle_loadSnapshot ::
  "('e, 'x) EnginePort_scheme \<Rightarrow> WorkerConfig \<Rightarrow> bool \<Rightarrow> nat \<Rightarrow> bytes \<Rightarrow> 'e Worker
    \<Rightarrow> 'e Worker \<times> (crdt_error + WorkerResult)" where
  "handle_loadSnapshot eng cfg commits now snap w0 =
     (case ensureEngine eng cfg w0 of
        (w, Inl err) \<Rightarrow> (w, Inl err)
      | (w, Inr e) \<Rightarrow>
          (case eng_import eng (wc_replicaId cfg) snap of
             None \<Rightarrow> (w, Inl EngineThrew)
           | Some restored \<Rightarrow>
               if \<not> commits then (w, Inl PersistenceFailed)
               else (persist_snapshot cfg snap now (w\<lparr>wk_engine := Some restored\<rparr>),
                     Inr (RLoadSnapshot (eng_streamSize eng restored)))))"

definition handle_importSnapshot ::
  "('e, 'x) EnginePort_scheme \<Rightarrow> WorkerConfig \<Rightarrow> bool \<Rightarrow> nat \<Rightarrow> bytes \<Rightarrow> bool \<Rightarrow> 'e Worker
    \<Rightarrow> 'e Worker \<times> (crdt_error + WorkerResult)" where
  "handle_importSnapshot eng cfg commits now snap preserveLocal w0 =
     (case ensureEngine eng cfg w0 of
        (w, Inl err) \<Rightarrow> (w, Inl err)
      | (w, Inr e) \<Rightarrow>
          (case eng_import eng (wc_replicaId cfg) snap of
             None \<Rightarrow> (w, Inl EngineThrew)
           | Some fresh \<Rightarrow>
               (case (if preserveLocal
                      then replayAndRestoreAllocation eng cfg
                             (ls_ops (loadLocalState (storageId cfg) (wk_idb w))) fresh
                      else (fresh, True)) of
                  (_, False) \<Rightarrow> (w, Inl EngineThrew)
                | (restored, True) \<Rightarrow>
                    if \<not> commits then (w, Inl PersistenceFailed)
                    else (persist_snapshot cfg snap now (w\<lparr>wk_engine := Some restored\<rparr>),
                          Inr (RImportSnapshot (eng_streamSize eng restored))))))"

definition own_step :: "nat \<Rightarrow> nat \<Rightarrow> bytes \<Rightarrow> nat" where
  "own_step me m op =
     (case readOpIdentity op of
        None \<Rightarrow> m
      | Some i \<Rightarrow> if oi_replicaId i = me \<and> m < oi_counter i then oi_counter i else m)"

definition max_own_counter :: "nat \<Rightarrow> bytes list \<Rightarrow> nat" where
  "max_own_counter me ops = foldl (own_step me) 0 ops"

text \<open>The loop of \<open>localOpsSince\<close>.\<close>

fun own_since :: "nat \<Rightarrow> int \<Rightarrow> bytes list \<Rightarrow> int \<Rightarrow> bytes list \<times> int" where
  "own_since me since [] nxt = ([], nxt)"
| "own_since me since (op # ops) nxt =
     (case readOpIdentity op of
        None \<Rightarrow> own_since me since ops nxt
      | Some i \<Rightarrow>
          if oi_replicaId i \<noteq> me then own_since me since ops nxt
          else if since < int (oi_counter i) then
            (case own_since me since ops (int (oi_counter i)) of (r, n) \<Rightarrow> (op # r, n))
          else own_since me since ops nxt)"

definition handle_localOpsSince ::
  "('e, 'x) EnginePort_scheme \<Rightarrow> WorkerConfig \<Rightarrow> string \<Rightarrow> 'e Worker
    \<Rightarrow> 'e Worker \<times> (crdt_error + WorkerResult)" where
  "handle_localOpsSince eng cfg counter w0 =
     (case ensureEngine eng cfg w0 of
        (w, Inl err) \<Rightarrow> (w, Inl err)
      | (w, Inr e) \<Rightarrow>
          (case js_BigInt counter of
             None \<Rightarrow> (w, Inl InvalidArgument)
           | Some since \<Rightarrow>
               (case own_since (wc_replicaId cfg) since
                       (ls_ops (loadLocalState (storageId cfg) (wk_idb w))) since of
                  (ops, nxt) \<Rightarrow> (w, Inr (RLocalOpsSince ops (show_int nxt))))))"

definition query ::
  "('e, 'x) EnginePort_scheme \<Rightarrow> WorkerConfig \<Rightarrow> ('e Worker \<Rightarrow> 'e \<Rightarrow> WorkerResult) \<Rightarrow> 'e Worker
    \<Rightarrow> 'e Worker \<times> (crdt_error + WorkerResult)" where
  "query eng cfg f w0 =
     (case ensureEngine eng cfg w0 of
        (w, Inl err) \<Rightarrow> (w, Inl err)
      | (w, Inr e) \<Rightarrow> (w, Inr (f w e)))"

section \<open>The request switch\<close>

fun handle ::
  "('e, 'x) EnginePort_scheme \<Rightarrow> WorkerConfig \<Rightarrow> bool \<Rightarrow> nat \<Rightarrow> WorkerRequest \<Rightarrow> 'e Worker
    \<Rightarrow> 'e Worker \<times> (crdt_error + WorkerResult)" where
  "handle eng cfg commits now (Init doc sid) w =
     (if doc \<noteq> wc_documentId cfg \<or> (sid \<noteq> None \<and> sid \<noteq> Some (storageId cfg)) then (w, Inl InvalidArgument)
      else query eng cfg (\<lambda>w e. RInit) w)"
| "handle eng cfg commits now (LoadSnapshot snap) w = handle_loadSnapshot eng cfg commits now snap w"
| "handle eng cfg commits now (ApplyRemote ops cursor) w = handle_applyRemote eng cfg commits ops cursor w"
| "handle eng cfg commits now (Seed ops) w = handle_seed eng cfg commits ops w"
| "handle eng cfg commits now (Reconcile ops base) w = handle_reconcile eng cfg commits ops base w"
| "handle eng cfg commits now (LocalInsertText i cp) w =
     log_local eng cfg commits (\<lambda>e. must (eng_insertText eng i cp e)) w"
| "handle eng cfg commits now (LocalInsertDelimiter i ty) w =
     log_local eng cfg commits (\<lambda>e. must (eng_insertDelimiter eng i ty e)) w"
| "handle eng cfg commits now (LocalDelete i) w = log_local eng cfg commits (eng_delete eng i) w"
| "handle eng cfg commits now (LocalSetAttr i n v) w =
     log_local eng cfg commits (\<lambda>e. must (eng_setAttr eng i n v e)) w"
| "handle eng cfg commits now VisibleJson w = query eng cfg (\<lambda>w e. RVisibleJson (eng_visible eng e)) w"
| "handle eng cfg commits now ReadView w =
     query eng cfg (\<lambda>w e. RReadView (eng_visible eng e) (eng_stream eng e)) w"
| "handle eng cfg commits now Digest w = query eng cfg (\<lambda>w e. RDigest (eng_digest eng e)) w"
| "handle eng cfg commits now StreamSize w =
     query eng cfg (\<lambda>w e. RStreamSize (eng_streamSize eng e)) w"
| "handle eng cfg commits now ExportSnapshot w =
     (case ensureEngine eng cfg w of
        (w', Inl err) \<Rightarrow> (w', Inl err)
      | (w', Inr e) \<Rightarrow>
          if \<not> commits then (w', Inl PersistenceFailed)
          else (persist_snapshot cfg (eng_exportSnapshot eng e) now w',
                Inr (RExportSnapshot (eng_exportSnapshot eng e))))"
| "handle eng cfg commits now ExportOps w =
     (w, Inr (RExportOps (ls_ops (loadLocalState (storageId cfg) (wk_idb w)))))"
| "handle eng cfg commits now ExportStream w = query eng cfg (\<lambda>w e. RExportStream (eng_stream eng e)) w"
| "handle eng cfg commits now ReplicaInfo w =
     query eng cfg (\<lambda>w e. RReplicaInfo (show_nat (wc_replicaId cfg))
       (show_nat (max_own_counter (wc_replicaId cfg)
         (ls_ops (loadLocalState (storageId cfg) (wk_idb w)))))) w"
| "handle eng cfg commits now (LocalOpsSince counter) w = handle_localOpsSince eng cfg counter w"
| "handle eng cfg commits now (ImportSnapshot snap preserve) w =
     handle_importSnapshot eng cfg commits now snap preserve w"
| "handle eng cfg commits now GetSyncCursor w =
     (w, Inr (RSyncCursor (loadSyncCursor (storageId cfg) (wk_idb w))))"
| "handle eng cfg commits now (PersistSyncCursor cursor) w =
     (if \<not> commits then (w, Inl PersistenceFailed)
      else case saveSyncCursor (storageId cfg) cursor (wk_idb w) of
        (idb, None) \<Rightarrow> (w\<lparr>wk_idb := idb\<rparr>, Inr (RPersistSyncCursor cursor))
      | (idb, Some e) \<Rightarrow> (w, Inl PersistenceFailed))"

section \<open>What is assumed of the engine\<close>

text \<open>
  The engine (\<^verbatim>\<open>cpp/crdt/src/doc.cpp\<close>) knows operations by their identity. Assumed of it is, over the identities
  an engine holds (\<open>held\<close>: those of \<open>applied_\<close> and of \<open>pending_\<close>) and a snapshot contains (\<open>snap_ops\<close>): an
  operation that is applied is added, also when it waits for its anchors; one reported as a duplicate was there; an
  exception leaves at most that operation behind, since those released by it may be dropped; a generated operation is
  held; a snapshot contains what its engine holds and an import holds what it contains. Nothing is assumed of which
  operations throw: the buffer of waiting operations has a limit.
\<close>

definition op_ident :: "bytes \<Rightarrow> (nat \<times> nat) option" where
  "op_ident op = map_option (\<lambda>i. (oi_replicaId i, oi_counter i)) (readOpIdentity op)"

type_synonym idents = "(nat \<times> nat) option set"

definition engine_laws ::
  "('e, 'x) EnginePort_scheme \<Rightarrow> ('e \<Rightarrow> idents) \<Rightarrow> (bytes \<Rightarrow> idents) \<Rightarrow> bool" where
  "engine_laws eng held snap_ops \<longleftrightarrow>
     (\<forall>r. held (eng_create eng r) = {})
     \<and> (\<forall>r snap e. eng_import eng r snap = Some e \<longrightarrow> held e = snap_ops snap)
     \<and> (\<forall>op e. case eng_applyRemote eng op e of
          (e', Applied) \<Rightarrow> held e' = insert (op_ident op) (held e)
        | (e', Duplicate) \<Rightarrow> held e' = held e \<and> op_ident op \<in> held e
        | (e', Threw) \<Rightarrow> held e' \<subseteq> insert (op_ident op) (held e))
     \<and> (\<forall>c l e. held (eng_restoreAllocation eng c l e) = held e)
     \<and> (\<forall>o' i e. case generate_op eng o' i e of
          (e', Some (Some op)) \<Rightarrow> held e' = insert (op_ident op) (held e)
        | (e', Some None) \<Rightarrow> held e' = held e
        | (e', None) \<Rightarrow> True)
     \<and> (\<forall>e. snap_ops (eng_exportSnapshot eng e) = held e)"

text \<open>The durable history of a worker: its log and its saved snapshot.\<close>

definition log_of :: "WorkerConfig \<Rightarrow> 'e Worker \<Rightarrow> bytes list" where
  "log_of cfg w = ls_ops (loadLocalState (storageId cfg) (wk_idb w))"

definition durable_history :: "WorkerConfig \<Rightarrow> (bytes \<Rightarrow> idents) \<Rightarrow> 'e Worker \<Rightarrow> idents" where
  "durable_history cfg snap_ops w =
     op_ident ` set (log_of cfg w)
     \<union> (case ls_snapshot (loadLocalState (storageId cfg) (wk_idb w)) of None \<Rightarrow> {} | Some s \<Rightarrow> snap_ops s)"

text \<open>The local durability rule: what the engine holds is in the durable history.\<close>

definition durable ::
  "WorkerConfig \<Rightarrow> ('e \<Rightarrow> idents) \<Rightarrow> (bytes \<Rightarrow> idents) \<Rightarrow> 'e Worker \<Rightarrow> bool" where
  "durable cfg held snap_ops w \<longleftrightarrow>
     (case wk_engine w of None \<Rightarrow> True | Some e \<Rightarrow> held e \<subseteq> durable_history cfg snap_ops w)"

definition worker_ok :: "'e Worker \<Rightarrow> bool" where
  "worker_ok w \<longleftrightarrow> idb_ok (wk_idb w)"

end
