(* ===== verification/Worker_Durability.thy ===== *)
theory Worker_Durability
  imports Worker_Core
begin

text \<open>
  What the CRDT worker (src/src/lib/crdt/worker/core.ts) promises: whatever the engine holds in
  memory can be rebuilt from what IndexedDB holds, so an answer the worker gives survives a crash.
  The definitions are those of Worker_Core; this theory holds the invariant, its preservation by
  every request, and the properties of restore and of the local log.
\<close>

section \<open>Replay\<close>

lemma durable_history_upd [simp]:
  "durable_history cfg snap_ops (w\<lparr>wk_engine := x\<rparr>) = durable_history cfg snap_ops w"
  "durable_history cfg snap_ops (w\<lparr>wk_starting := y\<rparr>) = durable_history cfg snap_ops w"
  by (simp_all add: durable_history_def log_of_def)

lemma own_step_max: "own_step me m op = max m (own_step me 0 op)"
  by (auto simp: own_step_def split: option.splits)

lemma max_own_fold: "foldl (own_step me) a ops = max a (max_own_counter me ops)"
proof (induction ops arbitrary: a)
  case (Cons op ops)
  have "foldl (own_step me) a (op # ops) = max (own_step me a op) (max_own_counter me ops)"
    using Cons.IH[of "own_step me a op"] by simp
  moreover have "max_own_counter me (op # ops) = max (own_step me 0 op) (max_own_counter me ops)"
    using Cons.IH[of "own_step me 0 op"] by (simp add: max_own_counter_def)
  ultimately show ?case using own_step_max[of me a op] by simp
qed (simp add: max_own_counter_def)

lemma max_own_ge:
  "op \<in> set ops \<Longrightarrow> readOpIdentity op = Some i \<Longrightarrow> oi_replicaId i = me \<Longrightarrow> oi_counter i \<le> max_own_counter me ops"
proof (induction ops)
  case (Cons x xs)
  have "max_own_counter me (x # xs) = max (own_step me 0 x) (max_own_counter me xs)"
    using max_own_fold[of me "own_step me 0 x" xs] by (simp add: max_own_counter_def)
  with Cons show ?case by (auto simp: own_step_def)
qed simp

lemma apply_held:
  assumes "engine_laws eng held snap_ops" and "eng_applyRemote eng op e = (e', r)"
  shows "held e' \<subseteq> insert (op_ident op) (held e)" "r \<noteq> Threw \<Longrightarrow> held e' = insert (op_ident op) (held e)"
    "r = Duplicate \<Longrightarrow> held e' = held e"
proof -
  have "case eng_applyRemote eng op e of
      (e', Applied) \<Rightarrow> held e' = insert (op_ident op) (held e)
    | (e', Duplicate) \<Rightarrow> held e' = held e \<and> op_ident op \<in> held e
    | (e', Threw) \<Rightarrow> held e' \<subseteq> insert (op_ident op) (held e)"
    using assms(1) by (simp add: engine_laws_def)
  then show "held e' \<subseteq> insert (op_ident op) (held e)" "r \<noteq> Threw \<Longrightarrow> held e' = insert (op_ident op) (held e)"
    "r = Duplicate \<Longrightarrow> held e' = held e"
    using assms(2) by (cases r; auto)+
qed

lemma generate_held:
  assumes "engine_laws eng held snap_ops" and "generate_op eng o' i e = (e', Some p)"
  shows "held e' = held e \<union> (case p of None \<Rightarrow> {} | Some op \<Rightarrow> {op_ident op})"
proof -
  have "case generate_op eng o' i e of
      (e', Some (Some op)) \<Rightarrow> held e' = insert (op_ident op) (held e)
    | (e', Some None) \<Rightarrow> held e' = held e | (e', None) \<Rightarrow> True"
    using assms(1) by (simp add: engine_laws_def)
  then show ?thesis using assms(2) by (cases p) auto
qed

lemma replay_ops_held:
  assumes "engine_laws eng held snap_ops"
  shows "held (fst (replay_ops eng me own lam ops e)) \<subseteq> held e \<union> op_ident ` set ops"
    and "replay_ops eng me own lam ops e = (e', Some r) \<Longrightarrow> held e' = held e \<union> op_ident ` set ops"
proof -
  show "held (fst (replay_ops eng me own lam ops e)) \<subseteq> held e \<union> op_ident ` set ops"
  proof (induction ops arbitrary: own lam e)
    case (Cons op ops)
    obtain e1 r where a: "eng_applyRemote eng op e = (e1, r)" by fastforce
    then have "held e1 \<subseteq> insert (op_ident op) (held e)" using apply_held(1) [OF assms] by blast
    then show ?case
      using Cons.IH[of _ _ e1] by (cases r) (fastforce simp: a split: option.splits)+
  qed simp
  show "replay_ops eng me own lam ops e = (e', Some r) \<Longrightarrow> held e' = held e \<union> op_ident ` set ops"
  proof (induction ops arbitrary: own lam e)
    case (Cons op ops)
    obtain e1 q where a: "eng_applyRemote eng op e = (e1, q)" by fastforce
    then have q: "q \<noteq> Threw" using Cons.prems by auto
    obtain o1 l1 where "replay_ops eng me own lam (op # ops) e = replay_ops eng me o1 l1 ops e1"
      using q a that by (cases q; cases "readOpIdentity op") simp_all
    then have "held e' = held e1 \<union> op_ident ` set ops" using Cons by metis
    then show ?case using apply_held(2) [OF assms a q] by simp
  qed simp
qed

lemma replayAndRestore_held:
  assumes "engine_laws eng held snap_ops"
  shows "held (fst (replayAndRestoreAllocation eng cfg ops e)) \<subseteq> held e \<union> op_ident ` set ops"
    and "replayAndRestoreAllocation eng cfg ops e = (e', True) \<Longrightarrow> held e' = held e \<union> op_ident ` set ops"
proof -
  have r: "held (eng_restoreAllocation eng c l x) = held x" for c l x
    using assms by (simp add: engine_laws_def)
  obtain x res where p: "replay_ops eng (wc_replicaId cfg) 0 0 ops e = (x, res)" by fastforce
  with replay_ops_held(1)[OF assms, of "wc_replicaId cfg" 0 0 ops e]
  show "held (fst (replayAndRestoreAllocation eng cfg ops e)) \<subseteq> held e \<union> op_ident ` set ops"
    by (auto simp: replayAndRestoreAllocation_def r split: option.splits)
  show "replayAndRestoreAllocation eng cfg ops e = (e', True) \<Longrightarrow> held e' = held e \<union> op_ident ` set ops"
    using replay_ops_held(2)[OF assms] by (auto simp: replayAndRestoreAllocation_def r split: prod.splits option.splits if_splits)
qed

lemma restore_durable:
  assumes "engine_laws eng held snap_ops" and "durable cfg held snap_ops w"
  shows "durable cfg held snap_ops (restore eng cfg w)" and "wk_idb (restore eng cfg w) = wk_idb w"
proof -
  let ?st = "loadLocalState (storageId cfg) (wk_idb w)"
  show idb: "wk_idb (restore eng cfg w) = wk_idb w"
    by (auto simp: restore_def Let_def split: option.splits prod.splits)
  show "durable cfg held snap_ops (restore eng cfg w)"
  proof (cases "(case ls_snapshot ?st of Some snap \<Rightarrow> eng_import eng (wc_replicaId cfg) snap
      | None \<Rightarrow> Some (eng_create eng (wc_replicaId cfg)))")
    case None
    then show ?thesis
      using assms(2) by (auto simp: restore_def Let_def durable_def split: option.splits)
  next
    case (Some e)
    then have "held e \<subseteq> (case ls_snapshot ?st of None \<Rightarrow> {} | Some s \<Rightarrow> snap_ops s)"
      using assms(1) by (auto simp: engine_laws_def split: option.splits)
    then have "held (fst (replayAndRestoreAllocation eng cfg (ls_ops ?st) e)) \<subseteq> durable_history cfg snap_ops w"
      using replayAndRestore_held(1)[OF assms(1), of cfg "ls_ops ?st" e]
      by (auto simp: durable_history_def log_of_def)
    then show ?thesis
      using Some idb
      by (auto simp: restore_def Let_def durable_def split: prod.splits)
  qed
qed

lemma ensureEngine_durable:
  assumes "engine_laws eng held snap_ops" and "durable cfg held snap_ops w"
    and "ensureEngine eng cfg w = (w', r)"
  shows "durable cfg held snap_ops w'" and "wk_idb w' = wk_idb w"
    and "r = Inr e \<Longrightarrow> wk_engine w' = Some e"
  using assms restore_durable[OF assms(1,2)]
  by (auto simp: ensureEngine_def Let_def split: option.splits if_splits)

section \<open>Durability\<close>

lemma apply_all_held:
  assumes "engine_laws eng held snap_ops" and "apply_all eng ops e = (e', Some (ds, n))"
  shows "held e' = held e \<union> op_ident ` set ds"
  using assms(2)
proof (induction ops arbitrary: e ds n)
  case (Cons op ops)
  obtain e1 r where a: "eng_applyRemote eng op e = (e1, r)" by fastforce
  obtain e2 q where b: "apply_all eng ops e1 = (e2, q)" by fastforce
  note held1 = apply_held(2,3) [OF assms(1) a]
  show ?case
  proof (cases r)
    case Applied
    with Cons.prems a b obtain ds' where q: "q = Some (ds', n)" "ds = op # ds'" "e2 = e'"
      by (auto split: option.splits)
    then show ?thesis using Cons.IH[of e1 ds' n] b held1(1) Applied by simp
  next
    case Duplicate
    with Cons.prems a b obtain n' where q: "q = Some (ds, n')" "e2 = e'" by (auto split: option.splits)
    then show ?thesis using Cons.IH[of e1 ds n'] b held1(2) Duplicate by simp
  next
    case Threw
    with Cons.prems a show ?thesis by simp
  qed
qed simp

lemma appendOrReset_True:
  assumes "appendOrReset cfg commits ops sync w = (w', True)" and "worker_ok w"
  shows "wk_engine w' = wk_engine w" "log_of cfg w' = log_of cfg w @ ops" "worker_ok w'"
    "durable_history cfg snap_ops w' = durable_history cfg snap_ops w \<union> op_ident ` set ops"
proof -
  have "wk_engine w' = wk_engine w \<and> log_of cfg w' = log_of cfg w @ ops \<and> worker_ok w'
    \<and> snapshots (wk_idb w') = snapshots (wk_idb w)"
  proof (cases "ops = [] \<and> sync = None")
    case True
    with assms show ?thesis by (simp add: appendOrReset_def)
  next
    case False
    obtain idb where a: "appendOps (storageId cfg) ops sync (wk_idb w) = (idb, None)"
      and w': "w' = w\<lparr>wk_idb := idb\<rparr>"
      using assms(1) False by (auto simp: appendOrReset_def split: if_splits prod.splits option.splits)
    have "case sync of None \<Rightarrow> True | Some p \<Rightarrow> canonical_dec (sp_cursor p)"
    proof (cases sync)
      case (Some p)
      show ?thesis
      proof (rule ccontr)
        assume "\<not> ?thesis"
        then have "\<not> canonical_dec (sp_cursor p)" using Some by simp
        from appendOps_bad_cursor(1)[OF assms(2)[unfolded worker_ok_def] this] a Some
        show False by (metis option.distinct(1) snd_conv)
      qed
    qed simp
    then show ?thesis
    proof (rule appendOps_spec[OF assms(2)[unfolded worker_ok_def], of sync "storageId cfg" ops])
      fix s rs
      assume "appendOps (storageId cfg) ops sync (wk_idb w) = (s, None)" "idb_ok s"
        "\<And>e. ops_of e (oplog s) = (if e = storageId cfg then ops_of e (oplog (wk_idb w)) @ ops
          else ops_of e (oplog (wk_idb w)))" "snapshots s = snapshots (wk_idb w)"
      then show ?thesis using a by (simp add: w' log_of_def ls_ops_eq worker_ok_def)
    qed
  qed
  then show "wk_engine w' = wk_engine w" "log_of cfg w' = log_of cfg w @ ops" "worker_ok w'"
    "durable_history cfg snap_ops w' = durable_history cfg snap_ops w \<union> op_ident ` set ops"
    by (auto simp: durable_history_def loadLocalState_def)
qed

text \<open>The effect of an append on the whole database record of the document.\<close>

definition sync_canonical :: "SyncProof option \<Rightarrow> bool" where
  "sync_canonical sync \<longleftrightarrow> (case sync of None \<Rightarrow> True | Some p \<Rightarrow> canonical_dec (sp_cursor p))"

lemma appendOrReset_store:
  assumes ap: "appendOrReset cfg commits ops sync w = (w', b)" and ok: "worker_ok w" and c: "sync_canonical sync"
  shows "if b then log_of cfg w' = log_of cfg w @ ops \<and> snapshots (wk_idb w') = snapshots (wk_idb w)
      \<and> loadSyncCursor (storageId cfg) (wk_idb w') =
          (case sync of None \<Rightarrow> loadSyncCursor (storageId cfg) (wk_idb w)
           | Some p \<Rightarrow> later (loadSyncCursor (storageId cfg) (wk_idb w)) (sp_cursor p))
    else wk_idb w' = wk_idb w"
proof (cases "ops = [] \<and> sync = None")
  case True
  with ap show ?thesis by (auto simp: appendOrReset_def)
next
  case False
  have c': "case sync of None \<Rightarrow> True | Some p \<Rightarrow> canonical_dec (sp_cursor p)"
    using c by (simp add: sync_canonical_def)
  show ?thesis
  proof (rule appendOps_spec[OF ok[unfolded worker_ok_def] c', of "storageId cfg" ops])
    fix s rs
    assume s: "appendOps (storageId cfg) ops sync (wk_idb w) = (s, None)"
      "\<And>e. ops_of e (oplog s) = (if e = storageId cfg then ops_of e (oplog (wk_idb w)) @ ops
        else ops_of e (oplog (wk_idb w)))" "snapshots s = snapshots (wk_idb w)"
      "syncState s = (case sync of None \<Rightarrow> syncState (wk_idb w)
        | Some p \<Rightarrow> (syncState (wk_idb w))(storageId cfg \<mapsto>
            later (loadSyncCursor (storageId cfg) (wk_idb w)) (sp_cursor p)))"
    then show ?thesis
      using ap False
      by (auto simp: appendOrReset_def reset_engine_def log_of_def ls_ops_eq loadSyncCursor_def get_or_def
          split: if_splits option.splits)
  qed
qed

lemma appendOrReset_False:
  assumes "appendOrReset cfg commits ops sync w = (w', False)" and "worker_ok w"
  shows "wk_engine w' = None" "worker_ok w'" "sync = None \<Longrightarrow> wk_idb w' = wk_idb w"
proof -
  show "wk_engine w' = None"
    using assms(1) by (auto simp: appendOrReset_def reset_engine_def split: if_splits prod.splits option.splits)
  show "worker_ok w'"
    using assms appendOps_ok[of "wk_idb w" "storageId cfg" ops sync]
    by (auto simp: appendOrReset_def reset_engine_def worker_ok_def split: if_splits prod.splits option.splits)
  show "sync = None \<Longrightarrow> wk_idb w' = wk_idb w"
    using assms(1) by (auto simp: appendOrReset_def reset_engine_def appendOps_def split: if_splits)
qed

definition worker_inv ::
  "WorkerConfig \<Rightarrow> ('e \<Rightarrow> idents) \<Rightarrow> (bytes \<Rightarrow> idents) \<Rightarrow> 'e Worker \<Rightarrow> bool" where
  "worker_inv cfg held snap_ops w \<longleftrightarrow> worker_ok w \<and> durable cfg held snap_ops w"

lemma worker_inv_append:
  assumes "worker_ok w" and "held e \<subseteq> durable_history cfg snap_ops w \<union> op_ident ` set ops"
    and "appendOrReset cfg commits ops sync (w\<lparr>wk_engine := Some e\<rparr>) = (w', b)"
  shows "worker_inv cfg held snap_ops w'"
proof -
  have ok: "worker_ok (w\<lparr>wk_engine := Some e\<rparr>)" using assms(1) by (simp add: worker_ok_def)
  show ?thesis
  proof (cases b)
    case True
    then have a: "appendOrReset cfg commits ops sync (w\<lparr>wk_engine := Some e\<rparr>) = (w', True)"
      using assms(3) by simp
    have "wk_engine w' = Some e" using appendOrReset_True(1)[OF a ok] by simp
    moreover have "durable_history cfg snap_ops w' = durable_history cfg snap_ops w \<union> op_ident ` set ops"
      using appendOrReset_True(4)[OF a ok] by simp
    ultimately show ?thesis
      using appendOrReset_True(3)[OF a ok] assms(2) by (simp add: worker_inv_def durable_def)
  next
    case False
    then have a: "appendOrReset cfg commits ops sync (w\<lparr>wk_engine := Some e\<rparr>) = (w', False)"
      using assms(3) by simp
    show ?thesis
      using appendOrReset_False(1,2)[OF a ok] by (simp add: worker_inv_def durable_def)
  qed
qed

lemma ensureEngine_inv:
  assumes "engine_laws eng held snap_ops" and "worker_inv cfg held snap_ops w"
    and "ensureEngine eng cfg w = (w', r)"
  shows "worker_inv cfg held snap_ops w'" and "r = Inr e \<Longrightarrow> held e \<subseteq> durable_history cfg snap_ops w'"
  using ensureEngine_durable[OF assms(1) _ assms(3)] assms(2)
  by (auto simp: worker_inv_def worker_ok_def durable_def)

lemma worker_inv_engine:
  "worker_inv cfg held snap_ops w \<Longrightarrow> held e \<subseteq> durable_history cfg snap_ops w
    \<Longrightarrow> worker_inv cfg held snap_ops (w\<lparr>wk_engine := Some e\<rparr>)"
  by (simp add: worker_inv_def durable_def worker_ok_def)

lemma worker_inv_reset: "worker_inv cfg held snap_ops w \<Longrightarrow> worker_inv cfg held snap_ops (reset_engine w)"
  by (simp add: worker_inv_def durable_def worker_ok_def reset_engine_def)

lemma worker_inv_history:
  "worker_inv cfg held snap_ops w \<Longrightarrow> worker_ok w"
  by (simp add: worker_inv_def)

lemma inv_applyRemote:
  assumes laws: "engine_laws eng held snap_ops" and inv: "worker_inv cfg held snap_ops w"
    and h: "handle_applyRemote eng cfg commits ops cursor w = (w', res)" and ok: "res \<noteq> Inl EngineThrew"
  shows "worker_inv cfg held snap_ops w'"
proof -
  obtain w1 r where e: "ensureEngine eng cfg w = (w1, r)" by fastforce
  note w1 = ensureEngine_inv[OF laws inv e]
  show ?thesis
  proof (cases r)
    case (Inl err)
    with h e w1 show ?thesis by (simp add: handle_applyRemote_def)
  next
    case (Inr x)
    obtain x' q where a: "apply_all eng ops x = (x', q)" by fastforce
    show ?thesis
    proof (cases q)
      case None
      with h e a Inr ok show ?thesis by (auto simp: handle_applyRemote_def)
    next
      case (Some dn)
      obtain ds n where dn: "dn = (ds, n)" by fastforce
      let ?sync = "map_option (\<lambda>c. \<lparr>sp_cursor = c, sp_coveredOpIds = covered_op_ids cfg ops\<rparr>) cursor"
      obtain w2 b where ap: "appendOrReset cfg commits ds ?sync (w1\<lparr>wk_engine := Some x'\<rparr>) = (w2, b)"
        by fastforce
      have "held x' \<subseteq> durable_history cfg snap_ops w1 \<union> op_ident ` set ds"
        using apply_all_held[OF laws a[unfolded Some dn]] w1(2)[OF Inr] by auto
      then have "worker_inv cfg held snap_ops w2"
        using worker_inv_append[OF worker_inv_history[OF w1(1)] _ ap] by blast
      moreover have "w' = w2" using h e a Inr Some dn ap by (cases b) (auto simp: handle_applyRemote_def Let_def)
      ultimately show ?thesis by simp
    qed
  qed
qed

lemma inv_log_local:
  assumes laws: "engine_laws eng held snap_ops" and inv: "worker_inv cfg held snap_ops w"
    and gen: "\<And>e e' p. g e = (e', Some p) \<Longrightarrow> held e' = held e \<union> (case p of None \<Rightarrow> {} | Some op \<Rightarrow> {op_ident op})"
    and h: "log_local eng cfg commits g w = (w', res)" and ok: "res \<noteq> Inl EngineThrew"
  shows "worker_inv cfg held snap_ops w'"
proof -
  obtain w1 r where e: "ensureEngine eng cfg w = (w1, r)" by fastforce
  note w1 = ensureEngine_inv[OF laws inv e]
  show ?thesis
  proof (cases r)
    case (Inl err)
    with h e w1 show ?thesis by (simp add: log_local_def)
  next
    case (Inr x)
    obtain x' q where a: "g x = (x', q)" by fastforce
    have hx: "held x \<subseteq> durable_history cfg snap_ops w1" by (rule w1(2)[OF Inr])
    have "q \<noteq> None" using h e Inr a ok by (auto simp: log_local_def split: option.splits)
    then obtain p where q: "q = Some p" by blast
    have held': "held x' = held x \<union> (case p of None \<Rightarrow> {} | Some op \<Rightarrow> {op_ident op})" by (rule gen[OF a[unfolded q]])
    show ?thesis
    proof (cases p)
      case None
      then have "worker_inv cfg held snap_ops (w1\<lparr>wk_engine := Some x'\<rparr>)"
        using worker_inv_engine[OF w1(1)] hx held' by simp
      with None h e a q Inr show ?thesis by (auto simp: log_local_def)
    next
      case (Some op)
      obtain w2 b where ap: "appendOrReset cfg commits [op] None (w1\<lparr>wk_engine := Some x'\<rparr>) = (w2, b)"
        by fastforce
      have "held x' \<subseteq> durable_history cfg snap_ops w1 \<union> op_ident ` set [op]" using hx held' Some by auto
      then have "worker_inv cfg held snap_ops w2"
        using worker_inv_append[OF worker_inv_history[OF w1(1)] _ ap] by blast
      moreover have "w' = w2" using h e a Inr q Some ap by (cases b) (auto simp: log_local_def)
      ultimately show ?thesis by simp
    qed
  qed
qed

lemma reconcile_loop_held:
  assumes "engine_laws eng held snap_ops"
  shows "reconcile_loop eng os e base cur gen = Some (e', gen', base')
    \<Longrightarrow> set gen \<subseteq> set gen' \<and> held e' \<subseteq> held e \<union> op_ident ` set gen'"
proof (induction os arbitrary: e base cur gen)
  case (Cons o' os)
  obtain i where i: "rebase_index base cur o' = Some i"
    using Cons.prems by (auto split: option.splits)
  obtain e1 p where g: "generate_op eng o' i e = (e1, Some p)"
    using Cons.prems i by (auto split: option.splits prod.splits)
  let ?gen = "gen @ (case p of None \<Rightarrow> [] | Some op \<Rightarrow> [op])"
  obtain base1 cur1 where "reconcile_loop eng os e1 base1 cur1 ?gen = Some (e', gen', base')"
    using Cons.prems i g by (auto simp: Let_def split: option.splits if_splits)
  from Cons.IH[OF this] have ih: "set ?gen \<subseteq> set gen'" "held e' \<subseteq> held e1 \<union> op_ident ` set gen'" by auto
  have "held e1 \<subseteq> held e \<union> op_ident ` set ?gen"
    using generate_held[OF assms g] by (cases p) auto
  also have "\<dots> \<subseteq> held e \<union> op_ident ` set gen'" using image_mono [OF ih(1)] by (rule Un_mono [OF subset_refl])
  finally have "held e1 \<subseteq> held e \<union> op_ident ` set gen'" .
  then have "held e' \<subseteq> held e \<union> op_ident ` set gen'" using ih(2) by blast
  moreover have "set gen \<subseteq> set gen'" using ih(1) by simp
  ultimately show ?case by blast
qed simp

lemma inv_reconcile:
  assumes laws: "engine_laws eng held snap_ops" and inv: "worker_inv cfg held snap_ops w"
    and h: "handle_reconcile eng cfg commits ops base w = (w', res)"
  shows "worker_inv cfg held snap_ops w'"
proof -
  obtain w1 r where e: "ensureEngine eng cfg w = (w1, r)" by fastforce
  note w1 = ensureEngine_inv[OF laws inv e]
  show ?thesis
  proof (cases r)
    case (Inl err)
    with h e w1 show ?thesis by (simp add: handle_reconcile_def)
  next
    case (Inr x)
    show ?thesis
    proof (cases "ops = []")
      case True
      with h e Inr w1 show ?thesis by (simp add: handle_reconcile_def)
    next
      case False
      let ?cur = "if base = None then [] else eng_stream eng x"
      show ?thesis
      proof (cases "reconcile_loop eng ops x base ?cur []")
        case None
        with h e Inr False have "w' = reset_engine w1" by (auto simp: handle_reconcile_def Let_def)
        then show ?thesis using worker_inv_reset[OF w1(1)] by simp
      next
        case (Some t)
        obtain x' gen base' where t: "t = (x', gen, base')" by (cases t)
        obtain w2 b where ap: "appendOrReset cfg commits gen None (w1\<lparr>wk_engine := Some x'\<rparr>) = (w2, b)"
          by fastforce
        have "held x' \<subseteq> durable_history cfg snap_ops w1 \<union> op_ident ` set gen"
          using reconcile_loop_held[OF laws Some[unfolded t]] w1(2)[OF Inr] by auto
        then have "worker_inv cfg held snap_ops w2"
          using worker_inv_append[OF worker_inv_history[OF w1(1)] _ ap] by blast
        moreover have "w' = w2"
          using h e Inr False Some t ap by (cases b) (auto simp: handle_reconcile_def Let_def)
        ultimately show ?thesis by simp
      qed
    qed
  qed
qed

lemma inv_seed:
  assumes laws: "engine_laws eng held snap_ops" and inv: "worker_inv cfg held snap_ops w"
    and h: "handle_seed eng cfg commits ops w = (w', res)"
  shows "worker_inv cfg held snap_ops w'"
proof -
  obtain w1 r where e: "ensureEngine eng cfg w = (w1, r)" by fastforce
  note w1 = ensureEngine_inv[OF laws inv e]
  show ?thesis
  proof (cases r)
    case (Inl err)
    with h e w1 show ?thesis by (simp add: handle_seed_def)
  next
    case (Inr x)
    consider "ops = []"
      | "ops \<noteq> []" "w' = reset_engine w1"
      | gen x' ds n where "ops \<noteq> []" "apply_all eng gen x = (x', Some (ds, n))"
        "w' = fst (appendOrReset cfg commits ds None (w1\<lparr>wk_engine := Some x'\<rparr>))"
      using h e Inr
      by (auto simp: handle_seed_def split: if_splits option.splits prod.splits bool.splits)
    then show ?thesis
    proof cases
      case 1
      with h e Inr w1 show ?thesis by (simp add: handle_seed_def)
    next
      case 2
      then show ?thesis using worker_inv_reset[OF w1(1)] by simp
    next
      case 3
      obtain w2 b where ap: "appendOrReset cfg commits ds None (w1\<lparr>wk_engine := Some x'\<rparr>) = (w2, b)"
        by fastforce
      have "held x' \<subseteq> durable_history cfg snap_ops w1 \<union> op_ident ` set ds"
        using apply_all_held[OF laws 3(2)] w1(2)[OF Inr] by auto
      then show ?thesis
        using worker_inv_append[OF worker_inv_history[OF w1(1)] _ ap] 3(3) ap by simp
    qed
  qed
qed

lemma persist_snapshot_inv:
  assumes "worker_ok w" and "held e \<subseteq> op_ident ` set (log_of cfg w) \<union> snap_ops snap"
  shows "worker_inv cfg held snap_ops (persist_snapshot cfg snap now (w\<lparr>wk_engine := Some e\<rparr>))"
  using assms
  by (auto simp: worker_inv_def worker_ok_def persist_snapshot_def saveSnapshot_def idb_ok_def durable_def
      durable_history_def log_of_def loadLocalState_def)

lemma importSnapshot_cases:
  assumes "handle_importSnapshot eng cfg commits now snap pre w = (w', res)"
    and "ensureEngine eng cfg w = (w1, r)"
  obtains "w' = w1"
    | x y where "eng_import eng (wc_replicaId cfg) snap = Some x"
      "y = x \<or> y = fst (replayAndRestoreAllocation eng cfg (ls_ops (loadLocalState (storageId cfg) (wk_idb w1))) x)"
      "w' = persist_snapshot cfg snap now (w1\<lparr>wk_engine := Some y\<rparr>)"
proof (cases r)
  case (Inl e)
  then show ?thesis using assms that(1) by (simp add: handle_importSnapshot_def)
next
  case (Inr e)
  show ?thesis
  proof (cases "eng_import eng (wc_replicaId cfg) snap")
    case None
    then show ?thesis using assms Inr that(1) by (simp add: handle_importSnapshot_def)
  next
    case (Some x)
    obtain y b where y: "(if pre then replayAndRestoreAllocation eng cfg
        (ls_ops (loadLocalState (storageId cfg) (wk_idb w1))) x else (x, True)) = (y, b)" by fastforce
    have "y = x \<or> y = fst (replayAndRestoreAllocation eng cfg (ls_ops (loadLocalState (storageId cfg) (wk_idb w1))) x)"
      using y by (cases pre) auto
    moreover have "w' = w1 \<or> w' = persist_snapshot cfg snap now (w1\<lparr>wk_engine := Some y\<rparr>)"
      using assms Inr Some y by (auto simp: handle_importSnapshot_def split: if_splits bool.splits)
    ultimately show ?thesis using that Some by blast
  qed
qed

lemma inv_snapshots:
  assumes laws: "engine_laws eng held snap_ops" and inv: "worker_inv cfg held snap_ops w"
  shows "handle_loadSnapshot eng cfg commits now snap w = (w', res) \<Longrightarrow> worker_inv cfg held snap_ops w'"
    and "handle_importSnapshot eng cfg commits now snap pre w = (w', res) \<Longrightarrow> worker_inv cfg held snap_ops w'"
    and "handle eng cfg commits now ExportSnapshot w = (w', res) \<Longrightarrow> worker_inv cfg held snap_ops w'"
proof -
  obtain w1 r where e: "ensureEngine eng cfg w = (w1, r)" by fastforce
  note w1 = ensureEngine_inv[OF laws inv e]
  have imp: "held x = snap_ops s" if "eng_import eng n s = Some x" for n s x
    using laws that by (simp add: engine_laws_def)
  have ok: "worker_ok w1" by (rule worker_inv_history[OF w1(1)])
  show "worker_inv cfg held snap_ops w'" if h: "handle_loadSnapshot eng cfg commits now snap w = (w', res)"
  proof -
    consider "w' = w1"
      | x where "eng_import eng (wc_replicaId cfg) snap = Some x"
        "w' = persist_snapshot cfg snap now (w1\<lparr>wk_engine := Some x\<rparr>)"
      using h e by (auto simp: handle_loadSnapshot_def split: sum.splits option.splits if_splits)
    then show ?thesis
      using w1(1) imp persist_snapshot_inv[OF ok, of held _ cfg snap_ops snap now] by cases auto
  qed
  show "worker_inv cfg held snap_ops w'" if h: "handle_importSnapshot eng cfg commits now snap pre w = (w', res)"
  proof -
    let ?log = "ls_ops (loadLocalState (storageId cfg) (wk_idb w1))"
    consider "w' = w1"
      | x y where "eng_import eng (wc_replicaId cfg) snap = Some x"
        "y = x \<or> y = fst (replayAndRestoreAllocation eng cfg ?log x)"
        "w' = persist_snapshot cfg snap now (w1\<lparr>wk_engine := Some y\<rparr>)"
      by (rule importSnapshot_cases[OF h e])
    then show ?thesis
    proof cases
      case 1
      then show ?thesis using w1(1) by simp
    next
      case 2
      have "held y \<subseteq> op_ident ` set (log_of cfg w1) \<union> snap_ops snap"
        using 2(2) imp[OF 2(1)] replayAndRestore_held(1)[OF laws, of cfg ?log x] by (auto simp: log_of_def)
      then show ?thesis using persist_snapshot_inv[OF ok, of held y cfg snap_ops snap now] 2(3) by simp
    qed
  qed
  show "worker_inv cfg held snap_ops w'" if h: "handle eng cfg commits now ExportSnapshot w = (w', res)"
  proof -
    consider "w' = w1"
      | x where "r = Inr x" "w' = persist_snapshot cfg (eng_exportSnapshot eng x) now w1"
      using h e by (auto split: sum.splits if_splits)
    then show ?thesis
    proof cases
      case 1
      then show ?thesis using w1(1) by simp
    next
      case 2
      have "wk_engine w1 = Some x"
        using ensureEngine_durable(3)[OF laws _ e 2(1)] inv by (simp add: worker_inv_def)
      then have "w1\<lparr>wk_engine := Some x\<rparr> = w1" by simp
      moreover have "snap_ops (eng_exportSnapshot eng x) = held x" using laws by (simp add: engine_laws_def)
      ultimately show ?thesis
        using persist_snapshot_inv[OF ok, of held x cfg snap_ops "eng_exportSnapshot eng x" now] 2(2) by simp
    qed
  qed
qed

lemma inv_query:
  assumes "engine_laws eng held snap_ops" and "worker_inv cfg held snap_ops w"
    and "query eng cfg f w = (w', res)"
  shows "worker_inv cfg held snap_ops w'"
proof -
  obtain w1 r where e: "ensureEngine eng cfg w = (w1, r)" by fastforce
  have "w' = w1" using assms(3) e by (auto simp: query_def split: sum.splits)
  then show ?thesis using ensureEngine_inv(1)[OF assms(1,2) e] by simp
qed

lemma inv_localOpsSince:
  assumes "engine_laws eng held snap_ops" and "worker_inv cfg held snap_ops w"
    and "handle_localOpsSince eng cfg counter w = (w', res)"
  shows "worker_inv cfg held snap_ops w'"
proof -
  obtain w1 r where e: "ensureEngine eng cfg w = (w1, r)" by fastforce
  have "w' = w1"
    using assms(3) e by (auto simp: handle_localOpsSince_def split: sum.splits option.splits prod.splits)
  then show ?thesis using ensureEngine_inv(1)[OF assms(1,2) e] by simp
qed

lemma generators:
  assumes "engine_laws eng held snap_ops"
  shows "must (eng_insertText eng i cp e) = (e', Some p)
      \<Longrightarrow> held e' = held e \<union> (case p of None \<Rightarrow> {} | Some op \<Rightarrow> {op_ident op})"
    and "must (eng_insertDelimiter eng i ty e) = (e', Some p)
      \<Longrightarrow> held e' = held e \<union> (case p of None \<Rightarrow> {} | Some op \<Rightarrow> {op_ident op})"
    and "eng_delete eng i e = (e', Some p) \<Longrightarrow> held e' = held e \<union> (case p of None \<Rightarrow> {} | Some op \<Rightarrow> {op_ident op})"
    and "must (eng_setAttr eng i n v e) = (e', Some p)
      \<Longrightarrow> held e' = held e \<union> (case p of None \<Rightarrow> {} | Some op \<Rightarrow> {op_ident op})"
proof -
  let ?o = "\<lambda>k. \<lparr>so_kind = k, so_streamIndex = i, so_codepoint = Some cp, so_blockType = Some ty,
    so_name = Some n, so_value = v\<rparr>"
  show "must (eng_insertText eng i cp e) = (e', Some p)
      \<Longrightarrow> held e' = held e \<union> (case p of None \<Rightarrow> {} | Some op \<Rightarrow> {op_ident op})"
    by (rule generate_held[OF assms, of "?o InsertText" i]) (simp add: generate_op_def get_or_def)
  show "must (eng_insertDelimiter eng i ty e) = (e', Some p)
      \<Longrightarrow> held e' = held e \<union> (case p of None \<Rightarrow> {} | Some op \<Rightarrow> {op_ident op})"
    by (rule generate_held[OF assms, of "?o InsertDelimiter" i]) (simp add: generate_op_def get_or_def)
  show "eng_delete eng i e = (e', Some p) \<Longrightarrow> held e' = held e \<union> (case p of None \<Rightarrow> {} | Some op \<Rightarrow> {op_ident op})"
    by (rule generate_held[OF assms, of "?o Delete" i]) (simp add: generate_op_def get_or_def)
  show "must (eng_setAttr eng i n v e) = (e', Some p)
      \<Longrightarrow> held e' = held e \<union> (case p of None \<Rightarrow> {} | Some op \<Rightarrow> {op_ident op})"
    by (rule generate_held[OF assms, of "?o SetAttr" i]) (simp add: generate_op_def get_or_def)
qed

text \<open>
  A request is benign unless it is an \<open>applyRemote\<close> or a single local edit that the engine threw out of: what it
  took in before is then in the engine but not in the log.
\<close>

fun single_edit :: "WorkerRequest \<Rightarrow> bool" where
  "single_edit (ApplyRemote ops cursor) = True"
| "single_edit (LocalInsertText i cp) = True"
| "single_edit (LocalInsertDelimiter i ty) = True"
| "single_edit (LocalDelete i) = True"
| "single_edit (LocalSetAttr i n v) = True"
| "single_edit _ = False"

definition benign :: "WorkerRequest \<Rightarrow> crdt_error + WorkerResult \<Rightarrow> bool" where
  "benign req res \<longleftrightarrow> single_edit req \<longrightarrow> res \<noteq> Inl EngineThrew"

lemma handle_inv:
  assumes laws: "engine_laws eng held snap_ops" and inv: "worker_inv cfg held snap_ops w"
    and h: "handle eng cfg commits now req w = (w', res)"
    and ok: "benign req res"
  shows "worker_inv cfg held snap_ops w'"
proof (cases req)
  case (PersistSyncCursor cursor)
  have "worker_inv cfg held snap_ops (w\<lparr>wk_idb := idb\<rparr>)"
    if s: "saveSyncCursor (storageId cfg) cursor (wk_idb w) = (idb, None)" for idb
  proof -
    have "canonical_dec cursor"
      using s by (auto simp: saveSyncCursor_def maxCursor_def split: if_splits)
    moreover have "idb_ok (wk_idb w)" using inv by (simp add: worker_inv_def worker_ok_def)
    ultimately have "idb_ok idb" "snapshots idb = snapshots (wk_idb w)" "oplog idb = oplog (wk_idb w)"
      using s saveSyncCursor_spec(1,2)[of "wk_idb w" cursor "storageId cfg"] by auto
    moreover have "log_of cfg (w\<lparr>wk_idb := idb\<rparr>) = log_of cfg w"
      using calculation by (simp add: log_of_def loadLocalState_def)
    moreover have "durable_history cfg snap_ops (w\<lparr>wk_idb := idb\<rparr>) = durable_history cfg snap_ops w"
      using calculation by (simp add: durable_history_def loadLocalState_def)
    ultimately show ?thesis
      using inv by (simp add: worker_inv_def worker_ok_def durable_def split: option.splits)
  qed
  with PersistSyncCursor h inv show ?thesis by (auto split: if_splits prod.splits option.splits)
qed (use h ok inv inv_applyRemote[OF laws inv] inv_snapshots[OF laws inv] inv_query[OF laws inv]
      inv_localOpsSince[OF laws inv] inv_seed[OF laws inv] inv_reconcile[OF laws inv]
      inv_log_local[OF laws inv generators(1)[OF laws]] inv_log_local[OF laws inv generators(2)[OF laws]]
      inv_log_local[OF laws inv generators(3)[OF laws]] inv_log_local[OF laws inv generators(4)[OF laws]]
    in \<open>auto simp: benign_def split: if_splits\<close>)

section \<open>Crash and reload\<close>

type_synonym worker_event = "bool \<times> nat \<times> WorkerRequest"

fun worker_run ::
  "('e, 'x) EnginePort_scheme \<Rightarrow> WorkerConfig \<Rightarrow> worker_event list \<Rightarrow> 'e Worker
    \<Rightarrow> 'e Worker \<times> (crdt_error + WorkerResult) list" where
  "worker_run eng cfg [] w = (w, [])"
| "worker_run eng cfg ((commits, now, req) # evs) w =
     (case handle eng cfg commits now req w of
        (w', res) \<Rightarrow> (case worker_run eng cfg evs w' of (w'', rs) \<Rightarrow> (w'', res # rs)))"

definition fresh_worker :: "IdbState \<Rightarrow> 'e Worker" where
  "fresh_worker idb = \<lparr>wk_engine = None, wk_starting = None, wk_idb = idb\<rparr>"

lemma worker_run_inv:
  assumes laws: "engine_laws eng held snap_ops"
  shows "worker_inv cfg held snap_ops w \<Longrightarrow> worker_run eng cfg evs w = (w', rs)
    \<Longrightarrow> list_all2 (\<lambda>(c, n, req) res. benign req res) evs rs \<Longrightarrow> worker_inv cfg held snap_ops w'"
proof (induction evs arbitrary: w rs)
  case (Cons ev evs)
  obtain c n req where ev: "ev = (c, n, req)" by (cases ev)
  obtain w1 res where h: "handle eng cfg c n req w = (w1, res)" by fastforce
  obtain w2 rs' where r: "worker_run eng cfg evs w1 = (w2, rs')" by fastforce
  have rs: "rs = res # rs'" "w' = w2" using Cons.prems(2) by (simp_all add: ev h r)
  have b: "benign req res" and bs: "list_all2 (\<lambda>(c, n, req) res. benign req res) evs rs'"
    using Cons.prems(3) by (simp_all add: ev rs)
  show ?case
    using Cons.IH[OF handle_inv[OF laws Cons.prems(1) h b] _ bs] r rs(2) by simp
qed simp

lemma fresh_inv: "idb_ok idb \<Longrightarrow> worker_inv cfg held snap_ops (fresh_worker idb)"
  by (simp add: worker_inv_def worker_ok_def durable_def fresh_worker_def)

text \<open>The engine does not take back what was saved: an import fails, or the replay of the log throws.\<close>

definition saved_refused :: "('e, 'x) EnginePort_scheme \<Rightarrow> WorkerConfig \<Rightarrow> IdbState \<Rightarrow> bool" where
  "saved_refused eng cfg idb \<longleftrightarrow>
     (let st = loadLocalState (storageId cfg) idb
      in case (case ls_snapshot st of Some snap \<Rightarrow> eng_import eng (wc_replicaId cfg) snap
              | None \<Rightarrow> Some (eng_create eng (wc_replicaId cfg))) of
           None \<Rightarrow> True
         | Some e \<Rightarrow> \<not> snd (replayAndRestoreAllocation eng cfg (ls_ops st) e))"

lemma reload_holds_history:
  assumes laws: "engine_laws eng held snap_ops"
    and h: "ensureEngine eng cfg (fresh_worker (wk_idb w)) = (w', r)"
  shows "wk_idb w' = wk_idb w"
    "case r of Inl err \<Rightarrow> saved_refused eng cfg (wk_idb w) | Inr e' \<Rightarrow> held e' = durable_history cfg snap_ops w"
proof -
  let ?st = "loadLocalState (storageId cfg) (wk_idb w)"
  let ?base = "case ls_snapshot ?st of Some snap \<Rightarrow> eng_import eng (wc_replicaId cfg) snap
                  | None \<Rightarrow> Some (eng_create eng (wc_replicaId cfg))"
  have "wk_idb w' = wk_idb w \<and>
      (case r of Inl err \<Rightarrow> saved_refused eng cfg (wk_idb w) | Inr e' \<Rightarrow> held e' = durable_history cfg snap_ops w)"
  proof (cases ?base)
    case None
    then show ?thesis using h
      by (auto simp: ensureEngine_def restore_def fresh_worker_def Let_def saved_refused_def split: option.splits if_splits)
  next
    case (Some e)
    have he: "held e = (case ls_snapshot ?st of None \<Rightarrow> {} | Some s \<Rightarrow> snap_ops s)"
      using Some laws by (cases "ls_snapshot ?st") (auto simp: engine_laws_def)
    obtain e2 b where p: "replayAndRestoreAllocation eng cfg (ls_ops ?st) e = (e2, b)" by fastforce
    show ?thesis
    proof (cases b)
      case True
      then have "held e2 = durable_history cfg snap_ops w"
        using replayAndRestore_held(2)[OF laws, of cfg "ls_ops ?st" e e2] p he by (auto simp: durable_history_def log_of_def)
      then show ?thesis using h Some p True
        by (auto simp: ensureEngine_def restore_def fresh_worker_def Let_def split: option.splits if_splits)
    next
      case False
      then have "saved_refused eng cfg (wk_idb w)" using Some p by (simp add: saved_refused_def Let_def)
      then show ?thesis using h Some p False
        by (auto simp: ensureEngine_def restore_def fresh_worker_def Let_def split: option.splits if_splits)
    qed
  qed
  then show "wk_idb w' = wk_idb w"
    "case r of Inl err \<Rightarrow> saved_refused eng cfg (wk_idb w) | Inr e' \<Rightarrow> held e' = durable_history cfg snap_ops w" by blast+
qed

section \<open>Own operations\<close>

lemma replay_ops_max:
  "replay_ops eng me own lam ops e = (e', Some (own', lam')) \<Longrightarrow>
    own \<le> own' \<and> lam \<le> lam' \<and> (\<forall>op \<in> set ops. \<forall>i. readOpIdentity op = Some i \<longrightarrow>
      oi_lamport i \<le> lam' \<and> (oi_replicaId i = me \<longrightarrow> oi_counter i \<le> own'))"
proof (induction ops arbitrary: own lam e)
  case (Cons op ops)
  obtain e1 r where a: "eng_applyRemote eng op e = (e1, r)" by fastforce
  have r: "r \<noteq> Threw" using Cons.prems a by auto
  show ?case
  proof (cases "readOpIdentity op")
    case None
    with Cons.prems a r have "replay_ops eng me own lam ops e1 = (e', Some (own', lam'))"
      by (cases r) auto
    with Cons.IH None show ?thesis by fastforce
  next
    case (Some i)
    let ?o = "if oi_replicaId i = me \<and> own < oi_counter i then oi_counter i else own"
    let ?l = "if lam < oi_lamport i then oi_lamport i else lam"
    have "replay_ops eng me ?o ?l ops e1 = (e', Some (own', lam'))"
      using Cons.prems a r Some by (cases r) auto
    from Cons.IH[OF this] have "?o \<le> own'" "?l \<le> lam'"
      "\<forall>op \<in> set ops. \<forall>i. readOpIdentity op = Some i \<longrightarrow>
        oi_lamport i \<le> lam' \<and> (oi_replicaId i = me \<longrightarrow> oi_counter i \<le> own')" by blast+
    moreover from this have "own \<le> own'" "lam \<le> lam'" "oi_lamport i \<le> lam'"
      "oi_replicaId i = me \<longrightarrow> oi_counter i \<le> own'" by (auto split: if_splits)
    ultimately show ?thesis using Some by auto
  qed
qed simp

definition own_after :: "nat \<Rightarrow> int \<Rightarrow> bytes \<Rightarrow> bool" where
  "own_after me since op \<longleftrightarrow>
     (case readOpIdentity op of None \<Rightarrow> False | Some i \<Rightarrow> oi_replicaId i = me \<and> since < int (oi_counter i))"

definition last_counter :: "int \<Rightarrow> bytes list \<Rightarrow> int" where
  "last_counter since ops =
     (if ops = [] then since
      else case readOpIdentity (last ops) of None \<Rightarrow> since | Some i \<Rightarrow> int (oi_counter i))"

lemma own_after_cases:
  "readOpIdentity op = None \<Longrightarrow> \<not> own_after me since op"
  "readOpIdentity op = Some i \<Longrightarrow> own_after me since op \<longleftrightarrow> oi_replicaId i = me \<and> since < int (oi_counter i)"
  by (simp_all add: own_after_def)

lemma own_since_eq:
  "own_since me since ops nxt = (filter (own_after me since) ops, last_counter nxt (filter (own_after me since) ops))"
proof (induction ops arbitrary: nxt)
  case (Cons op ops)
  show ?case
  proof (cases "readOpIdentity op")
    case None
    then show ?thesis using Cons.IH by (simp add: own_after_cases)
  next
    case (Some i)
    have "\<exists>i. readOpIdentity x = Some i" if "x \<in> set (filter (own_after me since) ops)" for x
      using that by (auto simp: own_after_def split: option.splits)
    then have "last_counter (int (oi_counter i)) (filter (own_after me since) ops)
        = last_counter nxt (op # filter (own_after me since) ops)"
      using Some last_in_set[of "filter (own_after me since) ops"]
      by (cases "filter (own_after me since) ops = []") (fastforce simp: last_counter_def)+
    then show ?thesis using Some Cons.IH by (simp add: own_after_cases)
  qed
qed (simp add: last_counter_def)

lemma ensureEngine_idb: "wk_idb (fst (ensureEngine eng cfg w)) = wk_idb w"
  by (auto simp: ensureEngine_def restore_def Let_def split: option.splits prod.splits)

section \<open>Local operations are logged before they are answered\<close>

fun local_request :: "WorkerRequest \<Rightarrow> bool" where
  "local_request (LocalInsertText i cp) = True"
| "local_request (LocalInsertDelimiter i ty) = True"
| "local_request (LocalDelete i) = True"
| "local_request (LocalSetAttr i n v) = True"
| "local_request (Reconcile ops base) = True"
| "local_request _ = False"

definition logged_answer :: "WorkerConfig \<Rightarrow> 'e Worker \<Rightarrow> 'e Worker \<Rightarrow> crdt_error + WorkerResult \<Rightarrow> bool" where
  "logged_answer cfg w w' res \<longleftrightarrow>
     (case res of
        Inl err \<Rightarrow> wk_idb w' = wk_idb w
      | Inr (RLocalOps ops n base) \<Rightarrow>
          log_of cfg w' = log_of cfg w @ ops \<and> snapshots (wk_idb w') = snapshots (wk_idb w)
          \<and> loadSyncCursor (storageId cfg) (wk_idb w') = loadSyncCursor (storageId cfg) (wk_idb w)
      | Inr _ \<Rightarrow> False)"

lemma log_of_same: "wk_idb w' = wk_idb w \<Longrightarrow> log_of cfg w' = log_of cfg w"
  by (simp add: log_of_def)

lemma appendOrReset_logged:
  assumes "worker_ok w" and "wk_idb w1 = wk_idb w"
    and ap: "appendOrReset cfg commits ops None (w1\<lparr>wk_engine := Some e\<rparr>) = (w', b)"
  shows "if b then log_of cfg w' = log_of cfg w @ ops \<and> snapshots (wk_idb w') = snapshots (wk_idb w)
      \<and> loadSyncCursor (storageId cfg) (wk_idb w') = loadSyncCursor (storageId cfg) (wk_idb w)
    else wk_idb w' = wk_idb w"
proof -
  have ok: "worker_ok (w1\<lparr>wk_engine := Some e\<rparr>)" using assms(1,2) by (simp add: worker_ok_def)
  show ?thesis
    using appendOrReset_store[OF ap ok] assms(2) log_of_same[of "w1\<lparr>wk_engine := Some e\<rparr>" w cfg]
    by (auto simp: sync_canonical_def split: if_splits)
qed

lemma log_local_logged:
  assumes ok: "worker_ok w" and h: "log_local eng cfg commits g w = (w', res)"
  shows "logged_answer cfg w w' res"
proof -
  obtain w1 r where e: "ensureEngine eng cfg w = (w1, r)" by fastforce
  have idb: "wk_idb w1 = wk_idb w" using ensureEngine_idb[of eng cfg w] e by simp
  show ?thesis
  proof (cases r)
    case (Inl err)
    with h e idb show ?thesis by (auto simp: log_local_def logged_answer_def)
  next
    case (Inr x)
    obtain x' q where a: "g x = (x', q)" by fastforce
    show ?thesis
    proof (cases "\<exists>op. q = Some (Some op)")
      case True
      then obtain op where q: "q = Some (Some op)" by blast
      obtain w2 b where ap: "appendOrReset cfg commits [op] None (w1\<lparr>wk_engine := Some x'\<rparr>) = (w2, b)"
        by fastforce
      show ?thesis
        using appendOrReset_logged[OF ok idb ap] h e a Inr q ap
        by (cases b) (auto simp: log_local_def logged_answer_def)
    next
      case False
      then have "q = None \<or> q = Some None" by (cases q) (metis option.exhaust)+
      with h e a Inr idb show ?thesis
        by (auto simp: log_local_def logged_answer_def log_of_def)
    qed
  qed
qed

lemma reconcile_logged:
  assumes ok: "worker_ok w" and h: "handle_reconcile eng cfg commits ops base w = (w', res)"
  shows "logged_answer cfg w w' res"
proof -
  obtain w1 r where e: "ensureEngine eng cfg w = (w1, r)" by fastforce
  have idb: "wk_idb w1 = wk_idb w" using ensureEngine_idb[of eng cfg w] e by simp
  show ?thesis
  proof (cases r)
    case (Inl err)
    with h e idb show ?thesis by (auto simp: handle_reconcile_def logged_answer_def)
  next
    case (Inr x)
    show ?thesis
    proof (cases "ops = []")
      case True
      with h e Inr idb show ?thesis
        by (auto simp: handle_reconcile_def logged_answer_def log_of_def)
    next
      case False
      let ?cur = "if base = None then [] else eng_stream eng x"
      show ?thesis
      proof (cases "reconcile_loop eng ops x base ?cur []")
        case None
        with h e Inr False have "w' = reset_engine w1" "res = Inl EngineThrew"
          by (auto simp: handle_reconcile_def Let_def)
        then show ?thesis using idb by (simp add: logged_answer_def reset_engine_def)
      next
        case (Some t)
        obtain x' gen base' where t: "t = (x', gen, base')" by (cases t)
        obtain w2 b where ap: "appendOrReset cfg commits gen None (w1\<lparr>wk_engine := Some x'\<rparr>) = (w2, b)"
          by fastforce
        show ?thesis
          using appendOrReset_logged[OF ok idb ap] h e Inr False Some t ap
          by (cases b) (auto simp: handle_reconcile_def Let_def logged_answer_def)
      qed
    qed
  qed
qed

section \<open>A small engine\<close>

text \<open>
  An engine whose state is its own snapshot: the held operations, each written byte by byte after
  a 1 and closed by a 0. It satisfies the laws, so the hypotheses of the properties can hold.
\<close>

fun pack_op :: "bytes \<Rightarrow> bytes" where
  "pack_op [] = [0]"
| "pack_op (b # bs) = 1 # b # pack_op bs"

fun unpack :: "bytes \<Rightarrow> bytes \<Rightarrow> bytes list" where
  "unpack acc [] = []"
| "unpack acc [x] = (if x = 0 then [rev acc] else [])"
| "unpack acc (x # b # r) = (if x = 0 then rev acc # unpack [] (b # r) else unpack (b # acc) r)"

definition pack_engine :: "bytes EnginePort" where
  "pack_engine =
     \<lparr>eng_create = (\<lambda>r. []), eng_import = (\<lambda>r snap. Some snap),
      eng_applyRemote = (\<lambda>op e. if op \<in> set (unpack [] e) then (e, Duplicate) else (pack_op op @ e, Applied)),
      eng_restoreAllocation = (\<lambda>c l e. e),
      eng_insertText = (\<lambda>i cp e. (pack_op [word_of_nat cp] @ e, Some [word_of_nat cp])),
      eng_insertDelimiter = (\<lambda>i ty e. (pack_op [10] @ e, Some [10])),
      eng_delete = (\<lambda>i e. (e, Some None)),
      eng_setAttr = (\<lambda>i n v e. (e, None)),
      eng_stream = (\<lambda>e. []), eng_streamSize = (\<lambda>e. length (unpack [] e)),
      eng_visible = (\<lambda>e. []), eng_digest = (\<lambda>e. []), eng_exportSnapshot = (\<lambda>e. e)\<rparr>"

lemma unpack_Nil_Cons: "unpack acc (0 # e) = rev acc # unpack [] e"
  by (cases e) auto

lemma unpack_pack: "unpack acc (pack_op op @ e) = (rev acc @ op) # unpack [] e"
  by (induction op arbitrary: acc) (simp_all add: unpack_Nil_Cons)

definition packed :: "bytes \<Rightarrow> idents" where
  "packed e = op_ident ` set (unpack [] e)"

lemma packed_simps:
  "packed [] = {}" "packed (pack_op op @ e) = insert (op_ident op) (packed e)"
  "op \<in> set (unpack [] e) \<Longrightarrow> op_ident op \<in> packed e"
  by (simp_all add: packed_def unpack_pack)

lemma pack_fields:
  "eng_create pack_engine r = []" "eng_import pack_engine r snap = Some snap" "eng_exportSnapshot pack_engine e = e"
  "eng_applyRemote pack_engine op e = (if op \<in> set (unpack [] e) then (e, Duplicate) else (pack_op op @ e, Applied))"
  "eng_restoreAllocation pack_engine c l e = e"
  by (simp_all add: pack_engine_def)

lemma pack_engine_laws: "engine_laws pack_engine packed packed"
proof -
  have g: "case generate_op pack_engine o' i e of
      (e', Some (Some op)) \<Rightarrow> packed e' = insert (op_ident op) (packed e)
    | (e', Some None) \<Rightarrow> packed e' = packed e | (e', None) \<Rightarrow> True" for o' i e
    by (cases "so_kind o'") (simp_all add: generate_op_def must_def pack_engine_def packed_def unpack_pack
        del: pack_op.simps)
  show ?thesis
    unfolding engine_laws_def using g by (simp add: pack_fields packed_simps)
qed

text \<open>The same with frames of the length of a header, of replica 7, whose counter is the code point.\<close>

definition op_frame :: "nat \<Rightarrow> bytes" where
  "op_frame cp = [1, 1] @ (7 # replicate 7 0) @ (word_of_nat cp # replicate 7 0) @ (word_of_nat cp # replicate 7 0)"

definition frame_engine :: "bytes EnginePort" where
  "frame_engine = pack_engine\<lparr>eng_insertText := (\<lambda>i cp e. (pack_op (op_frame cp) @ e, Some (op_frame cp)))\<rparr>"

lemma frame_fields:
  "eng_create frame_engine = eng_create pack_engine" "eng_import frame_engine = eng_import pack_engine"
  "eng_exportSnapshot frame_engine = eng_exportSnapshot pack_engine"
  "eng_applyRemote frame_engine = eng_applyRemote pack_engine"
  "eng_restoreAllocation frame_engine = eng_restoreAllocation pack_engine"
  by (simp_all add: frame_engine_def)

lemma frame_engine_laws: "engine_laws frame_engine packed packed"
proof -
  have g: "case generate_op frame_engine o' i e of
      (e', Some (Some op)) \<Rightarrow> packed e' = insert (op_ident op) (packed e)
    | (e', Some None) \<Rightarrow> packed e' = packed e | (e', None) \<Rightarrow> True" for o' i e
    by (cases "so_kind o'") (simp_all add: generate_op_def must_def frame_engine_def pack_engine_def packed_def unpack_pack
        del: pack_op.simps)
  show ?thesis
    unfolding engine_laws_def using g by (simp add: frame_fields pack_fields packed_simps)
qed

lemma never_throws_accepts:
  assumes "\<And>op e. snd (eng_applyRemote eng op e) \<noteq> Threw"
  shows "snd (replayAndRestoreAllocation eng cfg ops e)"
proof -
  have r: "snd (replay_ops eng me own lam ops e) \<noteq> None" for me own lam
  proof (induction ops arbitrary: own lam e)
    case (Cons op ops)
    obtain e1 r where "eng_applyRemote eng op e = (e1, r)" by fastforce
    then show ?case using Cons.IH assms [of op e] by (cases r) (simp_all split: option.split)
  qed simp
  obtain x q where "replay_ops eng (wc_replicaId cfg) 0 0 ops e = (x, q)" by fastforce
  then show ?thesis using r [of "wc_replicaId cfg" 0 0] by (cases q) (auto simp: replayAndRestoreAllocation_def)
qed

section \<open>Properties\<close>

text \<open>
  C3: a crash loses nothing the engine held. Start from any consistent database, run any requests, some of whose
  transactions fail, as long as no \<open>applyRemote\<close> and no single local edit was answered with an exception of the engine.
  If the engine is then lost, every operation it held, by its identity, is in the saved log or the saved snapshot, and a
  fresh worker over the same database leaves them there and restores an engine that holds every one of them, or the
  engine refuses what was saved: the import fails or the replay of the log throws.
\<close>

theorem crash_recovers:
  assumes laws: "engine_laws eng held snap_ops"
    and "idb_ok idb" and run: "worker_run eng cfg evs (fresh_worker idb) = (w, rs)"
    and ben: "list_all2 (\<lambda>(c, n, req) res. benign req res) evs rs"
    and e: "wk_engine w = Some e" and restart: "ensureEngine eng cfg (fresh_worker (wk_idb w)) = (w', r)"
  shows "wk_idb w' = wk_idb w \<and> held e \<subseteq> durable_history cfg snap_ops w
    \<and> (case r of Inr e' \<Rightarrow> held e \<subseteq> held e' | Inl err \<Rightarrow> saved_refused eng cfg (wk_idb w))"
proof -
  have "worker_inv cfg held snap_ops w"
    by (rule worker_run_inv[OF laws fresh_inv[OF assms(2)] run ben])
  then have "held e \<subseteq> durable_history cfg snap_ops w"
    using e by (simp add: worker_inv_def durable_def)
  then show ?thesis using reload_holds_history[OF laws restart] by (auto split: sum.splits)
qed

text \<open>
  After a replay that throws only the first request is rejected: the engine was assigned before the replay, so the next
  request works on a part of the history, with an allocation that was not restored.
\<close>

lemma partial_restore:
  assumes "ensureEngine eng cfg (fresh_worker idb) = (w', Inl err)"
    and "ls_snapshot (loadLocalState (storageId cfg) idb) = None"
  shows "ensureEngine eng cfg w'
    = (w', Inr (fst (replayAndRestoreAllocation eng cfg (ls_ops (loadLocalState (storageId cfg) idb)) (eng_create eng (wc_replicaId cfg)))))"
  using assms by (auto simp: ensureEngine_def restore_def fresh_worker_def Let_def split: prod.splits if_splits)

definition sample_cfg :: WorkerConfig where
  "sample_cfg = \<lparr>wc_documentId = ''d'', wc_storageId = None, wc_replicaId = 7\<rparr>"

lemma append_single: "appendOps d [op] None st = (st\<lparr>oplog := append_one d (oplog st) op\<rparr>, None)"
  by (simp add: appendOps_def)

lemma sample_insert:
  "handle pack_engine sample_cfg True 0 (LocalInsertText 0 65) (fresh_worker empty_idb) =
    (\<lparr>wk_engine = Some [1, 65, 0], wk_starting = None,
      wk_idb = fst (appendOps ''d'' [[65]] None empty_idb)\<rparr>, Inr (RLocalOps [[65]] 1 None))"
  by (subst handle.simps)
    (simp add: sample_cfg_def pack_engine_def fresh_worker_def empty_idb_def log_local_def
      ensureEngine_def restore_def storageId_def get_or_def loadLocalState_def rows_of_def
      replayAndRestoreAllocation_def must_def appendOrReset_def append_single)

definition frame_events :: "worker_event list" where
  "frame_events = [(True, 0, LocalInsertText 0 65), (True, 0, ApplyRemote [op_frame 66, op_frame 65] None)]"

definition frame_idb :: IdbState where
  "frame_idb = fst (appendOps ''d'' [op_frame 66] None (fst (appendOps ''d'' [op_frame 65] None empty_idb)))"

definition frame_state :: bytes where
  "frame_state = pack_op (op_frame 66) @ pack_op (op_frame 65)"

lemma frame_insert:
  "handle frame_engine sample_cfg True 0 (LocalInsertText 0 65) (fresh_worker empty_idb) =
    (\<lparr>wk_engine = Some (pack_op (op_frame 65)), wk_starting = None,
      wk_idb = fst (appendOps ''d'' [op_frame 65] None empty_idb)\<rparr>, Inr (RLocalOps [op_frame 65] 1 None))"
  by (subst handle.simps)
    (simp add: sample_cfg_def frame_engine_def pack_engine_def fresh_worker_def empty_idb_def log_local_def
      ensureEngine_def restore_def storageId_def get_or_def loadLocalState_def rows_of_def
      replayAndRestoreAllocation_def must_def appendOrReset_def append_single unpack_pack [of "[]" _ "[]", simplified]
      del: pack_op.simps)

lemma frame_run:
  "worker_run frame_engine sample_cfg frame_events (fresh_worker empty_idb) =
    (\<lparr>wk_engine = Some frame_state, wk_starting = None, wk_idb = frame_idb\<rparr>,
     [Inr (RLocalOps [op_frame 65] 1 None), Inr (RApplyRemote 1 1 [op_frame 66])])"
proof -
  have "op_frame 66 \<noteq> op_frame 65" by (simp add: op_frame_def)
  then have "handle frame_engine sample_cfg True 0 (ApplyRemote [op_frame 66, op_frame 65] None)
      \<lparr>wk_engine = Some (pack_op (op_frame 65)), wk_starting = None, wk_idb = idb\<rparr> =
    (\<lparr>wk_engine = Some frame_state, wk_starting = None,
      wk_idb = fst (appendOps ''d'' [op_frame 66] None idb)\<rparr>, Inr (RApplyRemote 1 1 [op_frame 66]))" for idb
    by (subst handle.simps)
      (simp add: sample_cfg_def frame_engine_def pack_engine_def handle_applyRemote_def ensureEngine_def storageId_def
        get_or_def appendOrReset_def append_single frame_state_def unpack_pack unpack_pack [of "[]" _ "[]", simplified]
        del: pack_op.simps)
  then show ?thesis by (simp add: frame_events_def frame_insert frame_idb_def del: handle.simps)
qed

theorem crash_recovers_witness:
  "\<exists>w' e'. ensureEngine frame_engine sample_cfg (fresh_worker frame_idb) = (w', Inr e')
    \<and> {Some (7, 65), Some (7, 66)} \<subseteq> packed e'"
proof -
  obtain w' r where h: "ensureEngine frame_engine sample_cfg (fresh_worker frame_idb) = (w', r)" by fastforce
  have "list_all2 (\<lambda>(c, n, req) res. benign req res) frame_events
      [Inr (RLocalOps [op_frame 65] 1 None), Inr (RApplyRemote 1 1 [op_frame 66])]"
    by (simp add: frame_events_def benign_def)
  from crash_recovers[OF frame_engine_laws idb_ok_empty(1) frame_run this, of frame_state w' r] h
  have "case r of Inr e' \<Rightarrow> packed frame_state \<subseteq> packed e' | Inl err \<Rightarrow> saved_refused frame_engine sample_cfg frame_idb"
    by (cases r) simp_all
  moreover have "\<not> saved_refused frame_engine sample_cfg frame_idb"
    unfolding saved_refused_def Let_def
    by (auto split: option.split intro!: never_throws_accepts) (simp_all add: frame_engine_def pack_engine_def split: if_splits)
  moreover have zeros: "le_val (replicate 7 0) = 0" by code_simp
  moreover have "packed frame_state = {Some (7, 66), Some (7, 65)}"
    by (simp add: packed_def frame_state_def unpack_pack unpack_pack [of "[]" _ "[]", simplified] op_ident_def
        readOpIdentity_def op_frame_def slice_def zeros del: pack_op.simps)
  ultimately show ?thesis using h by (auto split: sum.splits)
qed



text \<open>
  \<open>localOpsSince\<close> feeds the outbox exactly the worker's own operations past the counter: the
  answer has the operations of the log whose replica is the worker's and whose counter is higher,
  in log order, and the next counter is that of the last of them, so polling with it never skips
  and never repeats one. A counter that is no integer is refused.
\<close>

theorem local_ops_since_exact:
  "snd (handle_localOpsSince eng cfg counter w) =
    (case snd (ensureEngine eng cfg w) of
       Inl err \<Rightarrow> Inl err
     | Inr e \<Rightarrow>
         (case js_BigInt counter of
            None \<Rightarrow> Inl InvalidArgument
          | Some since \<Rightarrow>
              let ops = filter (own_after (wc_replicaId cfg) since) (log_of cfg w)
              in Inr (RLocalOpsSince ops (show_int (last_counter since ops)))))"
proof -
  obtain w1 r where e: "ensureEngine eng cfg w = (w1, r)" by fastforce
  have "log_of cfg w1 = log_of cfg w"
    using ensureEngine_idb[of eng cfg w] e by (simp add: log_of_def)
  then show ?thesis
    by (simp add: handle_localOpsSince_def e own_since_eq log_of_def[symmetric] Let_def
        split: sum.splits option.splits)
qed

text \<open>
  C28: a reloaded replica never re-uses an identity. When the replay of a log completes, the
  engine's allocation is restored to a counter above every own operation of the log and to a
  Lamport time above every operation of it.
\<close>

theorem restored_allocation_fresh:
  assumes "replayAndRestoreAllocation eng cfg ops e = (e', True)" and "ops \<noteq> []"
  shows "\<exists>counter lamport e0. e' = eng_restoreAllocation eng counter lamport e0
    \<and> (\<forall>op \<in> set ops. \<forall>i. readOpIdentity op = Some i \<longrightarrow>
         oi_lamport i < lamport \<and> (oi_replicaId i = wc_replicaId cfg \<longrightarrow> oi_counter i < counter))"
proof -
  obtain e0 own lam where r: "replay_ops eng (wc_replicaId cfg) 0 0 ops e = (e0, Some (own, lam))"
      "e' = eng_restoreAllocation eng (own + 1) (lam + 1) e0"
    using assms by (auto simp: replayAndRestoreAllocation_def split: prod.splits option.splits)
  show ?thesis using replay_ops_max[OF r(1)] r(2) by (metis less_Suc_eq_le Suc_eq_plus1)
qed

theorem restored_allocation_fresh_witness:
  "\<exists>counter lamport e0. pack_op [65] = eng_restoreAllocation pack_engine counter lamport e0
    \<and> (\<forall>op \<in> set [[65]]. \<forall>i. readOpIdentity op = Some i \<longrightarrow>
         oi_lamport i < lamport \<and> (oi_replicaId i = wc_replicaId sample_cfg \<longrightarrow> oi_counter i < counter))"
  by (rule restored_allocation_fresh[where e = "[]"])
    (simp_all add: replayAndRestoreAllocation_def pack_engine_def readOpIdentity_def)

text \<open>
  the deterministic origin of a document's first content is a valid replica id: it is never
  zero and always below \<open>2 ^ 62\<close>, whatever the document id.
\<close>

theorem seed_replica_bounds: "0 < seedReplicaId cfg \<and> seedReplicaId cfg < 2 ^ 62"
proof -
  have "unat (and (h :: 64 word) (mask 62)) < 2 ^ 62" for h
  proof -
    have "unat (and h (mask 62)) = take_bit 62 (unat h)"
      by (simp add: take_bit_eq_mask[symmetric] unsigned_take_bit_eq)
    then show ?thesis by (simp add: take_bit_eq_mod)
  qed
  then show ?thesis by (simp add: seedReplicaId_def Let_def)
qed

end
