(* ===== verification/Worker_Channel.thy ===== *)
theory Worker_Channel
  imports Worker_Durability "HOL-Library.Multiset"
begin

text \<open>
  The page's client of the worker, \<^verbatim>\<open>lib/crdt/worker/client.ts\<close>, and the worker's entry point,
  \<^verbatim>\<open>lib/crdt/worker/crdt-worker.ts\<close>, joined by their message ports, with the worker core of Worker_Core behind.
  A call of the client is suspended while it waits for the worker (\<open>ensureWorker\<close>), then its request is posted
  under a correlation id; everything else may happen in between. All threads share one database, as all workers of
  an origin do. A thread's messages are handled one at a time, in order, by its promise chain.
\<close>

section \<open>Messages\<close>

text \<open>A request as the client builds it: for \<open>Init\<close> with the replica id, as text.\<close>

record CallRequest =
  cr_replicaId :: string
  cr_request :: WorkerRequest

datatype client_error =
    PendingLimitExceeded | ClientTerminated | SourceFetchFailed | WorkerCrashed | DecodingFailed
  | NotInitialized | BadReplicaId | WorkerThrew crdt_error

type_synonym Outcome = "client_error + WorkerResult"

datatype FromWorker = Response nat Outcome | LocalOpsNote "bytes list"

section \<open>The worker thread\<close>

record 'e Thread =
  th_alive :: bool
  th_core :: "(WorkerConfig \<times> 'e Worker) option"
  th_inbox :: "(nat \<times> CallRequest) list"
  th_outbox :: "FromWorker list"

definition new_thread :: "'e Thread" where
  "new_thread = \<lparr>th_alive = True, th_core = None, th_inbox = [], th_outbox = []\<rparr>"

text \<open>The first request must initialize: it gives the document, the storage and the replica.\<close>

definition start_core :: "CallRequest \<Rightarrow> client_error + WorkerConfig" where
  "start_core rq =
     (case cr_request rq of
        Init documentId storage \<Rightarrow>
          (case js_BigInt (cr_replicaId rq) of
             None \<Rightarrow> Inl BadReplicaId
           | Some n \<Rightarrow> Inr \<lparr>wc_documentId = documentId, wc_storageId = storage, wc_replicaId = nat n\<rparr>)
      | _ \<Rightarrow> Inl NotInitialized)"

definition notes_of :: "WorkerResult \<Rightarrow> FromWorker list" where
  "notes_of result = (case result of RLocalOps ops n base \<Rightarrow> if ops = [] then [] else [LocalOpsNote ops] | _ \<Rightarrow> [])"

definition run_core ::
  "('e, 'x) EnginePort_scheme \<Rightarrow> bool \<Rightarrow> nat \<Rightarrow> CallRequest \<Rightarrow> (WorkerConfig \<times> 'e Worker) option \<Rightarrow> IdbState
    \<Rightarrow> (WorkerConfig \<times> 'e Worker) option \<times> IdbState \<times> Outcome" where
  "run_core eng commits now rq core db =
     (case (case core of
              Some c \<Rightarrow> Inr c
            | None \<Rightarrow>
                (case start_core rq of
                   Inl e \<Rightarrow> Inl e
                 | Inr cfg \<Rightarrow> Inr (cfg, \<lparr>wk_engine = None, wk_starting = None, wk_idb = db\<rparr>))) of
        Inl e \<Rightarrow> (None, db, Inl e)
      | Inr (cfg, w) \<Rightarrow>
          (case handle eng cfg commits now (cr_request rq) (w\<lparr>wk_idb := db\<rparr>) of
             (w', Inl e) \<Rightarrow> (Some (cfg, w'), wk_idb w', Inl (WorkerThrew e))
           | (w', Inr result) \<Rightarrow> (Some (cfg, w'), wk_idb w', Inr result)))"

text \<open>One link of \<open>requestTail\<close>: the answer, then the notification of local operations.\<close>

definition thread_step ::
  "('e, 'x) EnginePort_scheme \<Rightarrow> bool \<Rightarrow> nat \<Rightarrow> nat \<times> CallRequest \<Rightarrow> (nat \<times> CallRequest) list \<Rightarrow> 'e Thread \<Rightarrow> IdbState
    \<Rightarrow> 'e Thread \<times> IdbState \<times> Outcome" where
  "thread_step eng commits now m rest t db =
     (case run_core eng commits now (snd m) (th_core t) db of
        (core, db', outcome) \<Rightarrow>
          (t\<lparr>th_core := core, th_inbox := rest,
             th_outbox := th_outbox t @ Response (fst m) outcome #
               (case outcome of Inl _ \<Rightarrow> [] | Inr result \<Rightarrow> notes_of result)\<rparr>, db', outcome))"

section \<open>The client\<close>

definition MAX_PENDING :: nat where "MAX_PENDING = 256"

text \<open>
  The calls of the client are numbered. \<open>ch_fetching\<close> are those that wait for the worker's source, \<open>ch_ready\<close>
  those that have a worker and go on in the next microtasks; \<open>ch_settled\<close> and \<open>ch_heard\<close> are what callers and
  listeners were told, in order. \<open>ch_calls\<close> and \<open>ch_handled\<close> only remember what was asked and how the worker
  core answered, by correlation id.
\<close>

record 'e Channel =
  ch_worker :: "nat option"
  ch_nextId :: nat
  ch_pending :: "(nat \<times> nat) list"
  ch_terminated :: bool
  ch_listeners :: "nat list"
  ch_fetching :: "(nat \<times> CallRequest) list"
  ch_ready :: "(nat \<times> CallRequest \<times> nat) list"
  ch_threads :: "'e Thread list"
  ch_db :: IdbState
  ch_settled :: "(nat \<times> Outcome) list"
  ch_heard :: "(nat \<times> bytes list) list"
  ch_calls :: "CallRequest list"
  ch_handled :: "(nat \<times> CallRequest \<times> Outcome) list"

definition new_channel :: "IdbState \<Rightarrow> 'e Channel" where
  "new_channel db =
     \<lparr>ch_worker = None, ch_nextId = 1, ch_pending = [], ch_terminated = False, ch_listeners = [], ch_fetching = [],
      ch_ready = [], ch_threads = [], ch_db = db, ch_settled = [], ch_heard = [], ch_calls = [], ch_handled = []\<rparr>"

definition settle :: "nat \<Rightarrow> Outcome \<Rightarrow> 'e Channel \<Rightarrow> 'e Channel" where
  "settle c outcome ch = ch\<lparr>ch_settled := ch_settled ch @ [(c, outcome)]\<rparr>"

definition failAll :: "client_error \<Rightarrow> 'e Channel \<Rightarrow> 'e Channel" where
  "failAll e ch = ch\<lparr>ch_settled := ch_settled ch @ map (\<lambda>(i, c). (c, Inl e)) (ch_pending ch), ch_pending := []\<rparr>"

text \<open>The synchronous part of a call, up to where it waits in \<open>ensureWorker\<close>.\<close>

definition call_worker :: "CallRequest \<Rightarrow> 'e Channel \<Rightarrow> 'e Channel" where
  "call_worker rq ch0 =
     (let c = length (ch_calls ch0); ch = ch0\<lparr>ch_calls := ch_calls ch0 @ [rq]\<rparr>
      in if MAX_PENDING \<le> length (ch_pending ch) then settle c (Inl PendingLimitExceeded) ch
         else if ch_terminated ch then settle c (Inl ClientTerminated) ch
         else case ch_worker ch of
           None \<Rightarrow> ch\<lparr>ch_fetching := ch_fetching ch @ [(c, rq)]\<rparr>
         | Some w \<Rightarrow> ch\<lparr>ch_ready := ch_ready ch @ [(c, rq, w)]\<rparr>)"

text \<open>The source of the worker is there, or its fetch failed, for the \<open>i\<close>-th call that waits for it.\<close>

definition source_fetched :: "nat \<Rightarrow> bool \<Rightarrow> 'e Channel \<Rightarrow> 'e Channel" where
  "source_fetched i ok ch0 =
     (if i < length (ch_fetching ch0) then
        (case ch_fetching ch0 ! i of
           (c, rq) \<Rightarrow>
             (let ch = ch0\<lparr>ch_fetching := take i (ch_fetching ch0) @ drop (Suc i) (ch_fetching ch0)\<rparr>
              in if \<not> ok then settle c (Inl SourceFetchFailed) ch
                 else ch\<lparr>ch_worker := Some (length (ch_threads ch)), ch_threads := ch_threads ch @ [new_thread],
                         ch_ready := ch_ready ch @ [(c, rq, length (ch_threads ch))]\<rparr>))
      else ch0)"

definition update_thread :: "nat \<Rightarrow> ('e Thread \<Rightarrow> 'e Thread) \<Rightarrow> 'e Channel \<Rightarrow> 'e Channel" where
  "update_thread w f ch =
     (if w < length (ch_threads ch) then ch\<lparr>ch_threads := (ch_threads ch)[w := f (ch_threads ch ! w)]\<rparr> else ch)"

text \<open>The rest of a call: an id, an entry in the pending map, and the message. A terminated worker gets nothing.\<close>

definition post_call :: "'e Channel \<Rightarrow> 'e Channel" where
  "post_call ch =
     (case ch_ready ch of
        [] \<Rightarrow> ch
      | (c, rq, w) # rest \<Rightarrow>
          update_thread w (\<lambda>t. if th_alive t then t\<lparr>th_inbox := th_inbox t @ [(ch_nextId ch, rq)]\<rparr> else t)
            (ch\<lparr>ch_ready := rest, ch_nextId := ch_nextId ch + 1, ch_pending := ch_pending ch @ [(ch_nextId ch, c)]\<rparr>))"

definition on_message :: "FromWorker \<Rightarrow> 'e Channel \<Rightarrow> 'e Channel" where
  "on_message m ch =
     (case m of
        LocalOpsNote ops \<Rightarrow>
          if ops = [] then ch else ch\<lparr>ch_heard := ch_heard ch @ map (\<lambda>l. (l, ops)) (ch_listeners ch)\<rparr>
      | Response i outcome \<Rightarrow>
          (case map_of (ch_pending ch) i of
             None \<Rightarrow> ch
           | Some c \<Rightarrow> settle c outcome (ch\<lparr>ch_pending := filter (\<lambda>p. fst p \<noteq> i) (ch_pending ch)\<rparr>)))"

definition deliver :: "nat \<Rightarrow> 'e Channel \<Rightarrow> 'e Channel" where
  "deliver w ch =
     (if w < length (ch_threads ch) then
        (case th_outbox (ch_threads ch ! w) of
           [] \<Rightarrow> ch
         | m # rest \<Rightarrow> on_message m (update_thread w (\<lambda>t. t\<lparr>th_outbox := rest\<rparr>) ch))
      else ch)"

definition run_thread :: "('e, 'x) EnginePort_scheme \<Rightarrow> nat \<Rightarrow> bool \<Rightarrow> nat \<Rightarrow> 'e Channel \<Rightarrow> 'e Channel" where
  "run_thread eng w commits now ch =
     (if w < length (ch_threads ch) then
        (case th_inbox (ch_threads ch ! w) of
           [] \<Rightarrow> ch
         | m # rest \<Rightarrow>
             (case thread_step eng commits now m rest (ch_threads ch ! w) (ch_db ch) of
                (t, db, outcome) \<Rightarrow>
                  (update_thread w (\<lambda>_. t) ch)\<lparr>ch_db := db, ch_handled := ch_handled ch @ [(fst m, snd m, outcome)]\<rparr>))
      else ch)"

definition terminate_client :: "'e Channel \<Rightarrow> 'e Channel" where
  "terminate_client ch =
     (let ch1 = failAll ClientTerminated (ch\<lparr>ch_terminated := True\<rparr>)
      in (case ch_worker ch1 of
            None \<Rightarrow> ch1
          | Some w \<Rightarrow> update_thread w (\<lambda>t. t\<lparr>th_alive := False, th_inbox := [], th_outbox := []\<rparr>) ch1)\<lparr>ch_worker := None\<rparr>)"

text \<open>\<open>onLocalOps\<close> and the function it returns, over the set of listeners in insertion order.\<close>

definition add_listener :: "nat \<Rightarrow> 'e Channel \<Rightarrow> 'e Channel" where
  "add_listener l ch = (if l \<in> set (ch_listeners ch) then ch else ch\<lparr>ch_listeners := ch_listeners ch @ [l]\<rparr>)"

definition remove_listener :: "nat \<Rightarrow> 'e Channel \<Rightarrow> 'e Channel" where
  "remove_listener l ch = ch\<lparr>ch_listeners := filter (\<lambda>x. x \<noteq> l) (ch_listeners ch)\<rparr>"

datatype ChannelEvent =
    CallWorker CallRequest | SourceFetched nat bool | PostCall | RunThread nat bool nat | Deliver nat
  | ThreadError bool | TerminateClient | AddListener nat | RemoveListener nat

definition channel_step :: "('e, 'x) EnginePort_scheme \<Rightarrow> ChannelEvent \<Rightarrow> 'e Channel \<Rightarrow> 'e Channel" where
  "channel_step eng e ch =
     (case e of
        CallWorker rq \<Rightarrow> call_worker rq ch
      | SourceFetched i ok \<Rightarrow> source_fetched i ok ch
      | PostCall \<Rightarrow> post_call ch
      | RunThread w commits now \<Rightarrow> run_thread eng w commits now ch
      | Deliver w \<Rightarrow> deliver w ch
      | ThreadError crashed \<Rightarrow> failAll (if crashed then WorkerCrashed else DecodingFailed) ch
      | TerminateClient \<Rightarrow> terminate_client ch
      | AddListener l \<Rightarrow> add_listener l ch
      | RemoveListener l \<Rightarrow> remove_listener l ch)"

inductive channel_reaches ::
  "('e, 'x) EnginePort_scheme \<Rightarrow> (ChannelEvent \<Rightarrow> 'e Channel \<Rightarrow> bool) \<Rightarrow> 'e Channel \<Rightarrow> 'e Channel \<Rightarrow> bool"
  for eng allowed ch0 where
  start: "channel_reaches eng allowed ch0 ch0"
| step: "channel_reaches eng allowed ch0 (channel_step eng e ch)"
    if "channel_reaches eng allowed ch0 ch" and "allowed e ch"

section \<open>Each call is in one place\<close>

definition call_places :: "'e Channel \<Rightarrow> nat multiset" where
  "call_places ch = mset (map fst (ch_fetching ch)) + mset (map fst (ch_ready ch)) + mset (map snd (ch_pending ch))
     + mset (map fst (ch_settled ch))"

definition inbox_ids :: "'e Channel \<Rightarrow> nat multiset" where
  "inbox_ids ch = mset (concat (map (\<lambda>t. map fst (th_inbox t)) (ch_threads ch)))"

definition from_worker :: "Outcome \<Rightarrow> bool" where
  "from_worker outcome \<longleftrightarrow>
     (case outcome of Inr _ \<Rightarrow> True | Inl e \<Rightarrow> e \<in> {NotInitialized, BadReplicaId} \<or> (\<exists>x. e = WorkerThrew x))"

definition channel_links :: "'e Channel \<Rightarrow> bool" where
  "channel_links ch \<longleftrightarrow>
     inbox_ids ch + mset (map fst (ch_handled ch)) \<subseteq># mset [1..<ch_nextId ch]
     \<and> distinct (map fst (ch_pending ch)) \<and> (\<forall>(i, c) \<in> set (ch_pending ch). i < ch_nextId ch)
     \<and> (\<forall>(c, rq) \<in> set (ch_fetching ch). ch_calls ch ! c = rq)
     \<and> (\<forall>(c, rq, w) \<in> set (ch_ready ch). ch_calls ch ! c = rq)
     \<and> (\<forall>t \<in> set (ch_threads ch). \<forall>(i, rq) \<in> set (th_inbox t).
          i < ch_nextId ch \<and> (\<forall>c. (i, c) \<in> set (ch_pending ch) \<longrightarrow> ch_calls ch ! c = rq))
     \<and> (\<forall>t \<in> set (ch_threads ch). \<forall>i outcome. Response i outcome \<in> set (th_outbox t) \<longrightarrow>
          i < ch_nextId ch \<and> (\<forall>c. (i, c) \<in> set (ch_pending ch) \<longrightarrow> (i, ch_calls ch ! c, outcome) \<in> set (ch_handled ch)))
     \<and> (\<forall>(c, outcome) \<in> set (ch_settled ch). from_worker outcome \<longrightarrow>
          (\<exists>i. (i, ch_calls ch ! c, outcome) \<in> set (ch_handled ch)))"

definition channel_inv :: "'e Channel \<Rightarrow> bool" where
  "channel_inv ch \<longleftrightarrow> call_places ch = mset [0..<length (ch_calls ch)] \<and> channel_links ch"

lemma new_channel_inv: "channel_inv (new_channel db)"
  by (simp add: channel_inv_def channel_links_def new_channel_def call_places_def inbox_ids_def)

text \<open>Every caller is the number of a call.\<close>

lemma places_less:
  assumes "channel_inv ch"
  shows "(c, rq) \<in> set (ch_fetching ch) \<Longrightarrow> c < length (ch_calls ch)"
    and "(c, x) \<in> set (ch_ready ch) \<Longrightarrow> c < length (ch_calls ch)"
    and "(i, c) \<in> set (ch_pending ch) \<Longrightarrow> c < length (ch_calls ch)"
    and "(c, outcome) \<in> set (ch_settled ch) \<Longrightarrow> c < length (ch_calls ch)"
proof -
  have "set_mset (call_places ch) = {0..<length (ch_calls ch)}" using assms by (simp add: channel_inv_def)
  then have s: "x \<in> fst ` set (ch_fetching ch) \<union> fst ` set (ch_ready ch) \<union> snd ` set (ch_pending ch) \<union> fst ` set (ch_settled ch)
      \<Longrightarrow> x < length (ch_calls ch)" for x
    by (auto simp: call_places_def set_eq_iff)
  show "(c, rq) \<in> set (ch_fetching ch) \<Longrightarrow> c < length (ch_calls ch)" using s [of c] by force
  show "(c, x) \<in> set (ch_ready ch) \<Longrightarrow> c < length (ch_calls ch)" using s [of c] by force
  show "(i, c) \<in> set (ch_pending ch) \<Longrightarrow> c < length (ch_calls ch)" using s [of c] by force
  show "(c, outcome) \<in> set (ch_settled ch) \<Longrightarrow> c < length (ch_calls ch)" using s [of c] by force
qed

lemma concat_update:
  "w < length ts \<Longrightarrow> mset (concat (map f (ts[w := t]))) + mset (f (ts ! w)) = mset (concat (map f ts)) + mset (f t)"
proof (induction ts arbitrary: w)
  case (Cons x ts)
  then show ?case by (cases w) (simp_all add: ac_simps)
qed simp

lemma inbox_ids_update:
  "w < length (ch_threads ch) \<Longrightarrow>
   inbox_ids (ch\<lparr>ch_threads := (ch_threads ch)[w := t]\<rparr>) + mset (map fst (th_inbox (ch_threads ch ! w)))
     = inbox_ids ch + mset (map fst (th_inbox t))"
  using concat_update [where f = "\<lambda>t. map fst (th_inbox t)"] by (simp add: inbox_ids_def)

lemma in_update: "t \<in> set (ts[w := x]) \<Longrightarrow> t \<in> set ts \<or> t = x"
  by (metis insertE set_update_subset_insert subsetD)

lemma links_settle:
  "channel_links ch \<Longrightarrow> (from_worker outcome \<Longrightarrow> \<exists>i. (i, ch_calls ch ! c, outcome) \<in> set (ch_handled ch))
    \<Longrightarrow> channel_links (settle c outcome ch)"
  by (auto simp: channel_links_def settle_def inbox_ids_def)

lemma links_failAll: "channel_links ch \<Longrightarrow> \<not> from_worker (Inl e) \<Longrightarrow> channel_links (failAll e ch)"
  by (auto simp: channel_links_def failAll_def inbox_ids_def)

lemma links_fetching:
  "channel_links ch \<Longrightarrow> \<forall>(c, rq) \<in> set xs. ch_calls ch ! c = rq \<Longrightarrow> channel_links (ch\<lparr>ch_fetching := xs\<rparr>)"
  by (simp add: channel_links_def inbox_ids_def)

lemma links_ready:
  "channel_links ch \<Longrightarrow> \<forall>(c, rq, w) \<in> set xs. ch_calls ch ! c = rq \<Longrightarrow> channel_links (ch\<lparr>ch_ready := xs\<rparr>)"
  by (simp add: channel_links_def inbox_ids_def)

lemma links_new_thread: "channel_links ch \<Longrightarrow> channel_links (ch\<lparr>ch_threads := ch_threads ch @ [new_thread]\<rparr>)"
  by (auto simp: channel_links_def inbox_ids_def new_thread_def)

lemma links_worker:
  "channel_links (ch\<lparr>ch_worker := x\<rparr>) = channel_links ch" "channel_links (ch\<lparr>ch_terminated := b\<rparr>) = channel_links ch"
  "channel_links (ch\<lparr>ch_listeners := ls\<rparr>) = channel_links ch" "channel_links (ch\<lparr>ch_heard := hs\<rparr>) = channel_links ch"
  "channel_links (ch\<lparr>ch_db := d\<rparr>) = channel_links ch"
  by (simp_all add: channel_links_def inbox_ids_def)

lemma linksD:
  assumes "channel_links ch"
  shows "(c, rq) \<in> set (ch_fetching ch) \<Longrightarrow> ch_calls ch ! c = rq"
    and "(c, rq, w) \<in> set (ch_ready ch) \<Longrightarrow> ch_calls ch ! c = rq"
    and "(i, c) \<in> set (ch_pending ch) \<Longrightarrow> i < ch_nextId ch"
    and "t \<in> set (ch_threads ch) \<Longrightarrow> (i, rq) \<in> set (th_inbox t) \<Longrightarrow>
      i < ch_nextId ch \<and> (\<forall>c. (i, c) \<in> set (ch_pending ch) \<longrightarrow> ch_calls ch ! c = rq)"
    and "t \<in> set (ch_threads ch) \<Longrightarrow> Response i outcome \<in> set (th_outbox t) \<Longrightarrow>
      i < ch_nextId ch \<and> (\<forall>c. (i, c) \<in> set (ch_pending ch) \<longrightarrow> (i, ch_calls ch ! c, outcome) \<in> set (ch_handled ch))"
    and "(c, outcome) \<in> set (ch_settled ch) \<Longrightarrow> from_worker outcome \<Longrightarrow>
      \<exists>i. (i, ch_calls ch ! c, outcome) \<in> set (ch_handled ch)"
  using assms unfolding channel_links_def by fastforce+

lemma linksI:
  assumes "inbox_ids ch + mset (map fst (ch_handled ch)) \<subseteq># mset [1..<ch_nextId ch]"
    and "distinct (map fst (ch_pending ch))" and "\<And>i c. (i, c) \<in> set (ch_pending ch) \<Longrightarrow> i < ch_nextId ch"
    and "\<And>c rq. (c, rq) \<in> set (ch_fetching ch) \<Longrightarrow> ch_calls ch ! c = rq"
    and "\<And>c rq w. (c, rq, w) \<in> set (ch_ready ch) \<Longrightarrow> ch_calls ch ! c = rq"
    and "\<And>t i rq. t \<in> set (ch_threads ch) \<Longrightarrow> (i, rq) \<in> set (th_inbox t) \<Longrightarrow>
      i < ch_nextId ch \<and> (\<forall>c. (i, c) \<in> set (ch_pending ch) \<longrightarrow> ch_calls ch ! c = rq)"
    and "\<And>t i outcome. t \<in> set (ch_threads ch) \<Longrightarrow> Response i outcome \<in> set (th_outbox t) \<Longrightarrow>
      i < ch_nextId ch \<and> (\<forall>c. (i, c) \<in> set (ch_pending ch) \<longrightarrow> (i, ch_calls ch ! c, outcome) \<in> set (ch_handled ch))"
    and "\<And>c outcome. (c, outcome) \<in> set (ch_settled ch) \<Longrightarrow> from_worker outcome \<Longrightarrow>
      \<exists>i. (i, ch_calls ch ! c, outcome) \<in> set (ch_handled ch)"
  shows "channel_links ch"
  using assms unfolding channel_links_def by blast

lemma links_more_calls:
  assumes "channel_inv ch"
  shows "channel_links (ch\<lparr>ch_calls := ch_calls ch @ [rq]\<rparr>)"
proof -
  have l: "channel_links ch" using assms by (simp add: channel_inv_def)
  note less = places_less [OF assms]
  let ?ch = "ch\<lparr>ch_calls := ch_calls ch @ [rq]\<rparr>"
  have keep: "ch_calls ?ch ! c = ch_calls ch ! c" if "c < length (ch_calls ch)" for c using that by (simp add: nth_append)
  show ?thesis
  proof (rule linksI)
    show "inbox_ids ?ch + mset (map fst (ch_handled ?ch)) \<subseteq># mset [1..<ch_nextId ?ch]" "distinct (map fst (ch_pending ?ch))"
      using l by (simp_all add: channel_links_def inbox_ids_def)
  next
    fix i c assume "(i, c) \<in> set (ch_pending ?ch)"
    then show "i < ch_nextId ?ch" using linksD(3) [OF l] by simp
  next
    fix c rq' assume "(c, rq') \<in> set (ch_fetching ?ch)"
    then show "ch_calls ?ch ! c = rq'" using linksD(1) [OF l] less(1) keep by simp
  next
    fix c rq' w assume "(c, rq', w) \<in> set (ch_ready ?ch)"
    then show "ch_calls ?ch ! c = rq'" using linksD(2) [OF l] less(2) keep by simp
  next
    fix t i rq' assume "t \<in> set (ch_threads ?ch)" "(i, rq') \<in> set (th_inbox t)"
    then show "i < ch_nextId ?ch \<and> (\<forall>c. (i, c) \<in> set (ch_pending ?ch) \<longrightarrow> ch_calls ?ch ! c = rq')"
      using linksD(4) [OF l] less(3) keep by simp
  next
    fix t i outcome assume "t \<in> set (ch_threads ?ch)" "Response i outcome \<in> set (th_outbox t)"
    then show "i < ch_nextId ?ch
      \<and> (\<forall>c. (i, c) \<in> set (ch_pending ?ch) \<longrightarrow> (i, ch_calls ?ch ! c, outcome) \<in> set (ch_handled ?ch))"
      using linksD(5) [OF l] less(3) keep by simp
  next
    fix c outcome assume "(c, outcome) \<in> set (ch_settled ?ch)" "from_worker outcome"
    then show "\<exists>i. (i, ch_calls ?ch ! c, outcome) \<in> set (ch_handled ?ch)"
      using linksD(6) [OF l] less(4) keep by simp
  qed
qed

lemma next_number: "add_mset n (mset_set {0..<n}) = mset_set {0..<Suc n}"
  by (simp add: atLeast0_lessThan_Suc)

text \<open>A new call is the next number.\<close>

lemma call_worker_inv:
  assumes "channel_inv ch"
  shows "channel_inv (call_worker rq ch)"
proof -
  let ?c = "length (ch_calls ch)"
  let ?ch = "ch\<lparr>ch_calls := ch_calls ch @ [rq]\<rparr>"
  have l: "channel_links ?ch" by (rule links_more_calls [OF assms])
  have p: "call_places ch = mset [0..<?c]" using assms by (simp add: channel_inv_def)
  have "channel_links (settle ?c (Inl e) ?ch)" if "\<not> from_worker (Inl e)" for e
    using links_settle [OF l] that by blast
  moreover have "channel_links (?ch\<lparr>ch_fetching := ch_fetching ch @ [(?c, rq)]\<rparr>)"
    by (rule links_fetching [OF l]) (use linksD(1) [OF l] in auto)
  moreover have "channel_links (?ch\<lparr>ch_ready := ch_ready ch @ [(?c, rq, w)]\<rparr>)" for w
    by (rule links_ready [OF l]) (use linksD(2) [OF l] in auto)
  ultimately show ?thesis
    using p by (simp add: call_worker_def Let_def from_worker_def channel_inv_def call_places_def settle_def next_number split: option.split)
qed

lemma source_fetched_inv:
  assumes "channel_inv ch"
  shows "channel_inv (source_fetched i ok ch)"
proof (cases "i < length (ch_fetching ch)")
  case True
  obtain c rq where f: "ch_fetching ch ! i = (c, rq)" by fastforce
  let ?xs = "take i (ch_fetching ch) @ drop (Suc i) (ch_fetching ch)"
  let ?ch = "ch\<lparr>ch_fetching := ?xs\<rparr>"
  have l: "channel_links ch" and p: "call_places ch = mset [0..<length (ch_calls ch)]" using assms by (simp_all add: channel_inv_def)
  have eq: "ch_fetching ch = take i (ch_fetching ch) @ (c, rq) # drop (Suc i) (ch_fetching ch)"
    using id_take_nth_drop [OF True] f by simp
  then have m: "mset (ch_fetching ch) = add_mset (c, rq) (mset ?xs)" by (metis mset.simps(2) mset_append union_mset_add_mset_right)
  have crq: "ch_calls ch ! c = rq" using linksD(1) [OF l] True f nth_mem by metis
  have l1: "channel_links ?ch"
    by (rule links_fetching [OF l]) (use linksD(1) [OF l] in \<open>auto dest: in_set_takeD in_set_dropD\<close>)
  have l2: "channel_links (settle c (Inl SourceFetchFailed) ?ch)"
    by (rule links_settle [OF l1]) (simp add: from_worker_def)
  have "channel_links (?ch\<lparr>ch_worker := x, ch_threads := ch_threads ch @ [new_thread]\<rparr>)" for x
    using links_new_thread [of "?ch\<lparr>ch_worker := x\<rparr>"] l1 by (simp add: links_worker)
  then have l3: "channel_links (?ch\<lparr>ch_worker := x, ch_threads := ch_threads ch @ [new_thread], ch_ready := ch_ready ch @ [(c, rq, w)]\<rparr>)" for w x
    by (rule links_ready) (use linksD(2) [OF l] crq in auto)
  show ?thesis
    using True f l2 l3 p m
    by (simp add: source_fetched_def channel_inv_def call_places_def settle_def Let_def)
next
  case False
  then show ?thesis using assms by (simp add: source_fetched_def)
qed

text \<open>Ids are below the next one.\<close>

lemma ids_below:
  assumes "channel_links ch"
  shows "i \<in># inbox_ids ch \<Longrightarrow> i < ch_nextId ch" and "i \<in> fst ` set (ch_handled ch) \<Longrightarrow> i < ch_nextId ch"
proof -
  have "set_mset (inbox_ids ch + mset (map fst (ch_handled ch))) \<subseteq> {1..<ch_nextId ch}"
    using set_mset_mono assms by (fastforce simp: channel_links_def)
  then show "i \<in># inbox_ids ch \<Longrightarrow> i < ch_nextId ch" "i \<in> fst ` set (ch_handled ch) \<Longrightarrow> i < ch_nextId ch" by auto
qed

definition posted :: "nat \<times> CallRequest \<Rightarrow> 'e Thread \<Rightarrow> 'e Thread" where
  "posted m t = (if th_alive t then t\<lparr>th_inbox := th_inbox t @ [m]\<rparr> else t)"

lemma post_call_inv:
  assumes "channel_inv ch" and "1 \<le> ch_nextId ch"
  shows "channel_inv (post_call ch)"
proof (cases "ch_ready ch")
  case Nil
  then show ?thesis using assms by (simp add: post_call_def)
next
  case (Cons x rest)
  obtain c rq w where x: "x = (c, rq, w)" by (cases x) auto
  let ?n = "ch_nextId ch"
  let ?ch = "ch\<lparr>ch_ready := rest, ch_nextId := Suc ?n, ch_pending := ch_pending ch @ [(?n, c)]\<rparr>"
  let ?ch' = "update_thread w (posted (?n, rq)) ?ch"
  have l: "channel_links ch" and p: "call_places ch = mset [0..<length (ch_calls ch)]" using assms by (simp_all add: channel_inv_def)
  have crq: "ch_calls ch ! c = rq" using linksD(2) [OF l, of c rq w] Cons x by simp
  have fresh: "(?n, c') \<notin> set (ch_pending ch)" for c' using linksD(3) [OF l] by fastforce
  have t: "t \<in> set (ch_threads ?ch') \<Longrightarrow> t \<in> set (ch_threads ch) \<or> (\<exists>t0 \<in> set (ch_threads ch). t = posted (?n, rq) t0)" for t
    by (auto simp: update_thread_def split: if_splits dest!: in_update)
  have same: "ch_handled ?ch' = ch_handled ch" "ch_pending ?ch' = ch_pending ch @ [(?n, c)]" "ch_nextId ?ch' = Suc ?n"
    "ch_fetching ?ch' = ch_fetching ch" "ch_ready ?ch' = rest" "ch_calls ?ch' = ch_calls ch" "ch_settled ?ch' = ch_settled ch"
    by (simp_all add: update_thread_def)
  have "inbox_ids ?ch' \<subseteq># add_mset ?n (inbox_ids ch)"
  proof (cases "w < length (ch_threads ch)")
    case True
    have "inbox_ids ?ch' + mset (map fst (th_inbox (ch_threads ch ! w)))
        = inbox_ids ch + mset (map fst (th_inbox (posted (?n, rq) (ch_threads ch ! w))))"
      using inbox_ids_update [of w ?ch] True by (simp add: update_thread_def inbox_ids_def)
    then show ?thesis by (auto simp: posted_def split: if_splits)
  qed (simp add: update_thread_def inbox_ids_def)
  moreover have "inbox_ids ch + mset (map fst (ch_handled ch)) \<subseteq># mset [1..<?n]" using l by (simp add: channel_links_def)
  ultimately have "inbox_ids ?ch' + mset (map fst (ch_handled ch)) \<subseteq># add_mset ?n (inbox_ids ch) + mset (map fst (ch_handled ch))"
      "add_mset ?n (inbox_ids ch) + mset (map fst (ch_handled ch)) \<subseteq># add_mset ?n (mset [1..<?n])"
    by simp_all
  then have "inbox_ids ?ch' + mset (map fst (ch_handled ch)) \<subseteq># add_mset ?n (mset [1..<?n])"
    by (rule subset_mset.order_trans)
  moreover have "mset [1..<Suc ?n] = add_mset ?n (mset [1..<?n])" using assms(2) by simp
  ultimately have 1: "inbox_ids ?ch' + mset (map fst (ch_handled ?ch')) \<subseteq># mset [1..<ch_nextId ?ch']"
    by (simp only: same)
  have "channel_links ?ch'"
  proof (rule linksI [OF 1])
    show "distinct (map fst (ch_pending ?ch'))" using l fresh by (auto simp: same channel_links_def)
  next
    fix i c' assume "(i, c') \<in> set (ch_pending ?ch')"
    then show "i < ch_nextId ?ch'" using linksD(3) [OF l] by (fastforce simp: same)
  next
    fix c' rq' assume "(c', rq') \<in> set (ch_fetching ?ch')"
    then show "ch_calls ?ch' ! c' = rq'" using linksD(1) [OF l] by (simp add: same)
  next
    fix c' rq' w' assume "(c', rq', w') \<in> set (ch_ready ?ch')"
    then show "ch_calls ?ch' ! c' = rq'" using linksD(2) [OF l, of c' rq' w'] Cons by (simp add: same)
  next
    fix t' i rq' assume "t' \<in> set (ch_threads ?ch')" "(i, rq') \<in> set (th_inbox t')"
    then consider t0 where "t0 \<in> set (ch_threads ch)" "(i, rq') \<in> set (th_inbox t0)" | "i = ?n" "rq' = rq"
      using t by (fastforce simp: posted_def split: if_splits)
    then show "i < ch_nextId ?ch' \<and> (\<forall>c'. (i, c') \<in> set (ch_pending ?ch') \<longrightarrow> ch_calls ?ch' ! c' = rq')"
    proof cases
      case 1
      then show ?thesis using linksD(4) [OF l, of t0 i rq'] by (auto simp: same)
    next
      case 2
      then show ?thesis using fresh crq by (auto simp: same)
    qed
  next
    fix t' i outcome assume "t' \<in> set (ch_threads ?ch')" "Response i outcome \<in> set (th_outbox t')"
    then obtain t0 where "t0 \<in> set (ch_threads ch)" "Response i outcome \<in> set (th_outbox t0)"
      using t by (fastforce simp: posted_def split: if_splits)
    then show "i < ch_nextId ?ch'
      \<and> (\<forall>c'. (i, c') \<in> set (ch_pending ?ch') \<longrightarrow> (i, ch_calls ?ch' ! c', outcome) \<in> set (ch_handled ?ch'))"
      using linksD(5) [OF l] by (fastforce simp: same)
  next
    fix c' outcome assume "(c', outcome) \<in> set (ch_settled ?ch')" "from_worker outcome"
    then show "\<exists>i. (i, ch_calls ?ch' ! c', outcome) \<in> set (ch_handled ?ch')" using linksD(6) [OF l] by (simp add: same)
  qed
  moreover have "call_places ?ch' = mset [0..<length (ch_calls ?ch')]"
    using p Cons x by (simp add: call_places_def same)
  moreover have "post_call ch = ?ch'" by (simp add: post_call_def Cons x posted_def [abs_def])
  ultimately show ?thesis by (simp add: channel_inv_def)
qed

lemma thread_step_fields:
  assumes "thread_step eng commits now (i, rq) rest t db = (t', db', outcome)"
  shows "th_inbox t' = rest" "th_alive t' = th_alive t"
    and "Response j o' \<in> set (th_outbox t') \<longleftrightarrow> Response j o' \<in> set (th_outbox t) \<or> (j = i \<and> o' = outcome)"
  using assms by (auto simp: thread_step_def notes_of_def split: prod.splits sum.splits WorkerResult.splits if_splits)

lemma run_thread_inv:
  assumes "channel_inv ch"
  shows "channel_inv (run_thread eng w commits now ch)"
proof (cases "w < length (ch_threads ch) \<and> th_inbox (ch_threads ch ! w) \<noteq> []")
  case True
  let ?t = "ch_threads ch ! w"
  obtain i rq rest where box: "th_inbox ?t = (i, rq) # rest" using True by (cases "th_inbox ?t") auto
  obtain t' db' outcome where st: "thread_step eng commits now (i, rq) rest ?t (ch_db ch) = (t', db', outcome)"
    by (metis prod_cases3)
  note f = thread_step_fields [OF st]
  let ?ch = "(ch\<lparr>ch_threads := (ch_threads ch)[w := t']\<rparr>)\<lparr>ch_db := db', ch_handled := ch_handled ch @ [(i, rq, outcome)]\<rparr>"
  have l: "channel_links ch" and p: "call_places ch = mset [0..<length (ch_calls ch)]" using assms by (simp_all add: channel_inv_def)
  have t: "?t \<in> set (ch_threads ch)" using True by simp
  have "inbox_ids ?ch + mset (map fst (th_inbox ?t)) = inbox_ids ch + mset (map fst rest)"
    using inbox_ids_update [of w ch t'] True f(1) by (simp add: inbox_ids_def)
  then have ids: "add_mset i (inbox_ids ?ch) = inbox_ids ch" by (simp add: box)
  have "channel_links ?ch"
  proof (rule linksI)
    show "inbox_ids ?ch + mset (map fst (ch_handled ?ch)) \<subseteq># mset [1..<ch_nextId ?ch]"
      using l unfolding channel_links_def ids [symmetric] by simp
  next
    fix u j rq' assume "u \<in> set (ch_threads ?ch)" "(j, rq') \<in> set (th_inbox u)"
    then obtain u0 where "u0 \<in> set (ch_threads ch)" "(j, rq') \<in> set (th_inbox u0)"
      using t f(1) box by (auto dest!: in_update)
    then show "j < ch_nextId ?ch \<and> (\<forall>c. (j, c) \<in> set (ch_pending ?ch) \<longrightarrow> ch_calls ?ch ! c = rq')"
      using linksD(4) [OF l] by simp
  next
    fix u j o' assume "u \<in> set (ch_threads ?ch)" "Response j o' \<in> set (th_outbox u)"
    then consider u0 where "u0 \<in> set (ch_threads ch)" "Response j o' \<in> set (th_outbox u0)" | "j = i" "o' = outcome"
      using t f(3) by (auto dest!: in_update)
    then show "j < ch_nextId ?ch
      \<and> (\<forall>c. (j, c) \<in> set (ch_pending ?ch) \<longrightarrow> (j, ch_calls ?ch ! c, o') \<in> set (ch_handled ?ch))"
      using linksD(5) [OF l] linksD(4) [OF l t, of i rq] box by cases auto
  next
    fix c o' assume "(c, o') \<in> set (ch_settled ?ch)" "from_worker o'"
    then show "\<exists>i. (i, ch_calls ?ch ! c, o') \<in> set (ch_handled ?ch)" using linksD(6) [OF l] by fastforce
  qed (use l linksD(1-3) [OF l] in \<open>auto simp: channel_links_def\<close>)
  moreover have "call_places ?ch = mset [0..<length (ch_calls ?ch)]" using p by (simp add: call_places_def)
  moreover have "run_thread eng w commits now ch = ?ch" using True box st by (simp add: run_thread_def update_thread_def)
  ultimately show ?thesis by (simp add: channel_inv_def)
next
  case False
  then show ?thesis using assms by (auto simp: run_thread_def split: list.split)
qed

text \<open>Taking messages out of the ports.\<close>

lemma links_shrink:
  assumes "channel_links ch" and "w < length (ch_threads ch)"
    and "set (th_outbox t) \<subseteq> set (th_outbox (ch_threads ch ! w))" and "th_inbox t = th_inbox (ch_threads ch ! w) \<or> th_inbox t = []"
  shows "channel_links (ch\<lparr>ch_threads := (ch_threads ch)[w := t]\<rparr>)"
proof -
  let ?ch = "ch\<lparr>ch_threads := (ch_threads ch)[w := t]\<rparr>"
  note l = assms(1)
  have m: "ch_threads ch ! w \<in> set (ch_threads ch)" using assms(2) by simp
  have e: "inbox_ids ?ch + mset (map fst (th_inbox (ch_threads ch ! w))) = inbox_ids ch + mset (map fst (th_inbox t))"
    by (rule inbox_ids_update [OF assms(2)])
  have "inbox_ids ?ch \<subseteq># inbox_ids ch"
  proof (cases "th_inbox t = []")
    case True
    with e have "inbox_ids ch = inbox_ids ?ch + mset (map fst (th_inbox (ch_threads ch ! w)))" by simp
    then show ?thesis by simp
  next
    case False
    with e assms(4) show ?thesis by simp
  qed
  then have "inbox_ids ?ch + mset (map fst (ch_handled ch)) \<subseteq># inbox_ids ch + mset (map fst (ch_handled ch))" by simp
  also have "... \<subseteq># mset [1..<ch_nextId ch]" using l by (simp add: channel_links_def)
  finally have 1: "inbox_ids ?ch + mset (map fst (ch_handled ?ch)) \<subseteq># mset [1..<ch_nextId ?ch]" by simp
  show ?thesis
  proof (rule linksI [OF 1])
    fix u j rq' assume "u \<in> set (ch_threads ?ch)" "(j, rq') \<in> set (th_inbox u)"
    then obtain u0 where "u0 \<in> set (ch_threads ch)" "(j, rq') \<in> set (th_inbox u0)"
      using m assms(4) by (auto dest!: in_update)
    then show "j < ch_nextId ?ch \<and> (\<forall>c. (j, c) \<in> set (ch_pending ?ch) \<longrightarrow> ch_calls ?ch ! c = rq')"
      using linksD(4) [OF l] by simp
  next
    fix u j o' assume "u \<in> set (ch_threads ?ch)" "Response j o' \<in> set (th_outbox u)"
    then obtain u0 where "u0 \<in> set (ch_threads ch)" "Response j o' \<in> set (th_outbox u0)"
      using m assms(3) by (auto dest!: in_update)
    then show "j < ch_nextId ?ch
      \<and> (\<forall>c. (j, c) \<in> set (ch_pending ?ch) \<longrightarrow> (j, ch_calls ?ch ! c, o') \<in> set (ch_handled ?ch))"
      using linksD(5) [OF l] by simp
  qed (use l linksD(1-3,6) [OF l] in \<open>auto simp: channel_links_def\<close>)
qed

lemma links_fewer_pending:
  assumes "channel_links ch"
  shows "channel_links (ch\<lparr>ch_pending := filter P (ch_pending ch)\<rparr>)"
proof (rule linksI)
  let ?ch = "ch\<lparr>ch_pending := filter P (ch_pending ch)\<rparr>"
  show "inbox_ids ?ch + mset (map fst (ch_handled ?ch)) \<subseteq># mset [1..<ch_nextId ?ch]" "distinct (map fst (ch_pending ?ch))"
    using assms by (simp_all add: channel_links_def inbox_ids_def distinct_map_filter)
qed (use linksD [OF assms] in auto)

lemma answered_inv:
  assumes "channel_links ch" and "call_places ch = mset [0..<length (ch_calls ch)]"
    and "map_of (ch_pending ch) i = Some c" and "(i, ch_calls ch ! c, outcome) \<in> set (ch_handled ch)"
  shows "channel_inv (settle c outcome (ch\<lparr>ch_pending := filter (\<lambda>p. fst p \<noteq> i) (ch_pending ch)\<rparr>))"
proof -
  let ?xs = "filter (\<lambda>p. fst p \<noteq> i) (ch_pending ch)"
  have d: "distinct (map fst (ch_pending ch))" using assms(1) by (simp add: channel_links_def)
  have m: "mset (map snd xs) = add_mset c (mset (map snd (filter (\<lambda>p. fst p \<noteq> i) xs)))"
    if "distinct (map fst xs)" "map_of xs i = Some c" for xs :: "(nat \<times> nat) list"
    using that
  proof (induction xs)
    case (Cons p xs)
    show ?case
    proof (cases "fst p = i")
      case True
      then have "filter (\<lambda>p. fst p \<noteq> i) xs = xs" using Cons.prems(1) by (auto simp: filter_id_conv image_iff)
      then show ?thesis using True Cons.prems(2) by (cases p) simp
    next
      case False
      then show ?thesis using Cons by (cases p) simp
    qed
  qed simp
  have "channel_links (ch\<lparr>ch_pending := ?xs\<rparr>)"
    by (rule links_fewer_pending [OF assms(1)])
  then have "channel_links (settle c outcome (ch\<lparr>ch_pending := ?xs\<rparr>))"
    by (rule links_settle) (use assms(4) in auto)
  then show ?thesis using assms(2) m [OF d assms(3)]
    by (simp add: channel_inv_def call_places_def settle_def)
qed

lemma deliver_inv:
  assumes "channel_inv ch"
  shows "channel_inv (deliver w ch)"
proof (cases "w < length (ch_threads ch) \<and> th_outbox (ch_threads ch ! w) \<noteq> []")
  case True
  let ?t = "ch_threads ch ! w"
  obtain m rest where box: "th_outbox ?t = m # rest" using True by (cases "th_outbox ?t") auto
  let ?ch = "ch\<lparr>ch_threads := (ch_threads ch)[w := ?t\<lparr>th_outbox := rest\<rparr>]\<rparr>"
  have l: "channel_links ch" and p: "call_places ch = mset [0..<length (ch_calls ch)]" using assms by (simp_all add: channel_inv_def)
  have l1: "channel_links ?ch" by (rule links_shrink [OF l]) (use True box in auto)
  have p1: "call_places ?ch = mset [0..<length (ch_calls ?ch)]" using p by (simp add: call_places_def)
  have "channel_inv (on_message m ?ch)"
  proof (cases m)
    case (LocalOpsNote ops)
    have "channel_links (?ch\<lparr>ch_heard := hs\<rparr>)" for hs using l1 by (simp only: links_worker)
    then show ?thesis using LocalOpsNote l1 p1 by (simp add: on_message_def channel_inv_def call_places_def)
  next
    case (Response i outcome)
    have r: "Response i outcome \<in> set (th_outbox ?t)" using box Response by simp
    show ?thesis
    proof (cases "map_of (ch_pending ch) i")
      case None
      then show ?thesis using Response l1 p1 by (simp add: on_message_def channel_inv_def)
    next
      case (Some c)
      then have "(i, ch_calls ch ! c, outcome) \<in> set (ch_handled ch)"
        using linksD(5) [OF l _ r] True map_of_SomeD by fastforce
      then show ?thesis using answered_inv [OF l1 p1, of i c outcome] Response Some by (simp add: on_message_def)
    qed
  qed
  then show ?thesis using True box by (simp add: deliver_def update_thread_def)
next
  case False
  then show ?thesis using assms by (auto simp: deliver_def split: list.split)
qed

lemma failAll_inv: "channel_inv ch \<Longrightarrow> \<not> from_worker (Inl e) \<Longrightarrow> channel_inv (failAll e ch)"
  using links_failAll [of ch e]
  by (simp add: channel_inv_def call_places_def) (simp add: failAll_def case_prod_unfold multiset.map_comp comp_def add_ac)

lemma terminate_inv:
  assumes "channel_inv ch"
  shows "channel_inv (terminate_client ch)"
proof -
  let ?ch = "failAll ClientTerminated (ch\<lparr>ch_terminated := True\<rparr>)"
  have i: "channel_inv ?ch"
    by (rule failAll_inv) (use assms in \<open>simp_all add: channel_inv_def links_worker call_places_def from_worker_def\<close>)
  have "channel_inv (update_thread w (\<lambda>t. t\<lparr>th_alive := False, th_inbox := [], th_outbox := []\<rparr>) ?ch)" for w
    using links_shrink [of ?ch w "(ch_threads ?ch ! w)\<lparr>th_alive := False, th_inbox := [], th_outbox := []\<rparr>"] i
    by (auto simp: update_thread_def channel_inv_def call_places_def)
  moreover have "channel_inv (c\<lparr>ch_worker := None\<rparr>) = channel_inv c" for c :: "'a Channel"
    by (simp add: channel_inv_def links_worker call_places_def)
  ultimately show ?thesis using i by (simp add: terminate_client_def Let_def split: option.split)
qed

lemma nextId_step: "1 \<le> ch_nextId ch \<Longrightarrow> 1 \<le> ch_nextId (channel_step eng e ch)"
  by (cases e)
    (auto simp: channel_step_def call_worker_def source_fetched_def post_call_def run_thread_def deliver_def failAll_def
      terminate_client_def add_listener_def remove_listener_def settle_def update_thread_def on_message_def Let_def
      split: option.splits list.splits prod.splits FromWorker.splits)

lemma channel_step_inv:
  assumes "channel_inv ch" and "1 \<le> ch_nextId ch"
  shows "channel_inv (channel_step eng e ch)"
proof (cases e)
  case (ThreadError crashed)
  then show ?thesis using failAll_inv [OF assms(1)] by (simp add: channel_step_def from_worker_def)
next
  case (AddListener l)
  have "channel_inv (ch\<lparr>ch_listeners := ls\<rparr>)" for ls
    using assms(1) by (simp add: channel_inv_def links_worker call_places_def)
  then show ?thesis using AddListener assms(1) by (simp add: channel_step_def add_listener_def)
next
  case (RemoveListener l)
  then show ?thesis using assms(1)
    by (simp add: channel_step_def remove_listener_def channel_inv_def links_worker call_places_def)
qed (use assms call_worker_inv source_fetched_inv post_call_inv run_thread_inv deliver_inv terminate_inv
  in \<open>simp_all add: channel_step_def\<close>)

lemma channel_invariant:
  "channel_reaches eng allowed (new_channel db) ch \<Longrightarrow> channel_inv ch \<and> 1 \<le> ch_nextId ch"
proof (induction rule: channel_reaches.induct)
  case start
  then show ?case using new_channel_inv by (simp add: new_channel_def)
next
  case (step ch e)
  then show ?case using channel_step_inv nextId_step by blast
qed

lemma distinct_submset:
  assumes "mset xs \<subseteq># mset ys" and "distinct ys"
  shows "distinct xs"
  unfolding distinct_count_atmost_1
proof
  fix a
  have "count (mset xs) a \<le> count (mset ys) a" using assms(1) by (rule mset_subset_eq_count)
  also have "... \<le> 1" using assms(2) by (simp add: distinct_count_atmost_1)
  finally have "count (mset xs) a \<le> 1" .
  moreover have "a \<in> set xs \<Longrightarrow> 0 < count (mset xs) a" by simp
  ultimately have "a \<in> set xs \<Longrightarrow> count (mset xs) a = 1" by linarith
  then show "count (mset xs) a = (if a \<in> set xs then 1 else 0)" by simp
qed

text \<open>
  C20: every caller gets the answer to its own request, once. Whatever the interleaving of calls, worker threads,
  messages, crashes and termination: no caller is told two outcomes, no request is handled twice, and an outcome that
  came from a worker is what the worker core answered to the request of that call.
\<close>

theorem answers_match_calls:
  assumes "channel_reaches eng (\<lambda>_ _. True) (new_channel db) ch"
  shows "distinct (map fst (ch_settled ch)) \<and> distinct (map fst (ch_handled ch))
    \<and> (\<forall>(c, outcome) \<in> set (ch_settled ch). c < length (ch_calls ch)
        \<and> (from_worker outcome \<longrightarrow> (\<exists>i. (i, ch_calls ch ! c, outcome) \<in> set (ch_handled ch))))"
proof -
  have inv: "channel_inv ch" using channel_invariant [OF assms] by blast
  then have l: "channel_links ch" and p: "call_places ch = mset [0..<length (ch_calls ch)]" by (simp_all add: channel_inv_def)
  have d: "distinct xs" if "mset xs \<subseteq># mset [a..<b]" for xs and a b :: nat using that by (rule distinct_submset) simp
  have "mset (map fst (ch_settled ch)) \<subseteq># mset [0..<length (ch_calls ch)]"
    unfolding p [symmetric] call_places_def by simp
  moreover have "mset (map fst (ch_handled ch)) \<subseteq># mset [1..<ch_nextId ch]"
    using l unfolding channel_links_def by (meson mset_subset_eq_add_right subset_mset.order_trans)
  ultimately show ?thesis using d linksD(6) [OF l] places_less(4) [OF inv] by blast
qed

section \<open>No call hangs\<close>

definition holds_call :: "nat \<Rightarrow> 'e Thread \<Rightarrow> bool" where
  "holds_call i t \<longleftrightarrow> th_alive t \<and> (i \<in> fst ` set (th_inbox t) \<or> (\<exists>outcome. Response i outcome \<in> set (th_outbox t)))"

definition live_thread :: "'e Thread list \<Rightarrow> nat \<Rightarrow> bool" where
  "live_thread ts w \<longleftrightarrow> w < length ts \<and> th_alive (ts ! w)"

definition live_inv :: "'e Channel \<Rightarrow> bool" where
  "live_inv ch \<longleftrightarrow>
     (\<forall>p \<in> set (ch_pending ch). \<exists>t \<in> set (ch_threads ch). holds_call (fst p) t)
     \<and> (\<forall>(c, rq, w) \<in> set (ch_ready ch). live_thread (ch_threads ch) w)
     \<and> (\<forall>w. ch_worker ch = Some w \<longrightarrow> live_thread (ch_threads ch) w)"

text \<open>The client is terminated only when no call waits for the worker.\<close>

definition orderly :: "ChannelEvent \<Rightarrow> 'e Channel \<Rightarrow> bool" where
  "orderly e ch \<longleftrightarrow> (e = TerminateClient \<longrightarrow> ch_fetching ch = [] \<and> ch_ready ch = [])"

lemma holds_update:
  assumes "\<exists>t \<in> set ts. holds_call i t" and "w < length ts" and "holds_call i (ts ! w) \<Longrightarrow> holds_call i t'"
  shows "\<exists>t \<in> set (ts[w := t']). holds_call i t"
proof -
  obtain k where k: "k < length ts" "holds_call i (ts ! k)" using assms(1) by (metis in_set_conv_nth)
  show ?thesis
  proof (cases "k = w")
    case True
    then show ?thesis using k assms(2,3) set_update_memI by metis
  next
    case False
    then show ?thesis using k by (metis length_list_update nth_list_update_neq nth_mem)
  qed
qed

lemma live_update: "live_thread ts v \<Longrightarrow> (th_alive (ts ! w) \<Longrightarrow> th_alive t') \<Longrightarrow> live_thread (ts[w := t']) v"
  by (cases "v = w") (auto simp: live_thread_def)

lemma live_thread_append: "live_thread ts v \<Longrightarrow> live_thread (ts @ us) v"
  by (simp add: live_thread_def nth_append)

text \<open>A thread that is changed without losing a call.\<close>

lemma live_change:
  assumes "live_inv ch" and "w < length (ch_threads ch)" and "th_alive (ch_threads ch ! w) \<Longrightarrow> th_alive t"
    and "\<And>p. p \<in> set (ch_pending ch) \<Longrightarrow> holds_call (fst p) (ch_threads ch ! w) \<Longrightarrow> holds_call (fst p) t"
  shows "live_inv (ch\<lparr>ch_threads := (ch_threads ch)[w := t]\<rparr>)"
  using assms holds_update [OF _ assms(2)] live_update [of "ch_threads ch" _ w t] unfolding live_inv_def by fastforce

lemma live_step:
  assumes "live_inv ch" and "orderly e ch"
  shows "live_inv (channel_step eng e ch)"
proof (cases e)
  case (CallWorker rq)
  then show ?thesis using assms(1)
    by (auto simp: channel_step_def call_worker_def live_inv_def settle_def Let_def split: option.split)
next
  case (SourceFetched i ok)
  have "live_thread (ch_threads ch @ [new_thread]) (length (ch_threads ch))"
    by (simp add: live_thread_def new_thread_def)
  then show ?thesis using assms(1) SourceFetched
    by (auto simp: channel_step_def source_fetched_def live_inv_def settle_def Let_def split: prod.split intro: live_thread_append)
next
  case PostCall
  show ?thesis
  proof (cases "ch_ready ch")
    case Nil
    then show ?thesis using assms(1) PostCall by (simp add: channel_step_def post_call_def)
  next
    case (Cons x rest)
    obtain c rq w where x: "x = (c, rq, w)" by (cases x) auto
    let ?t = "posted (ch_nextId ch, rq) (ch_threads ch ! w)"
    have w: "live_thread (ch_threads ch) w" using assms(1) Cons x by (simp add: live_inv_def)
    have "holds_call (ch_nextId ch) ?t" "\<And>i. holds_call i (ch_threads ch ! w) \<Longrightarrow> holds_call i ?t" "th_alive ?t"
      using w by (auto simp: holds_call_def posted_def live_thread_def)
    then have "live_inv (ch\<lparr>ch_ready := rest, ch_nextId := Suc (ch_nextId ch), ch_pending := ch_pending ch @ [(ch_nextId ch, c)],
        ch_threads := (ch_threads ch)[w := ?t]\<rparr>)"
      using assms(1) w Cons x holds_update [of "ch_threads ch" _ w ?t] live_update [of "ch_threads ch" _ w ?t]
        set_update_memI [of w "ch_threads ch" ?t]
      by (auto simp: live_inv_def live_thread_def)
    then show ?thesis using w PostCall Cons x
      by (simp add: channel_step_def post_call_def update_thread_def posted_def live_thread_def)
  qed
next
  case (RunThread w commits now)
  show ?thesis
  proof (cases "w < length (ch_threads ch) \<and> th_inbox (ch_threads ch ! w) \<noteq> []")
    case True
    obtain i rq rest where box: "th_inbox (ch_threads ch ! w) = (i, rq) # rest"
      using True by (cases "th_inbox (ch_threads ch ! w)") auto
    obtain t' db' outcome where st: "thread_step eng commits now (i, rq) rest (ch_threads ch ! w) (ch_db ch) = (t', db', outcome)"
      by (metis prod_cases3)
    note f = thread_step_fields [OF st]
    have "live_inv (ch\<lparr>ch_threads := (ch_threads ch)[w := t']\<rparr>)"
      by (rule live_change [OF assms(1)]) (use True f box in \<open>auto simp: holds_call_def\<close>)
    then show ?thesis using RunThread True box st by (simp add: channel_step_def run_thread_def update_thread_def live_inv_def)
  next
    case False
    then show ?thesis using assms(1) RunThread by (auto simp: channel_step_def run_thread_def split: list.split)
  qed
next
  case (Deliver w)
  show ?thesis
  proof (cases "w < length (ch_threads ch) \<and> th_outbox (ch_threads ch ! w) \<noteq> []")
    case True
    obtain m rest where box: "th_outbox (ch_threads ch ! w) = m # rest" using True by (cases "th_outbox (ch_threads ch ! w)") auto
    let ?ps = "filter (\<lambda>p. \<forall>o'. m \<noteq> Response (fst p) o') (ch_pending ch)"
    let ?ch = "ch\<lparr>ch_pending := ?ps\<rparr>"
    have "live_inv ?ch" using assms(1) by (auto simp: live_inv_def)
    then have "live_inv (?ch\<lparr>ch_threads := (ch_threads ?ch)[w := (ch_threads ch ! w)\<lparr>th_outbox := rest\<rparr>]\<rparr>)"
      by (rule live_change) (use True box in \<open>auto simp: holds_call_def\<close>)
    moreover have "?ps = (case m of Response i o' \<Rightarrow> filter (\<lambda>p. fst p \<noteq> i) (ch_pending ch) | _ \<Rightarrow> ch_pending ch)"
      by (auto split: FromWorker.split intro: filter_cong)
    moreover have "filter (\<lambda>p. fst p \<noteq> i) (ch_pending ch) = ch_pending ch" if "map_of (ch_pending ch) i = None" for i
      using that by (auto simp: filter_id_conv map_of_eq_None_iff image_iff)
    ultimately show ?thesis using Deliver True box
      by (auto simp: channel_step_def deliver_def update_thread_def on_message_def settle_def live_inv_def
          split: FromWorker.split option.split)
  next
    case False
    then show ?thesis using assms(1) Deliver by (auto simp: channel_step_def deliver_def split: list.split)
  qed
next
  case TerminateClient
  then show ?thesis using assms(2)
    by (auto simp: channel_step_def terminate_client_def failAll_def live_inv_def orderly_def update_thread_def Let_def
        split: option.split)
qed (use assms(1) in \<open>simp_all add: channel_step_def failAll_def live_inv_def add_listener_def remove_listener_def\<close>)

text \<open>Nothing is under way: no call waits, and no message is in a port of a live thread.\<close>

definition quiet :: "'e Channel \<Rightarrow> bool" where
  "quiet ch \<longleftrightarrow> ch_fetching ch = [] \<and> ch_ready ch = []
     \<and> (\<forall>t \<in> set (ch_threads ch). th_alive t \<longrightarrow> th_inbox t = [] \<and> th_outbox t = [])"

text \<open>
  C21: no call hangs. When nothing is under way any more, every call has been answered exactly once, after any
  interleaving of calls, failed fetches, crashes and termination in which the client is not terminated while a call
  still waits for the worker.
\<close>

theorem every_call_settles:
  assumes "channel_reaches eng orderly (new_channel db) ch" and "quiet ch"
  shows "mset (map fst (ch_settled ch)) = mset [0..<length (ch_calls ch)]"
proof -
  have "channel_inv ch \<and> 1 \<le> ch_nextId ch" using channel_invariant [OF assms(1)] .
  then have p: "call_places ch = mset [0..<length (ch_calls ch)]" by (simp add: channel_inv_def)
  have "live_inv ch"
    using assms(1) by induction (simp_all add: live_step, simp add: live_inv_def new_channel_def)
  then have "ch_pending ch = []" using assms(2) by (cases "ch_pending ch") (auto simp: live_inv_def quiet_def holds_call_def)
  then show ?thesis using p assms(2) by (simp add: call_places_def quiet_def)
qed

section \<open>What the worker announces\<close>

text \<open>
  The answer of a local request is followed by the announcement of its operations, which are in the log by then;
  an answer with an error is followed by none.
\<close>

lemma note_is_logged:
  assumes "idb_ok db" and "local_request rq" and "th_core t = Some (cfg, w)"
    and st: "thread_step eng commits now (i, \<lparr>cr_replicaId = r, cr_request = rq\<rparr>) rest t db = (t', db', outcome)"
  shows "\<exists>ops w'. th_core t' = Some (cfg, w') \<and> wk_idb w' = db'
    \<and> log_of cfg w' = log_of cfg (w\<lparr>wk_idb := db\<rparr>) @ ops
    \<and> th_outbox t' = th_outbox t @ Response i outcome # (if ops = [] then [] else [LocalOpsNote ops])"
proof -
  let ?w = "w\<lparr>wk_idb := db\<rparr>"
  obtain w' res where h: "handle eng cfg commits now rq ?w = (w', res)" by fastforce
  have ok: "worker_ok ?w" using assms(1) by (simp add: worker_ok_def)
  have "logged_answer cfg ?w w' res"
    using assms(2) h log_local_logged [OF ok] reconcile_logged [OF ok] by (cases rq) simp_all
  then show ?thesis using st h assms(3)
    by (cases res) (auto simp: thread_step_def run_core_def logged_answer_def notes_of_def log_of_def split: WorkerResult.splits)
qed

section \<open>Runs\<close>

definition channel_run :: "('e, 'x) EnginePort_scheme \<Rightarrow> ChannelEvent list \<Rightarrow> 'e Channel \<Rightarrow> 'e Channel" where
  "channel_run eng es ch = foldl (\<lambda>ch e. channel_step eng e ch) ch es"

lemma channel_run_reaches:
  "channel_reaches eng allowed ch0 ch \<Longrightarrow> (\<And>e ch. e \<in> set es \<Longrightarrow> allowed e ch) \<Longrightarrow>
   channel_reaches eng allowed ch0 (channel_run eng es ch)"
  by (induction es arbitrary: ch) (simp_all add: channel_run_def channel_reaches.step)

definition sample_init :: CallRequest where
  "sample_init = \<lparr>cr_replicaId = ''7'', cr_request = Init ''d'' None\<rparr>"

definition sample_calls :: "ChannelEvent list" where
  "sample_calls = [CallWorker sample_init, SourceFetched 0 True, PostCall, RunThread 0 True 0, Deliver 0]"

lemma sample_start: "start_core sample_init = Inr sample_cfg"
proof -
  have "js_BigInt ''7'' = Some 7" by code_simp
  then show ?thesis by (simp add: start_core_def sample_init_def sample_cfg_def)
qed

lemma sample_calls_run:
  "\<exists>t. channel_run pack_engine sample_calls (new_channel empty_idb) =
    (new_channel empty_idb)\<lparr>ch_worker := Some 0, ch_nextId := 2, ch_threads := [t], ch_settled := [(0, Inr RInit)],
      ch_calls := [sample_init], ch_handled := [(1, sample_init, Inr RInit)]\<rparr> \<and> th_inbox t = [] \<and> th_outbox t = []"
proof -
  have "\<exists>w. run_core pack_engine True 0 sample_init None empty_idb = (Some (sample_cfg, w), empty_idb, Inr RInit)"
    by (simp add: run_core_def sample_start)
      (simp add: sample_init_def pack_engine_def sample_cfg_def query_def ensureEngine_def restore_def storageId_def get_or_def
        loadLocalState_def rows_of_def replayAndRestoreAllocation_def empty_idb_def)
  then show ?thesis
    by (auto simp: channel_run_def sample_calls_def channel_step_def call_worker_def new_channel_def source_fetched_def
        post_call_def update_thread_def run_thread_def deliver_def on_message_def thread_step_def new_thread_def settle_def
        notes_of_def MAX_PENDING_def)
qed

theorem answers_match_calls_witness:
  "\<exists>i. (i, sample_init, Inr RInit) \<in> set (ch_handled (channel_run pack_engine sample_calls (new_channel empty_idb)))"
proof -
  let ?ch = "channel_run pack_engine sample_calls (new_channel empty_idb)"
  have "channel_reaches pack_engine (\<lambda>_ _. True) (new_channel empty_idb) ?ch"
    by (rule channel_run_reaches [OF channel_reaches.start]) simp
  from answers_match_calls [OF this] sample_calls_run show ?thesis by (auto simp: from_worker_def)
qed

theorem every_call_settles_witness:
  "mset (map fst (ch_settled (channel_run pack_engine sample_calls (new_channel empty_idb)))) = {#0#}"
proof -
  let ?ch = "channel_run pack_engine sample_calls (new_channel empty_idb)"
  have "channel_reaches pack_engine orderly (new_channel empty_idb) ?ch"
    by (rule channel_run_reaches [OF channel_reaches.start]) (auto simp: sample_calls_def orderly_def)
  moreover have "quiet ?ch" using sample_calls_run by (auto simp: quiet_def new_channel_def)
  ultimately show ?thesis using every_call_settles [of pack_engine empty_idb ?ch] sample_calls_run by auto
qed

text \<open>
  What the client promises and does not keep. A call that has its worker but is not posted yet is lost by a
  termination; one that waits for the source starts a worker that nobody terminates; two first calls start two workers
  over the same database; and the pending map exceeds its bound when calls are made before their requests are posted.
\<close>

lemmas channel_ops = channel_run_def channel_step_def call_worker_def source_fetched_def post_call_def update_thread_def
  terminate_client_def failAll_def settle_def new_channel_def new_thread_def MAX_PENDING_def

lemma terminated_call_hangs:
  "quiet (channel_run eng [CallWorker rq, SourceFetched 0 True, TerminateClient, PostCall] (new_channel db))"
  "ch_settled (channel_run eng [CallWorker rq, SourceFetched 0 True, TerminateClient, PostCall] (new_channel db)) = []"
  by (simp_all add: channel_ops quiet_def)

lemma worker_after_terminate:
  "ch_terminated (channel_run eng [CallWorker rq, TerminateClient, SourceFetched 0 True] (new_channel db))"
  "ch_threads (channel_run eng [CallWorker rq, TerminateClient, SourceFetched 0 True] (new_channel db)) = [new_thread]"
  by (simp_all add: channel_ops)

lemma two_workers:
  "ch_threads (channel_run eng [CallWorker a, CallWorker b, SourceFetched 0 True, SourceFetched 0 True] (new_channel db))
    = [new_thread, new_thread]"
  by (simp add: channel_ops)

lemma posts_pending: "length (ch_pending (channel_run eng (replicate (length (ch_ready ch)) PostCall) ch))
    = length (ch_pending ch) + length (ch_ready ch)"
proof (induction "length (ch_ready ch)" arbitrary: ch)
  case (Suc n)
  obtain c rq w rest where r: "ch_ready ch = (c, rq, w) # rest" using Suc(2) by (cases "ch_ready ch") auto
  have "ch_ready (post_call ch) = rest" "length (ch_pending (post_call ch)) = Suc (length (ch_pending ch))"
    by (simp_all add: post_call_def r update_thread_def)
  then show ?case using Suc(1) [of "post_call ch"] Suc(2) r by (simp add: channel_run_def channel_step_def)
qed (simp add: channel_run_def)

lemma calls_ready:
  assumes "ch_worker ch = Some w" and "ch_pending ch = []" and "\<not> ch_terminated ch"
  shows "length (ch_ready (channel_run eng (replicate n (CallWorker rq)) ch)) = length (ch_ready ch) + n
    \<and> ch_pending (channel_run eng (replicate n (CallWorker rq)) ch) = []"
  using assms
proof (induction n arbitrary: ch)
  case (Suc n)
  have "ch_worker (call_worker rq ch) = Some w" "ch_pending (call_worker rq ch) = []" "\<not> ch_terminated (call_worker rq ch)"
    "length (ch_ready (call_worker rq ch)) = Suc (length (ch_ready ch))"
    using Suc.prems by (simp_all add: call_worker_def MAX_PENDING_def)
  then show ?case using Suc.IH [of "call_worker rq ch"] by (simp add: channel_run_def channel_step_def)
qed (simp add: channel_run_def)

lemma pending_exceeds_bound:
  assumes "ch_worker ch = Some w" and "ch_pending ch = []" and "\<not> ch_terminated ch" and "ch_ready ch = []"
  shows "length (ch_pending (channel_run eng (replicate n PostCall) (channel_run eng (replicate n (CallWorker rq)) ch))) = n"
  using calls_ready [OF assms(1-3), of eng n rq] assms(4)
    posts_pending [of eng "channel_run eng (replicate n (CallWorker rq)) ch"] by simp

end
