(* ===== verification/Outbox.thy ===== *)
theory Outbox
  imports Idb
begin

text \<open>
  The durable outbox, \<^verbatim>\<open>src/lib/sync/pending-store.ts\<close>. One IndexedDB store holds the records of
  all documents and accounts under keys \<open>storageId:replica:counter\<close>; a \<open>PendingOpStore\<close> is the
  view of one storage id. Each method is one transaction. \<open>localeCompare\<close>, which only breaks
  ties between equal sequence numbers, is a parameter. \<open>Date.now()\<close> is an input.
\<close>

section \<open>State\<close>

datatype OpSendState = Pending | Sent | Durably_acked

record PendingOpRecord =
  po_id :: string
  po_op :: bytes
  po_state :: OpSendState
  po_seq :: nat
  po_savedAt :: nat

record OutboxState =
  outbox :: "PendingOpRecord list"
  outbox_meta :: "string \<rightharpoonup> string"
  lastIssuedSequence :: nat

record StateCounts =
  sc_pending :: nat
  sc_sent :: nat
  sc_durably_acked :: nat

definition empty_outbox :: OutboxState where
  "empty_outbox = \<lparr>outbox = [], outbox_meta = Map.empty, lastIssuedSequence = 0\<rparr>"

section \<open>Operations\<close>

definition nextSequence :: "nat \<Rightarrow> OutboxState \<Rightarrow> nat \<times> OutboxState" where
  "nextSequence now st =
     (let s = max now (lastIssuedSequence st + 1) in (s, st\<lparr>lastIssuedSequence := s\<rparr>))"

definition outbox_key :: "string \<Rightarrow> string \<Rightarrow> string" where
  "outbox_key storageId i = storageId @ '':'' @ i"

definition outbox_get :: "string \<Rightarrow> PendingOpRecord list \<Rightarrow> PendingOpRecord option" where
  "outbox_get k xs = find (\<lambda>r. po_id r = k) xs"

fun outbox_put :: "PendingOpRecord \<Rightarrow> PendingOpRecord list \<Rightarrow> PendingOpRecord list" where
  "outbox_put r [] = [r]"
| "outbox_put r (x # xs) = (if po_id x = po_id r then r # xs else x # outbox_put r xs)"

text \<open>
  The key range \<open>[prefix, prefix + "\\uffff"]\<close> of the index holds the keys that begin with the
  prefix.
\<close>

definition has_prefix :: "string \<Rightarrow> string \<Rightarrow> bool" where
  "has_prefix p s \<longleftrightarrow> take (length p) s = p"

definition index_range :: "string \<Rightarrow> OpSendState \<Rightarrow> OutboxState \<Rightarrow> PendingOpRecord list" where
  "index_range storageId state st =
     filter (\<lambda>r. po_state r = state \<and> has_prefix (storageId @ '':'') (po_id r)) (outbox st)"

text \<open>
  \<open>hasLegacyUnacked\<close>: records of the time before accounts have a decimal replica right after the
  document id. The bounds \<open>prefix + "1"\<close> and \<open>prefix + "9\\uffff"\<close> admit the keys whose next
  character is a digit from 1 to 9.
\<close>

definition legacy_range :: "string \<Rightarrow> OpSendState \<Rightarrow> OutboxState \<Rightarrow> PendingOpRecord list" where
  "legacy_range documentId state st =
     filter (\<lambda>r. po_state r = state \<and> has_prefix (documentId @ '':'') (po_id r)
       \<and> (case drop (length documentId + 1) (po_id r) of
            [] \<Rightarrow> False | c # cs \<Rightarrow> 49 \<le> (of_char c :: nat) \<and> (of_char c :: nat) \<le> 57)) (outbox st)"

definition hasLegacyUnacked :: "string \<Rightarrow> OutboxState \<Rightarrow> bool" where
  "hasLegacyUnacked documentId st \<longleftrightarrow>
     0 < length (legacy_range documentId Pending st) + length (legacy_range documentId Sent st)"

definition lastSeenCounter :: "string \<Rightarrow> OutboxState \<Rightarrow> string" where
  "lastSeenCounter storageId st = get_or ''0'' (outbox_meta st storageId)"

text \<open>
  \<open>addPending\<close>. When \<open>BigInt\<close> throws the transaction is aborted, so only the sequence number
  that was drawn before it stays used; \<open>None\<close> beside the state is that failure.
\<close>

definition addPending ::
  "string \<Rightarrow> string \<Rightarrow> bytes \<Rightarrow> nat \<Rightarrow> nat \<Rightarrow> OutboxState \<Rightarrow> OutboxState \<times> unit option" where
  "addPending storageId i op now savedAt st0 =
     (case nextSequence now st0 of
        (sq, st) \<Rightarrow>
          let r = \<lparr>po_id = outbox_key storageId i, po_op = op, po_state = Pending, po_seq = sq,
                   po_savedAt = savedAt\<rparr>;
              box = (case outbox_get (po_id r) (outbox st) of
                       None \<Rightarrow> outbox_put r (outbox st) | Some _ \<Rightarrow> outbox st);
              counter = last (split_on CHR '':'' i)
          in (case (js_BigInt counter, js_BigInt (get_or ''0'' (outbox_meta st storageId))) of
                (Some n, Some m) \<Rightarrow>
                  (st\<lparr>outbox := box,
                      outbox_meta := (if m < n then (outbox_meta st)(storageId \<mapsto> counter)
                                      else outbox_meta st)\<rparr>, Some ())
              | _ \<Rightarrow> (st, None)))"

text \<open>Insertion by the comparison \<open>a.seq - b.seq || a.id.localeCompare(b.id)\<close>.\<close>

definition seq_before :: "(string \<Rightarrow> string \<Rightarrow> bool) \<Rightarrow> PendingOpRecord \<Rightarrow> PendingOpRecord \<Rightarrow> bool" where
  "seq_before collate a b \<longleftrightarrow>
     po_seq a < po_seq b \<or> (po_seq a = po_seq b \<and> collate (po_id a) (po_id b))"

fun insert_by :: "('a \<Rightarrow> 'a \<Rightarrow> bool) \<Rightarrow> 'a \<Rightarrow> 'a list \<Rightarrow> 'a list" where
  "insert_by le x [] = [x]"
| "insert_by le x (y # ys) = (if le x y then x # y # ys else y # insert_by le x ys)"

definition sort_by :: "('a \<Rightarrow> 'a \<Rightarrow> bool) \<Rightarrow> 'a list \<Rightarrow> 'a list" where
  "sort_by le xs = foldr (insert_by le) xs []"

definition unackedOps ::
  "(string \<Rightarrow> string \<Rightarrow> bool) \<Rightarrow> string \<Rightarrow> OutboxState \<Rightarrow> PendingOpRecord list" where
  "unackedOps collate storageId st =
     sort_by (seq_before collate) (index_range storageId Pending st @ index_range storageId Sent st)"

definition ackedIds :: "string \<Rightarrow> OutboxState \<Rightarrow> string list" where
  "ackedIds storageId st =
     map (\<lambda>r. drop (length storageId + 1) (po_id r)) (index_range storageId Durably_acked st)"

definition transition_one ::
  "string \<Rightarrow> OpSendState \<Rightarrow> PendingOpRecord list \<Rightarrow> string \<Rightarrow> PendingOpRecord list" where
  "transition_one storageId state box i =
     (case outbox_get (outbox_key storageId i) box of
        None \<Rightarrow> box
      | Some r \<Rightarrow> if po_state r = Durably_acked then box else outbox_put (r\<lparr>po_state := state\<rparr>) box)"

definition transition :: "string \<Rightarrow> string list \<Rightarrow> OpSendState \<Rightarrow> OutboxState \<Rightarrow> OutboxState" where
  "transition storageId ids state st =
     (if ids = [] then st
      else st\<lparr>outbox := foldl (transition_one storageId state) (outbox st) ids\<rparr>)"

definition markSent :: "string \<Rightarrow> string list \<Rightarrow> OutboxState \<Rightarrow> OutboxState" where
  "markSent storageId ids st = transition storageId ids Sent st"

definition markDurablyAcked :: "string \<Rightarrow> string list \<Rightarrow> OutboxState \<Rightarrow> OutboxState" where
  "markDurablyAcked storageId ids st = transition storageId ids Durably_acked st"

fun clear_loop ::
  "string \<Rightarrow> string list \<Rightarrow> string list \<Rightarrow> PendingOpRecord list \<Rightarrow> PendingOpRecord list \<times> string list" where
  "clear_loop storageId cov [] box = (box, [])"
| "clear_loop storageId cov (i # is) box =
     (if i \<notin> set cov then clear_loop storageId cov is box
      else case outbox_get (outbox_key storageId i) box of
        Some r \<Rightarrow>
          if po_state r = Durably_acked then
            (case clear_loop storageId cov is (filter (\<lambda>x. po_id x \<noteq> outbox_key storageId i) box) of
               (box', removed) \<Rightarrow> (box', i # removed))
          else clear_loop storageId cov is box
      | None \<Rightarrow> clear_loop storageId cov is box)"

text \<open>\<open>clearAcked\<close> reads the coverage from the CRDT database and prunes it there afterwards.\<close>

definition clearAcked ::
  "string \<Rightarrow> string list \<Rightarrow> OutboxState \<Rightarrow> IdbState \<Rightarrow> idb_error + (nat \<times> OutboxState \<times> IdbState)" where
  "clearAcked storageId ids st idb =
     (if ids = [] then Inr (0, st, idb)
      else bindE (readCoveredOpIds storageId ids idb) (\<lambda>cov.
        if cov = [] then Inr (0, st, idb)
        else case clear_loop storageId cov ids (outbox st) of
          (box, removed) \<Rightarrow>
            Inr (length removed, st\<lparr>outbox := box\<rparr>,
                 if removed = [] then idb else clearCoveredOpIds storageId removed idb)))"

definition stateCounts :: "string \<Rightarrow> OutboxState \<Rightarrow> StateCounts" where
  "stateCounts storageId st =
     \<lparr>sc_pending = length (index_range storageId Pending st),
      sc_sent = length (index_range storageId Sent st),
      sc_durably_acked = length (index_range storageId Durably_acked st)\<rparr>"

section \<open>Records by key\<close>

definition keys_distinct :: "PendingOpRecord list \<Rightarrow> bool" where
  "keys_distinct box \<longleftrightarrow> distinct (map po_id box)"

lemma outbox_key_inject [simp]: "outbox_key sid i = outbox_key sid j \<longleftrightarrow> i = j"
  by (simp add: outbox_key_def)

lemma has_prefix_key [simp]: "has_prefix (sid @ '':'') (outbox_key sid i)"
  by (simp add: has_prefix_def outbox_key_def)

lemma prefix_is_key: "has_prefix (sid @ '':'') k \<Longrightarrow> k = outbox_key sid (drop (length sid + 1) k)"
  unfolding has_prefix_def outbox_key_def
  by (metis append.assoc append_take_drop_id length_append list.size(3,4) One_nat_def add.right_neutral
      add_Suc_right)

lemma outbox_get_Some: "outbox_get k box = Some r \<Longrightarrow> r \<in> set box \<and> po_id r = k"
  by (auto simp: outbox_get_def find_Some_iff)

lemma outbox_get_mem:
  "keys_distinct box \<Longrightarrow> outbox_get k box = Some r \<longleftrightarrow> r \<in> set box \<and> po_id r = k"
proof (induction box)
  case (Cons x xs)
  then show ?case by (auto simp: outbox_get_def keys_distinct_def)
qed (simp add: outbox_get_def)

lemma outbox_get_put: "outbox_get k (outbox_put r box) = (if k = po_id r then Some r else outbox_get k box)"
  by (induction box) (auto simp: outbox_get_def)

lemma keys_outbox_put: "po_id ` set (outbox_put r box) = insert (po_id r) (po_id ` set box)"
  by (induction box) auto

lemma keys_distinct_put: "keys_distinct box \<Longrightarrow> keys_distinct (outbox_put r box)"
proof (induction box)
  case (Cons x xs)
  then show ?case using keys_outbox_put[of r xs] by (auto simp: keys_distinct_def simp del: set_map)
      (metis image_eqI insertE list.set_map)+
qed (simp add: keys_distinct_def)

lemma outbox_get_remove:
  "outbox_get k (filter (\<lambda>x. po_id x \<noteq> k') box) = (if k = k' then None else outbox_get k box)"
  by (induction box) (auto simp: outbox_get_def)

lemma keys_distinct_filter: "keys_distinct box \<Longrightarrow> keys_distinct (filter P box)"
  by (simp add: keys_distinct_def distinct_map_filter)

lemma set_insert_by [simp]: "set (insert_by le x xs) = insert x (set xs)"
  by (induction xs) auto

lemma set_sort_by [simp]: "set (sort_by le xs) = set xs"
  by (induction xs) (auto simp: sort_by_def)

lemma length_insert_by [simp]: "length (insert_by le x xs) = Suc (length xs)"
  by (induction xs) auto

lemma length_sort_by [simp]: "length (sort_by le xs) = length xs"
  by (induction xs) (auto simp: sort_by_def)

lemma distinct_map_insert_by:
  "distinct (map f (insert_by le x xs)) \<longleftrightarrow> f x \<notin> f ` set xs \<and> distinct (map f xs)"
  by (induction xs) auto

lemma distinct_map_sort_by [simp]: "distinct (map f (sort_by le xs)) \<longleftrightarrow> distinct (map f xs)"
proof (induction xs)
  case (Cons x xs)
  then show ?case
    using distinct_map_insert_by[of f le x "sort_by le xs"]
    by (simp add: sort_by_def[of _ "x # xs"] sort_by_def[symmetric])
qed (simp add: sort_by_def)

lemma mem_unacked:
  "r \<in> set (unackedOps collate sid st) \<longleftrightarrow>
    r \<in> set (outbox st) \<and> po_state r \<noteq> Durably_acked \<and> has_prefix (sid @ '':'') (po_id r)"
  by (cases "po_state r") (auto simp: unackedOps_def index_range_def)

lemma distinct_unacked: "keys_distinct (outbox st) \<Longrightarrow> distinct (map po_id (unackedOps collate sid st))"
proof -
  assume "keys_distinct (outbox st)"
  then have "distinct (map po_id (index_range sid Pending st))" "distinct (map po_id (index_range sid Sent st))"
    and inj: "inj_on po_id (set (outbox st))"
    by (auto simp: keys_distinct_def index_range_def distinct_map_filter) (simp add: distinct_map)
  moreover have "po_id ` set (index_range sid Pending st) \<inter> po_id ` set (index_range sid Sent st) = {}"
  proof -
    have False if "a \<in> set (index_range sid Pending st)" "b \<in> set (index_range sid Sent st)"
      and "po_id a = po_id b" for a b
      using that(1,2) inj_onD[OF inj that(3)] by (auto simp: index_range_def)
    then show ?thesis by blast
  qed
  ultimately show ?thesis by (simp add: unackedOps_def)
qed

lemma seq_sorted_insert_by:
  "sorted (map po_seq xs) \<Longrightarrow> sorted (map po_seq (insert_by (seq_before collate) x xs))"
  by (induction xs) (auto simp: seq_before_def)

lemma seq_sorted_unacked: "sorted (map po_seq (unackedOps collate sid st))"
proof -
  have "sorted (map po_seq (sort_by (seq_before collate) xs))" for xs
    by (induction xs) (auto simp: sort_by_def seq_sorted_insert_by)
  then show ?thesis by (simp add: unackedOps_def)
qed

section \<open>Every operation on a record\<close>

text \<open>The effect of each operation on the record under one key.\<close>

lemma get_transition_one:
  "outbox_get k (transition_one sid state box i) =
    (case outbox_get k box of
       None \<Rightarrow> None
     | Some r \<Rightarrow> if k = outbox_key sid i \<and> po_state r \<noteq> Durably_acked then Some (r\<lparr>po_state := state\<rparr>) else Some r)"
proof (cases "outbox_get (outbox_key sid i) box")
  case None
  then show ?thesis by (auto simp: transition_one_def split: option.splits)
next
  case (Some r)
  then have "po_id r = outbox_key sid i" by (auto dest: outbox_get_Some)
  with Some show ?thesis
    by (auto simp: transition_one_def outbox_get_put split: option.splits)
qed

lemma keys_distinct_transition_one: "keys_distinct box \<Longrightarrow> keys_distinct (transition_one sid state box i)"
  by (auto simp: transition_one_def keys_distinct_put split: option.splits)

lemma keys_distinct_transitions:
  "keys_distinct box \<Longrightarrow> keys_distinct (foldl (transition_one sid state) box ids)"
  by (induction ids arbitrary: box) (auto simp: keys_distinct_transition_one)

lemma get_transitions:
  "outbox_get k (foldl (transition_one sid state) box ids) =
    (case outbox_get k box of
       None \<Rightarrow> None
     | Some r \<Rightarrow> if (\<exists>i \<in> set ids. k = outbox_key sid i) \<and> po_state r \<noteq> Durably_acked
                 then Some (r\<lparr>po_state := state\<rparr>) else Some r)"
proof (induction ids arbitrary: box)
  case (Cons i ids)
  then show ?case by (auto simp: get_transition_one split: option.splits)
qed (auto split: option.splits)

lemma get_transition:
  "outbox_get k (outbox (transition sid ids state st)) =
    (case outbox_get k (outbox st) of
       None \<Rightarrow> None
     | Some r \<Rightarrow> if (\<exists>i \<in> set ids. k = outbox_key sid i) \<and> po_state r \<noteq> Durably_acked
                 then Some (r\<lparr>po_state := state\<rparr>) else Some r)"
  by (auto simp: transition_def get_transitions split: option.splits)

lemma keys_distinct_transition: "keys_distinct (outbox st) \<Longrightarrow> keys_distinct (outbox (transition sid ids state st))"
  by (simp add: transition_def keys_distinct_transitions)

lemma get_addPending:
  "outbox_get k (outbox (fst (addPending sid i op now t st))) =
    (case outbox_get k (outbox st) of
       Some r \<Rightarrow> Some r
     | None \<Rightarrow> if k = outbox_key sid i \<and> snd (addPending sid i op now t st) = Some ()
               then Some \<lparr>po_id = k, po_op = op, po_state = Pending,
                 po_seq = max now (lastIssuedSequence st + 1), po_savedAt = t\<rparr>
               else None)"
  by (auto simp: addPending_def nextSequence_def Let_def outbox_get_put split: option.splits)

lemma keys_distinct_addPending:
  "keys_distinct (outbox st) \<Longrightarrow> keys_distinct (outbox (fst (addPending sid i op now t st)))"
  by (auto simp: addPending_def nextSequence_def Let_def keys_distinct_put split: option.splits)

lemma clear_loop_spec:
  assumes "clear_loop sid cov ids box = (box', removed)"
  shows "outbox_get k box' = (if \<exists>i \<in> set removed. k = outbox_key sid i then None else outbox_get k box)"
    and "i \<in> set removed \<longleftrightarrow> i \<in> set ids \<and> i \<in> set cov
      \<and> (\<exists>r. outbox_get (outbox_key sid i) box = Some r \<and> po_state r = Durably_acked)"
    and "keys_distinct box \<Longrightarrow> keys_distinct box'"
proof -
  have "(\<forall>k. outbox_get k box' = (if \<exists>i \<in> set removed. k = outbox_key sid i then None else outbox_get k box))
    \<and> (\<forall>i. i \<in> set removed \<longleftrightarrow> i \<in> set ids \<and> i \<in> set cov
      \<and> (\<exists>r. outbox_get (outbox_key sid i) box = Some r \<and> po_state r = Durably_acked))
    \<and> (keys_distinct box \<longrightarrow> keys_distinct box')"
    using assms
  proof (induction ids arbitrary: box box' removed)
    case (Cons j ids)
    consider "j \<in> set cov" "\<exists>r. outbox_get (outbox_key sid j) box = Some r \<and> po_state r = Durably_acked"
      | "\<not> (j \<in> set cov \<and> (\<exists>r. outbox_get (outbox_key sid j) box = Some r \<and> po_state r = Durably_acked))"
      by blast
    then show ?case
    proof cases
      case 1
      let ?box = "filter (\<lambda>x. po_id x \<noteq> outbox_key sid j) box"
      obtain rem where rem: "clear_loop sid cov ids ?box = (box', rem)" "removed = j # rem"
        using Cons.prems 1 by (auto split: prod.splits)
      from Cons.IH[OF rem(1)] 1 show ?thesis
        by (auto simp: rem(2) outbox_get_remove keys_distinct_filter)
    next
      case 2
      then have "clear_loop sid cov ids box = (box', removed)"
        using Cons.prems by (auto split: if_splits option.splits)
      from Cons.IH[OF this] 2 show ?thesis by auto
    qed
  qed simp
  then show "outbox_get k box' = (if \<exists>i \<in> set removed. k = outbox_key sid i then None else outbox_get k box)"
    and "i \<in> set removed \<longleftrightarrow> i \<in> set ids \<and> i \<in> set cov
      \<and> (\<exists>r. outbox_get (outbox_key sid i) box = Some r \<and> po_state r = Durably_acked)"
    and "keys_distinct box \<Longrightarrow> keys_distinct box'" by blast+
qed

lemma clearAcked_get:
  assumes "clearAcked sid ids st idb = Inr (n, st', idb')" and "outbox_get k (outbox st) = Some r"
  shows "outbox_get k (outbox st') = Some r
    \<or> outbox_get k (outbox st') = None \<and> po_state r = Durably_acked
      \<and> (\<exists>i cov. k = outbox_key sid i \<and> i \<in> set ids
           \<and> readCoveredOpIds sid ids idb = Inr cov \<and> i \<in> set cov)"
proof (cases "ids = []")
  case True
  with assms show ?thesis by (simp add: clearAcked_def)
next
  case False
  then obtain cov where cov: "readCoveredOpIds sid ids idb = Inr cov"
    using assms(1) by (auto simp: clearAcked_def bindE_Inr_iff)
  show ?thesis
  proof (cases "cov = []")
    case True
    with assms False cov show ?thesis by (simp add: clearAcked_def)
  next
    case ne: False
    obtain box removed where cl: "clear_loop sid cov ids (outbox st) = (box, removed)" by fastforce
    then have "st' = st\<lparr>outbox := box\<rparr>" using assms(1) False ne cov by (simp add: clearAcked_def)
    then show ?thesis
      using clear_loop_spec(1)[OF cl, of k] clear_loop_spec(2)[OF cl] assms(2) cov by auto
  qed
qed

lemma keys_distinct_clearAcked:
  assumes "clearAcked sid ids st idb = Inr (n, st', idb')" and "keys_distinct (outbox st)"
  shows "keys_distinct (outbox st')"
proof (cases "ids = []")
  case True
  with assms show ?thesis by (simp add: clearAcked_def)
next
  case False
  then obtain cov where cov: "readCoveredOpIds sid ids idb = Inr cov"
    using assms(1) by (auto simp: clearAcked_def bindE_Inr_iff)
  obtain box removed where cl: "clear_loop sid cov ids (outbox st) = (box, removed)" by fastforce
  show ?thesis
    using assms False cov cl clear_loop_spec(3)[OF cl]
    by (cases "cov = []") (auto simp: clearAcked_def)
qed

section \<open>Runs\<close>

text \<open>
  The calls a session makes on its outbox, and the appends the worker makes to the CRDT database
  meanwhile, in any order. A call that throws leaves what its transaction left.
\<close>

datatype outbox_action =
    Add string bytes nat nat
  | MarkSent "string list"
  | MarkAcked "string list"
  | Clear "string list"
  | Log "bytes list" "SyncProof option"

type_synonym outbox_world = "OutboxState \<times> IdbState"

fun outbox_step :: "string \<Rightarrow> outbox_world \<Rightarrow> outbox_action \<Rightarrow> outbox_world" where
  "outbox_step sid (st, idb) (Add i op now t) = (fst (addPending sid i op now t st), idb)"
| "outbox_step sid (st, idb) (MarkSent ids) = (markSent sid ids st, idb)"
| "outbox_step sid (st, idb) (MarkAcked ids) = (markDurablyAcked sid ids st, idb)"
| "outbox_step sid (st, idb) (Clear ids) =
     (case clearAcked sid ids st idb of Inl e \<Rightarrow> (st, idb) | Inr (n, st', idb') \<Rightarrow> (st', idb'))"
| "outbox_step sid (st, idb) (Log ops sync) = (st, fst (appendOps sid ops sync idb))"

definition outbox_run :: "string \<Rightarrow> outbox_world \<Rightarrow> outbox_action list \<Rightarrow> outbox_world" where
  "outbox_run sid w acts = foldl (outbox_step sid) w acts"

lemma keys_distinct_step:
  "keys_distinct (outbox (fst w)) \<Longrightarrow> keys_distinct (outbox (fst (outbox_step sid w a)))"
  by (cases w; cases a)
    (auto simp: keys_distinct_addPending markSent_def markDurablyAcked_def keys_distinct_transition
      split: sum.splits dest: keys_distinct_clearAcked)

definition same_op :: "PendingOpRecord \<Rightarrow> PendingOpRecord \<Rightarrow> bool" where
  "same_op r r' \<longleftrightarrow> po_id r' = po_id r \<and> po_op r' = po_op r \<and> po_seq r' = po_seq r"

lemma unacked_step:
  assumes "outbox_get (outbox_key sid i) (outbox (fst w)) = Some r" and "po_state r \<noteq> Durably_acked"
    and "\<And>ids. a = MarkAcked ids \<Longrightarrow> i \<notin> set ids"
  shows "\<exists>r'. outbox_get (outbox_key sid i) (outbox (fst (outbox_step sid w a))) = Some r'
    \<and> same_op r r' \<and> po_state r' \<noteq> Durably_acked"
proof (cases w)
  case (Pair st idb)
  show ?thesis
  proof (cases a)
    case (Clear ids)
    then show ?thesis
      using assms clearAcked_get[of sid ids st idb]
      by (auto simp: Pair same_op_def split: sum.splits) (metis option.inject)
  qed (use assms in \<open>auto simp: Pair same_op_def get_addPending markSent_def markDurablyAcked_def
      get_transition split: option.splits\<close>)
qed

text \<open>
  The coverage that \<open>clearAcked\<close> asks for: a logged row of that identity was covered in a page at or before the cursor
  the database holds.
\<close>

definition covered_by_cursor :: "string \<Rightarrow> string \<Rightarrow> IdbState \<Rightarrow> bool" where
  "covered_by_cursor sid i idb \<longleftrightarrow>
     (\<exists>row \<in> set (oplog idb). \<exists>c. ol_documentId row = sid \<and> ol_identity row = Some i \<and> ol_coveredAtCursor row = Some c
        \<and> dec_val c \<le> dec_val (get_or ''0'' (syncState idb sid)))"

lemma some_covered_row:
  "some_covered cursor rows = Inr True \<Longrightarrow>
   \<exists>row \<in> set rows. \<exists>c. ol_coveredAtCursor row = Some c \<and> dec_val c \<le> dec_val cursor"
proof (induction rows)
  case (Cons r rows)
  then show ?case
    by (fastforce simp: bindE_Inr_iff row_covered_def maxCursor_def split: if_splits option.splits)
qed simp

lemma covered_of_sound:
  "covered_of sid cursor log ids = Inr cov \<Longrightarrow> i \<in> set cov \<Longrightarrow> some_covered cursor (rows_of sid i log) = Inr True"
  by (induction ids arbitrary: cov) (auto simp: bindE_Inr_iff split: if_splits)

lemma covered_read: "readCoveredOpIds sid ids idb = Inr cov \<Longrightarrow> i \<in> set cov \<Longrightarrow> covered_by_cursor sid i idb"
  unfolding readCoveredOpIds_def covered_by_cursor_def
  by (drule (1) covered_of_sound, drule some_covered_row) (auto simp: rows_of_def)

text \<open>How a record changes: its bytes and place stay, it becomes acknowledged by name, it goes only acknowledged and covered.\<close>

lemma record_step:
  assumes "outbox_get (outbox_key sid i) (outbox (fst w)) = Some r"
  shows "(\<exists>r'. outbox_get (outbox_key sid i) (outbox (fst (outbox_step sid w a))) = Some r' \<and> same_op r r'
      \<and> (po_state r' = Durably_acked \<longrightarrow> po_state r = Durably_acked \<or> (\<exists>ids. a = MarkAcked ids \<and> i \<in> set ids)))
    \<or> (\<exists>ids. a = Clear ids \<and> i \<in> set ids \<and> po_state r = Durably_acked \<and> covered_by_cursor sid i (snd w))"
proof (cases w)
  case (Pair st idb)
  show ?thesis
  proof (cases a)
    case (Clear ids)
    then show ?thesis
      using assms clearAcked_get[of sid ids st idb _ _ _ "outbox_key sid i" r] covered_read [of sid ids idb _ i]
      by (cases "clearAcked sid ids st idb") (fastforce simp: Pair same_op_def)+
  qed (use assms in \<open>auto simp: Pair same_op_def get_addPending markSent_def markDurablyAcked_def
      get_transition split: option.splits if_splits\<close>)
qed

lemma run_Cons: "outbox_run sid w (a # acts) = outbox_run sid (outbox_step sid w a) acts"
  by (simp add: outbox_run_def)

lemma record_run:
  assumes "outbox_get (outbox_key sid i) (outbox (fst w)) = Some r"
  shows "(\<exists>r'. outbox_get (outbox_key sid i) (outbox (fst (outbox_run sid w acts))) = Some r' \<and> same_op r r'
      \<and> (po_state r' = Durably_acked \<longrightarrow> po_state r = Durably_acked \<or> (\<exists>ids. MarkAcked ids \<in> set acts \<and> i \<in> set ids)))
    \<or> (\<exists>pre ids post. acts = pre @ Clear ids # post \<and> i \<in> set ids
      \<and> (po_state r = Durably_acked \<or> (\<exists>ids. MarkAcked ids \<in> set pre \<and> i \<in> set ids))
      \<and> covered_by_cursor sid i (snd (outbox_run sid w pre)))"
  using assms
proof (induction acts arbitrary: w r)
  case Nil
  then show ?case by (auto simp: outbox_run_def same_op_def)
next
  case (Cons a acts)
  from record_step [OF Cons.prems, of a] show ?case
  proof
    assume "\<exists>r'. outbox_get (outbox_key sid i) (outbox (fst (outbox_step sid w a))) = Some r' \<and> same_op r r'
      \<and> (po_state r' = Durably_acked \<longrightarrow> po_state r = Durably_acked \<or> (\<exists>ids. a = MarkAcked ids \<and> i \<in> set ids))"
    then obtain r1 where r1: "outbox_get (outbox_key sid i) (outbox (fst (outbox_step sid w a))) = Some r1" "same_op r r1"
      "po_state r1 = Durably_acked \<longrightarrow> po_state r = Durably_acked \<or> (\<exists>ids. a = MarkAcked ids \<and> i \<in> set ids)" by blast
    from Cons.IH [OF r1(1)] show ?case
    proof
      assume "\<exists>r'. outbox_get (outbox_key sid i) (outbox (fst (outbox_run sid (outbox_step sid w a) acts))) = Some r'
        \<and> same_op r1 r' \<and> (po_state r' = Durably_acked \<longrightarrow> po_state r1 = Durably_acked
          \<or> (\<exists>ids. MarkAcked ids \<in> set acts \<and> i \<in> set ids))"
      then obtain r2 where r2: "outbox_get (outbox_key sid i) (outbox (fst (outbox_run sid (outbox_step sid w a) acts))) = Some r2"
        "same_op r1 r2" "po_state r2 = Durably_acked \<longrightarrow> po_state r1 = Durably_acked
          \<or> (\<exists>ids. MarkAcked ids \<in> set acts \<and> i \<in> set ids)" by blast
      have "same_op r r2" using r1(2) r2(2) by (simp add: same_op_def)
      then show ?case using r1(3) r2(1,3) by (auto simp: run_Cons)
    next
      assume "\<exists>pre ids post. acts = pre @ Clear ids # post \<and> i \<in> set ids
        \<and> (po_state r1 = Durably_acked \<or> (\<exists>ids. MarkAcked ids \<in> set pre \<and> i \<in> set ids))
        \<and> covered_by_cursor sid i (snd (outbox_run sid (outbox_step sid w a) pre))"
      then obtain pre ids post where p: "acts = pre @ Clear ids # post" "i \<in> set ids"
        "po_state r1 = Durably_acked \<or> (\<exists>ids. MarkAcked ids \<in> set pre \<and> i \<in> set ids)"
        "covered_by_cursor sid i (snd (outbox_run sid (outbox_step sid w a) pre))" by blast
      have "a # acts = (a # pre) @ Clear ids # post" using p(1) by simp
      moreover have "po_state r = Durably_acked \<or> (\<exists>ids. MarkAcked ids \<in> set (a # pre) \<and> i \<in> set ids)"
        using r1(3) p(3) by auto
      ultimately show ?case using p(2,4) run_Cons [of sid w a pre] by metis
    qed
  next
    assume "\<exists>ids. a = Clear ids \<and> i \<in> set ids \<and> po_state r = Durably_acked \<and> covered_by_cursor sid i (snd w)"
    then obtain ids where c: "a = Clear ids" "i \<in> set ids" "po_state r = Durably_acked" "covered_by_cursor sid i (snd w)" by blast
    have "a # acts = [] @ Clear ids # acts" "outbox_run sid w [] = w" using c(1) by (simp_all add: outbox_run_def)
    then show ?case using c by metis
  qed
qed

section \<open>The contract a session relies on\<close>

text \<open>
  What flushing and acknowledging need of an outbox: the identities still to be acknowledged, in
  order, and the two transitions. \<open>drain\<close> is the exchange with a server that acknowledges each
  batch: send the first \<open>m\<close>, mark them sent, mark them acknowledged.
\<close>

fun drain ::
  "nat \<Rightarrow> ('s \<Rightarrow> 'i list) \<Rightarrow> ('i list \<Rightarrow> 's \<Rightarrow> 's) \<Rightarrow> ('i list \<Rightarrow> 's \<Rightarrow> 's) \<Rightarrow> nat \<Rightarrow> 's \<Rightarrow> 's" where
  "drain m unacked sent acked 0 s = s"
| "drain m unacked sent acked (Suc n) s =
     (let batch = take m (unacked s)
      in drain m unacked sent acked n (acked batch (sent batch s)))"

locale durable_outbox =
  fixes unacked :: "'s \<Rightarrow> 'i list"
    and sent :: "'i list \<Rightarrow> 's \<Rightarrow> 's"
    and acked :: "'i list \<Rightarrow> 's \<Rightarrow> 's"
    and ok :: "'s \<Rightarrow> bool"
  assumes ok_sent: "ok s \<Longrightarrow> ok (sent is s)"
    and ok_acked: "ok s \<Longrightarrow> ok (acked is s)"
    and distinct_unacked: "ok s \<Longrightarrow> distinct (unacked s)"
    and unacked_sent: "ok s \<Longrightarrow> set (unacked (sent is s)) = set (unacked s)"
    and unacked_acked: "ok s \<Longrightarrow> set (unacked (acked is s)) = set (unacked s) - set is"
begin

lemma one_batch:
  fixes m :: nat
  assumes "ok s"
  defines "batch \<equiv> take m (unacked s)"
  shows "length (unacked (acked batch (sent batch s))) = length (unacked s) - m"
proof -
  have ok': "ok (sent batch s)" "ok (acked batch (sent batch s))"
    using assms(1) ok_sent ok_acked by blast+
  have "set (unacked (acked batch (sent batch s))) = set (unacked s) - set batch"
    using assms(1) ok' unacked_sent unacked_acked by simp
  then have "length (unacked (acked batch (sent batch s))) = card (set (unacked s) - set batch)"
    using distinct_card[OF distinct_unacked[OF ok'(2)]] by simp
  also have "\<dots> = card (set (unacked s)) - card (set batch)"
    by (rule card_Diff_subset) (auto simp: batch_def dest: in_set_takeD)
  also have "\<dots> = length (unacked s) - length batch"
    using distinct_unacked[OF assms(1)] by (simp add: distinct_card batch_def)
  finally show ?thesis by (auto simp: batch_def)
qed

lemma drain_length:
  "ok s \<Longrightarrow> length (unacked (drain m unacked sent acked n s)) = length (unacked s) - n * m"
proof (induction n arbitrary: s)
  case (Suc n)
  let ?s = "acked (take m (unacked s)) (sent (take m (unacked s)) s)"
  have "ok ?s" using Suc.prems ok_sent ok_acked by blast
  from Suc.IH[OF this] one_batch[OF Suc.prems, of m] show ?case
    by (simp add: Let_def diff_diff_eq)
qed simp

lemma drain_empties: "ok s \<Longrightarrow> length (unacked s) \<le> n * m \<Longrightarrow> unacked (drain m unacked sent acked n s) = []"
  using drain_length[of s m n] by simp

end

text \<open>\<open>record.id.split(":").slice(-2).join(":")\<close>\<close>

definition record_identity :: "string \<Rightarrow> string" where
  "record_identity k = (let ss = split_on CHR '':'' k in join_on CHR '':'' (drop (length ss - 2) ss))"

lemma record_identity_key [simp]:
  "record_identity (outbox_key sid (formatOpIdentity a b)) = formatOpIdentity a b"
proof -
  have "split_on CHR '':'' (outbox_key sid (formatOpIdentity a b))
      = split_on CHR '':'' sid @ [show_nat a, show_nat b]"
    by (simp add: outbox_key_def split_on_join)
  then show ?thesis by (simp add: record_identity_def formatOpIdentity_def)
qed

text \<open>
  The records in a storage id's range are its own: their keys are the storage id and an
  operation identity. Records of another storage id that extends this one would be in the range
  too; see \<open>other_namespace_in_range\<close>.
\<close>

definition own_range :: "string \<Rightarrow> PendingOpRecord list \<Rightarrow> bool" where
  "own_range sid box \<longleftrightarrow>
     keys_distinct box
     \<and> (\<forall>r \<in> set box. has_prefix (sid @ '':'') (po_id r)
          \<longrightarrow> po_id r = outbox_key sid (record_identity (po_id r)))"

definition unacked_ids :: "(string \<Rightarrow> string \<Rightarrow> bool) \<Rightarrow> string \<Rightarrow> OutboxState \<Rightarrow> string list" where
  "unacked_ids collate sid st = map (\<lambda>r. record_identity (po_id r)) (unackedOps collate sid st)"

lemma own_range_get:
  assumes "keys_distinct box'" and "own_range sid box"
    and "\<And>k r'. outbox_get k box' = Some r' \<Longrightarrow> outbox_get k box \<noteq> None"
  shows "own_range sid box'"
  unfolding own_range_def
proof (intro conjI ballI impI assms(1))
  fix r assume r: "r \<in> set box'" "has_prefix (sid @ '':'') (po_id r)"
  then have "outbox_get (po_id r) box' = Some r" using outbox_get_mem[OF assms(1)] by simp
  from assms(3)[OF this] obtain r0 where "outbox_get (po_id r) box = Some r0" by auto
  then have "r0 \<in> set box" "po_id r0 = po_id r" by (auto dest: outbox_get_Some)
  with assms(2) r show "po_id r = outbox_key sid (record_identity (po_id r))"
    by (auto simp: own_range_def)
qed

lemma own_range_transition:
  "own_range sid (outbox st) \<Longrightarrow> own_range sid (outbox (transition sid ids state st))"
proof -
  assume o: "own_range sid (outbox st)"
  then have "keys_distinct (outbox (transition sid ids state st))"
    by (simp add: own_range_def keys_distinct_transition)
  then show ?thesis
    using o by (rule own_range_get) (auto simp: get_transition split: option.splits)
qed

lemma mem_unacked_ids:
  assumes "own_range sid (outbox st)"
  shows "i \<in> set (unacked_ids collate sid st) \<longleftrightarrow>
    (\<exists>r. outbox_get (outbox_key sid i) (outbox st) = Some r \<and> po_state r \<noteq> Durably_acked
       \<and> record_identity (outbox_key sid i) = i)"
proof -
  have d: "keys_distinct (outbox st)" using assms by (simp add: own_range_def)
  show ?thesis
  proof
    assume "i \<in> set (unacked_ids collate sid st)"
    then obtain r where r: "r \<in> set (outbox st)" "po_state r \<noteq> Durably_acked"
      "has_prefix (sid @ '':'') (po_id r)" "i = record_identity (po_id r)"
      by (auto simp: unacked_ids_def mem_unacked)
    then have "po_id r = outbox_key sid i" using assms by (simp add: own_range_def)
    then have "outbox_get (outbox_key sid i) (outbox st) = Some r" "record_identity (outbox_key sid i) = i"
      using r outbox_get_mem[OF d, of "outbox_key sid i" r] by simp_all
    with r(2) show "\<exists>r. outbox_get (outbox_key sid i) (outbox st) = Some r
      \<and> po_state r \<noteq> Durably_acked \<and> record_identity (outbox_key sid i) = i" by blast
  next
    assume "\<exists>r. outbox_get (outbox_key sid i) (outbox st) = Some r
      \<and> po_state r \<noteq> Durably_acked \<and> record_identity (outbox_key sid i) = i"
    then obtain r where "outbox_get (outbox_key sid i) (outbox st) = Some r"
      "po_state r \<noteq> Durably_acked" and i: "record_identity (outbox_key sid i) = i" by blast
    then have "r \<in> set (unackedOps collate sid st)" "po_id r = outbox_key sid i"
      using outbox_get_mem[OF d, of "outbox_key sid i" r] by (simp_all add: mem_unacked)
    then have "record_identity (outbox_key sid i) \<in> set (unacked_ids collate sid st)"
      unfolding unacked_ids_def set_map by (intro image_eqI[where x = r]) simp_all
    with i show "i \<in> set (unacked_ids collate sid st)" by simp
  qed
qed

lemma distinct_unacked_ids:
  assumes "own_range sid (outbox st)"
  shows "distinct (unacked_ids collate sid st)"
proof -
  have "distinct (map po_id (unackedOps collate sid st))"
    using assms by (simp add: own_range_def distinct_unacked)
  moreover have "po_id r = outbox_key sid (record_identity (po_id r))"
    if "r \<in> set (unackedOps collate sid st)" for r
    using that assms by (simp add: mem_unacked own_range_def)
  ultimately show ?thesis
    unfolding unacked_ids_def distinct_map inj_on_def by metis
qed

interpretation ob: durable_outbox "unacked_ids collate sid" "markSent sid" "markDurablyAcked sid"
  "\<lambda>st. own_range sid (outbox st)" for collate sid
proof unfold_locales
  fix s :: OutboxState and "is" :: "string list"
  assume ok: "own_range sid (outbox s)"
  show "own_range sid (outbox (markSent sid is s))" "own_range sid (outbox (markDurablyAcked sid is s))"
    using own_range_transition[OF ok] by (simp_all add: markSent_def markDurablyAcked_def)
  then show "set (unacked_ids collate sid (markSent sid is s)) = set (unacked_ids collate sid s)"
    "set (unacked_ids collate sid (markDurablyAcked sid is s)) = set (unacked_ids collate sid s) - set is"
    using ok
    by (auto simp: mem_unacked_ids markSent_def markDurablyAcked_def get_transition split: option.splits
        if_splits)
  show "distinct (unacked_ids collate sid s)" using ok by (rule distinct_unacked_ids)
qed

section \<open>Sequence numbers and counts\<close>

lemma own_range_addPending:
  assumes "own_range sid (outbox st)"
  shows "own_range sid (outbox (fst (addPending sid (formatOpIdentity a b) op now t st)))"
  unfolding own_range_def
proof (intro conjI ballI impI)
  let ?st = "fst (addPending sid (formatOpIdentity a b) op now t st)"
  show d: "keys_distinct (outbox ?st)"
    using assms by (simp add: own_range_def keys_distinct_addPending)
  fix r assume r: "r \<in> set (outbox ?st)" "has_prefix (sid @ '':'') (po_id r)"
  then have g: "outbox_get (po_id r) (outbox ?st) = Some r" using outbox_get_mem[OF d] by simp
  show "po_id r = outbox_key sid (record_identity (po_id r))"
  proof (cases "outbox_get (po_id r) (outbox st)")
    case None
    with g have "po_id r = outbox_key sid (formatOpIdentity a b)"
      by (auto simp: get_addPending split: if_splits)
    then show ?thesis by simp
  next
    case (Some r0)
    then show ?thesis
      using assms r(2) outbox_get_Some[OF Some] by (auto simp: own_range_def)
  qed
qed

lemma stateCounts_unacked:
  "sc_pending (stateCounts sid st) + sc_sent (stateCounts sid st) = length (unackedOps collate sid st)"
  by (simp add: stateCounts_def unackedOps_def)

lemma addPending_total: "snd (addPending sid (formatOpIdentity a b) op now t st) = Some ()
    \<longleftrightarrow> js_BigInt (lastSeenCounter sid st) \<noteq> None"
  by (auto simp: addPending_def nextSequence_def Let_def lastSeenCounter_def split: option.splits)

lemma lastSeen_addPending:
  assumes "lastSeenCounter sid st = show_nat m"
  shows "lastSeenCounter sid (fst (addPending sid (formatOpIdentity a b) op now t st)) = show_nat (max m b)"
  using assms by (auto simp: addPending_def nextSequence_def Let_def lastSeenCounter_def get_or_def max_def)

text \<open>
  The range of a storage id also covers the records of every storage id that extends it with
  \<open>:\<close>. A second tab's lease is \<open>base:replica:id\<close>, so the first tab lists that tab's records as its
  own, and since it derives their identity from the last two segments only, neither marking
  them sent nor marking them acknowledged reaches them.
\<close>

lemma other_namespace_in_range:
  assumes "outbox_get (outbox_key (base @ '':replica:'' @ tab) i) (outbox st) = Some r"
    and "po_state r \<noteq> Durably_acked" and "keys_distinct (outbox st)"
  shows "r \<in> set (unackedOps collate base st)"
    and "i = formatOpIdentity a b
      \<Longrightarrow> r \<in> set (unackedOps collate base (markDurablyAcked base [record_identity (po_id r)] st))"
proof -
  have id: "po_id r = outbox_key (base @ '':replica:'' @ tab) i" and m: "r \<in> set (outbox st)"
    using assms(1) by (auto dest: outbox_get_Some)
  then have p: "has_prefix (base @ '':'') (po_id r)" by (simp add: has_prefix_def outbox_key_def)
  with m assms(2) show "r \<in> set (unackedOps collate base st)" by (simp add: mem_unacked)
  assume i: "i = formatOpIdentity a b"
  then have "po_id r \<noteq> outbox_key base (record_identity (po_id r))"
    by (auto simp: id) (simp add: outbox_key_def formatOpIdentity_def)
  then have "outbox_get (po_id r) (outbox (markDurablyAcked base [record_identity (po_id r)] st)) = Some r"
    using assms(1) by (auto simp: markDurablyAcked_def get_transition id)
  then have "r \<in> set (outbox (markDurablyAcked base [record_identity (po_id r)] st))"
    by (auto dest: outbox_get_Some)
  with p assms(2) show "r \<in> set (unackedOps collate base (markDurablyAcked base [record_identity (po_id r)] st))"
    by (simp add: mem_unacked)
qed

section \<open>Properties\<close>

text \<open>
  C5: the outbox never loses an operation that may still be needed. Whatever the session and the worker do, in any order
  (adding, marking sent and acknowledged, compacting, logging catch-up pages), a recorded operation is still there with
  the same bytes and the same place in the order, and in the resend set unless its identity was marked acknowledged;
  or a compaction that named it removed it, after it was acknowledged, at a moment when the log of the CRDT database
  recorded it as covered at or before the durable cursor.
\<close>

theorem no_unacked_loss:
  assumes "outbox_get (outbox_key sid i) (outbox st) = Some r"
  shows "(\<exists>r'. outbox_get (outbox_key sid i) (outbox (fst (outbox_run sid (st, idb) acts))) = Some r'
      \<and> po_id r' = po_id r \<and> po_op r' = po_op r \<and> po_seq r' = po_seq r
      \<and> (r' \<in> set (unackedOps collate sid (fst (outbox_run sid (st, idb) acts)))
         \<or> po_state r = Durably_acked \<or> (\<exists>ids. MarkAcked ids \<in> set acts \<and> i \<in> set ids)))
    \<or> (\<exists>pre ids post. acts = pre @ Clear ids # post \<and> i \<in> set ids
      \<and> (po_state r = Durably_acked \<or> (\<exists>ids. MarkAcked ids \<in> set pre \<and> i \<in> set ids))
      \<and> covered_by_cursor sid i (snd (outbox_run sid (st, idb) pre)))"
proof -
  have unacked: "r' \<in> set (unackedOps collate sid st')"
    if "outbox_get (outbox_key sid i) (outbox st') = Some r'" "po_state r' \<noteq> Durably_acked" for r' st'
    using that by (auto simp: mem_unacked dest!: outbox_get_Some)
  show ?thesis using record_run [of sid i "(st, idb)" r acts] assms unacked by (fastforce simp: same_op_def)
qed

definition sample_record :: PendingOpRecord where
  "sample_record = \<lparr>po_id = outbox_key ''d'' ''3:4'', po_op = [1, 2], po_state = Pending, po_seq = 5,
     po_savedAt = 5\<rparr>"

theorem no_unacked_loss_witness:
  "\<exists>r'. outbox_get (outbox_key ''d'' ''3:4'') (outbox (fst (outbox_run ''d'' (empty_outbox\<lparr>outbox := [sample_record]\<rparr>, empty_idb)
      [MarkSent [''3:4''], MarkAcked [''3:4''], Clear [''3:4'']]))) = Some r' \<and> po_op r' = [1, 2]"
proof -
  let ?acts = "[MarkSent [''3:4''], MarkAcked [''3:4''], Clear [''3:4'']]"
  let ?w = "(empty_outbox\<lparr>outbox := [sample_record]\<rparr>, empty_idb)"
  have "\<not> covered_by_cursor ''d'' ''3:4'' (snd (outbox_run ''d'' ?w pre))" if "?acts = pre @ Clear ids # post" for pre ids post
  proof -
    have "set pre \<subseteq> {MarkSent [''3:4''], MarkAcked [''3:4'']}" using that
      by (cases pre; cases "tl pre"; cases "tl (tl pre)") auto
    then have "snd (outbox_run ''d'' w pre) = snd w" for w :: outbox_world
      by (induction pre arbitrary: w) (auto simp: run_Cons, auto simp: outbox_run_def split_paired_all)
    then show ?thesis by (simp add: covered_by_cursor_def empty_idb_def)
  qed
  moreover have "outbox_get (outbox_key ''d'' ''3:4'') (outbox (empty_outbox\<lparr>outbox := [sample_record]\<rparr>)) = Some sample_record"
    by (simp add: sample_record_def outbox_get_def)
  ultimately show ?thesis
    using no_unacked_loss [of "''d''" "''3:4''" "empty_outbox\<lparr>outbox := [sample_record]\<rparr>" sample_record empty_idb ?acts "\<lambda>a b. True"]
    by (auto simp: sample_record_def)
qed

text \<open>
  Draining terminates. Against a server that acknowledges each batch, sending the first
  \<open>m\<close> unacknowledged operations, marking them sent and then acknowledged, \<open>n\<close> times with
  \<open>n * m\<close> at least their number, empties the resend set, provided the records in the storage
  id's key range are its own.
\<close>

theorem outbox_drains:
  assumes "own_range sid (outbox st)" and "length (unacked_ids collate sid st) \<le> n * m"
  shows "unacked_ids collate sid
    (drain m (unacked_ids collate sid) (markSent sid) (markDurablyAcked sid) n st) = []"
  using assms by (rule ob.drain_empties)

theorem outbox_drains_witness:
  "unacked_ids (\<lambda>a b. True) ''d''
    (drain 512 (unacked_ids (\<lambda>a b. True) ''d'') (markSent ''d'') (markDurablyAcked ''d'') 1
      (empty_outbox\<lparr>outbox := [sample_record]\<rparr>)) = []"
proof (rule outbox_drains)
  have "record_identity (outbox_key ''d'' ''3:4'') = ''3:4''"
    by (simp add: record_identity_def outbox_key_def)
  then show "own_range ''d'' (outbox (empty_outbox\<lparr>outbox := [sample_record]\<rparr>))"
    by (simp add: own_range_def keys_distinct_def sample_record_def)
  show "length (unacked_ids (\<lambda>a b. True) ''d'' (empty_outbox\<lparr>outbox := [sample_record]\<rparr>)) \<le> 1 * 512"
    by (simp add: unacked_ids_def unackedOps_def index_range_def sort_by_def sample_record_def empty_outbox_def)
qed

end
