(* ===== verification/Transport.thy ===== *)
theory Transport
  imports Complex_Main Control_Frames Data_Frames
begin

text \<open>
  The WebSocket transport, \<^verbatim>\<open>src/lib/sync/transport.ts\<close>: one connection with handshake, frame
  dispatch and reconnection with backoff. The fields of the class are a record; what it does to
  the outside (frames sent, callbacks, timers, sockets) is a log in order. The callbacks of the
  session end the handlers they are called from, so they are entries of the log too. \<open>readyState\<close>
  is part of the state and changes by socket events. \<open>Math.random()\<close> is an input, a rational
  number below 1.
\<close>

section \<open>State\<close>

datatype ConnectionStatus =
    Disconnected | Connecting | Authenticated | Joining | Syncing | Ready | Reconnecting | Draining
  | Closed

datatype readyState = WsConnecting | WsOpen | WsClosing | WsClosed

record BackoffConfig =
  baseMs :: nat
  maxMs :: nat
  immediateFirstRetry :: bool

definition DEFAULT_BACKOFF :: BackoffConfig where
  "DEFAULT_BACKOFF = \<lparr>baseMs = 250, maxMs = 15000, immediateFirstRetry = True\<rparr>"

datatype effect =
    OnStatus ConnectionStatus
  | OnDurableAck string "string list"
  | OnAuthenticated
  | OnJoinAccepted
  | OnPeerOps "bytes list"
  | OnSyncBatch "bytes list" nat bool
  | OnSyncDone
  | OnSnapshotResyncRequired json
  | OnSnapshotPayload json
  | OnError string string "string option"
  | OnDraining "int option"
  | OnFatal string
  | OnPresenceUpdate json
  | OnPresenceLeave string
  | SendText string
  | SendBinary bytes
  | SetTimeout nat
  | ClearTimeout
  | NewSocket
  | CloseSocket
  | GetToken

record Transport =
  ws :: "readyState option"
  status :: ConnectionStatus
  attempt :: nat
  backoffTimer :: bool
  closedByUser :: bool
  nextCorrelation :: nat
  draining :: bool
  authenticateInFlight :: bool
  effects :: "effect list"

definition new_transport :: Transport where
  "new_transport =
     \<lparr>ws = None, status = Disconnected, attempt = 0, backoffTimer = False, closedByUser = False,
      nextCorrelation = 1, draining = False, authenticateInFlight = False, effects = []\<rparr>"

definition emit :: "effect \<Rightarrow> Transport \<Rightarrow> Transport" where
  "emit x t = t\<lparr>effects := effects t @ [x]\<rparr>"

section \<open>Backoff\<close>

text \<open>The code throws on a negative attempt; here the attempt is a natural number.\<close>

definition computeBackoffDelay :: "nat \<Rightarrow> BackoffConfig \<Rightarrow> rat \<Rightarrow> nat" where
  "computeBackoffDelay n config random =
     (if immediateFirstRetry config \<and> n = 0 then 0
      else
        let exp = baseMs config * 2 ^ (n - (if immediateFirstRetry config then 1 else 0));
            capped = min exp (maxMs config);
            jitter = nat \<lfloor>of_nat capped * (1 / 4) * random\<rfloor>
        in capped + jitter)"

section \<open>Socket and timer\<close>

definition setStatus :: "ConnectionStatus \<Rightarrow> Transport \<Rightarrow> Transport" where
  "setStatus s t = (if status t \<noteq> s then emit (OnStatus s) (t\<lparr>status := s\<rparr>) else t)"

definition clearBackoffTimer :: "Transport \<Rightarrow> Transport" where
  "clearBackoffTimer t = (if backoffTimer t then emit ClearTimeout (t\<lparr>backoffTimer := False\<rparr>) else t)"

definition teardownSocket :: "Transport \<Rightarrow> Transport" where
  "teardownSocket t = (if ws t \<noteq> None then emit CloseSocket (t\<lparr>ws := None\<rparr>) else t)"

definition scheduleReconnect :: "BackoffConfig \<Rightarrow> rat \<Rightarrow> Transport \<Rightarrow> Transport" where
  "scheduleReconnect cfg random t =
     (let delay = computeBackoffDelay (attempt t) cfg random;
          t1 = clearBackoffTimer (setStatus Reconnecting (t\<lparr>attempt := attempt t + 1\<rparr>))
      in emit (SetTimeout delay) (t1\<lparr>backoffTimer := True\<rparr>))"

definition send_frame :: "string \<Rightarrow> json \<Rightarrow> string option \<Rightarrow> Transport \<Rightarrow> Transport" where
  "send_frame type payload i t =
     (if ws t \<noteq> Some WsOpen then t
      else emit (SendText (encodeControlFrame \<lparr>cf_id = i, cf_type = type, cf_payload = payload\<rparr>)) t)"

section \<open>Calls\<close>

text \<open>\<open>created\<close> says whether the \<open>WebSocket\<close> constructor returned.\<close>

definition connect :: "BackoffConfig \<Rightarrow> bool \<Rightarrow> rat \<Rightarrow> Transport \<Rightarrow> Transport" where
  "connect cfg created random t =
     (if ws t \<noteq> None \<or> closedByUser t then t
      else
        let t1 = setStatus (if attempt t = 0 then Connecting else Reconnecting) t
        in if \<not> created then scheduleReconnect cfg random t1
           else emit NewSocket (t1\<lparr>ws := Some WsConnecting\<rparr>))"

definition summary_json :: "(string \<times> string) list \<Rightarrow> json" where
  "summary_json xs =
     JArr (map (\<lambda>(r, s). JObj [(''replicaId'', JStr r), (''sequence'', JStr s)]) xs)"

definition joinDocument :: "string \<Rightarrow> (string \<times> string) list \<Rightarrow> Transport \<Rightarrow> Transport" where
  "joinDocument documentId stateSummary t =
     (let t1 = setStatus Joining t;
          i = ''j'' @ show_nat (nextCorrelation t1);
          t2 = t1\<lparr>nextCorrelation := nextCorrelation t1 + 1\<rparr>
      in send_frame ''join_document''
           (JObj [(''documentId'', JStr documentId), (''stateSummary'', summary_json stateSummary)])
           (Some i) t2)"

definition requestSync :: "string \<Rightarrow> Transport \<Rightarrow> Transport" where
  "requestSync cursor = send_frame ''sync_request'' (JObj [(''cursor'', JStr cursor)]) None"

definition fetchSnapshot :: "string \<Rightarrow> Transport \<Rightarrow> Transport" where
  "fetchSnapshot i = send_frame ''fetch_snapshot'' (JObj [(''snapshotId'', JStr i)]) None"

text \<open>\<open>False\<close> when the call throws: the socket is not open or the batch cannot be encoded.\<close>

definition sendClientOps :: "nat \<Rightarrow> bytes list \<Rightarrow> Transport \<Rightarrow> Transport \<times> bool" where
  "sendClientOps batchId ops t =
     (if ws t \<noteq> Some WsOpen then (t, False)
      else case encodeClientOps \<lparr>co_batchId = BNum (int batchId), co_ops = ops\<rparr> of
        Inl e \<Rightarrow> (t, False)
      | Inr bs \<Rightarrow> (emit (SendBinary bs) t, True))"

definition sendPresence :: "json \<Rightarrow> Transport \<Rightarrow> Transport" where
  "sendPresence state t =
     (if status t \<noteq> Ready \<or> ws t \<noteq> Some WsOpen then t
      else emit (SendText (encodeControlFrame \<lparr>cf_id = None, cf_type = ''presence'', cf_payload = state\<rparr>)) t)"

definition close_transport :: "Transport \<Rightarrow> Transport" where
  "close_transport t = setStatus Closed (teardownSocket (clearBackoffTimer (t\<lparr>closedByUser := True\<rparr>)))"

definition handleUncleanClose :: "BackoffConfig \<Rightarrow> rat \<Rightarrow> Transport \<Rightarrow> Transport" where
  "handleUncleanClose cfg random t =
     (if closedByUser t then t
      else scheduleReconnect cfg random ((teardownSocket t)\<lparr>draining := False\<rparr>))"

definition reconnect :: "BackoffConfig \<Rightarrow> rat \<Rightarrow> Transport \<Rightarrow> Transport" where
  "reconnect cfg random t =
     (if closedByUser t then t else scheduleReconnect cfg random (teardownSocket t))"

section \<open>Frames from the server\<close>

definition RICH_TEXT_CAPABILITY :: string where
  "RICH_TEXT_CAPABILITY = ''rich-text-v2''"

definition hello_payload :: json where
  "hello_payload =
     JObj [(''clientProtocolVersion'', JNum 1), (''capabilities'', JArr [JStr RICH_TEXT_CAPABILITY])]"

definition upgrade_message :: string where
  "upgrade_message = ''The sync gateway needs the rich-text-v2 upgrade. Ask the workspace operator to update it, then reload. Offline edits remain on this device.''"

definition json_field :: "string \<Rightarrow> json \<Rightarrow> json option" where
  "json_field k v = (case v of JObj kvs \<Rightarrow> map_of kvs k | _ \<Rightarrow> None)"

definition string_list :: "json option \<Rightarrow> string list" where
  "string_list v =
     (case v of
        Some (JArr vs) \<Rightarrow> concat (map (\<lambda>x. case x of JStr s \<Rightarrow> [s] | _ \<Rightarrow> []) vs)
      | _ \<Rightarrow> [])"

definition text_of :: "string \<Rightarrow> json \<Rightarrow> string" where
  "text_of k payload = (case string_field k payload of None \<Rightarrow> [] | Some s \<Rightarrow> s)"

definition give_up :: "Transport \<Rightarrow> Transport" where
  "give_up t = setStatus Closed (teardownSocket (t\<lparr>closedByUser := True\<rparr>))"

definition on_hello_ack :: "json \<Rightarrow> Transport \<Rightarrow> Transport" where
  "on_hello_ack payload t =
     (if RICH_TEXT_CAPABILITY \<notin> set (string_list (json_field ''capabilities'' payload)) then
        give_up (emit (OnFatal upgrade_message)
          (emit (OnError ''unsupported_protocol_version'' upgrade_message None) t))
      else if authenticateInFlight t then t
      else emit GetToken (t\<lparr>authenticateInFlight := True\<rparr>))"

definition on_error_frame :: "json \<Rightarrow> Transport \<Rightarrow> Transport" where
  "on_error_frame payload t =
     (let code = text_of ''code'' payload;
          t1 = emit (OnError code (text_of ''message'' payload) (string_field ''requestId'' payload)) t
      in if code \<in> set FATAL_ERROR_CODES
         then give_up (emit (OnFatal (''server rejected: '' @ code)) t1)
         else t1)"

definition handleControlFrame :: "ControlFrame \<Rightarrow> Transport \<Rightarrow> Transport" where
  "handleControlFrame frame t =
     (let type = cf_type frame; payload = cf_payload frame
      in if type = ''hello_ack'' then on_hello_ack payload t
         else if type = ''authenticated'' then emit OnAuthenticated (setStatus Authenticated t)
         else if type = ''join_accepted'' then emit OnJoinAccepted (setStatus Syncing t)
         else if type = ''sync_done'' then emit OnSyncDone (setStatus Ready (t\<lparr>attempt := 0\<rparr>))
         else if type = ''snapshot_resync_required'' then emit (OnSnapshotResyncRequired payload) t
         else if type = ''snapshot_payload'' then emit (OnSnapshotPayload payload) t
         else if type = ''durable_ack'' then
           emit (OnDurableAck (text_of ''batchId'' payload) (string_list (json_field ''opIds'' payload))) t
         else if type = ''error'' then on_error_frame payload t
         else if type = ''server_draining'' then
           emit (OnDraining (int_field ''graceMs'' payload)) (setStatus Draining (t\<lparr>draining := True\<rparr>))
         else if type = ''ping'' then
           send_frame ''pong'' (JObj [(''nonce'', JStr (text_of ''nonce'' payload))]) None t
         else if type = ''presence_update'' then emit (OnPresenceUpdate payload) t
         else if type = ''presence_leave'' then emit (OnPresenceLeave (text_of ''connectionId'' payload)) t
         else t)"

datatype message = Text string | Binary bytes

fun handleMessage :: "message \<Rightarrow> Transport \<Rightarrow> Transport" where
  "handleMessage (Text data) t =
     (case decodeControlFrame data of
        Inl e \<Rightarrow> emit (OnError ''malformed_frame'' ''undecodable frame from server'' None) t
      | Inr frame \<Rightarrow> handleControlFrame frame t)"
| "handleMessage (Binary data) t =
     (case decodeDataFrame data of
        Inl e \<Rightarrow> emit (OnError ''malformed_frame'' ''undecodable binary frame from server'' None) t
      | Inr (ClientOps f) \<Rightarrow> emit (OnPeerOps (co_ops f)) t
      | Inr (SyncBatch f) \<Rightarrow> emit (OnSyncBatch (sb_ops f) (sb_nextCursor f) (sb_hasMore f)) t)"

section \<open>Steps\<close>

text \<open>
  What can happen to a transport. A socket event needs a socket whose handlers are attached; the
  timer fires when it is set; a token arrives when one was asked for.
\<close>

datatype transport_action =
    CallConnect bool rat
  | CallJoin string "(string \<times> string) list"
  | CallRequestSync string
  | CallFetchSnapshot string
  | CallSendClientOps nat "bytes list"
  | CallSendPresence json
  | CallClose
  | CallReconnect rat
  | SocketOpens
  | SocketMessage message
  | SocketCloses rat
  | TimerFires bool rat
  | TokenArrives string
  | TokenFails rat

fun enabled :: "transport_action \<Rightarrow> Transport \<Rightarrow> bool" where
  "enabled SocketOpens t = (ws t = Some WsConnecting)"
| "enabled (SocketMessage m) t = (ws t = Some WsOpen)"
| "enabled (SocketCloses r) t = (ws t \<noteq> None)"
| "enabled (TimerFires c r) t = backoffTimer t"
| "enabled (TokenArrives tok) t = authenticateInFlight t"
| "enabled (TokenFails r) t = authenticateInFlight t"
| "enabled _ t = True"

fun transport_step :: "BackoffConfig \<Rightarrow> transport_action \<Rightarrow> Transport \<Rightarrow> Transport" where
  "transport_step cfg (CallConnect created random) t = connect cfg created random t"
| "transport_step cfg (CallJoin documentId summary) t = joinDocument documentId summary t"
| "transport_step cfg (CallRequestSync cursor) t = requestSync cursor t"
| "transport_step cfg (CallFetchSnapshot i) t = fetchSnapshot i t"
| "transport_step cfg (CallSendClientOps b ops) t = fst (sendClientOps b ops t)"
| "transport_step cfg (CallSendPresence p) t = sendPresence p t"
| "transport_step cfg CallClose t = close_transport t"
| "transport_step cfg (CallReconnect random) t = reconnect cfg random t"
| "transport_step cfg SocketOpens t = send_frame ''hello'' hello_payload None (t\<lparr>ws := Some WsOpen\<rparr>)"
| "transport_step cfg (SocketMessage m) t = handleMessage m t"
| "transport_step cfg (SocketCloses random) t = handleUncleanClose cfg random t"
| "transport_step cfg (TimerFires created random) t = connect cfg created random (t\<lparr>backoffTimer := False\<rparr>)"
| "transport_step cfg (TokenArrives token) t =
     send_frame ''authenticate'' (JObj [(''token'', JStr token)]) None (t\<lparr>authenticateInFlight := False\<rparr>)"
| "transport_step cfg (TokenFails random) t =
     scheduleReconnect cfg random
       (emit (OnError ''unauthorized'' ''token retrieval failed'' None) (t\<lparr>authenticateInFlight := False\<rparr>))"

text \<open>What is reached by steps whose actions satisfy \<open>P\<close>.\<close>

inductive reaches :: "BackoffConfig \<Rightarrow> (transport_action \<Rightarrow> bool) \<Rightarrow> Transport \<Rightarrow> Transport \<Rightarrow> bool"
  for cfg P where
  start: "reaches cfg P t t"
| step: "reaches cfg P t u \<Longrightarrow> enabled a u \<Longrightarrow> P a \<Longrightarrow> reaches cfg P t (transport_step cfg a u)"

inductive_cases reaches_cases: "reaches cfg P t u"

lemma reaches_invariant:
  assumes "reaches cfg P t u" and "I t"
    and "\<And>a v. I v \<Longrightarrow> enabled a v \<Longrightarrow> P a \<Longrightarrow> I (transport_step cfg a v)"
  shows "I u"
  using assms(1,2) by (induction rule: reaches.induct) (auto intro: assms(3))

lemma reaches_trans: "reaches cfg P u v \<Longrightarrow> reaches cfg P t u \<Longrightarrow> reaches cfg P t v"
  by (induction rule: reaches.induct) (auto intro: reaches.intros)

section \<open>Field lemmas\<close>

named_theorems transport_defs

lemmas [transport_defs] = setStatus_def clearBackoffTimer_def teardownSocket_def emit_def give_up_def
  scheduleReconnect_def send_frame_def Let_def

lemma emit_fields [simp]:
  "ws (emit x t) = ws t" "status (emit x t) = status t" "attempt (emit x t) = attempt t"
  "backoffTimer (emit x t) = backoffTimer t" "closedByUser (emit x t) = closedByUser t"
  "effects (emit x t) = effects t @ [x]"
  by (simp_all add: emit_def)

lemma setStatus_fields [simp]:
  "ws (setStatus s t) = ws t" "status (setStatus s t) = s" "attempt (setStatus s t) = attempt t"
  "backoffTimer (setStatus s t) = backoffTimer t" "closedByUser (setStatus s t) = closedByUser t"
  by (simp_all add: setStatus_def)

lemma clearBackoffTimer_fields [simp]:
  "ws (clearBackoffTimer t) = ws t" "\<not> backoffTimer (clearBackoffTimer t)"
  "closedByUser (clearBackoffTimer t) = closedByUser t"
  by (simp_all add: clearBackoffTimer_def)

lemma teardownSocket_fields [simp]:
  "ws (teardownSocket t) = None" "attempt (teardownSocket t) = attempt t"
  "closedByUser (teardownSocket t) = closedByUser t" "backoffTimer (teardownSocket t) = backoffTimer t"
  by (simp_all add: teardownSocket_def)

lemma send_frame_fields [simp]:
  "ws (send_frame ty p i t) = ws t" "status (send_frame ty p i t) = status t"
  "attempt (send_frame ty p i t) = attempt t" "backoffTimer (send_frame ty p i t) = backoffTimer t"
  "closedByUser (send_frame ty p i t) = closedByUser t"
  by (simp_all add: send_frame_def)

lemma scheduleReconnect_fields [simp]:
  "ws (scheduleReconnect cfg r t) = ws t" "backoffTimer (scheduleReconnect cfg r t)"
  "closedByUser (scheduleReconnect cfg r t) = closedByUser t"
  by (simp_all add: scheduleReconnect_def Let_def)

lemma scheduleReconnect_attempt [simp]: "attempt (scheduleReconnect cfg r t) = attempt t + 1"
  by (simp add: scheduleReconnect_def Let_def clearBackoffTimer_def)

lemma give_up_fields [simp]: "ws (give_up t) = None" "closedByUser (give_up t)" "status (give_up t) = Closed"
  by (simp_all add: give_up_def)

section \<open>After a close\<close>

text \<open>The effects the server can see.\<close>

fun outward :: "effect \<Rightarrow> bool" where
  "outward (SendText s) = True"
| "outward (SendBinary b) = True"
| "outward NewSocket = True"
| "outward _ = False"

definition outward_effects :: "Transport \<Rightarrow> effect list" where
  "outward_effects t = filter outward (effects t)"

lemma outward_simps [simp]:
  "outward_effects (emit x t) = (if outward x then outward_effects t @ [x] else outward_effects t)"
  "outward_effects (setStatus s t) = outward_effects t"
  "outward_effects (clearBackoffTimer t) = outward_effects t"
  "outward_effects (teardownSocket t) = outward_effects t"
  "outward_effects (scheduleReconnect cfg r t) = outward_effects t"
  "outward_effects (t\<lparr>closedByUser := True\<rparr>) = outward_effects t"
  "outward_effects (t\<lparr>authenticateInFlight := b\<rparr>) = outward_effects t"
  "outward_effects (t\<lparr>backoffTimer := b\<rparr>) = outward_effects t"
  "outward_effects (t\<lparr>nextCorrelation := n\<rparr>) = outward_effects t"
  by (simp_all add: outward_effects_def transport_defs)

lemma outward_send [simp]: "ws t = None \<Longrightarrow> outward_effects (send_frame ty p i t) = outward_effects t"
  by (simp add: send_frame_def)

definition shut :: "Transport \<Rightarrow> bool" where
  "shut t \<longleftrightarrow> closedByUser t \<and> ws t = None"

lemma shut_step:
  assumes "shut t" and "enabled a t"
  shows "shut (transport_step cfg a t) \<and> outward_effects (transport_step cfg a t) = outward_effects t"
  using assms
  by (cases a) (auto simp: shut_def connect_def joinDocument_def requestSync_def fetchSnapshot_def
      sendClientOps_def sendPresence_def close_transport_def reconnect_def handleUncleanClose_def Let_def)

lemma handleControlFrame_shut:
  "(closedByUser t \<longrightarrow> ws t = None) \<Longrightarrow>
    closedByUser (handleControlFrame f t) \<longrightarrow> ws (handleControlFrame f t) = None"
  by (simp add: handleControlFrame_def on_hello_ack_def on_error_frame_def Let_def)

lemma handleMessage_shut:
  "(closedByUser t \<longrightarrow> ws t = None) \<Longrightarrow> closedByUser (handleMessage m t) \<longrightarrow> ws (handleMessage m t) = None"
  by (cases m) (auto simp: handleControlFrame_shut split: sum.splits data_frame.splits)

lemma closed_no_socket_step:
  assumes "closedByUser t \<longrightarrow> ws t = None" and "enabled a t"
  shows "closedByUser (transport_step cfg a t) \<longrightarrow> ws (transport_step cfg a t) = None"
proof (cases a)
  case (SocketMessage m)
  then show ?thesis using handleMessage_shut[OF assms(1), of m] by simp
qed (use assms in \<open>auto simp: connect_def joinDocument_def requestSync_def fetchSnapshot_def
      sendClientOps_def sendPresence_def close_transport_def reconnect_def handleUncleanClose_def Let_def
      split: sum.splits\<close>)

section \<open>While it is not closed\<close>

definition retrying :: "Transport \<Rightarrow> bool" where
  "retrying t \<longleftrightarrow> closedByUser t \<or> ws t \<noteq> None \<or> backoffTimer t"

lemma handleControlFrame_retrying: "retrying t \<Longrightarrow> retrying (handleControlFrame f t)"
  by (simp add: retrying_def handleControlFrame_def on_hello_ack_def on_error_frame_def Let_def)

lemma handleMessage_retrying: "retrying t \<Longrightarrow> retrying (handleMessage m t)"
  by (cases m) (auto simp: handleControlFrame_retrying retrying_def[of "emit _ _"] retrying_def[of t]
      split: sum.splits data_frame.splits)

lemma connect_retrying: "retrying (connect cfg created r t)"
  by (simp add: retrying_def connect_def Let_def)

lemma retrying_step:
  assumes "retrying t"
  shows "retrying (transport_step cfg a t)"
proof (cases a)
  case (SocketMessage m)
  then show ?thesis using handleMessage_retrying[OF assms, of m] by simp
next
  case (CallConnect c r)
  then show ?thesis by (simp add: connect_retrying)
next
  case (TimerFires c r)
  then show ?thesis by (simp add: connect_retrying)
qed (use assms in \<open>auto simp: retrying_def joinDocument_def requestSync_def fetchSnapshot_def
      sendClientOps_def sendPresence_def close_transport_def reconnect_def handleUncleanClose_def Let_def
      split: sum.splits\<close>)

section \<open>What the client sends\<close>

definition client_types :: "string list" where
  "client_types =
     [''hello'', ''authenticate'', ''join_document'', ''sync_request'', ''fetch_snapshot'', ''pong'', ''presence'']"

fun well_spoken :: "effect \<Rightarrow> bool" where
  "well_spoken (SendText s) =
     (case decodeControlFrame s of Inl e \<Rightarrow> False | Inr f \<Rightarrow> cf_type f \<in> set client_types)"
| "well_spoken (SendBinary b) = (case decodeDataFrame b of Inr (ClientOps f) \<Rightarrow> True | _ \<Rightarrow> False)"
| "well_spoken _ = True"

definition spoken :: "Transport \<Rightarrow> bool" where
  "spoken t \<longleftrightarrow> list_all well_spoken (effects t)"

text \<open>What the caller owes: a presence of the declared shape, tokens and operations within the caps.\<close>

fun proper :: "transport_action \<Rightarrow> bool" where
  "proper (CallSendPresence p) = (PAYLOAD_VALIDATORS ''presence'' p \<and> json_wf p)"
| "proper (TokenArrives token) = (length token \<le> MAX_TOKEN_BYTES)"
| "proper (CallSendClientOps b ops) = list_all op_ok ops"
| "proper _ = True"

lemma spoken_emit [simp]: "spoken (emit x t) \<longleftrightarrow> spoken t \<and> well_spoken x"
  by (simp add: spoken_def)

lemma spoken_fields [simp]:
  "spoken (setStatus s t) = spoken t" "spoken (clearBackoffTimer t) = spoken t"
  "spoken (teardownSocket t) = spoken t" "spoken (scheduleReconnect cfg r t) = spoken t"
  "spoken (t\<lparr>closedByUser := True\<rparr>) = spoken t" "spoken (t\<lparr>authenticateInFlight := b\<rparr>) = spoken t"
  "spoken (t\<lparr>backoffTimer := b\<rparr>) = spoken t" "spoken (t\<lparr>nextCorrelation := n\<rparr>) = spoken t"
  "spoken (t\<lparr>ws := w\<rparr>) = spoken t" "spoken (t\<lparr>attempt := n\<rparr>) = spoken t" "spoken (t\<lparr>draining := b\<rparr>) = spoken t"
  by (simp_all add: spoken_def transport_defs)

lemma spoken_send_frame:
  assumes "spoken t" and "PAYLOAD_VALIDATORS ty p" and "json_wf p" and "\<not> token_too_long ty p"
    and "ty \<in> set client_types"
  shows "spoken (send_frame ty p i t)"
proof -
  have "ty \<in> set CONTROL_FRAME_TYPES"
    using assms(5) by (auto simp: client_types_def CONTROL_FRAME_TYPES_def)
  then have "decodeControlFrame (encodeControlFrame \<lparr>cf_id = i, cf_type = ty, cf_payload = p\<rparr>)
      = Inr \<lparr>cf_id = i, cf_type = ty, cf_payload = p\<rparr>"
    using assms(2-4) by (intro decode_encode_control) (simp_all add: frame_ok_def)
  then show ?thesis using assms(1,5) by (simp add: send_frame_def)
qed

lemmas payload_shape = PAYLOAD_VALIDATORS_def PAYLOAD_SHAPES_def isStrict_def required_def optional_def
  key_in_shape_def isString_def isUint_def arrayOf_def

lemma own_payloads:
  "PAYLOAD_VALIDATORS ''hello'' hello_payload"
  "PAYLOAD_VALIDATORS ''sync_request'' (JObj [(''cursor'', JStr c)])"
  "PAYLOAD_VALIDATORS ''fetch_snapshot'' (JObj [(''snapshotId'', JStr c)])"
  "PAYLOAD_VALIDATORS ''pong'' (JObj [(''nonce'', JStr c)])"
  "PAYLOAD_VALIDATORS ''authenticate'' (JObj [(''token'', JStr c)])"
  by (simp_all add: payload_shape hello_payload_def)

lemma join_payload:
  "PAYLOAD_VALIDATORS ''join_document'' (JObj [(''documentId'', JStr d), (''stateSummary'', summary_json xs)])"
  by (auto simp: payload_shape summary_json_def list_all_iff)

lemma json_wf_own:
  "json_wf hello_payload" "json_wf (JObj [(k, JStr v)])"
  "json_wf (JObj [(''documentId'', JStr d), (''stateSummary'', summary_json xs)])"
  by (auto simp: hello_payload_def summary_json_def)

lemma not_token [simp]: "ty \<noteq> ''authenticate'' \<Longrightarrow> \<not> token_too_long ty p"
  by (simp add: token_too_long_def)

lemma spoken_calls:
  assumes "spoken t"
  shows "spoken (requestSync c t)" "spoken (fetchSnapshot i t)" "spoken (joinDocument d xs t)"
    "spoken (send_frame ''hello'' hello_payload None t)"
    "spoken (send_frame ''pong'' (JObj [(''nonce'', JStr n)]) None t)"
    "length tok \<le> MAX_TOKEN_BYTES \<Longrightarrow> spoken (send_frame ''authenticate'' (JObj [(''token'', JStr tok)]) None t)"
  unfolding requestSync_def fetchSnapshot_def joinDocument_def Let_def
  by (rule spoken_send_frame;
      simp add: assms own_payloads join_payload json_wf_own token_too_long_def string_field_def client_types_def
        del: json_wf.simps)+

lemma spoken_client_ops:
  assumes "spoken t" and "list_all op_ok ops"
  shows "spoken (fst (sendClientOps b ops t))"
proof (cases "encodeClientOps \<lparr>co_batchId = BNum (int b), co_ops = ops\<rparr>")
  case (Inr bs)
  have "decodeDataFrame bs = Inr (ClientOps (normal_batch \<lparr>co_batchId = BNum (int b), co_ops = ops\<rparr>))"
    using decode_encodeClientOps[OF Inr] assms(2) by simp
  then show ?thesis using assms(1) Inr by (simp add: sendClientOps_def)
qed (use assms(1) in \<open>simp add: sendClientOps_def\<close>)

lemma spoken_presence:
  assumes "spoken t" and "PAYLOAD_VALIDATORS ''presence'' p" and "json_wf p"
  shows "spoken (sendPresence p t)"
proof -
  have "spoken (send_frame ''presence'' p None t)"
    by (rule spoken_send_frame) (use assms in \<open>simp_all add: client_types_def\<close>)
  then show ?thesis using assms(1) by (auto simp: sendPresence_def send_frame_def split: if_splits)
qed

lemma spoken_messages: "spoken t \<Longrightarrow> spoken (handleMessage m t)"
proof (cases m)
  case (Text s)
  assume t: "spoken t"
  have "spoken (handleControlFrame f t)" for f
    using t by (simp add: handleControlFrame_def on_hello_ack_def on_error_frame_def give_up_def Let_def
        spoken_calls)
  then show ?thesis using Text t by (simp split: sum.splits)
qed (auto split: sum.splits data_frame.splits)

lemma spoken_step:
  assumes "spoken t" and "proper a"
  shows "spoken (transport_step cfg a t)"
  using assms
  by (cases a) (auto simp: spoken_calls spoken_client_ops spoken_presence spoken_messages connect_def
      close_transport_def reconnect_def handleUncleanClose_def Let_def)

section \<open>Backoff\<close>

lemma quarter_more:
  fixes c j m :: nat
  assumes "4 * j \<le> c" and "c \<le> m"
  shows "c \<le> c + j \<and> 4 * (c + j) \<le> 5 * c \<and> 4 * (c + j) \<le> 5 * m"
  using assms by simp

lemma jitter_bound:
  fixes r :: rat
  assumes "0 \<le> r" and "r < 1"
  shows "4 * nat \<lfloor>of_nat c * (1 / 4) * r\<rfloor> \<le> c"
    and "0 < c \<Longrightarrow> 4 * nat \<lfloor>of_nat c * (1 / 4) * r\<rfloor> < c"
proof -
  let ?j = "\<lfloor>of_nat c * (1 / 4) * r\<rfloor>"
  have nonneg: "0 \<le> ?j" using assms(1) by simp
  have le: "of_int ?j \<le> of_nat c * (1 / 4) * r" by (rule of_int_floor_le)
  show strict: "4 * nat ?j < c" if "0 < c"
  proof -
    have "of_nat c * (1 / 4) * r < of_nat c * (1 / 4)" using that assms(2) by simp
    then have "4 * of_int ?j < (of_nat c :: rat)" using le by linarith
    then have "(of_int (4 * ?j) :: rat) < of_int (int c)" by simp
    then have "4 * ?j < int c" by (simp only: of_int_less_iff)
    then show ?thesis using nonneg by linarith
  qed
  show "4 * nat ?j \<le> c" using strict by (cases "c = 0") auto
qed

section \<open>The retry schedule\<close>

fun timeout_of :: "effect \<Rightarrow> nat list" where
  "timeout_of (SetTimeout d) = [d]"
| "timeout_of _ = []"

definition timeouts :: "Transport \<Rightarrow> nat list" where
  "timeouts t = concat (map timeout_of (effects t))"

lemma timeouts_simps [simp]:
  "timeouts (emit x t) = timeouts t @ timeout_of x"
  "timeouts (setStatus s t) = timeouts t" "timeouts (clearBackoffTimer t) = timeouts t"
  "timeouts (teardownSocket t) = timeouts t" "timeouts (t\<lparr>attempt := n\<rparr>) = timeouts t"
  "timeouts (t\<lparr>backoffTimer := b\<rparr>) = timeouts t" "timeouts (t\<lparr>draining := b\<rparr>) = timeouts t"
  by (simp_all add: timeouts_def transport_defs)

lemma timeouts_schedule [simp]:
  "timeouts (scheduleReconnect cfg r t) = timeouts t @ [computeBackoffDelay (attempt t) cfg r]"
  by (simp add: scheduleReconnect_def Let_def)

section \<open>Properties\<close>

text \<open>
  C10: a closed transport stays closed. Once the user has closed it, or a fatal frame has, no
  sequence of calls, timers, late socket events or late tokens gives it a socket again, and
  nothing more is sent and no socket is opened.
\<close>

theorem closed_is_final:
  assumes "reaches cfg (\<lambda>a. True) new_transport t" and "closedByUser t"
    and "reaches cfg (\<lambda>a. True) t u"
  shows "closedByUser u \<and> ws u = None \<and> outward_effects u = outward_effects t"
proof -
  have "closedByUser t \<longrightarrow> ws t = None"
    by (rule reaches_invariant[OF assms(1)]) (simp_all add: new_transport_def closed_no_socket_step)
  then have "shut t" using assms(2) by (simp add: shut_def)
  then have "shut u \<and> outward_effects u = outward_effects t"
    by (intro reaches_invariant[OF assms(3), where I = "\<lambda>v. shut v \<and> outward_effects v = outward_effects t"])
      (simp_all add: shut_step)
  then show ?thesis by (simp add: shut_def)
qed

theorem closed_is_final_witness:
  "ws (transport_step DEFAULT_BACKOFF (CallConnect True 0) (transport_step DEFAULT_BACKOFF CallClose new_transport)) = None"
proof -
  let ?t = "transport_step DEFAULT_BACKOFF CallClose new_transport"
  have t: "reaches DEFAULT_BACKOFF (\<lambda>a. True) new_transport ?t"
    by (rule reaches.step[OF reaches.start]) simp_all
  have u: "reaches DEFAULT_BACKOFF (\<lambda>a. True) ?t (transport_step DEFAULT_BACKOFF (CallConnect True 0) ?t)"
    by (rule reaches.step[OF reaches.start]) simp_all
  have "closedByUser ?t" by (simp add: close_transport_def new_transport_def teardownSocket_def clearBackoffTimer_def)
  then show ?thesis using closed_is_final[OF t _ u] by blast
qed

text \<open>
  C29: a transport that was asked to connect never gives up on its own. At every moment from then
  on it is closed by the user or by a fatal frame, or it has a socket, or a retry is scheduled.
\<close>

theorem keeps_retrying:
  assumes "reaches cfg P (connect cfg created r t0) t"
  shows "closedByUser t \<or> ws t \<noteq> None \<or> backoffTimer t"
proof -
  have "retrying t"
    by (rule reaches_invariant[OF assms, where I = retrying]) (simp_all add: connect_retrying retrying_step)
  then show ?thesis by (simp add: retrying_def)
qed

theorem keeps_retrying_witness:
  "closedByUser (transport_step DEFAULT_BACKOFF (SocketCloses 0) (connect DEFAULT_BACKOFF True 0 new_transport))
   \<or> ws (transport_step DEFAULT_BACKOFF (SocketCloses 0) (connect DEFAULT_BACKOFF True 0 new_transport)) \<noteq> None
   \<or> backoffTimer (transport_step DEFAULT_BACKOFF (SocketCloses 0) (connect DEFAULT_BACKOFF True 0 new_transport))"
proof -
  have "reaches DEFAULT_BACKOFF (\<lambda>a. True) (connect DEFAULT_BACKOFF True 0 new_transport)
    (transport_step DEFAULT_BACKOFF (SocketCloses 0) (connect DEFAULT_BACKOFF True 0 new_transport))"
    by (rule reaches.step[OF reaches.start]) (simp_all add: connect_def new_transport_def)
  from keeps_retrying[OF this] show ?thesis .
qed

text \<open>
  C30: the client only speaks the protocol. Whatever the server sends and the session calls, as
  long as presence payloads have the declared shape and tokens and operations are within the wire
  limits, every text frame the transport sends is one its own strict decoder accepts, of a type
  that belongs to clients, and every binary frame decodes as a batch of client operations.
\<close>

theorem client_speaks_protocol:
  assumes "reaches cfg proper new_transport t" and "x \<in> set (effects t)"
  shows "well_spoken x"
proof -
  have "spoken t"
    by (rule reaches_invariant[OF assms(1)]) (simp_all add: spoken_step, simp add: spoken_def new_transport_def)
  then show ?thesis using assms(2) by (simp add: spoken_def list_all_iff)
qed

theorem client_speaks_protocol_witness:
  "well_spoken (SendText (encodeControlFrame \<lparr>cf_id = None, cf_type = ''hello'', cf_payload = hello_payload\<rparr>))"
proof -
  let ?t = "transport_step DEFAULT_BACKOFF (CallConnect True 0) new_transport"
  have "reaches DEFAULT_BACKOFF proper new_transport ?t"
    by (rule reaches.step[OF reaches.start]) simp_all
  then have "reaches DEFAULT_BACKOFF proper new_transport (transport_step DEFAULT_BACKOFF SocketOpens ?t)"
    by (rule reaches.step) (simp_all add: connect_def new_transport_def)
  then show ?thesis
    by (rule client_speaks_protocol) (simp add: send_frame_def connect_def new_transport_def emit_def)
qed

text \<open>
  the backoff is bounded. Except for the immediate first retry the delay is at least the
  capped exponential one and the jitter adds less than a quarter of it, so no delay exceeds the
  maximum by more than a quarter.
\<close>

theorem backoff_bounds:
  fixes r :: rat
  assumes "0 \<le> r" and "r < 1" and "\<not> (immediateFirstRetry cfg \<and> n = 0)"
  shows "let capped = min (baseMs cfg * 2 ^ (n - (if immediateFirstRetry cfg then 1 else 0))) (maxMs cfg)
    in capped \<le> computeBackoffDelay n cfg r
      \<and> 4 * computeBackoffDelay n cfg r \<le> 5 * capped
      \<and> 4 * computeBackoffDelay n cfg r \<le> 5 * maxMs cfg"
proof -
  let ?c = "min (baseMs cfg * 2 ^ (n - (if immediateFirstRetry cfg then 1 else 0))) (maxMs cfg)"
  have d: "computeBackoffDelay n cfg r = ?c + nat \<lfloor>of_nat ?c * (1 / 4) * r\<rfloor>"
    unfolding computeBackoffDelay_def Let_def if_not_P[OF assms(3)] ..
  have "4 * nat \<lfloor>of_nat ?c * (1 / 4) * r\<rfloor> \<le> ?c" by (rule jitter_bound(1)[OF assms(1,2)])
  moreover have "?c \<le> maxMs cfg" by simp
  ultimately show ?thesis unfolding d Let_def by (rule quarter_more)
qed

theorem backoff_bounds_witness:
  "let capped = min (baseMs DEFAULT_BACKOFF * 2 ^ (9 - (if immediateFirstRetry DEFAULT_BACKOFF then 1 else 0)))
      (maxMs DEFAULT_BACKOFF)
    in capped \<le> computeBackoffDelay 9 DEFAULT_BACKOFF (1 / 2)
      \<and> 4 * computeBackoffDelay 9 DEFAULT_BACKOFF (1 / 2) \<le> 5 * capped
      \<and> 4 * computeBackoffDelay 9 DEFAULT_BACKOFF (1 / 2) \<le> 5 * maxMs DEFAULT_BACKOFF"
  by (rule backoff_bounds) simp_all

text \<open>
  retries back off until a catch-up succeeds. From any state that is not closed, failing again
  and again with the random numbers \<open>rs\<close> schedules exactly the delays of the next attempts in
  order; only a \<open>sync_done\<close> frame sets the attempt back.
\<close>

theorem retry_schedule:
  assumes "\<not> closedByUser t"
  shows "timeouts (foldl (\<lambda>u r. handleUncleanClose cfg r u) t rs)
    = timeouts t @ map (\<lambda>i. computeBackoffDelay (attempt t + i) cfg (rs ! i)) [0..<length rs]"
  using assms
proof (induction rs arbitrary: t)
  case (Cons r rs)
  let ?u = "handleUncleanClose cfg r t"
  have u: "\<not> closedByUser ?u" "attempt ?u = attempt t + 1"
    "timeouts ?u = timeouts t @ [computeBackoffDelay (attempt t) cfg r]"
    using Cons.prems by (simp_all add: handleUncleanClose_def)
  have "map (\<lambda>i. computeBackoffDelay (attempt t + i) cfg ((r # rs) ! i)) [0..<length (r # rs)]
      = computeBackoffDelay (attempt t) cfg r
        # map (\<lambda>i. computeBackoffDelay (attempt t + 1 + i) cfg (rs ! i)) [0..<length rs]"
    by (simp add: upt_conv_Cons map_Suc_upt[symmetric] del: upt_Suc)
  then show ?case using Cons.IH[OF u(1)] u(2,3) by simp
qed simp

theorem retry_schedule_witness:
  "timeouts (foldl (\<lambda>u r. handleUncleanClose DEFAULT_BACKOFF r u) new_transport [0, 0, 0]) = [0, 250, 500]"
  using retry_schedule[of new_transport DEFAULT_BACKOFF "[0, 0, 0]"]
  by (simp add: new_transport_def timeouts_def computeBackoffDelay_def DEFAULT_BACKOFF_def upt_rec)

end
