(* ===== verification/Snapshot_Resync.thy ===== *)
theory Snapshot_Resync
  imports Snapshot_Codec
begin

text \<open>
  The driver of a stale-client resync, \<open>performSnapshotResync\<close> of
  \<^verbatim>\<open>src/lib/sync/snapshot-resync.ts\<close>, over a port: the engine and outbox calls it makes, as
  functions on a state. What the driver needs of a port is the locale \<open>resync_port\<close>; the
  session (theory Sync_Session) interprets it with the worker and the outbox.
\<close>

section \<open>The driver\<close>

record ('s, 'x) ResyncPort =
  rp_unackedOps :: "'s \<Rightarrow> 'x + bytes list"
  rp_importSnapshot :: "bytes \<Rightarrow> 's \<Rightarrow> 's \<times> 'x option"
  rp_applyRemote :: "bytes list \<Rightarrow> 's \<Rightarrow> 's \<times> ('x + nat)"
  rp_setCursor :: "string \<Rightarrow> 's \<Rightarrow> 's \<times> 'x option"
  rp_getCursor :: "'s \<Rightarrow> string"

record ResyncResult =
  boundary :: nat
  reapplyCount :: nat
  duplicateCount :: nat
  previousCursor :: string

datatype 'x resync_failure = Rejected resync_error | PortThrew 'x

text \<open>The \<open>try\<close> block: import, re-apply what was pending, set the cursor last.\<close>

definition replace_base ::
  "('s, 'x) ResyncPort \<Rightarrow> bytes \<Rightarrow> bytes list \<Rightarrow> nat \<Rightarrow> 's \<Rightarrow> 's \<times> ('x + nat)" where
  "replace_base port inner pending coverageSeq s =
     (case rp_importSnapshot port inner s of
        (s1, Some x) \<Rightarrow> (s1, Inl x)
      | (s1, None) \<Rightarrow>
          (case (if pending = [] then (s1, Inr 0) else rp_applyRemote port pending s1) of
             (s2, Inl x) \<Rightarrow> (s2, Inl x)
           | (s2, Inr duplicates) \<Rightarrow>
               (case rp_setCursor port (show_nat coverageSeq) s2 of
                  (s3, Some x) \<Rightarrow> (s3, Inl x)
                | (s3, None) \<Rightarrow> (s3, Inr duplicates))))"

text \<open>The \<open>catch\<close> block: put the cursor back when it moved.\<close>

definition restore_cursor :: "('s, 'x) ResyncPort \<Rightarrow> string \<Rightarrow> 'x \<Rightarrow> 's \<Rightarrow> 's \<times> 'x" where
  "restore_cursor port previous x s =
     (if rp_getCursor port s \<noteq> previous then
        (case rp_setCursor port previous s of
           (s', Some y) \<Rightarrow> (s', y)
         | (s', None) \<Rightarrow> (s', x))
      else (s, x))"

definition performSnapshotResync ::
  "digest \<Rightarrow> ('s, 'x) ResyncPort \<Rightarrow> string \<Rightarrow> SnapshotEnvelope \<Rightarrow> 's
    \<Rightarrow> 's \<times> ('x resync_failure + ResyncResult)" where
  "performSnapshotResync subtle port expectedDocumentId env s =
     (let previous = rp_getCursor port s
      in case validateServerSnapshot subtle expectedDocumentId env of
           Inl e \<Rightarrow> (s, Inl (Rejected e))
         | Inr (inner, coverageSeq) \<Rightarrow>
             (case rp_unackedOps port s of
                Inl x \<Rightarrow> (s, Inl (PortThrew x))
              | Inr pending \<Rightarrow>
                  (case replace_base port inner pending coverageSeq s of
                     (s', Inr duplicates) \<Rightarrow>
                       (s', Inr \<lparr>boundary = coverageSeq, reapplyCount = length pending,
                                duplicateCount = duplicates, previousCursor = previous\<rparr>)
                   | (s', Inl x) \<Rightarrow>
                       (case restore_cursor port previous x s' of
                          (s'', y) \<Rightarrow> (s'', Inl (PortThrew y))))))"

section \<open>The port's contract\<close>

text \<open>
  A port keeps the outbox and the cursor through engine calls, keeps the outbox through a cursor
  write, and a failed cursor write leaves the cursor.
\<close>

locale resync_port =
  fixes port :: "('s, 'x) ResyncPort"
  assumes import_keeps: "rp_importSnapshot port b s = (s', r) \<Longrightarrow>
      rp_unackedOps port s' = rp_unackedOps port s \<and> rp_getCursor port s' = rp_getCursor port s"
    and apply_keeps: "rp_applyRemote port ops s = (s', q) \<Longrightarrow>
      rp_unackedOps port s' = rp_unackedOps port s \<and> rp_getCursor port s' = rp_getCursor port s"
    and set_keeps: "rp_setCursor port c s = (s', r) \<Longrightarrow> rp_unackedOps port s' = rp_unackedOps port s"
    and set_fails: "rp_setCursor port c s = (s', Some x) \<Longrightarrow> rp_getCursor port s' = rp_getCursor port s"
begin

lemma replace_base_keeps:
  assumes "replace_base port inner pending cov s = (s', r)"
  shows "rp_unackedOps port s' = rp_unackedOps port s"
    and "r = Inl x \<Longrightarrow> rp_getCursor port s' = rp_getCursor port s"
proof -
  obtain s1 r1 where i: "rp_importSnapshot port inner s = (s1, r1)" by fastforce
  obtain s2 r2 where a: "(if pending = [] then (s1, Inr 0) else rp_applyRemote port pending s1) = (s2, r2)"
    by fastforce
  have k: "rp_unackedOps port s2 = rp_unackedOps port s1 \<and> rp_getCursor port s2 = rp_getCursor port s1"
    using a apply_keeps by (auto split: if_splits)
  show "rp_unackedOps port s' = rp_unackedOps port s"
    using assms i a k import_keeps[OF i] set_keeps
    by (auto simp: replace_base_def split: option.splits sum.splits prod.splits)
  show "r = Inl x \<Longrightarrow> rp_getCursor port s' = rp_getCursor port s"
    using assms i a k import_keeps[OF i] set_fails
    by (auto simp: replace_base_def split: option.splits sum.splits prod.splits)
qed

text \<open>Whatever happens, the outbox keeps what it had to send.\<close>

lemma resync_keeps_outbox:
  assumes "performSnapshotResync subtle port doc env s = (s', r)"
  shows "rp_unackedOps port s' = rp_unackedOps port s"
  using assms replace_base_keeps(1) set_keeps
  by (auto simp: performSnapshotResync_def restore_cursor_def Let_def
      split: sum.splits prod.splits option.splits if_splits)

text \<open>A failed resync leaves the cursor; a rejected snapshot leaves everything.\<close>

lemma failed_resync_keeps_cursor:
  assumes "performSnapshotResync subtle port doc env s = (s', Inl f)"
  shows "rp_getCursor port s' = rp_getCursor port s"
  using assms replace_base_keeps(2)
  by (auto simp: performSnapshotResync_def restore_cursor_def Let_def
      split: sum.splits prod.splits option.splits if_splits)

end

lemma rejected_resync_unchanged:
  "performSnapshotResync subtle port doc env s = (s', Inl (Rejected e)) \<Longrightarrow> s' = s"
  by (auto simp: performSnapshotResync_def Let_def split: sum.splits prod.splits)

text \<open>What a successful resync did, in its order.\<close>

lemma resync_success:
  assumes "performSnapshotResync subtle port doc env s = (s', Inr res)"
  obtains inner pending s1 s2 where
    "validateServerSnapshot subtle doc env = Inr (inner, boundary res)"
    "rp_unackedOps port s = Inr pending"
    "rp_importSnapshot port inner s = (s1, None)"
    "if pending = [] then s2 = s1 \<and> duplicateCount res = 0
     else rp_applyRemote port pending s1 = (s2, Inr (duplicateCount res))"
    "rp_setCursor port (show_nat (boundary res)) s2 = (s', None)"
    "reapplyCount res = length pending" "previousCursor res = rp_getCursor port s"
  using assms
  by (auto simp: performSnapshotResync_def replace_base_def Let_def
      split: sum.splits prod.splits option.splits if_splits)

end
