(* ===== verification/Sync_Session.thy ===== *)
theory Sync_Session
  imports Catchup_Briefing Transport Snapshot_Resync Worker_Durability Outbox
begin

text \<open>
  The collaboration runtime of one document, \<^verbatim>\<open>src/lib/sync/sync-session.ts\<close>, with the engine
  port of \<^verbatim>\<open>src/lib/sync/worker-engine-port.ts\<close>: the session owns the transport, calls the worker
  and the outbox, and reports to the page. The two promise chains of the class are queues: the
  local tasks (\<open>enqueueTail\<close>) and the received batches (\<open>inboundTail\<close>, where the rest of
  \<open>onReady\<close> waits its turn). A step takes the head of a queue or runs a handler to its end; the
  \<open>markSent\<close> after a flush is a step of its own, so acknowledgements can overtake it. Whether the
  transactions of a step commit is part of its environment.
\<close>

section \<open>State\<close>

record ResyncSignal =
  sg_boundary :: string
  sg_snapshotId :: string
  sg_snapshotChecksum :: string
  sg_snapshotFormatVersion :: string
  sg_coverageOpCount :: string

datatype after_recovery = Nothing | Join | Connect

datatype local_task = Enqueue "bytes list" | Recover after_recovery

datatype inbound = Batch "bytes list" "string option" | ReadyMark

datatype report =
    ReportOutbox StateCounts bool
  | ReportBriefing CatchupBriefing
  | ReportLocalError
  | ReportCursor string

record 'e Session =
  se_worker :: "'e Worker"
  se_outbox :: OutboxState
  se_transport :: Transport
  disposed :: bool
  nextBatchId :: nat
  flushTimer :: bool
  lastCursor :: string
  enqueueTail :: "local_task list"
  enqueueFailed :: bool
  inboundTail :: "inbound list"
  catchupFailed :: bool
  catchupComplete :: bool
  serverConfirmed :: bool
  catchupStartCursor :: string
  catchupCounts :: CatchupOpCounts
  snapshotResyncApplied :: bool
  initialCatchupPending :: bool
  suppressCatchupBriefing :: bool
  resyncSignal :: "ResyncSignal option"
  marking :: "string list list"
  reports :: "report list"

record SessionConfig =
  sc_documentId :: string
  sc_storageId :: string
  sc_worker :: WorkerConfig
  sc_backoff :: BackoffConfig
  sc_collate :: "string \<Rightarrow> string \<Rightarrow> bool"
  sc_digest :: digest

text \<open>
  One step's environment: the clock, the random number of a reconnection, whether the worker's
  transactions commit (an import, an append, a cursor write), whether a socket is created and after how many outbox writes
  one fails, if any does.
\<close>

record Env =
  ev_now :: nat
  ev_random :: rat
  ev_import :: bool
  ev_commits :: bool
  ev_persist :: bool
  ev_socket :: bool
  ev_store_fails :: "nat option"

definition MAX_BATCH :: nat where "MAX_BATCH = 512"

definition new_session :: "'e Worker \<Rightarrow> OutboxState \<Rightarrow> string \<Rightarrow> 'e Session" where
  "new_session w ob cursor =
     \<lparr>se_worker = w, se_outbox = ob, se_transport = new_transport, disposed = False, nextBatchId = 1,
      flushTimer = False, lastCursor = cursor, enqueueTail = [], enqueueFailed = False,
      inboundTail = [], catchupFailed = False, catchupComplete = False, serverConfirmed = False,
      catchupStartCursor = cursor, catchupCounts = emptyCatchupCounts,
      snapshotResyncApplied = False, initialCatchupPending = True, suppressCatchupBriefing = False,
      resyncSignal = None, marking = [], reports = []\<rparr>"

section \<open>Small helpers\<close>

definition report_to :: "report \<Rightarrow> 'e Session \<Rightarrow> 'e Session" where
  "report_to r s = s\<lparr>reports := reports s @ [r]\<rparr>"

definition on_transport :: "(Transport \<Rightarrow> Transport) \<Rightarrow> 'e Session \<Rightarrow> 'e Session" where
  "on_transport f s = s\<lparr>se_transport := f (se_transport s)\<rparr>"

definition session_reconnect :: "SessionConfig \<Rightarrow> Env \<Rightarrow> 'e Session \<Rightarrow> 'e Session" where
  "session_reconnect cfg env = on_transport (reconnect (sc_backoff cfg) (ev_random env))"

definition fail_and_reconnect :: "SessionConfig \<Rightarrow> Env \<Rightarrow> 'e Session \<Rightarrow> 'e Session" where
  "fail_and_reconnect cfg env s = session_reconnect cfg env (report_to ReportLocalError s)"

definition worker_call ::
  "('e, 'x) EnginePort_scheme \<Rightarrow> SessionConfig \<Rightarrow> bool \<Rightarrow> nat \<Rightarrow> WorkerRequest \<Rightarrow> 'e Session
    \<Rightarrow> 'e Session \<times> (crdt_error + WorkerResult)" where
  "worker_call eng cfg commits now req s =
     (case handle eng (sc_worker cfg) commits now req (se_worker s) of
        (w, r) \<Rightarrow> (s\<lparr>se_worker := w\<rparr>, r))"

definition reportOutboxState :: "SessionConfig \<Rightarrow> bool \<Rightarrow> 'e Session \<Rightarrow> 'e Session" where
  "reportOutboxState cfg catchupConfirmed s =
     (let counts = stateCounts (sc_storageId cfg) (se_outbox s);
          confirmed = (catchupConfirmed \<and> sc_pending counts = 0 \<and> sc_sent counts = 0
            \<and> sc_durably_acked counts = 0)
      in report_to (ReportOutbox counts confirmed) (s\<lparr>serverConfirmed := confirmed\<rparr>))"

section \<open>Catch-up requests\<close>

definition requestCatchup :: "'e Session \<Rightarrow> 'e Session" where
  "requestCatchup s = on_transport (requestSync (lastCursor s)) s"

definition syncNow :: "bool \<Rightarrow> 'e Session \<Rightarrow> 'e Session" where
  "syncNow showBriefing s =
     (if disposed s \<or> status (se_transport s) \<noteq> Ready then s
      else on_transport (requestSync (lastCursor s))
        (s\<lparr>suppressCatchupBriefing := \<not> showBriefing, catchupFailed := False, catchupComplete := False,
           catchupStartCursor := lastCursor s, catchupCounts := emptyCatchupCounts\<rparr>))"

text \<open>\<open>joinWithSummary\<close> swallows an engine error: the next handshake retries.\<close>

definition joinWithSummary :: "('e, 'x) EnginePort_scheme \<Rightarrow> SessionConfig \<Rightarrow> 'e Session \<Rightarrow> 'e Session" where
  "joinWithSummary eng cfg s =
     (case worker_call eng cfg True 0 ReplicaInfo s of
        (s', Inr (RReplicaInfo replicaId sequence)) \<Rightarrow>
          on_transport (joinDocument (sc_documentId cfg) [(replicaId, sequence)]) s'
      | (s', _) \<Rightarrow> s')"

section \<open>Outbound\<close>

text \<open>The loop of \<open>enqueueLocal\<close>: \<open>False\<close> when an outbox write failed.\<close>

fun add_all ::
  "SessionConfig \<Rightarrow> nat \<Rightarrow> nat option \<Rightarrow> bytes list \<Rightarrow> OutboxState \<Rightarrow> OutboxState \<times> bool" where
  "add_all cfg now fails [] ob = (ob, True)"
| "add_all cfg now fails (op # ops) ob =
     (case identityFromOpBytes op of
        None \<Rightarrow> add_all cfg now fails ops ob
      | Some i \<Rightarrow>
          if fails = Some 0 then (snd (nextSequence now ob), False)
          else
            (case addPending (sc_storageId cfg) (formatOpIdentity (id_replica i) (id_counter i)) op now now ob of
               (ob', None) \<Rightarrow> (ob', False)
             | (ob', Some _) \<Rightarrow> add_all cfg now (map_option (\<lambda>n. n - 1) fails) ops ob'))"

definition scheduleFlush :: "'e Session \<Rightarrow> 'e Session" where
  "scheduleFlush s = s\<lparr>flushTimer := True\<rparr>"

definition enqueueLocal :: "SessionConfig \<Rightarrow> Env \<Rightarrow> bytes list \<Rightarrow> 'e Session \<Rightarrow> 'e Session \<times> bool" where
  "enqueueLocal cfg env ops s =
     (if disposed s \<or> ops = [] then (s, True)
      else
        (case add_all cfg (ev_now env) (ev_store_fails env) ops (se_outbox s) of
           (ob, done) \<Rightarrow>
             let s1 = reportOutboxState cfg False (s\<lparr>serverConfirmed := False, se_outbox := ob\<rparr>)
             in if \<not> done then (s1, False)
                else if status (se_transport s1) = Ready then (scheduleFlush s1, True) else (s1, True)))"

definition recoverOutbox ::
  "('e, 'x) EnginePort_scheme \<Rightarrow> SessionConfig \<Rightarrow> Env \<Rightarrow> 'e Session \<Rightarrow> 'e Session \<times> bool" where
  "recoverOutbox eng cfg env s =
     (case worker_call eng cfg True (ev_now env)
             (LocalOpsSince (lastSeenCounter (sc_storageId cfg) (se_outbox s))) s of
        (s1, Inr (RLocalOpsSince ops nextCounter)) \<Rightarrow>
          (case enqueueLocal cfg env ops s1 of
             (s2, True) \<Rightarrow> (if ops = [] then reportOutboxState cfg False s2 else s2, True)
           | (s2, False) \<Rightarrow> (s2, False))
      | (s1, _) \<Rightarrow> (s1, False))"

text \<open>One link of \<open>enqueueTail\<close>; after a failed link the next one recovers first.\<close>

definition local_step ::
  "('e, 'x) EnginePort_scheme \<Rightarrow> SessionConfig \<Rightarrow> Env \<Rightarrow> local_task \<Rightarrow> 'e Session \<Rightarrow> 'e Session \<times> bool" where
  "local_step eng cfg env task s =
     (case task of
        Enqueue ops \<Rightarrow>
          if \<not> enqueueFailed s then enqueueLocal cfg env ops s
          else (case recoverOutbox eng cfg env s of
                  (s1, True) \<Rightarrow> enqueueLocal cfg env ops s1
                | (s1, False) \<Rightarrow> (s1, False))
      | Recover after \<Rightarrow> recoverOutbox eng cfg env s)"

definition after_local ::
  "('e, 'x) EnginePort_scheme \<Rightarrow> SessionConfig \<Rightarrow> Env \<Rightarrow> local_task \<Rightarrow> bool \<Rightarrow> 'e Session \<Rightarrow> 'e Session" where
  "after_local eng cfg env task done s =
     (case task of
        Enqueue ops \<Rightarrow> if done then s else report_to ReportLocalError s
      | Recover Nothing \<Rightarrow> s
      | Recover Join \<Rightarrow> if done then joinWithSummary eng cfg s else fail_and_reconnect cfg env s
      | Recover Connect \<Rightarrow>
          on_transport (connect (sc_backoff cfg) (ev_socket env) (ev_random env))
            (reportOutboxState cfg False (if done then s else report_to ReportLocalError s)))"

definition run_local_task ::
  "('e, 'x) EnginePort_scheme \<Rightarrow> SessionConfig \<Rightarrow> Env \<Rightarrow> 'e Session \<Rightarrow> 'e Session" where
  "run_local_task eng cfg env s =
     (case enqueueTail s of
        [] \<Rightarrow> s
      | task # rest \<Rightarrow>
          (case local_step eng cfg env task (s\<lparr>enqueueTail := rest\<rparr>) of
             (s1, done) \<Rightarrow> after_local eng cfg env task done (s1\<lparr>enqueueFailed := \<not> done\<rparr>)))"

text \<open>\<open>flushOutbox\<close> up to the send; the identities to mark wait in \<open>marking\<close>.\<close>

definition flushOutbox :: "SessionConfig \<Rightarrow> 'e Session \<Rightarrow> 'e Session" where
  "flushOutbox cfg s =
     (if status (se_transport s) \<noteq> Ready \<or> \<not> catchupComplete s \<or> disposed s then s
      else
        let unacked = unackedOps (sc_collate cfg) (sc_storageId cfg) (se_outbox s)
        in if unacked = [] then s
           else
             let batch = take MAX_BATCH unacked;
                 ids = map (\<lambda>r. record_identity (po_id r)) batch;
                 s1 = s\<lparr>nextBatchId := nextBatchId s + 1\<rparr>
             in (case sendClientOps (nextBatchId s) (map po_op batch) (se_transport s1) of
                   (t, False) \<Rightarrow> s1
                 | (t, True) \<Rightarrow> s1\<lparr>se_transport := t, marking := marking s1 @ [ids]\<rparr>))"

text \<open>The rest of \<open>flushOutbox\<close>.\<close>

definition commit_sent :: "SessionConfig \<Rightarrow> Env \<Rightarrow> 'e Session \<Rightarrow> 'e Session" where
  "commit_sent cfg env s =
     (case marking s of
        [] \<Rightarrow> s
      | ids # rest \<Rightarrow>
          let s1 = s\<lparr>marking := rest\<rparr>
          in if ev_store_fails env = Some 0 then report_to ReportLocalError s1
             else reportOutboxState cfg False (s1\<lparr>se_outbox := markSent (sc_storageId cfg) ids (se_outbox s1)\<rparr>))"

definition handleDurableAck :: "SessionConfig \<Rightarrow> Env \<Rightarrow> string list \<Rightarrow> 'e Session \<Rightarrow> 'e Session" where
  "handleDurableAck cfg env opIds s =
     (if ev_store_fails env = Some 0 \<and> opIds \<noteq> [] then fail_and_reconnect cfg env s
      else
        let s1 = s\<lparr>se_outbox := markDurablyAcked (sc_storageId cfg) opIds (se_outbox s),
                   serverConfirmed := False\<rparr>;
            s2 = flushOutbox cfg (reportOutboxState cfg False s1);
            counts = stateCounts (sc_storageId cfg) (se_outbox s2)
        in if sc_pending counts = 0 \<and> sc_sent counts = 0 then syncNow False s2 else s2)"

section \<open>Cursor\<close>

definition advanceCursor :: "string \<Rightarrow> 'e Session \<Rightarrow> 'e Session \<times> crdt_error option" where
  "advanceCursor cursor s =
     (case (js_BigInt cursor, js_BigInt (lastCursor s)) of
        (Some c, Some l) \<Rightarrow>
          if c < l then (s, None)
          else (report_to (ReportCursor cursor) (s\<lparr>lastCursor := cursor\<rparr>), None)
      | _ \<Rightarrow> (s, Some InvalidArgument))"

definition persistCursor ::
  "('e, 'x) EnginePort_scheme \<Rightarrow> SessionConfig \<Rightarrow> Env \<Rightarrow> string \<Rightarrow> 'e Session \<Rightarrow> 'e Session \<times> crdt_error option" where
  "persistCursor eng cfg env cursor s =
     (case worker_call eng cfg (ev_persist env) (ev_now env) (PersistSyncCursor cursor) s of
        (s1, Inl e) \<Rightarrow> (s1, Some e)
      | (s1, Inr _) \<Rightarrow> advanceCursor cursor s1)"

section \<open>Snapshot resync\<close>

definition session_port ::
  "('e, 'x) EnginePort_scheme \<Rightarrow> SessionConfig \<Rightarrow> Env \<Rightarrow> ('e Session, crdt_error) ResyncPort" where
  "session_port eng cfg env =
     \<lparr>rp_unackedOps = (\<lambda>s. Inr (map po_op (unackedOps (sc_collate cfg) (sc_storageId cfg) (se_outbox s)))),
      rp_importSnapshot = (\<lambda>inner s.
        case worker_call eng cfg (ev_import env) (ev_now env) (ImportSnapshot inner True) s of
          (s', Inl e) \<Rightarrow> (s', Some e)
        | (s', Inr _) \<Rightarrow> (s', None)),
      rp_applyRemote = (\<lambda>ops s.
        case worker_call eng cfg (ev_commits env) (ev_now env) (ApplyRemote ops None) s of
          (s', Inr (RApplyRemote applied duplicates ds)) \<Rightarrow> (s', Inr duplicates)
        | (s', Inr _) \<Rightarrow> (s', Inl StateCorruption)
        | (s', Inl e) \<Rightarrow> (s', Inl e)),
      rp_setCursor = persistCursor eng cfg env,
      rp_getCursor = lastCursor\<rparr>"

definition signal_of :: "json \<Rightarrow> ResyncSignal" where
  "signal_of payload =
     \<lparr>sg_boundary = text_of ''boundary'' payload, sg_snapshotId = text_of ''snapshotId'' payload,
      sg_snapshotChecksum = text_of ''snapshotChecksum'' payload,
      sg_snapshotFormatVersion = text_of ''snapshotFormatVersion'' payload,
      sg_coverageOpCount = text_of ''coverageOpCount'' payload\<rparr>"

definition beginSnapshotResync :: "ResyncSignal \<Rightarrow> 'e Session \<Rightarrow> 'e Session" where
  "beginSnapshotResync signal s =
     on_transport (fetchSnapshot (sg_snapshotId signal)) (s\<lparr>resyncSignal := Some signal\<rparr>)"

text \<open>
  \<open>Number(text)\<close> of a format version, as far as it is compared with 1: integers in the forms
  \<open>BigInt\<close> reads and decimal literals of an integer; anything else is 0 here, and not 1 there.
\<close>

definition version_number :: "string \<Rightarrow> int" where
  "version_number s =
     (case js_BigInt s of
        Some n \<Rightarrow> n
      | None \<Rightarrow> (case lex_number (js_trim s) of Some (JNum n, []) \<Rightarrow> n | _ \<Rightarrow> 0))"

definition payload_envelope :: "json \<Rightarrow> SnapshotEnvelope" where
  "payload_envelope payload =
     \<lparr>env_snapshotId = text_of ''snapshotId'' payload,
      env_formatVersion = version_number (text_of ''formatVersion'' payload),
      env_coverageSeq = text_of ''coverageSeq'' payload,
      env_coveredOpCount = text_of ''coveredOpCount'' payload,
      env_checksum = text_of ''checksum'' payload,
      env_payloadBase64 = text_of ''payloadBase64'' payload,
      env_stateDigest = text_of ''stateDigest'' payload,
      env_payloadSize = text_of ''payloadSize'' payload\<rparr>"

definition payload_matches :: "ResyncSignal \<Rightarrow> json \<Rightarrow> bool" where
  "payload_matches signal payload \<longleftrightarrow>
     text_of ''snapshotId'' payload = sg_snapshotId signal
     \<and> text_of ''checksum'' payload = sg_snapshotChecksum signal
     \<and> text_of ''coverageSeq'' payload = sg_boundary signal
     \<and> text_of ''coveredOpCount'' payload = sg_coverageOpCount signal
     \<and> text_of ''formatVersion'' payload = sg_snapshotFormatVersion signal"

definition handleSnapshotPayload ::
  "('e, 'x) EnginePort_scheme \<Rightarrow> SessionConfig \<Rightarrow> Env \<Rightarrow> json \<Rightarrow> 'e Session \<Rightarrow> 'e Session" where
  "handleSnapshotPayload eng cfg env payload s0 =
     (let s = s0\<lparr>resyncSignal := None\<rparr>
      in case resyncSignal s0 of
           None \<Rightarrow> s
         | Some signal \<Rightarrow>
             if disposed s then s
             else if \<not> payload_matches signal payload then requestCatchup s
             else
               (case performSnapshotResync (sc_digest cfg) (session_port eng cfg env)
                       (sc_documentId cfg) (payload_envelope payload) s of
                  (s1, Inr res) \<Rightarrow> requestCatchup (s1\<lparr>snapshotResyncApplied := True\<rparr>)
                | (s1, Inl (Rejected e)) \<Rightarrow> s1
                | (s1, Inl (PortThrew x)) \<Rightarrow> fail_and_reconnect cfg env s1))"

section \<open>Inbound\<close>

definition applyRemoteOps ::
  "('e, 'x) EnginePort_scheme \<Rightarrow> SessionConfig \<Rightarrow> Env \<Rightarrow> bytes list \<Rightarrow> string option \<Rightarrow> 'e Session
    \<Rightarrow> 'e Session \<times> crdt_error option" where
  "applyRemoteOps eng cfg env ops cursor s =
     (if (ops = [] \<and> cursor = None) \<or> disposed s then (s, None)
      else
        (case worker_call eng cfg (ev_commits env) (ev_now env) (ApplyRemote ops cursor) s of
           (s', Inl e) \<Rightarrow> (s', Some e)
         | (s', Inr _) \<Rightarrow> (s', None)))"

definition queueRemote :: "bytes list \<Rightarrow> string option \<Rightarrow> 'e Session \<Rightarrow> 'e Session" where
  "queueRemote ops cursor s = s\<lparr>inboundTail := inboundTail s @ [Batch ops cursor]\<rparr>"

definition apply_batch ::
  "('e, 'x) EnginePort_scheme \<Rightarrow> SessionConfig \<Rightarrow> Env \<Rightarrow> bytes list \<Rightarrow> string option \<Rightarrow> 'e Session
    \<Rightarrow> 'e Session \<times> crdt_error option" where
  "apply_batch eng cfg env ops cursor s =
     (case applyRemoteOps eng cfg env ops cursor s of
        (s1, Some e) \<Rightarrow> (s1, Some e)
      | (s1, None) \<Rightarrow>
          (case cursor of
             None \<Rightarrow> (s1, None)
           | Some c \<Rightarrow> advanceCursor c s1))"

text \<open>The part of \<open>onReady\<close> after \<open>await this.enqueueTail\<close>.\<close>

definition finish_catchup :: "SessionConfig \<Rightarrow> 'e Session \<Rightarrow> 'e Session" where
  "finish_catchup cfg s =
     (let counts = stateCounts (sc_storageId cfg) (se_outbox s);
          briefing = createCatchupBriefing (catchupStartCursor s) (lastCursor s) (catchupCounts s)
            (Some (sc_pending counts + sc_sent counts)) (\<not> snapshotResyncApplied s);
          isInitialFreshLoad = (initialCatchupPending s \<and> catchupStartCursor s = ''0'');
          s1 = s\<lparr>initialCatchupPending := False\<rparr>;
          s2 = (case briefing of
                  None \<Rightarrow> s1
                | Some b \<Rightarrow>
                    if \<not> isInitialFreshLoad \<and> \<not> suppressCatchupBriefing s1
                    then report_to (ReportBriefing b) s1 else s1);
          s3 = s2\<lparr>catchupStartCursor := lastCursor s2, catchupCounts := emptyCatchupCounts,
                  snapshotResyncApplied := False\<rparr>
      in flushOutbox cfg (reportOutboxState cfg True s3))"

definition compact_acked :: "SessionConfig \<Rightarrow> 'e Session \<Rightarrow> 'e Session option" where
  "compact_acked cfg s =
     (case clearAcked (sc_storageId cfg) (ackedIds (sc_storageId cfg) (se_outbox s)) (se_outbox s)
             (wk_idb (se_worker s)) of
        Inl e \<Rightarrow> None
      | Inr (n, ob, idb) \<Rightarrow> Some (s\<lparr>se_outbox := ob, se_worker := (se_worker s)\<lparr>wk_idb := idb\<rparr>\<rparr>))"

definition onReady :: "SessionConfig \<Rightarrow> Env \<Rightarrow> 'e Session \<Rightarrow> 'e Session" where
  "onReady cfg env s =
     (if catchupFailed s \<or> disposed s then s
      else
        let s1 = s\<lparr>catchupComplete := True\<rparr>
        in (case compact_acked cfg s1 of
              None \<Rightarrow> fail_and_reconnect cfg env s1
            | Some s2 \<Rightarrow>
                if enqueueFailed s2 then fail_and_reconnect cfg env s2 else finish_catchup cfg s2))"

text \<open>
  One link of \<open>inboundTail\<close>. When a batch fails, the links behind it find \<open>catchupFailed\<close> set and
  do nothing, before anything else can run.
\<close>

definition run_inbound ::
  "('e, 'x) EnginePort_scheme \<Rightarrow> SessionConfig \<Rightarrow> Env \<Rightarrow> 'e Session \<Rightarrow> 'e Session" where
  "run_inbound eng cfg env s =
     (case inboundTail s of
        [] \<Rightarrow> s
      | ReadyMark # rest \<Rightarrow> onReady cfg env (s\<lparr>inboundTail := rest\<rparr>)
      | Batch ops cursor # rest \<Rightarrow>
          let s0 = s\<lparr>inboundTail := rest\<rparr>
          in if catchupFailed s0 \<or> disposed s0 then s0
             else
               (case apply_batch eng cfg env ops cursor s0 of
                  (s1, None) \<Rightarrow> s1
                | (s1, Some e) \<Rightarrow>
                    fail_and_reconnect cfg env (s1\<lparr>catchupFailed := True, inboundTail := []\<rparr>)))"

section \<open>Callbacks of the transport\<close>

definition onAuthenticated :: "'e Session \<Rightarrow> 'e Session" where
  "onAuthenticated s =
     s\<lparr>suppressCatchupBriefing := False, catchupFailed := False, catchupComplete := False,
       serverConfirmed := False, enqueueTail := enqueueTail s @ [Recover Join]\<rparr>"

definition onSyncBatch :: "bytes list \<Rightarrow> nat \<Rightarrow> 'e Session \<Rightarrow> 'e Session" where
  "onSyncBatch ops nextCursor s =
     queueRemote ops (Some (show_nat nextCursor)) (s\<lparr>catchupCounts := countCatchupOps (catchupCounts s) ops\<rparr>)"

definition onSessionError :: "SessionConfig \<Rightarrow> Env \<Rightarrow> string \<Rightarrow> 'e Session \<Rightarrow> 'e Session" where
  "onSessionError cfg env code s =
     (if code = ''database_unavailable'' \<and> status (se_transport s) = Syncing
      then session_reconnect cfg env s else s)"

fun on_effect ::
  "('e, 'x) EnginePort_scheme \<Rightarrow> SessionConfig \<Rightarrow> Env \<Rightarrow> effect \<Rightarrow> 'e Session \<Rightarrow> 'e Session" where
  "on_effect eng cfg env (OnDurableAck batchId opIds) s = handleDurableAck cfg env opIds s"
| "on_effect eng cfg env OnAuthenticated s = onAuthenticated s"
| "on_effect eng cfg env (OnPeerOps ops) s = queueRemote ops None s"
| "on_effect eng cfg env (OnSyncBatch ops nextCursor hasMore) s = onSyncBatch ops nextCursor s"
| "on_effect eng cfg env OnJoinAccepted s = requestCatchup s"
| "on_effect eng cfg env OnSyncDone s = s\<lparr>inboundTail := inboundTail s @ [ReadyMark]\<rparr>"
| "on_effect eng cfg env (OnSnapshotResyncRequired payload) s = beginSnapshotResync (signal_of payload) s"
| "on_effect eng cfg env (OnSnapshotPayload payload) s = handleSnapshotPayload eng cfg env payload s"
| "on_effect eng cfg env (OnError code msg req) s = onSessionError cfg env code s"
| "on_effect eng cfg env _ s = s"

text \<open>A transport event: the transport's step, then the callbacks it made, in order.\<close>

definition transport_event ::
  "('e, 'x) EnginePort_scheme \<Rightarrow> SessionConfig \<Rightarrow> Env \<Rightarrow> transport_action \<Rightarrow> 'e Session \<Rightarrow> 'e Session" where
  "transport_event eng cfg env a s =
     (let t = transport_step (sc_backoff cfg) a (se_transport s);
          new = drop (length (effects (se_transport s))) (effects t)
      in foldl (\<lambda>u x. on_effect eng cfg env x u) (s\<lparr>se_transport := t\<rparr>) new)"

section \<open>Start, stop and steps\<close>

definition start_session :: "('e, 'x) EnginePort_scheme \<Rightarrow> SessionConfig \<Rightarrow> 'e Session \<Rightarrow> 'e Session" where
  "start_session eng cfg s =
     (case worker_call eng cfg True 0 GetSyncCursor (s\<lparr>serverConfirmed := False\<rparr>) of
        (s1, Inr (RSyncCursor c)) \<Rightarrow>
          s1\<lparr>lastCursor := c, catchupStartCursor := c, enqueueTail := [Recover Connect]\<rparr>
      | (s1, _) \<Rightarrow> s1)"

definition stop_session :: "'e Session \<Rightarrow> 'e Session" where
  "stop_session s = on_transport close_transport (s\<lparr>disposed := True, flushTimer := False\<rparr>)"

datatype event =
    Start
  | Stop
  | LocalOps "bytes list"
  | RunLocal
  | RunInbound
  | FlushTimer
  | CommitSent
  | SyncNow bool
  | Net transport_action

fun session_step ::
  "('e, 'x) EnginePort_scheme \<Rightarrow> SessionConfig \<Rightarrow> Env \<Rightarrow> event \<Rightarrow> 'e Session \<Rightarrow> 'e Session" where
  "session_step eng cfg env Start s = start_session eng cfg s"
| "session_step eng cfg env Stop s = stop_session s"
| "session_step eng cfg env (LocalOps ops) s = s\<lparr>enqueueTail := enqueueTail s @ [Enqueue ops]\<rparr>"
| "session_step eng cfg env RunLocal s = run_local_task eng cfg env s"
| "session_step eng cfg env RunInbound s = run_inbound eng cfg env s"
| "session_step eng cfg env FlushTimer s = flushOutbox cfg (s\<lparr>flushTimer := False\<rparr>)"
| "session_step eng cfg env CommitSent s = commit_sent cfg env s"
| "session_step eng cfg env (SyncNow b) s = syncNow b s"
| "session_step eng cfg env (Net a) s = transport_event eng cfg env a s"

definition session_run ::
  "('e, 'x) EnginePort_scheme \<Rightarrow> SessionConfig \<Rightarrow> (Env \<times> event) list \<Rightarrow> 'e Session \<Rightarrow> 'e Session" where
  "session_run eng cfg evs s = foldl (\<lambda>u (env, ev). session_step eng cfg env ev u) s evs"

section \<open>The port\<close>

lemma advanceCursor_outbox: "advanceCursor c s = (s', r) \<Longrightarrow> se_outbox s' = se_outbox s"
  by (auto simp: advanceCursor_def report_to_def split: option.splits if_splits)

lemma worker_call_keeps:
  "worker_call eng cfg b n req s = (s', r) \<Longrightarrow> se_outbox s' = se_outbox s \<and> lastCursor s' = lastCursor s"
  by (auto simp: worker_call_def split: prod.splits)

interpretation session_port: resync_port "session_port eng cfg env"
  for eng :: "('e, 'x) EnginePort_scheme" and cfg env
proof (unfold_locales, goal_cases)
  case (1 b s s' r)
  then show ?case
    by (auto simp: session_port_def split: prod.splits sum.splits dest!: worker_call_keeps)
next
  case (2 ops s s' q)
  then show ?case
    by (auto simp: session_port_def split: prod.splits sum.splits WorkerResult.splits dest!: worker_call_keeps)
next
  case (3 c s s' r)
  then show ?case
    by (auto simp: session_port_def persistCursor_def split: prod.splits sum.splits
        dest!: worker_call_keeps advanceCursor_outbox)
next
  case (4 c s s' x)
  then show ?case
    by (auto simp: session_port_def persistCursor_def advanceCursor_def split: prod.splits sum.splits
        option.splits if_splits dest!: worker_call_keeps)
qed

end
