(* ===== verification/Session_Safety.thy ===== *)
theory Session_Safety
  imports Sync_Session
begin

text \<open>
  What a session keeps whatever happens to it: the outbox never loses unacknowledged work, the
  cursor never moves back and never covers an operation that is not durable, the confirmation it
  shows is sound. The steps are those of Sync_Session.
\<close>

section \<open>What the helpers leave alone\<close>

lemma report_to_fields [simp]:
  "se_worker (report_to r s) = se_worker s" "se_outbox (report_to r s) = se_outbox s"
  "se_transport (report_to r s) = se_transport s" "lastCursor (report_to r s) = lastCursor s"
  "inboundTail (report_to r s) = inboundTail s" "serverConfirmed (report_to r s) = serverConfirmed s"
  "disposed (report_to r s) = disposed s"
  by (simp_all add: report_to_def)

lemma on_transport_fields [simp]:
  "se_worker (on_transport f s) = se_worker s" "se_outbox (on_transport f s) = se_outbox s"
  "lastCursor (on_transport f s) = lastCursor s" "inboundTail (on_transport f s) = inboundTail s"
  "serverConfirmed (on_transport f s) = serverConfirmed s" "disposed (on_transport f s) = disposed s"
  by (simp_all add: on_transport_def)

lemma reconnect_fields [simp]:
  "se_worker (session_reconnect cfg env s) = se_worker s"
  "se_outbox (session_reconnect cfg env s) = se_outbox s"
  "lastCursor (session_reconnect cfg env s) = lastCursor s"
  "inboundTail (session_reconnect cfg env s) = inboundTail s"
  "serverConfirmed (session_reconnect cfg env s) = serverConfirmed s"
  by (simp_all add: session_reconnect_def)

lemma fail_fields [simp]:
  "se_worker (fail_and_reconnect cfg env s) = se_worker s"
  "se_outbox (fail_and_reconnect cfg env s) = se_outbox s"
  "lastCursor (fail_and_reconnect cfg env s) = lastCursor s"
  "inboundTail (fail_and_reconnect cfg env s) = inboundTail s"
  "serverConfirmed (fail_and_reconnect cfg env s) = serverConfirmed s"
  by (simp_all add: fail_and_reconnect_def)

lemma reportOutbox_fields [simp]:
  "se_worker (reportOutboxState cfg b s) = se_worker s"
  "se_outbox (reportOutboxState cfg b s) = se_outbox s"
  "lastCursor (reportOutboxState cfg b s) = lastCursor s"
  "inboundTail (reportOutboxState cfg b s) = inboundTail s"
  by (simp_all add: reportOutboxState_def Let_def)

lemma catchup_fields [simp]:
  "se_worker (requestCatchup s) = se_worker s" "se_outbox (requestCatchup s) = se_outbox s"
  "lastCursor (requestCatchup s) = lastCursor s" "inboundTail (requestCatchup s) = inboundTail s"
  "serverConfirmed (requestCatchup s) = serverConfirmed s"
  by (simp_all add: requestCatchup_def)

lemma syncNow_fields [simp]:
  "se_worker (syncNow b s) = se_worker s" "se_outbox (syncNow b s) = se_outbox s"
  "lastCursor (syncNow b s) = lastCursor s" "inboundTail (syncNow b s) = inboundTail s"
  "serverConfirmed (syncNow b s) = serverConfirmed s"
  by (simp_all add: syncNow_def)

lemma flush_fields [simp]:
  "se_worker (flushOutbox cfg s) = se_worker s" "se_outbox (flushOutbox cfg s) = se_outbox s"
  "lastCursor (flushOutbox cfg s) = lastCursor s" "inboundTail (flushOutbox cfg s) = inboundTail s"
  "serverConfirmed (flushOutbox cfg s) = serverConfirmed s"
  by (simp_all add: flushOutbox_def Let_def split: prod.splits bool.splits)

lemma begin_fields [simp]:
  "se_worker (beginSnapshotResync g s) = se_worker s" "se_outbox (beginSnapshotResync g s) = se_outbox s"
  "lastCursor (beginSnapshotResync g s) = lastCursor s" "inboundTail (beginSnapshotResync g s) = inboundTail s"
  "serverConfirmed (beginSnapshotResync g s) = serverConfirmed s"
  by (simp_all add: beginSnapshotResync_def)

lemma commit_sent_fields [simp]:
  "se_worker (commit_sent cfg env s) = se_worker s" "lastCursor (commit_sent cfg env s) = lastCursor s"
  "inboundTail (commit_sent cfg env s) = inboundTail s"
  by (simp_all add: commit_sent_def Let_def split: list.splits)

lemma ack_fields [simp]:
  "se_worker (handleDurableAck cfg env ids s) = se_worker s"
  "lastCursor (handleDurableAck cfg env ids s) = lastCursor s"
  "inboundTail (handleDurableAck cfg env ids s) = inboundTail s"
  by (simp_all add: handleDurableAck_def Let_def)

lemma finish_fields [simp]:
  "se_worker (finish_catchup cfg s) = se_worker s" "se_outbox (finish_catchup cfg s) = se_outbox s"
  "lastCursor (finish_catchup cfg s) = lastCursor s" "inboundTail (finish_catchup cfg s) = inboundTail s"
  by (simp_all add: finish_catchup_def Let_def split: option.splits)

lemma error_fields [simp]:
  "se_worker (onSessionError cfg env c s) = se_worker s" "se_outbox (onSessionError cfg env c s) = se_outbox s"
  "lastCursor (onSessionError cfg env c s) = lastCursor s"
  "inboundTail (onSessionError cfg env c s) = inboundTail s"
  "serverConfirmed (onSessionError cfg env c s) = serverConfirmed s"
  by (simp_all add: onSessionError_def)

lemma worker_call_fields:
  assumes "worker_call eng cfg b n req s = (s', r)"
  shows "se_outbox s' = se_outbox s" "lastCursor s' = lastCursor s" "inboundTail s' = inboundTail s"
    "serverConfirmed s' = serverConfirmed s" "se_transport s' = se_transport s" "disposed s' = disposed s"
    "handle eng (sc_worker cfg) b n req (se_worker s) = (se_worker s', r)"
  using assms by (auto simp: worker_call_def split: prod.splits)

lemma worker_call_all:
  "worker_call eng cfg b n req s = (s', r) \<Longrightarrow> se_outbox s' = se_outbox s \<and> lastCursor s' = lastCursor s
    \<and> inboundTail s' = inboundTail s \<and> serverConfirmed s' = serverConfirmed s
    \<and> se_transport s' = se_transport s \<and> disposed s' = disposed s"
  by (auto simp: worker_call_def split: prod.splits)

lemma enqueueLocal_fields:
  assumes "enqueueLocal cfg env ops s = (s', b)"
  shows "se_worker s' = se_worker s" "lastCursor s' = lastCursor s" "inboundTail s' = inboundTail s"
  using assms
  by (auto simp: enqueueLocal_def Let_def scheduleFlush_def split: if_splits prod.splits)

lemma enqueueLocal_all:
  "enqueueLocal cfg env ops s = (s', b) \<Longrightarrow>
    se_worker s' = se_worker s \<and> lastCursor s' = lastCursor s \<and> inboundTail s' = inboundTail s"
  by (auto dest: enqueueLocal_fields)

section \<open>The cursor never moves back\<close>

definition cursor_le :: "string \<Rightarrow> string \<Rightarrow> bool" where
  "cursor_le a b \<longleftrightarrow>
     a = b \<or> (case (js_BigInt a, js_BigInt b) of (Some m, Some n) \<Rightarrow> m \<le> n | _ \<Rightarrow> False)"

lemma cursor_le_refl [simp]: "cursor_le a a"
  by (simp add: cursor_le_def)

lemma cursor_le_trans: "cursor_le a b \<Longrightarrow> cursor_le b c \<Longrightarrow> cursor_le a c"
  by (auto simp: cursor_le_def split: option.splits)

lemma advance_le: "advanceCursor c s = (s', r) \<Longrightarrow> cursor_le (lastCursor s) (lastCursor s')"
  by (auto simp: advanceCursor_def cursor_le_def split: option.splits if_splits)

lemma persist_le: "persistCursor eng cfg env c s = (s', r) \<Longrightarrow> cursor_le (lastCursor s) (lastCursor s')"
  by (auto simp: persistCursor_def split: prod.splits sum.splits dest!: advance_le worker_call_all)

lemma recover_fields:
  assumes "recoverOutbox eng cfg env s = (s', b)"
  shows "lastCursor s' = lastCursor s" "inboundTail s' = inboundTail s"
  using assms
  by (auto simp: recoverOutbox_def split: prod.splits sum.splits WorkerResult.splits bool.splits if_splits
      dest!: worker_call_all enqueueLocal_all)

lemma recover_all:
  "recoverOutbox eng cfg env s = (s', b) \<Longrightarrow> lastCursor s' = lastCursor s \<and> inboundTail s' = inboundTail s"
  by (auto dest: recover_fields)

lemma local_step_fields:
  assumes "local_step eng cfg env task s = (s', b)"
  shows "lastCursor s' = lastCursor s" "inboundTail s' = inboundTail s"
  using assms
  by (auto simp: local_step_def split: local_task.splits if_splits prod.splits bool.splits
      dest!: recover_all enqueueLocal_all)

lemma join_fields [simp]:
  "lastCursor (joinWithSummary eng cfg s) = lastCursor s" "inboundTail (joinWithSummary eng cfg s) = inboundTail s"
  "se_outbox (joinWithSummary eng cfg s) = se_outbox s"
  "serverConfirmed (joinWithSummary eng cfg s) = serverConfirmed s"
  by (auto simp: joinWithSummary_def split: prod.splits sum.splits WorkerResult.splits
      dest!: worker_call_all)

lemma run_local_cursor [simp]:
  "lastCursor (run_local_task eng cfg env s) = lastCursor s"
  "inboundTail (run_local_task eng cfg env s) = inboundTail s"
proof -
  have "lastCursor (run_local_task eng cfg env s) = lastCursor s
    \<and> inboundTail (run_local_task eng cfg env s) = inboundTail s"
  proof (cases "enqueueTail s")
    case Nil
    then show ?thesis by (simp add: run_local_task_def)
  next
    case (Cons task rest)
    obtain s1 b where l: "local_step eng cfg env task (s\<lparr>enqueueTail := rest\<rparr>) = (s1, b)" by fastforce
    show ?thesis
      using local_step_fields[OF l]
      by (simp add: run_local_task_def Cons l after_local_def split: local_task.splits after_recovery.splits)
  qed
  then show "lastCursor (run_local_task eng cfg env s) = lastCursor s"
    "inboundTail (run_local_task eng cfg env s) = inboundTail s" by simp_all
qed

lemma resync_le:
  assumes "performSnapshotResync sub (session_port eng cfg env) d e s = (s', r)"
  shows "cursor_le (lastCursor s) (lastCursor s')"
proof -
  have imp: "rp_importSnapshot (session_port eng cfg env) b u = (u', x) \<Longrightarrow> lastCursor u' = lastCursor u" for b u u' x
    using session_port.import_keeps[of eng cfg env b u u' x] by (simp add: session_port_def)
  have app: "rp_applyRemote (session_port eng cfg env) b u = (u', y) \<Longrightarrow> lastCursor u' = lastCursor u" for b u u' y
    using session_port.apply_keeps[of eng cfg env b u u' y] by (simp add: session_port_def)
  have set: "rp_setCursor (session_port eng cfg env) c u = (u', x) \<Longrightarrow> cursor_le (lastCursor u) (lastCursor u')" for c u u' x
    using persist_le[of eng cfg env c u u' x] by (simp add: session_port_def)
  show ?thesis
  proof (cases r)
    case (Inl f)
    then have "rp_getCursor (session_port eng cfg env) s' = rp_getCursor (session_port eng cfg env) s"
      using session_port.failed_resync_keeps_cursor assms by blast
    then show ?thesis by (simp add: session_port_def)
  next
    case (Inr res)
    with assms have a: "performSnapshotResync sub (session_port eng cfg env) d e s = (s', Inr res)" by simp
    show ?thesis
    proof (rule resync_success[OF a])
      fix inner pending s1 s2
      assume "rp_importSnapshot (session_port eng cfg env) inner s = (s1, None)"
        "if pending = [] then s2 = s1 \<and> duplicateCount res = 0
         else rp_applyRemote (session_port eng cfg env) pending s1 = (s2, Inr (duplicateCount res))"
        "rp_setCursor (session_port eng cfg env) (show_nat (boundary res)) s2 = (s', None)"
      then show ?thesis using imp app set by (metis (no_types, lifting))
    qed
  qed
qed

lemma apply_batch_le:
  assumes "apply_batch eng cfg env ops c s = (s', r)"
  shows "cursor_le (lastCursor s) (lastCursor s')"
proof -
  obtain s1 e where a: "applyRemoteOps eng cfg env ops c s = (s1, e)" by fastforce
  have k: "lastCursor s1 = lastCursor s"
    using a by (auto simp: applyRemoteOps_def split: if_splits prod.splits sum.splits dest!: worker_call_all)
  show ?thesis
    using assms a k advance_le[of _ s1 s' r]
    by (auto simp: apply_batch_def split: option.splits)
qed

lemma onReady_cursor [simp]: "lastCursor (onReady cfg env s) = lastCursor s"
  by (auto simp: onReady_def compact_acked_def Let_def split: sum.splits option.splits prod.splits)

lemma run_inbound_le: "cursor_le (lastCursor s) (lastCursor (run_inbound eng cfg env s))"
proof (cases "inboundTail s")
  case (Cons x rest)
  show ?thesis
  proof (cases x)
    case (Batch ops c)
    obtain s1 r where a: "apply_batch eng cfg env ops c (s\<lparr>inboundTail := rest\<rparr>) = (s1, r)" by fastforce
    then have "cursor_le (lastCursor s) (lastCursor s1)" using apply_batch_le[OF a] by simp
    then show ?thesis using a by (auto simp: run_inbound_def Cons Batch Let_def split: option.splits)
  qed (simp add: run_inbound_def Cons)
qed (simp add: run_inbound_def)

lemma payload_le: "cursor_le (lastCursor s) (lastCursor (handleSnapshotPayload eng cfg env p s))"
proof -
  have r: "cursor_le (lastCursor s) (lastCursor s1)"
    if "performSnapshotResync sub (session_port eng cfg env) d e (s\<lparr>resyncSignal := None\<rparr>) = (s1, r)" for sub d e s1 r
    using resync_le[OF that] by simp
  show ?thesis
    unfolding handleSnapshotPayload_def Let_def
    by (auto split: option.splits prod.splits sum.splits resync_failure.splits dest: r)
qed

lemma on_effect_le: "cursor_le (lastCursor s) (lastCursor (on_effect eng cfg env x s))"
  by (cases x) (simp_all add: payload_le onAuthenticated_def onSyncBatch_def queueRemote_def)

lemma fold_effects_le: "cursor_le (lastCursor s) (lastCursor (foldl (\<lambda>u x. on_effect eng cfg env x u) s xs))"
proof (induction xs arbitrary: s)
  case (Cons x xs)
  then show ?case using cursor_le_trans[OF on_effect_le[of s eng cfg env x]] by simp
qed simp

lemma session_step_le:
  "ev \<noteq> Start \<Longrightarrow> cursor_le (lastCursor s) (lastCursor (session_step eng cfg env ev s))"
proof (cases ev)
  case (Net a)
  then show ?thesis
    using fold_effects_le[of "s\<lparr>se_transport := transport_step (sc_backoff cfg) a (se_transport s)\<rparr>"]
    by (simp add: transport_event_def Let_def)
qed (simp_all add: run_inbound_le stop_session_def)

section \<open>Reachable sessions\<close>

inductive session_reaches ::
  "('e, 'x) EnginePort_scheme \<Rightarrow> SessionConfig \<Rightarrow> (Env \<Rightarrow> event \<Rightarrow> 'e Session \<Rightarrow> bool)
    \<Rightarrow> 'e Session \<Rightarrow> 'e Session \<Rightarrow> bool" for eng cfg P where
  refl: "session_reaches eng cfg P s s"
| step: "session_reaches eng cfg P s u \<Longrightarrow> P env ev u \<Longrightarrow>
    session_reaches eng cfg P s (session_step eng cfg env ev u)"

lemma session_invariant:
  assumes "session_reaches eng cfg P s u" and "I s"
    and "\<And>env ev v. I v \<Longrightarrow> P env ev v \<Longrightarrow> I (session_step eng cfg env ev v)"
  shows "I u"
  using assms(1,2) by (induction rule: session_reaches.induct) (auto intro: assms(3))

section \<open>Unacknowledged work stays\<close>

definition new_effects :: "SessionConfig \<Rightarrow> transport_action \<Rightarrow> 'e Session \<Rightarrow> effect list" where
  "new_effects cfg a s =
     drop (length (effects (se_transport s))) (effects (transport_step (sc_backoff cfg) a (se_transport s)))"

lemma transport_event_fold:
  "transport_event eng cfg env a s = foldl (\<lambda>u x. on_effect eng cfg env x u)
    (s\<lparr>se_transport := transport_step (sc_backoff cfg) a (se_transport s)\<rparr>) (new_effects cfg a s)"
  by (simp add: transport_event_def new_effects_def Let_def)

fun acks :: "string \<Rightarrow> effect \<Rightarrow> bool" where
  "acks i (OnDurableAck b ids) = (i \<in> set ids)"
| "acks i _ = False"

fun no_ack :: "SessionConfig \<Rightarrow> string \<Rightarrow> event \<Rightarrow> 'e Session \<Rightarrow> bool" where
  "no_ack cfg i (Net a) s = list_all (\<lambda>x. \<not> acks i x) (new_effects cfg a s)"
| "no_ack cfg i _ s = True"

text \<open>The record of \<open>i\<close> is there, unacknowledged, with the bytes and the place of \<open>r\<close>.\<close>

definition has_unacked :: "string \<Rightarrow> string \<Rightarrow> PendingOpRecord \<Rightarrow> OutboxState \<Rightarrow> bool" where
  "has_unacked sid i r ob \<longleftrightarrow>
     (\<exists>r'. outbox_get (outbox_key sid i) (outbox ob) = Some r' \<and> same_op r r' \<and> po_state r' \<noteq> Durably_acked)"

lemma has_unacked_step:
  assumes "has_unacked sid i r ob" and "\<And>ids. a = MarkAcked ids \<Longrightarrow> i \<notin> set ids"
  shows "has_unacked sid i r (fst (outbox_step sid (ob, idb) a))"
  using assms(1) unacked_step[of sid i "(ob, idb)" _ a] assms(2)
  by (fastforce simp: has_unacked_def same_op_def)

lemma has_unacked_cong: "outbox ob' = outbox ob \<Longrightarrow> has_unacked sid i r ob' = has_unacked sid i r ob"
  by (simp add: has_unacked_def)

lemma add_all_unacked:
  "has_unacked (sc_storageId cfg) i r ob \<Longrightarrow> add_all cfg now f ops ob = (ob', b)
    \<Longrightarrow> has_unacked (sc_storageId cfg) i r ob'"
proof (induction cfg now f ops ob rule: add_all.induct)
  case (2 cfg now f op ops ob)
  show ?case
  proof (cases "identityFromOpBytes op")
    case None
    with 2 show ?thesis by simp
  next
    case (Some k)
    show ?thesis
    proof (cases "f = Some 0")
      case True
      have "outbox (snd (nextSequence now ob)) = outbox ob" by (simp add: nextSequence_def Let_def)
      with True Some 2 show ?thesis by (auto simp: has_unacked_def)
    next
      case False
      obtain ob1 q where a: "addPending (sc_storageId cfg) (formatOpIdentity (id_replica k) (id_counter k)) op now now ob
          = (ob1, q)" by fastforce
      have "has_unacked (sc_storageId cfg) i r ob1"
        using has_unacked_step[OF 2(3), of "Add (formatOpIdentity (id_replica k) (id_counter k)) op now now"] a
        by simp
      then show ?thesis using 2 Some False a by (cases q) auto
    qed
  qed
qed simp

text \<open>Whatever the outbox writes of a local task keep, the task keeps.\<close>

lemma enqueueLocal_outbox:
  assumes "enqueueLocal cfg env ops s = (s', b)"
  obtains "se_outbox s' = se_outbox s" | c where "add_all cfg (ev_now env) (ev_store_fails env) ops (se_outbox s) = (se_outbox s', c)"
proof (cases "disposed s \<or> ops = []")
  case False
  obtain ob c where a: "add_all cfg (ev_now env) (ev_store_fails env) ops (se_outbox s) = (ob, c)" by fastforce
  have "se_outbox s' = ob"
    using assms False a by (auto simp: enqueueLocal_def scheduleFlush_def Let_def split: if_splits)
  then show ?thesis using that(2) a by simp
qed (use assms that(1) in \<open>auto simp: enqueueLocal_def\<close>)

lemma recover_outbox:
  fixes s :: "'e Session"
  assumes "recoverOutbox eng cfg env s = (s', b)"
  obtains "se_outbox s' = se_outbox s"
    | ops and s1 s2 :: "'e Session" and c where "se_outbox s1 = se_outbox s" "enqueueLocal cfg env ops s1 = (s2, c)"
      "se_outbox s' = se_outbox s2"
proof -
  obtain s1 q where w: "worker_call eng cfg True (ev_now env)
      (LocalOpsSince (lastSeenCounter (sc_storageId cfg) (se_outbox s))) s = (s1, q)" by fastforce
  have o1: "se_outbox s1 = se_outbox s" by (rule worker_call_fields(1)[OF w])
  show ?thesis
  proof (cases "\<exists>ops n. q = Inr (RLocalOpsSince ops n)")
    case True
    then obtain ops n where q: "q = Inr (RLocalOpsSince ops n)" by blast
    obtain s2 c where e: "enqueueLocal cfg env ops s1 = (s2, c)" by fastforce
    have "se_outbox s' = se_outbox s2"
      using assms w q e by (cases c) (auto simp: recoverOutbox_def split: if_splits)
    then show ?thesis using that(2)[OF o1 e] by simp
  next
    case False
    then have "s' = s1" using assms w
      by (auto simp: recoverOutbox_def split: sum.splits WorkerResult.splits)
    then show ?thesis using that(1) o1 by simp
  qed
qed

lemma run_local_outbox:
  fixes s :: "'e Session"
  assumes "Q (se_outbox s)" and "\<And>now f ops ob ob' c. add_all cfg now f ops ob = (ob', c) \<Longrightarrow> Q ob \<Longrightarrow> Q ob'"
  shows "Q (se_outbox (run_local_task eng cfg env s))"
proof -
  have enq: "Q (se_outbox u')" if "enqueueLocal cfg env ops u = (u', c)" "Q (se_outbox u)"
    for ops and u u' :: "'e Session" and c
    by (rule enqueueLocal_outbox[OF that(1)]) (use that(2) assms(2) in auto)
  have rec: "Q (se_outbox u')" if "recoverOutbox eng cfg env u = (u', c)" "Q (se_outbox u)"
    for u u' :: "'e Session" and c
    by (rule recover_outbox[OF that(1)]) (use that(2) enq in auto)
  show ?thesis
  proof (cases "enqueueTail s")
    case Nil
    then show ?thesis using assms(1) by (simp add: run_local_task_def)
  next
    case (Cons task rest)
    let ?s = "s\<lparr>enqueueTail := rest\<rparr>"
    obtain s1 b where l: "local_step eng cfg env task ?s = (s1, b)" by fastforce
    have q: "Q (se_outbox ?s)" using assms(1) by simp
    have "Q (se_outbox s1)"
    proof (cases task)
      case (Enqueue ops)
      obtain u c where r: "recoverOutbox eng cfg env ?s = (u, c)" by fastforce
      show ?thesis
        using l enq[OF _ q] rec[OF r q] enq[of ops u]
        by (cases c) (auto simp: local_step_def Enqueue r split: if_splits)
    next
      case (Recover x)
      then show ?thesis using l rec[OF _ q] by (simp add: local_step_def)
    qed
    then show ?thesis
      by (simp add: run_local_task_def Cons l after_local_def split: local_task.splits after_recovery.splits)
  qed
qed

lemma run_local_unacked:
  assumes "has_unacked (sc_storageId cfg) i r (se_outbox s)"
  shows "has_unacked (sc_storageId cfg) i r (se_outbox (run_local_task eng cfg env s))"
  by (rule run_local_outbox[where Q = "has_unacked (sc_storageId cfg) i r", OF assms])
    (rule add_all_unacked)

lemma compact_unacked:
  assumes "has_unacked (sc_storageId cfg) i r (se_outbox s)" and "compact_acked cfg s = Some s'"
  shows "has_unacked (sc_storageId cfg) i r (se_outbox s')"
  using has_unacked_step[OF assms(1), of "Clear (ackedIds (sc_storageId cfg) (se_outbox s))" "wk_idb (se_worker s)"]
    assms(2)
  by (auto simp: compact_acked_def split: sum.splits)

lemma onReady_unacked:
  assumes "has_unacked (sc_storageId cfg) i r (se_outbox s)"
  shows "has_unacked (sc_storageId cfg) i r (se_outbox (onReady cfg env s))"
  using assms compact_unacked[of cfg i r "s\<lparr>catchupComplete := True\<rparr>"]
  by (auto simp: onReady_def Let_def split: option.splits)

lemma apply_batch_outbox: "apply_batch eng cfg env ops c s = (s', r) \<Longrightarrow> se_outbox s' = se_outbox s"
  by (auto simp: apply_batch_def applyRemoteOps_def split: prod.splits option.splits if_splits sum.splits
      dest!: worker_call_all advanceCursor_outbox)

lemma run_inbound_unacked:
  assumes "has_unacked (sc_storageId cfg) i r (se_outbox s)"
  shows "has_unacked (sc_storageId cfg) i r (se_outbox (run_inbound eng cfg env s))"
proof (cases "inboundTail s")
  case (Cons x rest)
  show ?thesis
  proof (cases x)
    case (Batch ops c)
    obtain s1 e where a: "apply_batch eng cfg env ops c (s\<lparr>inboundTail := rest\<rparr>) = (s1, e)" by fastforce
    show ?thesis
      using apply_batch_outbox[OF a] a assms
      by (auto simp: run_inbound_def Cons Batch Let_def split: option.splits)
  next
    case ReadyMark
    then show ?thesis using onReady_unacked[of cfg i r "s\<lparr>inboundTail := rest\<rparr>"] assms
      by (simp add: run_inbound_def Cons)
  qed
qed (use assms in \<open>simp add: run_inbound_def\<close>)

lemma persist_outbox: "persistCursor eng cfg env c s = (s', r) \<Longrightarrow> se_outbox s' = se_outbox s"
  by (auto simp: persistCursor_def split: prod.splits sum.splits dest!: worker_call_all advanceCursor_outbox)

lemma port_outbox:
  "rp_importSnapshot (session_port eng cfg env) b s = (s', x) \<Longrightarrow> se_outbox s' = se_outbox s"
  "rp_applyRemote (session_port eng cfg env) ops s = (s', y) \<Longrightarrow> se_outbox s' = se_outbox s"
  "rp_setCursor (session_port eng cfg env) c s = (s', x) \<Longrightarrow> se_outbox s' = se_outbox s"
  by (auto simp: session_port_def split: prod.splits sum.splits WorkerResult.splits
      dest!: worker_call_all persist_outbox)

lemma resync_outbox:
  "performSnapshotResync sub (session_port eng cfg env) d e s = (s', r) \<Longrightarrow> se_outbox s' = se_outbox s"
  by (auto simp: performSnapshotResync_def replace_base_def restore_cursor_def Let_def
      split: sum.splits prod.splits option.splits if_splits dest!: port_outbox)

lemma payload_outbox: "se_outbox (handleSnapshotPayload eng cfg env p s) = se_outbox s"
  by (auto simp: handleSnapshotPayload_def Let_def split: option.splits prod.splits sum.splits
      resync_failure.splits dest!: resync_outbox)

lemma ack_unacked:
  assumes "has_unacked (sc_storageId cfg) i r (se_outbox s)" and "i \<notin> set ids"
  shows "has_unacked (sc_storageId cfg) i r (se_outbox (handleDurableAck cfg env ids s))"
  using has_unacked_step[OF assms(1), of "MarkAcked ids"] assms
  by (auto simp: handleDurableAck_def Let_def)

lemma on_effect_unacked:
  assumes "has_unacked (sc_storageId cfg) i r (se_outbox s)" and "\<not> acks i x"
  shows "has_unacked (sc_storageId cfg) i r (se_outbox (on_effect eng cfg env x s))"
  using assms
  by (cases x) (simp_all add: ack_unacked payload_outbox onAuthenticated_def onSyncBatch_def queueRemote_def)

lemma fold_unacked:
  assumes "has_unacked (sc_storageId cfg) i r (se_outbox s)" and "list_all (\<lambda>x. \<not> acks i x) xs"
  shows "has_unacked (sc_storageId cfg) i r (se_outbox (foldl (\<lambda>u x. on_effect eng cfg env x u) s xs))"
  using assms by (induction xs arbitrary: s) (auto simp: on_effect_unacked)

lemma session_step_unacked:
  assumes "has_unacked (sc_storageId cfg) i r (se_outbox s)" and "no_ack cfg i ev s"
  shows "has_unacked (sc_storageId cfg) i r (se_outbox (session_step eng cfg env ev s))"
proof (cases ev)
  case Start
  then show ?thesis
    using assms by (auto simp: start_session_def split: prod.splits sum.splits WorkerResult.splits dest!: worker_call_all)
next
  case (Net a)
  then show ?thesis using assms by (simp add: transport_event_fold fold_unacked)
next
  case CommitSent
  then show ?thesis
    using assms has_unacked_step[OF assms(1), of "MarkSent (hd (marking s))"]
    by (auto simp: commit_sent_def Let_def split: list.splits)
qed (use assms in \<open>simp_all add: run_local_unacked run_inbound_unacked stop_session_def\<close>)

section \<open>What the page is told of the outbox\<close>

text \<open>
  The page sees the counts of the last report and the confirmation. A statement about these two and the outbox holds
  throughout a session when a report establishes it, and it survives a lost confirmation and the removal of covered
  records.
\<close>

definition last_outbox :: "report list \<Rightarrow> StateCounts option" where
  "last_outbox rs = foldl (\<lambda>acc r. case r of ReportOutbox counts confirmed \<Rightarrow> Some counts | _ \<Rightarrow> acc) None rs"

lemma last_outbox_simps [simp]:
  "last_outbox [] = None" "last_outbox (rs @ [ReportOutbox counts confirmed]) = Some counts"
  "last_outbox (rs @ [ReportLocalError]) = last_outbox rs" "last_outbox (rs @ [ReportBriefing b]) = last_outbox rs"
  "last_outbox (rs @ [ReportCursor c]) = last_outbox rs"
  by (simp_all add: last_outbox_def)

definition page :: "'e Session \<Rightarrow> bool \<times> StateCounts option" where
  "page s = (serverConfirmed s, last_outbox (reports s))"

definition view_holds ::
  "(SessionConfig \<Rightarrow> bool \<times> StateCounts option \<Rightarrow> OutboxState \<Rightarrow> bool) \<Rightarrow> SessionConfig \<Rightarrow> 'e Session \<Rightarrow> bool" where
  "view_holds ok cfg s \<longleftrightarrow> ok cfg (page s) (se_outbox s)"

lemma page_simps [simp]:
  "page (report_to ReportLocalError s) = page s" "page (report_to (ReportBriefing br) s) = page s"
  "page (report_to (ReportCursor cu) s) = page s" "page (on_transport f s) = page s"
  "page (s\<lparr>enqueueTail := q\<rparr>) = page s" "page (s\<lparr>enqueueFailed := b\<rparr>) = page s" "page (s\<lparr>inboundTail := i\<rparr>) = page s"
  "page (s\<lparr>flushTimer := b\<rparr>) = page s" "page (s\<lparr>catchupComplete := b\<rparr>) = page s" "page (s\<lparr>catchupFailed := b\<rparr>) = page s"
  "page (s\<lparr>marking := m\<rparr>) = page s" "page (s\<lparr>se_transport := t\<rparr>) = page s" "page (s\<lparr>snapshotResyncApplied := b\<rparr>) = page s"
  "page (s\<lparr>resyncSignal := g\<rparr>) = page s" "page (s\<lparr>catchupCounts := k\<rparr>) = page s" "page (s\<lparr>lastCursor := l\<rparr>) = page s"
  "page (s\<lparr>catchupStartCursor := l\<rparr>) = page s" "page (s\<lparr>suppressCatchupBriefing := b\<rparr>) = page s"
  "page (s\<lparr>nextBatchId := n\<rparr>) = page s" "page (s\<lparr>disposed := b\<rparr>) = page s" "page (s\<lparr>se_worker := w\<rparr>) = page s"
  "page (s\<lparr>se_outbox := ob\<rparr>) = page s"
  by (simp_all add: page_def report_to_def on_transport_def)

lemma page_calls [simp]:
  "page (session_reconnect cfg env s) = page s" "page (fail_and_reconnect cfg env s) = page s"
  "page (requestCatchup s) = page s" "page (syncNow b s) = page s" "page (flushOutbox cfg s) = page s"
  "page (beginSnapshotResync g s) = page s" "page (onSessionError cfg env c s) = page s"
  by (simp_all add: session_reconnect_def fail_and_reconnect_def requestCatchup_def syncNow_def flushOutbox_def
      beginSnapshotResync_def onSessionError_def Let_def split: prod.split option.split bool.split)

lemma page_worker: "worker_call eng c b n req s = (s', r) \<Longrightarrow> page s' = page s"
  by (auto simp: worker_call_def split: prod.splits)

lemma page_join [simp]: "page (joinWithSummary eng cfg s) = page s"
  by (auto simp: joinWithSummary_def dest!: page_worker split: prod.split sum.split WorkerResult.split)

lemma view_cong: "page s' = page s \<Longrightarrow> se_outbox s' = se_outbox s \<Longrightarrow> view_holds ok cfg s \<Longrightarrow> view_holds ok cfg s'"
  by (simp add: view_holds_def)

lemma view_simps [simp]:
  "view_holds ok cfg (report_to ReportLocalError s) = view_holds ok cfg s"
  "view_holds ok cfg (report_to (ReportBriefing br) s) = view_holds ok cfg s"
  "view_holds ok cfg (report_to (ReportCursor cu) s) = view_holds ok cfg s"
  "view_holds ok cfg (on_transport f s) = view_holds ok cfg s"
  "view_holds ok cfg (fail_and_reconnect cfg' env s) = view_holds ok cfg s"
  "view_holds ok cfg (session_reconnect cfg' env s) = view_holds ok cfg s"
  "view_holds ok cfg (requestCatchup s) = view_holds ok cfg s" "view_holds ok cfg (syncNow b s) = view_holds ok cfg s"
  "view_holds ok cfg (flushOutbox cfg' s) = view_holds ok cfg s"
  "view_holds ok cfg (beginSnapshotResync g s) = view_holds ok cfg s"
  "view_holds ok cfg (onSessionError cfg' env c s) = view_holds ok cfg s"
  "view_holds ok cfg (joinWithSummary eng cfg' s) = view_holds ok cfg s"
  "view_holds ok cfg (s\<lparr>enqueueTail := q\<rparr>) = view_holds ok cfg s"
  "view_holds ok cfg (s\<lparr>enqueueFailed := b\<rparr>) = view_holds ok cfg s"
  "view_holds ok cfg (s\<lparr>inboundTail := i\<rparr>) = view_holds ok cfg s"
  "view_holds ok cfg (s\<lparr>flushTimer := b\<rparr>) = view_holds ok cfg s"
  "view_holds ok cfg (s\<lparr>catchupComplete := b\<rparr>) = view_holds ok cfg s"
  "view_holds ok cfg (s\<lparr>catchupFailed := b\<rparr>) = view_holds ok cfg s"
  "view_holds ok cfg (s\<lparr>marking := m\<rparr>) = view_holds ok cfg s"
  "view_holds ok cfg (s\<lparr>se_transport := t\<rparr>) = view_holds ok cfg s"
  "view_holds ok cfg (s\<lparr>snapshotResyncApplied := b\<rparr>) = view_holds ok cfg s"
  "view_holds ok cfg (s\<lparr>resyncSignal := g'\<rparr>) = view_holds ok cfg s"
  "view_holds ok cfg (s\<lparr>catchupCounts := k\<rparr>) = view_holds ok cfg s"
  by (simp_all add: view_holds_def)

locale page_view =
  fixes ok :: "SessionConfig \<Rightarrow> bool \<times> StateCounts option \<Rightarrow> OutboxState \<Rightarrow> bool"
  assumes ok_report: "ok cfg (b \<and> sc_pending (stateCounts (sc_storageId cfg) ob) = 0
      \<and> sc_sent (stateCounts (sc_storageId cfg) ob) = 0 \<and> sc_durably_acked (stateCounts (sc_storageId cfg) ob) = 0,
      Some (stateCounts (sc_storageId cfg) ob)) ob"
    and ok_unconfirmed: "ok cfg (c, r) ob \<Longrightarrow> ok cfg (False, r) ob"
    and ok_cleared: "ok cfg pg ob \<Longrightarrow> clearAcked (sc_storageId cfg) (ackedIds (sc_storageId cfg) ob) ob idb = Inr (n, ob', idb')
      \<Longrightarrow> ok cfg pg ob'"
begin

lemma report_view [simp]: "view_holds ok cfg (reportOutboxState cfg b s)"
  using ok_report by (simp add: view_holds_def page_def reportOutboxState_def report_to_def Let_def)

lemma unconfirmed_view: "view_holds ok cfg s \<Longrightarrow> page s' = (False, snd (page s)) \<Longrightarrow> se_outbox s' = se_outbox s
    \<Longrightarrow> view_holds ok cfg s'"
  using ok_unconfirmed by (cases "page s") (simp add: view_holds_def)

lemma enqueueLocal_view:
  assumes "view_holds ok cfg s" and "enqueueLocal cfg env ops s = (s', b)"
  shows "view_holds ok cfg s'"
  using assms by (auto simp: enqueueLocal_def scheduleFlush_def Let_def split: if_splits prod.splits)

lemma worker_call_view:
  "view_holds ok cfg s \<Longrightarrow> worker_call eng c b n req s = (s', r) \<Longrightarrow> view_holds ok cfg s'"
  using worker_call_all[of eng c b n req s s' r] page_worker[of eng c b n req s s' r] by (simp add: view_holds_def)

lemma recover_view:
  assumes "view_holds ok cfg s" and "recoverOutbox eng cfg env s = (s', b)"
  shows "view_holds ok cfg s'"
proof -
  obtain s1 q where w: "worker_call eng cfg True (ev_now env)
      (LocalOpsSince (lastSeenCounter (sc_storageId cfg) (se_outbox s))) s = (s1, q)" by fastforce
  have c1: "view_holds ok cfg s1" by (rule worker_call_view[OF assms(1) w])
  show ?thesis
  proof (cases "\<exists>ops n. q = Inr (RLocalOpsSince ops n)")
    case True
    then obtain ops n where q: "q = Inr (RLocalOpsSince ops n)" by blast
    obtain s2 c where e: "enqueueLocal cfg env ops s1 = (s2, c)" by fastforce
    have "view_holds ok cfg s2" by (rule enqueueLocal_view[OF c1 e])
    then show ?thesis
      using assms(2) w q e by (cases c) (auto simp: recoverOutbox_def split: if_splits)
  next
    case False
    then have "s' = s1" using assms(2) w
      by (auto simp: recoverOutbox_def split: sum.splits WorkerResult.splits)
    then show ?thesis using c1 by simp
  qed
qed

lemma run_local_view:
  assumes "view_holds ok cfg s"
  shows "view_holds ok cfg (run_local_task eng cfg env s)"
proof (cases "enqueueTail s")
  case Nil
  then show ?thesis using assms by (simp add: run_local_task_def)
next
  case (Cons task rest)
  let ?s = "s\<lparr>enqueueTail := rest\<rparr>"
  obtain s1 b where l: "local_step eng cfg env task ?s = (s1, b)" by fastforce
  have q: "view_holds ok cfg ?s" using assms by simp
  have "view_holds ok cfg s1"
  proof (cases task)
    case (Enqueue ops)
    obtain u c where r: "recoverOutbox eng cfg env ?s = (u, c)" by fastforce
    show ?thesis
      using l enqueueLocal_view[OF q] recover_view[OF q r] enqueueLocal_view[of cfg u env ops]
      by (cases c) (auto simp: local_step_def Enqueue r split: if_splits)
  next
    case (Recover x)
    then show ?thesis using l recover_view[OF q] by (simp add: local_step_def)
  qed
  then show ?thesis
    by (simp add: run_local_task_def Cons l after_local_def split: local_task.splits after_recovery.splits)
qed

lemma finish_view [simp]: "view_holds ok cfg (finish_catchup cfg s)"
  by (simp add: finish_catchup_def Let_def)

lemma compact_view:
  assumes "view_holds ok cfg s" and "compact_acked cfg s = Some s'"
  shows "view_holds ok cfg s'"
proof -
  obtain n ob idb where c: "clearAcked (sc_storageId cfg) (ackedIds (sc_storageId cfg) (se_outbox s)) (se_outbox s)
      (wk_idb (se_worker s)) = Inr (n, ob, idb)"
    and s': "s' = s\<lparr>se_outbox := ob, se_worker := (se_worker s)\<lparr>wk_idb := idb\<rparr>\<rparr>"
    using assms(2) by (auto simp: compact_acked_def split: sum.splits)
  have "ok cfg (page s) ob" using ok_cleared[OF _ c] assms(1) by (simp only: view_holds_def)
  then show ?thesis by (simp add: view_holds_def s')
qed

lemma onReady_view: "view_holds ok cfg s \<Longrightarrow> view_holds ok cfg (onReady cfg env s)"
  by (auto simp: onReady_def Let_def split: option.splits dest: compact_view[rotated])

lemma advance_view: "advanceCursor c s = (s', r) \<Longrightarrow> page s' = page s"
  by (auto simp: advanceCursor_def split: option.splits if_splits)

lemma apply_batch_view:
  assumes "apply_batch eng cfg env ops c s = (s', r)"
  shows "page s' = page s"
  using assms
  by (auto simp: apply_batch_def applyRemoteOps_def split: prod.splits option.splits if_splits sum.splits
      dest!: page_worker advance_view)

lemma run_inbound_view:
  assumes "view_holds ok cfg s"
  shows "view_holds ok cfg (run_inbound eng cfg env s)"
proof (cases "inboundTail s")
  case (Cons x rest)
  show ?thesis
  proof (cases x)
    case (Batch ops c)
    obtain s1 e where a: "apply_batch eng cfg env ops c (s\<lparr>inboundTail := rest\<rparr>) = (s1, e)" by fastforce
    have "view_holds ok cfg s1"
      using apply_batch_outbox[OF a] apply_batch_view[OF a] assms by (simp add: view_holds_def)
    then show ?thesis using a assms by (auto simp: run_inbound_def Cons Batch Let_def split: option.splits)
  next
    case ReadyMark
    then show ?thesis using onReady_view[of cfg "s\<lparr>inboundTail := rest\<rparr>" env] assms
      by (simp add: run_inbound_def Cons)
  qed
qed (use assms in \<open>simp add: run_inbound_def\<close>)

lemma port_view:
  "rp_importSnapshot (session_port eng cfg env) b s = (s', x) \<Longrightarrow> page s' = page s"
  "rp_applyRemote (session_port eng cfg env) ops s = (s', y) \<Longrightarrow> page s' = page s"
  "rp_setCursor (session_port eng cfg env) c s = (s', x) \<Longrightarrow> page s' = page s"
  by (auto simp: session_port_def persistCursor_def split: prod.splits sum.splits WorkerResult.splits
      dest!: page_worker advance_view)

lemma resync_view:
  "performSnapshotResync sub (session_port eng cfg env) d e s = (s', r) \<Longrightarrow> page s' = page s"
  by (auto simp: performSnapshotResync_def replace_base_def restore_cursor_def Let_def
      split: sum.splits prod.splits option.splits if_splits dest!: port_view)

lemma payload_view: "page (handleSnapshotPayload eng cfg env p s) = page s"
  by (auto simp: handleSnapshotPayload_def Let_def split: option.splits prod.splits sum.splits
      resync_failure.splits dest!: resync_view)

lemma on_effect_view:
  assumes "view_holds ok cfg s"
  shows "view_holds ok cfg (on_effect eng cfg env x s)"
proof (cases x)
  case (OnDurableAck b ids)
  then show ?thesis using assms by (simp add: handleDurableAck_def Let_def)
next
  case (OnSnapshotPayload p)
  then show ?thesis using assms by (simp add: view_holds_def payload_view payload_outbox)
next
  case OnAuthenticated
  have "view_holds ok cfg (onAuthenticated s)"
    by (rule unconfirmed_view[OF assms]) (simp_all add: page_def onAuthenticated_def)
  then show ?thesis using OnAuthenticated by simp
qed (use assms in \<open>simp_all add: onSyncBatch_def queueRemote_def\<close>)

lemma fold_view:
  "view_holds ok cfg s \<Longrightarrow> view_holds ok cfg (foldl (\<lambda>u x. on_effect eng cfg env x u) s xs)"
  by (induction xs arbitrary: s) (auto simp: on_effect_view)

lemma session_step_view:
  assumes "view_holds ok cfg s"
  shows "view_holds ok cfg (session_step eng cfg env ev s)"
proof (cases ev)
  case Start
  obtain s1 q where w: "worker_call eng cfg True 0 GetSyncCursor (s\<lparr>serverConfirmed := False\<rparr>) = (s1, q)" by fastforce
  have "view_holds ok cfg s1"
    using worker_call_fields(1)[OF w] page_worker[OF w] by (intro unconfirmed_view[OF assms]) (simp_all add: page_def)
  then show ?thesis
    using Start w by (auto simp: start_session_def intro: view_cong split: sum.splits WorkerResult.splits)
next
  case Stop
  then show ?thesis using assms by (simp add: stop_session_def view_holds_def)
next
  case CommitSent
  then show ?thesis using assms by (simp add: commit_sent_def Let_def split: list.splits)
next
  case (Net a)
  then show ?thesis using assms by (simp add: transport_event_fold fold_view)
qed (use assms in \<open>simp_all add: run_local_view run_inbound_view\<close>)

end

section \<open>The confirmation is sound\<close>

definition nothing_stored :: "SessionConfig \<Rightarrow> OutboxState \<Rightarrow> bool" where
  "nothing_stored cfg ob \<longleftrightarrow> (\<forall>st. index_range (sc_storageId cfg) st ob = [])"

lemma nothing_stored_counts:
  "nothing_stored cfg ob \<longleftrightarrow> (let c = stateCounts (sc_storageId cfg) ob
     in sc_pending c = 0 \<and> sc_sent c = 0 \<and> sc_durably_acked c = 0)"
proof -
  have "(\<forall>st. P st) \<longleftrightarrow> P Pending \<and> P Sent \<and> P Durably_acked" for P
    by (metis OpSendState.exhaust)
  then show ?thesis by (simp add: nothing_stored_def stateCounts_def Let_def)
qed

definition confirmed_ok :: "SessionConfig \<Rightarrow> bool \<times> StateCounts option \<Rightarrow> OutboxState \<Rightarrow> bool" where
  "confirmed_ok cfg pg ob \<longleftrightarrow> (fst pg \<longrightarrow> nothing_stored cfg ob)"

lemma nothing_cleared:
  assumes "nothing_stored cfg ob" and "clearAcked (sc_storageId cfg) (ackedIds (sc_storageId cfg) ob) ob idb = Inr (n, ob', idb')"
  shows "ob' = ob"
proof -
  have "ackedIds (sc_storageId cfg) ob = []" using assms(1) by (simp add: ackedIds_def nothing_stored_def)
  then show ?thesis using assms(2) by (simp add: clearAcked_def)
qed

interpretation confirmed: page_view confirmed_ok
proof
  show "confirmed_ok cfg (b \<and> sc_pending (stateCounts (sc_storageId cfg) ob) = 0
      \<and> sc_sent (stateCounts (sc_storageId cfg) ob) = 0 \<and> sc_durably_acked (stateCounts (sc_storageId cfg) ob) = 0,
      Some (stateCounts (sc_storageId cfg) ob)) ob" for cfg b ob
    by (simp add: confirmed_ok_def nothing_stored_counts Let_def)
  show "confirmed_ok cfg pg ob'"
    if "confirmed_ok cfg pg ob" "clearAcked (sc_storageId cfg) (ackedIds (sc_storageId cfg) ob) ob idb = Inr (n, ob', idb')"
    for cfg pg ob ob' idb n idb'
    using that(1) nothing_cleared[OF _ that(2)] by (auto simp: confirmed_ok_def)
qed (simp add: confirmed_ok_def)

text \<open>No record waits for an acknowledgement when the counts the page was last told say so.\<close>

definition counts_ok :: "SessionConfig \<Rightarrow> bool \<times> StateCounts option \<Rightarrow> OutboxState \<Rightarrow> bool" where
  "counts_ok cfg pg ob \<longleftrightarrow>
     (case snd pg of
        None \<Rightarrow> True
      | Some counts \<Rightarrow>
          sc_pending counts = 0 \<and> sc_sent counts = 0 \<longrightarrow>
            index_range (sc_storageId cfg) Pending ob = [] \<and> index_range (sc_storageId cfg) Sent ob = [])"

lemma cleared_subset: "clear_loop sid cov ids box = (box', removed) \<Longrightarrow> set box' \<subseteq> set box"
proof (induction ids arbitrary: box box' removed)
  case (Cons i ids)
  obtain b1 r1 where "clear_loop sid cov ids (filter (\<lambda>x. po_id x \<noteq> outbox_key sid i) box) = (b1, r1)" by fastforce
  moreover from Cons.IH[OF this] have "set b1 \<subseteq> set box" by auto
  ultimately show ?case using Cons by (auto split: if_splits option.splits)
qed simp

lemma cleared_range:
  assumes "clearAcked sid ids ob idb = Inr (n, ob', idb')" and "index_range sid st ob = []"
  shows "index_range sid st ob' = []"
proof -
  have "ob' = ob \<or> (\<exists>cov removed. clear_loop sid cov ids (outbox ob) = (outbox ob', removed))"
    using assms(1) by (auto simp: clearAcked_def bindE_Inr_iff split: if_splits prod.splits)
  then have "set (outbox ob') \<subseteq> set (outbox ob)" using cleared_subset by blast
  then show ?thesis using assms(2) by (auto simp: index_range_def filter_empty_conv)
qed

interpretation counts: page_view counts_ok
proof
  show "counts_ok cfg pg ob'"
    if "counts_ok cfg pg ob" "clearAcked (sc_storageId cfg) (ackedIds (sc_storageId cfg) ob) ob idb = Inr (n, ob', idb')"
    for cfg pg ob ob' idb n idb'
    using that(1) cleared_range[OF that(2)] by (simp add: counts_ok_def split: option.splits)
qed (auto simp: counts_ok_def stateCounts_def split: option.splits)

section \<open>Snapshots nobody asked for\<close>

lemma handleSnapshotPayload_refused:
  assumes "resyncSignal s = None \<or> (\<exists>g. resyncSignal s = Some g \<and> \<not> payload_matches g payload)
    \<or> (\<exists>e. validateServerSnapshot (sc_digest cfg) (sc_documentId cfg) (payload_envelope payload) = Inl e)"
  shows "se_worker (handleSnapshotPayload eng cfg env payload s) = se_worker s"
    and "se_outbox (handleSnapshotPayload eng cfg env payload s) = se_outbox s"
    and "lastCursor (handleSnapshotPayload eng cfg env payload s) = lastCursor s"
proof -
  let ?s = "s\<lparr>resyncSignal := None\<rparr>"
  have rej: "performSnapshotResync (sc_digest cfg) (session_port eng cfg env) (sc_documentId cfg)
      (payload_envelope payload) ?s = (?s, Inl (Rejected e))"
    if "validateServerSnapshot (sc_digest cfg) (sc_documentId cfg) (payload_envelope payload) = Inl e" for e
    using that by (simp add: performSnapshotResync_def Let_def)
  show "se_worker (handleSnapshotPayload eng cfg env payload s) = se_worker s"
    "se_outbox (handleSnapshotPayload eng cfg env payload s) = se_outbox s"
    "lastCursor (handleSnapshotPayload eng cfg env payload s) = lastCursor s"
    using assms rej by (auto simp: handleSnapshotPayload_def Let_def split: option.splits)
qed

section \<open>Properties\<close>

text \<open>
  C13: the cursor never moves back. Through any steps after the start, successful, failed or
  repeated catch-up pages and resyncs included, the cursor from which the next catch-up is
  requested stays or grows.
\<close>

theorem cursor_never_back:
  assumes "session_reaches eng cfg (\<lambda>env ev s. ev \<noteq> Start) s u"
  shows "lastCursor u = lastCursor s
    \<or> (\<exists>m n. js_BigInt (lastCursor s) = Some m \<and> js_BigInt (lastCursor u) = Some n \<and> m \<le> n)"
proof -
  have "cursor_le (lastCursor s) (lastCursor u)"
    by (rule session_invariant[OF assms, where I = "\<lambda>v. cursor_le (lastCursor s) (lastCursor v)"])
      (auto intro: cursor_le_trans session_step_le)
  then show ?thesis by (auto simp: cursor_le_def split: option.splits)
qed

definition sample_env :: Env where
  "sample_env = \<lparr>ev_now = 5, ev_random = 0, ev_import = True, ev_commits = True, ev_persist = True,
     ev_socket = True, ev_store_fails = None\<rparr>"

definition sample_session_cfg :: SessionConfig where
  "sample_session_cfg = \<lparr>sc_documentId = ''d'', sc_storageId = ''d'', sc_worker = sample_cfg,
     sc_backoff = DEFAULT_BACKOFF, sc_collate = (\<lambda>a b. True), sc_digest = None\<rparr>"

definition sample_session :: "bytes Session" where
  "sample_session = new_session (fresh_worker empty_idb) \<lparr>outbox = [sample_record], outbox_meta = Map.empty,
     lastIssuedSequence = 1\<rparr> ''0''"

theorem cursor_never_back_witness:
  "lastCursor (session_step pack_engine sample_session_cfg sample_env (SyncNow True) sample_session) = ''0''
   \<or> (\<exists>m n. js_BigInt ''0'' = Some m
     \<and> js_BigInt (lastCursor (session_step pack_engine sample_session_cfg sample_env (SyncNow True) sample_session)) = Some n
     \<and> m \<le> n)"
proof -
  have "session_reaches pack_engine sample_session_cfg (\<lambda>env ev s. ev \<noteq> Start) sample_session
    (session_step pack_engine sample_session_cfg sample_env (SyncNow True) sample_session)"
    by (rule session_reaches.step[OF session_reaches.refl]) simp
  moreover have "lastCursor sample_session = ''0''" by (simp add: sample_session_def new_session_def)
  ultimately show ?thesis using cursor_never_back by metis
qed

text \<open>
  C4: a session never drops unacknowledged work. A recorded operation stays in the resend set with
  its bytes and its place through any steps (flushes, reconnects, failures, compaction, resyncs,
  restarts) in which the server does not acknowledge it.
\<close>

theorem session_keeps_unacked:
  assumes "outbox_get (outbox_key (sc_storageId cfg) i) (outbox (se_outbox s)) = Some r"
    and "po_state r \<noteq> Durably_acked"
    and "session_reaches eng cfg (\<lambda>env ev v. no_ack cfg i ev v) s u"
  shows "\<exists>r' \<in> set (unackedOps collate (sc_storageId cfg) (se_outbox u)).
    po_id r' = po_id r \<and> po_op r' = po_op r \<and> po_seq r' = po_seq r"
proof -
  have "has_unacked (sc_storageId cfg) i r (se_outbox s)"
    using assms(1,2) by (auto simp: has_unacked_def same_op_def)
  then have "has_unacked (sc_storageId cfg) i r (se_outbox u)"
    by (intro session_invariant[OF assms(3), where I = "\<lambda>v. has_unacked (sc_storageId cfg) i r (se_outbox v)"])
      (auto intro: session_step_unacked)
  then obtain r' where r': "outbox_get (outbox_key (sc_storageId cfg) i) (outbox (se_outbox u)) = Some r'"
    "same_op r r'" "po_state r' \<noteq> Durably_acked" by (auto simp: has_unacked_def)
  then have "r' \<in> set (unackedOps collate (sc_storageId cfg) (se_outbox u))"
    using outbox_get_Some[OF r'(1)] has_prefix_key by (auto simp: mem_unacked)
  then show ?thesis using r'(2) by (auto simp: same_op_def)
qed

theorem session_keeps_unacked_witness:
  "\<exists>r' \<in> set (unackedOps (\<lambda>a b. True) ''d''
      (se_outbox (session_step pack_engine sample_session_cfg sample_env RunInbound sample_session))).
    po_id r' = po_id sample_record \<and> po_op r' = po_op sample_record \<and> po_seq r' = po_seq sample_record"
proof -
  have "session_reaches pack_engine sample_session_cfg (\<lambda>env ev v. no_ack sample_session_cfg ''3:4'' ev v) sample_session
    (session_step pack_engine sample_session_cfg sample_env RunInbound sample_session)"
    by (rule session_reaches.step[OF session_reaches.refl]) simp
  moreover have "outbox_get (outbox_key ''d'' ''3:4'') (outbox (se_outbox sample_session)) = Some sample_record"
    "po_state sample_record \<noteq> Durably_acked"
    by (simp_all add: sample_session_def new_session_def sample_record_def outbox_get_def outbox_key_def)
  ultimately show ?thesis
    using session_keeps_unacked[of sample_session_cfg "''3:4''" sample_session sample_record]
    by (simp add: sample_session_cfg_def)
qed

text \<open>
  C31: "saved to the server" is never shown for unsaved work. In every state a session can reach,
  the confirmation is only set when the outbox holds no record of the document at all, neither
  pending nor sent nor acknowledged but uncovered.
\<close>

theorem confirmation_sound:
  assumes "session_reaches eng cfg (\<lambda>env ev v. True) (new_session w ob c) u" and "serverConfirmed u"
  shows "index_range (sc_storageId cfg) st (se_outbox u) = []"
proof -
  have "view_holds confirmed_ok cfg u"
    by (rule session_invariant[OF assms(1), where I = "view_holds confirmed_ok cfg"])
      (simp_all add: confirmed.session_step_view, simp add: view_holds_def page_def confirmed_ok_def new_session_def)
  then show ?thesis using assms(2) by (simp add: view_holds_def page_def confirmed_ok_def nothing_stored_def)
qed

theorem confirmation_sound_witness:
  "index_range ''d'' Sent (se_outbox (session_step pack_engine sample_session_cfg sample_env RunInbound
    (session_step pack_engine sample_session_cfg sample_env (Net (SocketMessage (Text
      (encodeControlFrame \<lparr>cf_id = None, cf_type = ''sync_done'', cf_payload = JObj []\<rparr>))))
      (new_session (fresh_worker empty_idb) empty_outbox ''0'')))) = []"
proof -
  let ?m = "encodeControlFrame \<lparr>cf_id = None, cf_type = ''sync_done'', cf_payload = JObj []\<rparr>"
  let ?s0 = "new_session (fresh_worker empty_idb) empty_outbox ''0'' :: bytes Session"
  let ?s1 = "session_step pack_engine sample_session_cfg sample_env (Net (SocketMessage (Text ?m))) ?s0"
  let ?s2 = "session_step pack_engine sample_session_cfg sample_env RunInbound ?s1"
  have d: "decodeControlFrame ?m = Inr \<lparr>cf_id = None, cf_type = ''sync_done'', cf_payload = JObj []\<rparr>"
    by (rule decode_encode_control)
      (simp_all add: frame_ok_def CONTROL_FRAME_TYPES_def payload_shape token_too_long_def)
  have "session_reaches pack_engine sample_session_cfg (\<lambda>env ev v. True) ?s0 ?s1"
    by (rule session_reaches.step[OF session_reaches.refl]) simp
  then have r: "session_reaches pack_engine sample_session_cfg (\<lambda>env ev v. True) ?s0 ?s2"
    by (rule session_reaches.step) simp
  have "serverConfirmed ?s2"
    by (simp add: transport_event_def d handleControlFrame_def setStatus_def emit_def new_session_def
        new_transport_def run_inbound_def onReady_def compact_acked_def clearAcked_def ackedIds_def
        index_range_def empty_outbox_def finish_catchup_def reportOutboxState_def stateCounts_def
        report_to_def flushOutbox_def unackedOps_def sort_by_def Let_def createCatchupBriefing_def
        split: option.splits)
  from confirmation_sound[OF r this, of Sent] show ?thesis by (simp add: sample_session_cfg_def)
qed

text \<open>
  A snapshot that was not asked for, that is not the announced one or that does not validate
  never touches the replica: engine, database, outbox and cursor are as before.
\<close>

theorem stray_snapshot_ignored:
  assumes "resyncSignal s = None \<or> (\<exists>g. resyncSignal s = Some g \<and> \<not> payload_matches g payload)
    \<or> (\<exists>e. validateServerSnapshot (sc_digest cfg) (sc_documentId cfg) (payload_envelope payload) = Inl e)"
  shows "se_worker (handleSnapshotPayload eng cfg env payload s) = se_worker s
    \<and> se_outbox (handleSnapshotPayload eng cfg env payload s) = se_outbox s
    \<and> lastCursor (handleSnapshotPayload eng cfg env payload s) = lastCursor s"
  using handleSnapshotPayload_refused[OF assms] by blast

theorem stray_snapshot_ignored_witness:
  "se_worker (handleSnapshotPayload pack_engine sample_session_cfg sample_env (JObj []) sample_session)
      = se_worker sample_session
    \<and> se_outbox (handleSnapshotPayload pack_engine sample_session_cfg sample_env (JObj []) sample_session)
      = se_outbox sample_session
    \<and> lastCursor (handleSnapshotPayload pack_engine sample_session_cfg sample_env (JObj []) sample_session)
      = lastCursor sample_session"
  by (rule stray_snapshot_ignored) (simp add: sample_session_def new_session_def)

text \<open>
  A flush sends the oldest work first and exactly once. In a ready session with an open socket
  and something to send that fits the wire limits, one binary frame goes out; it decodes to the
  next batch id and the operations of the first 512 unacknowledged records in their stable
  order, and their identities, in the same order, are what will be marked as sent.
\<close>

theorem flush_sends_prefix:
  fixes cfg s
  defines "batch \<equiv> take MAX_BATCH (unackedOps (sc_collate cfg) (sc_storageId cfg) (se_outbox s))"
  assumes "status (se_transport s) = Ready" "catchupComplete s" "\<not> disposed s"
    and "ws (se_transport s) = Some WsOpen" and "batch \<noteq> []"
    and "list_all op_ok (map po_op batch)" "payload_bytes (map po_op batch) \<le> MAX_BATCH_PAYLOAD_BYTES"
    and "nextBatchId s \<le> MAX_SAFE_INTEGER"
  shows "\<exists>bs. effects (se_transport (flushOutbox cfg s)) = effects (se_transport s) @ [SendBinary bs]
    \<and> decodeDataFrame bs = Inr (ClientOps \<lparr>co_batchId = BNum (int (nextBatchId s)), co_ops = map po_op batch\<rparr>)
    \<and> marking (flushOutbox cfg s) = marking s @ [map (\<lambda>r. record_identity (po_id r)) batch]"
proof -
  let ?f = "\<lparr>co_batchId = BNum (int (nextBatchId s)), co_ops = map po_op batch\<rparr>"
  have "length batch \<le> MAX_BATCH_OPS" by (simp add: batch_def MAX_BATCH_def MAX_BATCH_OPS_def)
  then obtain bs where e: "encodeClientOps ?f = Inr bs"
    using assms(8,9) by (auto simp: encodeClientOps_Inr valid_batch_id_def batch_id_value_def MAX_SAFE_INTEGER_def)
  have "decodeDataFrame bs = Inr (ClientOps (normal_batch ?f))"
    using decode_encodeClientOps[OF e] assms(7) by simp
  moreover have "normal_batch ?f = ?f"
    using assms(9) by (simp add: normal_batch_def number_or_string_def batch_id_value_def)
  moreover have "unackedOps (sc_collate cfg) (sc_storageId cfg) (se_outbox s) \<noteq> []"
    using assms(6) by (auto simp: batch_def)
  ultimately show ?thesis
    using assms(2-5) e
    by (simp add: flushOutbox_def Let_def sendClientOps_def batch_def[symmetric] emit_def)
qed

theorem flush_sends_prefix_witness:
  "\<exists>bs. effects (se_transport (flushOutbox sample_session_cfg (sample_session\<lparr>catchupComplete := True,
      se_transport := new_transport\<lparr>status := Ready, ws := Some WsOpen\<rparr>\<rparr>))) = [SendBinary bs]"
proof -
  let ?s = "sample_session\<lparr>catchupComplete := True, se_transport := new_transport\<lparr>status := Ready, ws := Some WsOpen\<rparr>\<rparr>"
  have b: "take MAX_BATCH (unackedOps (sc_collate sample_session_cfg) (sc_storageId sample_session_cfg) (se_outbox ?s))
      = [sample_record]"
    by (simp add: sample_session_def new_session_def sample_session_cfg_def unackedOps_def index_range_def
        sample_record_def outbox_key_def has_prefix_def sort_by_def MAX_BATCH_def)
  have "\<exists>bs. effects (se_transport (flushOutbox sample_session_cfg ?s)) = effects (se_transport ?s) @ [SendBinary bs]
    \<and> decodeDataFrame bs = Inr (ClientOps \<lparr>co_batchId = BNum (int (nextBatchId ?s)), co_ops = map po_op [sample_record]\<rparr>)
    \<and> marking (flushOutbox sample_session_cfg ?s) = marking ?s @ [map (\<lambda>r. record_identity (po_id r)) [sample_record]]"
    by (rule flush_sends_prefix[of ?s sample_session_cfg, unfolded b])
      (simp_all add: sample_session_def new_session_def sample_record_def op_ok_def MAX_OP_BYTES_def
        MAX_BATCH_PAYLOAD_BYTES_def MAX_SAFE_INTEGER_def payload_bytes_def)
  then show ?thesis by (auto simp: new_transport_def)
qed

end
