(* ===== verification/Save_Status.thy ===== *)
theory Save_Status
  imports Session_Safety
begin

text \<open>
  What the page shows of saving and syncing: \<^verbatim>\<open>lib/collaboration/save-status.ts\<close>,
  \<^verbatim>\<open>lib/collaboration/connection-status.ts\<close> and the store between session and page,
  \<^verbatim>\<open>store/use-sync-status-store.ts\<close>. Texts are represented by which text is shown; colours are left out.
\<close>

section \<open>The status store\<close>

record SyncOutboxStatus =
  ob_pending :: nat
  ob_sent :: nat
  ob_durablyAcked :: nat
  ob_serverConfirmed :: bool

record SyncStatusState =
  sy_status :: "ConnectionStatus option"
  sy_error :: "string option"
  sy_compatibilityWarning :: "string option"
  sy_localOnly :: bool
  sy_outbox :: "SyncOutboxStatus option"

definition clear_store :: "SyncStatusState \<Rightarrow> SyncStatusState" where
  "clear_store st = \<lparr>sy_status = None, sy_error = None, sy_compatibilityWarning = None, sy_localOnly = False, sy_outbox = None\<rparr>"

definition setError :: "string option \<Rightarrow> SyncStatusState \<Rightarrow> SyncStatusState" where
  "setError e st = st\<lparr>sy_error := e\<rparr>"

definition setLocalOnly :: "bool \<Rightarrow> SyncStatusState \<Rightarrow> SyncStatusState" where
  "setLocalOnly localOnly st = st\<lparr>sy_localOnly := localOnly, sy_outbox := (if localOnly then None else sy_outbox st)\<rparr>"

definition setOutbox :: "SyncOutboxStatus \<Rightarrow> SyncStatusState \<Rightarrow> SyncStatusState" where
  "setOutbox ob st =
     st\<lparr>sy_outbox := Some ob, sy_localOnly := False,
        sy_error := (if ob_serverConfirmed ob \<and> ob_pending ob = 0 \<and> ob_sent ob = 0 \<and> ob_durablyAcked ob = 0 then None
          else sy_error st)\<rparr>"

text \<open>The callbacks \<open>use-sync-session.ts\<close> gives the session: \<open>onOutboxState\<close> and \<open>onLocalError\<close> write the store.\<close>

fun on_report :: "SyncStatusState \<Rightarrow> report \<Rightarrow> SyncStatusState" where
  "on_report st (ReportOutbox counts confirmed) =
     setOutbox \<lparr>ob_pending = sc_pending counts, ob_sent = sc_sent counts, ob_durablyAcked = sc_durably_acked counts,
       ob_serverConfirmed = confirmed\<rparr> st"
| "on_report st ReportLocalError = setError (Some ''Local sync storage failed'') st"
| "on_report st _ = st"

definition page_store :: "report list \<Rightarrow> SyncStatusState" where
  "page_store rs =
     foldl on_report \<lparr>sy_status = None, sy_error = None, sy_compatibilityWarning = None, sy_localOnly = False, sy_outbox = None\<rparr> rs"

section \<open>Save status\<close>

datatype SaveStatus = IdleStatus | SavingStatus | SavedStatus | ErrorStatus | ConflictStatus

datatype EditorSaveState =
    Saved_locally | Local_only | Pending_sync | Server_acknowledged | Saving_state | Saved_mirror | Offline
  | Error_state | Conflict_state

text \<open>The label: the one of the state in \<open>VIEWS\<close>, or one of the overriding texts.\<close>

datatype save_label =
    Standard EditorSaveState | SyncErrorLabel string | OfflinePending nat | PendingCount nat | UnsavedConflict
  | NotSavedRetrying | OfflineNotSaved

record SaveStatusView =
  sv_state :: EditorSaveState
  sv_label :: save_label
  sv_prominent :: bool

definition save_views :: "EditorSaveState \<Rightarrow> bool" where
  "save_views state = (state \<in> {Local_only, Pending_sync, Offline, Error_state, Conflict_state})"

definition standard_view :: "EditorSaveState \<Rightarrow> SaveStatusView" where
  "standard_view state = \<lparr>sv_state = state, sv_label = Standard state, sv_prominent = save_views state\<rparr>"

record SyncInfo =
  si_localOnly :: bool
  si_outbox :: "SyncOutboxStatus option"
  si_error :: "string option"

text \<open>The durable path without an error.\<close>

definition durable_view :: "bool \<Rightarrow> SyncInfo option \<Rightarrow> SaveStatusView" where
  "durable_view online sync =
     (let outbox = Option.bind sync si_outbox;
          pending = (case outbox of None \<Rightarrow> 0 | Some ob \<Rightarrow> ob_pending ob + ob_sent ob)
      in if pending > 0 then
           (if online then (standard_view Pending_sync)\<lparr>sv_label := PendingCount pending\<rparr>
            else \<lparr>sv_state = Offline, sv_label = OfflinePending pending, sv_prominent = True\<rparr>)
         else if (case outbox of None \<Rightarrow> False | Some ob \<Rightarrow> 0 < ob_durablyAcked ob \<or> ob_serverConfirmed ob)
           then standard_view Server_acknowledged
         else if (case sync of None \<Rightarrow> False | Some i \<Rightarrow> si_localOnly i) then standard_view Local_only
         else standard_view (if online then Saved_locally else Offline))"

definition toSaveStatusView :: "SaveStatus \<Rightarrow> bool \<Rightarrow> bool \<Rightarrow> SyncInfo option \<Rightarrow> SaveStatusView" where
  "toSaveStatusView save online locallyDurable sync =
     (if locallyDurable \<and> save \<noteq> ConflictStatus then
        (case Option.bind sync si_error of
           None \<Rightarrow> durable_view online sync
         | Some e \<Rightarrow>
             if e = [] then durable_view online sync
             else \<lparr>sv_state = Error_state, sv_label = SyncErrorLabel e, sv_prominent = True\<rparr>)
      else if save = ConflictStatus then
        (if locallyDurable then standard_view Conflict_state
         else (standard_view Conflict_state)\<lparr>sv_label := UnsavedConflict\<rparr>)
      else if save = ErrorStatus \<or> (\<not> online \<and> save = SavingStatus) then
        \<lparr>sv_state = Error_state, sv_label = (if online then NotSavedRetrying else OfflineNotSaved), sv_prominent = True\<rparr>
      else standard_view (if save = SavingStatus then Saving_state else Saved_mirror))"

text \<open>What \<open>save-status-indicator.tsx\<close> hands over.\<close>

definition sync_info :: "SyncStatusState \<Rightarrow> SyncInfo" where
  "sync_info st = \<lparr>si_localOnly = sy_localOnly st, si_outbox = sy_outbox st, si_error = sy_error st\<rparr>"

section \<open>Connection status\<close>

datatype ConnectionViewLevel = Ok | PendingLevel | Warn | Off

record ConnectionStatusView =
  cv_level :: ConnectionViewLevel
  cv_prominent :: bool

definition toConnectionStatusView :: "ConnectionStatus \<Rightarrow> ConnectionStatusView" where
  "toConnectionStatusView conn =
     (case conn of
        Disconnected \<Rightarrow> \<lparr>cv_level = Off, cv_prominent = False\<rparr>
      | Connecting \<Rightarrow> \<lparr>cv_level = PendingLevel, cv_prominent = False\<rparr>
      | Authenticated \<Rightarrow> \<lparr>cv_level = PendingLevel, cv_prominent = False\<rparr>
      | Joining \<Rightarrow> \<lparr>cv_level = PendingLevel, cv_prominent = False\<rparr>
      | Syncing \<Rightarrow> \<lparr>cv_level = PendingLevel, cv_prominent = False\<rparr>
      | Ready \<Rightarrow> \<lparr>cv_level = Ok, cv_prominent = False\<rparr>
      | Reconnecting \<Rightarrow> \<lparr>cv_level = Warn, cv_prominent = True\<rparr>
      | Draining \<Rightarrow> \<lparr>cv_level = Warn, cv_prominent = True\<rparr>
      | Closed \<Rightarrow> \<lparr>cv_level = Off, cv_prominent = False\<rparr>)"

section \<open>The page tells the truth\<close>

lemma page_store_snoc: "page_store (rs @ [r]) = on_report (page_store rs) r"
  by (simp add: page_store_def)

lemma page_outbox:
  "map_option (\<lambda>ob. (ob_pending ob, ob_sent ob, ob_durablyAcked ob)) (sy_outbox (page_store rs))
    = map_option (\<lambda>c. (sc_pending c, sc_sent c, sc_durably_acked c)) (last_outbox rs)"
proof (induction rs rule: rev_induct)
  case Nil
  then show ?case by (simp add: page_store_def)
next
  case (snoc r rs)
  then show ?case by (cases r) (simp_all add: page_store_snoc setOutbox_def setError_def)
qed

lemma acknowledged_view:
  assumes "sv_state (toSaveStatusView save online locallyDurable (Some (sync_info st))) = Server_acknowledged"
  shows "\<exists>ob. sy_outbox st = Some ob \<and> ob_pending ob = 0 \<and> ob_sent ob = 0 \<and> locallyDurable"
  using assms
  by (auto simp: toSaveStatusView_def durable_view_def standard_view_def sync_info_def Let_def
      split: if_splits option.splits)

text \<open>
  C18: "acknowledged by server" is shown only for work the server has: in every state a session reaches, whatever the
  connection, when the page's store holds what the session reported and the status reads so, no operation of the
  document waits in the outbox for an acknowledgement.
\<close>

theorem acknowledged_means_sent:
  assumes "session_reaches eng cfg (\<lambda>env ev v. True) (new_session w ob c) u"
    and "sv_state (toSaveStatusView save online locallyDurable (Some (sync_info (page_store (reports u))))) = Server_acknowledged"
  shows "unackedOps (sc_collate cfg) (sc_storageId cfg) (se_outbox u) = []"
proof -
  have "view_holds counts_ok cfg u"
    by (rule session_invariant[OF assms(1), where I = "view_holds counts_ok cfg"])
      (simp_all add: counts.session_step_view, simp add: view_holds_def page_def counts_ok_def new_session_def)
  moreover obtain counts where "last_outbox (reports u) = Some counts" "sc_pending counts = 0" "sc_sent counts = 0"
    using acknowledged_view[OF assms(2)] page_outbox[of "reports u"] by (cases "last_outbox (reports u)") auto
  ultimately show ?thesis
    by (simp add: view_holds_def page_def counts_ok_def unackedOps_def sort_by_def)
qed

text \<open>A report takes an error off the page only when the outbox is empty and the server has confirmed it.\<close>

lemma error_clears_only_when_synced:
  assumes "sy_error st \<noteq> None" and "sy_error (on_report st r) = None"
  shows "\<exists>counts. r = ReportOutbox counts True \<and> sc_pending counts = 0 \<and> sc_sent counts = 0
    \<and> sc_durably_acked counts = 0"
  using assms by (cases r) (auto simp: setOutbox_def setError_def split: if_splits)

theorem acknowledged_means_sent_witness:
  "unackedOps (sc_collate sample_session_cfg) (sc_storageId sample_session_cfg)
    (se_outbox (session_step pack_engine sample_session_cfg sample_env RunInbound
    (session_step pack_engine sample_session_cfg sample_env (Net (SocketMessage (Text
      (encodeControlFrame \<lparr>cf_id = None, cf_type = ''sync_done'', cf_payload = JObj []\<rparr>))))
      (new_session (fresh_worker empty_idb) empty_outbox ''0'')))) = []"
proof -
  let ?m = "encodeControlFrame \<lparr>cf_id = None, cf_type = ''sync_done'', cf_payload = JObj []\<rparr>"
  let ?s0 = "new_session (fresh_worker empty_idb) empty_outbox ''0'' :: bytes Session"
  let ?s1 = "session_step pack_engine sample_session_cfg sample_env (Net (SocketMessage (Text ?m))) ?s0"
  let ?s2 = "session_step pack_engine sample_session_cfg sample_env RunInbound ?s1"
  have d: "decodeControlFrame ?m = Inr \<lparr>cf_id = None, cf_type = ''sync_done'', cf_payload = JObj []\<rparr>"
    by (rule decode_encode_control)
      (simp_all add: frame_ok_def CONTROL_FRAME_TYPES_def payload_shape token_too_long_def)
  have "session_reaches pack_engine sample_session_cfg (\<lambda>env ev v. True) ?s0 ?s1"
    by (rule session_reaches.step[OF session_reaches.refl]) simp
  then have r: "session_reaches pack_engine sample_session_cfg (\<lambda>env ev v. True) ?s0 ?s2"
    by (rule session_reaches.step) simp
  have "reports ?s2 = [ReportOutbox \<lparr>sc_pending = 0, sc_sent = 0, sc_durably_acked = 0\<rparr> True]"
    by (simp add: transport_event_def d handleControlFrame_def setStatus_def emit_def new_session_def
        new_transport_def run_inbound_def onReady_def compact_acked_def clearAcked_def ackedIds_def
        index_range_def empty_outbox_def finish_catchup_def reportOutboxState_def stateCounts_def
        report_to_def flushOutbox_def unackedOps_def sort_by_def Let_def createCatchupBriefing_def
        split: option.splits)
  then have "sv_state (toSaveStatusView SavedStatus True True (Some (sync_info (page_store (reports ?s2)))))
    = Server_acknowledged"
    by (auto simp: page_store_def setOutbox_def setError_def toSaveStatusView_def durable_view_def
        standard_view_def sync_info_def Let_def)
  from acknowledged_means_sent[OF r this] show ?thesis .
qed

end
