(* ===== verification/Proofs.thy ===== *)
theory Proofs
  imports Worker_Core Snapshot_Codec
begin

text \<open>
  \<^verbatim>\<open>lib/crdt/proofs.ts\<close>: proofs of history. The gateway keeps a Merkle tree over the operations of a document
  and signs a receipt with its root; the client replays an audit path and checks the signature. SHA-256 (\<open>sha\<close>),
  the Ed25519 check (\<open>ed\<close>; none when WebCrypto throws) and \<open>Number\<close> on the index (\<open>number\<close>; none for what is not
  a non-negative integer) are parameters.
\<close>

section \<open>Bytes\<close>

definition u16be :: "nat \<Rightarrow> bytes" where
  "u16be value = be_bytes 2 value"

definition u64be :: "string \<Rightarrow> bytes option" where
  "u64be value = map_option (\<lambda>n. be_bytes 8 (nat (n mod 2 ^ 64))) (js_BigInt value)"

definition utf8_bytes :: "string \<Rightarrow> bytes" where
  "utf8_bytes s = map word_of_nat (concat (map utf8_char s))"

definition hexToBytes :: "string \<Rightarrow> bytes option" where
  "hexToBytes hex =
     (if length hex mod 2 \<noteq> 0 \<or> \<not> list_all (\<lambda>c. radix_digit 16 c \<noteq> None) hex then None else Some (hex_bytes hex))"

abbreviation bytesToHex :: "bytes \<Rightarrow> string" where
  "bytesToHex \<equiv> hex_text"

text \<open>\<open>base64StdDecode\<close>: the accumulator is a 32-bit integer, of which the low bits are read.\<close>

definition std_table :: string where
  "std_table = ''ABCDEFGHIJKLMNOPQRSTUVWXYZabcdefghijklmnopqrstuvwxyz0123456789+/''"

fun index_of :: "char \<Rightarrow> string \<Rightarrow> nat option" where
  "index_of c [] = None"
| "index_of c (x # xs) = (if x = c then Some 0 else map_option Suc (index_of c xs))"

fun base64_loop :: "string \<Rightarrow> nat \<Rightarrow> 32 word \<Rightarrow> bytes option" where
  "base64_loop [] bits acc = Some []"
| "base64_loop (c # cs) bits acc =
     (case index_of c std_table of
        None \<Rightarrow> None
      | Some v \<Rightarrow>
          (let acc' = or (push_bit 6 acc) (word_of_nat v)
           in if bits + 6 \<ge> 8
              then map_option ((#) (ucast (drop_bit (bits - 2) acc'))) (base64_loop cs (bits - 2) acc')
              else base64_loop cs (bits + 6) acc'))"

definition base64StdDecode :: "string \<Rightarrow> bytes option" where
  "base64StdDecode input = base64_loop (rev (dropWhile (\<lambda>c. c = CHR ''='') (rev input))) 0 0"

definition uuidToBytes :: "string \<Rightarrow> bytes option" where
  "uuidToBytes uuid =
     (case hexToBytes (filter (\<lambda>c. c \<noteq> CHR ''-'') uuid) of
        Some bs \<Rightarrow> if length bs = 16 then Some bs else None
      | None \<Rightarrow> None)"

section \<open>The Merkle tree\<close>

definition node_input :: "bytes \<Rightarrow> bytes \<Rightarrow> bytes" where
  "node_input left right = 1 # left @ right"

definition nodeHash :: "(bytes \<Rightarrow> bytes) \<Rightarrow> bytes \<Rightarrow> bytes \<Rightarrow> bytes" where
  "nodeHash sha left right = sha (node_input left right)"

definition operationLeaf :: "(bytes \<Rightarrow> bytes) \<Rightarrow> string \<Rightarrow> string \<Rightarrow> string \<Rightarrow> bytes option" where
  "operationLeaf sha seq operationId checksum =
     map_option
       (\<lambda>s. sha (0 # s @ u16be (length (utf8_bytes operationId)) @ utf8_bytes operationId @ utf8_bytes checksum))
       (u64be seq)"

fun next_level :: "(bytes \<Rightarrow> bytes) \<Rightarrow> bytes list \<Rightarrow> bytes list" where
  "next_level sha [] = []"
| "next_level sha [x] = [nodeHash sha x x]"
| "next_level sha (x # y # level) = nodeHash sha x y # next_level sha level"

lemma length_next_level [simp]: "length (next_level sha level) = (length level + 1) div 2"
  by (induction sha level rule: next_level.induct) auto

function root_of :: "(bytes \<Rightarrow> bytes) \<Rightarrow> bytes list \<Rightarrow> bytes" where
  "root_of sha level = (if length level \<le> 1 then hd level else root_of sha (next_level sha level))"
  by auto
termination by (relation "measure (\<lambda>(sha, level). length level)") auto

declare root_of.simps [simp del]

definition operationRoot :: "(bytes \<Rightarrow> bytes) \<Rightarrow> bytes list \<Rightarrow> string" where
  "operationRoot sha leaves = (if leaves = [] then replicate 64 (CHR ''0'') else bytesToHex (root_of sha leaves))"

fun replay_path :: "(bytes \<Rightarrow> bytes) \<Rightarrow> bytes \<Rightarrow> nat \<Rightarrow> bytes list \<Rightarrow> bytes" where
  "replay_path sha current idx [] = current"
| "replay_path sha current idx (sibling # path) =
     replay_path sha (if even idx then nodeHash sha current sibling else nodeHash sha sibling current) (idx div 2) path"

fun all_bytes :: "string list \<Rightarrow> bytes list option" where
  "all_bytes [] = Some []"
| "all_bytes (h # hs) = (case hexToBytes h of None \<Rightarrow> None | Some b \<Rightarrow> map_option ((#) b) (all_bytes hs))"

definition replayMerklePath :: "(bytes \<Rightarrow> bytes) \<Rightarrow> string \<Rightarrow> nat \<Rightarrow> string list \<Rightarrow> string option" where
  "replayMerklePath sha leafHex index proofHex =
     (case (hexToBytes leafHex, all_bytes proofHex) of
        (Some leaf, Some path) \<Rightarrow> Some (bytesToHex (replay_path sha leaf index path))
      | _ \<Rightarrow> None)"

section \<open>Receipts\<close>

record Receipt =
  rc_documentId :: string
  rc_seq :: string
  rc_root :: string
  rc_stateDigest :: string
  rc_opCount :: string
  rc_issuedAtMs :: string
  rc_keyId :: string
  rc_signature :: string

record ProofDocument =
  pf_documentId :: string
  pf_seq :: string
  pf_baseSeq :: string
  pf_opCount :: string
  pf_leafIndex :: string
  pf_leaf :: string
  pf_proof :: "string list"
  pf_root :: string
  pf_stateDigest :: string
  pf_publicKey :: string
  pf_keyEphemeral :: bool
  pf_receipt :: Receipt

record ProofVerification =
  pv_merkleOk :: bool
  pv_signatureOk :: bool
  pv_stateMatch :: bool
  pv_keyId :: string
  pv_keyEphemeral :: bool
  pv_seq :: string
  pv_opCount :: string

text \<open>The order of the checks decides only which exception is thrown; all are \<open>None\<close>.\<close>

definition receiptMessage :: "Receipt \<Rightarrow> bytes option" where
  "receiptMessage receipt =
     (case (uuidToBytes (rc_documentId receipt), hexToBytes (rc_root receipt), u64be (rc_seq receipt),
            u64be (rc_opCount receipt), u64be (rc_issuedAtMs receipt)) of
        (Some document, Some root, Some seq, Some opCount, Some issuedAt) \<Rightarrow>
          (let stateDigest = utf8_bytes (rc_stateDigest receipt);
               keyId = utf8_bytes (rc_keyId receipt)
           in if length keyId > 255 then None
              else Some (1 # document @ seq @ root @ u16be (length stateDigest) @ stateDigest @ opCount @ issuedAt
                @ word_of_nat (length keyId) # keyId))
      | _ \<Rightarrow> None)"

definition verifyProofDocument ::
  "(bytes \<Rightarrow> bytes) \<Rightarrow> (bytes \<Rightarrow> bytes \<Rightarrow> bytes \<Rightarrow> bool option) \<Rightarrow> (string \<Rightarrow> nat option) \<Rightarrow> ProofDocument \<Rightarrow> string
    \<Rightarrow> ProofVerification option" where
  "verifyProofDocument sha ed number proof localDigest =
     (let receipt = pf_receipt proof
      in case number (pf_leafIndex proof) of
           None \<Rightarrow> None
         | Some leafIndex \<Rightarrow>
             (case (replayMerklePath sha (pf_leaf proof) leafIndex (pf_proof proof), receiptMessage receipt,
                    base64StdDecode (rc_signature receipt), hexToBytes (pf_publicKey proof)) of
                (Some replayed, Some message, Some signature, Some publicKey) \<Rightarrow>
                  Some
                    \<lparr>pv_merkleOk =
                       (replayed = to_lower (pf_root proof) \<and> replayed = to_lower (rc_root receipt)
                        \<and> (if pf_opCount proof = ''0'' then pf_root proof = replicate 64 (CHR ''0'')
                           else length (pf_leaf proof) = 64)),
                     pv_signatureOk =
                       (length signature = 64 \<and> length publicKey = 32 \<and> ed publicKey signature message = Some True),
                     pv_stateMatch = (localDigest = rc_stateDigest receipt),
                     pv_keyId = rc_keyId receipt, pv_keyEphemeral = pf_keyEphemeral proof, pv_seq = rc_seq receipt,
                     pv_opCount = rc_opCount receipt\<rparr>
              | _ \<Rightarrow> None))"

section \<open>Audit paths\<close>

lemma next_level_nth:
  "i < length (next_level sha level) \<Longrightarrow>
   next_level sha level ! i = nodeHash sha (level ! (2 * i)) (if 2 * i + 1 < length level then level ! (2 * i + 1) else level ! (2 * i))"
proof (induction sha level arbitrary: i rule: next_level.induct)
  case (3 sha x y level)
  then show ?case by (cases i) auto
qed auto

text \<open>The path the gateway sends (\<open>proof_path\<close> in the Rust code): the sibling on each level, the last node its own.\<close>

definition sibling :: "bytes list \<Rightarrow> nat \<Rightarrow> bytes" where
  "sibling level idx =
     (if even idx then if idx + 1 < length level then level ! (idx + 1) else level ! idx else level ! (idx - 1))"

function audit_path :: "(bytes \<Rightarrow> bytes) \<Rightarrow> bytes list \<Rightarrow> nat \<Rightarrow> bytes list" where
  "audit_path sha level idx =
     (if length level \<le> 1 then [] else sibling level idx # audit_path sha (next_level sha level) (idx div 2))"
  by auto
termination by (relation "measure (\<lambda>(sha, level, idx). length level)") auto

declare audit_path.simps [simp del]

lemma sibling_node:
  assumes "idx < length level"
  shows "(if even idx then nodeHash sha (level ! idx) (sibling level idx) else nodeHash sha (sibling level idx) (level ! idx))
    = next_level sha level ! (idx div 2)"
proof -
  have "idx div 2 < length (next_level sha level)" using assms by simp
  then show ?thesis using assms by (auto simp: next_level_nth sibling_def elim!: evenE oddE)
qed

lemma audit_path_replays: "idx < length level \<Longrightarrow> replay_path sha (level ! idx) idx (audit_path sha level idx) = root_of sha level"
proof (induction sha level idx rule: audit_path.induct)
  case (1 sha level idx)
  show ?case
  proof (cases "length level \<le> 1")
    case True
    then show ?thesis using 1(2) by (cases level) (auto simp: audit_path.simps root_of.simps)
  next
    case False
    moreover have "idx div 2 < length (next_level sha level)" using 1(2) by simp
    ultimately show ?thesis
      using 1 sibling_node [OF 1(2), of sha] by (simp add: audit_path.simps [of sha level] root_of.simps [of sha level])
  qed
qed

section \<open>Soundness of a path\<close>

text \<open>What is hashed when the tree is built, and when a path is replayed.\<close>

fun level_inputs :: "bytes list \<Rightarrow> bytes set" where
  "level_inputs [] = {}"
| "level_inputs [x] = {node_input x x}"
| "level_inputs (x # y # level) = insert (node_input x y) (level_inputs level)"

function tree_inputs :: "(bytes \<Rightarrow> bytes) \<Rightarrow> bytes list \<Rightarrow> bytes set" where
  "tree_inputs sha level = (if length level \<le> 1 then {} else level_inputs level \<union> tree_inputs sha (next_level sha level))"
  by auto
termination by (relation "measure (\<lambda>(sha, level). length level)") auto

declare tree_inputs.simps [simp del]

fun path_inputs :: "(bytes \<Rightarrow> bytes) \<Rightarrow> bytes \<Rightarrow> nat \<Rightarrow> bytes list \<Rightarrow> bytes set" where
  "path_inputs sha current idx [] = {}"
| "path_inputs sha current idx (sib # path) =
     (let input = (if even idx then node_input current sib else node_input sib current)
      in insert input (path_inputs sha (sha input) (idx div 2) path))"

definition collision :: "(bytes \<Rightarrow> bytes) \<Rightarrow> bytes set \<Rightarrow> bytes set \<Rightarrow> bool" where
  "collision sha xs ys \<longleftrightarrow> (\<exists>x \<in> xs. \<exists>y \<in> ys. x \<noteq> y \<and> sha x = sha y)"

function depth :: "nat \<Rightarrow> nat" where
  "depth n = (if n \<le> 1 then 0 else Suc (depth ((n + 1) div 2)))"
  by auto
termination by (relation "measure id") auto

declare depth.simps [simp del]

lemma level_input_nth:
  "i < length (next_level sha level) \<Longrightarrow>
   node_input (level ! (2 * i)) (if 2 * i + 1 < length level then level ! (2 * i + 1) else level ! (2 * i)) \<in> level_inputs level"
proof (induction sha level arbitrary: i rule: next_level.induct)
  case (3 sha x y level)
  show ?case
  proof (cases i)
    case (Suc n)
    then show ?thesis using "3.IH" [of n] "3.prems" by (auto split: if_splits)
  qed simp
qed auto

lemma collision_mono: "collision sha xs ys \<Longrightarrow> xs \<subseteq> xs' \<Longrightarrow> ys \<subseteq> ys' \<Longrightarrow> collision sha xs' ys'"
  by (auto simp: collision_def)

lemma path_binds:
  "(\<And>x. length (sha x) = 32) \<Longrightarrow> idx < length level \<Longrightarrow> list_all (\<lambda>x. length x = 32) level \<Longrightarrow> length current = 32
    \<Longrightarrow> length path = depth (length level) \<Longrightarrow> replay_path sha current idx path = root_of sha level
    \<Longrightarrow> current = level ! idx \<or> collision sha (tree_inputs sha level) (path_inputs sha current idx path)"
proof (induction sha level arbitrary: current idx path rule: root_of.induct)
  case (1 sha level)
  note len = 1(2) and idx = 1(3) and all32 = 1(4) and cur32 = 1(5) and path = 1(6) and replay = 1(7)
  show ?case
  proof (cases "length level \<le> 1")
    case True
    then have "path = []" using path by (simp add: depth.simps)
    then show ?thesis using True idx replay by (cases level) (simp_all add: root_of.simps)
  next
    case False
    then obtain s rest where p: "path = s # rest" "length rest = depth (length (next_level sha level))"
      using path by (cases path) (simp_all add: depth.simps [of "length level"])
    define y where "y = (if even idx then node_input current s else node_input s current)"
    let ?i = "idx div 2"
    let ?right = "if 2 * ?i + 1 < length level then level ! (2 * ?i + 1) else level ! (2 * ?i)"
    define x where "x = node_input (level ! (2 * ?i)) ?right"
    have i: "?i < length (next_level sha level)" using idx by simp
    have next32: "list_all (\<lambda>x. length x = 32) (next_level sha level)"
      using len by (induction sha level rule: next_level.induct) (auto simp: nodeHash_def)
    have "replay_path sha (sha y) ?i rest = root_of sha (next_level sha level)"
      using replay False by (simp add: p(1) y_def nodeHash_def root_of.simps [of sha level] if_distrib [of sha] cong: if_cong)
    then have "sha y = next_level sha level ! ?i
        \<or> collision sha (tree_inputs sha (next_level sha level)) (path_inputs sha (sha y) ?i rest)"
      using 1(1) [OF False len i next32 _ p(2)] len by blast
    then show ?thesis
    proof
      assume "sha y = next_level sha level ! ?i"
      then have eq: "sha x = sha y" using next_level_nth [OF i] by (simp add: x_def nodeHash_def)
      have in_tree: "x \<in> tree_inputs sha level"
        using False level_input_nth [OF i] by (simp add: tree_inputs.simps [of sha level] x_def)
      have in_path: "y \<in> path_inputs sha current idx path" by (simp add: p(1) y_def Let_def)
      show ?thesis
      proof (cases "x = y")
        case False
        then show ?thesis using eq in_tree in_path by (auto simp: collision_def)
      next
        case True
        have l: "length (level ! (2 * ?i)) = 32" "length ?right = 32"
          using all32 idx by (auto simp: list_all_length)
        have "current = level ! idx"
        proof (cases "even idx")
          case True
          then have "current @ s = level ! (2 * ?i) @ ?right"
            using \<open>x = y\<close> by (simp add: x_def y_def node_input_def)
          then have "current = level ! (2 * ?i)" using cur32 l(1) by (metis append_eq_append_conv)
          then show ?thesis using True by simp
        next
          case False
          then have "s @ current = level ! (2 * ?i) @ ?right"
            using \<open>x = y\<close> by (simp add: x_def y_def node_input_def)
          then have "s = level ! (2 * ?i) \<and> current = ?right"
            by (rule append_eq_append_conv [THEN iffD1, rotated]) (simp only: cur32 l(2) simp_thms)
          then have "current = ?right" ..
          moreover have "2 * ?i + 1 = idx" using False by (rule odd_two_times_div_two_succ)
          ultimately show ?thesis using idx by simp
        qed
        then show ?thesis ..
      qed
    next
      assume "collision sha (tree_inputs sha (next_level sha level)) (path_inputs sha (sha y) ?i rest)"
      moreover have "tree_inputs sha (next_level sha level) \<subseteq> tree_inputs sha level"
        using False by (subst (2) tree_inputs.simps) simp
      moreover have "path_inputs sha (sha y) ?i rest \<subseteq> path_inputs sha current idx path"
        by (simp add: p(1) y_def Let_def subset_insertI)
      ultimately show ?thesis using collision_mono by blast
    qed
  qed
qed

section \<open>What a receipt says\<close>

record Statement =
  st_document :: bytes
  st_seq :: nat
  st_root :: bytes
  st_digest :: bytes
  st_opCount :: nat
  st_issuedAt :: nat
  st_key :: bytes

definition statement_ok :: "Statement \<Rightarrow> bool" where
  "statement_ok s \<longleftrightarrow> length (st_document s) = 16 \<and> length (st_root s) = 32 \<and> length (st_digest s) < 2 ^ 16
     \<and> st_seq s < 2 ^ 64 \<and> st_opCount s < 2 ^ 64 \<and> st_issuedAt s < 2 ^ 64 \<and> length (st_key s) \<le> 255"

definition statement_message :: "Statement \<Rightarrow> bytes" where
  "statement_message s =
     1 # st_document s @ be_bytes 8 (st_seq s) @ st_root s @ be_bytes 2 (length (st_digest s)) @ st_digest s
       @ be_bytes 8 (st_opCount s) @ be_bytes 8 (st_issuedAt s) @ word_of_nat (length (st_key s)) # st_key s"

lemma be_bytes_inject: "m < 256 ^ n \<Longrightarrow> k < 256 ^ n \<Longrightarrow> be_bytes n m = be_bytes n k \<longleftrightarrow> m = k"
  by (metis be_val_be_bytes mod_less)

lemma statement_message_inject:
  assumes "statement_ok s" and "statement_ok t" and "statement_message s = statement_message t"
  shows "s = t"
proof -
  have 1: "st_document s = st_document t" "be_bytes 8 (st_seq s) = be_bytes 8 (st_seq t)" "st_root s = st_root t"
    "be_bytes 2 (length (st_digest s)) = be_bytes 2 (length (st_digest t))"
    using assms by (simp_all add: statement_message_def statement_ok_def)
  then have "length (st_digest s) = length (st_digest t)"
    using assms(1,2) by (simp add: statement_ok_def be_bytes_inject)
  then have 2: "st_digest s = st_digest t" "be_bytes 8 (st_opCount s) = be_bytes 8 (st_opCount t)"
    "be_bytes 8 (st_issuedAt s) = be_bytes 8 (st_issuedAt t)" "st_key s = st_key t"
    using assms by (simp_all add: statement_message_def statement_ok_def)
  moreover have "st_seq s = st_seq t" "st_opCount s = st_opCount t" "st_issuedAt s = st_issuedAt t"
    using 1(2) 2(2,3) assms(1,2) by (simp_all add: statement_ok_def be_bytes_inject)
  ultimately show ?thesis using 1 by (intro Statement.equality) simp_all
qed

definition u64_of :: "string \<Rightarrow> nat" where
  "u64_of s = (case js_BigInt s of Some n \<Rightarrow> nat (n mod 2 ^ 64) | None \<Rightarrow> 0)"

definition statement_of :: "Receipt \<Rightarrow> Statement" where
  "statement_of r =
     \<lparr>st_document = hex_bytes (filter (\<lambda>c. c \<noteq> CHR ''-'') (rc_documentId r)), st_seq = u64_of (rc_seq r),
      st_root = hex_bytes (rc_root r), st_digest = utf8_bytes (rc_stateDigest r), st_opCount = u64_of (rc_opCount r),
      st_issuedAt = u64_of (rc_issuedAtMs r), st_key = utf8_bytes (rc_keyId r)\<rparr>"

lemma u64_of_less: "u64_of s < 2 ^ 64"
  by (simp add: u64_of_def nat_less_iff split: option.split)

lemma receipt_statement:
  assumes "receiptMessage r = Some m"
  shows "m = statement_message (statement_of r)" "length (st_document (statement_of r)) = 16"
    "length (st_key (statement_of r)) \<le> 255"
  using assms
  by (auto simp: receiptMessage_def statement_message_def statement_of_def u64be_def u64_of_def u16be_def
      uuidToBytes_def hexToBytes_def Let_def split: option.splits if_splits)

section \<open>A proof that verifies\<close>

lemma hex_bytes_text: "hex_bytes (hex_text bs) = bs"
  by (induction bs) (simp_all add: hex_text_def hex_bytes_hex2)

lemma length_hex_text: "length (hex_text bs) = 2 * length bs"
  by (induction bs) (simp_all add: hex_text_def hex2_def)

lemma radix_digit_lower: "radix_digit 16 (lower_char c) = radix_digit 16 c"
proof -
  define n where "n = (of_char c :: nat)"
  have n: "n < 256" "c = char_of n" by (simp_all add: n_def)
  have "(of_char (char_of (n + 32) :: char) :: nat) = n + 32" if "n \<le> 222"
    using that by (simp add: of_char_of)
  then show ?thesis using n(1) by (auto simp: radix_digit_def lower_char_def Let_def n(2))
qed

lemma hex_bytes_lower: "hex_bytes (to_lower s) = hex_bytes s"
  by (induction s rule: hex_bytes.induct) (simp_all add: to_lower_def radix_digit_lower)

lemma length_to_lower: "length (to_lower s) = length s"
  by (simp add: to_lower_def)

lemma length_hex_bytes: "length (hex_bytes s) = length s div 2"
  by (induction s rule: hex_bytes.induct) auto

lemma replay_length: "(\<And>x. length (sha x) = 32) \<Longrightarrow> length current = 32 \<Longrightarrow> length (replay_path sha current idx path) = 32"
  by (induction path arbitrary: current idx) (simp_all add: nodeHash_def)

lemma all_bytes_hex: "all_bytes hs = Some bs \<Longrightarrow> bs = map hex_bytes hs"
  by (induction hs arbitrary: bs) (auto simp: hexToBytes_def split: option.splits if_splits)

text \<open>
  The gateway's key signs two kinds of messages: the statements of receipts, and the manifests of signed archives
  (\<^verbatim>\<open>concordpack.rs\<close>), a domain string and a hash. A statement's root is that of the tree over its operations,
  32 zero bytes when there are none.
\<close>

definition pack_domain :: bytes where
  "pack_domain = map of_char ''Concordpack signed history v2'' @ [0]"

definition gateway_signs :: "Statement set \<Rightarrow> bytes \<Rightarrow> bool" where
  "gateway_signs issued message \<longleftrightarrow>
     message \<in> statement_message ` issued \<or> (\<exists>hash. length hash = 32 \<and> message = pack_domain @ hash)"

definition gateway_issues :: "(bytes \<Rightarrow> bytes) \<Rightarrow> (Statement \<Rightarrow> bytes list) \<Rightarrow> Statement \<Rightarrow> bool" where
  "gateway_issues sha leaves s \<longleftrightarrow> statement_ok s \<and> list_all (\<lambda>x. length x = 32) (leaves s)
     \<and> st_root s = (if leaves s = [] then replicate 32 0 else root_of sha (leaves s))"

lemma pack_is_no_statement: "pack_domain @ hash \<noteq> statement_message s"
  by (simp add: pack_domain_def statement_message_def)

text \<open>
  C22: a proof that verifies under a key that signed only the gateway's statements and archive manifests carries one of
  those statements: its state digest is the client's own, and a full audit path of a state that is not empty leads to a
  leaf of the tree the statement commits to, unless two different inputs of the hashes computed here have the same SHA-256.
\<close>

theorem verified_proof_binds:
  assumes "\<forall>x. length (sha x) = 32"
    and "\<forall>signature message. ed gatewayKey signature message = Some True \<longrightarrow> gateway_signs issued message"
    and "\<forall>s \<in> issued. gateway_issues sha leaves s"
    and "hexToBytes (pf_publicKey proof) = Some gatewayKey" and "length (utf8_bytes localDigest) < 2 ^ 16"
    and "verifyProofDocument sha ed number proof localDigest = Some v"
    and "pv_merkleOk v" and "pv_signatureOk v" and "pv_stateMatch v"
    and "number (pf_leafIndex proof) = Some idx" and "s = statement_of (pf_receipt proof)"
  shows "s \<in> issued \<and> st_digest s = utf8_bytes localDigest
    \<and> (idx < length (leaves s) \<and> length (pf_proof proof) = depth (length (leaves s)) \<and> pf_opCount proof \<noteq> ''0'' \<longrightarrow>
         hex_bytes (pf_leaf proof) = leaves s ! idx
         \<or> collision sha (tree_inputs sha (leaves s))
             (path_inputs sha (hex_bytes (pf_leaf proof)) idx (map hex_bytes (pf_proof proof))))"
proof -
  let ?r = "pf_receipt proof"
  obtain replayed message where v: "replayMerklePath sha (pf_leaf proof) idx (pf_proof proof) = Some replayed"
    "receiptMessage ?r = Some message" "replayed = to_lower (pf_root proof)" "replayed = to_lower (rc_root ?r)"
    "if pf_opCount proof = ''0'' then pf_root proof = replicate 64 (CHR ''0'') else length (pf_leaf proof) = 64"
    "\<exists>signature. ed gatewayKey signature message = Some True" "localDigest = rc_stateDigest ?r"
    using assms(4,6-10) by (auto simp: verifyProofDocument_def Let_def split: option.splits) blast
  obtain leaf path where l: "hexToBytes (pf_leaf proof) = Some leaf" "all_bytes (pf_proof proof) = Some path"
    "replayed = hex_text (replay_path sha leaf idx path)"
    using v(1) by (auto simp: replayMerklePath_def split: option.splits)
  have leaf: "leaf = hex_bytes (pf_leaf proof)" using l(1) by (simp add: hexToBytes_def split: if_splits)
  have path: "path = map hex_bytes (pf_proof proof)" by (rule all_bytes_hex [OF l(2)])
  have root: "st_root s = replay_path sha leaf idx path"
  proof -
    have "st_root s = hex_bytes (to_lower (rc_root ?r))" by (simp add: assms(11) statement_of_def hex_bytes_lower)
    also have "\<dots> = hex_bytes (hex_text (replay_path sha leaf idx path))" by (simp only: v(4) [symmetric] l(3))
    finally show ?thesis by (simp only: hex_bytes_text)
  qed
  have "length (replay_path sha leaf idx path) = 32"
  proof (cases "pf_opCount proof = ''0''")
    case True
    then have "length replayed = 64" using v(3,5) by (simp add: length_to_lower)
    then show ?thesis using l(3) by (simp add: length_hex_text)
  next
    case False
    then have "length leaf = 32" using v(5) by (simp add: leaf length_hex_bytes)
    then show ?thesis using assms(1) by (intro replay_length) simp_all
  qed
  then have ok: "statement_ok s"
    using receipt_statement [OF v(2)] root assms(5) v(7) u64_of_less
    by (simp add: statement_ok_def assms(11)) (simp add: statement_of_def)
  have "gateway_signs issued message" using assms(2) v(6) by blast
  then obtain t where t: "t \<in> issued" "statement_message s = statement_message t"
    using receipt_statement(1) [OF v(2)] assms(11) pack_is_no_statement by (auto simp: gateway_signs_def dest: sym)
  then have "s = t" using statement_message_inject [OF ok] assms(3) by (auto simp: gateway_issues_def)
  then have issued: "s \<in> issued" using t(1) by simp
  have "hex_bytes (pf_leaf proof) = leaves s ! idx
      \<or> collision sha (tree_inputs sha (leaves s)) (path_inputs sha (hex_bytes (pf_leaf proof)) idx (map hex_bytes (pf_proof proof)))"
    if "idx < length (leaves s)" "length (pf_proof proof) = depth (length (leaves s))" "pf_opCount proof \<noteq> ''0''"
  proof (rule path_binds)
    show "length (sha x) = 32" for x using assms(1) by blast
    show "list_all (\<lambda>x. length x = 32) (leaves s)" using assms(3) issued by (auto simp: gateway_issues_def)
    show "length (hex_bytes (pf_leaf proof)) = 32" using that(3) v(5) by (simp add: length_hex_bytes)
    show "length (map hex_bytes (pf_proof proof)) = depth (length (leaves s))" using that(2) by simp
    show "replay_path sha (hex_bytes (pf_leaf proof)) idx (map hex_bytes (pf_proof proof)) = root_of sha (leaves s)"
    proof -
      have "leaves s \<noteq> []" using that(1) by auto
      then have "st_root s = root_of sha (leaves s)" using assms(3) issued by (auto simp: gateway_issues_def)
      then show ?thesis using root leaf path by simp
    qed
  qed (rule that(1))
  then show ?thesis using issued v(7) by (simp add: assms(11) statement_of_def)
qed

lemma hexToBytes_text: "hexToBytes (hex_text bs) = Some bs"
proof -
  have "list_all (\<lambda>c. radix_digit 16 c \<noteq> None) (hex2 (unat b))" for b :: byte
  proof -
    have "unat b div 16 < 16" using unat_byte_bound [of b] by linarith
    then show ?thesis by (simp add: hex2_def)
  qed
  then have "list_all (\<lambda>c. radix_digit 16 c \<noteq> None) (hex_text bs)"
    by (induction bs) (simp_all add: hex_text_def)
  then show ?thesis by (simp add: hexToBytes_def length_hex_text hex_bytes_text)
qed

lemma all_bytes_text: "all_bytes (map hex_text bs) = Some bs"
  by (induction bs) (simp_all add: hexToBytes_text)

text \<open>
  The audit path of any operation of a document leads from its leaf to the root of the tree: a proof the gateway
  builds for one of its leaves passes the client's Merkle check.
\<close>

theorem audit_path_verifies:
  assumes "idx < length leaves"
  shows "replayMerklePath sha (bytesToHex (leaves ! idx)) idx (map bytesToHex (audit_path sha leaves idx))
    = Some (operationRoot sha leaves)"
  using audit_path_replays [OF assms, of sha] assms
  by (auto simp: replayMerklePath_def hexToBytes_text all_bytes_text operationRoot_def)

text \<open>A receipt's numbers are signed modulo \<open>2 ^ 64\<close> but shown as the strings they came as.\<close>

lemma receipt_seq_wraps:
  "receiptMessage (r\<lparr>rc_seq := show_nat (n + 2 ^ 64)\<rparr>) = receiptMessage (r\<lparr>rc_seq := show_nat n\<rparr>)"
proof -
  have "(int n + 18446744073709551616) mod 18446744073709551616 = int n mod 18446744073709551616" by simp
  then have "u64be (show_nat (n + 2 ^ 64)) = u64be (show_nat n)" by (simp add: u64be_def)
  then show ?thesis by (simp add: receiptMessage_def Let_def cong: option.case_cong)
qed

section \<open>Witnesses\<close>

definition sample_receipt :: Receipt where
  "sample_receipt =
     \<lparr>rc_documentId = ''00000000-0000-0000-0000-000000000000'', rc_seq = ''1'', rc_root = replicate 64 (CHR ''0''),
      rc_stateDigest = ''s'', rc_opCount = ''1'', rc_issuedAtMs = ''0'', rc_keyId = ''k'',
      rc_signature = replicate 86 (CHR ''A'')\<rparr>"

definition sample_proof :: ProofDocument where
  "sample_proof =
     \<lparr>pf_documentId = ''00000000-0000-0000-0000-000000000000'', pf_seq = ''1'', pf_baseSeq = ''1'', pf_opCount = ''1'',
      pf_leafIndex = ''0'', pf_leaf = replicate 64 (CHR ''0''), pf_proof = [], pf_root = replicate 64 (CHR ''0''),
      pf_stateDigest = ''s'', pf_publicKey = replicate 64 (CHR ''0''), pf_keyEphemeral = False,
      pf_receipt = sample_receipt\<rparr>"

lemma sample_proof_fields:
  "pf_leaf sample_proof = replicate 64 (CHR ''0'')" "pf_proof sample_proof = []" "pf_opCount sample_proof = ''1''"
  "pf_root sample_proof = replicate 64 (CHR ''0'')" "pf_publicKey sample_proof = replicate 64 (CHR ''0'')"
  "pf_receipt sample_proof = sample_receipt" "pf_keyEphemeral sample_proof = False"
  "rc_root sample_receipt = replicate 64 (CHR ''0'')" "rc_stateDigest sample_receipt = ''s''"
  "rc_keyId sample_receipt = ''k''" "rc_seq sample_receipt = ''1''" "rc_opCount sample_receipt = ''1''"
  "rc_signature sample_receipt = replicate 86 (CHR ''A'')"
  by (simp_all add: sample_proof_def sample_receipt_def)

definition zero_sha :: "bytes \<Rightarrow> bytes" where
  "zero_sha x = replicate 32 0"

definition sample_ed :: "bytes \<Rightarrow> bytes \<Rightarrow> bytes \<Rightarrow> bool option" where
  "sample_ed key signature message = Some (message = statement_message (statement_of sample_receipt))"

theorem verified_proof_binds_witness:
  "\<exists>v. verifyProofDocument zero_sha sample_ed (\<lambda>s. Some 0) sample_proof ''s'' = Some v
     \<and> pv_merkleOk v \<and> pv_signatureOk v \<and> pv_stateMatch v
     \<and> st_digest (statement_of sample_receipt) = utf8_bytes ''s''"
proof -
  have zero: "hexToBytes (replicate 64 (CHR ''0'')) = Some (replicate 32 0)"
    "hex_text (replicate 32 0) = replicate 64 (CHR ''0'')" "to_lower (replicate 64 (CHR ''0'')) = replicate 64 (CHR ''0'')"
    by code_simp+
  have "hexToBytes (filter (\<lambda>c. c \<noteq> CHR ''-'') (rc_documentId sample_receipt)) = Some (replicate 16 0)" by code_simp
  moreover have "js_BigInt ''1'' = Some 1" "js_BigInt ''0'' = Some 0" by code_simp+
  ultimately have "receiptMessage sample_receipt \<noteq> None"
    by (simp add: receiptMessage_def uuidToBytes_def u64be_def sample_proof_fields zero utf8_bytes_def utf8_char_def)
      (simp add: sample_receipt_def Let_def utf8_bytes_def utf8_char_def)
  then obtain m where m: "receiptMessage sample_receipt = Some m" by blast
  then have m': "m = statement_message (statement_of sample_receipt)" by (rule receipt_statement)
  have sig: "base64StdDecode (replicate 86 (CHR ''A'')) = Some (replicate 64 0)" by code_simp
  have replay: "replayMerklePath zero_sha (replicate 64 (CHR ''0'')) 0 [] = Some (replicate 64 (CHR ''0''))"
    by (simp only: replayMerklePath_def zero all_bytes.simps prod.case option.case replay_path.simps)
  define v where "v = \<lparr>pv_merkleOk = True, pv_signatureOk = True, pv_stateMatch = True, pv_keyId = ''k'',
    pv_keyEphemeral = False, pv_seq = ''1'', pv_opCount = ''1''\<rparr>"
  have v: "verifyProofDocument zero_sha sample_ed (\<lambda>s. Some 0) sample_proof ''s'' = Some v"
    by (simp add: verifyProofDocument_def sample_proof_fields replay zero m sig sample_ed_def m' v_def)
  have root: "st_root (statement_of sample_receipt) = replicate 32 0"
    using zero(1) by (simp add: statement_of_def sample_proof_fields hexToBytes_def split: if_splits)
  have "statement_ok (statement_of sample_receipt)"
    unfolding statement_ok_def root using receipt_statement(2,3) [OF m] u64_of_less
    by (simp add: statement_of_def sample_proof_fields utf8_bytes_def utf8_char_def)
  moreover have "st_root (statement_of sample_receipt) = root_of zero_sha [replicate 32 0]"
    by (simp add: root root_of.simps)
  ultimately have good: "\<forall>s \<in> {statement_of sample_receipt}. gateway_issues zero_sha (\<lambda>s. [replicate 32 0]) s"
    by (simp add: gateway_issues_def)
  have "statement_of sample_receipt \<in> {statement_of sample_receipt} \<and> st_digest (statement_of sample_receipt) = utf8_bytes ''s''"
  proof -
    have 1: "\<forall>x. length (zero_sha x) = 32" by (simp add: zero_sha_def)
    have 2: "\<forall>signature message. sample_ed (replicate 32 0) signature message = Some True
        \<longrightarrow> gateway_signs {statement_of sample_receipt} message"
      by (simp add: sample_ed_def gateway_signs_def)
    have 3: "hexToBytes (pf_publicKey sample_proof) = Some (replicate 32 0)" by (simp add: sample_proof_fields zero)
    have 4: "length (utf8_bytes ''s'') < 2 ^ 16" by (simp add: utf8_bytes_def utf8_char_def)
    have 5: "pv_merkleOk v" "pv_signatureOk v" "pv_stateMatch v" by (simp_all add: v_def)
    have 6: "statement_of sample_receipt = statement_of (pf_receipt sample_proof)" by (simp add: sample_proof_fields)
    from verified_proof_binds [OF 1 2 good 3 4 v 5 refl 6] show ?thesis by blast
  qed
  then show ?thesis using v by (auto simp: v_def)
qed

theorem audit_path_verifies_witness:
  "replayMerklePath (\<lambda>x. rev x) (bytesToHex [2]) 1 (map bytesToHex (audit_path (\<lambda>x. rev x) [[1], [2], [3]] 1))
    = Some (operationRoot (\<lambda>x. rev x) [[1], [2], [3]])"
  using audit_path_verifies [of 1 "[[1], [2], [3]]" "\<lambda>x. rev x"] by simp

end
