(* ===== verification/Adapter.thy ===== *)
theory Adapter
  imports Worker_Core
begin

text \<open>
  The editor adapter, \<^verbatim>\<open>src/lib/crdt/adapter.ts\<close>: it compares the canonical blocks of two editor
  documents and emits the CRDT operations that take the first to the second, in positions of the
  stream (tombstones included) as the worker's \<open>reconcile\<close> request expects them. A scalar is the
  one code point of its string; the objects of attributes and marks are association lists in
  insertion order. The projection of a stream to blocks is the engine's
  (\<^verbatim>\<open>cpp/crdt/src/doc.cpp\<close>, \<open>visible_document\<close>).
\<close>

section \<open>Canonical blocks\<close>

record CanonicalChar =
  ch_scalar :: nat
  ch_marks :: "(string \<times> string) list"

record CanonicalBlock =
  bl_type :: string
  bl_attrs :: "(string \<times> string) list"
  bl_chars :: "CanonicalChar list"

definition paragraph_block :: CanonicalBlock where
  "paragraph_block = \<lparr>bl_type = ''paragraph'', bl_attrs = [], bl_chars = []\<rparr>"

definition visible_block :: "StreamEntry \<Rightarrow> CanonicalBlock" where
  "visible_block e =
     \<lparr>bl_type = get_or ''paragraph'' (map_of (se_a e) ''type''),
      bl_attrs = filter (\<lambda>(k, v). k \<noteq> ''type'') (se_a e), bl_chars = []\<rparr>"

definition visible_char :: "StreamEntry \<Rightarrow> CanonicalChar" where
  "visible_char e = \<lparr>ch_scalar = hd (se_s e), ch_marks = se_a e\<rparr>"

definition visible_step :: "CanonicalBlock list \<Rightarrow> StreamEntry \<Rightarrow> CanonicalBlock list" where
  "visible_step blocks e =
     (if se_t e then blocks
      else if se_k e = ''delim'' then blocks @ [visible_block e]
      else
        let bs = (if blocks = [] then [paragraph_block] else blocks)
        in butlast bs @ [(last bs)\<lparr>bl_chars := bl_chars (last bs) @ [visible_char e]\<rparr>])"

definition visible_document :: "StreamEntry list \<Rightarrow> CanonicalBlock list" where
  "visible_document stream =
     (let blocks = foldl visible_step [] stream in if blocks = [] then [paragraph_block] else blocks)"

section \<open>The live index\<close>

text \<open>
  \<open>streamToLive\<close> has \<open>None\<close> for -1. An entry of \<open>blockStarts\<close> is \<open>None\<close> for null; an index beyond
  the array is undefined, which \<open>start_at\<close> tells apart.
\<close>

record LiveIndex =
  liveToStream :: "nat list"
  streamToLive :: "nat option list"
  blockStarts :: "nat option list"

definition live_step :: "LiveIndex \<Rightarrow> nat \<times> StreamEntry \<Rightarrow> LiveIndex" where
  "live_step l ie =
     (case ie of (i, e) \<Rightarrow>
        if se_t e then l\<lparr>streamToLive := streamToLive l @ [None]\<rparr>
        else
          let l' = l\<lparr>streamToLive := streamToLive l @ [Some (length (liveToStream l))],
                    liveToStream := liveToStream l @ [i]\<rparr>
          in if se_k e \<noteq> ''delim'' then l'
             else if length (liveToStream l') = 1 then l'\<lparr>blockStarts := (blockStarts l')[0 := Some i]\<rparr>
             else l'\<lparr>blockStarts := blockStarts l' @ [Some i]\<rparr>)"

definition buildLiveIndex :: "StreamEntry list \<Rightarrow> LiveIndex" where
  "buildLiveIndex stream =
     foldl live_step \<lparr>liveToStream = [], streamToLive = [], blockStarts = [None]\<rparr> (enumerate 0 stream)"

definition start_at :: "LiveIndex \<Rightarrow> nat \<Rightarrow> nat option option" where
  "start_at live b = (if b < length (blockStarts live) then Some (blockStarts live ! b) else None)"

definition is_live :: "LiveIndex \<Rightarrow> nat \<Rightarrow> bool" where
  "is_live live i \<longleftrightarrow> i < length (streamToLive live) \<and> streamToLive live ! i \<noteq> None"

definition firstLiveOfBlock :: "LiveIndex \<Rightarrow> nat \<Rightarrow> nat" where
  "firstLiveOfBlock live b =
     (case start_at live b of
        None \<Rightarrow> if b > 0 then length (streamToLive live) else 0
      | Some None \<Rightarrow> 0
      | Some (Some start) \<Rightarrow>
          if is_live live start then start
          else get_or (length (streamToLive live))
                 (List.find (is_live live) [start + 1..<length (streamToLive live)]))"

definition blockAttrAnchor :: "LiveIndex \<Rightarrow> nat \<Rightarrow> nat" where
  "blockAttrAnchor live b =
     (case start_at live b of
        Some (Some start) \<Rightarrow> if is_live live start then start else firstLiveOfBlock live b
      | _ \<Rightarrow> firstLiveOfBlock live b)"

definition endOfBlock :: "LiveIndex \<Rightarrow> nat \<Rightarrow> nat option" where
  "endOfBlock live b = get_or None (start_at live (b + 1))"

definition content_start :: "LiveIndex \<Rightarrow> nat \<Rightarrow> nat" where
  "content_start live b =
     (case start_at live b of
        Some (Some start) \<Rightarrow> if is_live live start then start + 1 else firstLiveOfBlock live b
      | _ \<Rightarrow> firstLiveOfBlock live b)"

definition blockLiveStreamIndices :: "LiveIndex \<Rightarrow> nat \<Rightarrow> nat list" where
  "blockLiveStreamIndices live b =
     filter (is_live live)
       [content_start live b..<get_or (length (streamToLive live)) (endOfBlock live b)]"

section \<open>Operations\<close>

definition insertText_op :: "nat \<Rightarrow> nat \<Rightarrow> SeedOperation" where
  "insertText_op i codepoint =
     \<lparr>so_kind = InsertText, so_streamIndex = i, so_codepoint = Some codepoint, so_blockType = None,
      so_name = None, so_value = None\<rparr>"

definition insertDelimiter_op :: "nat \<Rightarrow> string \<Rightarrow> SeedOperation" where
  "insertDelimiter_op i blockType =
     \<lparr>so_kind = InsertDelimiter, so_streamIndex = i, so_codepoint = None, so_blockType = Some blockType,
      so_name = None, so_value = None\<rparr>"

definition delete_op :: "nat \<Rightarrow> SeedOperation" where
  "delete_op i =
     \<lparr>so_kind = Delete, so_streamIndex = i, so_codepoint = None, so_blockType = None,
      so_name = None, so_value = None\<rparr>"

definition setAttr_op :: "nat \<Rightarrow> string \<Rightarrow> string option \<Rightarrow> SeedOperation" where
  "setAttr_op i name value =
     \<lparr>so_kind = SetAttr, so_streamIndex = i, so_codepoint = None, so_blockType = None,
      so_name = Some name, so_value = value\<rparr>"

text \<open>The operations emitted so far and the shift of the batch.\<close>

type_synonym batch = "SeedOperation list \<times> nat"

definition push :: "SeedOperation list \<Rightarrow> batch \<Rightarrow> batch" where
  "push os st = (fst st @ os, snd st)"

definition shift_by :: "nat \<Rightarrow> batch \<Rightarrow> batch" where
  "shift_by k st = (fst st, snd st + k)"

text \<open>The elements of a JavaScript set in insertion order.\<close>

definition js_set :: "'a list \<Rightarrow> 'a list" where
  "js_set xs = rev (remdups (rev xs))"

definition block_value :: "CanonicalBlock \<Rightarrow> string \<Rightarrow> string option" where
  "block_value b name = (if name = ''type'' then Some (bl_type b) else map_of (bl_attrs b) name)"

definition changed_attrs :: "CanonicalBlock \<Rightarrow> CanonicalBlock \<Rightarrow> string list" where
  "changed_attrs beforeBlock afterBlock =
     filter (\<lambda>name. block_value beforeBlock name \<noteq> block_value afterBlock name)
       (js_set (''type'' # map fst (bl_attrs beforeBlock) @ map fst (bl_attrs afterBlock)))"

definition scalars :: "CanonicalBlock \<Rightarrow> nat list" where
  "scalars b = map ch_scalar (bl_chars b)"

definition reconcileBlockAttrs ::
  "LiveIndex \<Rightarrow> CanonicalBlock \<Rightarrow> CanonicalBlock \<Rightarrow> nat \<Rightarrow> batch \<Rightarrow> batch" where
  "reconcileBlockAttrs live beforeBlock afterBlock b st =
     (let changed = changed_attrs beforeBlock afterBlock;
          anchor = blockAttrAnchor live b + snd st;
          newTrailingText = (b > 0 \<and> start_at live b = None \<and> scalars beforeBlock \<noteq> scalars afterBlock);
          missing = (get_or None (start_at live b) = None);
          st1 = (if (changed \<noteq> [] \<or> newTrailingText) \<and> missing
                 then shift_by 1 (push [insertDelimiter_op anchor (bl_type afterBlock)] st) else st)
      in push (map (\<lambda>name. setAttr_op anchor name (block_value afterBlock name)) changed) st1)"

fun common_prefix :: "('a \<Rightarrow> 'b \<Rightarrow> bool) \<Rightarrow> 'a list \<Rightarrow> 'b list \<Rightarrow> nat" where
  "common_prefix eq (x # xs) (y # ys) = (if eq x y then Suc (common_prefix eq xs ys) else 0)"
| "common_prefix eq _ _ = 0"

text \<open>The loop from the ends, which stops at the first \<open>p\<close> elements.\<close>

definition common_suffix :: "('a \<Rightarrow> 'b \<Rightarrow> bool) \<Rightarrow> nat \<Rightarrow> 'a list \<Rightarrow> 'b list \<Rightarrow> nat" where
  "common_suffix eq p xs ys = common_prefix eq (rev (drop p xs)) (rev (drop p ys))"

definition same_scalar :: "CanonicalChar \<Rightarrow> CanonicalChar \<Rightarrow> bool" where
  "same_scalar x y \<longleftrightarrow> ch_scalar x = ch_scalar y"

text \<open>
  \<open>writeMarks\<close>. An index that the code reads beyond \<open>liveIndices\<close> is NaN, where the stream has no
  entry; here it is the length of the stream.
\<close>

definition mark_ops :: "nat \<Rightarrow> CanonicalChar \<Rightarrow> CanonicalChar \<Rightarrow> SeedOperation list" where
  "mark_ops i x y =
     map (\<lambda>name. setAttr_op i name (map_of (ch_marks y) name))
       (filter (\<lambda>name. map_of (ch_marks x) name \<noteq> map_of (ch_marks y) name)
         (js_set (map fst (ch_marks x) @ map fst (ch_marks y))))"

definition writeMarks ::
  "LiveIndex \<Rightarrow> nat list \<Rightarrow> CanonicalChar list \<Rightarrow> CanonicalChar list \<Rightarrow> nat \<Rightarrow> nat \<Rightarrow> batch \<Rightarrow> batch" where
  "writeMarks live liveIndices bc ac beforeIndex afterIndex st =
     push (mark_ops ((if beforeIndex < length liveIndices then liveIndices ! beforeIndex
                      else length (streamToLive live)) + snd st) (bc ! beforeIndex) (ac ! afterIndex)) st"

definition insert_char :: "nat \<Rightarrow> CanonicalChar \<Rightarrow> SeedOperation list" where
  "insert_char cursor ch =
     insertText_op cursor (ch_scalar ch)
       # map (\<lambda>(name, value). setAttr_op cursor name (Some value)) (ch_marks ch)"

fun insert_chars :: "nat \<Rightarrow> CanonicalChar list \<Rightarrow> batch \<Rightarrow> batch" where
  "insert_chars cursor [] st = st"
| "insert_chars cursor (ch # chs) st =
     insert_chars (cursor + 1) chs (shift_by 1 (push (insert_char cursor ch) st))"

definition reconcileBlockChars ::
  "LiveIndex \<Rightarrow> CanonicalBlock \<Rightarrow> CanonicalBlock \<Rightarrow> nat \<Rightarrow> batch \<Rightarrow> batch" where
  "reconcileBlockChars live beforeBlock afterBlock b st =
     (let bc = bl_chars beforeBlock;
          ac = bl_chars afterBlock;
          p = common_prefix same_scalar bc ac;
          s = common_suffix same_scalar p bc ac;
          liveIndices = blockLiveStreamIndices live b;
          st1 = fold (\<lambda>c. writeMarks live liveIndices bc ac c c) [0..<p] st;
          st2 = push (map (\<lambda>c. delete_op (liveIndices ! c + snd st1))
                  (filter (\<lambda>c. c < length liveIndices) (rev [p..<length bc - s]))) st1;
          cursor = (if p < length liveIndices then liveIndices ! p + snd st2
                    else if liveIndices \<noteq> [] then last liveIndices + 1 + snd st2
                    else content_start live b + snd st2);
          st3 = insert_chars cursor (take (length ac - s - p) (drop p ac)) st2
      in fold (\<lambda>c. writeMarks live liveIndices bc ac (length bc - s + c) (length ac - s + c)) [0..<s] st3)"

definition insertWholeBlock :: "CanonicalBlock \<Rightarrow> nat \<Rightarrow> batch \<Rightarrow> batch \<times> nat" where
  "insertWholeBlock block cursor st =
     (let st1 = shift_by 1 (push [insertDelimiter_op cursor (bl_type block)] st);
          st2 = insert_chars (cursor + 1) (bl_chars block) st1;
          st3 = push (map (\<lambda>(name, value). setAttr_op cursor name (Some value))
                  (filter (\<lambda>(name, value). name \<noteq> ''type'') (bl_attrs block))) st2
      in (st3, cursor + 1 + length (bl_chars block)))"

section \<open>The diff\<close>

definition block_eq :: "CanonicalBlock \<Rightarrow> CanonicalBlock \<Rightarrow> bool" where
  "block_eq x y \<longleftrightarrow> list_all2 same_scalar (bl_chars x) (bl_chars y)"

definition reconcile_block ::
  "LiveIndex \<Rightarrow> CanonicalBlock list \<Rightarrow> CanonicalBlock list \<Rightarrow> nat \<Rightarrow> nat \<Rightarrow> batch \<Rightarrow> batch" where
  "reconcile_block live before after i j st =
     reconcileBlockChars live (before ! i) (after ! j) i
       (reconcileBlockAttrs live (before ! i) (after ! j) i st)"

definition remove_block :: "LiveIndex \<Rightarrow> nat \<Rightarrow> batch \<Rightarrow> batch" where
  "remove_block live b st =
     (let from = get_or 0 (get_or None (start_at live b));
          to = get_or (length (streamToLive live)) (endOfBlock live b)
      in push (map (\<lambda>i. delete_op (i + snd st)) (filter (is_live live) (rev [from..<to]))) st)"

fun add_blocks :: "CanonicalBlock list \<Rightarrow> nat \<Rightarrow> batch \<Rightarrow> batch" where
  "add_blocks [] cursor st = st"
| "add_blocks (block # blocks) cursor st =
     (case insertWholeBlock block cursor st of (st', cursor') \<Rightarrow> add_blocks blocks cursor' st')"

definition matched_prefix :: "CanonicalBlock list \<Rightarrow> CanonicalBlock list \<Rightarrow> nat" where
  "matched_prefix before after = common_prefix block_eq before after"

definition matched_suffix :: "CanonicalBlock list \<Rightarrow> CanonicalBlock list \<Rightarrow> nat" where
  "matched_suffix before after = common_suffix block_eq (matched_prefix before after) before after"

definition reconcile ::
  "CanonicalBlock list \<Rightarrow> CanonicalBlock list \<Rightarrow> StreamEntry list \<Rightarrow> SeedOperation list" where
  "reconcile before after stream =
     (let live = buildLiveIndex stream;
          prefix = matched_prefix before after;
          suffix = matched_suffix before after;
          paired = min (length before - prefix - suffix) (length after - prefix - suffix);
          st1 = fold (\<lambda>b. reconcile_block live before after b b) [0..<prefix + paired] ([], 0);
          st2 = fold (remove_block live) (rev [prefix + paired..<length before - suffix]) st1;
          cursor = (if suffix > 0 then firstLiveOfBlock live (length before - suffix)
                    else length (streamToLive live)) + snd st2;
          st3 = add_blocks (take (length after - suffix - (prefix + paired)) (drop (prefix + paired) after))
                  cursor st2;
          st4 = fold (\<lambda>s. reconcile_block live before after (length before - suffix + s)
                  (length after - suffix + s)) [0..<suffix] st3
      in fst st4)"

section \<open>Applying to an engine\<close>

text \<open>\<open>applyReconcileOpsSync\<close>; \<open>None\<close> when the engine threw.\<close>

fun applyReconcileOpsSync ::
  "('e, 'x) EnginePort_scheme \<Rightarrow> SeedOperation list \<Rightarrow> 'e \<Rightarrow> 'e \<times> bytes list option" where
  "applyReconcileOpsSync eng [] e = (e, Some [])"
| "applyReconcileOpsSync eng (op # ops) e =
     (case generate_op eng op (so_streamIndex op) e of
        (e', None) \<Rightarrow> (e', None)
      | (e', Some produced) \<Rightarrow>
          (case applyReconcileOpsSync eng ops e' of
             (e'', None) \<Rightarrow> (e'', None)
           | (e'', Some serialized) \<Rightarrow>
               (e'', Some ((case produced of None \<Rightarrow> [] | Some b \<Rightarrow> [b]) @ serialized))))"

end
