(* ===== verification/Adapter_Steps.thy ===== *)
theory Adapter_Steps
  imports Adapter
begin

text \<open>
  The operations that \<open>reconcile\<close> emits for one block: carried out on the view stream that the worker
  keeps, they change only the block's own entries, and these then show the new block.
\<close>

section \<open>Operations on the view stream\<close>

text \<open>What the worker's loop does to its base stream for one operation.\<close>

definition view_op :: "OpIdentity \<Rightarrow> SeedOperation \<Rightarrow> StreamEntry list \<Rightarrow> StreamEntry list" where
  "view_op i x b =
     (if is_insert (so_kind x) then splice_in (so_streamIndex x) (entry_of x i) b
      else b[so_streamIndex x := edit_target x (b ! so_streamIndex x)])"

definition no_identity :: OpIdentity where
  "no_identity = \<lparr>oi_replicaId = 0, oi_counter = 0, oi_lamport = 0\<rparr>"

definition run_ops :: "SeedOperation list \<Rightarrow> StreamEntry list \<Rightarrow> StreamEntry list" where
  "run_ops os b = foldl (\<lambda>b x. view_op no_identity x b) b os"

lemma run_ops_Nil [simp]: "run_ops [] b = b"
  by (simp add: run_ops_def)

lemma run_ops_Cons [simp]: "run_ops (x # os) b = run_ops os (view_op no_identity x b)"
  by (simp add: run_ops_def)

lemma run_ops_append [simp]: "run_ops (os @ ps) b = run_ops ps (run_ops os b)"
  by (simp add: run_ops_def)

text \<open>The stream after the operations of a batch.\<close>

definition cur :: "StreamEntry list \<Rightarrow> batch \<Rightarrow> StreamEntry list" where
  "cur S st = run_ops (fst st) S"

lemma cur_push [simp]: "cur S (push os st) = run_ops os (cur S st)"
  and cur_shift [simp]: "cur S (shift_by k st) = cur S st"
  and snd_push [simp]: "snd (push os st) = snd st"
  and snd_shift [simp]: "snd (shift_by k st) = snd st + k"
  by (simp_all add: cur_def push_def shift_by_def)

lemma view_insert_text [simp]:
  "n = length P \<Longrightarrow> view_op i (insertText_op n c) (P @ Q) = P @ entry_of (insertText_op n c) i # Q"
  by (simp add: view_op_def insertText_op_def splice_in_def is_insert_def)

lemma view_insert_delimiter [simp]:
  "n = length P \<Longrightarrow> view_op i (insertDelimiter_op n t) (P @ Q) = P @ entry_of (insertDelimiter_op n t) i # Q"
  by (simp add: view_op_def insertDelimiter_op_def splice_in_def is_insert_def)

lemma view_delete [simp]:
  "n = length P \<Longrightarrow> view_op i (delete_op n) (P @ e # Q) = P @ e\<lparr>se_t := True\<rparr> # Q"
  by (simp add: view_op_def delete_op_def is_insert_def edit_target_def)

lemma map_of_drop_key: "map_of (filter (\<lambda>(k', v). k' \<noteq> k) xs) = (map_of xs)(k := None)"
  by (induction xs) (auto simp: fun_eq_iff)

lemma map_of_obj_put: "map_of (obj_put k v xs) = (map_of xs)(k \<mapsto> v)"
  by (induction xs) (auto simp: fun_eq_iff)

lemma view_setAttr:
  assumes "n = length P"
  shows "\<exists>a. view_op i (setAttr_op n k v) (P @ e # Q) = P @ e\<lparr>se_a := a\<rparr> # Q
    \<and> map_of a = (map_of (se_a e))(k := v)"
proof (cases v)
  case None
  then show ?thesis
    using assms
    by (auto simp: view_op_def setAttr_op_def is_insert_def edit_target_def Let_def get_or_def map_of_drop_key
        intro!: exI[of _ "filter (\<lambda>(k', v). k' \<noteq> k) (se_a e)"])
next
  case (Some w)
  then show ?thesis
    using assms
    by (auto simp: view_op_def setAttr_op_def is_insert_def edit_target_def Let_def get_or_def map_of_obj_put
        intro!: exI[of _ "obj_put k w (se_a e)"])
qed

lemma run_attrs:
  assumes "n = length P"
  shows "\<exists>a. run_ops (map (\<lambda>k. setAttr_op n k (f k)) ks) (P @ e # Q) = P @ e\<lparr>se_a := a\<rparr> # Q
    \<and> (\<forall>k. map_of a k = (if k \<in> set ks then f k else map_of (se_a e) k))"
proof (induction ks arbitrary: e)
  case (Cons k ks)
  obtain a where a: "view_op no_identity (setAttr_op n k (f k)) (P @ e # Q) = P @ e\<lparr>se_a := a\<rparr> # Q"
    "map_of a = (map_of (se_a e))(k := f k)"
    using view_setAttr[OF assms] by blast
  obtain a' where "run_ops (map (\<lambda>k. setAttr_op n k (f k)) ks) (P @ e\<lparr>se_a := a\<rparr> # Q)
      = P @ e\<lparr>se_a := a\<rparr>\<lparr>se_a := a'\<rparr> # Q"
    "\<forall>k. map_of a' k = (if k \<in> set ks then f k else map_of a k)"
    using Cons.IH[of "e\<lparr>se_a := a\<rparr>"] by auto
  then show ?case using a by (intro exI[of _ a']) auto
next
  case Nil
  show ?case by (intro exI[of _ "se_a e"]) simp
qed

section \<open>Live entries\<close>

definition live :: "StreamEntry list \<Rightarrow> StreamEntry list" where
  "live xs = filter (\<lambda>e. \<not> se_t e) xs"

definition lpos :: "StreamEntry list \<Rightarrow> nat list" where
  "lpos xs = filter (\<lambda>i. \<not> se_t (xs ! i)) [0..<length xs]"

lemma live_append [simp]: "live (xs @ ys) = live xs @ live ys"
  and live_Nil [simp]: "live [] = []"
  and live_Cons [simp]: "live (e # xs) = (if se_t e then live xs else e # live xs)"
  by (simp_all add: live_def)

lemma lpos_Nil [simp]: "lpos [] = []"
  by (simp add: lpos_def)

lemma lpos_append: "lpos (xs @ ys) = lpos xs @ map ((+) (length xs)) (lpos ys)"
proof -
  have "[length xs..<length xs + length ys] = map ((+) (length xs)) [0..<length ys]"
    by (rule nth_equalityI) simp_all
  moreover have "filter (\<lambda>i. \<not> se_t ((xs @ ys) ! i)) [0..<length xs] = lpos xs"
    unfolding lpos_def by (rule filter_cong) (simp_all add: nth_append)
  ultimately show ?thesis
    by (simp add: lpos_def upt_add_eq_append[of 0] filter_map comp_def)
qed

lemma lpos_Cons: "lpos (e # xs) = (if se_t e then [] else [0]) @ map Suc (lpos xs)"
  using lpos_append[of "[e]" xs] by (simp add: lpos_def)

lemma length_lpos [simp]: "length (lpos xs) = length (live xs)"
  by (induction xs) (simp_all add: lpos_Cons)

text \<open>Where the code cuts a block's content: before its \<open>k\<close>-th live entry, or right after the last one.\<close>

definition cut_at :: "nat list \<Rightarrow> nat \<Rightarrow> nat" where
  "cut_at ps k = (if k < length ps then ps ! k else if ps \<noteq> [] then last ps + 1 else 0)"

lemma split_live:
  assumes "k \<le> length (live xs)"
  shows "\<exists>X Y. xs = X @ Y \<and> length (live X) = k \<and> length X = cut_at (lpos xs) k"
  using assms
proof (induction xs arbitrary: k)
  case Nil
  then show ?case by (simp add: cut_at_def)
next
  case (Cons e xs)
  show ?case
  proof (cases "k = 0 \<and> \<not> se_t e")
    case True
    then show ?thesis by (intro exI[of _ "[]"] exI[of _ "e # xs"]) (simp add: cut_at_def lpos_Cons)
  next
    case no0: False
    define k' where "k' = (if se_t e then k else k - 1)"
    have "k' \<le> length (live xs)" using Cons.prems by (auto simp: k'_def)
    from Cons.IH[OF this] obtain X Y where XY: "xs = X @ Y" "length (live X) = k'" "length X = cut_at (lpos xs) k'"
      by blast
    show ?thesis
    proof (cases "live (e # xs) = []")
      case True
      then have "k = 0" "se_t e" using Cons.prems no0 by (auto split: if_splits)
      then show ?thesis using True
        by (intro exI[of _ "[]"] exI[of _ "e # xs"]) (auto simp: cut_at_def simp flip: length_0_conv[of "lpos _"])
    next
      case False
      have "cut_at (lpos (e # xs)) k = Suc (cut_at (lpos xs) k')"
        using False no0 Cons.prems
        by (auto simp: cut_at_def k'_def lpos_Cons nth_append last_map nth_Cons' simp flip: length_0_conv[of "lpos _"])
      then show ?thesis
        using XY no0 by (intro exI[of _ "e # X"] exI[of _ Y]) (auto simp: k'_def)
    qed
  qed
qed

section \<open>Matching\<close>

text \<open>A live entry shows a character; a delimiter, or the implicit start, shows a block's attributes.\<close>

definition char_matches :: "StreamEntry \<Rightarrow> CanonicalChar \<Rightarrow> bool" where
  "char_matches e ch \<longleftrightarrow>
     se_k e \<noteq> ''delim'' \<and> hd (se_s e) = ch_scalar ch \<and> map_of (se_a e) = map_of (ch_marks ch)"

definition same_attrs :: "(string \<times> string) list \<Rightarrow> (string \<times> string) list \<Rightarrow> bool" where
  "same_attrs xs ys \<longleftrightarrow> (\<forall>k. k \<noteq> ''type'' \<longrightarrow> map_of xs k = map_of ys k)"

definition head_matches :: "StreamEntry option \<Rightarrow> CanonicalBlock \<Rightarrow> bool" where
  "head_matches h b \<longleftrightarrow>
     (case h of
        None \<Rightarrow> bl_type b = ''paragraph'' \<and> same_attrs [] (bl_attrs b)
      | Some d \<Rightarrow> \<not> se_t d \<and> se_k d = ''delim'' \<and> get_or ''paragraph'' (map_of (se_a d) ''type'') = bl_type b
          \<and> same_attrs (se_a d) (bl_attrs b))"

abbreviation shows_chars :: "StreamEntry list \<Rightarrow> CanonicalChar list \<Rightarrow> bool" where
  "shows_chars B cs \<equiv> list_all2 char_matches (live B) cs"

lemma set_js_set [simp]: "set (js_set xs) = set xs"
  by (simp add: js_set_def)

section \<open>One block's characters\<close>

lemma run_mark:
  assumes "n = length P" and "char_matches e x" and "same_scalar x y"
  shows "\<exists>e'. run_ops (mark_ops n x y) (P @ e # Q) = P @ e' # Q \<and> se_t e' = se_t e \<and> char_matches e' y"
proof -
  let ?ks = "filter (\<lambda>k. map_of (ch_marks x) k \<noteq> map_of (ch_marks y) k)
    (js_set (map fst (ch_marks x) @ map fst (ch_marks y)))"
  obtain a where a: "run_ops (mark_ops n x y) (P @ e # Q) = P @ e\<lparr>se_a := a\<rparr> # Q"
    "\<forall>k. map_of a k = (if k \<in> set ?ks then map_of (ch_marks y) k else map_of (se_a e) k)"
    using run_attrs[OF assms(1), of "map_of (ch_marks y)" ?ks e Q] by (auto simp: mark_ops_def)
  have "map_of a k = map_of (ch_marks y) k" for k
  proof (cases "k \<in> set (map fst (ch_marks x) @ map fst (ch_marks y))")
    case True
    then show ?thesis using a(2) assms(2) by (auto simp: char_matches_def)
  next
    case False
    then have "map_of (ch_marks x) k = None" "map_of (ch_marks y) k = None"
      by (simp_all add: map_of_eq_None_iff)
    then show ?thesis using a(2) assms(2) by (simp add: char_matches_def)
  qed
  then have "map_of a = map_of (ch_marks y)" by blast
  then show ?thesis using a(1) assms(2,3) by (auto simp: char_matches_def same_scalar_def)
qed

lemma run_marks:
  assumes "shows_chars B xs" and "list_all2 same_scalar xs ys"
  shows "\<exists>B'. run_ops (concat (map (\<lambda>c. mark_ops (length P + lpos B ! c) (xs ! c) (ys ! c)) [0..<length xs])) (P @ B @ Q)
      = P @ B' @ Q \<and> length B' = length B \<and> shows_chars B' ys"
  using assms
proof (induction B arbitrary: P xs ys)
  case (Cons e B)
  show ?case
  proof (cases "se_t e")
    case True
    then have B: "shows_chars B xs" using Cons.prems(1) by simp
    have eq: "map (\<lambda>c. mark_ops (length P + lpos (e # B) ! c) (xs ! c) (ys ! c)) [0..<length xs]
        = map (\<lambda>c. mark_ops (length (P @ [e]) + lpos B ! c) (xs ! c) (ys ! c)) [0..<length xs]"
      using True list_all2_lengthD[OF B] by (simp add: lpos_Cons)
    obtain B' where B': "run_ops (concat (map (\<lambda>c. mark_ops (length (P @ [e]) + lpos B ! c) (xs ! c) (ys ! c)) [0..<length xs]))
        ((P @ [e]) @ B @ Q) = (P @ [e]) @ B' @ Q" "length B' = length B" "shows_chars B' ys"
      using Cons.IH[OF B Cons.prems(2), of "P @ [e]"] by blast
    have "run_ops (concat (map (\<lambda>c. mark_ops (length P + lpos (e # B) ! c) (xs ! c) (ys ! c)) [0..<length xs]))
        (P @ (e # B) @ Q) = P @ (e # B') @ Q"
      unfolding eq using B'(1) by simp
    then show ?thesis using B' True by (intro exI[of _ "e # B'"]) simp
  next
    case False
    then obtain x xs' where xs: "xs = x # xs'" "char_matches e x" "shows_chars B xs'"
      using Cons.prems(1) by (auto simp: list_all2_Cons1)
    then obtain y ys' where ys: "ys = y # ys'" "same_scalar x y" "list_all2 same_scalar xs' ys'"
      using Cons.prems(2) by (auto simp: list_all2_Cons1)
    obtain e' where e': "run_ops (mark_ops (length P) x y) (P @ e # B @ Q) = P @ e' # B @ Q"
      "se_t e' = se_t e" "char_matches e' y"
      using run_mark[OF refl xs(2) ys(2)] by blast
    have idx: "[0..<length xs] = 0 # map Suc [0..<length xs']"
      by (simp add: xs(1) upt_conv_Cons map_Suc_upt del: upt_Suc)
    obtain B' where B': "run_ops (concat (map (\<lambda>c. mark_ops (length (P @ [e']) + lpos B ! c) (xs' ! c) (ys' ! c)) [0..<length xs']))
        ((P @ [e']) @ B @ Q) = (P @ [e']) @ B' @ Q" "length B' = length B" "shows_chars B' ys'"
      using Cons.IH[OF xs(3) ys(3), of "P @ [e']"] by blast
    have eq: "map (\<lambda>c. mark_ops (length P + lpos (e # B) ! c) (xs ! c) (ys ! c)) [0..<length xs]
        = mark_ops (length P) x y
          # map (\<lambda>c. mark_ops (length (P @ [e']) + lpos B ! c) (xs' ! c) (ys' ! c)) [0..<length xs']"
      using False list_all2_lengthD[OF xs(3)] unfolding idx by (simp add: lpos_Cons xs(1) ys(1))
    have "run_ops (concat (map (\<lambda>c. mark_ops (length P + lpos (e # B) ! c) (xs ! c) (ys ! c)) [0..<length xs]))
        (P @ (e # B) @ Q) = P @ (e' # B') @ Q"
      unfolding eq using B'(1) e'(1) by simp
    then show ?thesis using B' e' False ys(1) by (intro exI[of _ "e' # B'"]) simp
  qed
qed (auto intro: exI[of _ "[]"])

lemma run_deletes:
  "run_ops (map (\<lambda>i. delete_op (length P + i)) (rev (lpos D))) (P @ D @ Q)
    = P @ map (\<lambda>e. e\<lparr>se_t := True\<rparr>) D @ Q"
proof (induction D arbitrary: Q rule: rev_induct)
  case (snoc e D)
  show ?case
  proof (cases "se_t e")
    case True
    then have "e\<lparr>se_t := True\<rparr> = e" by simp
    then show ?thesis using snoc[of "e # Q"] True by (simp add: lpos_append lpos_Cons)
  next
    case False
    have "view_op no_identity (delete_op (length P + length D)) (P @ D @ e # Q) = (P @ D) @ e\<lparr>se_t := True\<rparr> # Q"
      using view_delete[of "length P + length D" "P @ D" no_identity e Q] by simp
    then show ?thesis using snoc[of "e\<lparr>se_t := True\<rparr> # Q"] False by (simp add: lpos_append lpos_Cons)
  qed
qed simp

lemma live_deleted [simp]: "live (map (\<lambda>e. e\<lparr>se_t := True\<rparr>) D) = []"
  by (simp add: live_def)

lemma run_insert_char:
  assumes "n = length P" and "distinct (map fst (ch_marks ch))"
  shows "\<exists>e. run_ops (insert_char n ch) (P @ Q) = P @ e # Q \<and> \<not> se_t e \<and> char_matches e ch"
proof -
  let ?e = "entry_of (insertText_op n (ch_scalar ch)) no_identity"
  have ops: "map (\<lambda>(name, value). setAttr_op n name (Some value)) (ch_marks ch)
      = map (\<lambda>k. setAttr_op n k (map_of (ch_marks ch) k)) (map fst (ch_marks ch))"
    using assms(2) by (auto simp: map_of_eq_Some_iff)
  obtain a where a: "run_ops (map (\<lambda>k. setAttr_op n k (map_of (ch_marks ch) k)) (map fst (ch_marks ch))) (P @ ?e # Q)
      = P @ ?e\<lparr>se_a := a\<rparr> # Q"
    "\<forall>k. map_of a k = (if k \<in> set (map fst (ch_marks ch)) then map_of (ch_marks ch) k else map_of (se_a ?e) k)"
    using run_attrs[OF assms(1)] by blast
  have "map_of a k = map_of (ch_marks ch) k" for k
    using a(2) map_of_eq_None_iff[of "ch_marks ch" k] by (auto simp: entry_of_def insertText_op_def)
  then have "map_of a = map_of (ch_marks ch)" by blast
  then have "char_matches (?e\<lparr>se_a := a\<rparr>) ch" and "\<not> se_t (?e\<lparr>se_a := a\<rparr>)"
    by (simp_all add: char_matches_def entry_of_def insertText_op_def get_or_def)
  moreover have "run_ops (insert_char n ch) (P @ Q) = P @ ?e\<lparr>se_a := a\<rparr> # Q"
    unfolding insert_char_def ops run_ops_Cons view_insert_text[OF assms(1)] by (rule a(1))
  ultimately show ?thesis by blast
qed

lemma run_insert_chars:
  assumes "cur S st = P @ Q" and "n = length P" and "\<forall>ch \<in> set chs. distinct (map fst (ch_marks ch))"
  shows "\<exists>N. cur S (insert_chars n chs st) = P @ N @ Q \<and> shows_chars N chs \<and> length N = length chs
    \<and> snd (insert_chars n chs st) = snd st + length chs"
  using assms
proof (induction chs arbitrary: n P st)
  case (Cons ch chs)
  obtain e where e: "run_ops (insert_char n ch) (P @ Q) = P @ e # Q" "\<not> se_t e" "char_matches e ch"
    using run_insert_char[OF Cons.prems(2), of ch Q] Cons.prems(3) by (metis list.set_intros(1))
  have "cur S (shift_by 1 (push (insert_char n ch) st)) = (P @ [e]) @ Q"
    using e(1) Cons.prems(1) by simp
  from Cons.IH[OF this, of "n + 1"] Cons.prems(2,3) obtain N where
    "cur S (insert_chars (n + 1) chs (shift_by 1 (push (insert_char n ch) st))) = (P @ [e]) @ N @ Q"
    "shows_chars N chs" "length N = length chs"
    "snd (insert_chars (n + 1) chs (shift_by 1 (push (insert_char n ch) st))) = snd st + 1 + length chs"
    by auto
  then show ?case using e by (intro exI[of _ "e # N"]) simp
qed (auto intro: exI[of _ "[]"])

lemma common_prefix_le: "common_prefix eq xs ys \<le> length xs" "common_prefix eq xs ys \<le> length ys"
  by (induction eq xs ys rule: common_prefix.induct) auto

lemma common_prefix_eq:
  "list_all2 eq (take (common_prefix eq xs ys) xs) (take (common_prefix eq xs ys) ys)"
  by (induction eq xs ys rule: common_prefix.induct) auto

lemma common_suffix_le:
  assumes "p \<le> length xs" and "p \<le> length ys"
  shows "p + common_suffix eq p xs ys \<le> length xs" "p + common_suffix eq p xs ys \<le> length ys"
  using common_prefix_le[of eq "rev (drop p xs)" "rev (drop p ys)"] assms by (auto simp: common_suffix_def)

lemma common_suffix_eq:
  assumes "p \<le> length xs" and "p \<le> length ys"
  shows "list_all2 eq (drop (length xs - common_suffix eq p xs ys) xs) (drop (length ys - common_suffix eq p xs ys) ys)"
proof -
  let ?n = "common_prefix eq (rev (drop p xs)) (rev (drop p ys))"
  have "list_all2 eq (rev (drop (length (drop p xs) - ?n) (drop p xs))) (rev (drop (length (drop p ys) - ?n) (drop p ys)))"
    using common_prefix_eq[of eq "rev (drop p xs)" "rev (drop p ys)"] by (simp add: take_rev)
  moreover have "length xs - p - ?n + p = length xs - ?n" "length ys - p - ?n + p = length ys - ?n"
    using common_suffix_le[OF assms(1,2), of eq] by (simp_all add: common_suffix_def)
  ultimately show ?thesis by (simp add: common_suffix_def)
qed

text \<open>The write-marks loop over a run of characters that the segment \<open>B\<close> shows.\<close>

lemma run_writeMarks:
  assumes "cur S st = P @ B @ Q" and "shows_chars B (take n (drop i bc))" and "i + n \<le> length bc" "j + n \<le> length ac"
    and "list_all2 same_scalar (take n (drop i bc)) (take n (drop j ac))"
    and "\<And>c. c < n \<Longrightarrow> i + c < length idx \<and> idx ! (i + c) + snd st = length P + lpos B ! c"
  shows "\<exists>B'. cur S (fold (\<lambda>c. writeMarks l idx bc ac (i + c) (j + c)) [0..<n] st) = P @ B' @ Q
    \<and> length B' = length B \<and> shows_chars B' (take n (drop j ac))"
    and "snd (fold (\<lambda>c. writeMarks l idx bc ac (i + c) (j + c)) [0..<n] st) = snd st"
proof -
  have w: "fold (\<lambda>c. writeMarks l idx bc ac (i + c) (j + c)) cs st
      = push (concat (map (\<lambda>c. mark_ops (idx ! (i + c) + snd st) (bc ! (i + c)) (ac ! (j + c))) cs)) st"
    if "\<forall>c \<in> set cs. i + c < length idx" for cs st
    using that by (induction cs arbitrary: st) (simp_all add: writeMarks_def push_def)
  have in_range: "\<forall>c \<in> set [0..<n]. i + c < length idx" using assms(6) by simp
  show "snd (fold (\<lambda>c. writeMarks l idx bc ac (i + c) (j + c)) [0..<n] st) = snd st"
    using w[OF in_range, of st] by simp
  have len: "length (take n (drop i bc)) = n" using assms(3) by simp
  have eq: "map (\<lambda>c. mark_ops (idx ! (i + c) + snd st) (bc ! (i + c)) (ac ! (j + c))) [0..<n]
      = map (\<lambda>c. mark_ops (length P + lpos B ! c) (take n (drop i bc) ! c) (take n (drop j ac) ! c)) [0..<n]"
    using assms(3,4,6) by simp
  show "\<exists>B'. cur S (fold (\<lambda>c. writeMarks l idx bc ac (i + c) (j + c)) [0..<n] st) = P @ B' @ Q
      \<and> length B' = length B \<and> shows_chars B' (take n (drop j ac))"
    using run_marks[OF assms(2,5), of P Q] unfolding len
    by (simp only: w[OF in_range] eq cur_push assms(1))
qed

lemma reconcileBlockChars_correct:
  assumes "cur S st = P @ B @ Q" and "shows_chars B (bl_chars x)"
    and "blockLiveStreamIndices l b = map ((+) off) (lpos B)" and "content_start l b = off"
    and "length P = off + snd st" and "\<forall>ch \<in> set (bl_chars y). distinct (map fst (ch_marks ch))"
  shows "\<exists>B'. cur S (reconcileBlockChars l x y b st) = P @ B' @ Q \<and> shows_chars B' (bl_chars y)
    \<and> length B' + snd st = length B + snd (reconcileBlockChars l x y b st)"
proof -
  define bc where "bc = bl_chars x"
  define ac where "ac = bl_chars y"
  define p where "p = common_prefix same_scalar bc ac"
  define s where "s = common_suffix same_scalar p bc ac"
  define idx where "idx = blockLiveStreamIndices l b"
  have pl: "p \<le> length bc" "p \<le> length ac" unfolding p_def by (rule common_prefix_le)+
  have sl: "p + s \<le> length bc" "p + s \<le> length ac"
    unfolding s_def by (rule common_suffix_le[OF pl])+
  have m: "length (live B) = length bc" using list_all2_lengthD[OF assms(2)] by (simp add: bc_def)
  obtain X Y where X: "B = X @ Y" "length (live X) = p" "length X = cut_at (lpos B) p"
    using split_live[of p B] pl m by auto
  have "length bc - s - p \<le> length (live Y)" using m X sl by simp
  then obtain D W where D: "Y = D @ W" "length (live D) = length bc - s - p"
    using split_live by blast
  have W: "length (live W) = s" using m X D sl by simp
  have B: "B = X @ D @ W" using X D by simp
  have lposB: "lpos B = lpos X @ map ((+) (length X)) (lpos D) @ map ((+) (length X + length D)) (lpos W)"
    by (simp add: B lpos_append comp_def add.assoc)
  have "shows_chars B bc" using assms(2) by (simp add: bc_def)
  then have all: "list_all2 char_matches (live X @ live D @ live W) bc" by (simp add: B)
  have "shows_chars X (take p bc)"
    using list_all2_takeI[OF all, of p] X(2) by simp
  moreover have "shows_chars W (drop (length bc - s) bc)"
    using list_all2_dropI[OF all, of "length bc - s"] X(2) D(2) sl by simp
  ultimately have parts: "shows_chars X (take p bc)" "shows_chars W (drop (length bc - s) bc)" .
  have idx: "idx = map ((+) off) (lpos B)" "length idx = length bc" using assms(3) m by (simp_all add: idx_def)
  define st1 where "st1 = fold (\<lambda>c. writeMarks l idx bc ac c c) [0..<p] st"
  obtain X' where st1: "cur S st1 = P @ X' @ D @ W @ Q" "length X' = length X" "shows_chars X' (take p ac)"
      and snd1: "snd st1 = snd st"
  proof -
    have "take p bc = take p (drop 0 bc)" by simp
    have c: "0 + c < length idx \<and> idx ! (0 + c) + snd st = length P + lpos X ! c" if "c < p" for c
      using that pl idx assms(5) X(2) m by (simp add: lposB nth_append)
    note w = run_writeMarks[of S st P X "D @ W @ Q" p 0 bc 0 ac idx l, OF _ _ _ _ _ c]
    have "\<exists>X'. cur S st1 = P @ X' @ D @ W @ Q \<and> length X' = length X \<and> shows_chars X' (take p ac)"
      using w(1) assms(1) parts(1) pl common_prefix_eq[of same_scalar bc ac]
      by (simp add: B st1_def p_def[symmetric])
    moreover have "snd st1 = snd st"
      using w(2) assms(1) parts(1) pl common_prefix_eq[of same_scalar bc ac]
      by (simp add: B st1_def p_def[symmetric])
    ultimately show thesis using that by blast
  qed
  define st2 where "st2 = push (map (\<lambda>c. delete_op (idx ! c + snd st1))
    (filter (\<lambda>c. c < length idx) (rev [p..<length bc - s]))) st1"
  let ?D = "map (\<lambda>e. e\<lparr>se_t := True\<rparr>) D"
  have "map (\<lambda>c. delete_op (idx ! c + snd st1)) (filter (\<lambda>c. c < length idx) (rev [p..<length bc - s]))
      = map (\<lambda>i. delete_op (length (P @ X') + i)) (rev (lpos D))"
  proof -
    have "filter (\<lambda>c. c < length idx) [p..<length bc - s] = [p..<length bc - s]"
      by (rule filter_True) (use idx(2) in auto)
    moreover have "map (\<lambda>c. delete_op (idx ! c + snd st1)) [p..<length bc - s]
        = map (\<lambda>i. delete_op (length (P @ X') + i)) (lpos D)"
      using X(2) D(2) snd1 st1(2) assms(5) m
      by (intro nth_equalityI) (simp_all add: idx(1) lposB nth_append add.assoc add.commute add.left_commute)
    ultimately show ?thesis by (simp add: rev_map[symmetric] rev_filter[symmetric])
  qed
  then have st2: "cur S st2 = (P @ X') @ ?D @ W @ Q" "snd st2 = snd st"
    using run_deletes[of "P @ X'" D "W @ Q"] st1(1) snd1 by (simp_all add: st2_def)
  define cursor where "cursor = (if p < length idx then idx ! p + snd st2
      else if idx \<noteq> [] then last idx + 1 + snd st2 else content_start l b + snd st2)"
  have cursor: "cursor = length (P @ X')"
    using X(3) st1(2) assms(4,5) st2(2)
    by (auto simp: cursor_def cut_at_def idx(1) last_map)
  define mid where "mid = take (length ac - s - p) (drop p ac)"
  obtain N where N: "cur S (insert_chars cursor mid st2) = (P @ X') @ N @ ?D @ W @ Q" "shows_chars N mid"
      "length N = length mid" "snd (insert_chars cursor mid st2) = snd st2 + length mid"
    using run_insert_chars[OF st2(1) cursor, of mid] assms(6)
    by (auto simp: mid_def ac_def dest: in_set_takeD in_set_dropD)
  define st3 where "st3 = insert_chars cursor mid st2"
  define st4 where "st4 = fold (\<lambda>c. writeMarks l idx bc ac (length bc - s + c) (length ac - s + c)) [0..<s] st3"
  have res: "reconcileBlockChars l x y b st = st4"
    by (simp add: reconcileBlockChars_def Let_def bc_def ac_def p_def s_def idx_def st1_def st2_def
        cursor_def mid_def st3_def st4_def)
  have c: "length bc - s + c < length idx \<and> idx ! (length bc - s + c) + snd st3
      = length (P @ X' @ N @ ?D) + lpos W ! c" if "c < s" for c
  proof -
    have "lpos B ! (length bc - s + c) = length X + length D + lpos W ! c"
    proof -
      have "length bc - s + c = length (lpos X) + (length (map ((+) (length X)) (lpos D)) + c)"
        using sl X(2) D(2) by simp
      then show ?thesis unfolding lposB using that W by (simp only: nth_append_length_plus) simp
    qed
    then show ?thesis
      using that sl idx m assms(5) st1(2) N(3,4) st2(2) by (simp add: st3_def)
  qed
  have cur3: "cur S st3 = (P @ X' @ N @ ?D) @ W @ Q" using N(1) by (simp add: st3_def)
  note w = run_writeMarks[OF cur3, of s "length bc - s" bc "length ac - s" ac idx l, OF _ _ _ _ c]
  have eq: "list_all2 same_scalar (drop (length bc - s) bc) (drop (length ac - s) ac)"
    unfolding s_def by (rule common_suffix_eq[OF pl])
  have sfx: "take s (drop (length bc - s) bc) = drop (length bc - s) bc"
    "take s (drop (length ac - s) ac) = drop (length ac - s) ac" using sl by simp_all
  obtain W' where W': "cur S st4 = (P @ X' @ N @ ?D) @ W' @ Q" "length W' = length W"
      "shows_chars W' (drop (length ac - s) ac)"
    using w(1) parts(2) eq sl unfolding sfx st4_def by auto
  have snd4: "snd st4 = snd st3"
    using w(2) parts(2) eq sl unfolding sfx st4_def by auto
  have "mid @ drop (length ac - s - p) (drop p ac) = drop p ac"
    unfolding mid_def by (rule append_take_drop_id)
  moreover have "drop (length ac - s - p) (drop p ac) = drop (length ac - s) ac"
    using sl unfolding drop_drop by simp
  ultimately have "take p ac @ mid @ drop (length ac - s) ac = ac" by simp
  moreover have "list_all2 char_matches (live X' @ live N @ live W') (take p ac @ mid @ drop (length ac - s) ac)"
    by (intro list_all2_appendI st1(3) N(2) W'(3))
  ultimately have "shows_chars (X' @ N @ ?D @ W') ac" by simp
  then show ?thesis
    using W' snd4 N(3,4) st2(2) st1(2) unfolding res ac_def
    by (intro exI[of _ "X' @ N @ ?D @ W'"]) (simp add: B st3_def)
qed

section \<open>One block's attributes\<close>

lemma block_value_same_attrs:
  assumes "k \<noteq> ''type''" and "k \<notin> fst ` set (bl_attrs x)" and "k \<notin> fst ` set (bl_attrs y)"
  shows "block_value x k = block_value y k"
  using assms map_of_eq_None_iff[of "bl_attrs x" k] map_of_eq_None_iff[of "bl_attrs y" k]
  by (simp add: block_value_def)

lemma changed_attrs_iff:
  "block_value x k = block_value y k \<longleftrightarrow> k \<notin> set (changed_attrs x y)"
proof (cases "k = ''type'' \<or> k \<in> fst ` set (bl_attrs x) \<or> k \<in> fst ` set (bl_attrs y)")
  case True
  then show ?thesis by (auto simp: changed_attrs_def)
next
  case False
  then show ?thesis using block_value_same_attrs[of k x y] by (auto simp: changed_attrs_def)
qed

text \<open>With a live delimiter at the anchor.\<close>

lemma reconcileBlockAttrs_correct:
  assumes "cur S st = P @ d # Q" and "head_matches (Some d) x"
    and "start_at l b = Some (Some off)" and "is_live l off" and "length P = off + snd st"
  shows "\<exists>d'. cur S (reconcileBlockAttrs l x y b st) = P @ d' # Q \<and> head_matches (Some d') y"
    and "snd (reconcileBlockAttrs l x y b st) = snd st"
proof -
  let ?ks = "changed_attrs x y"
  have anchor: "blockAttrAnchor l b = off" using assms(3,4) by (simp add: blockAttrAnchor_def)
  have res: "reconcileBlockAttrs l x y b st
      = push (map (\<lambda>k. setAttr_op (length P) k (block_value y k)) ?ks) st"
    using assms(3,5) anchor by (simp add: reconcileBlockAttrs_def Let_def get_or_def)
  obtain a where a: "run_ops (map (\<lambda>k. setAttr_op (length P) k (block_value y k)) ?ks) (P @ d # Q) = P @ d\<lparr>se_a := a\<rparr> # Q"
    "\<forall>k. map_of a k = (if k \<in> set ?ks then block_value y k else map_of (se_a d) k)"
    using run_attrs[OF refl] by blast
  have "map_of a k = map_of (bl_attrs y) k" if "k \<noteq> ''type''" for k
    using a(2) that assms(2) changed_attrs_iff[of x k y]
    by (auto simp: head_matches_def same_attrs_def block_value_def)
  moreover have "get_or ''paragraph'' (map_of a ''type'') = bl_type y"
    using a(2) assms(2) changed_attrs_iff[of x "''type''" y]
    by (auto simp: head_matches_def block_value_def get_or_def)
  ultimately have "head_matches (Some (d\<lparr>se_a := a\<rparr>)) y"
    using assms(2) by (simp add: head_matches_def same_attrs_def)
  then show "\<exists>d'. cur S (reconcileBlockAttrs l x y b st) = P @ d' # Q \<and> head_matches (Some d') y"
    using a(1) assms(1) unfolding res by auto
  show "snd (reconcileBlockAttrs l x y b st) = snd st" by (simp add: res)
qed

text \<open>At an implicit start: a delimiter is inserted when an attribute changes.\<close>

lemma reconcileBlockAttrs_implicit:
  assumes "cur S st = P @ Q" and "head_matches None x"
    and "start_at l 0 = Some None" and "length P = snd st"
  shows "\<exists>h. cur S (reconcileBlockAttrs l x y 0 st) = P @ (case h of None \<Rightarrow> [] | Some d \<Rightarrow> [d]) @ Q
    \<and> head_matches h y
    \<and> snd (reconcileBlockAttrs l x y 0 st) = snd st + (case h of None \<Rightarrow> 0 | Some d \<Rightarrow> 1)"
proof (cases "changed_attrs x y = []")
  case True
  then have "block_value x k = block_value y k" for k by (simp add: changed_attrs_iff)
  then have "bl_type x = bl_type y" "k \<noteq> ''type'' \<Longrightarrow> map_of (bl_attrs x) k = map_of (bl_attrs y) k" for k
    by (metis block_value_def option.inject, metis block_value_def)
  then have "head_matches None y" using assms(2) by (simp add: head_matches_def same_attrs_def)
  moreover have "reconcileBlockAttrs l x y 0 st = push [] st"
    using True by (simp add: reconcileBlockAttrs_def Let_def)
  ultimately show ?thesis using assms(1) by (intro exI[of _ None]) simp
next
  case False
  let ?ks = "changed_attrs x y"
  let ?d = "entry_of (insertDelimiter_op (length P) (bl_type y)) no_identity"
  have anchor: "blockAttrAnchor l 0 = 0"
    using assms(3) by (simp add: blockAttrAnchor_def firstLiveOfBlock_def)
  have res: "reconcileBlockAttrs l x y 0 st
      = push (map (\<lambda>k. setAttr_op (length P) k (block_value y k)) ?ks)
          (shift_by 1 (push [insertDelimiter_op (length P) (bl_type y)] st))"
    using False assms(3,4) anchor by (simp add: reconcileBlockAttrs_def Let_def get_or_def)
  obtain a where a: "run_ops (map (\<lambda>k. setAttr_op (length P) k (block_value y k)) ?ks) (P @ ?d # Q) = P @ ?d\<lparr>se_a := a\<rparr> # Q"
    "\<forall>k. map_of a k = (if k \<in> set ?ks then block_value y k else map_of (se_a ?d) k)"
    using run_attrs[OF refl] by blast
  have da: "map_of (se_a ?d) = [''type'' \<mapsto> bl_type y]"
    by (auto simp: entry_of_def insertDelimiter_op_def get_or_def)
  have "map_of a k = map_of (bl_attrs y) k" if "k \<noteq> ''type''" for k
    using a(2) that assms(2) changed_attrs_iff[of x k y]
    by (auto simp: head_matches_def same_attrs_def block_value_def da)
  moreover have "map_of a ''type'' = Some (bl_type y)"
    using a(2) by (auto simp: block_value_def da)
  ultimately have "head_matches (Some (?d\<lparr>se_a := a\<rparr>)) y"
    by (simp add: head_matches_def same_attrs_def get_or_def entry_of_def insertDelimiter_op_def)
  then show ?thesis
    using a(1) assms(1) unfolding res by (intro exI[of _ "Some (?d\<lparr>se_a := a\<rparr>)"]) simp
qed

end
