(* ===== verification/Adapter_Correct.thy ===== *)
theory Adapter_Correct
  imports Adapter_Steps Worker_Durability
begin

text \<open>
  The diff is right: the view stream that the worker keeps while it carries out the operations of
  \<open>reconcile\<close> ends up showing exactly the new document. The stream is cut into the segments of its
  blocks; the operations for one block change only its segment, and the shift of the batch is the
  growth of everything before.
\<close>

section \<open>The live index of a stream\<close>

definition dpos :: "StreamEntry list \<Rightarrow> nat list" where
  "dpos xs = filter (\<lambda>i. \<not> se_t (xs ! i) \<and> se_k (xs ! i) = ''delim'') [0..<length xs]"

definition leading_delimiter :: "StreamEntry list \<Rightarrow> bool" where
  "leading_delimiter xs \<longleftrightarrow> live xs \<noteq> [] \<and> se_k (hd (live xs)) = ''delim''"

lemma dpos_Nil [simp]: "dpos [] = []"
  by (simp add: dpos_def)

lemma dpos_append: "dpos (xs @ ys) = dpos xs @ map ((+) (length xs)) (dpos ys)"
proof -
  have "[length xs..<length xs + length ys] = map ((+) (length xs)) [0..<length ys]"
    by (rule nth_equalityI) simp_all
  moreover have "filter (\<lambda>i. \<not> se_t ((xs @ ys) ! i) \<and> se_k ((xs @ ys) ! i) = ''delim'') [0..<length xs] = dpos xs"
    unfolding dpos_def by (rule filter_cong) (simp_all add: nth_append)
  ultimately show ?thesis
    by (simp add: dpos_def upt_add_eq_append[of 0] filter_map comp_def)
qed

lemma dpos_single: "dpos [e] = (if \<not> se_t e \<and> se_k e = ''delim'' then [0] else [])"
  by (simp add: dpos_def)

lemma dpos_no_live: "live xs = [] \<Longrightarrow> dpos xs = []"
  by (auto simp: dpos_def live_def filter_empty_conv)

lemma buildLiveIndex_spec:
  "length (streamToLive (buildLiveIndex S)) = length S
   \<and> (\<forall>i < length S. streamToLive (buildLiveIndex S) ! i = None \<longleftrightarrow> se_t (S ! i))
   \<and> length (liveToStream (buildLiveIndex S)) = length (live S)
   \<and> blockStarts (buildLiveIndex S) = (if leading_delimiter S then [] else [None]) @ map Some (dpos S)"
proof (induction S rule: rev_induct)
  case Nil
  then show ?case by (simp add: buildLiveIndex_def leading_delimiter_def)
next
  case (snoc e S)
  let ?l = "buildLiveIndex S"
  have l: "buildLiveIndex (S @ [e]) = live_step ?l (length S, e)"
    by (simp add: buildLiveIndex_def enumerate_append_eq)
  have none: "dpos S = []" "\<not> leading_delimiter S" if "live S = []"
    using that dpos_no_live by (auto simp: leading_delimiter_def)
  have lead: "leading_delimiter (S @ [e]) = (if live S = [] then \<not> se_t e \<and> se_k e = ''delim'' else leading_delimiter S)"
    by (auto simp: leading_delimiter_def)
  show ?case
    unfolding l using snoc.IH none
    by (auto simp: live_step_def Let_def nth_append dpos_append dpos_single lead less_Suc_eq)
qed

lemma is_live_iff: "is_live (buildLiveIndex S) i \<longleftrightarrow> i < length S \<and> \<not> se_t (S ! i)"
  using buildLiveIndex_spec[of S] by (auto simp: is_live_def)

lemma filter_is_live:
  assumes "S = A @ B @ C"
  shows "filter (is_live (buildLiveIndex S)) [length A..<length A + length B] = map ((+) (length A)) (lpos B)"
proof -
  have "[length A..<length A + length B] = map ((+) (length A)) [0..<length B]"
    by (rule nth_equalityI) simp_all
  moreover have "filter (is_live (buildLiveIndex S) \<circ> (+) (length A)) [0..<length B] = lpos B"
    unfolding lpos_def by (rule filter_cong) (auto simp: is_live_iff assms nth_append)
  ultimately show ?thesis by (simp add: filter_map)
qed

section \<open>Segments\<close>

text \<open>A block's delimiter, if it has one, and its content.\<close>

type_synonym segment = "StreamEntry option \<times> StreamEntry list"

definition flat :: "segment \<Rightarrow> StreamEntry list" where
  "flat sg = (case fst sg of None \<Rightarrow> [] | Some d \<Rightarrow> [d]) @ snd sg"

definition seg_shows :: "segment \<Rightarrow> CanonicalBlock \<Rightarrow> bool" where
  "seg_shows sg b \<longleftrightarrow> head_matches (fst sg) b \<and> shows_chars (snd sg) (bl_chars b)"

abbreviation flats :: "segment list \<Rightarrow> StreamEntry list" where
  "flats sgs \<equiv> concat (map flat sgs)"

text \<open>Tombstones, then the segments; only the first may be without a delimiter, and then it has live text or is alone.\<close>

definition seg_form :: "StreamEntry list \<Rightarrow> segment list \<Rightarrow> bool" where
  "seg_form J sgs \<longleftrightarrow>
     live J = [] \<and> sgs \<noteq> [] \<and> (\<forall>sg \<in> set (tl sgs). fst sg \<noteq> None)
     \<and> (fst (hd sgs) = None \<longrightarrow> J = [] \<and> (live (snd (hd sgs)) \<noteq> [] \<or> tl sgs = []))"

definition off :: "StreamEntry list \<Rightarrow> segment list \<Rightarrow> nat \<Rightarrow> nat" where
  "off J sgs b = length J + length (flats (take b sgs))"

lemma dpos_flat:
  assumes "seg_shows sg b"
  shows "dpos (flat sg) = (case fst sg of None \<Rightarrow> [] | Some d \<Rightarrow> [0])"
proof -
  have "se_k e \<noteq> ''delim''" if "e \<in> set (live (snd sg))" for e
    using assms that by (auto simp: seg_shows_def char_matches_def list_all2_conv_all_nth in_set_conv_nth)
  then have "dpos (snd sg) = []" by (auto simp: dpos_def live_def filter_empty_conv)
  moreover have "dpos ([d] @ snd sg) = [0]" if "fst sg = Some d" and "dpos (snd sg) = []" for d
    using assms that unfolding dpos_append by (simp add: dpos_single seg_shows_def head_matches_def)
  ultimately show ?thesis by (auto simp: flat_def split: option.splits)
qed

lemma dpos_flats:
  assumes "list_all2 seg_shows sgs bs" and "\<forall>sg \<in> set sgs. fst sg \<noteq> None"
  shows "dpos (P @ flats sgs) = dpos P @ map (\<lambda>b. length P + length (flats (take b sgs))) [0..<length sgs]"
  using assms
proof (induction sgs arbitrary: P bs)
  case (Cons sg sgs)
  then obtain b bs' where b: "bs = b # bs'" "seg_shows sg b" "list_all2 seg_shows sgs bs'"
    by (auto simp: list_all2_Cons1)
  have "dpos (P @ flat sg) = dpos P @ [length P]"
    using dpos_flat[OF b(2)] Cons.prems(2) by (auto simp: dpos_append)
  moreover have "[0..<length (sg # sgs)] = 0 # map Suc [0..<length sgs]"
    by (simp add: upt_conv_Cons map_Suc_upt del: upt_Suc)
  ultimately show ?case
    using Cons.IH[OF b(3), of "P @ flat sg"] Cons.prems(2) by (simp add: comp_def add.assoc del: upt_Suc)
qed simp

lemma start_at_segment:
  assumes "seg_form J sgs" and "list_all2 seg_shows sgs bs" and "b < length sgs"
  shows "start_at (buildLiveIndex (J @ flats sgs)) b
      = Some (case fst (sgs ! b) of None \<Rightarrow> None | Some d \<Rightarrow> Some (off J sgs b))"
    and "start_at (buildLiveIndex (J @ flats sgs)) (length sgs) = None"
proof -
  let ?S = "J @ flats sgs"
  obtain sg rest where sgs: "sgs = sg # rest" using assms(1) by (cases sgs) (auto simp: seg_form_def)
  obtain x xs where bs: "bs = x # xs" "seg_shows sg x" "list_all2 seg_shows rest xs"
    using assms(2) by (auto simp: sgs list_all2_Cons1)
  have J: "live J = []" "dpos J = []" using assms(1) dpos_no_live by (auto simp: seg_form_def)
  have rest: "\<forall>sg \<in> set rest. fst sg \<noteq> None" using assms(1) by (simp add: seg_form_def sgs)
  have "blockStarts (buildLiveIndex ?S) = map (\<lambda>b. case fst (sgs ! b) of None \<Rightarrow> None | Some d \<Rightarrow> Some (off J sgs b)) [0..<length sgs]"
  proof (cases "fst sg")
    case (Some d)
    have "live ?S \<noteq> [] \<and> hd (live ?S) = d"
      using bs(2) Some J by (simp add: sgs flat_def seg_shows_def head_matches_def)
    then have "leading_delimiter ?S"
      using bs(2) Some by (simp add: leading_delimiter_def seg_shows_def head_matches_def)
    moreover have all: "\<forall>sg \<in> set sgs. fst sg \<noteq> None" using rest Some by (simp add: sgs)
    ultimately have "blockStarts (buildLiveIndex ?S) = map Some (map (\<lambda>b. off J sgs b) [0..<length sgs])"
      using dpos_flats[OF assms(2) all, of J] J buildLiveIndex_spec[of ?S] by (simp add: off_def)
    then show ?thesis using all by (auto intro!: nth_equalityI split: option.splits)
  next
    case None
    then have J0: "J = []" and alive: "live (snd sg) \<noteq> [] \<or> rest = []"
      using assms(1) by (auto simp: seg_form_def sgs)
    have no_delim: "se_k e \<noteq> ''delim''" if "e \<in> set (live (snd sg))" for e
      using bs(2) that by (auto simp: seg_shows_def char_matches_def list_all2_conv_all_nth in_set_conv_nth)
    have "\<not> leading_delimiter ?S"
      using alive no_delim None by (auto simp: leading_delimiter_def J0 sgs flat_def hd_append)
    moreover have "dpos ?S = map (\<lambda>b. off J sgs (Suc b)) [0..<length rest]"
      using dpos_flats[OF bs(3) rest, of "flat sg"] dpos_flat[OF bs(2)] None by (simp add: sgs J0 off_def)
    ultimately have "blockStarts (buildLiveIndex ?S) = None # map (\<lambda>b. Some (off J sgs (Suc b))) [0..<length rest]"
      using buildLiveIndex_spec[of ?S] by simp
    moreover have "(case fst (sgs ! Suc b) of None \<Rightarrow> None | Some d \<Rightarrow> Some (off J sgs (Suc b))) = Some (off J sgs (Suc b))"
      if "b < length rest" for b
      using rest nth_mem[OF that] by (auto simp: sgs split: option.splits)
    then have "map (\<lambda>b. case fst (sgs ! b) of None \<Rightarrow> None | Some d \<Rightarrow> Some (off J sgs b)) (map Suc [0..<length rest])
        = map (\<lambda>b. Some (off J sgs (Suc b))) [0..<length rest]"
      by simp
    moreover have "[0..<length sgs] = 0 # map Suc [0..<length rest]"
      by (simp add: sgs upt_conv_Cons map_Suc_upt del: upt_Suc)
    moreover have "fst (sgs ! 0) = None" using None by (simp add: sgs)
    ultimately show ?thesis by (simp only: list.map option.case)
  qed
  then show "start_at (buildLiveIndex ?S) b = Some (case fst (sgs ! b) of None \<Rightarrow> None | Some d \<Rightarrow> Some (off J sgs b))"
    and "start_at (buildLiveIndex ?S) (length sgs) = None"
    using assms(3) by (simp_all add: start_at_def cong: option.case_cong)
qed

lemma seg_form_None:
  assumes "seg_form J sgs" and "i < length sgs" and "fst (sgs ! i) = None"
  shows "i = 0 \<and> J = []"
proof -
  obtain sg rest where sgs: "sgs = sg # rest" using assms(2) by (cases sgs) auto
  have "i = 0"
  proof (cases i)
    case (Suc k)
    then have "sgs ! i \<in> set rest" using assms(2) by (simp add: sgs)
    then show ?thesis using assms(1,3) by (auto simp: seg_form_def sgs)
  qed
  then show ?thesis using assms(1,3) by (simp add: seg_form_def sgs)
qed

text \<open>What the index functions give for the block of a segment.\<close>

lemma segment_index:
  assumes "seg_form J sgs" and "list_all2 seg_shows sgs bs" and "b < length sgs"
  defines "l \<equiv> buildLiveIndex (J @ flats sgs)"
  defines "c \<equiv> off J sgs b + (case fst (sgs ! b) of None \<Rightarrow> 0 | Some d \<Rightarrow> 1)"
  shows "get_or (length (streamToLive l)) (endOfBlock l b) = off J sgs (b + 1)"
    and "firstLiveOfBlock l b = off J sgs b"
    and "content_start l b = c"
    and "blockLiveStreamIndices l b = map ((+) c) (lpos (snd (sgs ! b)))"
    and "get_or 0 (get_or None (start_at l b)) = off J sgs b"
    and "fst (sgs ! b) = Some d \<Longrightarrow> is_live l (off J sgs b)"
    and "filter (is_live l) [off J sgs b..<off J sgs (b + 1)] = map ((+) (off J sgs b)) (lpos (flat (sgs ! b)))"
proof -
  let ?S = "J @ flats sgs"
  let ?A = "J @ flats (take b sgs)"
  have S: "?S = ?A @ flat (sgs ! b) @ flats (drop (Suc b) sgs)"
    using id_take_nth_drop[OF assms(3)] by (metis append.assoc concat.simps(2) concat_append list.map(2) map_append)
  have lenA: "length ?A = off J sgs b" by (simp add: off_def)
  have step: "off J sgs (b + 1) = off J sgs b + length (flat (sgs ! b))"
    using assms(3) by (simp add: off_def take_Suc_conv_app_nth)
  note start = start_at_segment[OF assms(1,2), folded l_def]
  have first: "b = 0 \<and> J = []" if "fst (sgs ! b) = None"
    using seg_form_None[OF assms(1,3) that] .
  have len: "length (streamToLive l) = length ?S" using buildLiveIndex_spec[of ?S] by (simp add: l_def)
  show "get_or (length (streamToLive l)) (endOfBlock l b) = off J sgs (b + 1)"
  proof (cases "b + 1 < length sgs")
    case True
    have "fst (sgs ! (b + 1)) \<noteq> None" using seg_form_None[OF assms(1) True] by auto
    then show ?thesis using start(1)[OF True] by (auto simp: endOfBlock_def get_or_def)
  next
    case False
    then have "b + 1 = length sgs" using assms(3) by simp
    then show ?thesis using start(2)[OF assms(3)] by (simp add: endOfBlock_def get_or_def len off_def)
  qed
  note end_eq = this
  show alive: "is_live l (off J sgs b)" if "fst (sgs ! b) = Some d" for d
  proof -
    have "seg_shows (sgs ! b) (bs ! b)" using assms(2,3) by (simp add: list_all2_conv_all_nth)
    then have "\<not> se_t d" using that by (simp add: seg_shows_def head_matches_def)
    moreover have "?S ! off J sgs b = d"
      using that lenA by (subst S) (metis append_Cons flat_def nth_append_length option.case(2) append_Nil)
    moreover have "off J sgs b < length ?S"
      using that lenA by (subst S) (simp add: flat_def)
    ultimately show ?thesis by (simp add: l_def is_live_iff)
  qed
  show "firstLiveOfBlock l b = off J sgs b"
    using start(1)[OF assms(3)] first alive
    by (auto simp: firstLiveOfBlock_def off_def split: option.splits)
  then show cs: "content_start l b = c"
    using start(1)[OF assms(3)] alive by (auto simp: content_start_def c_def split: option.splits)
  show "get_or 0 (get_or None (start_at l b)) = off J sgs b"
    using start(1)[OF assms(3)] first by (auto simp: get_or_def off_def split: option.splits)
  show "filter (is_live l) [off J sgs b..<off J sgs (b + 1)] = map ((+) (off J sgs b)) (lpos (flat (sgs ! b)))"
    using filter_is_live[OF S] lenA step by (simp add: l_def)
  have "?S = (?A @ (case fst (sgs ! b) of None \<Rightarrow> [] | Some d \<Rightarrow> [d])) @ snd (sgs ! b) @ flats (drop (Suc b) sgs)"
    using S by (simp add: flat_def)
  moreover have "length (?A @ (case fst (sgs ! b) of None \<Rightarrow> [] | Some d \<Rightarrow> [d])) = c"
    using lenA by (simp add: c_def split: option.splits)
  ultimately have "filter (is_live l) [c..<c + length (snd (sgs ! b))] = map ((+) c) (lpos (snd (sgs ! b)))"
    using filter_is_live unfolding l_def by metis
  moreover have "c + length (snd (sgs ! b)) = off J sgs (b + 1)"
    unfolding step by (simp add: c_def flat_def split: option.splits)
  ultimately show "blockLiveStreamIndices l b = map ((+) c) (lpos (snd (sgs ! b)))"
    unfolding blockLiveStreamIndices_def cs end_eq by simp
qed

section \<open>One block\<close>

definition neat :: "CanonicalBlock \<Rightarrow> bool" where
  "neat b \<longleftrightarrow> distinct (map fst (bl_attrs b)) \<and> (\<forall>ch \<in> set (bl_chars b). distinct (map fst (ch_marks ch)))"

lemma reconcile_block_correct:
  assumes "seg_form J sgs" and "list_all2 seg_shows sgs before" and "i < length sgs" and "neat (after ! j)"
    and "cur S st = P @ flat (sgs ! i) @ Q" and "length P = off J sgs i + snd st"
  defines "l \<equiv> buildLiveIndex (J @ flats sgs)"
  shows "\<exists>sg. cur S (reconcile_block l before after i j st) = P @ flat sg @ Q \<and> seg_shows sg (after ! j)
    \<and> length (flat sg) + snd st = length (flat (sgs ! i)) + snd (reconcile_block l before after i j st)
    \<and> (fst (sgs ! i) \<noteq> None \<longrightarrow> fst sg \<noteq> None)"
proof -
  let ?x = "before ! i" and ?y = "after ! j"
  let ?B = "snd (sgs ! i)"
  let ?st1 = "reconcileBlockAttrs l ?x ?y i st"
  note idx = segment_index[OF assms(1-3), folded l_def]
  have fits: "head_matches (fst (sgs ! i)) ?x" "shows_chars ?B (bl_chars ?x)"
    using assms(2,3) by (auto simp: list_all2_conv_all_nth seg_shows_def)
  define cs where "cs = off J sgs i + (case fst (sgs ! i) of None \<Rightarrow> 0 | Some d \<Rightarrow> 1)"
  have attrs: "\<exists>h. cur S ?st1 = (P @ (case h of None \<Rightarrow> [] | Some d \<Rightarrow> [d])) @ ?B @ Q \<and> head_matches h ?y
      \<and> length (P @ (case h of None \<Rightarrow> [] | Some d \<Rightarrow> [d])) = cs + snd ?st1
      \<and> (fst (sgs ! i) \<noteq> None \<longrightarrow> h \<noteq> None)"
  proof (cases "fst (sgs ! i)")
    case (Some d)
    have "cur S st = P @ d # (?B @ Q)" using assms(5) Some by (simp add: flat_def)
    moreover have "start_at l i = Some (Some (off J sgs i))"
      using start_at_segment(1)[OF assms(1-3)] Some by (simp add: l_def)
    ultimately obtain d' where "cur S ?st1 = P @ d' # ?B @ Q" "head_matches (Some d') ?y" "snd ?st1 = snd st"
      using reconcileBlockAttrs_correct[of S st P d "?B @ Q" ?x l i "off J sgs i" ?y] fits(1) idx(6) assms(6) Some by auto
    then show ?thesis using assms(6) Some by (intro exI[of _ "Some d'"]) (simp add: cs_def)
  next
    case None
    have i: "i = 0" and J: "J = []" using seg_form_None[OF assms(1,3) None] by simp_all
    have "start_at l 0 = Some None" "length P = snd st" "cur S st = P @ (?B @ Q)"
      using start_at_segment(1)[OF assms(1-3)] None assms(5,6) J by (simp_all add: l_def i off_def flat_def)
    from reconcileBlockAttrs_implicit[OF this(3) _ this(1,2), of ?x ?y] fits(1) None obtain h where
      "cur S ?st1 = P @ (case h of None \<Rightarrow> [] | Some d \<Rightarrow> [d]) @ ?B @ Q" "head_matches h ?y"
      "snd ?st1 = snd st + (case h of None \<Rightarrow> 0 | Some d \<Rightarrow> 1)"
      by (auto simp: i)
    then show ?thesis using \<open>length P = snd st\<close> None J
      by (intro exI[of _ h]) (simp add: cs_def i off_def split: option.splits)
  qed
  then obtain h where h: "cur S ?st1 = (P @ (case h of None \<Rightarrow> [] | Some d \<Rightarrow> [d])) @ ?B @ Q" "head_matches h ?y"
      "length (P @ (case h of None \<Rightarrow> [] | Some d \<Rightarrow> [d])) = cs + snd ?st1" "fst (sgs ! i) \<noteq> None \<longrightarrow> h \<noteq> None"
    by blast
  have "\<forall>ch \<in> set (bl_chars ?y). distinct (map fst (ch_marks ch))" using assms(4) by (simp add: neat_def)
  from reconcileBlockChars_correct[OF h(1) fits(2) idx(4)[folded cs_def] idx(3)[folded cs_def] h(3) this]
  obtain B' where B': "cur S (reconcile_block l before after i j st) = (P @ (case h of None \<Rightarrow> [] | Some d \<Rightarrow> [d])) @ B' @ Q"
      "shows_chars B' (bl_chars ?y)" "length B' + snd ?st1 = length ?B + snd (reconcile_block l before after i j st)"
    unfolding reconcile_block_def by blast
  then show ?thesis
    using h assms(6)
    by (intro exI[of _ "(h, B')"]) (simp add: flat_def seg_shows_def cs_def split: option.splits)
qed

section \<open>What a piece of the stream shows\<close>

definition same_char :: "CanonicalChar \<Rightarrow> CanonicalChar \<Rightarrow> bool" where
  "same_char x y \<longleftrightarrow> ch_scalar x = ch_scalar y \<and> map_of (ch_marks x) = map_of (ch_marks y)"

definition same_block :: "CanonicalBlock \<Rightarrow> CanonicalBlock \<Rightarrow> bool" where
  "same_block x y \<longleftrightarrow> bl_type x = bl_type y \<and> same_attrs (bl_attrs x) (bl_attrs y)
     \<and> list_all2 same_char (bl_chars x) (bl_chars y)"

text \<open>The same documents, up to the order of attributes and marks.\<close>

definition same_document :: "CanonicalBlock list \<Rightarrow> CanonicalBlock list \<Rightarrow> bool" where
  "same_document xs ys \<longleftrightarrow> list_all2 same_block xs ys"

text \<open>\<open>Z\<close> adds the blocks \<open>bs\<close> after whatever was there.\<close>

definition renders :: "StreamEntry list \<Rightarrow> CanonicalBlock list \<Rightarrow> bool" where
  "renders Z bs \<longleftrightarrow> (\<forall>acc. \<exists>bs'. foldl visible_step acc Z = acc @ bs' \<and> same_document bs' bs)"

definition opens :: "StreamEntry list \<Rightarrow> CanonicalBlock list \<Rightarrow> bool" where
  "opens Z bs \<longleftrightarrow> same_document (foldl visible_step [] Z) bs"

lemma renders_Nil: "live Z = [] \<Longrightarrow> renders Z []"
proof -
  assume "live Z = []"
  then have "foldl visible_step acc Z = acc" for acc
    by (induction Z arbitrary: acc) (auto simp: visible_step_def split: if_splits)
  then show ?thesis by (simp add: renders_def same_document_def)
qed

lemma same_document_append:
  "same_document xs ys \<Longrightarrow> same_document xs' ys' \<Longrightarrow> same_document (xs @ xs') (ys @ ys')"
  by (simp add: same_document_def list_all2_appendI)

lemma renders_append:
  assumes "renders Y bs" and "renders Z cs"
  shows "renders (Y @ Z) (bs @ cs)"
  unfolding renders_def
proof
  fix acc
  obtain bs' where "foldl visible_step acc Y = acc @ bs'" "same_document bs' bs"
    using assms(1) by (auto simp: renders_def)
  moreover obtain cs' where "foldl visible_step (acc @ bs') Z = (acc @ bs') @ cs'" "same_document cs' cs"
    using assms(2) unfolding renders_def by blast
  ultimately show "\<exists>bs'. foldl visible_step acc (Y @ Z) = acc @ bs' \<and> same_document bs' (bs @ cs)"
    by (intro exI[of _ "bs' @ cs'"]) (simp add: same_document_append)
qed

lemma opens_append: "opens Y bs \<Longrightarrow> renders Z cs \<Longrightarrow> opens (Y @ Z) (bs @ cs)"
  unfolding opens_def renders_def by (metis foldl_append same_document_append)

lemma renders_opens: "renders Z bs \<Longrightarrow> opens Z bs"
  unfolding opens_def renders_def by (metis append_Nil)

lemma visible_chars:
  assumes "shows_chars B cs"
  shows "\<exists>cs'. foldl visible_step (acc @ [b]) B = acc @ [b\<lparr>bl_chars := bl_chars b @ cs'\<rparr>] \<and> list_all2 same_char cs' cs"
  using assms
proof (induction B arbitrary: b cs)
  case Nil
  then show ?case by (intro exI[of _ "[]"]) simp
next
  case (Cons e B)
  show ?case
  proof (cases "se_t e")
    case True
    then show ?thesis using Cons.IH[of cs b] Cons.prems by (simp add: visible_step_def)
  next
    case False
    then obtain ch cs0 where cs: "cs = ch # cs0" "char_matches e ch" "shows_chars B cs0"
      using Cons.prems by (auto simp: list_all2_Cons1)
    let ?b = "b\<lparr>bl_chars := bl_chars b @ [visible_char e]\<rparr>"
    obtain cs' where "foldl visible_step (acc @ [?b]) B = acc @ [?b\<lparr>bl_chars := bl_chars ?b @ cs'\<rparr>]" "list_all2 same_char cs' cs0"
      using Cons.IH[OF cs(3)] by blast
    moreover have "visible_step (acc @ [b]) e = acc @ [?b]" using cs(2) False
      by (simp add: visible_step_def char_matches_def)
    moreover have "same_char (visible_char e) ch" using cs(2)
      by (simp add: same_char_def visible_char_def char_matches_def)
    ultimately show ?thesis
      by (intro exI[of _ "visible_char e # cs'"]) (simp add: cs(1))
  qed
qed

lemma same_attrs_visible: "same_attrs (filter (\<lambda>(k, v). k \<noteq> ''type'') xs) ys = same_attrs xs ys"
  by (auto simp: same_attrs_def map_of_drop_key)

lemma segment_renders:
  assumes "seg_shows sg b" and "fst sg \<noteq> None"
  shows "renders (flat sg) [b]"
  unfolding renders_def
proof
  fix acc
  obtain d where d: "fst sg = Some d" using assms(2) by blast
  have m: "head_matches (Some d) b" "shows_chars (snd sg) (bl_chars b)" using assms(1) d by (simp_all add: seg_shows_def)
  obtain cs' where "foldl visible_step (acc @ [visible_block d]) (snd sg)
      = acc @ [(visible_block d)\<lparr>bl_chars := bl_chars (visible_block d) @ cs'\<rparr>]" "list_all2 same_char cs' (bl_chars b)"
    using visible_chars[OF m(2)] by blast
  then show "\<exists>bs'. foldl visible_step acc (flat sg) = acc @ bs' \<and> same_document bs' [b]"
    using m(1) d
    by (simp add: flat_def visible_step_def head_matches_def same_document_def same_block_def visible_block_def
        same_attrs_visible)
qed

lemma implicit_opens:
  assumes "seg_shows (None, B) b" and "live B \<noteq> []"
  shows "opens B [b]"
proof -
  have m: "head_matches None b" "shows_chars B (bl_chars b)" using assms(1) by (simp_all add: seg_shows_def)
  have "foldl visible_step [] B = foldl visible_step [paragraph_block] B"
    using assms(2) m(2)
  proof (induction B arbitrary: b rule: list.induct)
    case (Cons e B)
    show ?case
    proof (cases "se_t e")
      case True
      then show ?thesis using Cons.IH[of b] Cons.prems by (simp add: visible_step_def)
    next
      case False
      then have "se_k e \<noteq> ''delim''" using Cons.prems(2) by (auto simp: list_all2_Cons1 char_matches_def)
      then show ?thesis using False by (simp add: visible_step_def)
    qed
  qed simp
  moreover obtain cs' where "foldl visible_step ([] @ [paragraph_block]) B
      = [] @ [paragraph_block\<lparr>bl_chars := bl_chars paragraph_block @ cs'\<rparr>]" "list_all2 same_char cs' (bl_chars b)"
    using visible_chars[OF m(2)] by blast
  ultimately show ?thesis
    using m(1) by (simp add: opens_def same_document_def same_block_def head_matches_def paragraph_block_def)
qed

lemma delimiter_shows:
  "\<not> se_t e \<Longrightarrow> se_k e = ''delim'' \<Longrightarrow> seg_shows (Some e, []) (visible_block e)"
  by (simp add: seg_shows_def head_matches_def visible_block_def) (simp add: same_attrs_def map_of_drop_key)

lemma visible_segments_aux:
  "(foldl visible_step [] S = [] \<and> live S = [])
   \<or> (\<exists>J sgs. S = J @ flats sgs \<and> seg_form J sgs \<and> (fst (hd sgs) = None \<longrightarrow> live (snd (hd sgs)) \<noteq> [])
        \<and> list_all2 seg_shows sgs (foldl visible_step [] S))"
proof (induction S rule: rev_induct)
  case (snoc e S)
  let ?bs = "foldl visible_step [] S"
  from snoc.IH show ?case
  proof (elim disjE exE conjE, goal_cases)
    case start: 1
    consider "se_t e" | "\<not> se_t e" "se_k e = ''delim''" | "\<not> se_t e" "se_k e \<noteq> ''delim''" by blast
    then show ?thesis
    proof cases
      case 1
      then show ?thesis using start by (simp add: visible_step_def)
    next
      case 2
      then show ?thesis using start
        by (intro disjI2 exI[of _ S] exI[of _ "[(Some e, [])]"])
          (simp add: seg_form_def flat_def delimiter_shows visible_step_def)
    next
      case 3
      then show ?thesis using start
        by (intro disjI2 exI[of _ "[]"] exI[of _ "[(None, S @ [e])]"])
          (simp add: seg_form_def flat_def seg_shows_def head_matches_def visible_step_def paragraph_block_def
            same_attrs_def char_matches_def visible_char_def)
    qed
  next
    case more: (2 J sgs)
    obtain sgs0 sg where sgs: "sgs = sgs0 @ [sg]" using more(2) by (cases sgs rule: rev_cases) (auto simp: seg_form_def)
    then obtain bs0 b where bs: "?bs = bs0 @ [b]" "list_all2 seg_shows sgs0 bs0" "seg_shows sg b"
      using more(4) by (auto simp: list_all2_append1 list_all2_Cons1)
    have hd_eq: "hd (sgs0 @ [x]) = (if sgs0 = [] then x else hd sgs0)" for x :: segment by (cases sgs0) simp_all
    have tl_eq: "tl (sgs0 @ [x]) = (if sgs0 = [] then [] else tl sgs0 @ [x])" for x :: segment by (cases sgs0) simp_all
    show ?thesis
    proof (cases "\<not> se_t e \<and> se_k e = ''delim''")
      case True
      then have "visible_step ?bs e = ?bs @ [visible_block e]" by (simp add: visible_step_def)
      then have "list_all2 seg_shows (sgs @ [(Some e, [])]) (visible_step ?bs e)"
        using more(4) True by (simp add: list_all2_appendI delimiter_shows)
      moreover have "seg_form J (sgs @ [(Some e, [])])"
        using more(2,3) by (cases sgs) (auto simp: seg_form_def)
      ultimately show ?thesis using more(1-3) True
        by (intro disjI2 exI[of _ J] exI[of _ "sgs @ [(Some e, [])]"]) (cases sgs; simp add: flat_def seg_form_def)
    next
      case False
      let ?sgs = "sgs0 @ [(fst sg, snd sg @ [e])]"
      have "list_all2 seg_shows ?sgs (visible_step ?bs e)"
        using False bs by (auto simp: visible_step_def seg_shows_def head_matches_def char_matches_def
            visible_char_def intro!: list_all2_appendI split: option.splits)
      moreover have "seg_form J ?sgs" and "fst (hd ?sgs) = None \<longrightarrow> live (snd (hd ?sgs)) \<noteq> []"
        using more(2,3) by (auto simp: seg_form_def sgs hd_eq tl_eq split: if_splits)
      ultimately show ?thesis using more(1)
        by (intro disjI2 exI[of _ J] exI[of _ ?sgs]) (simp add: flat_def sgs)
    qed
  qed
qed simp

lemma visible_segments:
  "\<exists>J sgs. S = J @ flats sgs \<and> seg_form J sgs \<and> list_all2 seg_shows sgs (visible_document S)"
proof (cases "foldl visible_step [] S = []")
  case True
  then have "live S = []" using visible_segments_aux[of S] by (auto simp: seg_form_def)
  then show ?thesis using True
    by (intro exI[of _ "[]"] exI[of _ "[(None, S)]"])
      (simp add: seg_form_def flat_def seg_shows_def head_matches_def visible_document_def paragraph_block_def same_attrs_def)
next
  case False
  then show ?thesis using visible_segments_aux[of S] by (auto simp: visible_document_def)
qed

lemma segments_of_same:
  assumes "list_all2 seg_shows sgs xs" and "same_document xs ys"
  shows "list_all2 seg_shows sgs ys"
  using assms unfolding same_document_def
proof (rule list_all2_trans[rotated])
  fix sg x y
  assume "seg_shows sg x" and "same_block x y"
  then have "list_all2 char_matches (live (snd sg)) (bl_chars x)" "list_all2 same_char (bl_chars x) (bl_chars y)"
    by (simp_all add: seg_shows_def same_block_def)
  then have "shows_chars (snd sg) (bl_chars y)"
    by (rule list_all2_trans[rotated]) (simp add: char_matches_def same_char_def)
  then show "seg_shows sg y"
    using \<open>seg_shows sg x\<close> \<open>same_block x y\<close>
    by (auto simp: seg_shows_def same_block_def head_matches_def same_attrs_def split: option.splits)
qed

section \<open>Ranges of blocks\<close>

lemma off_Suc: "b < length sgs \<Longrightarrow> off J sgs (Suc b) = off J sgs b + length (flat (sgs ! b))"
  by (simp add: off_def take_Suc_conv_app_nth)

lemma flats_drop: "b < length sgs \<Longrightarrow> flats (drop b sgs) = flat (sgs ! b) @ flats (drop (Suc b) sgs)"
  by (simp add: Cons_nth_drop_Suc[symmetric])

lemma run_blocks:
  assumes "seg_form J sgs" and "list_all2 seg_shows sgs before" and "\<forall>b \<in> set after. neat b"
    and "i + k \<le> length sgs" and "j + k \<le> length after" and "\<And>c. c < k \<Longrightarrow> fst (sgs ! (i + c)) \<noteq> None"
    and "cur S st = P @ flats (drop i sgs)" and "length P = off J sgs i + snd st"
  defines "l \<equiv> buildLiveIndex (J @ flats sgs)"
  defines "run \<equiv> \<lambda>k. fold (\<lambda>c. reconcile_block l before after (i + c) (j + c)) [0..<k] st"
  shows "\<exists>Z. cur S (run k) = P @ Z @ flats (drop (i + k) sgs) \<and> renders Z (take k (drop j after))
    \<and> length (P @ Z) = off J sgs (i + k) + snd (run k)"
  using assms(4-6)
proof (induction k)
  case 0
  then show ?case using assms(7,8) by (intro exI[of _ "[]"]) (simp add: run_def renders_Nil)
next
  case (Suc k)
  then obtain Z where Z: "cur S (run k) = P @ Z @ flats (drop (i + k) sgs)" "renders Z (take k (drop j after))"
      "length (P @ Z) = off J sgs (i + k) + snd (run k)"
    by auto
  have run: "run (Suc k) = reconcile_block l before after (i + k) (j + k) (run k)" by (simp add: run_def)
  have i: "i + k < length sgs" using Suc.prems by simp
  have "cur S (run k) = (P @ Z) @ flat (sgs ! (i + k)) @ flats (drop (Suc (i + k)) sgs)"
    using Z(1) flats_drop[OF i] by simp
  moreover have "neat (after ! (j + k))" using assms(3) Suc.prems by simp
  ultimately obtain sg where sg: "cur S (run (Suc k)) = (P @ Z) @ flat sg @ flats (drop (Suc (i + k)) sgs)"
      "seg_shows sg (after ! (j + k))" "fst sg \<noteq> None"
      "length (flat sg) + snd (run k) = length (flat (sgs ! (i + k))) + snd (run (Suc k))"
    using reconcile_block_correct[OF assms(1,2) i, of after "j + k" S "run k" "P @ Z"] Z(3) Suc.prems(3)[of k]
    unfolding run l_def by auto
  have "renders (Z @ flat sg) (take k (drop j after) @ [after ! (j + k)])"
    by (rule renders_append[OF Z(2) segment_renders[OF sg(2,3)]])
  moreover have "take (Suc k) (drop j after) = take k (drop j after) @ [after ! (j + k)]"
    using Suc.prems(2) by (simp add: take_Suc_conv_app_nth)
  ultimately show ?case
    using sg(1,4) Z(3) off_Suc[OF i] by (intro exI[of _ "Z @ flat sg"]) simp
qed

definition buried :: "StreamEntry list \<Rightarrow> StreamEntry list" where
  "buried Z = map (\<lambda>e. e\<lparr>se_t := True\<rparr>) Z"

lemma live_buried [simp]: "live (buried Z) = []" and length_buried [simp]: "length (buried Z) = length Z"
  by (simp_all add: buried_def)

lemma run_removes:
  assumes "seg_form J sgs" and "list_all2 seg_shows sgs before"
    and "a + k \<le> length sgs" and "cur S st = P @ flats (take k (drop a sgs)) @ Q" and "length P = off J sgs a + snd st"
  defines "l \<equiv> buildLiveIndex (J @ flats sgs)"
  shows "cur S (fold (remove_block l) (rev [a..<a + k]) st) = P @ buried (flats (take k (drop a sgs))) @ Q"
    and "snd (fold (remove_block l) (rev [a..<a + k]) st) = snd st"
proof -
  have snd: "snd (fold (remove_block l) bs st) = snd st" for bs st
    by (induction bs arbitrary: st) (simp_all add: remove_block_def Let_def)
  then show "snd (fold (remove_block l) (rev [a..<a + k]) st) = snd st" .
  show "cur S (fold (remove_block l) (rev [a..<a + k]) st) = P @ buried (flats (take k (drop a sgs))) @ Q"
    using assms(3-5)
  proof (induction k arbitrary: Q st)
    case 0
    then show ?case by (simp add: buried_def)
  next
    case (Suc k)
    let ?M = "flats (take k (drop a sgs))" and ?sg = "sgs ! (a + k)"
    have b: "a + k < length sgs" using Suc.prems by simp
    have tk: "take (Suc k) (drop a sgs) = take k (drop a sgs) @ [?sg]"
      using b by (simp add: take_Suc_conv_app_nth)
    have "length ?M + off J sgs a = off J sgs (a + k)"
      by (simp add: off_def take_add)
    then have len: "length (P @ ?M) = off J sgs (a + k) + snd st" using Suc.prems(3) by simp
    have rb: "remove_block l (a + k) st = push (map (\<lambda>i. delete_op (length (P @ ?M) + i)) (rev (lpos (flat ?sg)))) st"
    proof -
      note idx = segment_index[OF assms(1,2) b, folded l_def]
      have "filter (is_live l) (rev [off J sgs (a + k)..<off J sgs (a + k + 1)])
          = map ((+) (off J sgs (a + k))) (rev (lpos (flat ?sg)))"
        using idx(7) by (simp add: rev_filter[symmetric] rev_map)
      then show ?thesis
        unfolding remove_block_def idx(1) idx(5) Let_def len by (simp add: comp_def add.commute add.left_commute)
    qed
    have "cur S st = (P @ ?M) @ flat ?sg @ Q" using Suc.prems(2) by (simp add: tk)
    then have "cur S (remove_block l (a + k) st) = P @ ?M @ buried (flat ?sg) @ Q"
      using run_deletes[of "P @ ?M" "flat ?sg" Q] by (simp add: rb buried_def)
    from Suc.IH[OF _ this] Suc.prems(1,3)
    show ?case by (simp add: tk rb buried_def)
  qed
qed

lemma insertWholeBlock_correct:
  assumes "cur S st = P @ Q" and "n = length P" and "neat b"
  shows "\<exists>sg. cur S (fst (insertWholeBlock b n st)) = P @ flat sg @ Q \<and> renders (flat sg) [b]
    \<and> length (flat sg) + snd st = snd (fst (insertWholeBlock b n st))
    \<and> snd (insertWholeBlock b n st) = length (P @ flat sg)"
proof -
  let ?d = "entry_of (insertDelimiter_op n (bl_type b)) no_identity"
  let ?at = "filter (\<lambda>(k, v). k \<noteq> ''type'') (bl_attrs b)"
  let ?st1 = "shift_by 1 (push [insertDelimiter_op n (bl_type b)] st)"
  have "cur S ?st1 = (P @ [?d]) @ Q" using assms(1,2) by simp
  from run_insert_chars[OF this, of "n + 1" "bl_chars b"] assms(2,3) obtain N where
    N: "cur S (insert_chars (n + 1) (bl_chars b) ?st1) = (P @ [?d]) @ N @ Q" "shows_chars N (bl_chars b)"
      "length N = length (bl_chars b)" "snd (insert_chars (n + 1) (bl_chars b) ?st1) = snd ?st1 + length (bl_chars b)"
    by (auto simp: neat_def)
  have m: "map_of ?at k = (if k = ''type'' then None else map_of (bl_attrs b) k)" for k
    by (simp add: map_of_drop_key)
  have "distinct (map fst ?at)" using assms(3) by (simp add: neat_def distinct_map_filter)
  then have ops: "map (\<lambda>(name, value). setAttr_op n name (Some value)) ?at
      = map (\<lambda>k. setAttr_op n k (map_of ?at k)) (map fst ?at)"
    by (auto simp: map_of_eq_Some_iff simp del: map_of_filter_in)
  obtain a where a: "run_ops (map (\<lambda>k. setAttr_op n k (map_of ?at k)) (map fst ?at)) (P @ ?d # N @ Q) = P @ ?d\<lparr>se_a := a\<rparr> # N @ Q"
    "\<forall>k. map_of a k = (if k \<in> set (map fst ?at) then map_of ?at k else map_of (se_a ?d) k)"
    using run_attrs[OF assms(2)] by blast
  have "map_of a k = map_of (bl_attrs b) k" if "k \<noteq> ''type''" for k
    using a(2) m[of k] that map_of_eq_None_iff[of ?at k]
    by (auto simp: entry_of_def insertDelimiter_op_def)
  moreover have "map_of a ''type'' = Some (bl_type b)"
    using a(2) by (auto simp: entry_of_def insertDelimiter_op_def get_or_def)
  ultimately have "seg_shows (Some (?d\<lparr>se_a := a\<rparr>), N) b"
    using N(2) by (simp add: seg_shows_def head_matches_def same_attrs_def get_or_def entry_of_def insertDelimiter_op_def)
  moreover from this have "renders (flat (Some (?d\<lparr>se_a := a\<rparr>), N)) [b]" by (rule segment_renders) simp
  moreover have "cur S (fst (insertWholeBlock b n st)) = P @ flat (Some (?d\<lparr>se_a := a\<rparr>), N) @ Q"
    using N(1) a(1) by (simp add: insertWholeBlock_def Let_def ops flat_def del: map_map)
  ultimately show ?thesis
    using N(3,4) assms(2) by (intro exI[of _ "(Some (?d\<lparr>se_a := a\<rparr>), N)"]) (simp add: insertWholeBlock_def Let_def flat_def)
qed

lemma run_adds:
  assumes "cur S st = P @ Q" and "n = length P" and "\<forall>b \<in> set bs. neat b"
  shows "\<exists>Z. cur S (add_blocks bs n st) = P @ Z @ Q \<and> renders Z bs \<and> length Z + snd st = snd (add_blocks bs n st)"
  using assms
proof (induction bs arbitrary: P n st)
  case Nil
  then show ?case by (intro exI[of _ "[]"]) (simp add: renders_Nil)
next
  case (Cons b bs)
  obtain sg where sg: "cur S (fst (insertWholeBlock b n st)) = (P @ flat sg) @ Q" "renders (flat sg) [b]"
      "length (flat sg) + snd st = snd (fst (insertWholeBlock b n st))"
      "snd (insertWholeBlock b n st) = length (P @ flat sg)"
    using insertWholeBlock_correct[OF Cons.prems(1,2), of b] Cons.prems(3) by auto
  obtain Z where Z: "cur S (add_blocks bs (snd (insertWholeBlock b n st)) (fst (insertWholeBlock b n st))) = (P @ flat sg) @ Z @ Q"
      "renders Z bs" "length Z + snd (fst (insertWholeBlock b n st))
        = snd (add_blocks bs (snd (insertWholeBlock b n st)) (fst (insertWholeBlock b n st)))"
    using Cons.IH[OF sg(1,4)] Cons.prems(3) by auto
  show ?case
    using Z sg(3) renders_append[OF sg(2) Z(2)]
    by (intro exI[of _ "flat sg @ Z"]) (simp add: case_prod_beta)
qed

section \<open>The whole diff\<close>

lemma leading_head:
  assumes "seg_form J sgs" and "list_all2 seg_shows sgs bs" and "leading_delimiter (J @ flats sgs)"
  shows "fst (hd sgs) \<noteq> None"
proof
  assume None: "fst (hd sgs) = None"
  obtain sg rest where sgs: "sgs = sg # rest" using assms(1) by (cases sgs) (auto simp: seg_form_def)
  have J: "J = []" and alive: "live (snd sg) \<noteq> [] \<or> rest = []"
    using assms(1) None by (auto simp: seg_form_def sgs)
  have "se_k e \<noteq> ''delim''" if "e \<in> set (live (snd sg))" for e
    using assms(2) that by (auto simp: sgs list_all2_Cons1 seg_shows_def char_matches_def list_all2_conv_all_nth in_set_conv_nth)
  then show False
    using assms(3) alive None by (auto simp: leading_delimiter_def J sgs flat_def hd_append)
qed

text \<open>After the blocks that are kept in place: the removed, the added and the blocks of the common end.\<close>

lemma run_rest:
  assumes "seg_form J sgs" and "list_all2 seg_shows sgs before" and "\<forall>b \<in> set after. neat b"
    and "k + s \<le> length before" and "k + s \<le> length after" and "\<And>c. c < s \<Longrightarrow> fst (sgs ! (length before - s + c)) \<noteq> None"
    and "cur S st = A @ flats (drop k sgs)" and "length A = off J sgs k + snd st"
  defines "l \<equiv> buildLiveIndex (J @ flats sgs)"
  defines "st2 \<equiv> fold (remove_block l) (rev [k..<length before - s]) st"
  defines "cursor \<equiv> (if s > 0 then firstLiveOfBlock l (length before - s) else length (streamToLive l)) + snd st2"
  defines "st3 \<equiv> add_blocks (take (length after - s - k) (drop k after)) cursor st2"
  defines "st4 \<equiv> fold (\<lambda>c. reconcile_block l before after (length before - s + c) (length after - s + c)) [0..<s] st3"
  shows "\<exists>Z. cur S st4 = A @ Z \<and> renders Z (drop k after)"
proof -
  let ?n = "length before" and ?k = "length before - s - k"
  have n: "length sgs = ?n" using list_all2_lengthD[OF assms(2)] .
  have ks: "k + ?k = ?n - s" using assms(4) by simp
  let ?M = "take ?k (drop k sgs)" and ?R = "flats (drop (?n - s) sgs)"
  have "drop ?k (drop k sgs) = drop (?n - s) sgs" unfolding drop_drop using ks by (simp add: add.commute)
  then have "drop k sgs = ?M @ drop (?n - s) sgs" by (metis append_take_drop_id)
  then have "flats (drop k sgs) = flats ?M @ ?R" by (metis concat_append map_append)
  then have "cur S st = A @ flats ?M @ ?R" using assms(7) by simp
  moreover have "k + ?k \<le> length sgs" using n assms(4) by simp
  ultimately have st2: "cur S st2 = (A @ buried (flats ?M)) @ ?R" "snd st2 = snd st"
    using run_removes[OF assms(1,2) _ _ assms(8), of ?k S ?R] unfolding st2_def l_def
    by (simp_all only: ks append_assoc)
  have "length (flats ?M) + off J sgs k = off J sgs (k + ?k)"
    by (simp only: off_def take_add) simp
  then have "length (flats ?M) + off J sgs k = off J sgs (?n - s)" by (simp only: ks)
  then have len2: "length (A @ buried (flats ?M)) = off J sgs (?n - s) + snd st2"
    using assms(8) st2(2) by simp
  have "cursor = length (A @ buried (flats ?M))"
  proof (cases "s > 0")
    case True
    then have "?n - s < length sgs" using n assms(4) by simp
    from segment_index(2)[OF assms(1,2) this] show ?thesis
      unfolding cursor_def len2 l_def using True by simp
  next
    case False
    have "length (streamToLive l) = off J sgs ?n"
      using buildLiveIndex_spec[of "J @ flats sgs"] n by (simp add: l_def off_def)
    then show ?thesis unfolding cursor_def len2 using False by simp
  qed
  moreover have "\<forall>b \<in> set (take (length after - s - k) (drop k after)). neat b"
    using assms(3) by (auto dest: in_set_takeD in_set_dropD)
  ultimately obtain Z where Z: "cur S st3 = (A @ buried (flats ?M)) @ Z @ ?R"
      "renders Z (take (length after - s - k) (drop k after))" "length Z + snd st2 = snd st3"
    using run_adds[OF st2(1)] unfolding st3_def by blast
  have cur3: "cur S st3 = (A @ buried (flats ?M) @ Z) @ ?R" using Z(1) by simp
  have len3: "length (A @ buried (flats ?M) @ Z) = off J sgs (?n - s) + snd st3"
    using len2 Z(3) by simp
  have "?n - s + s \<le> length sgs" "length after - s + s \<le> length after" using n assms(4,5) by simp_all
  from run_blocks[OF assms(1-3) this assms(6) cur3 len3] obtain Z' where
    Z': "cur S st4 = (A @ buried (flats ?M) @ Z) @ Z' @ flats (drop (?n - s + s) sgs)"
      "renders Z' (take s (drop (length after - s) after))"
    unfolding st4_def l_def by blast
  have "flats (drop (?n - s + s) sgs) = []" using n assms(4) by simp
  moreover have "renders (buried (flats ?M) @ Z @ Z') ([] @ take (length after - s - k) (drop k after)
      @ take s (drop (length after - s) after))"
    by (intro renders_append Z(2) Z'(2) renders_Nil) simp
  moreover have "take (length after - s - k) (drop k after) @ take s (drop (length after - s) after) = drop k after"
  proof -
    have "drop (length after - s - k) (drop k after) = drop (length after - s) after"
      using assms(5) unfolding drop_drop by simp
    moreover have "take s (drop (length after - s) after) = drop (length after - s) after"
      using assms(5) by simp
    ultimately show ?thesis by (metis append_take_drop_id)
  qed
  ultimately show ?thesis using Z'(1) by (intro exI[of _ "buried (flats ?M) @ Z @ Z'"]) simp
qed

text \<open>
  When the diff keeps the document's shape: the stream starts with a delimiter, or its implicit
  first block is not moved down by blocks before it and does not become blank in front of others.
\<close>

definition anchored :: "CanonicalBlock list \<Rightarrow> CanonicalBlock list \<Rightarrow> StreamEntry list \<Rightarrow> bool" where
  "anchored before after stream \<longleftrightarrow>
     leading_delimiter stream
     \<or> matched_suffix before after < length before \<and> (scalars (hd after) \<noteq> [] \<or> length after = 1)"

lemma reconcile_shows:
  assumes "same_document (visible_document S) before" and "\<forall>b \<in> set after. neat b" and "after \<noteq> []"
    and "anchored before after S"
  shows "same_document (visible_document (run_ops (reconcile before after S) S)) after"
proof -
  obtain J sgs where S: "S = J @ flats sgs" and form: "seg_form J sgs" and "list_all2 seg_shows sgs (visible_document S)"
    using visible_segments[of S] by blast
  then have fits: "list_all2 seg_shows sgs before" using segments_of_same assms(1) by blast
  have n: "length sgs = length before" by (rule list_all2_lengthD[OF fits])
  define p where "p = matched_prefix before after"
  define s where "s = matched_suffix before after"
  define k where "k = p + min (length before - p - s) (length after - p - s)"
  define l where "l = buildLiveIndex (J @ flats sgs)"
  have pl: "p \<le> length before" "p \<le> length after"
    unfolding p_def matched_prefix_def by (rule common_prefix_le)+
  have ps: "p + s \<le> length before" "p + s \<le> length after"
    using common_suffix_le[OF pl, of block_eq] by (simp_all add: s_def matched_suffix_def p_def)
  then have ks: "k + s \<le> length before" "k + s \<le> length after" by (simp_all add: k_def)
  define st1 where "st1 = fold (\<lambda>b. reconcile_block l before after b b) [0..<k] ([], 0)"
  define st2 where "st2 = fold (remove_block l) (rev [k..<length before - s]) st1"
  define cursor where "cursor = (if s > 0 then firstLiveOfBlock l (length before - s) else length (streamToLive l)) + snd st2"
  define st3 where "st3 = add_blocks (take (length after - s - k) (drop k after)) cursor st2"
  define st4 where "st4 = fold (\<lambda>c. reconcile_block l before after (length before - s + c) (length after - s + c)) [0..<s] st3"
  have res: "run_ops (reconcile before after S) S = cur S st4"
    by (simp add: reconcile_def Let_def cur_def S l_def p_def s_def k_def st1_def st2_def cursor_def st3_def st4_def)
  have "hd sgs = sgs ! 0" "0 < length sgs" using form by (auto simp: seg_form_def hd_conv_nth)
  have headless: "fst (sgs ! i) \<noteq> None" if "i < length sgs" "0 < i \<or> fst (hd sgs) \<noteq> None" for i
    using seg_form_None[OF form that(1)] that(2) \<open>hd sgs = sgs ! 0\<close> by auto
  have moved: "fst (hd sgs) \<noteq> None \<or> s < length before \<and> (scalars (hd after) \<noteq> [] \<or> length after = 1)"
    using assms(4) leading_head[OF form fits] by (auto simp: anchored_def S s_def)
  have sfx: "fst (sgs ! (length before - s + c)) \<noteq> None" if "c < s" for c
    using headless[of "length before - s + c"] moved that ks(1) n by fastforce
  have start: "cur S ([], 0) = J @ flats (drop 0 sgs)" "length J = off J sgs 0 + snd ([] :: SeedOperation list, 0 :: nat)"
    by (simp_all add: cur_def S off_def)
  have "\<exists>A. cur S st1 = A @ flats (drop k sgs) \<and> length A = off J sgs k + snd st1
      \<and> (opens A (take k after) \<or> live A = [] \<and> (\<exists>y. after = [y] \<and> k = 1 \<and> same_block paragraph_block y))"
  proof (cases "k = 0 \<or> fst (hd sgs) \<noteq> None")
    case True
    then have "fst (sgs ! (0 + c)) \<noteq> None" if "c < k" for c using headless that ks(1) n by auto
    from run_blocks[OF form fits assms(2) _ _ this start, of k 0] ks n obtain Z where
      "cur S st1 = J @ Z @ flats (drop k sgs)" "renders Z (take k after)" "length (J @ Z) = off J sgs k + snd st1"
      unfolding st1_def l_def by auto
    moreover have "renders J []" using form by (intro renders_Nil) (simp add: seg_form_def)
    ultimately show ?thesis
      using renders_opens[OF renders_append[of J "[]" Z]] by (intro exI[of _ "J @ Z"]) simp
  next
    case False
    then have "0 < k" and none: "fst (hd sgs) = None" by simp_all
    then have J: "J = []" using form by (simp add: seg_form_def)
    let ?st0 = "reconcile_block l before after 0 0 ([], 0)"
    have "cur S ([], 0) = [] @ flat (sgs ! 0) @ flats (drop 1 sgs)"
      using flats_drop[of 0 sgs] \<open>0 < length sgs\<close> start(1) J by simp
    moreover have "neat (after ! 0)" using assms(2,3) by simp
    ultimately obtain sg where sg: "cur S ?st0 = flat sg @ flats (drop 1 sgs)" "seg_shows sg (after ! 0)"
        "length (flat sg) = length (flat (sgs ! 0)) + snd ?st0"
      using reconcile_block_correct[OF form fits \<open>0 < length sgs\<close>, of after 0 S "([], 0)" "[]"] start(2) J
      unfolding l_def by auto
    have len: "length (flat sg) = off J sgs 1 + snd ?st0"
      using sg(3) off_Suc[OF \<open>0 < length sgs\<close>, of J] J by (simp add: off_def)
    have idx: "[0..<k] = 0 # map Suc [0..<k - 1]"
      using \<open>0 < k\<close> by (simp add: upt_conv_Cons map_Suc_upt)
    have st1: "st1 = fold (\<lambda>c. reconcile_block l before after (1 + c) (1 + c)) [0..<k - 1] ?st0"
      unfolding st1_def idx by (simp add: fold_map comp_def)
    have "fst (sgs ! (1 + c)) \<noteq> None" if "c < k - 1" for c using headless[of "1 + c"] that ks(1) n by simp
    from run_blocks[OF form fits assms(2) _ _ this sg(1) len, of "k - 1" 1] ks n \<open>0 < k\<close> obtain Z where
      Z: "cur S st1 = (flat sg @ Z) @ flats (drop k sgs)" "renders Z (take (k - 1) (drop 1 after))"
        "length (flat sg @ Z) = off J sgs k + snd st1"
      unfolding st1 l_def by auto
    have tk: "take k after = [after ! 0] @ take (k - 1) (drop 1 after)"
      using \<open>0 < k\<close> assms(3) by (cases after) (simp_all add: take_Cons')
    have hd_after: "hd after = after ! 0" using assms(3) by (simp add: hd_conv_nth)
    show ?thesis
    proof (cases "fst sg = None \<and> live (snd sg) = []")
      case False
      have "opens (flat sg) [after ! 0]"
      proof (cases "fst sg")
        case None
        then show ?thesis using implicit_opens[of "snd sg"] sg(2) False by (simp add: flat_def seg_shows_def)
      next
        case (Some d)
        then show ?thesis using renders_opens[OF segment_renders[OF sg(2)]] by simp
      qed
      from opens_append[OF this Z(2)] have "opens (flat sg @ Z) (take k after)" by (simp add: tk)
      then show ?thesis using Z by (intro exI[of _ "flat sg @ Z"]) simp
    next
      case True
      then have "bl_chars (after ! 0) = []" using sg(2) by (simp add: seg_shows_def)
      then obtain y where y: "after = [y]"
        using moved none assms(3) by (cases after) (auto simp: scalars_def hd_after)
      then have k: "k = 1" using ks(2) \<open>0 < k\<close> by simp
      then have "Z = []" using Z(1) sg(1) unfolding st1 by simp
      moreover have "same_block paragraph_block y"
        using sg(2) True \<open>bl_chars (after ! 0) = []\<close>
        by (simp add: y seg_shows_def head_matches_def same_block_def paragraph_block_def)
      moreover have "live (flat sg) = []" using True by (simp add: flat_def)
      ultimately show ?thesis
        using Z(1,3) k y by (intro exI[of _ "flat sg"]) simp
    qed
  qed
  then obtain A where A: "cur S st1 = A @ flats (drop k sgs)" "length A = off J sgs k + snd st1"
      "opens A (take k after) \<or> live A = [] \<and> (\<exists>y. after = [y] \<and> k = 1 \<and> same_block paragraph_block y)"
    by blast
  from run_rest[OF form fits assms(2) ks sfx A(1,2)] obtain Z where
    Z: "cur S st4 = A @ Z" "renders Z (drop k after)"
    unfolding st4_def st3_def cursor_def st2_def l_def by blast
  from A(3) show ?thesis
  proof
    assume "opens A (take k after)"
    from opens_append[OF this Z(2)] have "same_document (foldl visible_step [] (cur S st4)) after"
      by (simp add: opens_def Z(1))
    moreover from this assms(3) have "foldl visible_step [] (cur S st4) \<noteq> []"
      by (auto simp: same_document_def)
    ultimately show ?thesis by (simp add: res visible_document_def)
  next
    assume special: "live A = [] \<and> (\<exists>y. after = [y] \<and> k = 1 \<and> same_block paragraph_block y)"
    then obtain y where y: "after = [y]" "k = 1" "same_block paragraph_block y" by blast
    have "renders A []" using special by (intro renders_Nil) simp
    moreover have "renders Z []" using Z(2) y by simp
    ultimately have "renders (A @ Z) ([] @ [])" by (rule renders_append)
    then have "foldl visible_step [] (cur S st4) = []"
      using Z(1) by (auto simp: renders_def same_document_def)
    then have "visible_document (cur S st4) = [paragraph_block]" by (simp add: visible_document_def)
    then show ?thesis using y unfolding res same_document_def by simp
  qed
qed

section \<open>In the worker\<close>

text \<open>Identities do not show.\<close>

definition anonymous :: "StreamEntry \<Rightarrow> StreamEntry" where
  "anonymous e = e\<lparr>se_r := [], se_c := []\<rparr>"

lemma visible_anonymous: "visible_document (map anonymous S) = visible_document S"
proof -
  have "foldl visible_step bs (map anonymous S) = foldl visible_step bs S" for bs
    by (induction S arbitrary: bs)
      (simp_all add: visible_step_def anonymous_def visible_block_def visible_char_def)
  then show ?thesis by (simp add: visible_document_def)
qed

lemma view_op_anonymous:
  assumes "map anonymous b = map anonymous b'"
  shows "map anonymous (view_op i x b) = map anonymous (view_op i' x b')"
proof -
  have len: "length b = length b'" using assms by (metis length_map)
  have edit: "anonymous (edit_target x e) = edit_target x (anonymous e)" for e
    by (simp add: anonymous_def edit_target_def Let_def split: option.splits)
  have "map anonymous (take n b) = map anonymous (take n b')" "map anonymous (drop n b) = map anonymous (drop n b')" for n
    using assms by (simp_all flip: take_map drop_map)
  moreover have "anonymous (b ! n) = anonymous (b' ! n)" if "n < length b" for n
    using that assms len by (metis nth_map)
  moreover have "anonymous (entry_of x i) = anonymous (entry_of x i')"
    by (simp add: anonymous_def entry_of_def)
  ultimately show ?thesis
    using assms len by (cases "so_streamIndex x < length b") (auto simp: view_op_def splice_in_def map_update edit list_update_beyond)
qed

lemma reconcile_loop_view:
  assumes "reconcile_loop eng os e (Some b) cu g = Some (e', g', Some b')"
    and "map anonymous b = map anonymous v"
  shows "map anonymous b' = map anonymous (run_ops os v)"
  using assms
proof (induction os arbitrary: e b cu g v)
  case (Cons x os)
  obtain e1 b1 cu1 g1 where step: "reconcile_loop eng os e1 (Some b1) cu1 g1 = Some (e', g', Some b')"
      and "\<exists>i. b1 = view_op i x b"
    using Cons.prems(1)
    by (auto simp: view_op_def Let_def split: option.splits prod.splits if_splits) blast+
  then have "map anonymous b1 = map anonymous (view_op no_identity x v)"
    using view_op_anonymous[OF Cons.prems(2)] by blast
  from Cons.IH[OF step this] show ?case by simp
qed simp

section \<open>Where the diff loses a block\<close>

definition plain_block :: "nat list \<Rightarrow> CanonicalBlock" where
  "plain_block cs = paragraph_block\<lparr>bl_chars := map (\<lambda>c. \<lparr>ch_scalar = c, ch_marks = []\<rparr>) cs\<rparr>"

definition text_entry :: "nat \<Rightarrow> StreamEntry" where
  "text_entry c = \<lparr>se_r = ''1'', se_c = show_nat c, se_k = ''text'', se_t = False, se_s = [c], se_a = []\<rparr>"

text \<open>
  Without the condition: Enter at the start of a document whose first block is implicit puts a
  delimiter in front of its text, and that delimiter becomes the block's own. The editor shows two
  blocks and the replica one.
\<close>

lemma split_of_implicit_block_lost:
  "visible_document (run_ops (reconcile [plain_block [97]] [plain_block [], plain_block [97]] [text_entry 97]) [text_entry 97])
    = [plain_block [97]\<lparr>bl_type := ''paragraph''\<rparr>]"
  by code_simp

text \<open>
  And a view with a block more than the stream, the empty paragraph that the editor keeps after a
  list or a heading: when that block goes, \<open>blockStarts\<close> has no entry for it, its start is taken for 0
  and everything is deleted.
\<close>

lemma removed_trailing_block_clears_all:
  "visible_document (run_ops (reconcile [plain_block [97], plain_block []] [plain_block [97]] [text_entry 97]) [text_entry 97])
    = [paragraph_block]"
  by code_simp

section \<open>Formatting\<close>

lemma common_prefix_full: "list_all2 eq xs ys \<Longrightarrow> common_prefix eq xs ys = length xs"
  by (induction eq xs ys rule: common_prefix.induct) auto

definition format_op :: "SeedOperation \<Rightarrow> bool" where
  "format_op x \<longleftrightarrow> so_kind x = SetAttr \<or> so_kind x = InsertDelimiter"

lemma block_format_ops:
  assumes "block_eq x y" and "list_all format_op (fst st)"
  shows "list_all format_op (fst (reconcileBlockChars l x y b (reconcileBlockAttrs l x y b st)))"
proof -
  have eq: "list_all2 same_scalar (bl_chars x) (bl_chars y)" using assms(1) by (simp add: block_eq_def)
  note len = list_all2_lengthD[OF eq] and p = common_prefix_full[OF eq]
  have s: "common_suffix same_scalar (length (bl_chars y)) (bl_chars x) (bl_chars y) = 0"
    using len by (simp add: common_suffix_def)
  have mark: "list_all format_op (fst (writeMarks l idx bc ac i j st'))" if "list_all format_op (fst st')"
    for idx bc ac i j st'
    using that by (auto simp: writeMarks_def push_def mark_ops_def list_all_iff format_op_def setAttr_op_def)
  have marks: "list_all format_op (fst (fold (\<lambda>c. writeMarks l idx bc ac c c) cs st'))"
    if "list_all format_op (fst st')" for idx bc ac cs st'
    using that by (induction cs arbitrary: st') (simp_all add: mark)
  have attrs: "list_all format_op (fst (reconcileBlockAttrs l x y b st))"
    using assms(2) by (auto simp: reconcileBlockAttrs_def Let_def push_def shift_by_def list_all_iff
        format_op_def setAttr_op_def insertDelimiter_op_def)
  show ?thesis
    using marks[OF attrs] by (simp add: reconcileBlockChars_def Let_def p s len push_def)
qed

section \<open>Properties\<close>

text \<open>
  C1: an edit reaches the replica as it was made. When the worker has carried out the operations
  of \<open>reconcile\<close> on the view stream that showed the old document, the new view stream shows the new
  document: every block with its type and attributes, every character with its marks, whatever was
  inserted, deleted, split, joined or formatted, tombstones included, and whatever peers did to the
  engine's stream meanwhile. The stream must begin with a block delimiter, or its implicit first
  block must not be moved down or blanked in front of others.
\<close>

theorem edit_reaches_view:
  assumes "same_document (visible_document base) before" and "\<forall>b \<in> set after. neat b" and "after \<noteq> []"
    and "anchored before after base"
    and "handle eng cfg commits now (Reconcile (reconcile before after base) (Some base)) w
      = (w', Inr (RLocalOps ops n (Some base')))"
  shows "same_document (visible_document base') after"
proof -
  obtain e cu e' g where "reconcile_loop eng (reconcile before after base) e (Some base) cu [] = Some (e', g, Some base')"
    using assms(5) by (auto simp: handle_reconcile_def Let_def split: prod.splits sum.splits if_splits option.splits bool.splits)
  then have "map anonymous base' = map anonymous (run_ops (reconcile before after base) base)"
    by (rule reconcile_loop_view) simp
  then have "visible_document base' = visible_document (run_ops (reconcile before after base) base)"
    by (metis visible_anonymous)
  then show ?thesis using reconcile_shows[OF assms(1-4)] by simp
qed

definition echo_engine :: "bytes EnginePort" where
  "echo_engine = pack_engine\<lparr>eng_insertText := (\<lambda>i cp e. (e, Some (replicate 26 1)))\<rparr>"

theorem edit_reaches_view_witness:
  "\<exists>w' ops n base'. handle echo_engine sample_cfg True 0
      (Reconcile (reconcile [paragraph_block] [plain_block [97]] []) (Some [])) (fresh_worker empty_idb)
      = (w', Inr (RLocalOps ops n (Some base')))
    \<and> same_document (visible_document base') [plain_block [97]]"
proof -
  have "reconcile [paragraph_block] [plain_block [97]] [] = [insertText_op 0 97]" by code_simp
  then obtain w' ops n base' where h: "handle echo_engine sample_cfg True 0
      (Reconcile (reconcile [paragraph_block] [plain_block [97]] []) (Some [])) (fresh_worker empty_idb)
      = (w', Inr (RLocalOps ops n (Some base')))"
    by (simp add: handle_reconcile_def sample_cfg_def fresh_worker_def ensureEngine_def restore_def
        echo_engine_def pack_engine_def empty_idb_def storageId_def get_or_def loadLocalState_def rows_of_def
        replayAndRestoreAllocation_def rebase_index_def base_target_def insertText_op_def is_insert_def
        generate_op_def must_def readOpIdentity_def appendOrReset_def append_single)
  have "same_document (visible_document base') [plain_block [97]]"
    by (rule edit_reaches_view[OF _ _ _ _ h])
      (simp_all add: visible_document_def same_document_def same_block_def same_attrs_def paragraph_block_def
        neat_def plain_block_def anchored_def matched_suffix_def matched_prefix_def block_eq_def
        common_suffix_def scalars_def)
  then show ?thesis using h by blast
qed

text \<open>Comparing a document with one that shows the same emits no operation.\<close>

lemma reconcile_same:
  assumes same: "same_document before after"
  shows "reconcile before after stream = []"
proof -
  have len: "length after = length before"
    using same by (simp add: same_document_def list_all2_lengthD)
  have nth: "same_block (before ! b) (after ! b)" if "b < length before" for b
    using same that by (simp add: same_document_def list_all2_nthD)
  have "same_char x y \<Longrightarrow> same_scalar x y" for x y by (simp add: same_char_def same_scalar_def)
  then have chars: "list_all2 same_scalar (bl_chars x) (bl_chars y)" if "same_block x y" for x y
    using that by (auto simp: same_block_def elim: list_all2_mono)
  then have "list_all2 block_eq before after"
    using same by (auto simp: same_document_def block_eq_def elim: list_all2_mono)
  then have p: "matched_prefix before after = length before"
    unfolding matched_prefix_def by (intro common_prefix_full)
  have s: "matched_suffix before after = 0" using len by (simp add: matched_suffix_def p common_suffix_def)
  have push: "push [] st = st" for st by (simp add: push_def)
  have attrs: "changed_attrs x y = []" if "same_block x y" for x y
    using that by (auto simp: changed_attrs_def block_value_def same_block_def same_attrs_def filter_empty_conv)
  have scal: "scalars x = scalars y" if "same_block x y" for x y
    using that by (auto simp: scalars_def same_block_def list_eq_iff_nth_eq list_all2_conv_all_nth same_char_def)
  have marks: "fold (\<lambda>c. writeMarks l idx bc ac c c) cs st = st"
    if "list_all2 same_char bc ac" "\<forall>c \<in> set cs. c < length bc" for l idx bc ac cs st
    using that
  proof (induction cs arbitrary: st)
    case (Cons c cs)
    then have "same_char (bc ! c) (ac ! c)" by (simp add: list_all2_nthD)
    then have "mark_ops i (bc ! c) (ac ! c) = []" for i by (simp add: mark_ops_def same_char_def)
    then show ?case using Cons by (simp add: writeMarks_def push)
  qed simp
  have blk: "reconcile_block l before after b b st = st" if "b < length before" for l b st
  proof -
    note sb = nth[OF that]
    have cs: "list_all2 same_char (bl_chars (before ! b)) (bl_chars (after ! b))" using sb by (simp add: same_block_def)
    then have n: "length (bl_chars (after ! b)) = length (bl_chars (before ! b))" by (simp add: list_all2_lengthD)
    have "common_prefix same_scalar (bl_chars (before ! b)) (bl_chars (after ! b)) = length (bl_chars (before ! b))"
      by (rule common_prefix_full[OF chars[OF sb]])
    then show ?thesis
      by (simp add: reconcile_block_def reconcileBlockAttrs_def attrs[OF sb] scal[OF sb] reconcileBlockChars_def Let_def
          common_suffix_def marks[OF cs] push n)
  qed
  have "fold (\<lambda>b. reconcile_block l before after b b) bs st = st" if "\<forall>b \<in> set bs. b < length before" for l bs st
    using that by (induction bs arbitrary: st) (simp_all add: blk)
  then show ?thesis by (simp add: reconcile_def Let_def p s len)
qed

text \<open>
  C33: formatting replaces no text. If the old and the new document have the same characters block
  by block, \<open>reconcile\<close> emits nothing but attribute writes and delimiters: no character is deleted or
  inserted again, so all text keeps its identity, and cursors and comments their anchors.
\<close>

theorem formatting_keeps_text:
  assumes "list_all2 block_eq before after"
  shows "\<forall>x \<in> set (reconcile before after stream). so_kind x = SetAttr \<or> so_kind x = InsertDelimiter"
proof -
  note len = list_all2_lengthD[OF assms] and p = common_prefix_full[OF assms, folded matched_prefix_def]
  have s: "matched_suffix before after = 0"
    using len by (simp add: matched_suffix_def p common_suffix_def)
  have "list_all format_op (fst (fold (\<lambda>b. reconcile_block l before after b b) bs st))"
    if "\<forall>b \<in> set bs. b < length before" "list_all format_op (fst st)" for l bs st
    using that
  proof (induction bs arbitrary: st)
    case (Cons b bs)
    have "block_eq (before ! b) (after ! b)" using assms Cons.prems(1) by (simp add: list_all2_conv_all_nth)
    from block_format_ops[OF this Cons.prems(2)] Cons show ?case by (simp add: reconcile_block_def)
  qed simp
  then have "list_all format_op (reconcile before after stream)"
    by (simp add: reconcile_def Let_def p s len)
  then show ?thesis by (simp add: list_all_iff format_op_def)
qed

theorem formatting_keeps_text_witness:
  "list_all (\<lambda>x. so_kind x = SetAttr \<or> so_kind x = InsertDelimiter)
    (reconcile [plain_block [97]] [plain_block [97]\<lparr>bl_type := ''heading-1''\<rparr>] [text_entry 97])"
  unfolding list_all_iff
  by (rule formatting_keeps_text) (simp add: block_eq_def plain_block_def same_scalar_def)

end
