(* ===== verification/Pm_Model.thy ===== *)
theory Pm_Model
  imports Adapter
begin

text \<open>
  The document model, \<^verbatim>\<open>src/lib/crdt/pm-model.ts\<close>: TipTap's document tree and the flat canonical
  blocks of the CRDT, both ways. Text is a list of code points, which is how the code walks it. An
  absent list of attributes, children or marks is the empty one, as every reader treats it. The
  value of an attribute is a JSON value.
\<close>

section \<open>Documents\<close>

record PmMark =
  mk_type :: string
  mk_attrs :: "(string \<times> json) list"

datatype PmNode =
  PmNode (nd_type: string) (nd_attrs: "(string \<times> json) list") (nd_content: "PmNode list")
    (nd_text: "nat list") (nd_marks: "PmMark list")

definition MAX_LIST_DEPTH :: nat where "MAX_LIST_DEPTH = 8"

definition list_kind :: "string \<Rightarrow> string option" where
  "list_kind t = map_of [(''bulletList'', ''bullet''), (''orderedList'', ''ordered''), (''taskList'', ''task'')] t"

definition TEXT_STYLE :: "string list" where
  "TEXT_STYLE = [''color'', ''fontFamily'', ''fontSize'']"

section \<open>The value registry\<close>

text \<open>Character classes of the regular expressions.\<close>

definition is_alnum :: "char \<Rightarrow> bool" where
  "is_alnum c \<longleftrightarrow> is_digit c \<or> (let n = of_char c :: nat in 97 \<le> n \<and> n \<le> 122 \<or> 65 \<le> n \<and> n \<le> 90)"

definition is_control :: "char \<Rightarrow> bool" where
  "is_control c \<longleftrightarrow> (of_char c :: nat) < 32 \<or> (of_char c :: nat) = 127"

text \<open>\<open>\s\<close> on the characters below 256.\<close>

definition is_blank :: "char \<Rightarrow> bool" where
  "is_blank c \<longleftrightarrow> (of_char c :: nat) \<in> {9, 10, 11, 12, 13, 32, 160}"

definition starts_with :: "string \<Rightarrow> string \<Rightarrow> bool" where
  "starts_with p s \<longleftrightarrow> take (length p) s = p"

definition link_ok :: "string \<Rightarrow> bool" where
  "link_ok value \<longleftrightarrow>
     (let v = to_lower value
      in (starts_with ''http://'' v \<or> starts_with ''https://'' v \<or> starts_with ''mailto:'' v
          \<or> starts_with ''tel:'' v \<or> starts_with ''/'' v \<and> \<not> starts_with ''//'' v \<or> starts_with ''#'' v)
         \<and> (\<forall>c \<in> set value. \<not> is_blank c \<and> c \<noteq> CHR ''<'' \<and> c \<noteq> CHR ''>'' \<and> c \<noteq> CHR 92))"

text \<open>One to three digits without a leading zero, perhaps a fraction of one or two digits, and px.\<close>

definition font_size_ok :: "string \<Rightarrow> bool" where
  "font_size_ok value \<longleftrightarrow>
     (let whole = takeWhile is_digit value;
          r = dropWhile is_digit value;
          frac = (if starts_with ''.'' r then takeWhile is_digit (tl r) else []);
          r' = (if starts_with ''.'' r then dropWhile is_digit (tl r) else r)
      in 1 \<le> length whole \<and> length whole \<le> 3 \<and> hd whole \<noteq> CHR ''0''
         \<and> (starts_with ''.'' r \<longrightarrow> 1 \<le> length frac \<and> length frac \<le> 2) \<and> r' = ''px''
         \<and> (dec_val whole < 400 \<or> dec_val whole = 400 \<and> (\<forall>c \<in> set frac. c = CHR ''0'')))"

definition heading_type :: "string \<Rightarrow> bool" where
  "heading_type value \<longleftrightarrow> value \<in> set (map (\<lambda>d. ''heading-'' @ [d]) ''123456'')"

definition validRichTextValue :: "string \<Rightarrow> string \<Rightarrow> bool" where
  "validRichTextValue name value \<longleftrightarrow>
     value \<noteq> [] \<and> length (concat (map utf8_char value)) \<le> 256 \<and> \<not> (\<exists>c \<in> set value. is_control c)
     \<and> (if name \<in> set [''bold'', ''italic'', ''underline'', ''strikethrough'', ''code''] then value = ''1''
        else if name = ''link'' then link_ok value
        else if name = ''linkTarget'' then value \<in> set [''_blank'', ''_self'', ''_parent'', ''_top'']
        else if name = ''linkRel''
        then (\<forall>w \<in> set (split_on CHR '' '' value). w \<in> set [''noopener'', ''noreferrer'', ''nofollow''])
        else if name = ''fontSize'' then font_size_ok value
        else if name = ''fontFamily'' then (\<forall>c \<in> set value. is_alnum c \<or> c \<in> set '' ,\"-'' \<or> c = CHR 39)
        else if name = ''color'' \<or> name = ''highlight'' then (\<forall>c \<in> set value. is_alnum c \<or> c \<in> set ''#(),.% -'')
        else if name = ''type'' \<or> name = ''contentType''
        then value = ''paragraph'' \<or> heading_type value
          \<or> name = ''type'' \<and> value \<in> set [''list-item'', ''list-continuation'']
        else if name = ''align'' then value \<in> set [''left'', ''center'', ''right'', ''justify'']
        else if name = ''lineHeight'' then value \<in> set [''normal'', ''1'', ''1.15'', ''1.5'', ''2'']
        else if name = ''list'' then value \<in> set [''bullet'', ''ordered'', ''task'']
        else if name = ''depth'' then length value = 1 \<and> (\<forall>c \<in> set value. is_digit c \<and> c \<noteq> CHR ''9'')
        else if name = ''checked'' then value \<in> set [''yes'', ''no'']
        else if name = ''listStart''
        then (\<forall>c \<in> set value. is_digit c) \<and> length value \<le> 6 \<and> hd value \<noteq> CHR ''0''
        else False)"

section \<open>From the editor's document to blocks\<close>

text \<open>The set of unsupported names, in insertion order, and the blocks so far.\<close>

type_synonym scan = "string list \<times> CanonicalBlock list"

type_synonym attributes = "(string \<times> string) list"

definition reject :: "string \<Rightarrow> string list \<Rightarrow> string list" where
  "reject name unsupported = (if name \<in> set unsupported then unsupported else unsupported @ [name])"

text \<open>\<open>String(value)\<close>; an array joins its elements, null among them as nothing.\<close>

fun js_String :: "json \<Rightarrow> string" where
  "js_String JNull = ''null''"
| "js_String (JBool b) = (if b then ''true'' else ''false'')"
| "js_String (JNum n) = show_int n"
| "js_String (JFrac s) = s"
| "js_String (JStr s) = s"
| "js_String (JArr xs) = join_on CHR '','' (map (\<lambda>x. if x = JNull then [] else js_String x) xs)"
| "js_String (JObj kvs) = ''[object Object]''"

definition js_truthy :: "json option \<Rightarrow> bool" where
  "js_truthy v \<longleftrightarrow>
     (case v of None \<Rightarrow> False | Some j \<Rightarrow> j \<noteq> JNull \<and> j \<noteq> JBool False \<and> j \<noteq> JNum 0 \<and> j \<noteq> JStr [])"

text \<open>\<open>value == null\<close>: undefined or null.\<close>

definition nullish :: "json option \<Rightarrow> bool" where
  "nullish v \<longleftrightarrow> v = None \<or> v = Some JNull"

definition put_attr :: "string \<Rightarrow> json option \<Rightarrow> attributes \<times> string list \<Rightarrow> attributes \<times> string list" where
  "put_attr name value au =
     (case au of (attrs, unsupported) \<Rightarrow>
        if nullish value then au
        else
          let t = js_String (the value)
          in if validRichTextValue name t then (obj_put name t attrs, unsupported)
             else (attrs, reject (''attr:'' @ name) unsupported))"

definition checkAttrs :: "(string \<times> json) list \<Rightarrow> string list \<Rightarrow> string list \<Rightarrow> string list" where
  "checkAttrs attrs allowed unsupported =
     foldl (\<lambda>u (name, value). if value \<noteq> JNull \<and> name \<notin> set allowed then reject (''attr:'' @ name) u else u)
       unsupported attrs"

definition mark_step :: "attributes \<times> string list \<Rightarrow> PmMark \<Rightarrow> attributes \<times> string list" where
  "mark_step mu m =
     (case mu of (marks, u) \<Rightarrow>
        let at = map_of (mk_attrs m)
        in if mk_type m \<in> set [''bold'', ''italic'', ''underline'', ''strikethrough'', ''strike'', ''code'']
           then (obj_put (if mk_type m = ''strike'' then ''strikethrough'' else mk_type m) ''1'' marks,
                 checkAttrs (mk_attrs m) [] u)
           else if mk_type m = ''textStyle''
           then foldl (\<lambda>mu name. put_attr name (at name) mu) (marks, checkAttrs (mk_attrs m) TEXT_STYLE u) TEXT_STYLE
           else if mk_type m = ''link''
           then
             (case put_attr ''linkRel'' (at ''rel'') (put_attr ''linkTarget'' (at ''target'')
                     (put_attr ''link'' (at ''href'')
                       (marks, checkAttrs (mk_attrs m) [''href'', ''target'', ''rel'', ''class''] u))) of
                (marks', u1) \<Rightarrow>
                  let u2 = (if nullish (at ''class'') then u1 else reject ''attr:link.class'' u1)
                  in (marks', if map_of marks' ''link'' = None then reject ''attr:link.href'' u2 else u2))
           else if mk_type m = ''highlight''
           then put_attr ''highlight'' (if nullish (at ''color'') then Some (JStr ''1'') else at ''color'')
                  (marks, checkAttrs (mk_attrs m) [''color''] u)
           else (marks, reject (''mark:'' @ mk_type m) u))"

definition marksOf :: "PmMark list \<Rightarrow> string list \<Rightarrow> attributes \<times> string list" where
  "marksOf pmMarks u = foldl mark_step ([], u) pmMarks"

definition inline_step :: "CanonicalChar list \<times> string list \<Rightarrow> PmNode \<Rightarrow> CanonicalChar list \<times> string list" where
  "inline_step cu child =
     (case cu of (chars, u) \<Rightarrow>
        let u1 = checkAttrs (nd_attrs child) [] u
        in if nd_type child = ''text'' then
             (case marksOf (nd_marks child) u1 of
                (marks, u2) \<Rightarrow> (chars @ map (\<lambda>c. \<lparr>ch_scalar = c, ch_marks = marks\<rparr>) (nd_text child), u2))
           else if nd_type child = ''hardBreak'' then
             (case marksOf (nd_marks child) u1 of
                (marks, u2) \<Rightarrow> (chars @ [\<lparr>ch_scalar = 10, ch_marks = marks\<rparr>], u2))
           else (chars, reject (nd_type child) u1))"

definition block_type :: "PmNode \<Rightarrow> string" where
  "block_type node =
     (if nd_type node = ''heading''
      then let level = map_of (nd_attrs node) ''level''
           in ''heading-'' @ (if nullish level then ''1'' else js_String (the level))
      else ''paragraph'')"

text \<open>The attributes of a text block: its type, those of its list item, alignment and line height.\<close>

definition put_if :: "bool \<Rightarrow> string \<Rightarrow> json option \<Rightarrow> attributes \<times> string list \<Rightarrow> attributes \<times> string list" where
  "put_if c name value au = (if c then put_attr name value au else au)"

definition assign :: "attributes \<Rightarrow> attributes \<Rightarrow> attributes" where
  "assign target source = foldl (\<lambda>a (k, v). obj_put k v a) target source"

definition text_type :: "PmNode \<Rightarrow> attributes \<Rightarrow> bool \<Rightarrow> string" where
  "text_type node structural continuation =
     (if map_of structural ''list'' = None then block_type node
      else if continuation then ''list-continuation'' else ''list-item'')"

definition text_attrs :: "PmNode \<Rightarrow> attributes \<Rightarrow> bool \<Rightarrow> string list \<Rightarrow> attributes \<times> string list" where
  "text_attrs node structural continuation u0 =
     (let t = block_type node;
          in_list = (map_of structural ''list'' \<noteq> None);
          btype = text_type node structural continuation;
          at = map_of (nd_attrs node);
          typed = put_if (btype \<noteq> ''paragraph'') ''type'' (Some (JStr btype)) ([], u0);
          merged = (if in_list then assign (fst typed) structural else fst typed, snd typed);
          contents = put_if (in_list \<and> t \<noteq> ''paragraph'') ''contentType'' (Some (JStr t)) merged;
          u = (if validRichTextValue ''contentType'' t then snd contents else reject t (snd contents));
          u' = checkAttrs (nd_attrs node)
            (if nd_type node = ''heading'' then [''level'', ''textAlign'', ''lineHeight'']
             else [''textAlign'', ''lineHeight'']) u
      in put_if (js_truthy (at ''lineHeight'') \<and> at ''lineHeight'' \<noteq> Some (JStr ''normal''))
           ''lineHeight'' (at ''lineHeight'')
           (put_if (js_truthy (at ''textAlign'') \<and> at ''textAlign'' \<noteq> Some (JStr ''left''))
             ''align'' (at ''textAlign'') (fst contents, u')))"

definition addTextBlock :: "PmNode \<Rightarrow> attributes \<Rightarrow> bool \<Rightarrow> scan \<Rightarrow> scan" where
  "addTextBlock node structural continuation st =
     (if nd_type node \<noteq> ''paragraph'' \<and> nd_type node \<noteq> ''heading''
      then (reject (nd_type node) (fst st), snd st)
      else
        let au = text_attrs node structural continuation (fst st);
            cu = foldl inline_step ([], snd au) (nd_content node)
        in (snd cu, snd st @ [\<lparr>bl_type = text_type node structural continuation, bl_attrs = fst au,
             bl_chars = fst cu\<rparr>]))"

definition reject_if :: "bool \<Rightarrow> string \<Rightarrow> scan \<Rightarrow> scan" where
  "reject_if b name st = (if b then (reject name (fst st), snd st) else st)"

definition list_attrs :: "string \<Rightarrow> (string \<times> json) list \<Rightarrow> nat \<Rightarrow> (string \<times> json) list \<Rightarrow> string list \<Rightarrow> attributes \<times> string list" where
  "list_attrs t at depth item_at u =
     (let a1 = [(''list'', the (list_kind t)), (''depth'', show_nat depth)];
          a2 = (if t = ''taskList''
                then a1 @ [(''checked'', if map_of item_at ''checked'' = Some (JBool True) then ''yes'' else ''no'')] else a1);
          start = map_of at ''start''
      in if t = ''orderedList'' \<and> \<not> nullish start \<and> start \<noteq> Some (JNum 1)
         then put_attr ''listStart'' start (a2, u) else (a2, u))"

definition open_list :: "string \<Rightarrow> (string \<times> json) list \<Rightarrow> scan \<Rightarrow> scan" where
  "open_list t at st =
     reject_if (\<not> nullish (map_of at ''type'')) ''attr:orderedList.type''
       (checkAttrs at (if t = ''orderedList'' then [''start'', ''type''] else []) (fst st), snd st)"

definition item_type :: "string \<Rightarrow> string" where
  "item_type t = (if t = ''taskList'' then ''taskItem'' else ''listItem'')"

definition open_item ::
  "nat \<Rightarrow> string \<Rightarrow> (string \<times> json) list \<Rightarrow> (string \<times> json) list \<Rightarrow> scan \<Rightarrow> attributes \<times> scan" where
  "open_item depth t at item_at st =
     (let u1 = checkAttrs item_at (if t = ''taskList'' then [''checked''] else []) (fst st);
          checked = map_of item_at ''checked'';
          u2 = (if \<not> nullish checked \<and> checked \<notin> {Some (JBool True), Some (JBool False)}
                then reject ''attr:checked'' u1 else u1)
      in (case list_attrs t at depth item_at u2 of (attrs, u3) \<Rightarrow> (attrs, (u3, snd st))))"

function walk_list :: "nat \<Rightarrow> PmNode \<Rightarrow> scan \<Rightarrow> scan"
  and walk_items :: "nat \<Rightarrow> string \<Rightarrow> (string \<times> json) list \<Rightarrow> PmNode list \<Rightarrow> scan \<Rightarrow> scan"
  and walk_children :: "nat \<Rightarrow> attributes \<Rightarrow> PmNode list \<Rightarrow> scan \<times> bool \<Rightarrow> scan \<times> bool" where
  "walk_list depth (PmNode t at content txt mks) st =
     (if depth > MAX_LIST_DEPTH then reject_if True ''list-depth'' st
      else walk_items depth t at content (open_list t at st))"
| "walk_items depth t at [] st = st"
| "walk_items depth t at (PmNode it iat icontent itxt imks # items) st =
     walk_items depth t at items
       (if it \<noteq> item_type t then reject_if True it st
        else
          let opened = open_item depth t at iat st;
              closed = walk_children depth (fst opened) icontent (snd opened, True)
          in reject_if (snd closed) ''empty-list-item'' (fst closed))"
| "walk_children depth attrs [] sf = sf"
| "walk_children depth attrs (child # cs) sf =
     walk_children depth attrs cs
       (if list_kind (nd_type child) \<noteq> None then (walk_list (depth + 1) child (fst sf), snd sf)
        else (addTextBlock child attrs (\<not> snd sf) (fst sf), False))"
  by pat_completeness auto
termination
  by (relation "measure (\<lambda>x. case x of
      Inl (depth, node, st) \<Rightarrow> size node
    | Inr (Inl (depth, t, at, items, st)) \<Rightarrow> size_list size items
    | Inr (Inr (depth, attrs, cs, sf)) \<Rightarrow> size_list size cs)") simp_all

definition top_step :: "scan \<Rightarrow> PmNode \<Rightarrow> scan" where
  "top_step st node =
     (if list_kind (nd_type node) \<noteq> None then walk_list 0 node st else addTextBlock node [] False st)"

text \<open>The blocks and the list of unsupported names; the document is supported when it is empty.\<close>

definition pmDocToBlocks :: "PmNode \<Rightarrow> CanonicalBlock list \<times> string list" where
  "pmDocToBlocks doc =
     (let u0 = (if nd_type doc \<noteq> ''doc'' then reject (nd_type doc) [] else []);
          u1 = checkAttrs (nd_attrs doc) [] u0
      in (case foldl top_step (u1, []) (nd_content doc) of (u, blocks) \<Rightarrow> (blocks, u)))"

section \<open>From blocks to the editor's document\<close>

definition simple_mark :: "attributes \<Rightarrow> string \<Rightarrow> PmMark list" where
  "simple_mark marks t =
     (if get_or [] (map_of marks t) = [] then []
      else [\<lparr>mk_type = (if t = ''strikethrough'' then ''strike'' else t), mk_attrs = []\<rparr>])"

definition nullable :: "string option \<Rightarrow> json" where
  "nullable v = (case v of None \<Rightarrow> JNull | Some s \<Rightarrow> JStr s)"

definition pmMarks :: "attributes \<Rightarrow> PmMark list" where
  "pmMarks marks =
     (let style = concat (map (\<lambda>name. case map_of marks name of None \<Rightarrow> [] | Some v \<Rightarrow> [(name, JStr v)]) TEXT_STYLE)
      in concat (map (simple_mark marks) [''bold'', ''italic'', ''underline'', ''strikethrough'', ''code''])
         @ (if style = [] then [] else [\<lparr>mk_type = ''textStyle'', mk_attrs = style\<rparr>])
         @ (if get_or [] (map_of marks ''link'') = [] then []
            else [\<lparr>mk_type = ''link'',
                   mk_attrs = [(''href'', nullable (map_of marks ''link'')), (''target'', nullable (map_of marks ''linkTarget'')),
                     (''rel'', nullable (map_of marks ''linkRel'')), (''class'', JNull)]\<rparr>])
         @ (if get_or [] (map_of marks ''highlight'') = [] then []
            else [\<lparr>mk_type = ''highlight'',
                   mk_attrs = [(''color'', if map_of marks ''highlight'' = Some ''1'' then JNull
                     else nullable (map_of marks ''highlight''))]\<rparr>]))"

text \<open>\<open>Number(text)\<close> of decimal digits, which is all the registry allows where it is called; anything else is NaN, which JSON writes as null.\<close>

definition number_of :: "string \<Rightarrow> json" where
  "number_of s = (if s \<noteq> [] \<and> list_all is_digit s then JNum (int (dec_val s)) else if s = [] then JNum 0 else JNull)"

definition text_step :: "PmNode list \<Rightarrow> CanonicalChar \<Rightarrow> PmNode list" where
  "text_step content ch =
     (let marks = pmMarks (ch_marks ch)
      in if ch_scalar ch = 10 then content @ [PmNode ''hardBreak'' [] [] [] marks]
         else if content \<noteq> [] \<and> nd_type (last content) = ''text'' \<and> nd_marks (last content) = marks
         then butlast content @ [PmNode ''text'' [] [] (nd_text (last content) @ [ch_scalar ch]) marks]
         else content @ [PmNode ''text'' [] [] [ch_scalar ch] marks])"

definition content_type :: "CanonicalBlock \<Rightarrow> string" where
  "content_type block = get_or (bl_type block) (map_of (bl_attrs block) ''contentType'')"

definition textNode :: "CanonicalBlock \<Rightarrow> PmNode" where
  "textNode block =
     (let t = content_type block;
          heading = starts_with ''heading-'' t;
          attr = (\<lambda>name key. case map_of (bl_attrs block) name of None \<Rightarrow> [] | Some v \<Rightarrow> [(key, JStr v)])
      in PmNode (if heading then ''heading'' else ''paragraph'')
           ((if heading then [(''level'', number_of (drop 8 t))] else []) @ attr ''align'' ''textAlign''
              @ attr ''lineHeight'' ''lineHeight'')
           (foldl text_step [] (bl_chars block)) [] [])"

text \<open>
  The loop of \<open>blocksToPmDoc\<close>. The frames on its stack are the lists that end the document, each in
  the last item of the one before: an update through a frame is one at the end of that path.
\<close>

fun push_path :: "nat \<Rightarrow> PmNode \<Rightarrow> PmNode list \<Rightarrow> PmNode list" where
  "push_path 0 n content = content @ [n]"
| "push_path (Suc d) n content =
     (case last content of
        PmNode t at items txt mks \<Rightarrow>
          (case last items of
             PmNode it iat icontent itxt imks \<Rightarrow>
               butlast content @ [PmNode t at
                 (butlast items @ [PmNode it iat (push_path d n icontent) itxt imks]) txt mks]))"

fun push_item :: "nat \<Rightarrow> PmNode \<Rightarrow> PmNode list \<Rightarrow> PmNode list" where
  "push_item 0 n content =
     (case last content of PmNode t at items txt mks \<Rightarrow> butlast content @ [PmNode t at (items @ [n]) txt mks])"
| "push_item (Suc d) n content =
     (case last content of
        PmNode t at items txt mks \<Rightarrow>
          (case last items of
             PmNode it iat icontent itxt imks \<Rightarrow>
               butlast content @ [PmNode t at
                 (butlast items @ [PmNode it iat (push_item d n icontent) itxt imks]) txt mks]))"

definition requested_depth :: "CanonicalBlock \<Rightarrow> nat" where
  "requested_depth block =
     (case number_of (get_or ''x'' (map_of (bl_attrs block) ''depth'')) of
        JNum n \<Rightarrow> min MAX_LIST_DEPTH (nat n) | _ \<Rightarrow> 0)"

definition list_type :: "CanonicalBlock \<Rightarrow> string" where
  "list_type block =
     (let l = map_of (bl_attrs block) ''list''
      in if l = Some ''task'' then ''taskList'' else if l = Some ''ordered'' then ''orderedList'' else ''bulletList'')"

type_synonym signature = "string \<times> string"

definition signature_of :: "CanonicalBlock \<Rightarrow> signature" where
  "signature_of block = (list_type block, get_or ''1'' (map_of (bl_attrs block) ''listStart''))"

definition list_node :: "signature \<Rightarrow> PmNode" where
  "list_node sg =
     PmNode (fst sg) (if fst sg = ''orderedList'' then [(''start'', number_of (snd sg))] else []) [] [] []"

definition item_node :: "CanonicalBlock \<Rightarrow> PmNode" where
  "item_node block =
     PmNode (item_type (list_type block))
       (if list_type block = ''taskList''
        then [(''checked'', JBool (map_of (bl_attrs block) ''checked'' = Some ''yes''))] else [])
       [textNode block] [] []"

definition block_step :: "PmNode list \<times> signature list \<Rightarrow> CanonicalBlock \<Rightarrow> PmNode list \<times> signature list" where
  "block_step cs block =
     (case cs of (content, stack) \<Rightarrow>
        if bl_type block \<noteq> ''list-item'' \<and> bl_type block \<noteq> ''list-continuation''
        then (content @ [textNode block], [])
        else
          let depth = min (requested_depth block) (length stack);
              sg = signature_of block;
              stack' = take (depth + 1) stack;
              known = (depth < length stack' \<and> stack' ! depth = sg);
              content' = (if known then content else push_path depth (list_node sg) content)
          in (if bl_type block = ''list-continuation'' \<and> known
              then push_path (depth + 1) (textNode block) content'
              else push_item depth (item_node block) content',
              take depth stack' @ [sg]))"

definition blocksToPmDoc :: "CanonicalBlock list \<Rightarrow> PmNode" where
  "blocksToPmDoc blocks =
     (let content = fst (foldl block_step ([], []) blocks)
      in PmNode ''doc'' [] (if content \<noteq> [] then content else [PmNode ''paragraph'' [] [] [] []]) [] [])"

end
