(* ===== verification/Pm_Roundtrip.thy ===== *)
theory Pm_Roundtrip
  imports Pm_Model Adapter_Correct
begin

text \<open>
  Properties of the document model: what is read from the editor has only registered values, and
  a rendered document reads back as the blocks it was rendered from.
\<close>

section \<open>Values\<close>

definition values_ok :: "attributes \<Rightarrow> bool" where
  "values_ok a \<longleftrightarrow> (\<forall>(k, v) \<in> set a. validRichTextValue k v)"

definition block_values_ok :: "CanonicalBlock \<Rightarrow> bool" where
  "block_values_ok b \<longleftrightarrow> values_ok (bl_attrs b) \<and> (\<forall>ch \<in> set (bl_chars b). values_ok (ch_marks ch))"

lemma values_ok_Nil [simp]: "values_ok []"
  by (simp add: values_ok_def)

lemma set_obj_put: "set (obj_put k v xs) \<subseteq> insert (k, v) (set xs)"
  by (induction k v xs rule: obj_put.induct) auto

lemma obj_put_values: "values_ok a \<Longrightarrow> validRichTextValue k v \<Longrightarrow> values_ok (obj_put k v a)"
  using set_obj_put[of k v a] by (auto simp: values_ok_def)

lemma put_attr_values: "values_ok (fst au) \<Longrightarrow> values_ok (fst (put_attr k v au))"
  by (auto simp: put_attr_def Let_def obj_put_values split: prod.splits)

lemma put_attrs_values: "values_ok (fst mu) \<Longrightarrow> values_ok (fst (foldl (\<lambda>mu name. put_attr name (at name) mu) mu ks))"
  by (induction ks arbitrary: mu) (simp_all add: put_attr_values)

lemma simple_value: "k \<in> set [''bold'', ''italic'', ''underline'', ''strikethrough'', ''code''] \<Longrightarrow> validRichTextValue k ''1''"
  by (simp add: validRichTextValue_def utf8_char_def is_control_def)

lemma mark_step_values: "values_ok (fst mu) \<Longrightarrow> values_ok (fst (mark_step mu m))"
proof -
  assume ok: "values_ok (fst mu)"
  obtain marks u where mu: "mu = (marks, u)" by fastforce
  have "validRichTextValue (if mk_type m = ''strike'' then ''strikethrough'' else mk_type m) ''1''"
    if "mk_type m \<in> set [''bold'', ''italic'', ''underline'', ''strikethrough'', ''strike'', ''code'']"
    using that by (intro simple_value) auto
  moreover have "values_ok (fst (put_attr k3 v3 (put_attr k2 v2 (put_attr k1 v1 (marks, u')))))" for k3 v3 k2 v2 k1 v1 u'
    using ok mu by (intro put_attr_values) simp
  then have "values_ok m'" if "put_attr k3 v3 (put_attr k2 v2 (put_attr k1 v1 (marks, u'))) = (m', u'')"
    for k3 v3 k2 v2 k1 v1 u' m' u''
    using that by (metis fst_conv)
  ultimately show ?thesis
    using ok unfolding mark_step_def mu Let_def
    by (auto simp: obj_put_values put_attr_values put_attrs_values simp del: list.set split: prod.splits)
qed

lemma marksOf_values: "values_ok (fst (marksOf ms u))"
proof -
  have "values_ok (fst mu) \<Longrightarrow> values_ok (fst (foldl mark_step mu ms))" for mu
    by (induction ms arbitrary: mu) (simp_all add: mark_step_values)
  then show ?thesis by (simp add: marksOf_def)
qed

abbreviation chars_ok :: "CanonicalChar list \<Rightarrow> bool" where
  "chars_ok cs \<equiv> \<forall>ch \<in> set cs. values_ok (ch_marks ch)"

lemma inline_values: "chars_ok (fst cu) \<Longrightarrow> chars_ok (fst (foldl inline_step cu nodes))"
proof (induction nodes arbitrary: cu)
  case (Cons n nodes)
  have "chars_ok (fst (inline_step cu n))"
    using Cons.prems marksOf_values[of "nd_marks n"]
    by (auto simp: inline_step_def Let_def split: prod.splits) (metis fst_conv)+
  then show ?case using Cons.IH by simp
qed simp

lemma put_if_values: "values_ok (fst au) \<Longrightarrow> values_ok (fst (put_if c k v au))"
  by (simp add: put_if_def put_attr_values)

lemma assign_values:
  assumes "values_ok a" and "values_ok s"
  shows "values_ok (assign a s)"
  using assms
proof (induction s arbitrary: a)
  case (Cons kv s)
  obtain k v where kv: "kv = (k, v)" by fastforce
  have "validRichTextValue k v" "values_ok s" using Cons.prems(2) by (auto simp: values_ok_def kv)
  then show ?case using Cons.IH[OF obj_put_values[OF Cons.prems(1)]] by (simp add: assign_def kv)
qed (simp add: assign_def)

lemma text_attrs_values: "values_ok s \<Longrightarrow> values_ok (fst (text_attrs node s c u))"
  unfolding text_attrs_def Let_def
  by (intro put_if_values) (simp add: assign_values put_if_values)

lemma addTextBlock_values:
  assumes "list_all block_values_ok (snd st)" and "values_ok s"
  shows "list_all block_values_ok (snd (addTextBlock node s c st))"
  using assms inline_values[of "([], u)" for u]
  by (simp add: addTextBlock_def Let_def block_values_ok_def text_attrs_values)

lemma depth_value: "d \<le> MAX_LIST_DEPTH \<Longrightarrow> validRichTextValue ''depth'' (show_nat d)"
proof -
  assume "d \<le> MAX_LIST_DEPTH"
  then have "d \<le> 8" by (simp add: MAX_LIST_DEPTH_def)
  moreover from this have "show_nat d = [digit_char d]" by (simp add: show_nat.simps[of d])
  ultimately show ?thesis
    by (auto simp: validRichTextValue_def utf8_char_def is_control_def digit_char_def is_digit_def
        of_char_of[where 'a = nat] dest!: arg_cong[where f = "of_char :: char \<Rightarrow> nat"])
qed

lemma list_attrs_values:
  assumes "list_kind t \<noteq> None" and "d \<le> MAX_LIST_DEPTH"
  shows "values_ok (fst (list_attrs t at d iat u))"
proof -
  have "validRichTextValue ''list'' (the (list_kind t))"
    using assms(1) by (auto simp: list_kind_def validRichTextValue_def utf8_char_def is_control_def split: if_splits)
  moreover have "validRichTextValue ''checked'' ''yes''" "validRichTextValue ''checked'' ''no''"
    by (simp_all add: validRichTextValue_def utf8_char_def is_control_def)
  ultimately have "values_ok ([(''list'', the (list_kind t)), (''depth'', show_nat d)] @
      (if t = ''taskList'' then [(''checked'', if c then ''yes'' else ''no'')] else []))" for c
    using depth_value[OF assms(2)] by (simp add: values_ok_def)
  from this[of True] this[of False] show ?thesis
    by (auto simp: list_attrs_def Let_def intro!: put_attr_values split: if_splits)
qed

lemma walk_values:
  "list_kind (nd_type node) \<noteq> None \<Longrightarrow> list_all block_values_ok (snd st) \<Longrightarrow>
    list_all block_values_ok (snd (walk_list d node st))"
  "list_kind t \<noteq> None \<Longrightarrow> d \<le> MAX_LIST_DEPTH \<Longrightarrow> list_all block_values_ok (snd st) \<Longrightarrow>
    list_all block_values_ok (snd (walk_items d t kvs items st))"
  "values_ok attrs \<Longrightarrow> list_all block_values_ok (snd (fst sf)) \<Longrightarrow>
    list_all block_values_ok (snd (fst (walk_children d attrs cs sf)))"
proof (induction d node st and d t kvs items st and d attrs cs sf rule: walk_list_walk_items_walk_children.induct)
  case (1 d t kvs content tx mks st)
  then show ?case by (auto simp: reject_if_def open_list_def)
next
  case (3 d t kvs it iat icontent itxt imks items st)
  have attrs: "values_ok (fst (open_item d t kvs iat st))"
    using list_attrs_values[OF 3(3,4)] by (simp add: open_item_def Let_def case_prod_beta)
  have "snd (snd (open_item d t kvs iat st)) = snd st"
    by (simp add: open_item_def Let_def case_prod_beta)
  then show ?case using 3 attrs by (auto simp: reject_if_def Let_def)
next
  case (5 d attrs child cs sf)
  then show ?case by (auto simp: addTextBlock_values)
qed simp_all

section \<open>Marks\<close>

text \<open>The marks a character of the replica can have: registered ones, a link's details only with a link.\<close>

definition mark_names :: "string list" where
  "mark_names = [''bold'', ''italic'', ''underline'', ''strikethrough'', ''code'', ''color'', ''fontFamily'',
     ''fontSize'', ''link'', ''linkTarget'', ''linkRel'', ''highlight'']"

definition canonical_marks :: "attributes \<Rightarrow> bool" where
  "canonical_marks m \<longleftrightarrow>
     distinct (map fst m) \<and> values_ok m \<and> fst ` set m \<subseteq> set mark_names
     \<and> (map_of m ''link'' = None \<longrightarrow> map_of m ''linkTarget'' = None \<and> map_of m ''linkRel'' = None)"

lemma map_of_obj_put': "map_of (obj_put k v xs) k' = (if k' = k then Some v else map_of xs k')"
  by (induction k v xs rule: obj_put.induct) auto

lemma valid_not_empty: "validRichTextValue k v \<Longrightarrow> v \<noteq> []"
  unfolding validRichTextValue_def by (elim conjE)

lemma value_ok: "values_ok m \<Longrightarrow> map_of m k = Some v \<Longrightarrow> validRichTextValue k v \<and> v \<noteq> []"
  using valid_not_empty[of k v] by (auto simp: values_ok_def dest: map_of_SomeD)

lemma simple_valid:
  "validRichTextValue k v \<Longrightarrow> k \<in> set [''bold'', ''italic'', ''underline'', ''strikethrough'', ''code''] \<Longrightarrow> v = ''1''"
  unfolding validRichTextValue_def by (elim conjE) (simp only: if_True)

lemma simple_step:
  "t \<in> set [''bold'', ''italic'', ''underline'', ''strikethrough'', ''code''] \<Longrightarrow>
    mark_step (a, u) \<lparr>mk_type = (if t = ''strikethrough'' then ''strike'' else t), mk_attrs = []\<rparr> = (obj_put t ''1'' a, u)"
  by (auto simp: mark_step_def checkAttrs_def)

text \<open>\<open>at\<close> has the values of \<open>m\<close> at \<open>k\<close>.\<close>

definition reads :: "(string \<Rightarrow> json option) \<Rightarrow> attributes \<Rightarrow> string \<Rightarrow> bool" where
  "reads at m k \<longleftrightarrow> (case map_of m k of None \<Rightarrow> nullish (at k) | Some v \<Rightarrow> at k = Some (JStr v))"

text \<open>\<open>a'\<close> is \<open>a\<close> with the values of \<open>m\<close> at the names \<open>ks\<close>.\<close>

definition taken :: "attributes \<Rightarrow> string list \<Rightarrow> attributes \<Rightarrow> attributes \<Rightarrow> bool" where
  "taken m ks a a' \<longleftrightarrow> (\<forall>k. map_of a' k = (if k \<in> set ks \<and> map_of m k \<noteq> None then map_of m k else map_of a k))"

lemma taken_Nil: "taken m [] a a"
  by (simp add: taken_def)

lemma taken_append: "taken m ks a b \<Longrightarrow> taken m ks' b c \<Longrightarrow> taken m (ks @ ks') a c"
  by (auto simp: taken_def)

lemma put_reads:
  assumes "values_ok m" and "reads at m k"
  shows "\<exists>a'. put_attr k (at k) (a, u) = (a', u) \<and> taken m [k] a a'"
proof (cases "map_of m k")
  case None
  then show ?thesis using assms(2) by (intro exI[of _ a]) (auto simp: reads_def put_attr_def taken_def)
next
  case (Some v)
  then show ?thesis using assms(2) value_ok[OF assms(1) Some]
    by (intro exI[of _ "obj_put k v a"]) (auto simp: reads_def put_attr_def taken_def nullish_def map_of_obj_put')
qed

lemma puts_read:
  assumes "values_ok m" and "\<forall>k \<in> set ks. reads at m k"
  shows "\<exists>a'. foldl (\<lambda>mu k. put_attr k (at k) mu) (a, u) ks = (a', u) \<and> taken m ks a a'"
  using assms(2)
proof (induction ks arbitrary: a)
  case (Cons k ks)
  obtain b where b: "put_attr k (at k) (a, u) = (b, u)" "taken m [k] a b"
    using put_reads[OF assms(1)] Cons.prems by (metis list.set_intros(1))
  obtain c where "foldl (\<lambda>mu k. put_attr k (at k) mu) (b, u) ks = (c, u)" "taken m ks b c"
    using Cons.IH[of b] Cons.prems by auto
  then show ?case using b taken_append[OF b(2), of ks c] by (intro exI[of _ c]) simp
qed (simp add: taken_Nil)

lemma checkAttrs_ok: "\<forall>(k, v) \<in> set kvs. v = JNull \<or> k \<in> set allowed \<Longrightarrow> checkAttrs kvs allowed u = u"
  by (induction kvs arbitrary: u) (auto simp: checkAttrs_def)

lemma simple_marks_read:
  assumes "values_ok m" and "set ts \<subseteq> set [''bold'', ''italic'', ''underline'', ''strikethrough'', ''code'']"
  shows "\<exists>a'. foldl mark_step (a, u) (concat (map (simple_mark m) ts)) = (a', u) \<and> taken m ts a a'"
  using assms(2)
proof (induction ts arbitrary: a)
  case (Cons t ts)
  have "\<exists>b. foldl mark_step (a, u) (simple_mark m t) = (b, u) \<and> taken m [t] a b"
  proof (cases "map_of m t")
    case None
    then show ?thesis by (intro exI[of _ a]) (simp add: simple_mark_def get_or_def taken_def)
  next
    case (Some v)
    then have "v = ''1''" using value_ok[OF assms(1) Some] Cons.prems by (intro simple_valid[of t]) auto
    moreover have "foldl mark_step (a, u) (simple_mark m t) = (obj_put t ''1'' a, u)"
      using Some \<open>v = ''1''\<close> Cons.prems simple_step[of t a u] by (simp add: simple_mark_def get_or_def)
    ultimately show ?thesis using Some
      by (intro exI[of _ "obj_put t ''1'' a"]) (simp add: taken_def map_of_obj_put')
  qed
  then obtain b where b: "foldl mark_step (a, u) (simple_mark m t) = (b, u)" "taken m [t] a b" by blast
  obtain c where "foldl mark_step (b, u) (concat (map (simple_mark m) ts)) = (c, u)" "taken m ts b c"
    using Cons.IH[of b] Cons.prems by auto
  then show ?case using b taken_append[OF b(2), of ts c] by (intro exI[of _ c]) simp
qed (simp add: taken_Nil)

lemma style_read:
  assumes "values_ok m"
  defines "style \<equiv> concat (map (\<lambda>name. case map_of m name of None \<Rightarrow> [] | Some v \<Rightarrow> [(name, JStr v)]) TEXT_STYLE)"
  shows "\<exists>a'. foldl mark_step (a, u) (if style = [] then [] else [\<lparr>mk_type = ''textStyle'', mk_attrs = style\<rparr>]) = (a', u)
    \<and> taken m TEXT_STYLE a a'"
proof -
  have r: "\<forall>k \<in> set TEXT_STYLE. reads (map_of style) m k"
    by (auto simp: style_def TEXT_STYLE_def reads_def nullish_def split: option.splits)
  have c: "checkAttrs style TEXT_STYLE u = u"
    by (rule checkAttrs_ok) (auto simp: style_def TEXT_STYLE_def split: option.splits)
  show ?thesis
  proof (cases "style = []")
    case True
    then have "\<forall>k \<in> set TEXT_STYLE. map_of m k = None"
      by (auto simp: style_def TEXT_STYLE_def split: option.splits)
    then show ?thesis using True by (intro exI[of _ a]) (auto simp: taken_def)
  next
    case False
    obtain a' where "foldl (\<lambda>mu k. put_attr k (map_of style k) mu) (a, u) TEXT_STYLE = (a', u)" "taken m TEXT_STYLE a a'"
      using puts_read[OF assms(1) r] by blast
    then show ?thesis using False c by (intro exI[of _ a']) (simp add: mark_step_def)
  qed
qed

lemma link_read:
  assumes "values_ok m" and "map_of m ''link'' = None \<longrightarrow> map_of m ''linkTarget'' = None \<and> map_of m ''linkRel'' = None"
  shows "\<exists>a'. foldl mark_step (a, u) (if get_or [] (map_of m ''link'') = [] then []
            else [\<lparr>mk_type = ''link'',
                   mk_attrs = [(''href'', nullable (map_of m ''link'')), (''target'', nullable (map_of m ''linkTarget'')),
                     (''rel'', nullable (map_of m ''linkRel'')), (''class'', JNull)]\<rparr>]) = (a', u)
    \<and> taken m [''link'', ''linkTarget'', ''linkRel''] a a'"
proof (cases "map_of m ''link''")
  case None
  then show ?thesis using assms(2) by (intro exI[of _ a]) (auto simp: get_or_def taken_def)
next
  case (Some v)
  define at where "at = (\<lambda>k. Some (nullable (map_of m k)))"
  have "\<forall>k \<in> set [''link'', ''linkTarget'', ''linkRel'']. reads at m k"
    by (auto simp: reads_def at_def nullable_def nullish_def split: option.splits)
  from puts_read[OF assms(1) this, of a u] obtain a' where
    a': "put_attr ''linkRel'' (at ''linkRel'') (put_attr ''linkTarget'' (at ''linkTarget'')
      (put_attr ''link'' (at ''link'') (a, u))) = (a', u)" "taken m [''link'', ''linkTarget'', ''linkRel''] a a'"
    by auto
  moreover have "map_of a' ''link'' \<noteq> None" using a'(2) Some by (auto simp: taken_def)
  moreover have "v \<noteq> []" using value_ok[OF assms(1) Some] by simp
  ultimately show ?thesis using Some
    by (intro exI[of _ a']) (auto simp: mark_step_def get_or_def checkAttrs_ok at_def nullish_def)
qed

lemma highlight_read:
  assumes "values_ok m"
  shows "\<exists>a'. foldl mark_step (a, u) (if get_or [] (map_of m ''highlight'') = [] then []
            else [\<lparr>mk_type = ''highlight'',
                   mk_attrs = [(''color'', if map_of m ''highlight'' = Some ''1'' then JNull
                     else nullable (map_of m ''highlight''))]\<rparr>]) = (a', u)
    \<and> taken m [''highlight''] a a'"
proof (cases "map_of m ''highlight''")
  case None
  then show ?thesis by (intro exI[of _ a]) (auto simp: get_or_def taken_def)
next
  case (Some v)
  define at where "at = (\<lambda>k :: string. Some (JStr v))"
  have "reads at m ''highlight''" using Some by (simp add: reads_def at_def)
  from put_reads[OF assms this, of a u] obtain a' where
    a': "put_attr ''highlight'' (Some (JStr v)) (a, u) = (a', u)" "taken m [''highlight''] a a'"
    by (auto simp: at_def)
  moreover have "v \<noteq> []" using value_ok[OF assms Some] by simp
  ultimately show ?thesis using Some
    by (intro exI[of _ a']) (auto simp: mark_step_def get_or_def checkAttrs_ok nullable_def nullish_def)
qed

lemma marks_read_back:
  assumes "canonical_marks m"
  shows "\<exists>m'. marksOf (pmMarks m) u = (m', u) \<and> map_of m' = map_of m"
proof -
  have ok: "values_ok m" and lk: "map_of m ''link'' = None \<longrightarrow> map_of m ''linkTarget'' = None \<and> map_of m ''linkRel'' = None"
    and keys: "fst ` set m \<subseteq> set mark_names"
    using assms by (simp_all add: canonical_marks_def)
  let ?simple = "[''bold'', ''italic'', ''underline'', ''strikethrough'', ''code'']"
  obtain a where a: "foldl mark_step ([], u) (concat (map (simple_mark m) ?simple)) = (a, u)" "taken m ?simple [] a"
    using simple_marks_read[OF ok, of ?simple] by blast
  note s = style_read[OF ok, of a u]
  then obtain b where b: "foldl mark_step (a, u) (let style = concat (map (\<lambda>name. case map_of m name of None \<Rightarrow> []
        | Some v \<Rightarrow> [(name, JStr v)]) TEXT_STYLE) in if style = [] then [] else [\<lparr>mk_type = ''textStyle'', mk_attrs = style\<rparr>]) = (b, u)"
      "taken m TEXT_STYLE a b" unfolding Let_def by blast
  obtain c where c: "foldl mark_step (b, u) (if get_or [] (map_of m ''link'') = [] then []
            else [\<lparr>mk_type = ''link'',
                   mk_attrs = [(''href'', nullable (map_of m ''link'')), (''target'', nullable (map_of m ''linkTarget'')),
                     (''rel'', nullable (map_of m ''linkRel'')), (''class'', JNull)]\<rparr>]) = (c, u)"
      "taken m [''link'', ''linkTarget'', ''linkRel''] b c"
    using link_read[OF ok lk] by blast
  obtain d where d: "foldl mark_step (c, u) (if get_or [] (map_of m ''highlight'') = [] then []
            else [\<lparr>mk_type = ''highlight'',
                   mk_attrs = [(''color'', if map_of m ''highlight'' = Some ''1'' then JNull
                     else nullable (map_of m ''highlight''))]\<rparr>]) = (d, u)" "taken m [''highlight''] c d"
    using highlight_read[OF ok] by blast
  have all: "taken m (?simple @ TEXT_STYLE @ [''link'', ''linkTarget'', ''linkRel''] @ [''highlight'']) [] d"
    by (intro taken_append[OF a(2)] taken_append[OF b(2)] taken_append[OF c(2)] d(2))
  have names: "set (?simple @ TEXT_STYLE @ [''link'', ''linkTarget'', ''linkRel''] @ [''highlight'']) = set mark_names"
    by (auto simp: mark_names_def TEXT_STYLE_def)
  have none: "map_of m k = None" if "k \<notin> set mark_names" for k
    using that keys by (auto simp: map_of_eq_None_iff)
  have "map_of d k = map_of m k" for k
    using all none[of k] unfolding taken_def names by (auto simp del: set_append)
  moreover have "marksOf (pmMarks m) u = (d, u)"
    using a(1) b(1) c(1) d(1) by (simp only: marksOf_def pmMarks_def Let_def foldl_append)
  ultimately show ?thesis by (intro exI[of _ d]) auto
qed

section \<open>Inline content\<close>

lemma pmMarks_eq:
  assumes "canonical_marks m" and "canonical_marks m'" and "pmMarks m = pmMarks m'"
  shows "map_of m = map_of m'"
  using marks_read_back[OF assms(1), of "[]"] marks_read_back[OF assms(2), of "[]"] assms(3) by auto

text \<open>What one inline node adds, whatever came before.\<close>

definition node_shows :: "PmNode \<Rightarrow> CanonicalChar list \<Rightarrow> bool" where
  "node_shows n cs \<longleftrightarrow> (\<forall>c u. \<exists>cs'. inline_step (c, u) n = (c @ cs', u) \<and> list_all2 same_char cs' cs)"

lemma text_shows:
  assumes "canonical_marks m" and "list_all2 (\<lambda>s ch. s = ch_scalar ch \<and> map_of (ch_marks ch) = map_of m) txts cs"
  shows "node_shows (PmNode ''text'' [] [] txts (pmMarks m)) cs"
  unfolding node_shows_def
proof (intro allI)
  fix c u
  obtain m' where m': "marksOf (pmMarks m) u = (m', u)" "map_of m' = map_of m"
    using marks_read_back[OF assms(1)] by blast
  have "list_all2 same_char (map (\<lambda>s. \<lparr>ch_scalar = s, ch_marks = m'\<rparr>) txts) cs"
    using assms(2) m'(2) by (auto simp: list_all2_conv_all_nth same_char_def)
  then show "\<exists>cs'. inline_step (c, u) (PmNode ''text'' [] [] txts (pmMarks m)) = (c @ cs', u) \<and> list_all2 same_char cs' cs"
    using m'(1) by (intro exI[of _ "map (\<lambda>s. \<lparr>ch_scalar = s, ch_marks = m'\<rparr>) txts"])
      (simp add: inline_step_def checkAttrs_def)
qed

lemma break_shows:
  assumes "canonical_marks (ch_marks ch)" and "ch_scalar ch = 10"
  shows "node_shows (PmNode ''hardBreak'' [] [] [] (pmMarks (ch_marks ch))) [ch]"
  unfolding node_shows_def
proof (intro allI)
  fix c u
  obtain m' where m': "marksOf (pmMarks (ch_marks ch)) u = (m', u)" "map_of m' = map_of (ch_marks ch)"
    using marks_read_back[OF assms(1)] by blast
  then show "\<exists>cs'. inline_step (c, u) (PmNode ''hardBreak'' [] [] [] (pmMarks (ch_marks ch))) = (c @ cs', u)
      \<and> list_all2 same_char cs' [ch]"
    using assms(2) by (intro exI[of _ "[\<lparr>ch_scalar = 10, ch_marks = m'\<rparr>]"])
      (simp add: inline_step_def checkAttrs_def same_char_def)
qed

text \<open>The nodes that the run-length loop of \<open>textNode\<close> builds, and the characters each stands for.\<close>

definition node_fits :: "PmNode \<Rightarrow> CanonicalChar list \<Rightarrow> bool" where
  "node_fits n cs \<longleftrightarrow>
     (\<exists>m txts. canonical_marks m \<and> n = PmNode ''text'' [] [] txts (pmMarks m)
        \<and> list_all2 (\<lambda>s ch. s = ch_scalar ch \<and> map_of (ch_marks ch) = map_of m) txts cs)
     \<or> (\<exists>ch. canonical_marks (ch_marks ch) \<and> ch_scalar ch = 10 \<and> cs = [ch]
        \<and> n = PmNode ''hardBreak'' [] [] [] (pmMarks (ch_marks ch)))"

lemma fits_shows: "node_fits n cs \<Longrightarrow> node_shows n cs"
  unfolding node_fits_def using text_shows break_shows by blast

lemma text_runs:
  assumes "\<forall>ch \<in> set chars. canonical_marks (ch_marks ch)"
  shows "\<exists>css. list_all2 node_fits (foldl text_step [] chars) css \<and> concat css = chars"
  using assms
proof (induction chars rule: rev_induct)
  case (snoc ch chars)
  let ?content = "foldl text_step [] chars"
  obtain css where css: "list_all2 node_fits ?content css" "concat css = chars" using snoc by auto
  have ok: "canonical_marks (ch_marks ch)" using snoc.prems by simp
  have new: "node_fits (PmNode ''text'' [] [] [ch_scalar ch] (pmMarks (ch_marks ch))) [ch]"
    using ok unfolding node_fits_def by auto
  consider (brk) "ch_scalar ch = 10"
    | (merge) "ch_scalar ch \<noteq> 10" "?content \<noteq> []" "nd_type (last ?content) = ''text''"
        "nd_marks (last ?content) = pmMarks (ch_marks ch)"
    | (start) "ch_scalar ch \<noteq> 10"
        "\<not> (?content \<noteq> [] \<and> nd_type (last ?content) = ''text'' \<and> nd_marks (last ?content) = pmMarks (ch_marks ch))"
    by blast
  then show ?case
  proof cases
    case brk
    have "node_fits (PmNode ''hardBreak'' [] [] [] (pmMarks (ch_marks ch))) [ch]"
      using ok brk unfolding node_fits_def by blast
    moreover have "foldl text_step [] (chars @ [ch]) = ?content @ [PmNode ''hardBreak'' [] [] [] (pmMarks (ch_marks ch))]"
      using brk by (simp add: text_step_def Let_def)
    ultimately show ?thesis using css
      by (intro exI[of _ "css @ [[ch]]"]) (simp add: list_all2_appendI)
  next
    case merge
    then obtain xs n where c: "?content = xs @ [n]" by (metis append_butlast_last_id)
    then obtain ys cs where ys: "css = ys @ [cs]" "list_all2 node_fits xs ys" "node_fits n cs"
      using css(1) by (auto simp: list_all2_append1 list_all2_Cons1)
    obtain m txts where n: "canonical_marks m" "n = PmNode ''text'' [] [] txts (pmMarks m)"
        "list_all2 (\<lambda>s ch. s = ch_scalar ch \<and> map_of (ch_marks ch) = map_of m) txts cs"
      using ys(3) merge(3) c unfolding node_fits_def by auto
    have "map_of (ch_marks ch) = map_of m"
      using pmMarks_eq[OF ok n(1)] merge(4) c n(2) by simp
    then have "list_all2 (\<lambda>s ch. s = ch_scalar ch \<and> map_of (ch_marks ch) = map_of m) (txts @ [ch_scalar ch]) (cs @ [ch])"
      using n(3) by (simp add: list_all2_appendI)
    then have "node_fits (PmNode ''text'' [] [] (txts @ [ch_scalar ch]) (pmMarks m)) (cs @ [ch])"
      using n(1) unfolding node_fits_def by blast
    moreover have "foldl text_step [] (chars @ [ch]) = xs @ [PmNode ''text'' [] [] (txts @ [ch_scalar ch]) (pmMarks m)]"
      using merge c n(2) by (simp add: text_step_def)
    ultimately show ?thesis
      using ys css(2) by (intro exI[of _ "ys @ [cs @ [ch]]"]) (simp add: list_all2_appendI)
  next
    case start
    then have "foldl text_step [] (chars @ [ch]) = ?content @ [PmNode ''text'' [] [] [ch_scalar ch] (pmMarks (ch_marks ch))]"
      by (auto simp: text_step_def Let_def)
    then show ?thesis using css new
      by (intro exI[of _ "css @ [[ch]]"]) (simp add: list_all2_appendI)
  qed
qed simp

lemma inline_read_back:
  assumes "\<forall>ch \<in> set chars. canonical_marks (ch_marks ch)"
  shows "\<exists>cs'. foldl inline_step ([], u) (foldl text_step [] chars) = (cs', u) \<and> list_all2 same_char cs' chars"
proof -
  obtain css where css: "list_all2 node_fits (foldl text_step [] chars) css" "concat css = chars"
    using text_runs[OF assms] by blast
  have "\<exists>cs'. foldl inline_step (c, u) ns = (c @ cs', u) \<and> list_all2 same_char cs' (concat css)"
    if "list_all2 node_fits ns css" for c ns css
    using that
  proof (induction ns css arbitrary: c rule: list_all2_induct)
    case (Cons n ns cs css)
    obtain cs' where a: "inline_step (c, u) n = (c @ cs', u)" "list_all2 same_char cs' cs"
      using fits_shows[OF Cons.hyps(1)] by (auto simp: node_shows_def)
    obtain cs'' where b: "foldl inline_step (c @ cs', u) ns = ((c @ cs') @ cs'', u)" "list_all2 same_char cs'' (concat css)"
      using Cons.IH by blast
    then show ?case using a by (intro exI[of _ "cs' @ cs''"]) (simp add: list_all2_appendI)
  qed simp
  from this[OF css(1), of "[]"] show ?thesis using css(2) by simp
qed

section \<open>Text blocks\<close>

definition content_ok :: "CanonicalBlock \<Rightarrow> bool" where
  "content_ok b \<longleftrightarrow>
     values_ok (bl_attrs b) \<and> (\<forall>ch \<in> set (bl_chars b). canonical_marks (ch_marks ch))
     \<and> map_of (bl_attrs b) ''align'' \<noteq> Some ''left'' \<and> map_of (bl_attrs b) ''lineHeight'' \<noteq> Some ''normal''"

text \<open>A paragraph or a heading outside lists.\<close>

definition plain_ok :: "CanonicalBlock \<Rightarrow> bool" where
  "plain_ok b \<longleftrightarrow>
     content_ok b \<and> (bl_type b = ''paragraph'' \<or> heading_type (bl_type b))
     \<and> (\<forall>k. k \<notin> {''type'', ''align'', ''lineHeight''} \<longrightarrow> map_of (bl_attrs b) k = None)"

text \<open>A block of a list item with the attributes \<open>s\<close>.\<close>

definition item_ok :: "attributes \<Rightarrow> CanonicalBlock \<Rightarrow> bool" where
  "item_ok s b \<longleftrightarrow>
     content_ok b \<and> bl_type b \<in> {''list-item'', ''list-continuation''}
     \<and> (case map_of (bl_attrs b) ''contentType'' of None \<Rightarrow> True | Some t \<Rightarrow> heading_type t)
     \<and> (\<forall>k. k \<notin> {''type'', ''contentType'', ''align'', ''lineHeight''} \<longrightarrow> map_of (bl_attrs b) k = map_of s k)"

lemma heading_shape:
  assumes "heading_type t"
  obtains d where "d \<in> set ''123456''" "t = ''heading-'' @ [d]"
  using assms unfolding heading_type_def by auto

lemma digit_level: "d \<in> set ''123456'' \<Longrightarrow> js_String (number_of [d]) = [d] \<and> number_of [d] \<noteq> JNull"
proof -
  assume "d \<in> set ''123456''"
  then have d: "is_digit d" by (auto simp: is_digit_def)
  then have "digit_val d < 10" by (auto simp: is_digit_def digit_val_def)
  then have "show_nat (digit_val d) = [d]" using d by (simp add: show_nat.simps[of "digit_val d"])
  then show ?thesis using d by (simp add: number_of_def dec_val_def show_int_def)
qed

lemma textNode_type:
  assumes "heading_type (content_type b) \<or> \<not> starts_with ''heading-'' (content_type b)"
  shows "block_type (textNode b) = (if heading_type (content_type b) then content_type b else ''paragraph'')"
    and "nd_type (textNode b) = (if heading_type (content_type b) then ''heading'' else ''paragraph'')"
proof -
  have "starts_with ''heading-'' (content_type b)" if "heading_type (content_type b)"
    using heading_shape[OF that] by (metis append_eq_conv_conj starts_with_def)
  then have "starts_with ''heading-'' (content_type b) = heading_type (content_type b)"
    using assms by blast
  then show n: "nd_type (textNode b) = (if heading_type (content_type b) then ''heading'' else ''paragraph'')"
    by (simp add: textNode_def Let_def)
  show "block_type (textNode b) = (if heading_type (content_type b) then content_type b else ''paragraph'')"
  proof (cases "heading_type (content_type b)")
    case True
    from heading_shape[OF True] obtain d where d: "d \<in> set ''123456''" "content_type b = ''heading-'' @ [d]" .
    then show ?thesis using digit_level[OF d(1)]
      by (simp add: block_type_def textNode_def Let_def starts_with_def nullish_def True[unfolded d(2), simplified])
  next
    case False
    then show ?thesis using n by (simp add: block_type_def)
  qed
qed

lemma map_of_assign:
  assumes "distinct (map fst s)"
  shows "map_of (assign a s) k = (case map_of s k of None \<Rightarrow> map_of a k | Some v \<Rightarrow> Some v)"
  using assms
proof (induction s arbitrary: a)
  case (Cons kv s)
  obtain k' v where kv: "kv = (k', v)" by fastforce
  have "map_of s k' = None" using Cons.prems by (simp add: kv map_of_eq_None_iff)
  then show ?case using Cons by (auto simp: assign_def kv map_of_obj_put' split: option.splits)
qed (simp add: assign_def)

lemma textNode_attr:
  "k = ''textAlign'' \<and> n = ''align'' \<or> k = ''lineHeight'' \<and> n = ''lineHeight'' \<Longrightarrow>
    map_of (nd_attrs (textNode b)) k = map_option JStr (map_of (bl_attrs b) n)"
  by (auto simp: textNode_def Let_def split: option.splits)

lemma put_if_attr:
  assumes "values_ok (bl_attrs b)" and "map_of (bl_attrs b) n \<noteq> Some d" and "v = map_option JStr (map_of (bl_attrs b) n)"
  shows "\<exists>a'. put_if (js_truthy v \<and> v \<noteq> Some (JStr d)) n v (a, u) = (a', u)
    \<and> (\<forall>k. map_of a' k = (if k = n \<and> map_of (bl_attrs b) n \<noteq> None then map_of (bl_attrs b) n else map_of a k))"
proof (cases "map_of (bl_attrs b) n")
  case None
  then show ?thesis using assms(3) by (intro exI[of _ a]) (simp add: put_if_def js_truthy_def)
next
  case (Some w)
  then show ?thesis using assms value_ok[OF assms(1) Some]
    by (intro exI[of _ "obj_put n w a"]) (auto simp: put_if_def put_attr_def js_truthy_def nullish_def map_of_obj_put')
qed

lemma type_values:
  "heading_type t \<Longrightarrow> validRichTextValue ''type'' t" "heading_type t \<Longrightarrow> validRichTextValue ''contentType'' t"
  "validRichTextValue ''type'' ''list-item''" "validRichTextValue ''type'' ''list-continuation''"
  "validRichTextValue ''contentType'' ''paragraph''"
  by (auto simp: validRichTextValue_def utf8_char_def is_control_def heading_type_def)

lemma textNode_attrs_known:
  "checkAttrs (nd_attrs (textNode b)) (if nd_type (textNode b) = ''heading''
     then [''level'', ''textAlign'', ''lineHeight''] else [''textAlign'', ''lineHeight'']) u = u"
  by (rule checkAttrs_ok) (auto simp: textNode_def Let_def split: option.splits if_splits)

lemma put_valid:
  "validRichTextValue k v \<Longrightarrow> put_if c k (Some (JStr v)) (a, u) = (if c then obj_put k v a else a, u)"
  by (simp add: put_if_def put_attr_def nullish_def)

lemma other_types:
  "t \<in> {''paragraph'', ''list-item'', ''list-continuation''} \<Longrightarrow> \<not> starts_with ''heading-'' t \<and> \<not> heading_type t"
  by (auto simp: starts_with_def heading_type_def)

lemma plain_type:
  assumes "plain_ok b"
  shows "content_type b = bl_type b" and "bl_type b = ''paragraph'' \<or> heading_type (bl_type b)"
  using assms by (simp_all add: plain_ok_def content_type_def get_or_def)

lemma item_content:
  assumes "item_ok s b"
  shows "map_of (bl_attrs b) ''contentType'' = None \<and> content_type b \<in> {''list-item'', ''list-continuation''}
    \<or> heading_type (content_type b) \<and> map_of (bl_attrs b) ''contentType'' = Some (content_type b)"
  using assms by (auto simp: item_ok_def content_type_def get_or_def split: option.splits)

lemma item_block_type:
  assumes "item_ok s b" and "t = (if heading_type (content_type b) then content_type b else ''paragraph'')"
  shows "t \<noteq> ''paragraph'' \<longleftrightarrow> map_of (bl_attrs b) ''contentType'' \<noteq> None"
    and "map_of (bl_attrs b) ''contentType'' \<noteq> None \<Longrightarrow> map_of (bl_attrs b) ''contentType'' = Some t"
proof -
  have n: "\<not> heading_type ''list-item''" "\<not> heading_type ''list-continuation''" "\<not> heading_type ''paragraph''"
    using other_types by simp_all
  have "t \<noteq> ''paragraph'' \<and> map_of (bl_attrs b) ''contentType'' = Some t
      \<or> t = ''paragraph'' \<and> map_of (bl_attrs b) ''contentType'' = None"
    using item_content[OF assms(1)]
  proof (elim disjE conjE)
    assume "map_of (bl_attrs b) ''contentType'' = None" "content_type b \<in> {''list-item'', ''list-continuation''}"
    then show ?thesis using assms(2) n(1,2) by fastforce
  next
    assume h: "heading_type (content_type b)" and "map_of (bl_attrs b) ''contentType'' = Some (content_type b)"
    moreover have "content_type b \<noteq> ''paragraph''" using h n(3) by metis
    ultimately show ?thesis using assms(2) by simp
  qed
  then show "t \<noteq> ''paragraph'' \<longleftrightarrow> map_of (bl_attrs b) ''contentType'' \<noteq> None"
    "map_of (bl_attrs b) ''contentType'' \<noteq> None \<Longrightarrow> map_of (bl_attrs b) ''contentType'' = Some t"
    by auto
qed

text \<open>A rendered text block reads back, in and outside of lists.\<close>

lemma textNode_read_back:
  assumes "s = [] \<and> plain_ok b \<or> map_of s ''list'' \<noteq> None \<and> distinct (map fst s) \<and> item_ok s b
      \<and> map_of s ''align'' = None \<and> map_of s ''lineHeight'' = None \<and> map_of s ''contentType'' = None
      \<and> (cont \<longleftrightarrow> bl_type b = ''list-continuation'')"
  shows "\<exists>b'. addTextBlock (textNode b) s cont (u, bs) = (u, bs @ [b']) \<and> same_block b' b"
proof -
  have ok: "values_ok (bl_attrs b)" "\<forall>ch \<in> set (bl_chars b). canonical_marks (ch_marks ch)"
    "map_of (bl_attrs b) ''align'' \<noteq> Some ''left''" "map_of (bl_attrs b) ''lineHeight'' \<noteq> Some ''normal''"
    using assms by (auto simp: plain_ok_def item_ok_def content_ok_def)
  let ?n = "textNode b" and ?t = "block_type (textNode b)"
  consider (plain) "s = []" "plain_ok b" | (item) "map_of s ''list'' \<noteq> None" "item_ok s b" "cont \<longleftrightarrow> bl_type b = ''list-continuation''"
    using assms by blast
  note kinds = this
  from kinds have shape: "heading_type (content_type b) \<or> \<not> starts_with ''heading-'' (content_type b)"
  proof cases
    case plain
    then show ?thesis using plain_type[OF plain(2)] other_types[of "content_type b"] by auto
  next
    case item
    then show ?thesis using item_content[OF item(2)] other_types[of "content_type b"] by auto
  qed
  note nt = textNode_type[OF shape]
  from kinds have tt: "text_type ?n s cont = bl_type b"
  proof cases
    case plain
    then have "text_type ?n s cont = ?t" by (simp add: text_type_def)
    also have "?t = bl_type b"
      unfolding nt(1) plain_type(1)[OF plain(2)] using plain_type(2)[OF plain(2)] by (elim disjE) simp_all
    finally show ?thesis .
  next
    case item
    then have "bl_type b = ''list-item'' \<or> bl_type b = ''list-continuation''" by (simp add: item_ok_def)
    then show ?thesis using item(3) unfolding text_type_def if_not_P[OF item(1)] by (elim disjE) simp_all
  qed
  have t_valid: "validRichTextValue ''contentType'' ?t"
    unfolding nt(1) using type_values(2,5) by (simp split: if_split)
  from kinds have b_valid: "bl_type b \<noteq> ''paragraph'' \<Longrightarrow> validRichTextValue ''type'' (bl_type b)"
  proof cases
    case plain
    then show "bl_type b \<noteq> ''paragraph'' \<Longrightarrow> validRichTextValue ''type'' (bl_type b)"
      using plain_type(2)[OF plain(2)] type_values(1) by blast
  next
    case item
    then have "bl_type b = ''list-item'' \<or> bl_type b = ''list-continuation''" by (simp add: item_ok_def)
    then show "bl_type b \<noteq> ''paragraph'' \<Longrightarrow> validRichTextValue ''type'' (bl_type b)"
      using type_values(3,4) by auto
  qed
  define a1 where "a1 = (if bl_type b \<noteq> ''paragraph'' then obj_put ''type'' (bl_type b) [] else [])"
  define a2 where "a2 = (if map_of s ''list'' \<noteq> None then assign a1 s else a1)"
  define a3 where "a3 = (if map_of s ''list'' \<noteq> None \<and> ?t \<noteq> ''paragraph'' then obj_put ''contentType'' ?t a2 else a2)"
  obtain a4 where a4: "put_if (js_truthy (map_of (nd_attrs ?n) ''textAlign'') \<and> map_of (nd_attrs ?n) ''textAlign'' \<noteq> Some (JStr ''left''))
      ''align'' (map_of (nd_attrs ?n) ''textAlign'') (a3, u) = (a4, u)"
    "\<forall>k. map_of a4 k = (if k = ''align'' \<and> map_of (bl_attrs b) ''align'' \<noteq> None then map_of (bl_attrs b) ''align'' else map_of a3 k)"
    using put_if_attr[OF ok(1,3) textNode_attr] by blast
  obtain a5 where a5: "put_if (js_truthy (map_of (nd_attrs ?n) ''lineHeight'') \<and> map_of (nd_attrs ?n) ''lineHeight'' \<noteq> Some (JStr ''normal''))
      ''lineHeight'' (map_of (nd_attrs ?n) ''lineHeight'') (a4, u) = (a5, u)"
    "\<forall>k. map_of a5 k = (if k = ''lineHeight'' \<and> map_of (bl_attrs b) ''lineHeight'' \<noteq> None then map_of (bl_attrs b) ''lineHeight'' else map_of a4 k)"
    using put_if_attr[OF ok(1,4) textNode_attr] by blast
  have p1: "put_if (bl_type b \<noteq> ''paragraph'') ''type'' (Some (JStr (bl_type b))) ([], u) = (a1, u)"
    by (cases "bl_type b = ''paragraph''") (simp_all add: put_if_def a1_def put_attr_def nullish_def b_valid)
  have p2: "put_if (map_of s ''list'' \<noteq> None \<and> ?t \<noteq> ''paragraph'') ''contentType'' (Some (JStr ?t))
      (if map_of s ''list'' \<noteq> None then assign a1 s else a1, u) = (a3, u)"
    unfolding put_valid[OF t_valid] a3_def a2_def by simp
  have "text_attrs ?n s cont u = (a5, u)"
    unfolding text_attrs_def Let_def tt p1 fst_conv snd_conv p2 if_P[OF t_valid] textNode_attrs_known a4(1) a5(1) by (rule refl)
  moreover obtain cs' where cs': "foldl inline_step ([], u) (nd_content ?n) = (cs', u)" "list_all2 same_char cs' (bl_chars b)"
    using inline_read_back[OF ok(2)] by (auto simp: textNode_def Let_def)
  moreover have "nd_type ?n = ''paragraph'' \<or> nd_type ?n = ''heading''" using nt(2) by simp
  ultimately have add: "addTextBlock ?n s cont (u, bs) = (u, bs @ [\<lparr>bl_type = bl_type b, bl_attrs = a5, bl_chars = cs'\<rparr>])"
    by (auto simp: addTextBlock_def tt)
  have "map_of a5 k = map_of (bl_attrs b) k" if k: "k \<noteq> ''type''" for k
  proof -
    have m1: "map_of a1 k' = (if k' = ''type'' \<and> bl_type b \<noteq> ''paragraph'' then Some (bl_type b) else None)" for k'
      by (simp add: a1_def)
    show ?thesis
    proof (cases "s = []")
      case True
      then have "plain_ok b" using assms by simp
      then have p: "k \<notin> {''type'', ''align'', ''lineHeight''} \<Longrightarrow> map_of (bl_attrs b) k = None" unfolding plain_ok_def by blast
      have "map_of a3 k = None" using True k m1[of k] by (simp add: a2_def a3_def)
      then show ?thesis unfolding a5(2)[rule_format, of k] a4(2)[rule_format, of k]
        using k p by (cases "k = ''lineHeight''"; cases "k = ''align''") simp_all
    next
      case False
      then have i: "map_of s ''list'' \<noteq> None" "distinct (map fst s)" "item_ok s b"
        "map_of s ''align'' = None" "map_of s ''lineHeight'' = None" "map_of s ''contentType'' = None"
        using assms False by blast+
      have m2: "map_of a2 k = map_of s k" if "k \<noteq> ''type''" for k
        using i(1) m1[of k] that by (simp add: a2_def map_of_assign[OF i(2)] split: option.splits)
      have ct: "?t \<noteq> ''paragraph'' \<longleftrightarrow> map_of (bl_attrs b) ''contentType'' \<noteq> None"
        "map_of (bl_attrs b) ''contentType'' \<noteq> None \<Longrightarrow> map_of (bl_attrs b) ''contentType'' = Some ?t"
        by (rule item_block_type[OF i(3) nt(1)])+
      have m3: "map_of a3 k = (if k = ''contentType'' then map_of (bl_attrs b) k else map_of s k)" if "k \<noteq> ''type''" for k
      proof -
        have "map_of a3 k = (if ?t \<noteq> ''paragraph'' \<and> k = ''contentType'' then Some ?t else map_of a2 k)"
          using i(1) by (simp add: a3_def map_of_obj_put')
        then show ?thesis unfolding m2[OF that] using i(6) ct by (cases "k = ''contentType''") simp_all
      qed
      have own: "k \<notin> {''type'', ''contentType'', ''align'', ''lineHeight''} \<Longrightarrow> map_of (bl_attrs b) k = map_of s k"
        using i(3) unfolding item_ok_def by blast
      have a5k: "map_of a5 k = (if k = ''lineHeight'' \<and> map_of (bl_attrs b) ''lineHeight'' \<noteq> None then map_of (bl_attrs b) ''lineHeight''
          else if k = ''align'' \<and> map_of (bl_attrs b) ''align'' \<noteq> None then map_of (bl_attrs b) ''align''
          else if k = ''contentType'' then map_of (bl_attrs b) k else map_of s k)"
        unfolding a5(2)[rule_format, of k] a4(2)[rule_format, of k] m3[OF k] by (rule refl)
      consider "k = ''align''" | "k = ''lineHeight''" | "k = ''contentType''" | "k \<notin> {''type'', ''contentType'', ''align'', ''lineHeight''}"
        using k by blast
      then show ?thesis
      proof cases
        case 1
        then show ?thesis using i(4) unfolding a5k by simp
      next
        case 2
        then show ?thesis using i(5) unfolding a5k by simp
      next
        case 3
        then show ?thesis unfolding a5k by simp
      next
        case 4
        then show ?thesis using own unfolding a5k by simp
      qed
    qed
  qed
  then show ?thesis using add cs'(2)
    by (intro exI[of _ "\<lparr>bl_type = bl_type b, bl_attrs = a5, bl_chars = cs'\<rparr>"]) (simp add: same_block_def same_attrs_def)
qed

section \<open>Properties\<close>

text \<open>
  Nothing unregistered reaches the replica. Whatever document the editor holds, supported or
  not, every attribute of the blocks read from it and every mark of their characters has a name and a value of
  the registry that the engine shares.
\<close>

theorem scanned_values_valid:
  "list_all (\<lambda>b. list_all (\<lambda>(k, v). validRichTextValue k v) (bl_attrs b)
      \<and> list_all (\<lambda>ch. list_all (\<lambda>(k, v). validRichTextValue k v) (ch_marks ch)) (bl_chars b))
    (fst (pmDocToBlocks doc))"
proof -
  have step: "list_all block_values_ok (snd (top_step st n))" if "list_all block_values_ok (snd st)" for st n
    using that by (auto simp: top_step_def walk_values(1) addTextBlock_values)
  have "list_all block_values_ok (snd (foldl top_step st nodes))" if "list_all block_values_ok (snd st)" for st nodes
    using that by (induction nodes arbitrary: st) (simp_all add: step)
  then have "list_all block_values_ok (fst (pmDocToBlocks doc))"
    by (simp add: pmDocToBlocks_def Let_def case_prod_beta)
  then show ?thesis by (simp add: block_values_ok_def values_ok_def list_all_iff[abs_def])
qed

end
