(* ===== verification/Pm_Lists.thy ===== *)
theory Pm_Lists
  imports Pm_Roundtrip
begin

text \<open>
  The round trip of whole documents through the editor. The stack of \<^verbatim>\<open>blocksToPmDoc\<close> is the spine of
  lists that ends the document: a block pushed through a frame is read after everything before it,
  with the depth and the attributes of that frame.
\<close>

section \<open>Blocks of list items\<close>

text \<open>The attributes that the scan gives to the blocks of the item rendered for a block.\<close>

definition item_attrs :: "CanonicalBlock \<Rightarrow> attributes" where
  "item_attrs b =
     fst (list_attrs (list_type b) (nd_attrs (list_node (signature_of b))) (requested_depth b) (nd_attrs (item_node b)) [])"

definition listed :: "CanonicalBlock \<Rightarrow> bool" where
  "listed b \<longleftrightarrow> item_ok (item_attrs b) b"

lemma list_types: "list_type b = ''taskList'' \<or> list_type b = ''orderedList'' \<or> list_type b = ''bulletList''"
  by (simp add: list_type_def Let_def)

lemma list_kind_type [simp]: "\<exists>y. list_kind (list_type b) = Some y"
  using list_types[of b] by (auto simp: list_kind_def)

lemma start_value:
  assumes "validRichTextValue ''listStart'' v"
  shows "number_of v = JNum (int (dec_val v))" and "show_nat (dec_val v) = v"
proof -
  have "v \<noteq> []" "list_all is_digit v" "hd v \<noteq> CHR ''0''"
    using assms by (simp_all add: validRichTextValue_def list_all_iff)
  then show "number_of v = JNum (int (dec_val v))" "show_nat (dec_val v) = v"
    by (simp_all add: number_of_def show_nat_dec_val_nz)
qed

lemma list_attrs_clean:
  assumes "listed b"
  shows "list_attrs (list_type b) (nd_attrs (list_node (signature_of b))) (requested_depth b) (nd_attrs (item_node b)) u
    = (item_attrs b, u)"
proof -
  have ok: "values_ok (bl_attrs b)" using assms by (simp add: listed_def item_ok_def content_ok_def)
  define start where "start = map_of (nd_attrs (list_node (signature_of b))) ''start''"
  have "start = None \<or> start = Some (JNum 1) \<or> (\<exists>n. start = Some (JNum (int n)) \<and> validRichTextValue ''listStart'' (show_nat n))"
  proof (cases "list_type b = ''orderedList''")
    case True
    then have st: "start = Some (number_of (get_or ''1'' (map_of (bl_attrs b) ''listStart'')))"
      by (simp add: start_def list_node_def signature_of_def)
    show ?thesis
    proof (cases "map_of (bl_attrs b) ''listStart''")
      case None
      then show ?thesis using st by (simp add: get_or_def number_of_def is_digit_def dec_val_def digit_val_def)
    next
      case (Some v)
      then have "validRichTextValue ''listStart'' v" using value_ok[OF ok] by blast
      then show ?thesis using st start_value Some by (auto simp: get_or_def)
    qed
  next
    case False
    then show ?thesis by (simp add: start_def list_node_def signature_of_def)
  qed
  then show ?thesis
    unfolding item_attrs_def list_attrs_def Let_def start_def[symmetric]
    by (auto simp: put_attr_def nullish_def show_int_def)
qed

lemma item_attrs_shape:
  "distinct (map fst (item_attrs b)) \<and> map_of (item_attrs b) ''list'' \<noteq> None \<and> map_of (item_attrs b) ''align'' = None
    \<and> map_of (item_attrs b) ''lineHeight'' = None \<and> map_of (item_attrs b) ''contentType'' = None"
  using list_types[of b]
  by (auto simp: item_attrs_def list_attrs_def Let_def put_attr_def)

lemma open_item_clean:
  assumes "listed b"
  shows "open_item (requested_depth b) (list_type b) (nd_attrs (list_node (signature_of b))) (nd_attrs (item_node b)) st
    = (item_attrs b, st)"
proof -
  let ?at = "nd_attrs (item_node b)"
  have "checkAttrs ?at (if list_type b = ''taskList'' then [''checked''] else []) u = u" for u
    by (rule checkAttrs_ok) (simp add: item_node_def)
  moreover have "nullish (map_of ?at ''checked'') \<or> map_of ?at ''checked'' \<in> {Some (JBool True), Some (JBool False)}"
    by (auto simp: item_node_def nullish_def)
  ultimately show ?thesis
    using list_attrs_clean[OF assms] by (auto simp: open_item_def Let_def)
qed

lemma open_list_clean: "open_list (fst sg) (nd_attrs (list_node sg)) st = st"
proof -
  have "checkAttrs (nd_attrs (list_node sg)) (if fst sg = ''orderedList'' then [''start'', ''type''] else []) u = u" for u
    by (rule checkAttrs_ok) (simp add: list_node_def)
  then show ?thesis by (simp add: open_list_def reject_if_def list_node_def nullish_def)
qed

section \<open>Reading level by level\<close>

text \<open>A node at the top (level 0) or among the later children of an item of a list at depth \<open>d - 1\<close>.\<close>

definition level_read :: "nat \<Rightarrow> attributes \<Rightarrow> scan \<Rightarrow> PmNode \<Rightarrow> scan" where
  "level_read d a st n = (if list_kind (nd_type n) \<noteq> None then walk_list d n st else addTextBlock n a (0 < d) st)"

abbreviation level_reads :: "nat \<Rightarrow> attributes \<Rightarrow> PmNode list \<Rightarrow> scan \<Rightarrow> scan" where
  "level_reads d a ns st \<equiv> foldl (level_read d a) st ns"

lemma top_reads: "foldl top_step st ns = level_reads 0 [] ns st"
  by (induction ns arbitrary: st) (simp_all add: top_step_def level_read_def)

lemma children_read: "walk_children d a ns (st, False) = (level_reads (Suc d) a ns st, False)"
  by (induction ns arbitrary: st) (simp_all add: level_read_def)

lemma walk_items_append: "walk_items d t kvs (xs @ ys) st = walk_items d t kvs ys (walk_items d t kvs xs st)"
proof (induction xs arbitrary: st)
  case (Cons x xs)
  then show ?case by (cases x) simp
qed simp

abbreviation list_of :: "signature \<Rightarrow> PmNode list \<Rightarrow> PmNode" where
  "list_of sg items \<equiv> PmNode (fst sg) (nd_attrs (list_node sg)) items [] []"

abbreviation item_of :: "signature \<Rightarrow> (string \<times> json) list \<Rightarrow> PmNode list \<Rightarrow> PmNode" where
  "item_of sg iat content \<equiv> PmNode (item_type (fst sg)) iat content [] []"

type_synonym frame = "signature \<times> attributes"

text \<open>An item that opens with the attributes of its frame and starts with a text block.\<close>

definition opens_as :: "nat \<Rightarrow> frame \<Rightarrow> (string \<times> json) list \<Rightarrow> PmNode \<Rightarrow> bool" where
  "opens_as d f iat tn \<longleftrightarrow>
     list_kind (fst (fst f)) \<noteq> None \<and> list_kind (nd_type tn) = None \<and> d \<le> MAX_LIST_DEPTH
     \<and> (\<forall>st. open_item d (fst (fst f)) (nd_attrs (list_node (fst f))) iat st = (snd f, st))"

lemma item_read:
  assumes "opens_as d (sg, s) iat tn"
  shows "walk_items d (fst sg) (nd_attrs (list_node sg)) [item_of sg iat (tn # rest)] st
    = level_reads (Suc d) s rest (addTextBlock tn s False st)"
  using assms by (cases st) (simp add: opens_as_def children_read reject_if_def)

lemma list_read:
  assumes "opens_as d (sg, s) iat tn"
  shows "level_read d a st (list_of sg (its @ [item_of sg iat (tn # rest)]))
    = level_reads (Suc d) s rest (addTextBlock tn s False (walk_items d (fst sg) (nd_attrs (list_node sg)) its st))"
  using assms item_read[OF assms]
  by (simp add: level_read_def opens_as_def walk_items_append open_list_clean)

section \<open>The spine\<close>

fun spine :: "nat \<Rightarrow> frame list \<Rightarrow> PmNode list \<Rightarrow> bool" where
  "spine d [] content \<longleftrightarrow> True"
| "spine d (f # stk) content \<longleftrightarrow>
     (\<exists>pre its iat tn rest. content = pre @ [list_of (fst f) (its @ [item_of (fst f) iat (tn # rest)])]
        \<and> opens_as d f iat tn \<and> spine (Suc d) stk rest)"

lemma push_path_item:
  "spine (Suc d) stk rest \<Longrightarrow> k \<le> length stk \<Longrightarrow> push_path k n (tn # rest) = tn # push_path k n rest"
  by (cases k; cases stk) auto

lemma push_item_item:
  "spine (Suc d) stk rest \<Longrightarrow> k < length stk \<Longrightarrow> push_item k n (tn # rest) = tn # push_item k n rest"
  by (cases k; cases stk) auto

lemma push_path_read:
  "spine d stk content \<Longrightarrow> k \<le> length stk \<Longrightarrow>
    level_reads d a (push_path k n content) st = level_read (d + k) ((a # map snd stk) ! k) (level_reads d a content st) n
    \<and> spine d (take k stk) (push_path k n content)"
proof (induction k arbitrary: d stk content a st)
  case (Suc k)
  obtain sg s stk' where stk: "stk = (sg, s) # stk'" using Suc.prems by (cases stk) auto
  obtain pre its iat tn rest where c: "content = pre @ [list_of sg (its @ [item_of sg iat (tn # rest)])]"
    and o: "opens_as d (sg, s) iat tn" and sp: "spine (Suc d) stk' rest"
    using Suc.prems stk by auto
  have k: "k \<le> length stk'" using Suc.prems stk by simp
  have push: "push_path (Suc k) n content = pre @ [list_of sg (its @ [item_of sg iat (tn # push_path k n rest)])]"
    using c push_path_item[OF sp k] by simp
  have "level_reads d a (push_path (Suc k) n content) st
      = level_read (Suc d + k) ((s # map snd stk') ! k) (level_reads d a content st) n"
    unfolding push unfolding c using Suc.IH[OF sp k, of s] by (simp add: list_read[OF o])
  moreover have "spine d (take (Suc k) stk) (push_path (Suc k) n content)"
    unfolding push using stk o Suc.IH[OF sp k] by auto
  ultimately show ?case by (simp add: stk)
qed simp

lemma push_path_spine:
  "spine d stk content \<Longrightarrow> k \<le> length stk \<Longrightarrow> opens_as (d + k) (sg, s) iat tn \<Longrightarrow>
    spine d (take k stk @ [(sg, s)]) (push_path k (list_of sg [item_of sg iat [tn]]) content)"
proof (induction k arbitrary: d stk content)
  case 0
  have "list_of sg [item_of sg iat [tn]] = list_of sg ([] @ [item_of sg iat (tn # [])])" by simp
  then show ?case using 0 by fastforce
next
  case (Suc k)
  obtain sg' s' stk' where stk: "stk = (sg', s') # stk'" using Suc.prems by (cases stk) auto
  obtain pre its iat' tn' rest where c: "content = pre @ [list_of sg' (its @ [item_of sg' iat' (tn' # rest)])]"
    and o: "opens_as d (sg', s') iat' tn'" and sp: "spine (Suc d) stk' rest"
    using Suc.prems stk by auto
  have k: "k \<le> length stk'" using Suc.prems stk by simp
  have "spine (Suc d) (take k stk' @ [(sg, s)]) (push_path k (list_of sg [item_of sg iat [tn]]) rest)"
    using Suc.IH[OF sp k] Suc.prems(3) by simp
  then show ?case using c o push_path_item[OF sp k] by (auto simp: stk)
qed

lemma push_item_new:
  "spine d stk content \<Longrightarrow> k \<le> length stk \<Longrightarrow>
    push_item k it (push_path k (list_of sg []) content) = push_path k (list_of sg [it]) content"
proof (induction k arbitrary: d stk content)
  case (Suc k)
  obtain sg' s' stk' where stk: "stk = (sg', s') # stk'" using Suc.prems by (cases stk) auto
  obtain pre its iat' tn' rest where c: "content = pre @ [list_of sg' (its @ [item_of sg' iat' (tn' # rest)])]"
    and sp: "spine (Suc d) stk' rest"
    using Suc.prems stk by auto
  have k: "k \<le> length stk'" using Suc.prems stk by simp
  have "push_item k it (tn' # push_path k (list_of sg []) rest) = tn' # push_item k it (push_path k (list_of sg []) rest)"
    using k sp by (cases k; cases stk') (auto simp: Let_def split: PmNode.splits)
  then show ?case using c push_path_item[OF sp k] Suc.IH[OF sp k] by simp
qed simp

lemma push_item_read:
  "spine d stk content \<Longrightarrow> k < length stk \<Longrightarrow> stk ! k = (sg, s) \<Longrightarrow> opens_as (d + k) (sg, s') iat tn \<Longrightarrow>
    level_reads d a (push_item k (item_of sg iat [tn]) content) st = addTextBlock tn s' False (level_reads d a content st)
    \<and> spine d (take k stk @ [(sg, s')]) (push_item k (item_of sg iat [tn]) content)"
proof (induction k arbitrary: d stk content a st)
  case 0
  obtain stk' where stk: "stk = (sg, s) # stk'" using 0 by (cases stk) auto
  obtain pre its iat' tn' rest where c: "content = pre @ [list_of sg (its @ [item_of sg iat' (tn' # rest)])]"
    and o: "opens_as d (sg, s) iat' tn'"
    using 0 stk by auto
  have push: "push_item 0 (item_of sg iat [tn]) content
      = pre @ [list_of sg ((its @ [item_of sg iat' (tn' # rest)]) @ [item_of sg iat (tn # [])])]"
    using c by simp
  have o': "opens_as d (sg, s') iat tn" using 0 by simp
  have "spine d [(sg, s')] (push_item 0 (item_of sg iat [tn]) content)"
    unfolding push using o' by (auto intro!: exI[of _ pre] exI[of _ "its @ [item_of sg iat' (tn' # rest)]"])
  moreover have "level_reads d a (push_item 0 (item_of sg iat [tn]) content) st = addTextBlock tn s' False (level_reads d a content st)"
    unfolding push unfolding c by (simp add: list_read[OF o'] list_read[OF o] walk_items_append item_read[OF o] del: append_assoc walk_list.simps walk_items.simps walk_children.simps)
  ultimately show ?case by simp
next
  case (Suc k)
  obtain sg' s0 stk' where stk: "stk = (sg', s0) # stk'" using Suc.prems by (cases stk) auto
  obtain pre its iat' tn' rest where c: "content = pre @ [list_of sg' (its @ [item_of sg' iat' (tn' # rest)])]"
    and o: "opens_as d (sg', s0) iat' tn'" and sp: "spine (Suc d) stk' rest"
    using Suc.prems stk by auto
  have k: "k < length stk'" "stk' ! k = (sg, s)" using Suc.prems stk by simp_all
  have o': "opens_as (Suc d + k) (sg, s') iat tn" using Suc.prems by simp
  note ih = Suc.IH[OF sp k o']
  have push: "push_item (Suc k) (item_of sg iat [tn]) content
      = pre @ [list_of sg' (its @ [item_of sg' iat' (tn' # push_item k (item_of sg iat [tn]) rest)])]"
    using c push_item_item[OF sp k(1)] by simp
  have "level_reads d a (push_item (Suc k) (item_of sg iat [tn]) content) st = addTextBlock tn s' False (level_reads d a content st)"
    unfolding push unfolding c using ih by (simp add: list_read[OF o])
  moreover have "spine d (take (Suc k) stk @ [(sg, s')]) (push_item (Suc k) (item_of sg iat [tn]) content)"
    unfolding push using stk o ih by auto
  ultimately show ?case by simp
qed

section \<open>Documents\<close>

text \<open>
  Documents as the editor makes them: paragraphs and headings, and list items whose depth grows by at
  most one; a continuation follows an item of the same list. \<open>stk\<close> has the open items, outermost first.
\<close>

fun outline :: "frame list \<Rightarrow> CanonicalBlock list \<Rightarrow> bool" where
  "outline stk [] \<longleftrightarrow> True"
| "outline stk (b # bs) \<longleftrightarrow>
     plain_ok b \<and> outline [] bs
     \<or> listed b \<and> requested_depth b \<le> length stk
       \<and> (bl_type b = ''list-item''
          \<or> requested_depth b < length stk \<and> stk ! requested_depth b = (signature_of b, item_attrs b))
       \<and> outline (take (requested_depth b) stk @ [(signature_of b, item_attrs b)]) bs"

lemma plain_block: "plain_ok b \<Longrightarrow> bl_type b \<noteq> ''list-item'' \<and> bl_type b \<noteq> ''list-continuation''"
  using other_types[of "bl_type b"] by (auto dest: plain_type(2))

lemma listed_block: "listed b \<Longrightarrow> bl_type b = ''list-item'' \<or> bl_type b = ''list-continuation''"
  by (simp add: listed_def item_ok_def)

lemma textNode_text [simp]: "list_kind (nd_type (textNode b)) = None"
  by (simp add: textNode_def Let_def list_kind_def)

lemma opens_listed:
  "listed b \<Longrightarrow> opens_as (requested_depth b) (signature_of b, item_attrs b) (nd_attrs (item_node b)) (textNode b)"
  using open_item_clean[of b] by (simp add: opens_as_def requested_depth_def signature_of_def split: json.split)

lemma item_node_eq: "item_node b = item_of (signature_of b) (nd_attrs (item_node b)) [textNode b]"
  by (simp add: item_node_def signature_of_def)

lemma plain_read:
  assumes "plain_ok b"
  shows "\<exists>b'. addTextBlock (textNode b) [] c (u, bs) = (u, bs @ [b']) \<and> same_block b' b"
  using textNode_read_back[of "[]" b c u bs] assms by blast

lemma listed_read:
  assumes "listed b" and "c \<longleftrightarrow> bl_type b = ''list-continuation''"
  shows "\<exists>b'. addTextBlock (textNode b) (item_attrs b) c (u, bs) = (u, bs @ [b']) \<and> same_block b' b"
  using textNode_read_back[of "item_attrs b" b c u bs] assms item_attrs_shape[of b] unfolding listed_def by blast

text \<open>What the loop of \<open>blocksToPmDoc\<close> keeps: the content reads as the blocks so far.\<close>

definition reads_as :: "PmNode list \<times> signature list \<Rightarrow> frame list \<Rightarrow> CanonicalBlock list \<Rightarrow> bool" where
  "reads_as cs stk out \<longleftrightarrow>
     snd cs = map fst stk \<and> spine 0 stk (fst cs) \<and> level_reads 0 [] (fst cs) ([], []) = ([], out)"

lemma list_step:
  assumes r: "reads_as cs stk out" and l: "listed b" and d: "requested_depth b \<le> length stk"
    and t: "bl_type b = ''list-item'' \<or> requested_depth b < length stk \<and> stk ! requested_depth b = (signature_of b, item_attrs b)"
  shows "\<exists>b'. reads_as (block_step cs b) (take (requested_depth b) stk @ [(signature_of b, item_attrs b)]) (out @ [b'])
    \<and> same_block b' b"
proof -
  let ?d = "requested_depth b" and ?f = "(signature_of b, item_attrs b)"
  obtain content where cs: "cs = (content, map fst stk)" and sp: "spine 0 stk content"
    and rd: "level_reads 0 [] content ([], []) = ([], out)"
    using r by (cases cs) (auto simp: reads_as_def)
  have lt: "bl_type b = ''list-item'' \<or> bl_type b = ''list-continuation''" by (rule listed_block[OF l])
  have o: "opens_as (0 + ?d) (signature_of b, item_attrs b) (nd_attrs (item_node b)) (textNode b)"
    using opens_listed[OF l] by simp
  define known where "known \<longleftrightarrow> ?d < length stk \<and> fst (stk ! ?d) = signature_of b"
  have step: "block_step cs b = (let content' = (if known then content else push_path ?d (list_node (signature_of b)) content)
      in (if bl_type b = ''list-continuation'' \<and> known then push_path (?d + 1) (textNode b) content'
          else push_item ?d (item_node b) content', map fst (take ?d stk @ [?f])))"
    using lt d by (auto simp: block_step_def cs known_def Let_def take_map min_def)
  show ?thesis
  proof (cases "bl_type b = ''list-continuation'' \<and> known")
    case True
    then have c: "?d < length stk" "stk ! ?d = ?f" using t by auto
    have tk: "take (Suc ?d) stk = take ?d stk @ [?f]" using c by (simp add: take_Suc_conv_app_nth)
    have "Suc ?d \<le> length stk" using c by simp
    from push_path_read[OF sp this, where a = "[]" and n = "textNode b" and st = "([], [])"]
    have p: "level_reads 0 [] (push_path (Suc ?d) (textNode b) content) ([], []) = addTextBlock (textNode b) (item_attrs b) True ([], out)"
      "spine 0 (take ?d stk @ [?f]) (push_path (Suc ?d) (textNode b) content)"
      using rd c tk by (simp_all add: level_read_def)
    obtain b' where "addTextBlock (textNode b) (item_attrs b) True ([], out) = ([], out @ [b'])" "same_block b' b"
      using listed_read[OF l, of True "[]" out] True by auto
    then show ?thesis using p True by (auto simp: reads_as_def step)
  next
    case False
    then have item: "bl_type b = ''list-item''" using lt t by (auto simp: known_def)
    then obtain b' where b': "addTextBlock (textNode b) (item_attrs b) False ([], out) = ([], out @ [b'])" "same_block b' b"
      using listed_read[OF l, of False "[]" out] by auto
    have "level_reads 0 [] (fst (block_step cs b)) ([], []) = ([], out @ [b']) \<and> spine 0 (take ?d stk @ [?f]) (fst (block_step cs b))"
    proof (cases known)
      case True
      then obtain s where s: "?d < length stk" "stk ! ?d = (signature_of b, s)"
        by (cases "stk ! ?d") (auto simp: known_def)
      have "fst (block_step cs b) = push_item ?d (item_of (signature_of b) (nd_attrs (item_node b)) [textNode b]) content"
        using True item item_node_eq[of b] by (simp add: step)
      then show ?thesis using push_item_read[OF sp s o, where a = "[]" and st = "([], [])"] rd b' by simp
    next
      case False
      have "fst (block_step cs b) = push_path ?d (list_of (signature_of b) [item_of (signature_of b) (nd_attrs (item_node b)) [textNode b]]) content"
        using False item item_node_eq[of b] push_item_new[OF sp d, of "item_node b" "signature_of b"]
        by (simp add: step list_node_def)
      moreover have "level_read ?d a st (list_of (signature_of b) ([] @ [item_of (signature_of b) (nd_attrs (item_node b)) [textNode b]]))
          = addTextBlock (textNode b) (item_attrs b) False st" for a st
        using list_read[of ?d "signature_of b" "item_attrs b" _ _ a st "[]" "[]"] o by simp
      ultimately show ?thesis
        using push_path_read[OF sp d, where a = "[]" and st = "([], [])"] push_path_spine[OF sp d o] rd b' by simp
    qed
    then show ?thesis using b' by (auto simp: reads_as_def step Let_def)
  qed
qed

lemma outline_reads:
  "outline stk bs \<Longrightarrow> reads_as cs stk out \<Longrightarrow>
    \<exists>stk' bs'. reads_as (foldl block_step cs bs) stk' (out @ bs') \<and> list_all2 same_block bs' bs"
proof (induction bs arbitrary: stk cs out)
  case (Cons b bs)
  have "\<exists>stk' b'. outline stk' bs \<and> reads_as (block_step cs b) stk' (out @ [b']) \<and> same_block b' b"
    using Cons.prems(1) unfolding outline.simps
  proof (elim disjE conjE, goal_cases)
    case 1
    obtain b' where b': "addTextBlock (textNode b) [] False ([], out) = ([], out @ [b'])" "same_block b' b"
      using plain_read[OF 1(1)] by blast
    have "block_step cs b = (fst cs @ [textNode b], [])"
      using plain_block[OF 1(1)] by (simp add: block_step_def case_prod_beta)
    then have "reads_as (block_step cs b) [] (out @ [b'])"
      using Cons.prems(2) b' by (simp add: reads_as_def level_read_def)
    then show ?case using 1(2) b' by blast
  qed (use list_step[OF Cons.prems(2)] in blast)+
  then obtain stk' b' where s: "outline stk' bs" "reads_as (block_step cs b) stk' (out @ [b'])" "same_block b' b" by blast
  from Cons.IH[OF s(1,2)] obtain stk'' bs'
    where "reads_as (foldl block_step (block_step cs b) bs) stk'' ((out @ [b']) @ bs')" "list_all2 same_block bs' bs" by blast
  then show ?case using s(3) by (intro exI[of _ stk''] exI[of _ "b' # bs'"]) simp
qed (intro exI, auto)

lemma rendered_reads:
  assumes "outline [] bs" and "bs \<noteq> []"
  shows "snd (pmDocToBlocks (blocksToPmDoc bs)) = [] \<and> same_document (fst (pmDocToBlocks (blocksToPmDoc bs))) bs"
proof -
  have "reads_as ([], []) [] []" by (simp add: reads_as_def)
  from outline_reads[OF assms(1) this] obtain stk bs'
    where r: "reads_as (foldl block_step ([], []) bs) stk bs'" "list_all2 same_block bs' bs" by auto
  then have "bs' \<noteq> []" using assms(2) by auto
  then have "fst (foldl block_step ([], []) bs) \<noteq> []" using r(1) by (auto simp: reads_as_def)
  then show ?thesis
    using r by (simp add: pmDocToBlocks_def blocksToPmDoc_def Let_def checkAttrs_def top_reads reads_as_def same_document_def)
qed

section \<open>Properties\<close>

text \<open>
  C8: the editor's document loses nothing. Rendering the blocks of a document of paragraphs, headings
  and properly nested lists as a TipTap tree, and reading that tree, gives the same blocks again - types,
  attributes, every character with its marks - with nothing reported as unsupported.
\<close>

theorem document_roundtrip:
  assumes "outline [] bs" and "bs \<noteq> []"
  shows "\<exists>bs'. pmDocToBlocks (blocksToPmDoc bs) = (bs', []) \<and> same_document bs' bs"
  using rendered_reads[OF assms] by (metis prod.collapse)

text \<open>A heading, a task with a bold letter, a nested ordered list that starts at 3, and its continuation.\<close>

definition sample_document :: "CanonicalBlock list" where
  "sample_document =
     [\<lparr>bl_type = ''heading-2'', bl_attrs = [(''type'', ''heading-2''), (''align'', ''center'')],
        bl_chars = [\<lparr>ch_scalar = 65, ch_marks = []\<rparr>, \<lparr>ch_scalar = 10, ch_marks = []\<rparr>]\<rparr>,
      \<lparr>bl_type = ''list-item'', bl_attrs = [(''type'', ''list-item''), (''list'', ''task''), (''depth'', ''0''), (''checked'', ''yes'')],
        bl_chars = [\<lparr>ch_scalar = 66, ch_marks = [(''bold'', ''1'')]\<rparr>]\<rparr>,
      \<lparr>bl_type = ''list-item'', bl_attrs = [(''type'', ''list-item''), (''list'', ''ordered''), (''depth'', ''1''), (''listStart'', ''3'')],
        bl_chars = [\<lparr>ch_scalar = 67, ch_marks = []\<rparr>]\<rparr>,
      \<lparr>bl_type = ''list-continuation'',
        bl_attrs = [(''type'', ''list-continuation''), (''list'', ''ordered''), (''depth'', ''1''), (''listStart'', ''3'')],
        bl_chars = []\<rparr>]"

lemma sample_values:
  "validRichTextValue ''type'' ''heading-2''" "validRichTextValue ''align'' ''center''" "validRichTextValue ''type'' ''list-item''"
  "validRichTextValue ''list'' ''task''" "validRichTextValue ''list'' ''ordered''" "validRichTextValue ''depth'' ''0''"
  "validRichTextValue ''depth'' ''1''" "validRichTextValue ''checked'' ''yes''" "validRichTextValue ''listStart'' ''3''"
  "validRichTextValue ''type'' ''list-continuation''" "validRichTextValue ''bold'' ''1''"
  by (simp_all add: validRichTextValue_def utf8_char_def is_control_def heading_type_def is_digit_def)

lemma sample_heading: "plain_ok (sample_document ! 0)"
  by (simp add: sample_document_def plain_ok_def content_ok_def values_ok_def sample_values canonical_marks_def heading_type_def)

lemma show_sample: "show_nat 0 = ''0''" "show_nat (Suc 0) = ''1''" "show_nat 3 = ''3''"
  by code_simp+

lemmas sample_item_defs = sample_document_def listed_def item_ok_def content_ok_def values_ok_def sample_values canonical_marks_def
  item_attrs_def list_attrs_def list_node_def signature_of_def list_type_def item_node_def requested_depth_def get_or_def
  number_of_def is_digit_def dec_val_def list_kind_def put_attr_def nullish_def show_int_def show_sample Let_def
  MAX_LIST_DEPTH_def mark_names_def digit_val_def

lemma sample_items: "listed (sample_document ! 1)" "listed (sample_document ! 2)" "listed (sample_document ! 3)"
  by (simp_all add: sample_item_defs)

lemma nested_outline:
  "plain_ok a \<Longrightarrow> listed b \<Longrightarrow> listed c \<Longrightarrow> listed d \<Longrightarrow> requested_depth b = 0 \<Longrightarrow> requested_depth c = 1 \<Longrightarrow>
    requested_depth d = 1 \<Longrightarrow> bl_type b = ''list-item'' \<Longrightarrow> bl_type c = ''list-item'' \<Longrightarrow>
    (signature_of c, item_attrs c) = (signature_of d, item_attrs d) \<Longrightarrow> outline [] [a, b, c, d]"
  by simp

lemma sample_outline: "outline [] sample_document"
proof -
  have "requested_depth (sample_document ! 1) = 0" "requested_depth (sample_document ! 2) = 1" "requested_depth (sample_document ! 3) = 1"
    by (simp_all add: sample_document_def requested_depth_def get_or_def number_of_def is_digit_def dec_val_def digit_val_def MAX_LIST_DEPTH_def)
  moreover have "bl_type (sample_document ! 1) = ''list-item''" "bl_type (sample_document ! 2) = ''list-item''"
    by (simp_all add: sample_document_def)
  moreover have "(signature_of (sample_document ! 2), item_attrs (sample_document ! 2))
      = (signature_of (sample_document ! 3), item_attrs (sample_document ! 3))"
    by (simp add: sample_document_def signature_of_def item_attrs_def list_type_def requested_depth_def item_node_def list_node_def)
  moreover have "sample_document = [sample_document ! 0, sample_document ! 1, sample_document ! 2, sample_document ! 3]"
    by (simp add: sample_document_def)
  ultimately show ?thesis
    using nested_outline[OF sample_heading sample_items] by metis
qed

theorem document_roundtrip_witness:
  "\<exists>bs'. pmDocToBlocks (blocksToPmDoc sample_document) = (bs', []) \<and> same_document bs' sample_document"
  by (rule document_roundtrip[OF sample_outline]) (simp add: sample_document_def)



end
