(* ===== verification/Anchors.thy ===== *)
theory Anchors
  imports Pm_Lists "HOL-Library.Sublist"
begin

text \<open>
  \<^verbatim>\<open>lib/comments/anchors.ts\<close>: a selection of the editor is stored as the identities of its first and last
  character in the replica, and found again in any later document that shows them. Positions are TipTap's: a text
  node counts its UTF-16 code units, a node its tokens.
\<close>

section \<open>Positions\<close>

definition utf16_length :: "nat \<Rightarrow> nat" where
  "utf16_length c = (if c < 0x10000 then 1 else 2)"

fun node_size :: "PmNode \<Rightarrow> nat" where
  "node_size (PmNode t a content chars m) =
     (if t = ''text'' then sum_list (map utf16_length chars)
      else if t = ''hardBreak'' then 1
      else 2 + sum_list (map node_size content))"

text \<open>The text blocks of the tree with the position before each.\<close>

function visit :: "PmNode \<Rightarrow> nat \<Rightarrow> (PmNode \<times> nat) list"
  and visit_all :: "PmNode list \<Rightarrow> nat \<Rightarrow> (PmNode \<times> nat) list" where
  "visit (PmNode t a content chars m) start =
     (if t = ''paragraph'' \<or> t = ''heading'' then [(PmNode t a content chars m, start)]
      else visit_all content (if t = ''doc'' then 0 else start + 1))"
| "visit_all [] cursor = []"
| "visit_all (child # rest) cursor = visit child cursor @ visit_all rest (cursor + node_size child)"
  by pat_completeness auto
termination
  by (relation "measure (case_sum (\<lambda>(n, _). 2 * size n) (\<lambda>(ns, _). 2 * size_list size ns + 1))") auto

section \<open>The live text of the stream\<close>

definition itemId :: "StreamEntry \<Rightarrow> string option" where
  "itemId e = (if positive_dec (se_r e) \<and> positive_dec (se_c e) then Some (se_r e @ '':'' @ se_c e) else None)"

record live_blocks =
  lb_blocks :: "StreamEntry list list"
  lb_current :: int
  lb_rootOpen :: bool

text \<open>\<open>blocks[i] ??= []\<close>; the index is never more than one past the end.\<close>

definition ensure_block :: "int \<Rightarrow> StreamEntry list list \<Rightarrow> StreamEntry list list" where
  "ensure_block i bs = (if nat i < length bs then bs else bs @ [[]])"

definition live_block_step :: "live_blocks \<Rightarrow> StreamEntry \<Rightarrow> live_blocks" where
  "live_block_step l e =
     (if se_t e then l
      else if se_k e = ''delim'' then
        let c = (if lb_rootOpen l then 0 else lb_current l + 1)
        in \<lparr>lb_blocks = ensure_block c (lb_blocks l), lb_current = c, lb_rootOpen = False\<rparr>
      else
        let c0 = (if lb_rootOpen l then 0 else lb_current l);
            bs0 = (if lb_rootOpen l then [[]] else lb_blocks l);
            c = (if c0 < 0 then 0 else c0);
            bs = ensure_block c bs0
        in \<lparr>lb_blocks = bs[nat c := bs ! nat c @ [e]], lb_current = c, lb_rootOpen = False\<rparr>)"

definition liveTextByBlock :: "StreamEntry list \<Rightarrow> StreamEntry list list" where
  "liveTextByBlock stream =
     lb_blocks (foldl live_block_step \<lparr>lb_blocks = [], lb_current = - 1, lb_rootOpen = True\<rparr> stream)"

section \<open>Items\<close>

record TextItemPosition =
  ti_id :: string
  ti_scalar :: nat
  ti_from :: nat
  ti_to :: nat

text \<open>The ss of a text block, or none when it holds anything but text and breaks.\<close>

fun inline_scalars :: "PmNode list \<Rightarrow> nat list option" where
  "inline_scalars [] = Some []"
| "inline_scalars (child # rest) =
     (if nd_type child = ''hardBreak'' then map_option ((#) 10) (inline_scalars rest)
      else if nd_type child = ''text'' then map_option ((@) (nd_text child)) (inline_scalars rest)
      else None)"

fun match_items :: "nat \<Rightarrow> nat list \<Rightarrow> StreamEntry list \<Rightarrow> TextItemPosition list option" where
  "match_items position [] [] = Some []"
| "match_items position (scalar # ss) (entry # entries) =
     (case itemId entry of
        None \<Rightarrow> None
      | Some i \<Rightarrow>
          if se_s entry \<noteq> [scalar] then None
          else map_option
            ((#) \<lparr>ti_id = i, ti_scalar = scalar, ti_from = position, ti_to = position + utf16_length scalar\<rparr>)
            (match_items (position + utf16_length scalar) ss entries))"
| "match_items position _ _ = None"

definition block_items :: "PmNode \<times> nat \<Rightarrow> StreamEntry list \<Rightarrow> TextItemPosition list option" where
  "block_items b entries =
     (case inline_scalars (nd_content (fst b)) of
        None \<Rightarrow> None
      | Some ss \<Rightarrow> match_items (snd b + 1) ss entries)"

fun all_items :: "(PmNode \<times> nat) list \<Rightarrow> StreamEntry list list \<Rightarrow> TextItemPosition list option" where
  "all_items [] entries = Some []"
| "all_items (b # bs) entries =
     (case block_items b (case entries of [] \<Rightarrow> [] | e # _ \<Rightarrow> e) of
        None \<Rightarrow> None
      | Some items \<Rightarrow> map_option ((@) items) (all_items bs (tl entries)))"

definition textItemPositions :: "PmNode \<Rightarrow> StreamEntry list \<Rightarrow> TextItemPosition list option" where
  "textItemPositions doc stream =
     (if snd (pmDocToBlocks doc) \<noteq> [] then None
      else
        let blocks = visit doc 0;
            streamBlocks = liveTextByBlock stream
        in if length blocks = length streamBlocks then all_items blocks streamBlocks
           else if length blocks = length streamBlocks + 1 then
             (if nd_content (fst (last blocks)) = [] then all_items (butlast blocks) streamBlocks
              else if nd_content (fst (hd blocks)) = [] then all_items blocks ([] # streamBlocks)
              else None)
           else None)"

section \<open>Ranges\<close>

datatype side = Before | After

record CrdtAnchorPoint =
  ap_itemId :: string
  ap_side :: side

record CrdtRangeAnchor =
  ra_start :: CrdtAnchorPoint
  ra_end :: CrdtAnchorPoint

datatype AnchorResolution = Attached nat nat | Orphaned | Unavailable

definition anchorSelection :: "PmNode \<Rightarrow> StreamEntry list \<Rightarrow> int \<Rightarrow> int \<Rightarrow> CrdtRangeAnchor option" where
  "anchorSelection doc stream from to' =
     (if from < 0 \<or> to' \<le> from then None
      else case textItemPositions doc stream of
        None \<Rightarrow> None
      | Some items \<Rightarrow>
          (let selected = filter (\<lambda>i. int (ti_from i) < to' \<and> int (ti_to i) > from) items
           in if selected = [] then None
              else Some \<lparr>ra_start = \<lparr>ap_itemId = ti_id (hd selected), ap_side = Before\<rparr>,
                         ra_end = \<lparr>ap_itemId = ti_id (last selected), ap_side = After\<rparr>\<rparr>))"

text \<open>\<open>items.find\<close> gives the first item of an id, \<open>new Map(...)\<close> the last.\<close>

definition first_item :: "TextItemPosition list \<Rightarrow> string \<Rightarrow> TextItemPosition option" where
  "first_item items i = find (\<lambda>x. ti_id x = i) items"

definition index_item :: "TextItemPosition list \<Rightarrow> string \<Rightarrow> TextItemPosition option" where
  "index_item items i = find (\<lambda>x. ti_id x = i) (rev items)"

definition resolveFromItems :: "(string \<Rightarrow> TextItemPosition option) \<Rightarrow> CrdtRangeAnchor \<Rightarrow> AnchorResolution" where
  "resolveFromItems look anchor =
     (case (look (ap_itemId (ra_start anchor)), look (ap_itemId (ra_end anchor))) of
        (Some s, Some e) \<Rightarrow>
          (let from = (if ap_side (ra_start anchor) = Before then ti_from s else ti_to s);
               to' = (if ap_side (ra_end anchor) = After then ti_to e else ti_from e)
           in if from \<ge> to' then Orphaned else Attached from to')
      | _ \<Rightarrow> Orphaned)"

definition resolveAnchor :: "PmNode \<Rightarrow> StreamEntry list \<Rightarrow> CrdtRangeAnchor \<Rightarrow> AnchorResolution" where
  "resolveAnchor doc stream anchor =
     (case textItemPositions doc stream of
        None \<Rightarrow> Unavailable
      | Some items \<Rightarrow> resolveFromItems (first_item items) anchor)"

text \<open>\<open>Object.fromEntries\<close>: an equal thread id takes the last value.\<close>

definition resolveAnchors ::
  "PmNode \<Rightarrow> StreamEntry list \<Rightarrow> (string \<times> CrdtRangeAnchor) list \<Rightarrow> (string \<times> AnchorResolution) list" where
  "resolveAnchors doc stream anchors =
     obj_of_list
       (case textItemPositions doc stream of
          None \<Rightarrow> map (\<lambda>(t, a). (t, Unavailable)) anchors
        | Some items \<Rightarrow> map (\<lambda>(t, a). (t, resolveFromItems (index_item items) a)) anchors)"

section \<open>Points\<close>

datatype PointResolution = PointAttached nat | PointOrphaned | PointUnavailable

definition anchorPoint :: "PmNode \<Rightarrow> StreamEntry list \<Rightarrow> int \<Rightarrow> CrdtAnchorPoint option" where
  "anchorPoint doc stream pos =
     (if pos < 0 then None
      else case textItemPositions doc stream of
        None \<Rightarrow> None
      | Some items \<Rightarrow>
          (case find (\<lambda>i. int (ti_to i) = pos) items of
             Some i \<Rightarrow> Some \<lparr>ap_itemId = ti_id i, ap_side = After\<rparr>
           | None \<Rightarrow>
               (case find (\<lambda>i. int (ti_from i) = pos) items of
                  Some i \<Rightarrow> Some \<lparr>ap_itemId = ti_id i, ap_side = Before\<rparr>
                | None \<Rightarrow> None)))"

definition resolvePointFromItems :: "(string \<Rightarrow> TextItemPosition option) \<Rightarrow> CrdtAnchorPoint \<Rightarrow> PointResolution" where
  "resolvePointFromItems look point =
     (case look (ap_itemId point) of
        None \<Rightarrow> PointOrphaned
      | Some i \<Rightarrow> PointAttached (if ap_side point = Before then ti_from i else ti_to i))"

definition resolvePointAnchors ::
  "PmNode \<Rightarrow> StreamEntry list \<Rightarrow> (string \<times> CrdtAnchorPoint) list \<Rightarrow> (string \<times> PointResolution) list" where
  "resolvePointAnchors doc stream points =
     obj_of_list
       (case textItemPositions doc stream of
          None \<Rightarrow> map (\<lambda>(k, p). (k, PointUnavailable)) points
        | Some items \<Rightarrow> map (\<lambda>(k, p). (k, resolvePointFromItems (index_item items) p)) points)"


section \<open>Positions are in order\<close>

text \<open>TipTap's schema: the document node is at the top only, text and breaks have no content.\<close>

fun inner_ok :: "PmNode \<Rightarrow> bool" where
  "inner_ok (PmNode t a content chars m) \<longleftrightarrow>
     t \<noteq> ''doc'' \<and> (t = ''text'' \<or> t = ''hardBreak'' \<longrightarrow> content = []) \<and> list_all inner_ok content"

definition doc_ok :: "PmNode \<Rightarrow> bool" where
  "doc_ok doc \<longleftrightarrow> nd_type doc = ''doc'' \<and> list_all inner_ok (nd_content doc)"

fun spaced :: "nat \<Rightarrow> (PmNode \<times> nat) list \<Rightarrow> nat \<Rightarrow> bool" where
  "spaced lo [] hi \<longleftrightarrow> lo \<le> hi"
| "spaced lo ((n, s) # bs) hi \<longleftrightarrow>
     lo \<le> s \<and> (nd_type n = ''paragraph'' \<or> nd_type n = ''heading'') \<and> spaced (s + node_size n) bs hi"

lemma spaced_append: "spaced lo xs mid \<Longrightarrow> spaced mid ys hi \<Longrightarrow> spaced lo (xs @ ys) hi"
proof (induction xs arbitrary: lo)
  case Nil
  then show ?case by (cases ys) auto
qed auto

lemma spaced_mono: "spaced lo xs hi \<Longrightarrow> lo' \<le> lo \<Longrightarrow> hi \<le> hi' \<Longrightarrow> spaced lo' xs hi'"
proof (induction lo xs hi arbitrary: lo' rule: spaced.induct)
  case (2 lo n s bs hi)
  then show ?case using "2.IH" [of "s + node_size n"] by auto
qed simp

lemma spaced_butlast: "spaced lo xs hi \<Longrightarrow> spaced lo (butlast xs) hi"
proof (induction lo xs hi rule: spaced.induct)
  case (2 lo n s bs hi)
  show ?case
  proof (cases "bs = []")
    case True
    then show ?thesis using 2 by auto
  next
    case False
    then show ?thesis using 2 by simp
  qed
qed simp

lemma visit_spaced:
  "inner_ok n \<Longrightarrow> spaced start (visit n start) (start + node_size n)"
  "list_all inner_ok ns \<Longrightarrow> spaced pos0 (visit_all ns pos0) (pos0 + sum_list (map node_size ns))"
proof (induction n start and ns pos0 rule: visit_visit_all.induct)
  case (1 t a content chars m start)
  show ?case
  proof (cases "t = ''paragraph'' \<or> t = ''heading''")
    case True
    then show ?thesis by auto
  next
    case False
    have "t \<noteq> ''doc''" "list_all inner_ok content" using 1(2) by auto
    then have "spaced (start + 1) (visit_all content (start + 1)) (start + 1 + sum_list (map node_size content))"
      using 1(1) False by simp
    moreover have "t = ''text'' \<or> t = ''hardBreak'' \<Longrightarrow> content = []" using 1(2) by auto
    ultimately show ?thesis using False \<open>t \<noteq> ''doc''\<close> by (auto intro: spaced_mono)
  qed
next
  case (3 child rest cursor)
  then show ?case by (auto intro: spaced_append simp: add.assoc)
qed auto

text \<open>Items in order, without overlap, in an interval.\<close>

definition between :: "nat \<Rightarrow> nat \<Rightarrow> TextItemPosition list \<Rightarrow> bool" where
  "between lo hi items \<longleftrightarrow> sorted_wrt (\<lambda>x y. ti_to x \<le> ti_from y) items
     \<and> (\<forall>i \<in> set items. lo \<le> ti_from i \<and> ti_from i < ti_to i \<and> ti_to i \<le> hi)"

lemma between_append:
  assumes "between lo mid xs" and "between mid hi ys" and "lo \<le> mid" and "mid \<le> hi"
  shows "between lo hi (xs @ ys)"
proof -
  have "ti_to x \<le> ti_from y" if "x \<in> set xs" "y \<in> set ys" for x y
    using assms(1,2) that unfolding between_def by (meson le_trans)
  moreover have "mid \<le> ti_from y \<and> ti_from y < ti_to y \<and> ti_to y \<le> hi" if "y \<in> set ys" for y
    using assms(2) that by (simp add: between_def)
  moreover have "lo \<le> ti_from x \<and> ti_from x < ti_to x \<and> ti_to x \<le> hi" if "x \<in> set xs" for x
    using assms(1,4) that unfolding between_def by (meson le_trans)
  ultimately show ?thesis using assms by (auto simp: between_def sorted_wrt_append intro: le_trans)
qed

lemma spaced_le: "spaced lo bs hi \<Longrightarrow> lo \<le> hi"
  by (induction lo bs hi rule: spaced.induct) auto

lemma between_mono: "between lo hi xs \<Longrightarrow> lo' \<le> lo \<Longrightarrow> hi \<le> hi' \<Longrightarrow> between lo' hi' xs"
  unfolding between_def by (meson le_trans)

lemma utf16_positive: "0 < utf16_length c"
  by (simp add: utf16_length_def)

lemma match_between:
  "match_items p ss es = Some items \<Longrightarrow>
   between p (p + sum_list (map utf16_length ss)) items \<and> map Some (map ti_id items) = map itemId es"
proof (induction p ss es arbitrary: items rule: match_items.induct)
  case (2 p scalar ss entry entries)
  then obtain i rest where r: "itemId entry = Some i"
    "match_items (p + utf16_length scalar) ss entries = Some rest"
    "items = \<lparr>ti_id = i, ti_scalar = scalar, ti_from = p, ti_to = p + utf16_length scalar\<rparr> # rest"
    by (auto split: option.splits if_splits)
  then have "between (p + utf16_length scalar) (p + utf16_length scalar + sum_list (map utf16_length ss)) rest"
    "map Some (map ti_id rest) = map itemId entries"
    using 2 by (auto split: if_splits)
  then show ?case using r utf16_positive [of scalar] by (fastforce simp: between_def)
qed (auto simp: between_def)

lemma inline_size: "inline_scalars c = Some ss \<Longrightarrow> sum_list (map utf16_length ss) = sum_list (map node_size c)"
proof (induction c arbitrary: ss rule: inline_scalars.induct)
  case (2 child rest)
  have h: "node_size child = sum_list (map utf16_length (nd_text child))" if "nd_type child = ''text''"
    using that by (cases child) simp
  have "node_size child = 1" if "nd_type child = ''hardBreak''"
    using that by (cases child) simp
  moreover have "utf16_length 10 = 1" by (simp add: utf16_length_def)
  ultimately show ?case using 2 h by (auto split: if_splits)
qed simp

lemma block_between:
  assumes "block_items (n, s) es = Some items" and "nd_type n = ''paragraph'' \<or> nd_type n = ''heading''"
  shows "between s (s + node_size n) items \<and> map Some (map ti_id items) = map itemId es"
proof -
  obtain ss where ss: "inline_scalars (nd_content n) = Some ss" "match_items (s + 1) ss es = Some items"
    using assms(1) by (auto simp: block_items_def split: option.splits)
  have "node_size n = 2 + sum_list (map node_size (nd_content n))" using assms(2) by (cases n) auto
  then show ?thesis using match_between [OF ss(2)] inline_size [OF ss(1)] by (auto intro: between_mono)
qed

lemma all_items_between:
  assumes "all_items bs es = Some items" and "spaced lo bs hi" and "length es = length bs"
  shows "between lo hi items \<and> map Some (map ti_id items) = map itemId (concat es)"
  using assms
proof (induction bs es arbitrary: items lo rule: all_items.induct)
  case (2 b bs es)
  obtain n s where b: "b = (n, s)" by (cases b)
  obtain e es' where es: "es = e # es'" using 2(4) by (cases es) auto
  obtain x y where xy: "block_items (n, s) e = Some x" "all_items bs es' = Some y" "items = x @ y"
    using 2(2) b es by (auto split: option.splits)
  have sp: "lo \<le> s" "nd_type n = ''paragraph'' \<or> nd_type n = ''heading''" "spaced (s + node_size n) bs hi"
    using 2(3) b by auto
  have "between (s + node_size n) hi y" "map Some (map ti_id y) = map itemId (concat es')"
    using 2(1) [of "x" y "s + node_size n"] xy es sp(3) 2(4) b by auto
  moreover have "between s (s + node_size n) x" "map Some (map ti_id x) = map itemId e"
    using block_between [OF xy(1) sp(2)] by auto
  ultimately have "between s hi items" using xy(3) spaced_le [OF sp(3)] by (auto intro: between_append)
  then show ?case using sp(1) xy(3) es \<open>map Some (map ti_id y) = map itemId (concat es')\<close>
      \<open>map Some (map ti_id x) = map itemId e\<close> by (auto intro: between_mono)
qed (auto simp: between_def)

text \<open>The items are those of the live text, in stream order.\<close>

definition live_text :: "StreamEntry \<Rightarrow> bool" where
  "live_text e \<longleftrightarrow> \<not> se_t e \<and> se_k e \<noteq> ''delim''"

lemma live_blocks_flat:
  assumes "lb_current l = int (length (lb_blocks l)) - 1" and "lb_rootOpen l = (lb_blocks l = [])"
  shows "concat (lb_blocks (foldl live_block_step l stream)) = concat (lb_blocks l) @ filter live_text stream"
  using assms
proof (induction stream arbitrary: l)
  case (Cons e stream)
  let ?l = "live_block_step l e"
  have "lb_current ?l = int (length (lb_blocks ?l)) - 1 \<and> lb_rootOpen ?l = (lb_blocks ?l = [])
      \<and> concat (lb_blocks ?l) = concat (lb_blocks l) @ (if live_text e then [e] else [])"
  proof (cases "lb_blocks l = []")
    case True
    then show ?thesis using Cons.prems by (auto simp: live_block_step_def ensure_block_def Let_def live_text_def)
  next
    case False
    then obtain bs b where b: "lb_blocks l = bs @ [b]" using rev_exhaust by blast
    then show ?thesis using Cons.prems
      by (auto simp: live_block_step_def ensure_block_def Let_def live_text_def list_update_append nth_append)
  qed
  then show ?case using Cons.IH [of ?l] by simp
qed simp

lemma live_text_flat: "concat (liveTextByBlock stream) = filter live_text stream"
  unfolding liveTextByBlock_def by (subst live_blocks_flat) simp_all

definition live_ids :: "StreamEntry list \<Rightarrow> string list" where
  "live_ids stream = map (\<lambda>e. the (itemId e)) (filter live_text stream)"

lemma items_ordered:
  assumes "textItemPositions doc stream = Some items" and "doc_ok doc"
  shows "sorted_wrt (\<lambda>x y. ti_to x \<le> ti_from y) items \<and> (\<forall>i \<in> set items. ti_from i < ti_to i)
    \<and> map ti_id items = live_ids stream"
proof -
  let ?bs = "visit doc 0" and ?es = "liveTextByBlock stream"
  obtain t a c x m where d: "doc = PmNode t a c x m" by (cases doc)
  have "spaced 0 ?bs (sum_list (map node_size c))"
    using visit_spaced(2) [of c 0] assms(2) d by (simp add: doc_ok_def)
  then have sp: "spaced 0 ?bs (sum_list (map node_size c))" "spaced 0 (butlast ?bs) (sum_list (map node_size c))"
    by (simp_all add: spaced_butlast)
  have cases: "(length ?es = length ?bs \<and> all_items ?bs ?es = Some items)
      \<or> (length ?es = length (butlast ?bs) \<and> all_items (butlast ?bs) ?es = Some items)
      \<or> (length ([] # ?es) = length ?bs \<and> all_items ?bs ([] # ?es) = Some items)"
    using assms(1) by (auto simp: textItemPositions_def Let_def split: if_splits)
  then obtain hi where "between 0 hi items \<and> map Some (map ti_id items) = map itemId (concat ?es)"
    using all_items_between [OF _ sp(1)] all_items_between [OF _ sp(2)] by fastforce
  then have b: "between 0 hi items" "map Some (map ti_id items) = map itemId (filter live_text stream)"
    by (auto simp: live_text_flat)
  have "map ti_id items = map the (map Some (map ti_id items))" by simp
  also have "\<dots> = live_ids stream" unfolding b(2) live_ids_def by simp
  finally show ?thesis using b(1) by (simp add: between_def)
qed


section \<open>A stored selection\<close>

lemma sorted_compare: "sorted_wrt R xs \<Longrightarrow> x \<in> set xs \<Longrightarrow> y \<in> set xs \<Longrightarrow> x = y \<or> R x y \<or> R y x"
  by (induction xs) auto

lemma sorted_hd_last:
  "sorted_wrt R xs \<Longrightarrow> x \<in> set xs \<Longrightarrow> (x = hd xs \<or> R (hd xs) x) \<and> (x = last xs \<or> R x (last xs))"
  by (induction xs) (auto split: if_splits)

lemma find_unique: "distinct (map key xs) \<Longrightarrow> x \<in> set xs \<Longrightarrow> find (\<lambda>y. key y = key x) xs = Some x"
  by (induction xs) (auto simp: image_iff)

definition selected :: "int \<Rightarrow> int \<Rightarrow> TextItemPosition \<Rightarrow> bool" where
  "selected from to' i \<longleftrightarrow> int (ti_from i) < to' \<and> int (ti_to i) > from"

lemma anchor_ends:
  assumes "anchorSelection doc stream from to' = Some a"
  obtains items where "textItemPositions doc stream = Some items" "filter (selected from to') items \<noteq> []"
    "a = \<lparr>ra_start = \<lparr>ap_itemId = ti_id (hd (filter (selected from to') items)), ap_side = Before\<rparr>,
          ra_end = \<lparr>ap_itemId = ti_id (last (filter (selected from to') items)), ap_side = After\<rparr>\<rparr>"
  using assms unfolding selected_def [abs_def]
  by (auto simp: anchorSelection_def Let_def split: option.splits if_splits)

text \<open>
  C38: A stored selection is found again: in the document it was made in, resolving the anchor gives a range that
  holds exactly the characters that the selection touched.
\<close>

theorem selection_restored:
  assumes "doc_ok doc" and "distinct (live_ids stream)" and "anchorSelection doc stream from to' = Some a"
  shows "\<exists>f t items. textItemPositions doc stream = Some items \<and> resolveAnchor doc stream a = Attached f t \<and> f < t
    \<and> list_all (\<lambda>i. (int (ti_from i) < to' \<and> int (ti_to i) > from) = (f \<le> ti_from i \<and> ti_to i \<le> t)) items"
proof -
  obtain items where it: "textItemPositions doc stream = Some items" "filter (selected from to') items \<noteq> []"
    "a = \<lparr>ra_start = \<lparr>ap_itemId = ti_id (hd (filter (selected from to') items)), ap_side = Before\<rparr>,
          ra_end = \<lparr>ap_itemId = ti_id (last (filter (selected from to') items)), ap_side = After\<rparr>\<rparr>"
    by (rule anchor_ends [OF assms(3)])
  let ?R = "\<lambda>x y. ti_to x \<le> ti_from y" and ?sel = "filter (selected from to') items"
  define h l where "h = hd ?sel" and "l = last ?sel"
  note o' = items_ordered [OF it(1) assms(1)]
  then have srt: "sorted_wrt ?R items" and len: "\<And>i. i \<in> set items \<Longrightarrow> ti_from i < ti_to i"
    and uniq: "distinct (map ti_id items)" using assms(2) by auto
  have hl: "h \<in> set items" "l \<in> set items" "selected from to' h" "selected from to' l"
    using hd_in_set [OF it(2)] last_in_set [OF it(2)] by (auto simp: h_def l_def)
  have ends: "(i = h \<or> ?R h i) \<and> (i = l \<or> ?R i l)" if "i \<in> set items" "selected from to' i" for i
    using sorted_hd_last [of ?R ?sel i] sorted_wrt_filter [OF srt] that by (simp add: h_def l_def)
  have hlt: "ti_from h < ti_to l" using ends [OF hl(1,3)] len [OF hl(1)] len [OF hl(2)] by auto
  have "(int (ti_from i) < to' \<and> int (ti_to i) > from) = (ti_from h \<le> ti_from i \<and> ti_to i \<le> ti_to l)"
    if i: "i \<in> set items" for i
  proof
    assume "int (ti_from i) < to' \<and> int (ti_to i) > from"
    then have "selected from to' i" by (simp add: selected_def)
    then show "ti_from h \<le> ti_from i \<and> ti_to i \<le> ti_to l"
      using ends [OF i] len [OF hl(1)] len [OF hl(2)] by auto
  next
    assume r: "ti_from h \<le> ti_from i \<and> ti_to i \<le> ti_to l"
    have "i = h \<or> ?R h i" using sorted_compare [OF srt i hl(1)] r len [OF i] by auto
    moreover have "i = l \<or> ?R i l" using sorted_compare [OF srt i hl(2)] r len [OF i] by auto
    ultimately show "int (ti_from i) < to' \<and> int (ti_to i) > from"
      using hl(3,4) len [OF i] by (auto simp: selected_def)
  qed
  then have "list_all (\<lambda>i. (int (ti_from i) < to' \<and> int (ti_to i) > from)
      = (ti_from h \<le> ti_from i \<and> ti_to i \<le> ti_to l)) items" by (simp add: list_all_iff)
  moreover have "resolveAnchor doc stream a = Attached (ti_from h) (ti_to l)"
    using it(1,3) hlt find_unique [OF uniq hl(1)] find_unique [OF uniq hl(2)]
    by (simp add: resolveAnchor_def resolveFromItems_def first_item_def h_def l_def)
  ultimately show ?thesis using it(1) hlt by blast
qed

lemma subseq_map_inv: "subseq [a, b] (map f xs) \<Longrightarrow> \<exists>x y. f x = a \<and> f y = b \<and> subseq [x, y] xs"
proof (induction xs)
  case (Cons z zs)
  show ?case
  proof (cases "a = f z \<and> subseq [b] (map f zs)")
    case True
    then obtain y where "y \<in> set zs" "f y = b" by (auto simp: subseq_singleton_left)
    then show ?thesis using True by (metis subseq_Cons2 subseq_singleton_left)
  next
    case False
    then have "subseq [a, b] (map f zs)" using Cons.prems by (auto split: if_splits)
    then show ?thesis using Cons.IH by (meson list_emb_Cons)
  qed
qed simp

lemma subseq_sorted: "sorted_wrt R xs \<Longrightarrow> subseq [x, y] xs \<Longrightarrow> R x y"
proof (induction xs)
  case (Cons z zs)
  then show ?case by (cases "x = z") (auto simp: subseq_singleton_left split: if_splits)
qed simp

lemma hd_before_last: "xs \<noteq> [] \<Longrightarrow> hd xs = last xs \<or> subseq [hd xs, last xs] xs"
  by (cases xs) (auto simp: subseq_singleton_left)

text \<open>Two streams of the same replica show their common characters in the same order.\<close>

definition same_order :: "StreamEntry list \<Rightarrow> StreamEntry list \<Rightarrow> bool" where
  "same_order s1 s2 \<longleftrightarrow> filter (\<lambda>i. i \<in> set (live_ids s2)) (live_ids s1) = filter (\<lambda>i. i \<in> set (live_ids s1)) (live_ids s2)"

lemma order_kept:
  assumes "same_order s1 s2" and "subseq [a, b] (live_ids s1)" and "a \<in> set (live_ids s2)" and "b \<in> set (live_ids s2)"
  shows "subseq [a, b] (live_ids s2)"
proof -
  have "subseq (filter (\<lambda>i. i \<in> set (live_ids s2)) [a, b]) (filter (\<lambda>i. i \<in> set (live_ids s2)) (live_ids s1))"
    using assms(2) by (rule subseq_filter)
  then have "subseq [a, b] (filter (\<lambda>i. i \<in> set (live_ids s1)) (live_ids s2))"
    using assms(1,3,4) by (simp add: same_order_def)
  then show ?thesis using subseq_filter_left subseq_order.order_trans by blast
qed

text \<open>
  C39: An anchor follows its characters through any later edits. In a later document, if the first and the last
  character are still there, the anchor resolves to the range from the start of the one to the end of the other; if
  either was deleted it is orphaned, never moved elsewhere.
\<close>

theorem anchor_follows_characters:
  assumes "doc_ok doc" and "anchorSelection doc stream from to' = Some a"
    and "doc_ok doc2" and "textItemPositions doc2 stream2 = Some items2" and "distinct (live_ids stream2)"
    and "same_order stream stream2"
  shows "if ap_itemId (ra_start a) \<in> set (live_ids stream2) \<and> ap_itemId (ra_end a) \<in> set (live_ids stream2)
    then \<exists>s e. first_item items2 (ap_itemId (ra_start a)) = Some s \<and> first_item items2 (ap_itemId (ra_end a)) = Some e
      \<and> resolveAnchor doc2 stream2 a = Attached (ti_from s) (ti_to e)
    else resolveAnchor doc2 stream2 a = Orphaned"
proof -
  obtain items where it: "textItemPositions doc stream = Some items" "filter (selected from to') items \<noteq> []"
    "a = \<lparr>ra_start = \<lparr>ap_itemId = ti_id (hd (filter (selected from to') items)), ap_side = Before\<rparr>,
          ra_end = \<lparr>ap_itemId = ti_id (last (filter (selected from to') items)), ap_side = After\<rparr>\<rparr>"
    by (rule anchor_ends [OF assms(2)])
  define h l where "h = hd (filter (selected from to') items)" and "l = last (filter (selected from to') items)"
  note o1 = items_ordered [OF it(1) assms(1)] and o2 = items_ordered [OF assms(4,3)]
  have "h = l \<or> subseq [h, l] items"
    using hd_before_last [OF it(2)] subseq_filter_left [of "selected from to'" items] subseq_order.order_trans
    unfolding h_def l_def by blast
  then have order: "ti_id h = ti_id l \<or> subseq [ti_id h, ti_id l] (live_ids stream)"
    using o1 subseq_map [of "[h, l]" items ti_id] by auto
  show ?thesis
  proof (cases "ti_id h \<in> set (live_ids stream2) \<and> ti_id l \<in> set (live_ids stream2)")
    case True
    then have "ti_id h \<in> ti_id ` set items2" "ti_id l \<in> ti_id ` set items2" using o2 by (metis list.set_map)+
    then obtain s e where se: "s \<in> set items2" "e \<in> set items2" "ti_id s = ti_id h" "ti_id e = ti_id l" by auto
    have uniq: "distinct (map ti_id items2)" using o2 assms(5) by simp
    have find: "first_item items2 (ti_id h) = Some s" "first_item items2 (ti_id l) = Some e"
      using find_unique [OF uniq se(1)] find_unique [OF uniq se(2)] se(3,4) by (simp_all add: first_item_def)
    have "ti_from s < ti_to e"
    proof (cases "ti_id h = ti_id l")
      case True
      then have "s = e" using find by simp
      then show ?thesis using o2 se(1) by simp
    next
      case False
      then have "subseq [ti_id h, ti_id l] (map ti_id items2)"
        using order order_kept [OF assms(6)] True o2 by auto
      from subseq_map_inv [OF this] obtain x y
        where xy: "ti_id x = ti_id h" "ti_id y = ti_id l" "subseq [x, y] items2" by blast
      have mem: "x \<in> set items2" "y \<in> set items2"
        using list_emb_set [OF xy(3), of x] list_emb_set [OF xy(3), of y] by auto
      then have "x = s" "y = e"
        using find_unique [OF uniq mem(1)] find_unique [OF uniq mem(2)] find xy(1,2) by (simp_all add: first_item_def)
      then have "ti_to s \<le> ti_from e" using subseq_sorted [OF _ xy(3)] o2 by auto
      moreover have "ti_from s < ti_to s" "ti_from e < ti_to e" using o2 se(1,2) by auto
      ultimately show ?thesis by linarith
    qed
    then have "resolveAnchor doc2 stream2 a = Attached (ti_from s) (ti_to e)"
      using find assms(4) it(3) by (simp add: resolveAnchor_def resolveFromItems_def h_def l_def)
    then show ?thesis using True find it(3) by (simp add: h_def l_def)
  next
    case False
    moreover have "set (live_ids stream2) = ti_id ` set items2" using o2 by (metis list.set_map)
    ultimately have "first_item items2 (ti_id h) = None \<or> first_item items2 (ti_id l) = None"
      by (auto simp: first_item_def find_None_iff image_iff; metis)
    then have "resolveAnchor doc2 stream2 a = Orphaned"
      using assms(4) it(3) by (auto simp: resolveAnchor_def resolveFromItems_def h_def l_def split: option.splits)
    then show ?thesis using False it(3) by (auto simp: h_def l_def)
  qed
qed


definition sample_text :: "nat list \<Rightarrow> PmNode" where
  "sample_text cs = PmNode ''doc'' [] [PmNode ''paragraph'' [] [PmNode ''text'' [] [] cs []] [] []] [] []"

definition sample_entry :: "string \<Rightarrow> bool \<Rightarrow> nat \<Rightarrow> StreamEntry" where
  "sample_entry c t s = \<lparr>se_r = ''5'', se_c = c, se_k = ''text'', se_t = t, se_s = [s], se_a = []\<rparr>"

definition sample_before :: "StreamEntry list" where
  "sample_before = [sample_entry ''1'' False 97, sample_entry ''2'' False 98, sample_entry ''3'' False 99]"

definition sample_after :: "StreamEntry list" where
  "sample_after = [sample_entry ''4'' False 120, sample_entry ''1'' False 97, sample_entry ''2'' False 98, sample_entry ''3'' True 99]"

definition sample_anchor :: CrdtRangeAnchor where
  "sample_anchor = \<lparr>ra_start = \<lparr>ap_itemId = ''5:1'', ap_side = Before\<rparr>, ra_end = \<lparr>ap_itemId = ''5:2'', ap_side = After\<rparr>\<rparr>"

lemma sample_supported:
  "snd (pmDocToBlocks (sample_text [97, 98, 99])) = []" "snd (pmDocToBlocks (sample_text [120, 97, 98])) = []"
  by code_simp+

lemma sample_live:
  "liveTextByBlock sample_before = [[sample_entry ''1'' False 97, sample_entry ''2'' False 98, sample_entry ''3'' False 99]]"
  "liveTextByBlock sample_after = [[sample_entry ''4'' False 120, sample_entry ''1'' False 97, sample_entry ''2'' False 98]]"
  by code_simp+

lemma sample_ids:
  "positive_dec ''5''" "positive_dec ''1''" "positive_dec ''2''" "positive_dec ''3''" "positive_dec ''4''"
  by code_simp+

lemma anchored_items:
  "textItemPositions (sample_text [97, 98, 99]) sample_before =
     Some [\<lparr>ti_id = ''5:1'', ti_scalar = 97, ti_from = 1, ti_to = 2\<rparr>, \<lparr>ti_id = ''5:2'', ti_scalar = 98, ti_from = 2, ti_to = 3\<rparr>,
           \<lparr>ti_id = ''5:3'', ti_scalar = 99, ti_from = 3, ti_to = 4\<rparr>]"
  "textItemPositions (sample_text [120, 97, 98]) sample_after =
     Some [\<lparr>ti_id = ''5:4'', ti_scalar = 120, ti_from = 1, ti_to = 2\<rparr>, \<lparr>ti_id = ''5:1'', ti_scalar = 97, ti_from = 2, ti_to = 3\<rparr>,
           \<lparr>ti_id = ''5:2'', ti_scalar = 98, ti_from = 3, ti_to = 4\<rparr>]"
  by (simp_all add: textItemPositions_def Let_def sample_supported sample_live)
    (simp_all add: sample_text_def sample_entry_def sample_ids block_items_def utf16_length_def itemId_def)

lemma sample_anchored:
  "doc_ok (sample_text [97, 98, 99])" "doc_ok (sample_text [120, 97, 98])"
  "distinct (live_ids sample_before)" "distinct (live_ids sample_after)" "same_order sample_before sample_after"
  by code_simp+

lemma sample_selection: "anchorSelection (sample_text [97, 98, 99]) sample_before 1 3 = Some sample_anchor"
  by (simp add: anchorSelection_def anchored_items sample_anchor_def)

theorem selection_restored_witness:
  "\<exists>f t. resolveAnchor (sample_text [97, 98, 99]) sample_before sample_anchor = Attached f t \<and> f < t"
  using selection_restored [OF sample_anchored(1,3) sample_selection] by blast

theorem anchor_follows_characters_witness:
  "\<exists>f t. resolveAnchor (sample_text [120, 97, 98]) sample_after sample_anchor = Attached f t"
proof -
  have "ap_itemId (ra_start sample_anchor) \<in> set (live_ids sample_after) \<and> ap_itemId (ra_end sample_anchor) \<in> set (live_ids sample_after)"
    by code_simp
  then show ?thesis using anchor_follows_characters [OF sample_anchored(1) sample_selection sample_anchored(2) anchored_items(2) sample_anchored(4,5)] by auto
qed

end
