(* ===== verification/Replica_Leases.thy ===== *)
theory Replica_Leases
  imports Worker_Core Data_Frames
begin

text \<open>
  \<^verbatim>\<open>lib/crdt/editor-bridge.ts\<close>, \<open>replicaIdForDocument\<close> and \<open>acquireReplica\<close>: the identity of a browser's replica in
  local storage, and the leases that keep two tabs from writing one persisted replica. Random bytes, the browser's
  storage and the Web Locks that are held are arguments. A tab reads and writes local storage in one step; a tab that
  overtakes another between its read and its write is a tab whose local storage changed in between (\<open>SetLocal\<close>).
\<close>

section \<open>Replica identities\<close>

text \<open>
  \<open>localStorage\<close> or \<open>sessionStorage\<close>: in private windows a read or a write throws (or the object is missing), and
  the code goes on as if nothing were stored. \<open>random\<close> are the eight bytes drawn.
\<close>

record WebStorage =
  ws_items :: "string \<Rightarrow> string option"
  ws_readable :: bool
  ws_writable :: bool

definition getItem :: "string \<Rightarrow> WebStorage \<Rightarrow> string option" where
  "getItem key ws = (if ws_readable ws then ws_items ws key else None)"

definition setItem :: "string \<Rightarrow> string \<Rightarrow> WebStorage \<Rightarrow> WebStorage" where
  "setItem key v ws = (if ws_writable ws then ws\<lparr>ws_items := (ws_items ws)(key \<mapsto> v)\<rparr> else ws)"

definition storage_works :: "WebStorage \<Rightarrow> bool" where
  "storage_works ws \<longleftrightarrow> ws_readable ws \<and> ws_writable ws"

definition replica_key :: "string \<Rightarrow> string option \<Rightarrow> string" where
  "replica_key documentId userId =
     (case userId of
        Some u \<Rightarrow> if u \<noteq> [] then ''concord.replica.'' @ encodeURIComponent u @ ''.'' @ documentId
          else ''concord.replica.'' @ documentId
      | None \<Rightarrow> ''concord.replica.'' @ documentId)"

definition random_replica :: "bytes \<Rightarrow> nat" where
  "random_replica random = be_val (or (hd random) 0x80 # tl random)"

definition replicaIdForDocument :: "string \<Rightarrow> string option \<Rightarrow> bytes \<Rightarrow> WebStorage \<Rightarrow> WebStorage \<times> int" where
  "replicaIdForDocument documentId userId random local =
     (let key = replica_key documentId userId;
          fresh = int (random_replica random)
      in case Option.bind (getItem key local) js_BigInt of
           Some n \<Rightarrow> if n \<noteq> 0 then (local, n) else (setItem key (show_int fresh) local, fresh)
         | None \<Rightarrow> (setItem key (show_int fresh) local, fresh))"

text \<open>A lease; \<open>rl_lock\<close> is the Web Lock that its \<open>release\<close> gives back.\<close>

record ReplicaLease =
  rl_replicaId :: int
  rl_storageId :: string
  rl_lock :: "string option"

text \<open>What the code runs in: a browser with Web Locks, one without, a test harness that has neither.\<close>

datatype Host = Browser | OldBrowser | Harness

definition lock_name :: "string \<Rightarrow> int \<Rightarrow> string" where
  "lock_name base i = ''concord.replica-writer.'' @ base @ ''.'' @ show_int i"

definition tab_key :: "string \<Rightarrow> string" where
  "tab_key base = ''concord.tab-replica.'' @ base"

definition lease_of :: "string \<Rightarrow> int \<Rightarrow> int \<Rightarrow> ReplicaLease" where
  "lease_of base primary i =
     \<lparr>rl_replicaId = i, rl_storageId = (if i = primary then base else base @ '':replica:'' @ show_int i),
      rl_lock = Some (lock_name base i)\<rparr>"

text \<open>\<open>acquireReplica\<close> up to its loop: it throws, has a lease without a lock, or has a candidate to lock.\<close>

datatype AcquireStart = Refused crdt_error | Leased ReplicaLease | Candidate int int

definition acquire_start ::
  "Host \<Rightarrow> string \<Rightarrow> string option \<Rightarrow> bytes \<Rightarrow> WebStorage \<Rightarrow> WebStorage \<Rightarrow> WebStorage \<times> AcquireStart" where
  "acquire_start host documentId userId random local session =
     (let (local', primary) = replicaIdForDocument documentId userId random local;
          base = replicaStorageId documentId userId;
          candidate = (case Option.bind (getItem (tab_key base) session) js_BigInt of Some n \<Rightarrow> n | None \<Rightarrow> primary)
      in (local',
          case host of
            Browser \<Rightarrow> Candidate primary candidate
          | OldBrowser \<Rightarrow> Refused UnsupportedVersionError
          | Harness \<Rightarrow> Leased \<lparr>rl_replicaId = primary, rl_storageId = base, rl_lock = None\<rparr>))"

text \<open>
  One round of the loop, with the locks that are held when the browser answers: the candidate's lock, or eight bytes
  more for the next round.
\<close>

definition acquire_round ::
  "string \<Rightarrow> int \<Rightarrow> int \<Rightarrow> bytes \<Rightarrow> WebStorage \<Rightarrow> string set \<Rightarrow> WebStorage \<times> string set \<times> (int + ReplicaLease)" where
  "acquire_round base primary candidate random session held =
     (if lock_name base candidate \<notin> held then
        (setItem (tab_key base) (show_int candidate) session, insert (lock_name base candidate) held,
         Inr (lease_of base primary candidate))
      else (session, held, Inl (int (random_replica random))))"

definition release :: "ReplicaLease \<Rightarrow> string set \<Rightarrow> string set" where
  "release l held = (case rl_lock l of Some name \<Rightarrow> held - {name} | None \<Rightarrow> held)"

section \<open>What the tabs hold\<close>

lemma random_replica_bounds:
  assumes "length random = 8"
  shows "2 ^ 63 \<le> random_replica random \<and> random_replica random < 2 ^ 64"
proof -
  obtain x xs where r: "random = x # xs" "length xs = 7" using assms by (cases random) auto
  have "(128 :: int) \<le> or 128 (uint x)" by (rule or_greater_eq) simp
  then have "128 \<le> uint (or x 0x80)" by (simp add: uint_or or.commute)
  then have "of_nat 128 \<le> (of_nat (unat (or x 0x80)) :: int)" unfolding uint_nat by simp
  then have high: "128 \<le> unat (or x 0x80)" by (rule of_nat_le_iff [THEN iffD1])
  have "le_val (ys @ [y]) = le_val ys + unat y * 256 ^ length ys" for ys and y :: byte
    by (induction ys) (simp_all add: algebra_simps)
  then have "random_replica random = le_val (rev xs) + unat (or x 0x80) * 256 ^ 7"
    using r(2) unfolding r(1) random_replica_def be_val_def by (metis length_rev list.sel(1,3) rev.simps(2))
  then have "128 * 256 ^ 7 \<le> random_replica random" using high by (metis mult_le_mono1 trans_le_add2)
  moreover have "random_replica random < 256 ^ 8"
    using be_val_bound [of "or (hd random) 0x80 # tl random"] r by (simp add: random_replica_def)
  ultimately show ?thesis by simp
qed

lemma not_digit_minus: "\<not> is_digit (CHR ''-'')"
  by (simp add: is_digit_def)

lemma show_int_inject: "show_int m = show_int n \<Longrightarrow> m = n"
proof -
  have "is_digit (hd (show_nat k))" for k
    using show_nat_digits [of k] by (cases "show_nat k") auto
  then have "show_nat k \<noteq> CHR ''-'' # s" for k s by (metis list.sel(1) not_digit_minus)
  then show "show_int m = show_int n \<Longrightarrow> m = n" by (auto simp: show_int_def split: if_splits dest: sym)
qed

text \<open>
  The tabs of one browser on one document and user. A tab begins \<open>acquireReplica\<close>, then asks for locks round by round,
  interleaved with the other tabs; a duplicated tab starts with a copy of the session storage, so a tab's session storage
  may change to anything (\<open>SetSession\<close>), and the user may clear or block local storage (\<open>SetLocal\<close>).
\<close>

datatype LeaseEvent =
    BeginAcquire nat bytes
  | LockRound nat bytes
  | ReleaseLease ReplicaLease
  | SetSession nat WebStorage
  | SetLocal WebStorage

record Tabs =
  tb_local :: WebStorage
  tb_session :: "nat \<Rightarrow> WebStorage"
  tb_waiting :: "nat \<Rightarrow> (int \<times> int) option"
  tb_held :: "string set"
  tb_leases :: "ReplicaLease list"

definition lease_step :: "Host \<Rightarrow> string \<Rightarrow> string option \<Rightarrow> LeaseEvent \<Rightarrow> Tabs \<Rightarrow> Tabs" where
  "lease_step host documentId userId ev st =
     (case ev of
        BeginAcquire t random \<Rightarrow>
          (case acquire_start host documentId userId random (tb_local st) (tb_session st t) of
             (local, Refused _) \<Rightarrow> st\<lparr>tb_local := local\<rparr>
           | (local, Leased l) \<Rightarrow> st\<lparr>tb_local := local, tb_leases := l # tb_leases st\<rparr>
           | (local, Candidate p c) \<Rightarrow> st\<lparr>tb_local := local, tb_waiting := (tb_waiting st)(t \<mapsto> (p, c))\<rparr>)
      | LockRound t random \<Rightarrow>
          (case tb_waiting st t of
             None \<Rightarrow> st
           | Some (p, c) \<Rightarrow>
               (case acquire_round (replicaStorageId documentId userId) p c random (tb_session st t) (tb_held st) of
                  (session, held, Inr l) \<Rightarrow>
                    st\<lparr>tb_session := (tb_session st)(t := session), tb_held := held, tb_leases := l # tb_leases st,
                       tb_waiting := (tb_waiting st)(t := None)\<rparr>
                | (session, held, Inl c') \<Rightarrow>
                    st\<lparr>tb_session := (tb_session st)(t := session), tb_held := held,
                       tb_waiting := (tb_waiting st)(t \<mapsto> (p, c'))\<rparr>))
      | ReleaseLease l \<Rightarrow>
          if l \<in> set (tb_leases st) then st\<lparr>tb_held := release l (tb_held st), tb_leases := remove1 l (tb_leases st)\<rparr>
          else st
      | SetSession t ws \<Rightarrow> st\<lparr>tb_session := (tb_session st)(t := ws)\<rparr>
      | SetLocal ws \<Rightarrow> st\<lparr>tb_local := ws\<rparr>)"

definition closed_tabs :: "WebStorage \<Rightarrow> (nat \<Rightarrow> WebStorage) \<Rightarrow> Tabs" where
  "closed_tabs local session =
     \<lparr>tb_local = local, tb_session = session, tb_waiting = Map.empty, tb_held = {}, tb_leases = []\<rparr>"

definition replica_ids_inv :: "string \<Rightarrow> Tabs \<Rightarrow> bool" where
  "replica_ids_inv base st \<longleftrightarrow>
     distinct (map rl_replicaId (tb_leases st))
     \<and> tb_held st = lock_name base ` rl_replicaId ` set (tb_leases st)
     \<and> (\<forall>l \<in> set (tb_leases st). rl_lock l = Some (lock_name base (rl_replicaId l)))"

text \<open>Local storage works and keeps the replica's item from the first acquisition on, with the primary identity in it.\<close>

definition primary_is :: "string \<Rightarrow> string option \<Rightarrow> int \<Rightarrow> Tabs \<Rightarrow> bool" where
  "primary_is documentId userId p st \<longleftrightarrow>
     p \<noteq> 0 \<and> Option.bind (ws_items (tb_local st) (replica_key documentId userId)) js_BigInt = Some p
     \<and> set (tb_leases st) \<subseteq> range (lease_of (replicaStorageId documentId userId) p)
     \<and> (\<forall>t q c. tb_waiting st t = Some (q, c) \<longrightarrow> q = p)"

definition primary_kept :: "string \<Rightarrow> string option \<Rightarrow> Tabs \<Rightarrow> bool" where
  "primary_kept documentId userId st \<longleftrightarrow>
     storage_works (tb_local st)
     \<and> (tb_leases st = [] \<and> tb_waiting st = Map.empty \<or> (\<exists>p. primary_is documentId userId p st))"

definition local_kept :: "string \<Rightarrow> string option \<Rightarrow> LeaseEvent \<Rightarrow> bool" where
  "local_kept documentId userId ev \<longleftrightarrow>
     (case ev of BeginAcquire t random \<Rightarrow> length random = 8 | SetLocal ws \<Rightarrow> False | _ \<Rightarrow> True)"

lemma lock_name_inject [simp]: "lock_name base i = lock_name base j \<longleftrightarrow> i = j"
  using show_int_inject by (auto simp: lock_name_def)

lemma lease_of_simps [simp]:
  "rl_replicaId (lease_of base p i) = i" "rl_lock (lease_of base p i) = Some (lock_name base i)"
  by (simp_all add: lease_of_def)

lemma lease_storage_inject: "rl_storageId (lease_of base p i) = rl_storageId (lease_of base p j) \<Longrightarrow> i = j"
  by (auto simp: lease_of_def split: if_splits dest: show_int_inject)

lemma acquired_ids:
  assumes "replica_ids_inv base st" and "lock_name base c \<notin> tb_held st"
  shows "replica_ids_inv base (st\<lparr>tb_session := s, tb_held := insert (lock_name base c) (tb_held st),
    tb_leases := lease_of base p c # tb_leases st, tb_waiting := w\<rparr>)"
  using assms by (auto simp: replica_ids_inv_def)

lemma released_ids:
  assumes inv: "replica_ids_inv base st" and l: "l \<in> set (tb_leases st)"
  shows "replica_ids_inv base (st\<lparr>tb_held := release l (tb_held st), tb_leases := remove1 l (tb_leases st)\<rparr>)"
proof -
  have d: "distinct (tb_leases st)" "inj_on rl_replicaId (set (tb_leases st))"
    using inv by (simp_all add: replica_ids_inv_def distinct_map)
  then have "distinct (map rl_replicaId (remove1 l (tb_leases st)))"
    by (simp add: distinct_map inj_on_diff)
  moreover have "lock_name base ` rl_replicaId ` (set (tb_leases st) - {l})
      = lock_name base ` rl_replicaId ` set (tb_leases st) - {lock_name base (rl_replicaId l)}"
    using d(2) l by (auto simp: inj_on_def)
  ultimately show ?thesis using inv l d(1) by (auto simp: replica_ids_inv_def release_def)
qed

lemma lease_step_ids:
  assumes "host \<noteq> Harness" and "replica_ids_inv (replicaStorageId documentId userId) st"
  shows "replica_ids_inv (replicaStorageId documentId userId) (lease_step host documentId userId ev st)"
proof (cases ev)
  case (LockRound t random)
  show ?thesis
  proof (cases "tb_waiting st t")
    case (Some pc)
    obtain p c where pc: "pc = (p, c)" by fastforce
    have "replica_ids_inv (replicaStorageId documentId userId) (st\<lparr>tb_session := s, tb_waiting := w\<rparr>)"
      "replica_ids_inv (replicaStorageId documentId userId) (st\<lparr>tb_waiting := w\<rparr>)" for s w
      using assms(2) by (simp_all add: replica_ids_inv_def)
    then show ?thesis using acquired_ids [OF assms(2), of c] Some
      by (cases "lock_name (replicaStorageId documentId userId) c \<in> tb_held st")
        (simp_all add: LockRound lease_step_def acquire_round_def pc del: fun_upd_apply)
  qed (use assms(2) in \<open>simp add: LockRound lease_step_def\<close>)
next
  case (ReleaseLease l)
  then show ?thesis using assms(2) released_ids [OF assms(2)] by (simp add: lease_step_def)
qed (use assms in \<open>cases host; simp add: lease_step_def acquire_start_def replica_ids_inv_def Let_def split: prod.split\<close>)+

lemma js_BigInt_show_fresh [simp]: "js_BigInt (show_int (int n)) = Some (int n)"
  by (simp add: show_int_def)

lemma setItem_frame [simp]: "ws_readable (setItem k v ws) = ws_readable ws" "ws_writable (setItem k v ws) = ws_writable ws"
  by (simp_all add: setItem_def)

lemma replica_id_drawn_or_stored:
  assumes "replicaIdForDocument documentId userId random local = (local', p)"
  shows "Option.bind (getItem (replica_key documentId userId) local) js_BigInt = Some p \<and> p \<noteq> 0 \<and> local' = local
    \<or> Option.bind (getItem (replica_key documentId userId) local) js_BigInt \<in> {None, Some 0}
       \<and> p = int (random_replica random) \<and> local' = setItem (replica_key documentId userId) (show_int p) local"
proof -
  define found where "found = Option.bind (getItem (replica_key documentId userId) local) js_BigInt"
  show ?thesis using assms unfolding replicaIdForDocument_def Let_def found_def [symmetric]
    by (cases found) (auto split: if_splits)
qed

lemma replica_id_cases:
  assumes "replicaIdForDocument documentId userId random local = (local', p)"
  shows "ws_readable local' = ws_readable local" "ws_writable local' = ws_writable local"
    and "storage_works local \<Longrightarrow> length random = 8 \<Longrightarrow>
      p \<noteq> 0 \<and> Option.bind (ws_items local' (replica_key documentId userId)) js_BigInt = Some p"
    and "storage_works local \<Longrightarrow> Option.bind (ws_items local (replica_key documentId userId)) js_BigInt = Some q \<Longrightarrow> q \<noteq> 0
      \<Longrightarrow> local' = local \<and> p = q"
proof -
  note d = replica_id_drawn_or_stored [OF assms]
  show "ws_readable local' = ws_readable local" "ws_writable local' = ws_writable local"
    using d by auto
  have "random_replica random \<noteq> 0" if "length random = 8" using random_replica_bounds [OF that] by auto
  then show "storage_works local \<Longrightarrow> length random = 8 \<Longrightarrow>
      p \<noteq> 0 \<and> Option.bind (ws_items local' (replica_key documentId userId)) js_BigInt = Some p"
    using d by (auto simp: setItem_def getItem_def storage_works_def)
  show "storage_works local \<Longrightarrow> Option.bind (ws_items local (replica_key documentId userId)) js_BigInt = Some q \<Longrightarrow> q \<noteq> 0
      \<Longrightarrow> local' = local \<and> p = q"
    using d by (simp add: getItem_def storage_works_def)
qed

lemma begin_kept:
  assumes "primary_kept documentId userId st" and "length random = 8"
    and "replicaIdForDocument documentId userId random (tb_local st) = (local', p)"
  shows "primary_kept documentId userId (st\<lparr>tb_local := local', tb_waiting := (tb_waiting st)(t \<mapsto> (p, c))\<rparr>)"
    and "primary_kept documentId userId (st\<lparr>tb_local := local'\<rparr>)"
proof -
  note id = replica_id_cases [OF assms(3)]
  have works: "storage_works (tb_local st)" "storage_works local'"
    using assms(1) id(1,2) by (simp_all add: primary_kept_def storage_works_def)
  have p: "p \<noteq> 0 \<and> Option.bind (ws_items local' (replica_key documentId userId)) js_BigInt = Some p"
    using id(3) works assms(2) by blast
  show "primary_kept documentId userId (st\<lparr>tb_local := local', tb_waiting := (tb_waiting st)(t \<mapsto> (p, c))\<rparr>)"
    "primary_kept documentId userId (st\<lparr>tb_local := local'\<rparr>)"
  proof (atomize(full), cases "tb_leases st = [] \<and> tb_waiting st = Map.empty")
    case True
    then show "primary_kept documentId userId (st\<lparr>tb_local := local', tb_waiting := (tb_waiting st)(t \<mapsto> (p, c))\<rparr>)
        \<and> primary_kept documentId userId (st\<lparr>tb_local := local'\<rparr>)"
      using p works by (auto simp: primary_kept_def primary_is_def)
  next
    case False
    then obtain q where q: "primary_is documentId userId q st" using assms(1) by (auto simp: primary_kept_def)
    then have "local' = tb_local st" "p = q" using id(4) [OF works(1)] by (simp_all add: primary_is_def)
    then have "primary_is documentId userId q (st\<lparr>tb_local := local', tb_waiting := (tb_waiting st)(t \<mapsto> (p, c))\<rparr>)"
      "primary_is documentId userId q (st\<lparr>tb_local := local'\<rparr>)"
      using q unfolding primary_is_def by (auto split: if_splits)
    then show "primary_kept documentId userId (st\<lparr>tb_local := local', tb_waiting := (tb_waiting st)(t \<mapsto> (p, c))\<rparr>)
        \<and> primary_kept documentId userId (st\<lparr>tb_local := local'\<rparr>)"
      using works by (auto simp: primary_kept_def)
  qed
qed

lemma round_kept:
  assumes "primary_kept documentId userId st" and "tb_waiting st t = Some (p, c)"
  shows "primary_kept documentId userId (st\<lparr>tb_session := s, tb_held := h,
      tb_leases := lease_of (replicaStorageId documentId userId) p c # tb_leases st, tb_waiting := (tb_waiting st)(t := None)\<rparr>)"
    and "primary_kept documentId userId (st\<lparr>tb_session := s, tb_held := h, tb_waiting := (tb_waiting st)(t \<mapsto> (p, c'))\<rparr>)"
proof -
  obtain q where q: "primary_is documentId userId q st" and works: "storage_works (tb_local st)"
    using assms by (auto simp: primary_kept_def)
  then have "q = p" using assms(2) unfolding primary_is_def by blast
  then have "primary_is documentId userId p (st\<lparr>tb_session := s, tb_held := h,
      tb_leases := lease_of (replicaStorageId documentId userId) p c # tb_leases st, tb_waiting := (tb_waiting st)(t := None)\<rparr>)"
    "primary_is documentId userId p (st\<lparr>tb_session := s, tb_held := h, tb_waiting := (tb_waiting st)(t \<mapsto> (p, c'))\<rparr>)"
    using q unfolding primary_is_def by auto
  then show "primary_kept documentId userId (st\<lparr>tb_session := s, tb_held := h,
      tb_leases := lease_of (replicaStorageId documentId userId) p c # tb_leases st, tb_waiting := (tb_waiting st)(t := None)\<rparr>)"
    "primary_kept documentId userId (st\<lparr>tb_session := s, tb_held := h, tb_waiting := (tb_waiting st)(t \<mapsto> (p, c'))\<rparr>)"
    using works by (auto simp: primary_kept_def)
qed

lemma lease_step_kept:
  assumes "host \<noteq> Harness" and kept: "primary_kept documentId userId st" and "local_kept documentId userId ev"
  shows "primary_kept documentId userId (lease_step host documentId userId ev st)"
proof (cases ev)
  case (BeginAcquire t random)
  then have r: "length random = 8" using assms(3) by (simp add: local_kept_def)
  obtain local' p where i: "replicaIdForDocument documentId userId random (tb_local st) = (local', p)" by fastforce
  show ?thesis using assms(1) begin_kept [OF kept r i] BeginAcquire i
    by (cases host) (simp_all add: lease_step_def acquire_start_def Let_def)
next
  case (LockRound t random)
  show ?thesis
  proof (cases "tb_waiting st t")
    case (Some pc)
    obtain p c where pc: "pc = (p, c)" by fastforce
    note k = round_kept [OF kept Some [unfolded pc]]
    show ?thesis using k(1) k(2) [where s = "tb_session st" and h = "tb_held st"] Some
      by (simp add: LockRound lease_step_def acquire_round_def pc)
  qed (use kept in \<open>simp add: LockRound lease_step_def\<close>)
next
  case (ReleaseLease l)
  have "set (remove1 l ls) \<subseteq> set ls" for ls by (rule set_remove1_subset)
  then show ?thesis using kept ReleaseLease by (fastforce simp: lease_step_def primary_kept_def primary_is_def)
next
  case (SetSession t ws)
  then show ?thesis using kept by (simp add: lease_step_def primary_kept_def primary_is_def)
next
  case (SetLocal ws)
  then show ?thesis using assms(3) by (simp add: local_kept_def)
qed


text \<open>
  Two tabs of a browser that blocks local storage draw different primary identities, lock different names, and are both
  given the primary storage namespace.
\<close>

lemma shared_namespace:
  assumes "\<not> ws_readable local" and "random_replica r0 \<noteq> random_replica r1" and "\<And>t. ws_items (session t) = Map.empty"
    and "st = fold (lease_step Browser documentId userId)
      [BeginAcquire 0 r0, LockRound 0 [], BeginAcquire 1 r1, LockRound 1 []] (closed_tabs local session)"
  shows "map rl_replicaId (tb_leases st) = [int (random_replica r1), int (random_replica r0)]
    \<and> map rl_storageId (tb_leases st) = [replicaStorageId documentId userId, replicaStorageId documentId userId]"
proof -
  have "replicaIdForDocument documentId userId r ws = (setItem (replica_key documentId userId) (show_int (int (random_replica r))) ws,
      int (random_replica r))" if "\<not> ws_readable ws" for r ws
    using that by (simp add: replicaIdForDocument_def getItem_def Let_def)
  moreover have "ws_readable (setItem k v ws) = ws_readable ws" for k v ws by (simp add: setItem_def)
  moreover have "getItem k (session t) = None" for k t by (simp add: getItem_def assms(3))
  ultimately show ?thesis using assms(1,2) unfolding assms(4)
    by (simp add: lease_step_def acquire_start_def acquire_round_def closed_tabs_def lease_of_def)
qed

text \<open>
  C37: the identity of a browser's replica is in the upper half of the unsigned 64-bit integers when it is drawn, is
  saved, and is the same at every later call whatever is drawn then; without local storage it is drawn at every call.
\<close>

theorem replica_identity_stable:
  assumes "length random = 8" and "replicaIdForDocument documentId userId random local = (local', n)"
    and "getItem (replica_key documentId userId) local = None"
  shows "2 ^ 63 \<le> n \<and> n < 2 ^ 64
    \<and> (storage_works local \<longrightarrow> replicaIdForDocument documentId userId random' local' = (local', n))"
proof -
  have n: "n = int (random_replica random)" "local' = setItem (replica_key documentId userId) (show_int n) local"
    using assms by (auto simp: replicaIdForDocument_def Let_def)
  have b: "2 ^ 63 \<le> random_replica random" "random_replica random < 2 ^ 64"
    using random_replica_bounds [OF assms(1)] by simp_all
  then have "2 ^ 63 \<le> n" "n < 2 ^ 64" using n(1) by (simp_all add: of_nat_less_iff [symmetric] of_nat_le_iff [symmetric])
  moreover from this have "js_BigInt (show_int n) = Some n" "n \<noteq> 0" by (simp_all add: show_int_def)
  ultimately show ?thesis using n(2) by (simp add: replicaIdForDocument_def storage_works_def getItem_def setItem_def Let_def)
qed

section \<open>Witnesses\<close>

definition empty_storage :: WebStorage where
  "empty_storage = \<lparr>ws_items = Map.empty, ws_readable = True, ws_writable = True\<rparr>"

definition two_tabs :: "LeaseEvent list" where
  "two_tabs = [BeginAcquire 0 [0, 0, 0, 0, 0, 0, 0, 0], BeginAcquire 1 [1, 1, 1, 1, 1, 1, 1, 1], LockRound 1 [], LockRound 0 [2, 2, 2, 2, 2, 2, 2, 2],
     LockRound 0 []]"


theorem replica_identity_stable_witness:
  "\<exists>local' n. replicaIdForDocument ''d'' None [0, 0, 0, 0, 0, 0, 0, 0] empty_storage = (local', n)
     \<and> 2 ^ 63 \<le> n \<and> n < 2 ^ 64 \<and> replicaIdForDocument ''d'' None [] local' = (local', n)"
proof -
  obtain local' n where "replicaIdForDocument ''d'' None [0, 0, 0, 0, 0, 0, 0, 0] empty_storage = (local', n)" by fastforce
  then show ?thesis
    using replica_identity_stable [of "[0, 0, 0, 0, 0, 0, 0, 0]" "''d''" None empty_storage local' n "[]"]
    by (simp add: getItem_def storage_works_def empty_storage_def)
qed

end
