(* ===== verification/Editor_Bridge.thy ===== *)
theory Editor_Bridge
  imports Anchors Replica_Leases
begin

text \<open>
  \<^verbatim>\<open>lib/crdt/editor-bridge.ts\<close>: the bridge between one TipTap editor and the CRDT worker. The bridge awaits the
  worker between its actions, so it is a step function over the points where something else may run: an edit of the
  user, the reply of the worker, a task of the mutation lane, a render. The worker is \<^const>\<open>handle\<close>; what TipTap
  makes of a document it is given (\<open>norm\<close>) is a parameter. A reply is computed when it arrives, which is the order
  in which the worker serves its queue.
\<close>

section \<open>The engine's visible JSON\<close>

definition string_record :: "json \<Rightarrow> (string \<times> string) list option" where
  "string_record v =
     (case v of
        JObj kvs \<Rightarrow>
          if list_all (\<lambda>(k, x). case x of JStr s \<Rightarrow> True | _ \<Rightarrow> False) kvs
          then Some (map (\<lambda>(k, x). (k, case x of JStr s \<Rightarrow> s | _ \<Rightarrow> [])) kvs) else None
      | _ \<Rightarrow> None)"

definition json_field :: "string \<Rightarrow> json \<Rightarrow> json option" where
  "json_field k v = (case v of JObj kvs \<Rightarrow> map_of kvs k | _ \<Rightarrow> None)"

fun all_or_none :: "'a option list \<Rightarrow> 'a list option" where
  "all_or_none [] = Some []"
| "all_or_none (None # xs) = None"
| "all_or_none (Some x # xs) = map_option ((#) x) (all_or_none xs)"

definition run_chars :: "json \<Rightarrow> CanonicalChar list option" where
  "run_chars run =
     (case (string_field ''t'' run, Option.bind (json_field ''m'' run) string_record) of
        (Some t, Some m) \<Rightarrow> Some (map (\<lambda>c. \<lparr>ch_scalar = of_char c, ch_marks = m\<rparr>) t)
      | _ \<Rightarrow> None)"

definition canonical_block :: "json \<Rightarrow> CanonicalBlock option" where
  "canonical_block block =
     (case (string_field ''type'' block, Option.bind (json_field ''attrs'' block) string_record, json_field ''runs'' block) of
        (Some t, Some a, Some (JArr runs)) \<Rightarrow>
          map_option (\<lambda>cs. \<lparr>bl_type = t, bl_attrs = a, bl_chars = concat cs\<rparr>) (all_or_none (map run_chars runs))
      | _ \<Rightarrow> None)"

definition toCanonicalBlocks :: "string \<Rightarrow> CanonicalBlock list option" where
  "toCanonicalBlocks text =
     (case json_parse text of
        Some v \<Rightarrow>
          (case json_field ''blocks'' v of
             Some (JArr blocks) \<Rightarrow> all_or_none (map canonical_block blocks)
           | _ \<Rightarrow> None)
      | None \<Rightarrow> None)"

section \<open>The bridge\<close>

datatype BridgeMode = IdleMode | CrdtMode "CanonicalBlock list" | BlockedMode | FallbackMode

datatype Task = LocalTransaction | RemoteOps "bytes list" "string option"

text \<open>What the head of the lane waits for; what the render in flight waits for.\<close>

datatype HeadPc = Queued | Reconciling | Applying | RenderPending | Rendering

datatype RenderPc = RenderReconciling | RenderReading PmNode "CrdtRangeAnchor option" bool

text \<open>A reconciliation that awaits the worker: the operations sent and the blocks they were made from.\<close>

record Pass =
  pa_ops :: "SeedOperation list"
  pa_base :: "StreamEntry list"
  pa_blocks :: "CanonicalBlock list"

record 'e Bridge =
  br_mode :: BridgeMode
  br_view :: "StreamEntry list"
  br_editor :: PmNode
  br_selection :: "nat \<times> nat"
  br_worker :: "'e Worker"
  br_pass :: "Pass option"
  br_requested :: bool
  br_render :: "RenderPc option"
  br_renderRequested :: bool
  br_callers :: nat
  br_lane :: "Task list"
  br_head :: HeadPc

definition editor_blocks :: "'e Bridge \<Rightarrow> CanonicalBlock list" where
  "editor_blocks b = fst (pmDocToBlocks (br_editor b))"

text \<open>One round of \<open>runReconciliation\<close> up to its first await.\<close>

definition begin_pass :: "CanonicalBlock list \<Rightarrow> 'e Bridge \<Rightarrow> 'e Bridge" where
  "begin_pass lastBlocks b =
     (let b1 = b\<lparr>br_requested := False, br_pass := None\<rparr>
      in if snd (pmDocToBlocks (br_editor b)) \<noteq> [] then b1\<lparr>br_mode := FallbackMode\<rparr>
         else
           let ops = reconcile lastBlocks (editor_blocks b) (br_view b)
           in if ops = [] then b1\<lparr>br_mode := CrdtMode (editor_blocks b)\<rparr>
              else b1\<lparr>br_pass := Some \<lparr>pa_ops = ops, pa_base = br_view b, pa_blocks = editor_blocks b\<rparr>\<rparr>)"

definition reconcileTransaction :: "'e Bridge \<Rightarrow> 'e Bridge" where
  "reconcileTransaction b =
     (if br_pass b \<noteq> None then b\<lparr>br_requested := True\<rparr>
      else case br_mode b of CrdtMode lastBlocks \<Rightarrow> begin_pass lastBlocks b | _ \<Rightarrow> b)"

definition pop_task :: "'e Bridge \<Rightarrow> 'e Bridge" where
  "pop_task b = b\<lparr>br_lane := tl (br_lane b), br_head := Queued\<rparr>"

text \<open>A render ends; the task that started it ends with it.\<close>

definition end_render :: "'e Bridge \<Rightarrow> 'e Bridge" where
  "end_render b =
     (let b1 = b\<lparr>br_render := None\<rparr> in if br_head b = Rendering then pop_task b1 else b1)"

text \<open>The worker's reply to the reconcile request; a failure degrades the bridge and rejects all who wait.\<close>

definition pass_failed :: "'e Bridge \<Rightarrow> 'e Bridge" where
  "pass_failed b =
     (let b1 = b\<lparr>br_mode := FallbackMode, br_pass := None, br_requested := False\<rparr>;
          b2 = (if br_head b1 = Reconciling then pop_task b1 else b1)
      in if br_render b2 = Some RenderReconciling then end_render b2 else b2)"

definition finish_pass ::
  "('e, 'x) EnginePort_scheme \<Rightarrow> WorkerConfig \<Rightarrow> bool \<Rightarrow> 'e Bridge \<Rightarrow> 'e Bridge" where
  "finish_pass eng cfg commits b =
     (case br_pass b of
        None \<Rightarrow> b
      | Some p \<Rightarrow>
          (case handle eng cfg commits 0 (Reconcile (pa_ops p) (Some (pa_base p))) (br_worker b) of
             (w, Inr (RLocalOps ops n (Some view))) \<Rightarrow>
               let b1 = b\<lparr>br_worker := w, br_view := view, br_mode := CrdtMode (pa_blocks p)\<rparr>
               in if br_requested b then begin_pass (pa_blocks p) b1 else b1\<lparr>br_pass := None\<rparr>
           | (w, _) \<Rightarrow> pass_failed (b\<lparr>br_worker := w\<rparr>)))"

section \<open>The lane\<close>

definition begin_task :: "'e Bridge \<Rightarrow> 'e Bridge" where
  "begin_task b =
     (if br_lane b \<noteq> [] \<and> br_head b = Queued then (reconcileTransaction b)\<lparr>br_head := Reconciling\<rparr> else b)"

definition continue_task :: "'e Bridge \<Rightarrow> 'e Bridge" where
  "continue_task b =
     (if br_head b = Reconciling \<and> br_pass b = None then
        (case br_lane b of
           RemoteOps ops cursor # rest \<Rightarrow> b\<lparr>br_head := Applying\<rparr>
         | _ \<Rightarrow> pop_task b)
      else b)"

definition finish_apply ::
  "('e, 'x) EnginePort_scheme \<Rightarrow> WorkerConfig \<Rightarrow> bool \<Rightarrow> 'e Bridge \<Rightarrow> 'e Bridge" where
  "finish_apply eng cfg commits b =
     (case br_lane b of
        RemoteOps ops cursor # rest \<Rightarrow>
          if br_head b = Applying then
            (case handle eng cfg commits 0 (ApplyRemote ops cursor) (br_worker b) of
               (w, Inr (RApplyRemote applied dups kept)) \<Rightarrow>
                 if 0 < applied then b\<lparr>br_worker := w, br_head := RenderPending\<rparr> else pop_task (b\<lparr>br_worker := w\<rparr>)
             | (w, _) \<Rightarrow> pop_task (b\<lparr>br_worker := w\<rparr>))
          else b
      | _ \<Rightarrow> b)"

section \<open>Rendering\<close>

definition render_round :: "'e Bridge \<Rightarrow> 'e Bridge" where
  "render_round b = (reconcileTransaction (b\<lparr>br_renderRequested := False\<rparr>))\<lparr>br_render := Some RenderReconciling\<rparr>"

text \<open>\<open>renderRemote\<close> after its first await, for the head of the lane or for another caller.\<close>

definition enter_render :: "bool \<Rightarrow> 'e Bridge \<Rightarrow> 'e Bridge" where
  "enter_render is_head b =
     (if br_pass b \<noteq> None then b
      else if is_head then
        (if br_head b \<noteq> RenderPending then b
         else if \<nexists>bs. br_mode b = CrdtMode bs then pop_task b
         else if br_render b \<noteq> None then pop_task (b\<lparr>br_renderRequested := True\<rparr>)
         else render_round (b\<lparr>br_head := Rendering\<rparr>))
      else
        (if br_callers b = 0 then b
         else
           let b1 = b\<lparr>br_callers := br_callers b - 1\<rparr>
           in if \<nexists>bs. br_mode b = CrdtMode bs then b1
              else if br_render b \<noteq> None then b1\<lparr>br_renderRequested := True\<rparr>
              else render_round b1))"

definition read_view :: "'e Bridge \<Rightarrow> 'e Bridge" where
  "read_view b =
     (if br_render b = Some RenderReconciling \<and> br_pass b = None then
        (case br_selection b of
           (from, to') \<Rightarrow>
             let caret = (from = to');
                 anchor = anchorSelection (br_editor b) (br_view b) (if caret then max 0 (int from - 1) else int from) (int to')
             in b\<lparr>br_render := Some (RenderReading (br_editor b) anchor caret)\<rparr>)
      else b)"

definition restore_selection :: "CrdtRangeAnchor option \<Rightarrow> bool \<Rightarrow> 'e Bridge \<Rightarrow> 'e Bridge" where
  "restore_selection anchor caret b =
     (case anchor of
        None \<Rightarrow> b
      | Some a \<Rightarrow>
          (case resolveAnchor (br_editor b) (br_view b) a of
             Attached from to' \<Rightarrow> b\<lparr>br_selection := (if caret then (to', to') else (from, to'))\<rparr>
           | _ \<Rightarrow> b))"

text \<open>The editor shows the view; \<open>norm\<close> and \<open>place\<close> are what TipTap makes of document and selection.\<close>

definition show_view ::
  "(PmNode \<Rightarrow> PmNode) \<Rightarrow> (nat \<times> nat \<Rightarrow> nat \<times> nat) \<Rightarrow> CanonicalBlock list \<Rightarrow> StreamEntry list
    \<Rightarrow> CrdtRangeAnchor option \<Rightarrow> bool \<Rightarrow> 'e Bridge \<Rightarrow> 'e Bridge" where
  "show_view norm place blocks stream anchor caret b =
     (let doc = norm (blocksToPmDoc blocks)
      in restore_selection anchor caret
           (b\<lparr>br_editor := doc, br_selection := place (br_selection b), br_mode := CrdtMode (fst (pmDocToBlocks doc)),
              br_view := stream\<rparr>))"

definition finish_read ::
  "('e, 'x) EnginePort_scheme \<Rightarrow> WorkerConfig \<Rightarrow> (PmNode \<Rightarrow> PmNode) \<Rightarrow> (nat \<times> nat \<Rightarrow> nat \<times> nat) \<Rightarrow> 'e Bridge \<Rightarrow> 'e Bridge" where
  "finish_read eng cfg norm place b =
     (case br_render b of
        Some (RenderReading prior anchor caret) \<Rightarrow>
          (case handle eng cfg True 0 ReadView (br_worker b) of
             (w, Inr (RReadView json stream)) \<Rightarrow>
               let b1 = b\<lparr>br_worker := w\<rparr>
               in if br_editor b \<noteq> prior \<or> br_pass b \<noteq> None then render_round b1
                  else
                    (case (toCanonicalBlocks json, br_mode b) of
                       (Some blocks, CrdtMode _) \<Rightarrow>
                         let b2 = show_view norm place blocks stream anchor caret b1
                         in if br_renderRequested b then render_round b2 else end_render b2
                     | _ \<Rightarrow> end_render b1)
           | (w, _) \<Rightarrow> end_render (b\<lparr>br_worker := w\<rparr>))
      | _ \<Rightarrow> b)"

text \<open>The watchdog abandons a read that never returns.\<close>

definition render_timeout :: "'e Bridge \<Rightarrow> 'e Bridge" where
  "render_timeout b = (case br_render b of Some (RenderReading _ _ _) \<Rightarrow> end_render b | _ \<Rightarrow> b)"

section \<open>Steps\<close>

datatype Action =
    UserEdit PmNode
  | UserSelect "nat \<times> nat"
  | RemoteBatch "bytes list" "string option"
  | RenderCall
  | BeginTask
  | FinishPass bool
  | ContinueTask
  | FinishApply bool
  | EnterRender bool
  | ReadViewStep
  | FinishRead
  | RenderTimeout

text \<open>An edit reaches \<open>onLocalTransaction\<close>, a remote batch \<open>applyRemote\<close>: both wait in the lane.\<close>

definition bridge_step ::
  "('e, 'x) EnginePort_scheme \<Rightarrow> WorkerConfig \<Rightarrow> (PmNode \<Rightarrow> PmNode) \<Rightarrow> (nat \<times> nat \<Rightarrow> nat \<times> nat) \<Rightarrow> Action \<Rightarrow> 'e Bridge \<Rightarrow> 'e Bridge" where
  "bridge_step eng cfg norm place act b =
     (case act of
        UserEdit doc \<Rightarrow> b\<lparr>br_editor := doc, br_lane := br_lane b @ [LocalTransaction]\<rparr>
      | UserSelect s \<Rightarrow> b\<lparr>br_selection := s\<rparr>
      | RemoteBatch ops cursor \<Rightarrow> b\<lparr>br_lane := br_lane b @ [RemoteOps ops cursor]\<rparr>
      | RenderCall \<Rightarrow> b\<lparr>br_callers := br_callers b + 1\<rparr>
      | BeginTask \<Rightarrow> begin_task b
      | FinishPass commits \<Rightarrow> finish_pass eng cfg commits b
      | ContinueTask \<Rightarrow> continue_task b
      | FinishApply commits \<Rightarrow> finish_apply eng cfg commits b
      | EnterRender is_head \<Rightarrow> enter_render is_head b
      | ReadViewStep \<Rightarrow> read_view b
      | FinishRead \<Rightarrow> finish_read eng cfg norm place b
      | RenderTimeout \<Rightarrow> render_timeout b)"

section \<open>Start\<close>

datatype seed = SeedUndefined | SeedNull | SeedDocument PmNode

text \<open>\<open>runStart\<close> over a worker whose lease is held; a rejected request ends in one of two modes.\<close>

definition start_failed :: "crdt_error \<Rightarrow> 'e Bridge \<Rightarrow> 'e Bridge" where
  "start_failed err b = b\<lparr>br_mode := (if err = UnsupportedVersionError then BlockedMode else FallbackMode)\<rparr>"

definition seed_blocks :: "seed \<Rightarrow> PmNode \<Rightarrow> CanonicalBlock list option" where
  "seed_blocks s doc =
     (case s of
        SeedNull \<Rightarrow> Some [paragraph_block]
      | _ \<Rightarrow>
          let parsed = pmDocToBlocks (case s of SeedDocument d \<Rightarrow> d | _ \<Rightarrow> doc)
          in if snd parsed \<noteq> [] then None
             else Some (if fst parsed \<noteq> [] then fst parsed else [paragraph_block]))"

definition set_content :: "(PmNode \<Rightarrow> PmNode) \<Rightarrow> CanonicalBlock list \<Rightarrow> 'e Bridge \<Rightarrow> 'e Bridge" where
  "set_content norm blocks b =
     (let doc = norm (blocksToPmDoc blocks)
      in b\<lparr>br_editor := doc, br_mode := CrdtMode (fst (pmDocToBlocks doc))\<rparr>)"

definition seed_replica ::
  "('e, 'x) EnginePort_scheme \<Rightarrow> WorkerConfig \<Rightarrow> bool \<Rightarrow> CanonicalBlock list \<Rightarrow> StreamEntry list \<Rightarrow> 'e Bridge \<Rightarrow> 'e Bridge" where
  "seed_replica eng cfg commits blocks stream b =
     (let ops = reconcile [paragraph_block] blocks stream
      in case (if ops = [] then (br_worker b, Inr (RSeed [])) else handle eng cfg commits 0 (Seed ops) (br_worker b)) of
           (w, Inl err) \<Rightarrow> start_failed err (b\<lparr>br_worker := w\<rparr>)
         | (w, Inr _) \<Rightarrow>
             (case handle eng cfg True 0 ExportStream w of
                (w', Inr (RExportStream view)) \<Rightarrow> b\<lparr>br_worker := w', br_view := view\<rparr>
              | (w', Inl err) \<Rightarrow> start_failed err (b\<lparr>br_worker := w'\<rparr>)
              | (w', _) \<Rightarrow> b\<lparr>br_worker := w'\<rparr>))"

definition runStart ::
  "('e, 'x) EnginePort_scheme \<Rightarrow> WorkerConfig \<Rightarrow> bool \<Rightarrow> (PmNode \<Rightarrow> PmNode) \<Rightarrow> seed \<Rightarrow> 'e Bridge \<Rightarrow> 'e Bridge" where
  "runStart eng cfg commits norm s b =
     (case handle eng cfg True 0 (Init (wc_documentId cfg) (Some (storageId cfg))) (br_worker b) of
        (w1, Inl err) \<Rightarrow> start_failed err (b\<lparr>br_worker := w1\<rparr>)
      | (w1, Inr _) \<Rightarrow>
          (case handle eng cfg True 0 VisibleJson w1 of
             (w2, Inl err) \<Rightarrow> start_failed err (b\<lparr>br_worker := w2\<rparr>)
           | (w2, Inr r) \<Rightarrow>
               (case (case r of RVisibleJson json \<Rightarrow> toCanonicalBlocks json | _ \<Rightarrow> None) of
                  None \<Rightarrow> b\<lparr>br_worker := w2, br_mode := FallbackMode\<rparr>
                | Some crdtBlocks \<Rightarrow>
                    (case handle eng cfg True 0 ExportStream w2 of
                       (w3, Inr (RExportStream stream)) \<Rightarrow>
                         let b1 = b\<lparr>br_worker := w3, br_view := stream\<rparr>
                         in if stream \<noteq> [] then set_content norm crdtBlocks b1
                            else (case seed_blocks s (br_editor b) of
                              None \<Rightarrow> b1\<lparr>br_mode := FallbackMode\<rparr>
                            | Some blocks \<Rightarrow> seed_replica eng cfg commits blocks stream (set_content norm blocks b1))
                     | (w3, Inl err) \<Rightarrow> start_failed err (b\<lparr>br_worker := w3\<rparr>)
                     | (w3, _) \<Rightarrow> b\<lparr>br_worker := w3, br_mode := FallbackMode\<rparr>))))"

section \<open>Edits are pending until they are sent\<close>

text \<open>The editor's document differs from the blocks that were last reconciled.\<close>

definition dirty :: "'e Bridge \<Rightarrow> bool" where
  "dirty b \<longleftrightarrow> (case br_mode b of CrdtMode lastBlocks \<Rightarrow> lastBlocks \<noteq> editor_blocks b | _ \<Rightarrow> False)"

text \<open>A reconciliation that has read the editor's current document, or will read it again.\<close>

definition pass_covers :: "'e Bridge \<Rightarrow> bool" where
  "pass_covers b \<longleftrightarrow> (case br_pass b of Some p \<Rightarrow> pa_blocks p = editor_blocks b \<or> br_requested b | None \<Rightarrow> False)"

definition task_waits :: "'e Bridge \<Rightarrow> bool" where
  "task_waits b \<longleftrightarrow> (br_lane b \<noteq> [] \<and> br_head b = Queued) \<or> tl (br_lane b) \<noteq> []"

definition edits_pending :: "'e Bridge \<Rightarrow> bool" where
  "edits_pending b \<longleftrightarrow> (br_lane b = [] \<longrightarrow> br_head b = Queued)
     \<and> (dirty b \<or> br_pass b \<noteq> None \<longrightarrow> task_waits b \<or> pass_covers b)"

text \<open>Nothing is to be sent, or a reconciliation is under way that has all of it.\<close>

definition all_sent :: "'e Bridge \<Rightarrow> bool" where
  "all_sent b \<longleftrightarrow> (dirty b \<or> br_pass b \<noteq> None \<longrightarrow> pass_covers b)"

lemma begin_pass_frame [simp]:
  "br_editor (begin_pass l b) = br_editor b" "br_lane (begin_pass l b) = br_lane b" "br_head (begin_pass l b) = br_head b"
  "br_render (begin_pass l b) = br_render b" "br_callers (begin_pass l b) = br_callers b"
  by (simp_all add: begin_pass_def Let_def)

lemma reconcile_frame [simp]:
  "br_editor (reconcileTransaction b) = br_editor b" "br_lane (reconcileTransaction b) = br_lane b"
  "br_head (reconcileTransaction b) = br_head b" "br_render (reconcileTransaction b) = br_render b"
  "br_callers (reconcileTransaction b) = br_callers b"
  by (simp_all add: reconcileTransaction_def split: BridgeMode.splits)

lemma begin_pass_covered: "all_sent (begin_pass l b)"
  by (auto simp: all_sent_def begin_pass_def dirty_def pass_covers_def editor_blocks_def Let_def)

lemma reconcile_covered: "all_sent (reconcileTransaction b)"
proof (cases "br_pass b")
  case None
  then show ?thesis
    by (cases "br_mode b") (simp_all add: reconcileTransaction_def begin_pass_covered, simp_all add: all_sent_def dirty_def)
qed (auto simp: reconcileTransaction_def all_sent_def pass_covers_def)

lemma covered_cong:
  assumes "br_mode b' = br_mode b" "br_editor b' = br_editor b" "br_pass b' = br_pass b" "br_requested b' = br_requested b"
  shows "dirty b' = dirty b" "pass_covers b' = pass_covers b" "all_sent b' = all_sent b"
proof -
  have "editor_blocks b' = editor_blocks b" using assms(2) by (simp add: editor_blocks_def)
  then show "dirty b' = dirty b" "pass_covers b' = pass_covers b" "all_sent b' = all_sent b"
    using assms by (auto simp: dirty_def pass_covers_def all_sent_def split: BridgeMode.splits option.splits)
qed

lemma covered_pending: "all_sent b \<Longrightarrow> (br_lane b = [] \<Longrightarrow> br_head b = Queued) \<Longrightarrow> edits_pending b"
  by (auto simp: edits_pending_def all_sent_def)

lemma pop_pending:
  assumes "edits_pending b" and "br_head b \<noteq> Queued"
  shows "edits_pending (pop_task b)"
proof -
  have "dirty (pop_task b) = dirty b" "pass_covers (pop_task b) = pass_covers b" "br_pass (pop_task b) = br_pass b"
    by (rule covered_cong; simp add: pop_task_def)+ (simp add: pop_task_def)
  moreover have "task_waits b \<Longrightarrow> task_waits (pop_task b)" using assms(2) by (auto simp: task_waits_def pop_task_def)
  moreover have "br_head (pop_task b) = Queued" by (simp add: pop_task_def)
  ultimately show ?thesis using assms(1) by (auto simp: edits_pending_def)
qed

lemma render_round_frame [simp]:
  "br_editor (render_round b) = br_editor b" "br_lane (render_round b) = br_lane b" "br_head (render_round b) = br_head b"
  "br_render (render_round b) = Some RenderReconciling" "br_callers (render_round b) = br_callers b"
  by (simp_all add: render_round_def)

lemma render_round_covered: "all_sent (render_round b)"
proof -
  have "all_sent (render_round b) = all_sent (reconcileTransaction (b\<lparr>br_renderRequested := False\<rparr>))"
    unfolding render_round_def by (rule covered_cong) simp_all
  then show ?thesis using reconcile_covered by blast
qed

lemma end_render_pending:
  assumes "edits_pending b"
  shows "edits_pending (end_render b)"
proof -
  have "dirty (b\<lparr>br_render := None\<rparr>) = dirty b" "pass_covers (b\<lparr>br_render := None\<rparr>) = pass_covers b"
    by (rule covered_cong; simp)+
  then have "edits_pending (b\<lparr>br_render := None\<rparr>)" using assms by (simp add: edits_pending_def task_waits_def)
  then show ?thesis using pop_pending [of "b\<lparr>br_render := None\<rparr>"] by (auto simp: end_render_def Let_def)
qed

lemma idle_pending: "\<not> dirty b \<Longrightarrow> br_pass b = None \<Longrightarrow> (br_lane b = [] \<Longrightarrow> br_head b = Queued) \<Longrightarrow> edits_pending b"
  by (simp add: edits_pending_def)

lemma pass_failed_pending:
  assumes "br_lane b = [] \<longrightarrow> br_head b = Queued"
  shows "edits_pending (pass_failed b)"
proof -
  let ?b1 = "b\<lparr>br_mode := FallbackMode, br_pass := None, br_requested := False\<rparr>"
  have 1: "edits_pending ?b1" using assms by (simp add: edits_pending_def dirty_def)
  then have "edits_pending (if br_head ?b1 = Reconciling then pop_task ?b1 else ?b1)"
    using pop_pending [OF 1] by simp
  then show ?thesis using end_render_pending by (auto simp: pass_failed_def Let_def)
qed

lemma finish_pass_pending:
  assumes "edits_pending b"
  shows "edits_pending (finish_pass eng cfg commits b)"
proof (cases "br_pass b")
  case None
  then show ?thesis using assms by (simp add: finish_pass_def)
next
  case (Some p)
  obtain w r where h: "handle eng cfg commits 0 (Reconcile (pa_ops p) (Some (pa_base p))) (br_worker b) = (w, r)"
    by fastforce
  have lane: "br_lane b = [] \<longrightarrow> br_head b = Queued" using assms by (simp add: edits_pending_def)
  show ?thesis
  proof (cases "\<exists>ops n view. r = Inr (RLocalOps ops n (Some view))")
    case True
    then obtain ops n view where r: "r = Inr (RLocalOps ops n (Some view))" by blast
    let ?b1 = "b\<lparr>br_worker := w, br_view := view, br_mode := CrdtMode (pa_blocks p)\<rparr>"
    show ?thesis
    proof (cases "br_requested b")
      case True
      then have "finish_pass eng cfg commits b = begin_pass (pa_blocks p) ?b1"
        using Some h r by (simp add: finish_pass_def)
      then show ?thesis using lane by (auto intro!: covered_pending [OF begin_pass_covered])
    next
      case False
      then have f: "finish_pass eng cfg commits b = ?b1\<lparr>br_pass := None\<rparr>"
        using Some h r by (simp add: finish_pass_def)
      have "task_waits b \<or> pa_blocks p = editor_blocks b"
        using assms Some False by (auto simp: edits_pending_def pass_covers_def)
      then show ?thesis using lane
        by (auto simp: f edits_pending_def dirty_def editor_blocks_def task_waits_def)
    qed
  next
    case False
    then have "finish_pass eng cfg commits b = pass_failed (b\<lparr>br_worker := w\<rparr>)"
      using Some h by (auto simp: finish_pass_def split: sum.splits WorkerResult.splits option.splits)
    then show ?thesis using pass_failed_pending [of "b\<lparr>br_worker := w\<rparr>"] lane by simp
  qed
qed

lemma frame_pending:
  assumes "edits_pending b" and "br_mode b' = br_mode b" "br_editor b' = br_editor b" "br_pass b' = br_pass b"
    "br_requested b' = br_requested b" "br_lane b' = br_lane b"
    "br_head b' = br_head b \<or> (br_head b \<noteq> Queued \<and> br_lane b \<noteq> [])"
  shows "edits_pending b'"
  using assms covered_cong [OF assms(2-5)] by (auto simp: edits_pending_def task_waits_def)

lemma show_view_clean:
  "\<not> dirty (show_view norm place blocks stream anchor caret b)"
  "br_pass (show_view norm place blocks stream anchor caret b) = br_pass b"
  "br_lane (show_view norm place blocks stream anchor caret b) = br_lane b"
  "br_head (show_view norm place blocks stream anchor caret b) = br_head b"
  by (auto simp: show_view_def restore_selection_def dirty_def editor_blocks_def Let_def
      split: option.splits AnchorResolution.splits)

lemma enter_render_pending:
  assumes p: "edits_pending b"
  shows "edits_pending (enter_render h b)"
proof -
  have lane: "br_lane b = [] \<longrightarrow> br_head b = Queued" using p by (simp add: edits_pending_def)
  have pop: "edits_pending (pop_task b)" "edits_pending (pop_task (b\<lparr>br_renderRequested := True\<rparr>))"
    if "br_head b = RenderPending"
    using that by (auto intro!: pop_pending frame_pending [OF p])
  have head: "edits_pending (render_round (b\<lparr>br_head := Rendering\<rparr>))" if "br_head b = RenderPending"
    using that lane by (intro covered_pending render_round_covered) auto
  have frame: "edits_pending (b\<lparr>br_callers := n\<rparr>)" "edits_pending (b\<lparr>br_callers := n, br_renderRequested := True\<rparr>)" for n
    by (auto intro!: frame_pending [OF p])
  have caller: "edits_pending (render_round (b\<lparr>br_callers := n\<rparr>))" for n
    using lane by (intro covered_pending render_round_covered) auto
  show ?thesis using p pop head frame caller by (simp add: enter_render_def Let_def)
qed

lemma finish_read_pending:
  assumes p: "edits_pending b"
  shows "edits_pending (finish_read eng cfg norm place b)"
proof (cases "\<exists>prior anchor caret. br_render b = Some (RenderReading prior anchor caret)")
  case True
  then obtain prior anchor caret where rd: "br_render b = Some (RenderReading prior anchor caret)" by blast
  obtain w r where h: "handle eng cfg True 0 ReadView (br_worker b) = (w, r)" by fastforce
  have lane: "br_lane b = [] \<longrightarrow> br_head b = Queued" using p by (simp add: edits_pending_def)
  let ?b1 = "b\<lparr>br_worker := w\<rparr>"
  have 1: "edits_pending ?b1" by (rule frame_pending [OF p]) auto
  have 2: "edits_pending (render_round ?b1)" using lane by (intro covered_pending render_round_covered) auto
  have 3: "edits_pending (render_round (show_view norm place blocks stream anchor caret ?b1))" for blocks stream
    using lane by (intro covered_pending render_round_covered) (auto simp: show_view_clean)
  have 4: "edits_pending (end_render (show_view norm place blocks stream anchor caret ?b1))" if "br_pass b = None"
    for blocks stream
    using lane that by (intro end_render_pending idle_pending) (auto simp: show_view_clean)
  show ?thesis
  proof (cases "\<exists>json stream. r = Inr (RReadView json stream)")
    case True
    then obtain json stream where r: "r = Inr (RReadView json stream)" by blast
    show ?thesis using 2 3 4 end_render_pending [OF 1]
      by (simp only: finish_read_def rd h r option.case RenderPc.case prod.case sum.case WorkerResult.case)
        (simp add: Let_def split: option.split BridgeMode.split)
  next
    case False
    then have "finish_read eng cfg norm place b = end_render ?b1"
      unfolding finish_read_def rd option.case RenderPc.case h by (cases r; cases "projr r") auto
    then show ?thesis using end_render_pending [OF 1] by simp
  qed
next
  case False
  then have "finish_read eng cfg norm place b = b"
    by (auto simp: finish_read_def split: option.splits RenderPc.splits)
  then show ?thesis using p by simp
qed

lemma step_pending:
  assumes p: "edits_pending b"
  shows "edits_pending (bridge_step eng cfg norm place act b)"
proof (cases act)
  case (UserEdit doc)
  then show ?thesis using p by (auto simp: bridge_step_def edits_pending_def task_waits_def)
next
  case (RemoteBatch ops cursor)
  have "dirty (b\<lparr>br_lane := l\<rparr>) = dirty b" "pass_covers (b\<lparr>br_lane := l\<rparr>) = pass_covers b" for l
    by (rule covered_cong; simp)+
  then show ?thesis using p RemoteBatch by (auto simp: bridge_step_def edits_pending_def task_waits_def)
next
  case BeginTask
  have "all_sent ((reconcileTransaction b)\<lparr>br_head := Reconciling\<rparr>) = all_sent (reconcileTransaction b)"
    by (rule covered_cong) simp_all
  then show ?thesis using BeginTask p reconcile_covered [of b]
    by (auto simp: bridge_step_def begin_task_def intro: covered_pending)
next
  case (FinishPass c)
  then show ?thesis using finish_pass_pending [OF p] by (simp add: bridge_step_def)
next
  case ContinueTask
  then show ?thesis using p pop_pending [OF p]
    by (auto simp: bridge_step_def continue_task_def intro!: frame_pending [OF p] split: list.splits Task.splits)
next
  case (FinishApply c)
  have "edits_pending (finish_apply eng cfg c b)"
  proof (cases "\<exists>ops cursor rest. br_lane b = RemoteOps ops cursor # rest \<and> br_head b = Applying")
    case True
    then obtain ops cursor rest where l: "br_lane b = RemoteOps ops cursor # rest" "br_head b = Applying" by blast
    obtain w r where h: "handle eng cfg c 0 (ApplyRemote ops cursor) (br_worker b) = (w, r)" by fastforce
    have 1: "edits_pending (b\<lparr>br_worker := w\<rparr>)" "edits_pending (b\<lparr>br_worker := w, br_head := RenderPending\<rparr>)"
      using l by (auto intro!: frame_pending [OF p])
    have 2: "edits_pending (pop_task (b\<lparr>br_worker := w\<rparr>))" using l by (intro pop_pending [OF 1(1)]) simp
    show ?thesis using l h 1 2
      by (cases r; cases "projr r") (auto simp: finish_apply_def)
  next
    case False
    then have "finish_apply eng cfg c b = b"
      by (auto simp: finish_apply_def split: list.splits Task.splits)
    then show ?thesis using p by simp
  qed
  then show ?thesis using FinishApply by (simp add: bridge_step_def)
next
  case (EnterRender h)
  then show ?thesis using enter_render_pending [OF p] by (simp add: bridge_step_def)
next
  case ReadViewStep
  then show ?thesis
    by (auto simp: bridge_step_def read_view_def Let_def intro!: frame_pending [OF p] p split: prod.splits)
next
  case RenderTimeout
  then show ?thesis using p end_render_pending [OF p]
    by (auto simp: bridge_step_def render_timeout_def split: option.splits RenderPc.splits)
next
  case FinishRead
  then show ?thesis using finish_read_pending [OF p] by (simp add: bridge_step_def)
qed (use p in \<open>auto simp: bridge_step_def intro!: frame_pending [OF p]\<close>)

section \<open>Runs\<close>

definition bridge_run ::
  "('e, 'x) EnginePort_scheme \<Rightarrow> WorkerConfig \<Rightarrow> (PmNode \<Rightarrow> PmNode) \<Rightarrow> (nat \<times> nat \<Rightarrow> nat \<times> nat) \<Rightarrow> Action list \<Rightarrow> 'e Bridge \<Rightarrow> 'e Bridge" where
  "bridge_run eng cfg norm place acts b = fold (bridge_step eng cfg norm place) acts b"

lemma bridge_run_simps [simp]:
  "bridge_run eng cfg norm place [] b = b"
  "bridge_run eng cfg norm place (act # acts) b = bridge_run eng cfg norm place acts (bridge_step eng cfg norm place act b)"
  by (simp_all add: bridge_run_def)

text \<open>A bridge that has started and has nothing to do.\<close>

definition at_rest :: "'e Bridge \<Rightarrow> bool" where
  "at_rest b \<longleftrightarrow> br_lane b = [] \<and> br_head b = Queued \<and> br_pass b = None \<and> br_render b = None
     \<and> br_mode b = CrdtMode (editor_blocks b)"

lemma rest_pending: "at_rest b \<Longrightarrow> edits_pending b"
  by (simp add: at_rest_def edits_pending_def dirty_def)

section \<open>The view shows what was reconciled\<close>

text \<open>
  \<open>clear_edit\<close>: the document the editor shows can be diffed against the view without touching the implicit first
  block. \<open>clear_read\<close>: the document a render shows is properly nested and TipTap keeps it as it is given; the
  schema may normalise orphaned list items and add a paragraph at the end, and the bridge then holds a view that
  differs from the editor until the next edit. \<open>shows_stream\<close>, the engine's contract: its visible document is what
  its stream shows.
\<close>

definition good_pass :: "CanonicalBlock list \<Rightarrow> CanonicalBlock list \<Rightarrow> StreamEntry list \<Rightarrow> bool" where
  "good_pass before after view \<longleftrightarrow> after \<noteq> [] \<and> list_all neat after \<and> anchored before after view"

definition clear_edit :: "'e Bridge \<Rightarrow> bool" where
  "clear_edit b \<longleftrightarrow> (case br_mode b of CrdtMode lastBlocks \<Rightarrow> good_pass lastBlocks (editor_blocks b) (br_view b) | _ \<Rightarrow> True)"

text \<open>A pass that was asked to repeat reads the editor when the reply comes.\<close>

definition clear_repeat :: "Action \<Rightarrow> 'e Bridge \<Rightarrow> 'e Bridge \<Rightarrow> bool" where
  "clear_repeat act b b' \<longleftrightarrow>
     (case (act, br_pass b, br_mode b') of
        (FinishPass _, Some p, CrdtMode _) \<Rightarrow>
          br_requested b \<longrightarrow> good_pass (pa_blocks p) (editor_blocks b) (br_view b')
      | _ \<Rightarrow> True)"

definition kept_document :: "(PmNode \<Rightarrow> PmNode) \<Rightarrow> CanonicalBlock list \<Rightarrow> bool" where
  "kept_document norm blocks \<longleftrightarrow> blocks \<noteq> [] \<and> outline [] blocks \<and> norm (blocksToPmDoc blocks) = blocksToPmDoc blocks"

definition clear_read ::
  "('e, 'x) EnginePort_scheme \<Rightarrow> WorkerConfig \<Rightarrow> (PmNode \<Rightarrow> PmNode) \<Rightarrow> Action \<Rightarrow> 'e Bridge \<Rightarrow> bool" where
  "clear_read eng cfg norm act b \<longleftrightarrow>
     (case (act, snd (handle eng cfg True 0 ReadView (br_worker b))) of
        (FinishRead, Inr (RReadView json stream)) \<Rightarrow>
          (case toCanonicalBlocks json of Some blocks \<Rightarrow> kept_document norm blocks | None \<Rightarrow> True)
      | _ \<Rightarrow> True)"

fun clear_run ::
  "('e, 'x) EnginePort_scheme \<Rightarrow> WorkerConfig \<Rightarrow> (PmNode \<Rightarrow> PmNode) \<Rightarrow> (nat \<times> nat \<Rightarrow> nat \<times> nat) \<Rightarrow> Action list \<Rightarrow> 'e Bridge \<Rightarrow> bool" where
  "clear_run eng cfg norm place [] b \<longleftrightarrow> True"
| "clear_run eng cfg norm place (act # acts) b \<longleftrightarrow>
     (let b' = bridge_step eng cfg norm place act b
      in clear_edit b \<and> clear_repeat act b b' \<and> clear_read eng cfg norm act b \<and> clear_run eng cfg norm place acts b')"

definition shows_stream :: "('e, 'x) EnginePort_scheme \<Rightarrow> bool" where
  "shows_stream eng \<longleftrightarrow>
     (\<forall>e blocks. toCanonicalBlocks (eng_visible eng e) = Some blocks \<longrightarrow> same_document (visible_document (eng_stream eng e)) blocks)"

definition view_inv :: "'e Bridge \<Rightarrow> bool" where
  "view_inv b \<longleftrightarrow>
     (case br_mode b of CrdtMode lastBlocks \<Rightarrow> same_document (visible_document (br_view b)) lastBlocks | _ \<Rightarrow> True)
   \<and> (case br_pass b of
        None \<Rightarrow> True
      | Some p \<Rightarrow>
          (case br_mode b of
             CrdtMode lastBlocks \<Rightarrow>
               pa_base p = br_view b \<and> pa_ops p = reconcile lastBlocks (pa_blocks p) (br_view b)
                 \<and> good_pass lastBlocks (pa_blocks p) (br_view b)
           | _ \<Rightarrow> False))"

lemma view_inv_cong:
  assumes "view_inv b" and "br_mode b' = br_mode b" "br_view b' = br_view b" "br_pass b' = br_pass b"
  shows "view_inv b'"
  using assms(1) unfolding view_inv_def assms(2-4) .

lemma same_document_refl: "same_document xs xs"
  by (simp add: same_document_def same_block_def same_char_def same_attrs_def list.rel_refl)

lemma begin_pass_view:
  assumes shows_last: "same_document (visible_document (br_view b)) lastBlocks" and mode: "br_mode b = CrdtMode lastBlocks"
    and "snd (pmDocToBlocks (br_editor b)) = [] \<Longrightarrow>
      lastBlocks = editor_blocks b \<or> good_pass lastBlocks (editor_blocks b) (br_view b)"
  shows "view_inv (begin_pass lastBlocks b)"
proof (cases "snd (pmDocToBlocks (br_editor b)) = []")
  case False
  then show ?thesis by (simp add: begin_pass_def view_inv_def Let_def)
next
  case True
  have empty: "same_document (visible_document (br_view b)) (editor_blocks b)"
    if "reconcile lastBlocks (editor_blocks b) (br_view b) = []"
  proof (cases "lastBlocks = editor_blocks b")
    case False
    then have "good_pass lastBlocks (editor_blocks b) (br_view b)" using assms(3) True by blast
    then have "same_document (visible_document (run_ops [] (br_view b))) (editor_blocks b)"
      using reconcile_shows [OF shows_last, of "editor_blocks b"] that by (simp add: good_pass_def list_all_iff)
    then show ?thesis by simp
  qed (use shows_last in simp)
  have "lastBlocks = editor_blocks b \<Longrightarrow> reconcile lastBlocks (editor_blocks b) (br_view b) = []"
    by (simp add: reconcile_same same_document_refl)
  then show ?thesis using assms empty True by (auto simp: begin_pass_def view_inv_def Let_def)
qed

lemma reconcile_view:
  assumes "view_inv b" and "dirty b \<Longrightarrow> clear_edit b"
  shows "view_inv (reconcileTransaction b)"
proof (cases "br_pass b = None")
  case True
  show ?thesis
  proof (cases "br_mode b")
    case (CrdtMode lastBlocks)
    then have "lastBlocks = editor_blocks b \<or> good_pass lastBlocks (editor_blocks b) (br_view b)"
      using assms(2) by (auto simp: dirty_def clear_edit_def)
    then show ?thesis
      using True CrdtMode assms(1) begin_pass_view [OF _ CrdtMode] by (simp add: reconcileTransaction_def view_inv_def)
  qed (use True assms(1) in \<open>simp_all add: reconcileTransaction_def\<close>)
next
  case False
  then show ?thesis using assms(1) by (auto simp: reconcileTransaction_def intro: view_inv_cong)
qed

lemma begin_pass_mode: "snd (pmDocToBlocks (br_editor b)) = [] \<Longrightarrow> br_mode b = CrdtMode l
    \<Longrightarrow> \<exists>bs. br_mode (begin_pass l b) = CrdtMode bs"
  by (simp add: begin_pass_def Let_def)

lemma begin_pass_keeps_view [simp]: "br_view (begin_pass l b) = br_view b"
  by (simp add: begin_pass_def Let_def)

lemma off_view: "br_mode b = FallbackMode \<Longrightarrow> br_pass b = None \<Longrightarrow> view_inv b"
  by (simp add: view_inv_def)

lemma pass_failed_view: "view_inv (pass_failed b)"
  by (rule off_view) (simp_all add: pass_failed_def end_render_def pop_task_def Let_def)

lemma finish_pass_view:
  assumes inv: "view_inv b" and "clear_repeat (FinishPass commits) b (finish_pass eng cfg commits b)"
  shows "view_inv (finish_pass eng cfg commits b)"
proof (cases "br_pass b")
  case None
  then show ?thesis using inv by (simp add: finish_pass_def)
next
  case (Some p)
  obtain w r where h: "handle eng cfg commits 0 (Reconcile (pa_ops p) (Some (pa_base p))) (br_worker b) = (w, r)"
    by fastforce
  show ?thesis
  proof (cases "\<exists>ops n view. r = Inr (RLocalOps ops n (Some view))")
    case True
    then obtain ops n view where r: "r = Inr (RLocalOps ops n (Some view))" by blast
    obtain lastBlocks where m: "br_mode b = CrdtMode lastBlocks"
      using inv Some by (auto simp: view_inv_def split: BridgeMode.splits)
    then have p: "same_document (visible_document (br_view b)) lastBlocks" "pa_base p = br_view b"
      "pa_ops p = reconcile lastBlocks (pa_blocks p) (br_view b)" "good_pass lastBlocks (pa_blocks p) (br_view b)"
      using inv Some by (simp_all add: view_inv_def)
    have sent: "same_document (visible_document view) (pa_blocks p)"
      using edit_reaches_view [OF p(1), of "pa_blocks p" eng cfg commits 0 "br_worker b" w ops n view] p h r
      by (simp add: good_pass_def list_all_iff)
    let ?b1 = "b\<lparr>br_worker := w, br_view := view, br_mode := CrdtMode (pa_blocks p)\<rparr>"
    show ?thesis
    proof (cases "br_requested b")
      case True
      then have f: "finish_pass eng cfg commits b = begin_pass (pa_blocks p) ?b1"
        using Some h r by (simp add: finish_pass_def)
      have "good_pass (pa_blocks p) (editor_blocks ?b1) (br_view ?b1)"
        if ok: "snd (pmDocToBlocks (br_editor ?b1)) = []"
      proof -
        obtain bs where "br_mode (begin_pass (pa_blocks p) ?b1) = CrdtMode bs" using begin_pass_mode [OF ok] by auto
        then show ?thesis using assms(2) True Some by (simp add: clear_repeat_def f editor_blocks_def)
      qed
      then show ?thesis unfolding f using sent by (intro begin_pass_view) auto
    next
      case False
      then have "finish_pass eng cfg commits b = ?b1\<lparr>br_pass := None\<rparr>"
        using Some h r by (simp add: finish_pass_def)
      then show ?thesis using sent by (simp add: view_inv_def)
    qed
  next
    case False
    then have "finish_pass eng cfg commits b = pass_failed (b\<lparr>br_worker := w\<rparr>)"
      using Some h by (auto simp: finish_pass_def split: sum.splits WorkerResult.splits option.splits)
    then show ?thesis by (simp add: pass_failed_view)
  qed
qed

lemma render_round_view:
  assumes "view_inv b" and "dirty b \<Longrightarrow> clear_edit b"
  shows "view_inv (render_round b)"
proof -
  let ?b = "b\<lparr>br_renderRequested := False\<rparr>"
  have "view_inv ?b" by (rule view_inv_cong [OF assms(1)]) simp_all
  moreover have "dirty ?b \<Longrightarrow> clear_edit ?b"
    using assms(2) by (cases "br_mode b") (simp_all add: dirty_def clear_edit_def editor_blocks_def)
  ultimately have "view_inv (reconcileTransaction ?b)" by (rule reconcile_view)
  then show ?thesis unfolding render_round_def by (rule view_inv_cong) simp_all
qed

lemma pop_view: "view_inv b \<Longrightarrow> view_inv (pop_task b)"
  by (erule view_inv_cong) (simp_all add: pop_task_def)

lemma end_render_view: "view_inv b \<Longrightarrow> view_inv (end_render b)"
  by (erule view_inv_cong) (simp_all add: end_render_def pop_task_def Let_def)

lemma read_answer:
  assumes "handle eng cfg True 0 ReadView w = (w', Inr (RReadView json stream))"
  obtains e where "json = eng_visible eng e" "stream = eng_stream eng e"
  using assms by (auto simp: query_def split: prod.splits sum.splits)

lemma same_document_sym: "same_document xs ys \<Longrightarrow> same_document ys xs"
  by (auto simp: same_document_def same_block_def same_attrs_def same_char_def list_all2_conv_all_nth)

lemma same_document_trans: "same_document xs ys \<Longrightarrow> same_document ys zs \<Longrightarrow> same_document xs zs"
  by (auto simp: same_document_def same_block_def same_attrs_def same_char_def list_all2_conv_all_nth)

lemma shown_view:
  assumes "shows_stream eng" and "kept_document norm blocks" and "toCanonicalBlocks json = Some blocks"
    and "json = eng_visible eng e" "stream = eng_stream eng e" and "br_pass b = None"
  shows "view_inv (show_view norm place blocks stream anchor caret b)"
proof -
  have "same_document (visible_document stream) blocks" using assms(1,3-5) by (simp add: shows_stream_def)
  moreover have "same_document blocks (fst (pmDocToBlocks (norm (blocksToPmDoc blocks))))"
    using assms(2) rendered_reads [of blocks] same_document_sym by (auto simp: kept_document_def)
  ultimately have "same_document (visible_document stream) (fst (pmDocToBlocks (norm (blocksToPmDoc blocks))))"
    by (rule same_document_trans)
  then show ?thesis using assms(6)
    by (auto simp: view_inv_def show_view_def restore_selection_def Let_def
        split: option.split AnchorResolution.split prod.split)
qed

lemma finish_read_view:
  assumes inv: "view_inv b" and "clear_edit b" and "shows_stream eng" and "clear_read eng cfg norm FinishRead b"
  shows "view_inv (finish_read eng cfg norm place b)"
proof (cases "\<exists>prior anchor caret. br_render b = Some (RenderReading prior anchor caret)")
  case True
  then obtain prior anchor caret where rd: "br_render b = Some (RenderReading prior anchor caret)" by blast
  obtain w r where h: "handle eng cfg True 0 ReadView (br_worker b) = (w, r)" by fastforce
  let ?b1 = "b\<lparr>br_worker := w\<rparr>"
  have 1: "view_inv ?b1" by (rule view_inv_cong [OF inv]) simp_all
  have "clear_edit ?b1" using assms(2) by (cases "br_mode b") (simp_all add: clear_edit_def editor_blocks_def)
  then have 2: "view_inv (render_round ?b1)" by (rule render_round_view [OF 1])
  show ?thesis
  proof (cases "\<exists>json stream. r = Inr (RReadView json stream)")
    case True
    then obtain json stream where r: "r = Inr (RReadView json stream)" by blast
    obtain e where e: "json = eng_visible eng e" "stream = eng_stream eng e" by (rule read_answer [OF h [unfolded r]])
    have 3: "view_inv (show_view norm place blocks stream anchor caret ?b1)"
      if "toCanonicalBlocks json = Some blocks" "br_pass b = None" for blocks
    proof (rule shown_view [OF assms(3) _ that(1) e])
      show "kept_document norm blocks"
        using assms(4) unfolding clear_read_def h r by (simp add: that(1))
    qed (simp add: that(2))
    then have "view_inv (render_round (show_view norm place blocks stream anchor caret ?b1))"
      if "toCanonicalBlocks json = Some blocks" "br_pass b = None" for blocks
      using that by (intro render_round_view) (simp_all add: show_view_clean)
    then show ?thesis using 2 3 end_render_view [OF 1]
      by (simp only: finish_read_def rd h r option.case RenderPc.case prod.case sum.case WorkerResult.case)
        (simp add: Let_def end_render_view split: option.split BridgeMode.split)
  next
    case False
    then have "finish_read eng cfg norm place b = end_render ?b1"
      unfolding finish_read_def rd option.case RenderPc.case h by (cases r; cases "projr r") auto
    then show ?thesis using end_render_view [OF 1] by simp
  qed
next
  case False
  then have "finish_read eng cfg norm place b = b"
    by (auto simp: finish_read_def split: option.splits RenderPc.splits)
  then show ?thesis using inv by simp
qed

lemma enter_render_view:
  assumes inv: "view_inv b" and "clear_edit b"
  shows "view_inv (enter_render h b)"
proof -
  have "view_inv (b\<lparr>br_head := x\<rparr>)" "view_inv (b\<lparr>br_callers := n\<rparr>)" for x n
    by (rule view_inv_cong [OF inv]; simp)+
  moreover have "clear_edit (b\<lparr>br_head := x\<rparr>)" "clear_edit (b\<lparr>br_callers := n\<rparr>)" for x n
    using assms(2) by (cases "br_mode b"; simp add: clear_edit_def editor_blocks_def)+
  ultimately have "view_inv (render_round (b\<lparr>br_head := x\<rparr>))" "view_inv (render_round (b\<lparr>br_callers := n\<rparr>))" for x n
    by (auto intro: render_round_view)
  moreover have "view_inv (pop_task (b\<lparr>br_renderRequested := True\<rparr>))" "view_inv (pop_task b)"
    "view_inv (b\<lparr>br_callers := n\<rparr>)" "view_inv (b\<lparr>br_callers := n, br_renderRequested := True\<rparr>)" for n
    by (rule view_inv_cong [OF inv]; simp add: pop_task_def)+
  ultimately show ?thesis using inv by (simp add: enter_render_def Let_def)
qed

lemma step_view:
  assumes inv: "view_inv b" and clear: "clear_edit b" "clear_repeat act b (bridge_step eng cfg norm place act b)"
    and "shows_stream eng" and "clear_read eng cfg norm act b"
  shows "view_inv (bridge_step eng cfg norm place act b)"
proof (cases act)
  case BeginTask
  have "view_inv ((reconcileTransaction b)\<lparr>br_head := Reconciling\<rparr>)"
    by (rule view_inv_cong [OF reconcile_view [OF inv clear(1)]]) simp_all
  then show ?thesis using BeginTask inv by (simp add: bridge_step_def begin_task_def)
next
  case (FinishPass c)
  then show ?thesis using finish_pass_view [OF inv] clear(2) by (simp add: bridge_step_def)
next
  case (EnterRender h)
  then show ?thesis using enter_render_view [OF inv clear(1)] by (simp add: bridge_step_def)
next
  case FinishRead
  then show ?thesis using finish_read_view [OF inv clear(1) assms(4)] assms(5) by (simp add: bridge_step_def)
next
  case ContinueTask
  then show ?thesis using inv
    by (auto simp: bridge_step_def continue_task_def pop_view intro: view_inv_cong [OF inv] split: list.split Task.split)
next
  case (FinishApply c)
  have "view_inv (b\<lparr>br_worker := w\<rparr>)" "view_inv (b\<lparr>br_worker := w, br_head := x\<rparr>)"
    "view_inv (pop_task (b\<lparr>br_worker := w\<rparr>))" for w x
    by (rule view_inv_cong [OF inv]; simp add: pop_task_def)+
  then show ?thesis using FinishApply inv
    by (simp add: bridge_step_def finish_apply_def split: list.split Task.split prod.split sum.split WorkerResult.split)
next
  case ReadViewStep
  then show ?thesis
    by (auto simp: bridge_step_def read_view_def Let_def intro: view_inv_cong [OF inv] inv split: prod.split)
next
  case RenderTimeout
  then show ?thesis using inv end_render_view [OF inv]
    by (simp add: bridge_step_def render_timeout_def split: option.split RenderPc.split)
qed (auto simp: bridge_step_def intro: view_inv_cong [OF inv])

section \<open>At rest\<close>

lemma run_pending: "edits_pending b \<Longrightarrow> edits_pending (bridge_run eng cfg norm place acts b)"
  by (induction acts arbitrary: b) (simp_all add: step_pending)

lemma run_view:
  assumes "view_inv b" and "clear_run eng cfg norm place acts b" and "shows_stream eng"
  shows "view_inv (bridge_run eng cfg norm place acts b)"
  using assms
proof (induction acts arbitrary: b)
  case (Cons act acts)
  then have "view_inv (bridge_step eng cfg norm place act b)"
    by (intro step_view) (simp_all add: Let_def)
  then show ?case using Cons.IH Cons.prems(2,3) by (simp add: Let_def)
qed simp


section \<open>A render does not overwrite an edit\<close>

text \<open>
  The restriction: no edit while a render reconciles (see \<open>edit_overwritten\<close> below), none that takes the document
  back to what it was when the render in flight read it.
\<close>

fun quiet_run ::
  "('e, 'x) EnginePort_scheme \<Rightarrow> WorkerConfig \<Rightarrow> (PmNode \<Rightarrow> PmNode) \<Rightarrow> (nat \<times> nat \<Rightarrow> nat \<times> nat) \<Rightarrow> Action list \<Rightarrow> 'e Bridge \<Rightarrow> bool" where
  "quiet_run eng cfg norm place [] b \<longleftrightarrow> True"
| "quiet_run eng cfg norm place (act # acts) b \<longleftrightarrow>
     (case (act, br_render b) of
        (UserEdit doc, Some RenderReconciling) \<Rightarrow> False
      | (UserEdit doc, Some (RenderReading prior _ _)) \<Rightarrow> doc \<noteq> prior
      | _ \<Rightarrow> True)
     \<and> quiet_run eng cfg norm place acts (bridge_step eng cfg norm place act b)"

definition render_inv :: "'e Bridge \<Rightarrow> bool" where
  "render_inv b \<longleftrightarrow>
     (case br_render b of
        None \<Rightarrow> True
      | Some RenderReconciling \<Rightarrow> all_sent b
      | Some (RenderReading prior _ _) \<Rightarrow> br_editor b = prior \<longrightarrow> all_sent b)"

lemma render_inv_cong:
  assumes "render_inv b" and "br_mode b' = br_mode b" "br_editor b' = br_editor b" "br_pass b' = br_pass b"
    "br_requested b' = br_requested b" and "br_render b' = br_render b \<or> br_render b' = None"
  shows "render_inv b'"
  using assms(1,3,6) covered_cong(3) [OF assms(2-5)] by (auto simp: render_inv_def split: option.splits RenderPc.splits)

lemma covered_inv: "all_sent b \<Longrightarrow> render_inv b"
  by (simp add: render_inv_def split: option.split RenderPc.split)

lemma render_round_inv: "render_inv (render_round b)"
  by (simp add: covered_inv render_round_covered)

lemma end_render_inv: "render_inv (end_render b)"
  by (simp add: render_inv_def end_render_def pop_task_def Let_def)

lemma pop_inv: "render_inv b \<Longrightarrow> render_inv (pop_task b)"
  by (erule render_inv_cong) (simp_all add: pop_task_def)

lemma pass_failed_covered: "all_sent (pass_failed b)"
  by (simp add: all_sent_def dirty_def pass_failed_def end_render_def pop_task_def Let_def)

lemma finish_pass_frame:
  "br_editor (finish_pass eng cfg commits b) = br_editor b"
  "br_render (finish_pass eng cfg commits b) = br_render b \<or> br_render (finish_pass eng cfg commits b) = None"
  by (auto simp: finish_pass_def pass_failed_def end_render_def pop_task_def Let_def
      split: option.split prod.split sum.split WorkerResult.split)

lemma finish_pass_covered:
  assumes "all_sent b"
  shows "all_sent (finish_pass eng cfg commits b)"
proof (cases "br_pass b")
  case None
  then show ?thesis using assms by (simp add: finish_pass_def)
next
  case (Some p)
  then have "pa_blocks p = editor_blocks b \<or> br_requested b" using assms by (simp add: all_sent_def pass_covers_def)
  then have "all_sent (b\<lparr>br_worker := w, br_view := view, br_mode := CrdtMode (pa_blocks p), br_pass := None\<rparr>)"
    if "\<not> br_requested b" for w view
    using that by (simp add: all_sent_def dirty_def editor_blocks_def)
  then show ?thesis using Some
    by (simp add: finish_pass_def begin_pass_covered pass_failed_covered Let_def split: prod.split sum.split WorkerResult.split option.split)
qed

lemma finish_pass_inv:
  assumes "render_inv b"
  shows "render_inv (finish_pass eng cfg commits b)"
  using assms finish_pass_frame [of eng cfg commits b] finish_pass_covered [of b eng cfg commits]
  by (auto simp: render_inv_def split: option.splits RenderPc.splits)

lemma finish_read_inv:
  assumes inv: "render_inv b"
  shows "render_inv (finish_read eng cfg norm place b)"
proof (cases "\<exists>prior anchor caret. br_render b = Some (RenderReading prior anchor caret)")
  case True
  then obtain prior anchor caret where rd: "br_render b = Some (RenderReading prior anchor caret)" by blast
  then show ?thesis
    by (simp add: finish_read_def render_round_inv end_render_inv Let_def
        split: prod.split sum.split WorkerResult.split option.split BridgeMode.split)
next
  case False
  then have "finish_read eng cfg norm place b = b"
    by (auto simp: finish_read_def split: option.splits RenderPc.splits)
  then show ?thesis using inv by simp
qed

lemma enter_render_inv:
  assumes inv: "render_inv b"
  shows "render_inv (enter_render h b)"
proof -
  have "render_inv (pop_task (b\<lparr>br_renderRequested := True\<rparr>))" "render_inv (pop_task b)"
    "render_inv (b\<lparr>br_callers := n\<rparr>)" "render_inv (b\<lparr>br_callers := n, br_renderRequested := True\<rparr>)" for n
    by (rule render_inv_cong [OF inv]; simp add: pop_task_def)+
  then show ?thesis using inv by (simp add: enter_render_def render_round_inv Let_def)
qed

lemma reconcile_inv: "render_inv b \<Longrightarrow> render_inv (reconcileTransaction b)"
  using reconcile_covered [of b] by (simp add: render_inv_def split: option.splits RenderPc.splits)

lemma step_render:
  assumes inv: "render_inv b" and quiet: "quiet_run eng cfg norm place [act] b"
  shows "render_inv (bridge_step eng cfg norm place act b)"
proof (cases act)
  case (UserEdit doc)
  then show ?thesis using quiet by (auto simp: bridge_step_def render_inv_def split: option.splits RenderPc.splits)
next
  case BeginTask
  have "render_inv ((reconcileTransaction b)\<lparr>br_head := Reconciling\<rparr>)"
    by (rule render_inv_cong [OF reconcile_inv [OF inv]]) simp_all
  then show ?thesis using BeginTask inv by (simp add: bridge_step_def begin_task_def)
next
  case (FinishPass c)
  then show ?thesis using finish_pass_inv [OF inv] by (simp add: bridge_step_def)
next
  case (EnterRender h)
  then show ?thesis using enter_render_inv [OF inv] by (simp add: bridge_step_def)
next
  case FinishRead
  then show ?thesis using finish_read_inv [OF inv] by (simp add: bridge_step_def)
next
  case ContinueTask
  then show ?thesis using inv
    by (auto simp: bridge_step_def continue_task_def pop_inv intro: render_inv_cong [OF inv] split: list.split Task.split)
next
  case (FinishApply c)
  have "render_inv (b\<lparr>br_worker := w\<rparr>)" "render_inv (b\<lparr>br_worker := w, br_head := x\<rparr>)"
    "render_inv (pop_task (b\<lparr>br_worker := w\<rparr>))" for w x
    by (rule render_inv_cong [OF inv]; simp add: pop_task_def)+
  then show ?thesis using FinishApply inv
    by (simp add: bridge_step_def finish_apply_def split: list.split Task.split prod.split sum.split WorkerResult.split)
next
  case ReadViewStep
  have "all_sent (b\<lparr>br_render := x\<rparr>) = all_sent b" for x by (rule covered_cong) simp_all
  then show ?thesis using ReadViewStep inv
    by (auto simp: bridge_step_def read_view_def render_inv_def Let_def split: prod.split)
next
  case RenderTimeout
  then show ?thesis using inv
    by (simp add: bridge_step_def render_timeout_def end_render_inv split: option.split RenderPc.split)
qed (auto simp: bridge_step_def intro: render_inv_cong [OF inv])

lemma run_render: "render_inv b \<Longrightarrow> quiet_run eng cfg norm place acts b \<Longrightarrow> render_inv (bridge_run eng cfg norm place acts b)"
proof (induction acts arbitrary: b)
  case (Cons act acts)
  then have "render_inv (bridge_step eng cfg norm place act b)" by (intro step_render) simp_all
  then show ?case using Cons by simp
qed simp

text \<open>
  C16: in such a run the answer to a render's read replaces the document only when every edit made before it has
  been reconciled.
\<close>

theorem render_keeps_edits:
  assumes "at_rest b0" and "quiet_run eng cfg norm place acts b0" and "b = bridge_run eng cfg norm place acts b0"
    and "br_editor (finish_read eng cfg norm place b) \<noteq> br_editor b"
  shows "br_mode b = CrdtMode (editor_blocks b)"
proof -
  have "render_inv b0" using assms(1) by (simp add: at_rest_def render_inv_def)
  then have inv: "render_inv b" using run_render assms(2,3) by blast
  obtain prior anchor caret where rd: "br_render b = Some (RenderReading prior anchor caret)"
    using assms(4) by (auto simp: finish_read_def split: option.splits RenderPc.splits)
  have keep: "br_editor (end_render b') = br_editor b'" for b' :: "'a Bridge"
    by (simp add: end_render_def pop_task_def Let_def)
  have now: "br_editor b = prior" "br_pass b = None"
    using assms(4) by (auto simp: finish_read_def rd keep Let_def split: prod.splits sum.splits WorkerResult.splits if_splits)
  have mode: "\<exists>bs. br_mode b = CrdtMode bs"
    using assms(4) by (cases "br_mode b")
      (auto simp: finish_read_def rd keep now Let_def split: prod.splits sum.splits WorkerResult.splits option.splits if_splits)
  have "\<not> dirty b" using inv now by (auto simp: render_inv_def rd all_sent_def pass_covers_def)
  then show ?thesis using mode by (auto simp: dirty_def)
qed

text \<open>
  Without the restriction: whatever is typed while a render of the lane's task waits for the worker to take the
  previous edit is overwritten by the render and never sent. The transaction of that edit waits behind the render.
\<close>

lemma edit_overwritten:
  assumes "br_render b = Some RenderReconciling" "br_head b = Rendering" "br_lane b \<noteq> []"
    and "br_pass b = Some p" "\<not> br_requested b" "\<not> br_renderRequested b"
    and "handle eng cfg commits 0 (Reconcile (pa_ops p) (Some (pa_base p))) (br_worker b)
      = (w, Inr (RLocalOps ops n (Some view)))"
    and "handle eng cfg True 0 ReadView w = (w', Inr (RReadView json stream))" "toCanonicalBlocks json = Some blocks"
    and "b' = bridge_run eng cfg norm place [UserEdit doc, FinishPass commits, ReadViewStep, FinishRead] b"
  shows "br_editor b' = norm (blocksToPmDoc blocks) \<and> \<not> dirty b' \<and> br_pass b' = None"
proof -
  define b1 where "b1 = b\<lparr>br_editor := doc, br_lane := br_lane b @ [LocalTransaction], br_worker := w, br_view := view,
    br_mode := CrdtMode (pa_blocks p), br_pass := None\<rparr>"
  have 1: "bridge_run eng cfg norm place [UserEdit doc, FinishPass commits] b = b1"
    using assms(4,5,7) by (simp add: bridge_step_def finish_pass_def b1_def)
  obtain f t where sel: "br_selection b = (f, t)" by fastforce
  define caret where "caret = (f = t)"
  define anchor where "anchor = anchorSelection doc view (if f = t then max 0 (int f - 1) else int f) (int t)"
  have 2: "read_view b1 = b1\<lparr>br_render := Some (RenderReading doc anchor caret)\<rparr>"
    using assms(1) by (simp add: read_view_def b1_def sel anchor_def caret_def Let_def)
  let ?b2 = "b1\<lparr>br_render := Some (RenderReading doc anchor caret)\<rparr>"
  have w: "br_worker ?b2 = w" by (simp add: b1_def)
  have "finish_read eng cfg norm place ?b2
      = end_render (show_view norm place blocks stream anchor caret (?b2\<lparr>br_worker := w'\<rparr>))"
    unfolding finish_read_def using assms(6,8,9) w by (simp add: b1_def)
  then have b': "b' = end_render (show_view norm place blocks stream anchor caret (?b2\<lparr>br_worker := w'\<rparr>))"
    using assms(10) 1 2 by (simp add: bridge_step_def)
  let ?v = "show_view norm place blocks stream anchor caret (?b2\<lparr>br_worker := w'\<rparr>)"
  have "br_editor ?v = norm (blocksToPmDoc blocks)"
    by (auto simp: show_view_def restore_selection_def Let_def split: option.split AnchorResolution.split prod.split)
  moreover have "dirty (end_render ?v) = dirty ?v"
    by (rule covered_cong) (simp_all add: end_render_def pop_task_def Let_def)
  moreover have "br_editor (end_render ?v) = br_editor ?v" "br_pass (end_render ?v) = br_pass ?v"
    by (simp_all add: end_render_def pop_task_def Let_def)
  ultimately show ?thesis unfolding b' by (simp add: show_view_clean b1_def)
qed

section \<open>Witnesses\<close>

definition letter_json :: json where
  "letter_json =
     JObj [(''blocks'', JArr [JObj [(''type'', JStr ''paragraph''), (''attrs'', JObj []),
        (''runs'', JArr [JObj [(''t'', JStr ''b''), (''m'', JObj [])]])]])]"

text \<open>An engine whose replica always shows the letter b.\<close>

definition letter_engine :: "bytes EnginePort" where
  "letter_engine = echo_engine\<lparr>eng_visible := (\<lambda>e. json_stringify letter_json), eng_stream := (\<lambda>e. [text_entry 98])\<rparr>"

definition editor_doc :: "nat list \<Rightarrow> PmNode" where
  "editor_doc cs = blocksToPmDoc [plain_block cs]"

definition idle_bridge :: "bytes Bridge" where
  "idle_bridge =
     \<lparr>br_mode = CrdtMode [paragraph_block], br_view = [], br_editor = editor_doc [], br_selection = (1, 1),
      br_worker = fresh_worker empty_idb, br_pass = None, br_requested = False, br_render = None,
      br_renderRequested = False, br_callers = 0, br_lane = [], br_head = Queued\<rparr>"

lemma letter_blocks: "toCanonicalBlocks (json_stringify letter_json) = Some [plain_block [98]]"
proof -
  have "json_parse (json_stringify letter_json) = Some letter_json"
    by (rule json_parse_stringify) (simp add: letter_json_def)
  then show ?thesis
    by (simp add: toCanonicalBlocks_def letter_json_def json_field_def canonical_block_def string_field_def
        string_record_def run_chars_def plain_block_def paragraph_block_def)
qed

lemma editor_doc_blocks: "pmDocToBlocks (editor_doc []) = ([paragraph_block], [])"
  "pmDocToBlocks (editor_doc [97]) = ([plain_block [97]], [])"
  "pmDocToBlocks (editor_doc [98]) = ([plain_block [98]], [])"
  by code_simp+

lemma idle_at_rest: "at_rest idle_bridge" "same_document (visible_document (br_view idle_bridge)) (editor_blocks idle_bridge)"
  by (simp_all add: at_rest_def idle_bridge_def editor_blocks_def editor_doc_blocks visible_document_def same_document_refl)

lemma sample_edit: "reconcile [paragraph_block] [plain_block [97]] [] = [insertText_op 0 97]"
  by code_simp

text \<open>An engine that keeps the letters typed; a TipTap that ends every document with a paragraph.\<close>

definition letters_json :: "bytes \<Rightarrow> json" where
  "letters_json e =
     JObj [(''blocks'', JArr [JObj [(''type'', JStr ''paragraph''), (''attrs'', JObj []),
        (''runs'', JArr [JObj [(''t'', JStr (map (\<lambda>b. char_of (unat b)) e)), (''m'', JObj [])]])]])]"

definition typewriter :: "bytes EnginePort" where
  "typewriter = echo_engine\<lparr>eng_insertText := (\<lambda>i cp e. (take i e @ [word_of_nat cp] @ drop i e, Some (replicate 26 1))),
     eng_visible := (\<lambda>e. json_stringify (letters_json e)), eng_stream := map (\<lambda>b. text_entry (unat b))\<rparr>"

definition end_paragraph :: "PmNode \<Rightarrow> PmNode" where
  "end_paragraph d =
     (if nd_content d \<noteq> [] \<and> nd_type (last (nd_content d)) = ''paragraph'' then d
      else PmNode (nd_type d) (nd_attrs d) (nd_content d @ [PmNode ''paragraph'' [] [] [] []]) (nd_text d) (nd_marks d))"

lemma letters_blocks: "toCanonicalBlocks (json_stringify (letters_json e)) = Some [plain_block (map unat e)]"
proof -
  have "json_parse (json_stringify (letters_json e)) = Some (letters_json e)"
    by (rule json_parse_stringify) (simp add: letters_json_def)
  moreover have "unat (b :: byte) < 256" for b using unsigned_less [of b] by simp
  ultimately show ?thesis
    by (simp add: toCanonicalBlocks_def letters_json_def json_field_def canonical_block_def string_field_def
        string_record_def run_chars_def plain_block_def paragraph_block_def)
qed

lemma visible_letters:
  "foldl visible_step (bs @ [plain_block xs]) (map (\<lambda>b. text_entry (unat b)) e) = bs @ [plain_block (xs @ map unat e)]"
proof (induction e arbitrary: xs)
  case (Cons b e)
  have "visible_step (bs @ [plain_block xs]) (text_entry (unat b)) = bs @ [plain_block (xs @ [unat b])]"
    by (simp add: visible_step_def visible_char_def text_entry_def plain_block_def)
  then show ?case using Cons.IH [of "xs @ [unat b]"] by simp
qed simp

lemma typewriter_shows: "shows_stream typewriter"
proof -
  have "visible_document (map (\<lambda>b. text_entry (unat b)) e) = [plain_block (map unat e)]" for e :: bytes
  proof (cases e)
    case (Cons b r)
    have "visible_step [] (text_entry (unat b)) = [plain_block [unat b]]"
      by (simp add: visible_step_def visible_char_def text_entry_def plain_block_def paragraph_block_def)
    then show ?thesis using visible_letters [of "[]" "[unat b]" r] Cons by (simp add: visible_document_def)
  qed (simp add: visible_document_def plain_block_def paragraph_block_def)
  then show ?thesis by (simp add: shows_stream_def typewriter_def letters_blocks same_document_refl)
qed

lemma typed_kept: "kept_document end_paragraph [plain_block [97]]"
proof -
  have "end_paragraph (blocksToPmDoc [plain_block [97]]) = blocksToPmDoc [plain_block [97]]" by code_simp
  moreover have "plain_ok (plain_block [97])"
    by (simp add: plain_ok_def content_ok_def canonical_marks_def plain_block_def paragraph_block_def)
  ultimately show ?thesis by (simp add: kept_document_def)
qed

lemma sample_worker:
  "\<exists>w' ops n view. handle typewriter sample_cfg True 0 (Reconcile [insertText_op 0 97] (Some [])) (fresh_worker empty_idb)
      = (w', Inr (RLocalOps ops n (Some view)))
    \<and> handle typewriter sample_cfg True 0 ReadView w' = (w', Inr (RReadView (json_stringify (letters_json [97])) [text_entry 97]))"
  by (simp add: handle_reconcile_def sample_cfg_def fresh_worker_def ensureEngine_def restore_def typewriter_def
      echo_engine_def pack_engine_def empty_idb_def storageId_def get_or_def loadLocalState_def rows_of_def
      replayAndRestoreAllocation_def rebase_index_def base_target_def insertText_op_def is_insert_def
      generate_op_def must_def readOpIdentity_def appendOrReset_def append_single query_def)

lemma typing_is_clear: "good_pass [paragraph_block] [plain_block [97]] []"
  by (simp add: good_pass_def neat_def plain_block_def paragraph_block_def anchored_def matched_suffix_def
      matched_prefix_def block_eq_def common_suffix_def scalars_def)

lemma typed_is_clear: "good_pass [plain_block [97]] [plain_block [97]] view"
  by (simp add: good_pass_def neat_def plain_block_def paragraph_block_def anchored_def matched_suffix_def
      matched_prefix_def block_eq_def same_scalar_def common_suffix_def scalars_def)

text \<open>A letter is typed and taken by the worker; then a render reads it back and shows it.\<close>

definition typing :: "Action list" where
  "typing = [UserEdit (editor_doc [97]), BeginTask, FinishPass True, ContinueTask, RenderCall, EnterRender False, ReadViewStep,
     FinishRead]"


definition reading :: "Action list" where
  "reading = [RenderCall, EnterRender False, ReadViewStep]"

lemma idle_render_enters:
  "bridge_step letter_engine sample_cfg (\<lambda>d. d) (\<lambda>s. s) (EnterRender False)
      (bridge_step letter_engine sample_cfg (\<lambda>d. d) (\<lambda>s. s) RenderCall idle_bridge)
    = idle_bridge\<lparr>br_render := Some RenderReconciling\<rparr>"
  by (simp add: bridge_step_def enter_render_def render_round_def reconcileTransaction_def begin_pass_def
      idle_bridge_def editor_blocks_def editor_doc_blocks reconcile_same same_document_refl)

lemma idle_render_reads:
  "\<exists>anchor. bridge_step letter_engine sample_cfg (\<lambda>d. d) (\<lambda>s. s) ReadViewStep (idle_bridge\<lparr>br_render := Some RenderReconciling\<rparr>)
    = idle_bridge\<lparr>br_render := Some (RenderReading (editor_doc []) anchor True)\<rparr>"
  by (simp add: bridge_step_def read_view_def idle_bridge_def)

theorem render_keeps_edits_witness:
  "\<exists>b. b = bridge_run letter_engine sample_cfg (\<lambda>d. d) (\<lambda>s. s) reading idle_bridge
     \<and> br_editor (finish_read letter_engine sample_cfg (\<lambda>d. d) (\<lambda>s. s) b) \<noteq> br_editor b
     \<and> br_mode b = CrdtMode (editor_blocks b)"
proof -
  define b1 where "b1 = idle_bridge\<lparr>br_render := Some RenderReconciling\<rparr>"
  note 1 = idle_render_enters [folded b1_def]
  obtain anchor where 2: "bridge_step letter_engine sample_cfg (\<lambda>d. d) (\<lambda>s. s) ReadViewStep b1
      = b1\<lparr>br_render := Some (RenderReading (editor_doc []) anchor True)\<rparr>"
    using idle_render_reads unfolding b1_def by auto
  let ?b = "b1\<lparr>br_render := Some (RenderReading (editor_doc []) anchor True)\<rparr>"
  have run: "bridge_run letter_engine sample_cfg (\<lambda>d. d) (\<lambda>s. s) reading idle_bridge = ?b"
    by (simp add: reading_def 1 2)
  have quiet: "quiet_run letter_engine sample_cfg (\<lambda>d. d) (\<lambda>s. s) reading idle_bridge" by (simp add: reading_def)
  obtain w where read: "handle letter_engine sample_cfg True 0 ReadView (fresh_worker empty_idb)
      = (w, Inr (RReadView (json_stringify letter_json) [text_entry 98]))"
    by (simp add: query_def sample_cfg_def fresh_worker_def ensureEngine_def restore_def letter_engine_def
        echo_engine_def pack_engine_def empty_idb_def storageId_def get_or_def loadLocalState_def rows_of_def
        replayAndRestoreAllocation_def)
  have "br_editor (finish_read letter_engine sample_cfg (\<lambda>d. d) (\<lambda>s. s) ?b) = editor_doc [98]"
    unfolding finish_read_def using read
    by (simp add: b1_def idle_bridge_def letter_blocks show_view_def restore_selection_def end_render_def pop_task_def
        editor_doc_def Let_def split: option.split AnchorResolution.split)
  moreover have "br_editor ?b = editor_doc []" by (simp add: b1_def idle_bridge_def)
  moreover have "editor_doc [98] \<noteq> editor_doc []" using editor_doc_blocks by (auto simp: plain_block_def paragraph_block_def)
  ultimately have changed: "br_editor (finish_read letter_engine sample_cfg (\<lambda>d. d) (\<lambda>s. s) ?b) \<noteq> br_editor ?b" by simp
  have "br_mode ?b = CrdtMode (editor_blocks ?b)"
    by (rule render_keeps_edits [OF idle_at_rest(1) quiet run [symmetric] changed])
  then show ?thesis using run changed by auto
qed

end
