(* ===== verification/Bridge_Progress.thy ===== *)
theory Bridge_Progress
  imports Editor_Bridge
begin

text \<open>
  The bridge comes to rest: the steps it takes on its own, once no edit, batch or render call is added, are finitely
  many in any order, and when none is left it has nothing to do. A reply of the worker is such a step, good or bad.
\<close>

section \<open>The lane's head\<close>

definition head_ok :: "'e Bridge \<Rightarrow> bool" where
  "head_ok b \<longleftrightarrow>
     (case br_head b of
        Queued \<Rightarrow> True
      | Applying \<Rightarrow> (\<exists>ops cursor rest. br_lane b = RemoteOps ops cursor # rest)
      | Rendering \<Rightarrow> br_lane b \<noteq> [] \<and> br_render b \<noteq> None
      | _ \<Rightarrow> br_lane b \<noteq> [])"

lemma queued_ok [simp]: "br_head b = Queued \<Longrightarrow> head_ok b"
  by (simp add: head_ok_def)

lemma pop_ok [simp]: "head_ok (pop_task b)"
  by (simp add: pop_task_def)

lemma end_render_ok [simp]: "head_ok b \<Longrightarrow> head_ok (end_render b)"
  by (auto simp: head_ok_def end_render_def pop_task_def Let_def split: HeadPc.splits)

lemma head_ok_cong:
  "head_ok b \<Longrightarrow> br_head b' = br_head b \<Longrightarrow> br_lane b' = br_lane b \<Longrightarrow> br_render b' = br_render b \<Longrightarrow> head_ok b'"
  by (simp add: head_ok_def cong: HeadPc.case_cong)

lemma render_round_ok: "head_ok b \<Longrightarrow> head_ok (render_round b)"
  by (auto simp: head_ok_def split: HeadPc.splits)

lemma show_view_frame:
  "br_head (show_view norm place blocks stream anchor caret b) = br_head b"
  "br_lane (show_view norm place blocks stream anchor caret b) = br_lane b"
  "br_render (show_view norm place blocks stream anchor caret b) = br_render b"
  "br_pass (show_view norm place blocks stream anchor caret b) = br_pass b"
  "br_callers (show_view norm place blocks stream anchor caret b) = br_callers b"
  by (auto simp: show_view_def restore_selection_def Let_def split: option.splits AnchorResolution.splits)

lemma pass_failed_ok: "head_ok b \<Longrightarrow> head_ok (pass_failed b)"
proof -
  assume "head_ok b"
  then have "head_ok (b\<lparr>br_mode := FallbackMode, br_pass := None, br_requested := False\<rparr>)"
    by (rule head_ok_cong) simp_all
  then show ?thesis by (simp add: pass_failed_def Let_def)
qed

lemma finish_pass_ok:
  assumes "head_ok b"
  shows "head_ok (finish_pass eng cfg commits b)"
proof (cases "br_pass b")
  case (Some p)
  have "head_ok (pass_failed (b\<lparr>br_worker := w\<rparr>))" for w
    by (rule pass_failed_ok, rule head_ok_cong [OF assms]) simp_all
  moreover have "head_ok (begin_pass l (b\<lparr>br_worker := w, br_view := v, br_mode := m\<rparr>))" for l w v m
    by (rule head_ok_cong [OF assms]) simp_all
  moreover have "head_ok (b\<lparr>br_worker := w, br_view := v, br_mode := m, br_pass := None\<rparr>)" for w v m
    by (rule head_ok_cong [OF assms]) simp_all
  ultimately show ?thesis using Some
    by (simp add: finish_pass_def Let_def split: prod.split sum.split WorkerResult.split option.split)
qed (use assms in \<open>simp add: finish_pass_def\<close>)

lemma finish_read_ok:
  assumes "head_ok b"
  shows "head_ok (finish_read eng cfg norm place b)"
proof -
  have 1: "head_ok (b\<lparr>br_worker := w\<rparr>)" for w by (rule head_ok_cong [OF assms]) simp_all
  have "head_ok (show_view norm place blocks stream anchor caret (b\<lparr>br_worker := w\<rparr>))" for blocks stream anchor caret w
    by (rule head_ok_cong [OF assms]) (simp_all add: show_view_frame)
  then show ?thesis using assms 1
    by (simp add: finish_read_def render_round_ok Let_def
        split: option.split RenderPc.split prod.split sum.split WorkerResult.split BridgeMode.split)
qed

lemma enter_render_ok:
  assumes "head_ok b"
  shows "head_ok (enter_render h b)"
proof -
  have 1: "head_ok (b\<lparr>br_callers := n\<rparr>)" "head_ok (b\<lparr>br_callers := n, br_renderRequested := True\<rparr>)" for n
    by (rule head_ok_cong [OF assms]; simp)+
  have "head_ok (render_round (b\<lparr>br_head := Rendering\<rparr>))" if "br_head b = RenderPending"
    using assms that by (simp add: head_ok_def)
  then show ?thesis using assms 1 by (simp add: enter_render_def render_round_ok Let_def)
qed

lemma step_ok:
  assumes "head_ok b"
  shows "head_ok (bridge_step eng cfg norm place act b)"
proof (cases act)
  case (FinishPass c)
  then show ?thesis using finish_pass_ok [OF assms] by (simp add: bridge_step_def)
next
  case FinishRead
  then show ?thesis using finish_read_ok [OF assms] by (simp add: bridge_step_def)
next
  case (EnterRender h)
  then show ?thesis using enter_render_ok [OF assms] by (simp add: bridge_step_def)
next
  case RenderTimeout
  then show ?thesis using assms by (simp add: bridge_step_def render_timeout_def split: option.split RenderPc.split)
next
  case BeginTask
  then show ?thesis using assms by (simp add: bridge_step_def begin_task_def head_ok_def)
next
  case ContinueTask
  have "head_ok (b\<lparr>br_head := Applying\<rparr>)" if "br_lane b = RemoteOps ops cursor # rest" for ops cursor rest
    using that by (simp add: head_ok_def)
  then show ?thesis using ContinueTask assms
    by (auto simp: bridge_step_def continue_task_def split: list.split Task.split)
next
  case (FinishApply c)
  have "head_ok (b\<lparr>br_worker := w, br_head := RenderPending\<rparr>)" if "br_lane b \<noteq> []" for w
    using that by (simp add: head_ok_def)
  then show ?thesis using FinishApply assms
    by (auto simp: bridge_step_def finish_apply_def split: list.split Task.split prod.split sum.split WorkerResult.split)
next
  case ReadViewStep
  then show ?thesis using assms
    by (auto simp: bridge_step_def read_view_def head_ok_def Let_def split: prod.split HeadPc.splits)
next
  case (UserEdit doc)
  then show ?thesis using assms by (auto simp: bridge_step_def head_ok_def split: HeadPc.splits)
next
  case (RemoteBatch ops cursor)
  then show ?thesis using assms by (auto simp: bridge_step_def head_ok_def split: HeadPc.splits)
qed (use assms in \<open>auto simp: bridge_step_def intro: head_ok_cong\<close>)

lemma run_ok: "head_ok b \<Longrightarrow> head_ok (bridge_run eng cfg norm place acts b)"
  by (induction acts arbitrary: b) (simp_all add: step_ok)

section \<open>Work left\<close>

fun head_rank :: "HeadPc \<Rightarrow> nat" where
  "head_rank Queued = 4"
| "head_rank Reconciling = 3"
| "head_rank Applying = 2"
| "head_rank RenderPending = 1"
| "head_rank Rendering = 0"

definition lane_work :: "'e Bridge \<Rightarrow> nat" where
  "lane_work b = 5 * length (br_lane b) + head_rank (br_head b) + br_callers b"

definition render_work :: "'e Bridge \<Rightarrow> nat" where
  "render_work b =
     (case br_render b of
        None \<Rightarrow> 0
      | Some RenderReconciling \<Rightarrow> 2 + (if br_renderRequested b then 4 else 0)
      | Some (RenderReading prior _ _) \<Rightarrow>
          (if br_editor b = prior \<and> br_pass b = None then 1 else 3) + (if br_renderRequested b then 4 else 0))"

definition pass_work :: "'e Bridge \<Rightarrow> nat" where
  "pass_work b = (if br_pass b = None then 0 else if br_requested b then 2 else 1)"

definition work :: "'e Bridge \<Rightarrow> nat" where
  "work b = 24 * lane_work b + 3 * render_work b + pass_work b"

lemma work_bounds: "render_work b \<le> 7" "pass_work b \<le> 2"
  by (simp_all add: render_work_def pass_work_def split: option.split RenderPc.split)

lemma lane_less: "lane_work b' < lane_work b \<Longrightarrow> work b' < work b"
  using work_bounds [of b'] by (simp add: work_def)

lemma render_less: "lane_work b' \<le> lane_work b \<Longrightarrow> render_work b' < render_work b \<Longrightarrow> work b' < work b"
  using work_bounds [of b'] by (simp add: work_def)

lemma pass_less:
  "lane_work b' \<le> lane_work b \<Longrightarrow> render_work b' \<le> render_work b \<Longrightarrow> pass_work b' < pass_work b \<Longrightarrow> work b' < work b"
  by (simp add: work_def)

lemma lane_cong: "br_lane b' = br_lane b \<Longrightarrow> br_head b' = br_head b \<Longrightarrow> br_callers b' = br_callers b \<Longrightarrow> lane_work b' = lane_work b"
  by (simp add: lane_work_def)

lemma pop_less: "br_lane b \<noteq> [] \<Longrightarrow> lane_work (pop_task b) < lane_work b"
  by (cases "br_lane b") (simp_all add: lane_work_def pop_task_def)

lemma end_render_le: "head_ok b \<Longrightarrow> lane_work (end_render b) \<le> lane_work b"
proof -
  assume ok: "head_ok b"
  have 1: "lane_work (b\<lparr>br_render := None\<rparr>) = lane_work b" by (rule lane_cong) simp_all
  show ?thesis
    using ok 1 pop_less [of "b\<lparr>br_render := None\<rparr>"] by (auto simp: end_render_def head_ok_def Let_def)
qed

lemma end_render_work: "render_work (end_render b) = 0"
  by (simp add: render_work_def end_render_def pop_task_def Let_def)

lemma render_round_work: "render_work (render_round b) = 2" "lane_work (render_round b) = lane_work b"
proof -
  have "br_renderRequested (reconcileTransaction (b\<lparr>br_renderRequested := False\<rparr>)) = False"
    by (simp add: reconcileTransaction_def begin_pass_def Let_def split: BridgeMode.split)
  then show "render_work (render_round b) = 2" by (simp add: render_work_def render_round_def)
  show "lane_work (render_round b) = lane_work b" by (rule lane_cong) simp_all
qed

section \<open>Every step that is left takes work away\<close>

definition enabled :: "Action \<Rightarrow> 'e Bridge \<Rightarrow> bool" where
  "enabled act b \<longleftrightarrow>
     (case act of
        BeginTask \<Rightarrow> br_lane b \<noteq> [] \<and> br_head b = Queued
      | ContinueTask \<Rightarrow> br_head b = Reconciling \<and> br_pass b = None
      | FinishApply _ \<Rightarrow> br_head b = Applying
      | FinishPass _ \<Rightarrow> br_pass b \<noteq> None
      | EnterRender is_head \<Rightarrow> br_pass b = None \<and> (if is_head then br_head b = RenderPending else 0 < br_callers b)
      | ReadViewStep \<Rightarrow> br_render b = Some RenderReconciling \<and> br_pass b = None
      | FinishRead \<Rightarrow> br_render b \<noteq> None \<and> br_render b \<noteq> Some RenderReconciling
      | RenderTimeout \<Rightarrow> br_render b \<noteq> None \<and> br_render b \<noteq> Some RenderReconciling
      | _ \<Rightarrow> False)"

definition own_steps :: "Action list" where
  "own_steps = [BeginTask, ContinueTask, FinishApply True, FinishApply False, FinishPass True, FinishPass False,
     EnterRender True, EnterRender False, ReadViewStep, FinishRead, RenderTimeout]"

lemma disabled_same:
  "act \<in> set own_steps \<Longrightarrow> \<not> enabled act b \<Longrightarrow> bridge_step eng cfg norm place act b = b"
  by (auto simp: own_steps_def enabled_def bridge_step_def begin_task_def continue_task_def finish_apply_def finish_pass_def
      enter_render_def read_view_def finish_read_def render_timeout_def
      split: list.splits Task.splits option.splits RenderPc.splits)

lemma pass_failed_work:
  assumes ok: "head_ok b" and "br_pass b \<noteq> None"
  shows "work (pass_failed b) < work b"
proof -
  let ?b1 = "b\<lparr>br_mode := FallbackMode, br_pass := None, br_requested := False\<rparr>"
  let ?b2 = "if br_head ?b1 = Reconciling then pop_task ?b1 else ?b1"
  have f: "pass_failed b = (if br_render ?b2 = Some RenderReconciling then end_render ?b2 else ?b2)"
    by (simp add: pass_failed_def Let_def)
  have 1: "lane_work ?b1 = lane_work b" by (rule lane_cong) simp_all
  have ok1: "head_ok ?b1" by (rule head_ok_cong [OF ok]) simp_all
  then have 2: "lane_work ?b2 \<le> lane_work b" using 1 pop_less [of ?b1] by (auto simp: head_ok_def)
  have "head_ok ?b2" using ok1 by simp
  then have lane: "lane_work (pass_failed b) \<le> lane_work b" using 2 end_render_le [of ?b2] unfolding f by auto
  have "render_work ?b1 \<le> render_work b" "render_work (pop_task ?b1) \<le> render_work b"
    by (auto simp: render_work_def pop_task_def split: option.split RenderPc.split)
  then have "render_work (pass_failed b) \<le> render_work b" unfolding f by (simp add: end_render_work)
  moreover have "pass_work (pass_failed b) = 0"
    unfolding f by (simp add: pass_work_def end_render_def pop_task_def Let_def)
  moreover have "0 < pass_work b" using assms(2) by (simp add: pass_work_def)
  ultimately show ?thesis using lane by (intro pass_less) simp_all
qed

lemma finish_pass_work:
  assumes ok: "head_ok b" and "br_pass b \<noteq> None"
  shows "work (finish_pass eng cfg commits b) < work b"
proof -
  obtain p where p: "br_pass b = Some p" using assms(2) by blast
  have fail: "work (pass_failed (b\<lparr>br_worker := w\<rparr>)) < work b" for w
  proof -
    have "head_ok (b\<lparr>br_worker := w\<rparr>)" by (rule head_ok_cong [OF ok]) simp_all
    then have "work (pass_failed (b\<lparr>br_worker := w\<rparr>)) < work (b\<lparr>br_worker := w\<rparr>)"
      using p by (intro pass_failed_work) simp_all
    also have "work (b\<lparr>br_worker := w\<rparr>) = work b"
      by (auto simp: work_def lane_work_def render_work_def pass_work_def split: option.split RenderPc.split)
    finally show ?thesis .
  qed
  have again: "work (begin_pass l (b\<lparr>br_worker := w, br_view := v, br_mode := m\<rparr>)) < work b" if "br_requested b" for l w v m
  proof (rule pass_less)
    show "lane_work (begin_pass l (b\<lparr>br_worker := w, br_view := v, br_mode := m\<rparr>)) \<le> lane_work b"
      by (rule eq_refl, rule lane_cong) simp_all
    show "render_work (begin_pass l (b\<lparr>br_worker := w, br_view := v, br_mode := m\<rparr>)) \<le> render_work b"
      using p by (auto simp: render_work_def begin_pass_def Let_def split: option.split RenderPc.split)
    show "pass_work (begin_pass l (b\<lparr>br_worker := w, br_view := v, br_mode := m\<rparr>)) < pass_work b"
      using p that by (simp add: pass_work_def begin_pass_def Let_def)
  qed
  have ended: "work (b\<lparr>br_worker := w, br_view := v, br_mode := m, br_pass := None\<rparr>) < work b" for w v m
  proof (rule pass_less)
    show "lane_work (b\<lparr>br_worker := w, br_view := v, br_mode := m, br_pass := None\<rparr>) \<le> lane_work b"
      by (rule eq_refl, rule lane_cong) simp_all
    show "render_work (b\<lparr>br_worker := w, br_view := v, br_mode := m, br_pass := None\<rparr>) \<le> render_work b"
      by (auto simp: render_work_def split: option.split RenderPc.split)
  qed (use p in \<open>simp add: pass_work_def\<close>)
  show ?thesis using p fail again ended
    by (simp add: finish_pass_def Let_def split: prod.split sum.split WorkerResult.split option.split)
qed

lemma finish_read_work:
  assumes ok: "head_ok b" and "br_render b = Some (RenderReading prior anchor caret)"
  shows "work (finish_read eng cfg norm place b) < work b"
proof -
  have pos: "0 < render_work b" using assms(2) by (simp add: render_work_def)
  have endr: "work (end_render b') < work b" if "head_ok b'" "lane_work b' = lane_work b" for b' :: "'a Bridge"
    using that pos end_render_le [OF that(1)] by (intro render_less) (simp_all add: end_render_work)
  have "render_work b \<ge> 3" if "br_editor b \<noteq> prior \<or> br_pass b \<noteq> None \<or> br_renderRequested b"
    using that assms(2) by (auto simp: render_work_def)
  then have round: "work (render_round b') < work b"
    if "br_editor b \<noteq> prior \<or> br_pass b \<noteq> None \<or> br_renderRequested b" "lane_work b' = lane_work b" for b' :: "'a Bridge"
    using that by (intro render_less) (simp_all add: render_round_work)
  have 1: "head_ok (b\<lparr>br_worker := w\<rparr>)" for w by (rule head_ok_cong [OF ok]) simp_all
  have 2: "lane_work (b\<lparr>br_worker := w\<rparr>) = lane_work b" for w by (rule lane_cong) simp_all
  have 3: "head_ok (show_view norm place blocks stream anchor caret (b\<lparr>br_worker := w\<rparr>))" for blocks stream w
    by (rule head_ok_cong [OF ok]) (simp_all add: show_view_frame)
  have 4: "lane_work (show_view norm place blocks stream anchor caret (b\<lparr>br_worker := w\<rparr>)) = lane_work b" for blocks stream w
    by (rule lane_cong) (simp_all add: show_view_frame)
  show ?thesis
    using assms(2) endr [OF 1 2] endr [OF 3 4] round [OF _ 2] round [OF _ 4]
    by (simp add: finish_read_def Let_def split: prod.split sum.split WorkerResult.split option.split BridgeMode.split)
qed

lemma enter_render_work:
  assumes "enabled (EnterRender h) b" and ok: "head_ok b"
  shows "work (enter_render h b) < work b"
proof (rule lane_less)
  have 1: "lane_work (pop_task b) < lane_work b" "lane_work (pop_task (b\<lparr>br_renderRequested := True\<rparr>)) < lane_work b"
    "lane_work (render_round (b\<lparr>br_head := Rendering\<rparr>)) < lane_work b" if "br_head b = RenderPending"
  proof -
    have "br_lane b \<noteq> []" using ok that by (simp add: head_ok_def)
    moreover have "lane_work (b\<lparr>br_renderRequested := True\<rparr>) = lane_work b" by (rule lane_cong) simp_all
    ultimately show "lane_work (pop_task b) < lane_work b"
      "lane_work (pop_task (b\<lparr>br_renderRequested := True\<rparr>)) < lane_work b"
      using pop_less [of b] pop_less [of "b\<lparr>br_renderRequested := True\<rparr>"] by simp_all
    show "lane_work (render_round (b\<lparr>br_head := Rendering\<rparr>)) < lane_work b"
      using that by (simp add: render_round_work) (simp add: lane_work_def)
  qed
  have 2: "lane_work (b\<lparr>br_callers := br_callers b - 1\<rparr>) < lane_work b"
    "lane_work (b\<lparr>br_callers := br_callers b - 1, br_renderRequested := True\<rparr>) < lane_work b" if "0 < br_callers b"
    using that by (simp_all add: lane_work_def)
  show "lane_work (enter_render h b) < lane_work b"
    using assms(1) 1 2 by (auto simp: enter_render_def enabled_def Let_def render_round_work(2) split: if_splits)
qed

lemma enabled_less:
  assumes ok: "head_ok b" and en: "enabled act b"
  shows "work (bridge_step eng cfg norm place act b) < work b"
proof (cases act)
  case BeginTask
  then show ?thesis using en by (intro lane_less) (simp add: bridge_step_def begin_task_def enabled_def lane_work_def)
next
  case ContinueTask
  then have "br_lane b \<noteq> []" using ok en by (simp add: head_ok_def enabled_def)
  then show ?thesis using ContinueTask en pop_less [of b]
    by (intro lane_less) (auto simp: bridge_step_def continue_task_def enabled_def lane_work_def split: list.split Task.split)
next
  case (FinishApply c)
  then obtain ops cursor rest where l: "br_lane b = RemoteOps ops cursor # rest" "br_head b = Applying"
    using ok en by (auto simp: head_ok_def enabled_def)
  have "lane_work (pop_task (b\<lparr>br_worker := w\<rparr>)) < lane_work b" for w
    using l by (simp add: lane_work_def pop_task_def)
  then show ?thesis using FinishApply l
    by (intro lane_less)
      (simp add: bridge_step_def finish_apply_def lane_work_def split: prod.split sum.split WorkerResult.split)
next
  case (FinishPass c)
  then show ?thesis using finish_pass_work [OF ok] en by (simp add: bridge_step_def enabled_def)
next
  case (EnterRender h)
  then show ?thesis using enter_render_work [OF _ ok] en by (simp add: bridge_step_def)
next
  case ReadViewStep
  then have "br_render b = Some RenderReconciling" "br_pass b = None" using en by (simp_all add: enabled_def)
  then show ?thesis using ReadViewStep
    by (intro render_less)
      (simp_all add: bridge_step_def read_view_def lane_work_def render_work_def Let_def split: prod.split)
next
  case FinishRead
  then obtain prior anchor caret where "br_render b = Some (RenderReading prior anchor caret)"
    using en by (auto simp: enabled_def) (metis RenderPc.exhaust)
  from finish_read_work [OF ok this] show ?thesis using FinishRead by (simp add: bridge_step_def)
next
  case RenderTimeout
  then obtain prior anchor caret where r: "br_render b = Some (RenderReading prior anchor caret)"
    using en by (auto simp: enabled_def) (metis RenderPc.exhaust)
  have "work (end_render b) < work b"
    using r end_render_le [OF ok] by (intro render_less) (simp_all add: end_render_work, simp add: render_work_def)
  then show ?thesis using RenderTimeout r by (simp add: bridge_step_def render_timeout_def)
qed (use en in \<open>simp_all add: enabled_def\<close>)

section \<open>Coming to rest\<close>

text \<open>A schedule of own steps each of which changes the bridge.\<close>

fun effective ::
  "('e, 'x) EnginePort_scheme \<Rightarrow> WorkerConfig \<Rightarrow> (PmNode \<Rightarrow> PmNode) \<Rightarrow> (nat \<times> nat \<Rightarrow> nat \<times> nat) \<Rightarrow> Action list \<Rightarrow> 'e Bridge \<Rightarrow> bool" where
  "effective eng cfg norm place [] b \<longleftrightarrow> True"
| "effective eng cfg norm place (act # acts) b \<longleftrightarrow>
     act \<in> set own_steps \<and> bridge_step eng cfg norm place act b \<noteq> b
       \<and> effective eng cfg norm place acts (bridge_step eng cfg norm place act b)"

lemma effective_bound:
  "head_ok b \<Longrightarrow> effective eng cfg norm place acts b \<Longrightarrow> length acts \<le> work b"
proof (induction acts arbitrary: b)
  case (Cons act acts)
  let ?b = "bridge_step eng cfg norm place act b"
  have "enabled act b" using Cons.prems(2) disabled_same by fastforce
  then have "work ?b < work b" using enabled_less Cons.prems(1) by blast
  moreover have "length acts \<le> work ?b"
    using Cons.prems(2) by (intro Cons.IH step_ok [OF Cons.prems(1)]) simp
  ultimately show ?case by simp
qed simp

text \<open>
  C17: after any history, every order of the bridge's own steps ends: a schedule in which each step changes something
  is no longer than the work left, and where no own step changes anything, the lane is empty, no reconciliation and no
  render is in flight and no render call waits.
\<close>

theorem bridge_settles:
  assumes "at_rest b0" and "b = bridge_run eng cfg norm place acts b0"
    and "effective eng cfg norm place schedule b" and "b' = bridge_run eng cfg norm place schedule b"
    and "list_all (\<lambda>act. bridge_step eng cfg norm place act b' = b') own_steps"
  shows "length schedule \<le> work b
    \<and> br_lane b' = [] \<and> br_pass b' = None \<and> br_render b' = None \<and> br_callers b' = 0"
proof -
  have "head_ok b0" using assms(1) by (simp add: at_rest_def)
  then have ok: "head_ok b" "head_ok b'" using run_ok assms(2,4) by blast+
  have stuck: "\<not> enabled act b'" if "act \<in> set own_steps" for act
    using enabled_less [OF ok(2), of act eng cfg norm place] assms(5) that by (force simp: list_all_iff)
  have pass: "br_pass b' = None" using stuck [of "FinishPass True"] by (simp add: own_steps_def enabled_def)
  have callers: "br_callers b' = 0" using stuck [of "EnterRender False"] pass by (simp add: own_steps_def enabled_def)
  have render: "br_render b' = None"
    using stuck [of ReadViewStep] stuck [of FinishRead] pass by (auto simp: own_steps_def enabled_def)
  have "br_lane b' = []"
  proof (rule ccontr)
    assume "br_lane b' \<noteq> []"
    then show False
      using stuck [of BeginTask] stuck [of ContinueTask] stuck [of "FinishApply True"] stuck [of "EnterRender True"]
        pass render ok(2) by (cases "br_head b'") (simp_all add: own_steps_def enabled_def head_ok_def)
  qed
  then show ?thesis using effective_bound [OF ok(1) assms(3)] pass callers render by simp
qed

theorem bridge_settles_witness:
  "3 \<le> work (bridge_run letter_engine sample_cfg (\<lambda>d. d) (\<lambda>s. s) [RenderCall] idle_bridge)
   \<and> br_render (bridge_run letter_engine sample_cfg (\<lambda>d. d) (\<lambda>s. s)
       [RenderCall, EnterRender False, ReadViewStep, RenderTimeout] idle_bridge) = None"
proof -
  let ?step = "bridge_step letter_engine sample_cfg (\<lambda>d. d) (\<lambda>s. s)"
  define b1 where "b1 = idle_bridge\<lparr>br_render := Some RenderReconciling\<rparr>"
  obtain anchor where 2: "?step ReadViewStep b1 = idle_bridge\<lparr>br_render := Some (RenderReading (editor_doc []) anchor True)\<rparr>"
    using idle_render_reads unfolding b1_def by blast
  note 1 = idle_render_enters [folded b1_def]
  define b2 where "b2 = idle_bridge\<lparr>br_render := Some (RenderReading (editor_doc []) anchor True)\<rparr>"
  have 3: "?step RenderTimeout b2 = idle_bridge"
    by (simp add: bridge_step_def render_timeout_def end_render_def b2_def idle_bridge_def Let_def)
  let ?b = "?step RenderCall idle_bridge"
  have "?b \<noteq> b1" "b1 \<noteq> b2" "b2 \<noteq> idle_bridge"
    by (simp_all add: bridge_step_def b1_def b2_def idle_bridge_def)
  then have eff: "effective letter_engine sample_cfg (\<lambda>d. d) (\<lambda>s. s) [EnterRender False, ReadViewStep, RenderTimeout] ?b"
    using 1 2 3 by (auto simp: own_steps_def b2_def)
  have run: "idle_bridge = bridge_run letter_engine sample_cfg (\<lambda>d. d) (\<lambda>s. s) [EnterRender False, ReadViewStep, RenderTimeout] ?b"
    using 1 2 3 by (simp add: b2_def)
  have "\<not> enabled act idle_bridge" if "act \<in> set own_steps" for act
    using that by (auto simp: enabled_def own_steps_def idle_bridge_def)
  then have quiet: "list_all (\<lambda>act. ?step act idle_bridge = idle_bridge) own_steps"
    by (simp add: list_all_iff disabled_same)
  have b: "?b = bridge_run letter_engine sample_cfg (\<lambda>d. d) (\<lambda>s. s) [RenderCall] idle_bridge" by simp
  from bridge_settles [OF idle_at_rest(1) b eff run quiet] show ?thesis using run by simp
qed

end
