(* ===== verification/Replay.thy ===== *)
theory Replay
  imports Worker_Durability "HOL-Library.AList"
begin

text \<open>
  Time travel over the operation log, \<^verbatim>\<open>src/lib/crdt/replay.ts\<close>: a scratch engine that is moved to a
  prefix of the log, with checkpoints and a cache. A call of \<open>at\<close> is one step, as its only caller waits for
  one call before the next; \<open>close\<close> can come between the calls, or while a checkpoint is imported
  (the argument \<open>closing\<close>). The property is a refinement: whatever calls came before, \<open>at i\<close> shows what folding the
  first \<open>i\<close> operations into an empty engine shows.
\<close>

section \<open>State\<close>

record ReplayState =
  rs_json :: string
  rs_digest :: string

datatype replay_error =
    LogInvalid | EntryInvalid | ReplayClosed | IndexOutOfRange | CheckpointMissing | RebaseFailed | InvalidState
  | EngineError

text \<open>A freed engine still hangs in the object after a failed rebase; every call on it throws.\<close>

datatype 'e engine_ref = Live 'e | Freed

record 'e DocumentReplay =
  rp_ops :: "bytes list"
  rp_stride :: nat
  rp_engine :: "'e engine_ref option"
  rp_position :: int
  rp_closed :: bool
  rp_checkpoints :: "(nat \<times> bytes) list"
  rp_states :: "(nat \<times> ReplayState) list"

definition MAX_STATE_CACHE_ENTRIES :: nat where "MAX_STATE_CACHE_ENTRIES = 64"

text \<open>\<open>Math.ceil(Math.sqrt(n))\<close>, which is exact in this range: the least \<open>k\<close> with \<open>n \<le> k * k\<close>.\<close>

definition ceil_sqrt :: "nat \<Rightarrow> nat" where
  "ceil_sqrt n = length (takeWhile (\<lambda>k. k * k < n) [0..<n + 1])"

definition strideFor :: "nat \<Rightarrow> nat" where
  "strideFor opCount = max 8 (ceil_sqrt (max opCount 1))"

section \<open>Operations\<close>

definition open_replay :: "('e, 'x) EnginePort_scheme \<Rightarrow> bytes list \<Rightarrow> replay_error + 'e DocumentReplay" where
  "open_replay eng ops =
     (if 4000000 < length ops then Inl LogInvalid
      else if [] \<in> set ops then Inl EntryInvalid
      else
        let e = eng_create eng 1
        in Inr \<lparr>rp_ops = ops, rp_stride = strideFor (length ops), rp_engine = Some (Live e), rp_position = 0,
             rp_closed = False, rp_checkpoints = [(0, eng_exportSnapshot eng e)], rp_states = []\<rparr>)"

definition close_replay :: "'e DocumentReplay \<Rightarrow> 'e DocumentReplay" where
  "close_replay rp =
     rp\<lparr>rp_closed := True, rp_engine := None, rp_position := -1, rp_checkpoints := [], rp_states := []\<rparr>"

text \<open>The search for a checkpoint; \<open>candidate\<close> is a multiple of the stride.\<close>

function find_base :: "nat \<Rightarrow> (nat \<times> bytes) list \<Rightarrow> nat \<Rightarrow> nat" where
  "find_base stride cps candidate =
     (if candidate = 0 \<or> stride = 0 then 0
      else if map_of cps candidate \<noteq> None then candidate
      else find_base stride cps (candidate - stride))"
  by pat_completeness auto
termination by (relation "measure (\<lambda>(_, _, c). c)") auto

declare find_base.simps [simp del]

definition rebase ::
  "('e, 'x) EnginePort_scheme \<Rightarrow> bool \<Rightarrow> nat \<Rightarrow> 'e DocumentReplay \<Rightarrow> 'e DocumentReplay \<times> replay_error option" where
  "rebase eng closing index rp =
     (let base = find_base (rp_stride rp) (rp_checkpoints rp) (index - index mod rp_stride rp)
      in case map_of (rp_checkpoints rp) base of
           None \<Rightarrow> (rp, Some CheckpointMissing)
         | Some snapshot \<Rightarrow>
             if rp_engine rp = None then (rp, Some ReplayClosed)
             else
               let freed = rp\<lparr>rp_engine := Some Freed\<rparr>
               in case eng_import eng 1 snapshot of
                    None \<Rightarrow> (if closing then close_replay freed else freed, Some RebaseFailed)
                  | Some e \<Rightarrow>
                      if closing then (close_replay freed, Some ReplayClosed)
                      else (rp\<lparr>rp_engine := Some (Live e), rp_position := int base\<rparr>, None))"

definition checkpoint :: "('e, 'x) EnginePort_scheme \<Rightarrow> 'e \<Rightarrow> 'e DocumentReplay \<Rightarrow> 'e DocumentReplay" where
  "checkpoint eng e rp =
     (let p = nat (rp_position rp)
      in if p mod rp_stride rp = 0 \<and> map_of (rp_checkpoints rp) p = None
         then rp\<lparr>rp_checkpoints := rp_checkpoints rp @ [(p, eng_exportSnapshot eng e)]\<rparr> else rp)"

text \<open>The \<open>while\<close> loop of \<open>positionAt\<close>, \<open>n\<close> operations long.\<close>

fun advance ::
  "('e, 'x) EnginePort_scheme \<Rightarrow> nat \<Rightarrow> 'e DocumentReplay \<Rightarrow> 'e DocumentReplay \<times> replay_error option" where
  "advance eng 0 rp = (rp, None)"
| "advance eng (Suc n) rp =
     (case rp_engine rp of
        Some (Live e) \<Rightarrow>
          (case eng_applyRemote eng (rp_ops rp ! nat (rp_position rp)) e of
             (e', Threw) \<Rightarrow> (rp\<lparr>rp_engine := Some (Live e')\<rparr>, Some EngineError)
           | (e', _) \<Rightarrow>
               advance eng n (checkpoint eng e' (rp\<lparr>rp_engine := Some (Live e'), rp_position := rp_position rp + 1\<rparr>)))
      | _ \<Rightarrow> (rp, Some EngineError))"

definition positionAt ::
  "('e, 'x) EnginePort_scheme \<Rightarrow> bool \<Rightarrow> nat \<Rightarrow> 'e DocumentReplay \<Rightarrow> 'e DocumentReplay \<times> replay_error option" where
  "positionAt eng closing index rp =
     (if rp_position rp = int index then (rp, None)
      else
        case (if int index < rp_position rp \<or> rp_position rp < 0 then rebase eng closing index rp else (rp, None)) of
          (rp1, Some err) \<Rightarrow> (rp1, Some err)
        | (rp1, None) \<Rightarrow>
            if rp_engine rp1 = None then (rp1, Some ReplayClosed)
            else advance eng (nat (int index - rp_position rp1)) rp1)"

text \<open>The bounded cache of rendered states; the map keeps its insertion order.\<close>

definition cache_state :: "nat \<Rightarrow> ReplayState \<Rightarrow> 'e DocumentReplay \<Rightarrow> 'e DocumentReplay" where
  "cache_state index s rp =
     (let states = AList.update index s (rp_states rp);
          oldest = fst (hd states)
      in rp\<lparr>rp_states :=
           (if MAX_STATE_CACHE_ENTRIES < length states \<and> oldest \<noteq> index \<and> oldest \<noteq> 0
            then AList.delete oldest states else states)\<rparr>)"

definition at_index ::
  "('e, 'x) EnginePort_scheme \<Rightarrow> bool \<Rightarrow> int \<Rightarrow> 'e DocumentReplay \<Rightarrow> 'e DocumentReplay \<times> (replay_error + ReplayState)" where
  "at_index eng closing index rp =
     (if rp_closed rp then (rp, Inl ReplayClosed)
      else if index < 0 \<or> int (length (rp_ops rp)) < index then (rp, Inl IndexOutOfRange)
      else
        case (map_of (rp_states rp) (nat index), rp_position rp = index) of
          (Some s, True) \<Rightarrow> (rp, Inr s)
        | _ \<Rightarrow>
            (case positionAt eng closing (nat index) rp of
               (rp1, Some err) \<Rightarrow> (rp1, Inl err)
             | (rp1, None) \<Rightarrow>
                 (case rp_engine rp1 of
                    None \<Rightarrow> (rp1, Inl ReplayClosed)
                  | Some Freed \<Rightarrow> (rp1, Inl EngineError)
                  | Some (Live e) \<Rightarrow>
                      let s = \<lparr>rs_json = eng_visible eng e, rs_digest = eng_digest eng e\<rparr>
                      in if take 7 (rs_digest s) \<noteq> ''sha256:'' then (rp1, Inl InvalidState)
                         else (cache_state (nat index) s rp1, Inr s))))"

datatype replay_call = At bool int | CloseReplay

fun replay_step :: "('e, 'x) EnginePort_scheme \<Rightarrow> replay_call \<Rightarrow> 'e DocumentReplay \<Rightarrow> 'e DocumentReplay" where
  "replay_step eng (At closing index) rp = fst (at_index eng closing index rp)"
| "replay_step eng CloseReplay rp = close_replay rp"

section \<open>The engine's laws\<close>

text \<open>
  What the replay relies on: the state of the engine that is seen (\<open>sem\<close>) determines what applying an
  operation makes of it and what is rendered, a rejected operation changes nothing, and importing an exported
  snapshot, where it succeeds, gives back that state.
\<close>

definition replay_laws ::
  "('e, 'x) EnginePort_scheme \<Rightarrow> ('e \<Rightarrow> 'a) \<Rightarrow> (bytes \<Rightarrow> 'a \<Rightarrow> 'a) \<Rightarrow> ('a \<Rightarrow> string \<times> string) \<Rightarrow> bool" where
  "replay_laws eng sem stp view \<longleftrightarrow>
     (\<forall>op e. sem (fst (eng_applyRemote eng op e))
        = (if snd (eng_applyRemote eng op e) = Threw then sem e else stp op (sem e)))
     \<and> (\<forall>e. view (sem e) = (eng_visible eng e, eng_digest eng e))
     \<and> (\<forall>e e'. eng_import eng 1 (eng_exportSnapshot eng e) = Some e' \<longrightarrow> sem e' = sem e)"

text \<open>The abstract replay: the fold of a prefix.\<close>

definition prefix_state :: "('e, 'x) EnginePort_scheme \<Rightarrow> ('e \<Rightarrow> 'a) \<Rightarrow> (bytes \<Rightarrow> 'a \<Rightarrow> 'a) \<Rightarrow> bytes list \<Rightarrow> nat \<Rightarrow> 'a" where
  "prefix_state eng sem stp ops i = fold stp (take i ops) (sem (eng_create eng 1))"

lemma prefix_state_Suc:
  "i < length ops \<Longrightarrow> prefix_state eng sem stp ops (Suc i) = stp (ops ! i) (prefix_state eng sem stp ops i)"
  by (simp add: prefix_state_def take_Suc_conv_app_nth)

section \<open>The invariant\<close>

definition checkpoints_ok ::
  "('e, 'x) EnginePort_scheme \<Rightarrow> ('e \<Rightarrow> 'a) \<Rightarrow> (nat \<Rightarrow> 'a) \<Rightarrow> nat \<Rightarrow> int \<Rightarrow> (nat \<times> bytes) list \<Rightarrow> bool" where
  "checkpoints_ok eng sem ref stride pos cps \<longleftrightarrow>
     (\<forall>i snap. map_of cps i = Some snap \<longrightarrow> (\<exists>e. snap = eng_exportSnapshot eng e \<and> sem e = ref i))
     \<and> (\<forall>m. stride dvd m \<longrightarrow> int m \<le> pos \<longrightarrow> map_of cps m \<noteq> None)"

definition replay_inv ::
  "('e, 'x) EnginePort_scheme \<Rightarrow> ('e \<Rightarrow> 'a) \<Rightarrow> (bytes \<Rightarrow> 'a \<Rightarrow> 'a) \<Rightarrow> ('a \<Rightarrow> string \<times> string) \<Rightarrow> bytes list \<Rightarrow> 'e DocumentReplay \<Rightarrow> bool" where
  "replay_inv eng sem stp view ops rp \<longleftrightarrow>
     rp_ops rp = ops \<and> 8 \<le> rp_stride rp
     \<and> (\<not> rp_closed rp \<longrightarrow>
          0 \<le> rp_position rp \<and> rp_position rp \<le> int (length ops)
          \<and> checkpoints_ok eng sem (prefix_state eng sem stp ops) (rp_stride rp) (rp_position rp) (rp_checkpoints rp)
          \<and> (\<forall>e. rp_engine rp = Some (Live e) \<longrightarrow> sem e = prefix_state eng sem stp ops (nat (rp_position rp)))
          \<and> (\<forall>i s. map_of (rp_states rp) i = Some s \<longrightarrow>
                view (prefix_state eng sem stp ops i) = (rs_json s, rs_digest s)))"

lemma find_base_spec:
  "stride dvd c \<Longrightarrow> 0 < stride \<Longrightarrow>
    stride dvd find_base stride cps c \<and> find_base stride cps c \<le> c
    \<and> (find_base stride cps c = 0 \<or> map_of cps (find_base stride cps c) \<noteq> None)"
proof (induction stride cps c rule: find_base.induct)
  case (1 stride cps c)
  then show ?case
    by (subst (1 2 3 4) find_base.simps) (auto dest: dvd_imp_le intro: le_trans[OF _ diff_le_self])
qed

lemma find_base_there: "map_of cps c \<noteq> None \<Longrightarrow> 0 < stride \<Longrightarrow> find_base stride cps c = c"
  by (subst find_base.simps) auto

lemma checkpoints_mono: "checkpoints_ok eng sem ref stride pos cps \<Longrightarrow> pos' \<le> pos \<Longrightarrow> checkpoints_ok eng sem ref stride pos' cps"
  by (auto simp: checkpoints_ok_def)

lemma close_inv: "replay_inv eng sem stp view ops rp \<Longrightarrow> replay_inv eng sem stp view ops (close_replay rp)"
  by (simp add: replay_inv_def close_replay_def)

lemma freed_inv: "replay_inv eng sem stp view ops rp \<Longrightarrow> replay_inv eng sem stp view ops (rp\<lparr>rp_engine := Some Freed\<rparr>)"
  by (simp add: replay_inv_def)

lemma rebase_inv:
  assumes laws: "replay_laws eng sem stp view" and "replay_inv eng sem stp view ops rp" and "\<not> rp_closed rp" and "int index < rp_position rp" and "rebase eng closing index rp = (rp', err)"
  shows "replay_inv eng sem stp view ops rp'" and "err = None \<Longrightarrow> \<not> rp_closed rp' \<and> rp_position rp' \<le> int index"
proof -
  let ?b = "find_base (rp_stride rp) (rp_checkpoints rp) (index - index mod rp_stride rp)"
  have s: "0 < rp_stride rp" and cp: "checkpoints_ok eng sem (prefix_state eng sem stp ops) (rp_stride rp) (rp_position rp) (rp_checkpoints rp)"
    and len: "rp_position rp \<le> int (length ops)"
    using assms(2,3) by (auto simp: replay_inv_def)
  have b: "?b \<le> index"
    using find_base_spec[OF dvd_minus_mod s] by (meson diff_le_self le_trans)
  have "replay_inv eng sem stp view ops rp' \<and> (err = None \<longrightarrow> \<not> rp_closed rp' \<and> rp_position rp' \<le> int index)"
  proof (cases "map_of (rp_checkpoints rp) ?b")
    case None
    then show ?thesis using assms by (auto simp: rebase_def Let_def)
  next
    case (Some snap)
    then obtain e where e: "snap = eng_exportSnapshot eng e" "sem e = prefix_state eng sem stp ops ?b"
      using cp by (auto simp: checkpoints_ok_def)
    show ?thesis
    proof (cases "rp_engine rp = None")
      case True
      then show ?thesis using Some assms by (auto simp: rebase_def Let_def)
    next
      case False
      show ?thesis
      proof (cases "eng_import eng 1 snap")
        case None
        then show ?thesis using Some False assms(2,5) freed_inv[OF assms(2)] close_inv[OF freed_inv[OF assms(2)]]
          by (auto simp: rebase_def Let_def)
      next
        case (Some e')
        then have "sem e' = prefix_state eng sem stp ops ?b" using laws e by (auto simp: replay_laws_def)
        then have "replay_inv eng sem stp view ops (rp\<lparr>rp_engine := Some (Live e'), rp_position := int ?b\<rparr>)"
          using assms(2-4) b len checkpoints_mono[OF cp, of "int ?b"] by (auto simp: replay_inv_def)
        then show ?thesis
          using \<open>map_of _ _ = Some snap\<close> Some False assms(3,5) close_inv[OF freed_inv[OF assms(2)]] b
          by (auto simp: rebase_def Let_def split: if_splits)
      qed
    qed
  qed
  then show "replay_inv eng sem stp view ops rp'" and "err = None \<Longrightarrow> \<not> rp_closed rp' \<and> rp_position rp' \<le> int index" by auto
qed

lemma step_inv:
  assumes laws: "replay_laws eng sem stp view" and "replay_inv eng sem stp view ops rp" and "\<not> rp_closed rp" and "rp_engine rp = Some (Live e)" and "rp_position rp < int (length ops)"
    and "eng_applyRemote eng (rp_ops rp ! nat (rp_position rp)) e = (e', r)" and "r \<noteq> Threw"
  shows "replay_inv eng sem stp view ops (checkpoint eng e' (rp\<lparr>rp_engine := Some (Live e'), rp_position := rp_position rp + 1\<rparr>))"
proof -
  let ?p = "nat (rp_position rp)" and ?ref = "prefix_state eng sem stp ops"
  have o: "rp_ops rp = ops" "0 \<le> rp_position rp" "sem e = ?ref ?p" "8 \<le> rp_stride rp"
    and cp: "checkpoints_ok eng sem ?ref (rp_stride rp) (rp_position rp) (rp_checkpoints rp)"
    using assms(2-4) by (auto simp: replay_inv_def)
  have p: "?p < length ops" "nat (rp_position rp + 1) = Suc ?p" using o(2) assms(5) by auto
  have e': "sem e' = ?ref (Suc ?p)"
    using laws assms(6,7) o(1,3) prefix_state_Suc[OF p(1)] unfolding replay_laws_def by (metis fst_conv snd_conv)
  define cps where "cps = (if Suc ?p mod rp_stride rp = 0 \<and> map_of (rp_checkpoints rp) (Suc ?p) = None
    then rp_checkpoints rp @ [(Suc ?p, eng_exportSnapshot eng e')] else rp_checkpoints rp)"
  have here: "map_of cps (Suc ?p) \<noteq> None" if "rp_stride rp dvd Suc ?p"
    using that by (auto simp: cps_def map_add_def mod_eq_0_iff_dvd split: option.splits)
  have keep: "map_of cps m \<noteq> None" if "map_of (rp_checkpoints rp) m \<noteq> None" for m
    using that by (auto simp: cps_def map_add_def split: option.splits)
  have "checkpoints_ok eng sem ?ref (rp_stride rp) (rp_position rp + 1) cps"
    unfolding checkpoints_ok_def
  proof (intro conjI allI impI)
    fix i snap
    assume "map_of cps i = Some snap"
    then have "map_of (rp_checkpoints rp) i = Some snap \<or> i = Suc ?p \<and> snap = eng_exportSnapshot eng e'"
      by (auto simp: cps_def map_add_def split: if_splits option.splits)
    then show "\<exists>x. snap = eng_exportSnapshot eng x \<and> sem x = ?ref i"
      using cp e' by (auto simp: checkpoints_ok_def)
  next
    fix m
    assume m: "rp_stride rp dvd m" "int m \<le> rp_position rp + 1"
    then consider "int m \<le> rp_position rp" | "m = Suc ?p" using o(2) by linarith
    then show "map_of cps m \<noteq> None"
    proof cases
      case 1
      then show ?thesis using cp m(1) keep by (simp add: checkpoints_ok_def)
    next
      case 2
      then show ?thesis using here m(1) by simp
    qed
  qed
  moreover have "checkpoint eng e' (rp\<lparr>rp_engine := Some (Live e'), rp_position := rp_position rp + 1\<rparr>)
      = rp\<lparr>rp_engine := Some (Live e'), rp_position := rp_position rp + 1, rp_checkpoints := cps\<rparr>"
    by (simp add: checkpoint_def Let_def p(2) cps_def)
  ultimately show ?thesis
    using assms(2,3,5) o e' p(2) by (simp add: replay_inv_def)
qed

lemma checkpoint_simps [simp]:
  "rp_engine (checkpoint eng e rp) = rp_engine rp" "rp_position (checkpoint eng e rp) = rp_position rp"
  "rp_closed (checkpoint eng e rp) = rp_closed rp"
  by (simp_all add: checkpoint_def Let_def)

lemma advance_inv:
  assumes laws: "replay_laws eng sem stp view"
  shows "replay_inv eng sem stp view ops rp \<Longrightarrow> \<not> rp_closed rp \<Longrightarrow> rp_position rp + int n \<le> int (length ops) \<Longrightarrow> advance eng n rp = (rp', err) \<Longrightarrow>
    replay_inv eng sem stp view ops rp' \<and> \<not> rp_closed rp' \<and> (err = None \<longrightarrow> rp_position rp' = rp_position rp + int n)"
proof (induction n arbitrary: rp)
  case (Suc n)
  show ?case
  proof (cases "\<exists>e. rp_engine rp = Some (Live e)")
    case True
    then obtain e where e: "rp_engine rp = Some (Live e)" by blast
    obtain e' r where ap: "eng_applyRemote eng (rp_ops rp ! nat (rp_position rp)) e = (e', r)" by fastforce
    show ?thesis
    proof (cases "r = Threw")
      case True
      have "sem e' = sem e" using laws ap True unfolding replay_laws_def by (metis fst_conv snd_conv)
      then have "replay_inv eng sem stp view ops (rp\<lparr>rp_engine := Some (Live e')\<rparr>)" using Suc.prems(1) e by (simp add: replay_inv_def)
      then show ?thesis using Suc.prems e ap True by auto
    next
      case False
      have lt: "rp_position rp < int (length ops)" using Suc.prems(3) by simp
      let ?rp = "checkpoint eng e' (rp\<lparr>rp_engine := Some (Live e'), rp_position := rp_position rp + 1\<rparr>)"
      have "advance eng n ?rp = (rp', err)" using Suc.prems(4) e ap False by (cases r) auto
      with Suc.IH[OF step_inv[OF laws, OF Suc.prems(1,2) e lt ap False]] Suc.prems(2,3) show ?thesis by simp
    qed
  next
    case False
    then have "advance eng (Suc n) rp = (rp, Some EngineError)"
      by (auto split: option.splits engine_ref.splits)
    then show ?thesis using Suc.prems by auto
  qed
qed simp

lemma positionAt_inv:
  assumes laws: "replay_laws eng sem stp view" and "replay_inv eng sem stp view ops rp" and "\<not> rp_closed rp" and "index \<le> length ops" and "positionAt eng closing index rp = (rp', err)"
  shows "replay_inv eng sem stp view ops rp' \<and> (err = None \<longrightarrow> \<not> rp_closed rp' \<and> rp_position rp' = int index)"
proof (cases "rp_position rp = int index")
  case True
  then show ?thesis using assms by (simp add: positionAt_def)
next
  case False
  have pos: "0 \<le> rp_position rp" using assms(2,3) by (simp add: replay_inv_def)
  define r where "r = (if int index < rp_position rp \<or> rp_position rp < 0 then rebase eng closing index rp else (rp, None))"
  obtain rp1 e1 where r1: "r = (rp1, e1)" by fastforce
  have i1: "replay_inv eng sem stp view ops rp1" "e1 = None \<Longrightarrow> \<not> rp_closed rp1 \<and> rp_position rp1 \<le> int index"
    using rebase_inv[OF laws, OF assms(2,3), of index closing rp1 e1] assms(2,3) r1 pos
    by (auto simp: r_def split: if_splits)
  have run: "positionAt eng closing index rp = (case r of (rp1, Some err) \<Rightarrow> (rp1, Some err)
      | (rp1, None) \<Rightarrow> if rp_engine rp1 = None then (rp1, Some ReplayClosed)
          else advance eng (nat (int index - rp_position rp1)) rp1)"
    using False by (simp add: positionAt_def r_def)
  show ?thesis
  proof (cases "e1 = None \<and> rp_engine rp1 \<noteq> None")
    case True
    then have "advance eng (nat (int index - rp_position rp1)) rp1 = (rp', err)"
      using assms(5) by (auto simp: run r1 split: if_splits)
    then show ?thesis using advance_inv[OF laws, OF i1(1), of "nat (int index - rp_position rp1)" rp' err] i1(2) True assms(4) by auto
  next
    case other: False
    then show ?thesis using assms(5) i1 by (cases e1) (auto simp: run r1 split: if_splits)
  qed
qed

lemma cache_inv:
  assumes "replay_inv eng sem stp view ops rp" and "view (prefix_state eng sem stp ops i) = (rs_json s, rs_digest s)"
  shows "replay_inv eng sem stp view ops (cache_state i s rp)"
  using assms by (auto simp: replay_inv_def cache_state_def Let_def update_conv' delete_conv' split: if_splits)

lemma at_inv:
  assumes laws: "replay_laws eng sem stp view" and "replay_inv eng sem stp view ops rp" and "at_index eng closing i rp = (rp', res)"
  shows "replay_inv eng sem stp view ops rp' \<and> (\<forall>s. res = Inr s \<longrightarrow> view (prefix_state eng sem stp ops (nat i)) = (rs_json s, rs_digest s))"
proof (cases "rp_closed rp \<or> i < 0 \<or> int (length (rp_ops rp)) < i")
  case True
  then have "at_index eng closing i rp = (rp, Inl ReplayClosed) \<or> at_index eng closing i rp = (rp, Inl IndexOutOfRange)"
    unfolding at_index_def by (cases "rp_closed rp") simp_all
  then show ?thesis using assms by auto
next
  case False
  then have o: "\<not> rp_closed rp" "nat i \<le> length ops" "int (nat i) = i" using assms(2) by (auto simp: replay_inv_def)
  show ?thesis
  proof (cases "map_of (rp_states rp) (nat i) \<noteq> None \<and> rp_position rp = i")
    case True
    then show ?thesis using assms o False by (auto simp: at_index_def replay_inv_def)
  next
    case miss: False
    obtain rp1 err where p: "positionAt eng closing (nat i) rp = (rp1, err)" by fastforce
    note i1 = positionAt_inv[OF laws, OF assms(2) o(1,2) p]
    have run: "at_index eng closing i rp = (case positionAt eng closing (nat i) rp of
          (rp1, Some err) \<Rightarrow> (rp1, Inl err)
        | (rp1, None) \<Rightarrow> (case rp_engine rp1 of None \<Rightarrow> (rp1, Inl ReplayClosed) | Some Freed \<Rightarrow> (rp1, Inl EngineError)
            | Some (Live e) \<Rightarrow> let s = \<lparr>rs_json = eng_visible eng e, rs_digest = eng_digest eng e\<rparr>
                in if take 7 (rs_digest s) \<noteq> ''sha256:'' then (rp1, Inl InvalidState) else (cache_state (nat i) s rp1, Inr s)))"
      using False miss by (auto simp: at_index_def split: option.splits bool.splits)
    show ?thesis
    proof (cases "\<exists>e. err = None \<and> rp_engine rp1 = Some (Live e)")
      case True
      then obtain e where e: "err = None" "rp_engine rp1 = Some (Live e)" by blast
      then have "sem e = prefix_state eng sem stp ops (nat i)" using i1 by (auto simp: replay_inv_def)
      then have v: "view (prefix_state eng sem stp ops (nat i)) = (eng_visible eng e, eng_digest eng e)"
        using laws by (metis replay_laws_def)
      then have "replay_inv eng sem stp view ops (cache_state (nat i) \<lparr>rs_json = eng_visible eng e, rs_digest = eng_digest eng e\<rparr> rp1)"
        using cache_inv[of eng sem stp view ops rp1 "nat i"] i1 v by simp
      then show ?thesis using assms(3) i1 e v by (auto simp: run p Let_def split: if_splits)
    next
      case none: False
      then show ?thesis using assms(3) i1
        by (cases err; cases "rp_engine rp1") (auto simp: run p split: engine_ref.splits)
    qed
  qed
qed

lemma replay_step_inv: "replay_laws eng sem stp view \<Longrightarrow> replay_inv eng sem stp view ops rp \<Longrightarrow> replay_inv eng sem stp view ops (replay_step eng c rp)"
  by (cases c) (auto simp: close_inv intro: at_inv[THEN conjunct1, OF _ _ prod.collapse[symmetric]])

lemma open_inv: "open_replay eng ops = Inr rp \<Longrightarrow> replay_inv eng sem stp view ops rp"
  by (auto simp: open_replay_def Let_def replay_inv_def checkpoints_ok_def prefix_state_def strideFor_def split: if_splits)

lemma replays_inv: "replay_laws eng sem stp view \<Longrightarrow> open_replay eng ops = Inr rp \<Longrightarrow> replay_inv eng sem stp view ops (foldl (\<lambda>r c. replay_step eng c r) rp cs)"
  by (induction cs rule: rev_induct) (simp_all add: open_inv replay_step_inv)

section \<open>Properties\<close>

text \<open>
  C15: scrubbing shows the past as it was. After any forward and backward jumps, failed rebases, engine
  exceptions and cache evictions, a call that answers for position \<open>i\<close> shows exactly the text and
  the digest of the first \<open>i\<close> operations folded into an empty engine.
\<close>

theorem replay_shows_prefix:
  assumes "replay_laws eng sem stp view" and "open_replay eng ops = Inr rp"
    and "snd (at_index eng closing i (foldl (\<lambda>r c. replay_step eng c r) rp calls)) = Inr s"
  shows "view (fold stp (take (nat i) ops) (sem (eng_create eng 1))) = (rs_json s, rs_digest s)"
  using at_inv[OF assms(1) replays_inv[OF assms(1,2), of calls] prod.collapse[symmetric], of closing i] assms(3)
  by (simp add: prefix_state_def)

text \<open>An engine that keeps the operations it was given and renders them.\<close>

definition scrub_engine :: "bytes EnginePort" where
  "scrub_engine = pack_engine\<lparr>eng_digest := \<lambda>e. ''sha256:'', eng_visible := map (\<lambda>b. char_of (unat b))\<rparr>"

lemma scrub_laws:
  "replay_laws scrub_engine id (\<lambda>op e. fst (eng_applyRemote scrub_engine op e))
    (\<lambda>e. (eng_visible scrub_engine e, eng_digest scrub_engine e))"
  by (simp add: replay_laws_def scrub_engine_def pack_engine_def)

definition sample_log :: "bytes list" where
  "sample_log = [[65], [66], [67]]"

definition sample_replay :: "bytes DocumentReplay" where
  "sample_replay =
     \<lparr>rp_ops = sample_log, rp_stride = 8, rp_engine = Some (Live []), rp_position = 0, rp_closed = False,
      rp_checkpoints = [(0, [])], rp_states = []\<rparr>"

lemma sample_open: "open_replay scrub_engine sample_log = Inr sample_replay"
proof -
  have "strideFor 3 = 8" by code_simp
  then show ?thesis
    by (simp add: open_replay_def sample_log_def sample_replay_def Let_def scrub_engine_def pack_engine_def numeral_3_eq_3)
qed

definition sample_end :: "bytes DocumentReplay" where
  "sample_end = replay_step scrub_engine (At False 3) sample_replay"

lemma sample_at_end: "rp_position sample_end = 3" "rp_stride sample_end = 8" "rp_closed sample_end = False"
  by code_simp+

lemma sample_back: "snd (at_index scrub_engine False 2 sample_end) = Inr \<lparr>rs_json = map (\<lambda>b. char_of (unat b)) [1, 66, 0, 1, 65, 0 :: 8 word], rs_digest = ''sha256:''\<rparr>"
  by code_simp

text \<open>Forward to the end, then back to the second position.\<close>

theorem replay_shows_prefix_witness:
  "snd (at_index scrub_engine False 2 sample_end) = Inr \<lparr>rs_json = map (\<lambda>b. char_of (unat b)) [1, 66, 0, 1, 65, 0 :: 8 word], rs_digest = ''sha256:''\<rparr>
    \<and> (eng_visible scrub_engine (fold (\<lambda>op e. fst (eng_applyRemote scrub_engine op e)) (take 2 sample_log) []), ''sha256:'')
      = (map (\<lambda>b. char_of (unat b)) [1, 66, 0, 1, 65, 0 :: 8 word], ''sha256:'')"
proof -
  have "sample_end = foldl (\<lambda>r c. replay_step scrub_engine c r) sample_replay [At False 3]"
    by (simp add: sample_end_def)
  then show ?thesis
    using replay_shows_prefix[OF scrub_laws sample_open, of False 2 "[At False 3]"] sample_back
    by (simp add: scrub_engine_def pack_engine_def)
qed

text \<open>
  backward jumps are cheap. After any calls, a jump to a position before the current one starts from a
  checkpoint less than one stride below the target, so it applies fewer than one stride of operations.
\<close>

theorem rebase_bound:
  assumes "replay_laws eng sem stp view" and "open_replay eng ops = Inr rp0"
    and "rp = foldl (\<lambda>r c. replay_step eng c r) rp0 calls" and "\<not> rp_closed rp" and "int index < rp_position rp"
  shows "find_base (rp_stride rp) (rp_checkpoints rp) (index - index mod rp_stride rp) = index - index mod rp_stride rp
    \<and> index - (index - index mod rp_stride rp) < rp_stride rp"
proof -
  have "replay_inv eng sem stp view ops rp" using replays_inv[OF assms(1,2)] assms(3) by simp
  then have s: "0 < rp_stride rp"
    and cp: "checkpoints_ok eng sem (prefix_state eng sem stp ops) (rp_stride rp) (rp_position rp) (rp_checkpoints rp)"
    using assms(4) by (auto simp: replay_inv_def)
  have "rp_stride rp dvd index - index mod rp_stride rp" by (rule dvd_minus_mod)
  moreover have "int (index - index mod rp_stride rp) \<le> rp_position rp" using assms(5) by linarith
  ultimately have "map_of (rp_checkpoints rp) (index - index mod rp_stride rp) \<noteq> None"
    using cp unfolding checkpoints_ok_def by blast
  from find_base_there[OF this s] s show ?thesis by simp
qed

theorem rebase_bound_witness:
  "find_base (rp_stride sample_end) (rp_checkpoints sample_end) (1 - 1 mod rp_stride sample_end) = 1 - 1 mod rp_stride sample_end
    \<and> 1 - (1 - 1 mod rp_stride sample_end) < rp_stride sample_end"
  by (rule rebase_bound[OF scrub_laws sample_open, of _ "[At False 3]"])
    (use sample_at_end in \<open>simp_all add: sample_end_def\<close>)

end
