(* ===== verification/Draft_Merge.thy ===== *)
theory Draft_Merge
  imports Worker_Core "HOL-Library.List_Lexorder" "HOL-Library.Char_ord"
begin

text \<open>
  Local drafts, \<^verbatim>\<open>src/lib/drafts.ts\<close>: a draft is a copy of a document that is edited on the side and
  merged back block by block. The diff anchors on unique unchanged blocks, kept in order by a longest increasing
  subsequence; the merge applies the selected hunks of the draft to what the document has become.
  Blocks are JSON objects, compared by their text with sorted keys.
\<close>

section \<open>Documents and drafts\<close>

type_synonym block = json

definition isRecord :: "json \<Rightarrow> bool" where
  "isRecord v \<longleftrightarrow> (case v of JObj _ \<Rightarrow> True | _ \<Rightarrow> False)"

definition field :: "string \<Rightarrow> json \<Rightarrow> json option" where
  "field k v = (case v of JObj kvs \<Rightarrow> map_of kvs k | _ \<Rightarrow> None)"

text \<open>The blocks of a TipTap document, or nothing.\<close>

definition readTipTapDocument :: "json \<Rightarrow> block list option" where
  "readTipTapDocument v =
     (if \<not> isRecord v \<or> field ''type'' v \<noteq> Some (JStr ''doc'') then None
      else case field ''content'' v of
        Some (JArr bs) \<Rightarrow> if list_all isRecord bs then Some bs else None
      | _ \<Rightarrow> None)"

record LocalDraft =
  ld_id :: string
  ld_documentId :: string
  ld_name :: string
  ld_createdAt :: string
  ld_updatedAt :: string
  ld_baseContentVersion :: int
  ld_baseContent :: json
  ld_content :: json

text \<open>\<open>draft.content.content\<close>; the type promises a document.\<close>

definition doc_blocks :: "json \<Rightarrow> block list" where
  "doc_blocks v = (case readTipTapDocument v of None \<Rightarrow> [] | Some bs \<Rightarrow> bs)"

text \<open>The code sorts the keys of an object; they are distinct, so the values move along.\<close>

fun stableJson :: "json \<Rightarrow> string" where
  "stableJson (JArr xs) = ''['' @ join_comma (map stableJson xs) @ '']''"
| "stableJson (JObj kvs) =
     ''{'' @ join_comma (map (\<lambda>(k, t). quote_string k @ '':'' @ t)
       (sort_key fst (map (\<lambda>(k, v). (k, stableJson v)) kvs))) @ ''}''"
| "stableJson v = json_stringify v"

definition equal_blocks :: "block list \<Rightarrow> block list \<Rightarrow> bool" where
  "equal_blocks xs ys \<longleftrightarrow> stableJson (JArr xs) = stableJson (JArr ys)"

section \<open>The diff\<close>

record BlockHunk =
  hk_start :: nat
  hk_end :: nat
  hk_replacement :: "block list"

definition signatureCount :: "block list \<Rightarrow> string \<Rightarrow> nat" where
  "signatureCount blocks s = length (filter (\<lambda>b. stableJson b = s) blocks)"

text \<open>The only index of a signature that occurs once.\<close>

definition changed_index :: "block list \<Rightarrow> string \<Rightarrow> nat option" where
  "changed_index changed s =
     (if signatureCount changed s = 1 then find (\<lambda>i. stableJson (changed ! i) = s) [0..<length changed] else None)"

record candidate =
  ca_base :: nat
  ca_changed :: nat

definition candidates :: "block list \<Rightarrow> block list \<Rightarrow> candidate list" where
  "candidates base changed =
     concat (map (\<lambda>i.
       let s = stableJson (base ! i)
       in if signatureCount base s = 1
          then (case changed_index changed s of None \<Rightarrow> [] | Some j \<Rightarrow> [\<lparr>ca_base = i, ca_changed = j\<rparr>])
          else []) [0..<length base])"

function lower_bound :: "nat list \<Rightarrow> nat \<Rightarrow> nat \<Rightarrow> nat \<Rightarrow> nat" where
  "lower_bound tails x low high =
     (if low < high
      then let mid = (low + high) div 2
           in if tails ! mid < x then lower_bound tails x (mid + 1) high else lower_bound tails x low mid
      else low)"
  by pat_completeness auto
termination by (relation "measure (\<lambda>(_, _, l, h). h - l)") auto

declare lower_bound.simps [simp del]

text \<open>One pass of the subsequence loop: the tails, their candidates, and the links back (-1 is \<open>None\<close>).\<close>

record lis =
  li_tails :: "nat list"
  li_candidates :: "nat list"
  li_previous :: "nat option list"

definition put_at :: "nat \<Rightarrow> 'a \<Rightarrow> 'a list \<Rightarrow> 'a list" where
  "put_at i x xs = (if i < length xs then xs[i := x] else xs @ [x])"

definition lis_step :: "lis \<Rightarrow> nat \<times> nat \<Rightarrow> lis" where
  "lis_step st ix =
     (case ix of (candidateIndex, x) \<Rightarrow>
        let low = lower_bound (li_tails st) x 0 (length (li_tails st))
        in \<lparr>li_tails = put_at low x (li_tails st),
            li_candidates = put_at low candidateIndex (li_candidates st),
            li_previous = li_previous st @ [if 0 < low then Some (li_candidates st ! (low - 1)) else None]\<rparr>)"

definition lis_run :: "candidate list \<Rightarrow> lis" where
  "lis_run cs =
     foldl lis_step \<lparr>li_tails = [], li_candidates = [], li_previous = []\<rparr>
       (zip [0..<length cs] (map ca_changed cs))"

text \<open>The walk along the links, which lead to smaller indices (lemma \<open>links_down\<close>).\<close>

function chain :: "nat option list \<Rightarrow> nat \<Rightarrow> nat list" where
  "chain previous cursor =
     cursor # (case previous ! cursor of
         None \<Rightarrow> []
       | Some p \<Rightarrow> if p < cursor then chain previous p else [])"
  by pat_completeness auto
termination by (relation "measure snd") auto

declare chain.simps [simp del]

definition anchors :: "block list \<Rightarrow> block list \<Rightarrow> candidate list" where
  "anchors base changed =
     (let cs = candidates base changed; st = lis_run cs
      in if li_candidates st = [] then []
         else map (\<lambda>i. cs ! i) (rev (chain (li_previous st) (last (li_candidates st)))))"

fun hunks_from :: "block list \<Rightarrow> nat \<Rightarrow> block list \<Rightarrow> nat \<Rightarrow> candidate list \<Rightarrow> BlockHunk list" where
  "hunks_from base baseCursor changed changedCursor [] =
     (if baseCursor < length base \<or> changedCursor < length changed
      then [\<lparr>hk_start = baseCursor, hk_end = length base, hk_replacement = drop changedCursor changed\<rparr>] else [])"
| "hunks_from base baseCursor changed changedCursor (a # as) =
     (if baseCursor < ca_base a \<or> changedCursor < ca_changed a
      then [\<lparr>hk_start = baseCursor, hk_end = ca_base a,
              hk_replacement = take (ca_changed a - changedCursor) (drop changedCursor changed)\<rparr>] else [])
     @ hunks_from base (ca_base a + 1) changed (ca_changed a + 1) as"

definition diffBlocks :: "block list \<Rightarrow> block list \<Rightarrow> BlockHunk list" where
  "diffBlocks base changed =
     (if equal_blocks base changed then [] else hunks_from base 0 changed 0 (anchors base changed))"

section \<open>The merge\<close>

definition sameHunk :: "BlockHunk \<Rightarrow> BlockHunk \<Rightarrow> bool" where
  "sameHunk l r \<longleftrightarrow>
     hk_start l = hk_start r \<and> hk_end l = hk_end r \<and> equal_blocks (hk_replacement l) (hk_replacement r)"

definition overlaps :: "BlockHunk \<Rightarrow> BlockHunk \<Rightarrow> bool" where
  "overlaps l r =
     (let leftInsert = (hk_start l = hk_end l); rightInsert = (hk_start r = hk_end r)
      in if leftInsert \<and> rightInsert then hk_start l = hk_start r
         else if leftInsert then hk_start r \<le> hk_start l \<and> hk_start l \<le> hk_end r
         else if rightInsert then hk_start l \<le> hk_start r \<and> hk_start r \<le> hk_end l
         else hk_start l < hk_end r \<and> hk_start r < hk_end l)"

definition growth :: "BlockHunk \<Rightarrow> int" where
  "growth h = int (length (hk_replacement h)) - (int (hk_end h) - int (hk_start h))"

definition shift_before :: "BlockHunk list \<Rightarrow> nat \<Rightarrow> int" where
  "shift_before hunks start = foldl (\<lambda>s h. s + growth h) 0 (filter (\<lambda>h. hk_end h \<le> start) hunks)"

record DraftMergeChange = BlockHunk +
  dc_id :: string
  dc_baseBlocks :: "block list"
  dc_currentBlocks :: "block list"
  dc_conflict :: bool
  dc_alreadyApplied :: bool

definition js_slice :: "int \<Rightarrow> int \<Rightarrow> 'a list \<Rightarrow> 'a list" where
  "js_slice a b xs = take (nat (b - a)) (drop (nat a) xs)"

definition change_of ::
  "block list \<Rightarrow> block list \<Rightarrow> BlockHunk list \<Rightarrow> nat \<Rightarrow> BlockHunk \<Rightarrow> DraftMergeChange" where
  "change_of base current currentHunks index h =
     (let overlapping = filter (overlaps h) currentHunks;
          alreadyApplied = (length overlapping = 1 \<and> sameHunk h (hd overlapping));
          currentStart = int (hk_start h) + shift_before currentHunks (hk_start h)
      in \<lparr>hk_start = hk_start h, hk_end = hk_end h, hk_replacement = hk_replacement h,
          dc_id = ''change-'' @ show_nat index,
          dc_baseBlocks = take (hk_end h - hk_start h) (drop (hk_start h) base),
          dc_currentBlocks = (if overlapping \<noteq> [] then concat (map hk_replacement overlapping)
            else js_slice currentStart (currentStart + (int (hk_end h) - int (hk_start h))) current),
          dc_conflict = (overlapping \<noteq> [] \<and> \<not> alreadyApplied),
          dc_alreadyApplied = alreadyApplied\<rparr>)"

record DraftMergePlan =
  mp_stale :: bool
  mp_changes :: "DraftMergeChange list"

datatype draft_error = NotADocument | SelectedTwice | NotSelectable | DraftStorageFull | TooManyDrafts | ScopeMismatch

definition planDraftMerge :: "LocalDraft \<Rightarrow> json \<Rightarrow> int \<Rightarrow> draft_error + DraftMergePlan" where
  "planDraftMerge draft currentValue currentVersion =
     (case readTipTapDocument currentValue of
        None \<Rightarrow> Inl NotADocument
      | Some current \<Rightarrow>
          let base = doc_blocks (ld_baseContent draft);
              draftHunks = diffBlocks base (doc_blocks (ld_content draft));
              currentHunks = diffBlocks base current
          in Inr \<lparr>mp_stale = (currentVersion \<noteq> ld_baseContentVersion draft \<or> \<not> equal_blocks current base),
                  mp_changes = map (\<lambda>(i, h). change_of base current currentHunks i h)
                    (zip [0..<length draftHunks] draftHunks)\<rparr>)"

record DraftMergeProposal =
  pr_draftId :: string
  pr_baseContentVersion :: int
  pr_observedContentVersion :: int
  pr_selectedChangeIds :: "string list"
  pr_content :: json

text \<open>\<open>blocks.splice(start, count, ...replacement)\<close>; the start is never negative (lemma \<open>splice_at\<close>).\<close>

definition splice :: "int \<Rightarrow> nat \<Rightarrow> 'a list \<Rightarrow> 'a list \<Rightarrow> 'a list" where
  "splice start count replacement xs = take (nat start) xs @ replacement @ drop (nat start + count) xs"

definition apply_change ::
  "BlockHunk list \<Rightarrow> block list \<times> int \<Rightarrow> ('b) BlockHunk_scheme \<Rightarrow> block list \<times> int" where
  "apply_change mainHunks bs change =
     (case bs of (blocks, selectedShift) \<Rightarrow>
        let start = int (hk_start change) + shift_before mainHunks (hk_start change) + selectedShift
        in (splice start (hk_end change - hk_start change) (hk_replacement change) blocks,
            selectedShift + growth (BlockHunk.truncate change)))"

definition selectable :: "DraftMergeChange option \<Rightarrow> bool" where
  "selectable c = (case c of None \<Rightarrow> False | Some d \<Rightarrow> \<not> dc_conflict d \<and> \<not> dc_alreadyApplied d)"

text \<open>\<open>{ ...currentContent, content: blocks }\<close>\<close>

definition with_content :: "json \<Rightarrow> block list \<Rightarrow> json" where
  "with_content v blocks = (case v of JObj kvs \<Rightarrow> JObj (obj_put ''content'' (JArr blocks) kvs) | _ \<Rightarrow> v)"

definition mergeSelectedDraftChanges ::
  "LocalDraft \<Rightarrow> json \<Rightarrow> int \<Rightarrow> string list \<Rightarrow> draft_error + DraftMergeProposal" where
  "mergeSelectedDraftChanges draft currentValue currentVersion selectedChangeIds =
     (case readTipTapDocument currentValue of
        None \<Rightarrow> Inl NotADocument
      | Some current \<Rightarrow>
          if \<not> distinct selectedChangeIds then Inl SelectedTwice
          else bindE (planDraftMerge draft currentValue currentVersion) (\<lambda>plan.
            let selected = map (\<lambda>i. find (\<lambda>c. dc_id c = i) (mp_changes plan)) selectedChangeIds
            in if \<not> list_all selectable selected then Inl NotSelectable
               else
                 let mainHunks = diffBlocks (doc_blocks (ld_baseContent draft)) current;
                     ordered = sort_key hk_start (map the selected);
                     blocks = fst (foldl (apply_change mainHunks) (current, 0) ordered)
                 in Inr \<lparr>pr_draftId = ld_id draft, pr_baseContentVersion = ld_baseContentVersion draft,
                         pr_observedContentVersion = currentVersion, pr_selectedChangeIds = map dc_id ordered,
                         pr_content = with_content currentValue blocks\<rparr>))"

section \<open>Storage\<close>

definition draftStorageKey :: "string \<Rightarrow> string \<Rightarrow> string" where
  "draftStorageKey documentId userId =
     ''concord.drafts.v1.'' @ encodeURIComponent userId @ ''.'' @ encodeURIComponent documentId"

definition MAX_LOCAL_DRAFTS :: nat where "MAX_LOCAL_DRAFTS = 20"
definition MAX_DRAFT_STORAGE_BYTES :: nat where "MAX_DRAFT_STORAGE_BYTES = 2 * 1024 * 1024"

definition byte_length :: "string \<Rightarrow> nat" where
  "byte_length s = length (concat (map utf8_char s))"

definition isLocalDraft :: "json \<Rightarrow> string \<Rightarrow> bool" where
  "isLocalDraft v documentId \<longleftrightarrow>
     isRecord v \<and> field ''documentId'' v = Some (JStr documentId)
     \<and> (\<forall>k \<in> set [''id'', ''name'', ''createdAt'', ''updatedAt''].
          case field k v of Some (JStr _) \<Rightarrow> True | _ \<Rightarrow> False)
     \<and> (case field ''baseContentVersion'' v of Some (JNum _) \<Rightarrow> True | Some (JFrac _) \<Rightarrow> True | _ \<Rightarrow> False)
     \<and> (case field ''baseContent'' v of Some c \<Rightarrow> readTipTapDocument c \<noteq> None | None \<Rightarrow> False)
     \<and> (case field ''content'' v of Some c \<Rightarrow> readTipTapDocument c \<noteq> None | None \<Rightarrow> False)"

definition draft_json :: "LocalDraft \<Rightarrow> json" where
  "draft_json d =
     JObj [(''id'', JStr (ld_id d)), (''documentId'', JStr (ld_documentId d)), (''name'', JStr (ld_name d)),
       (''createdAt'', JStr (ld_createdAt d)), (''updatedAt'', JStr (ld_updatedAt d)),
       (''baseContentVersion'', JNum (ld_baseContentVersion d)), (''baseContent'', ld_baseContent d),
       (''content'', ld_content d)]"

type_synonym web_storage = "string \<rightharpoonup> string"

definition loadLocalDrafts :: "string \<Rightarrow> string \<Rightarrow> web_storage \<Rightarrow> draft_error + json list" where
  "loadLocalDrafts documentId userId storage =
     (case storage (draftStorageKey documentId userId) of
        None \<Rightarrow> Inr []
      | Some raw \<Rightarrow>
          if raw = [] then Inr []
          else if MAX_DRAFT_STORAGE_BYTES < byte_length raw then Inl DraftStorageFull
          else case json_parse raw of
            Some (JArr items) \<Rightarrow>
              let drafts = filter (\<lambda>v. isLocalDraft v documentId) items
              in if MAX_LOCAL_DRAFTS < length drafts then Inl TooManyDrafts else Inr drafts
          | _ \<Rightarrow> Inr [])"

definition saveLocalDrafts ::
  "string \<Rightarrow> string \<Rightarrow> LocalDraft list \<Rightarrow> web_storage \<Rightarrow> draft_error + web_storage" where
  "saveLocalDrafts documentId userId drafts storage =
     (if MAX_LOCAL_DRAFTS < length drafts then Inl TooManyDrafts
      else if \<not> list_all (\<lambda>d. ld_documentId d = documentId) drafts then Inl ScopeMismatch
      else
        let serialized = json_stringify (JArr (map draft_json drafts))
        in if MAX_DRAFT_STORAGE_BYTES < byte_length serialized then Inl DraftStorageFull
           else Inr (storage(draftStorageKey documentId userId \<mapsto> serialized)))"

end
