(* ===== verification/Draft_Correct.thy ===== *)
theory Draft_Correct
  imports Draft_Merge "HOL-Library.Multiset"
begin

text \<open>
  What the drafts keep: the diff takes the base to the changed document, the merge applies the hunks of
  both sides to the base, and saved drafts load again. Documents are compared as the code compares them,
  by the texts of their blocks; the specification is \<open>patch\<close>, which replaces ranges of a list.
\<close>

section \<open>Equality of blocks\<close>

fun canon :: "json \<Rightarrow> json" where
  "canon (JArr xs) = JArr (map canon xs)"
| "canon (JObj kvs) = JObj (sort_key fst (map (\<lambda>(k, v). (k, canon v)) kvs))"
| "canon v = v"

lemma sort_key_map:
  fixes f :: "'v \<Rightarrow> 'w" and xs :: "(string \<times> 'v) list"
  shows "sort_key fst (map (\<lambda>(k, v). (k, f v)) xs) = map (\<lambda>(k, v). (k, f v)) (sort_key fst xs)"
proof -
  have ins: "insort_key fst (k, f v) (map (\<lambda>(k, v). (k, f v)) ys) = map (\<lambda>(k, v). (k, f v)) (insort_key fst (k, v) ys)" for k v ys
    by (induction ys) auto
  show ?thesis by (induction xs) (auto simp: ins)
qed

lemma stableJson_canon: "stableJson v = json_stringify (canon v)"
proof (induction v rule: canon.induct)
  case (2 kvs)
  have m: "map (\<lambda>(k, v). (k, stableJson v)) kvs = map (\<lambda>(k, v). (k, json_stringify (canon v))) kvs"
    using 2 by (auto simp: prod.case_eq_if)
  show ?case
    unfolding stableJson.simps canon.simps json_stringify.simps m sort_key_map
    by (simp add: case_prod_beta comp_def)
qed (simp_all cong: map_cong)

lemma canon_wf: "json_wf v \<Longrightarrow> json_wf (canon v)"
proof (induction v rule: canon.induct)
  case (2 kvs)
  have "distinct (map fst (sort_key fst (map (\<lambda>(k, v). (k, canon v)) kvs)))"
    using 2(2) by (simp add: distinct_map case_prod_beta comp_def inj_on_def) (auto simp: inj_on_def)
  then show ?case using 2 by (auto simp: case_prod_beta)
qed auto

lemma equal_blocks_texts:
  assumes "equal_blocks xs ys" and "\<forall>b \<in> set xs \<union> set ys. json_wf b"
  shows "map stableJson xs = map stableJson ys"
proof -
  have "json_wf (canon (JArr xs))" "json_wf (canon (JArr ys))"
    using assms(2) canon_wf by auto
  then have "canon (JArr xs) = canon (JArr ys)"
    using assms(1) json_parse_stringify unfolding equal_blocks_def stableJson_canon by (metis option.inject)
  then have "map json_stringify (map canon xs) = map json_stringify (map canon ys)" by simp
  moreover have "map stableJson = map json_stringify \<circ> map canon" by (auto simp: stableJson_canon)
  ultimately show ?thesis by simp
qed

section \<open>The anchors\<close>

definition matches :: "block list \<Rightarrow> block list \<Rightarrow> candidate \<Rightarrow> bool" where
  "matches base changed c \<longleftrightarrow>
     ca_base c < length base \<and> ca_changed c < length changed
     \<and> stableJson (base ! ca_base c) = stableJson (changed ! ca_changed c)"

lemma changed_index_Some:
  "changed_index changed s = Some j \<Longrightarrow> j < length changed \<and> stableJson (changed ! j) = s"
  by (auto simp: changed_index_def find_Some_iff split: if_splits)

lemma candidates_match: "c \<in> set (candidates base changed) \<Longrightarrow> matches base changed c"
  by (auto simp: candidates_def Let_def matches_def dest: changed_index_Some[OF sym] split: if_splits option.splits)

lemma candidates_sorted: "sorted_wrt (\<lambda>a b. ca_base a < ca_base b) (candidates base changed)"
proof -
  have "sorted_wrt (\<lambda>a b. ca_base a < ca_base b) (concat (map f [0..<n]))
      \<and> (\<forall>c \<in> set (concat (map f [0..<n])). ca_base c < n)"
    if "\<And>i. f i = [] \<or> (\<exists>j. f i = [\<lparr>ca_base = i, ca_changed = j\<rparr>])" for f :: "nat \<Rightarrow> candidate list" and n
  proof (induction n)
    case (Suc n)
    then show ?case using that[of n] by (auto simp: sorted_wrt_append less_Suc_eq)
  qed simp
  then show ?thesis unfolding candidates_def
    by (rule conjunct1) (auto simp: Let_def split: option.splits)
qed

lemma lower_bound_spec:
  assumes "sorted_wrt (<) tails" and "low \<le> high" and "high \<le> length tails"
    and "\<forall>j < low. tails ! j < x" and "\<forall>j. high \<le> j \<longrightarrow> j < length tails \<longrightarrow> x \<le> tails ! j"
  shows "lower_bound tails x low high \<le> length tails
    \<and> (\<forall>j < lower_bound tails x low high. tails ! j < x)
    \<and> (\<forall>j. lower_bound tails x low high \<le> j \<longrightarrow> j < length tails \<longrightarrow> x \<le> tails ! j)"
  using assms
proof (induction tails x low high rule: lower_bound.induct)
  case (1 tails x low high)
  show ?case
  proof (cases "low < high")
    case True
    let ?mid = "(low + high) div 2"
    have m: "low \<le> ?mid" "?mid < high" using True by auto
    have mono: "tails ! i \<le> tails ! j" if "i \<le> j" "j < length tails" for i j
      using that sorted_wrt_nth_less[OF 1(3)] by (cases "i = j") (auto intro: less_imp_le)
    show ?thesis
    proof (cases "tails ! ?mid < x")
      case lt: True
      have "\<forall>j < ?mid + 1. tails ! j < x"
        using lt mono[of _ ?mid] m 1(5) by (auto simp: less_Suc_eq_le intro: le_less_trans)
      moreover have "lower_bound tails x low high = lower_bound tails x (?mid + 1) high"
        using lt True by (subst lower_bound.simps) (simp add: Let_def)
      moreover have "?mid + 1 \<le> high" using m(2) by linarith
      ultimately show ?thesis using 1(1)[OF True refl lt 1(3)] 1(5,7) by metis
    next
      case ge: False
      have "\<forall>j. ?mid \<le> j \<longrightarrow> j < length tails \<longrightarrow> x \<le> tails ! j"
        using ge mono[of ?mid] by (meson not_less order_trans)
      moreover have "lower_bound tails x low high = lower_bound tails x low ?mid"
        using ge True by (subst lower_bound.simps) (simp add: Let_def)
      moreover have "?mid \<le> length tails" using m(2) 1(5) by linarith
      ultimately show ?thesis using 1(2)[OF True refl ge 1(3) m(1)] 1(6) by presburger
    qed
  next
    case False
    have r: "lower_bound tails x low high = low" by (subst lower_bound.simps) (simp add: False)
    have "high = low" using False 1(4) by simp
    then show ?thesis unfolding r using 1(5-7) by simp
  qed
qed

definition links_ok :: "(nat \<Rightarrow> nat) \<Rightarrow> nat option list \<Rightarrow> bool" where
  "links_ok X previous \<longleftrightarrow> (\<forall>c < length previous. \<forall>p. previous ! c = Some p \<longrightarrow> p < c \<and> X p < X c)"

definition lis_ok :: "(nat \<Rightarrow> nat) \<Rightarrow> nat \<Rightarrow> lis \<Rightarrow> bool" where
  "lis_ok X k st \<longleftrightarrow>
     length (li_tails st) = length (li_candidates st) \<and> sorted_wrt (<) (li_tails st)
     \<and> (\<forall>j < length (li_tails st). li_candidates st ! j < k \<and> li_tails st ! j = X (li_candidates st ! j))
     \<and> length (li_previous st) = k \<and> links_ok X (li_previous st)"

lemma sorted_put_at:
  assumes "sorted_wrt (<) (xs :: nat list)" and "r \<le> length xs" and "\<forall>j < r. xs ! j < x"
    and "\<forall>j. r \<le> j \<longrightarrow> j < length xs \<longrightarrow> x \<le> xs ! j"
  shows "sorted_wrt (<) (put_at r x xs)"
proof (cases "r < length xs")
  case True
  have "\<forall>i j. i < j \<longrightarrow> j < length xs \<longrightarrow> xs[r := x] ! i < xs[r := x] ! j"
    using assms True sorted_wrt_nth_less[OF assms(1)]
    by (auto simp: nth_list_update) (metis le_less_trans less_imp_le_nat order_refl)
  then show ?thesis using True by (simp add: put_at_def sorted_wrt_iff_nth_less)
next
  case False
  then show ?thesis using assms by (auto simp: put_at_def sorted_wrt_append in_set_conv_nth)
qed

lemma lis_step_ok:
  assumes "lis_ok X k st"
  shows "lis_ok X (Suc k) (lis_step st (k, X k))"
proof -
  let ?t = "li_tails st" and ?c = "li_candidates st"
  define r where "r = lower_bound ?t (X k) 0 (length ?t)"
  have o: "length ?t = length ?c" "sorted_wrt (<) ?t" "length (li_previous st) = k" "links_ok X (li_previous st)"
    "\<forall>j < length ?t. ?c ! j < k \<and> ?t ! j = X (?c ! j)"
    using assms by (auto simp: lis_ok_def)
  have b: "r \<le> length ?t" "\<forall>j < r. ?t ! j < X k" "\<forall>j. r \<le> j \<longrightarrow> j < length ?t \<longrightarrow> X k \<le> ?t ! j"
    using lower_bound_spec[OF o(2), of 0 "length ?t" "X k"] by (auto simp: r_def)
  have st: "lis_step st (k, X k) = \<lparr>li_tails = put_at r (X k) ?t, li_candidates = put_at r k ?c,
      li_previous = li_previous st @ [if 0 < r then Some (?c ! (r - 1)) else None]\<rparr>"
    by (simp add: lis_step_def r_def Let_def)
  have "links_ok X (li_previous st @ [if 0 < r then Some (?c ! (r - 1)) else None])"
    unfolding links_ok_def
  proof (intro allI impI)
    fix c p
    assume a: "c < length (li_previous st @ [if 0 < r then Some (?c ! (r - 1)) else None])"
      "(li_previous st @ [if 0 < r then Some (?c ! (r - 1)) else None]) ! c = Some p"
    show "p < c \<and> X p < X c"
    proof (cases "c < k")
      case True
      then show ?thesis using a(2) o(3,4) by (simp add: links_ok_def nth_append)
    next
      case False
      then have "c = k" "0 < r" "p = ?c ! (r - 1)" using a o(3) by (auto simp: nth_append split: if_splits)
      moreover have "r - 1 < length ?t" "r - 1 < r" using b(1) \<open>0 < r\<close> by auto
      ultimately show ?thesis using o(5) b(2) by metis
    qed
  qed
  moreover have "\<forall>j < length (put_at r (X k) ?t). put_at r k ?c ! j < Suc k \<and> put_at r (X k) ?t ! j = X (put_at r k ?c ! j)"
    using o(1,5) b(1) by (auto simp: put_at_def nth_list_update nth_append less_Suc_eq)
  moreover have "length (put_at r (X k) ?t) = length (put_at r k ?c)" using o(1) by (simp add: put_at_def)
  ultimately show ?thesis using o(3) sorted_put_at[OF o(2) b] by (simp add: lis_ok_def st)
qed

lemma lis_run_ok: "lis_ok (\<lambda>i. ca_changed (cs ! i)) (length cs) (lis_run cs)"
proof -
  let ?X = "\<lambda>i. ca_changed (cs ! i)"
  let ?st = "\<lparr>li_tails = [], li_candidates = [], li_previous = []\<rparr>"
  have "n \<le> length cs \<Longrightarrow> lis_ok ?X n (foldl lis_step ?st (map (\<lambda>i. (i, ?X i)) [0..<n]))" for n
  proof (induction n)
    case 0
    show ?case by (simp add: lis_ok_def links_ok_def)
  next
    case (Suc n)
    then show ?case using lis_step_ok[of ?X n] by simp
  qed
  moreover have "zip [0..<length cs] (map ca_changed cs) = map (\<lambda>i. (i, ?X i)) [0..<length cs]"
    by (rule nth_equalityI) auto
  ultimately show ?thesis by (simp add: lis_run_def)
qed

text \<open>The links lead down, so the walk visits what the code's walk visits.\<close>

lemma links_down:
  assumes "links_ok X previous" and "c < length previous"
  shows "b \<in> set (chain previous c) \<Longrightarrow> b = c \<or> b < c \<and> X b < X c"
    and "sorted_wrt (\<lambda>a b. b < a \<and> X b < X a) (chain previous c)"
proof -
  have "(\<forall>b \<in> set (chain previous c). b = c \<or> b < c \<and> X b < X c)
      \<and> sorted_wrt (\<lambda>a b. b < a \<and> X b < X a) (chain previous c)"
    using assms
  proof (induction previous c rule: chain.induct)
    case (1 previous c)
    show ?case
    proof (cases "previous ! c")
      case None
      then show ?thesis by (subst (1 2) chain.simps) simp
    next
      case (Some p)
      then have p: "p < c" "X p < X c" using 1(2,3) by (auto simp: links_ok_def)
      have "chain previous c = c # chain previous p"
        using Some p(1) by (subst chain.simps) simp
      then show ?thesis using 1(1)[OF Some p(1) 1(2)] p 1(3) by fastforce
    qed
  qed
  then show "b \<in> set (chain previous c) \<Longrightarrow> b = c \<or> b < c \<and> X b < X c"
    "sorted_wrt (\<lambda>a b. b < a \<and> X b < X a) (chain previous c)" by auto
qed

definition ascending :: "candidate list \<Rightarrow> bool" where
  "ascending as \<longleftrightarrow> sorted_wrt (\<lambda>a b. ca_base a < ca_base b \<and> ca_changed a < ca_changed b) as"

lemma anchors_ok: "ascending (anchors base changed) \<and> (\<forall>a \<in> set (anchors base changed). matches base changed a)"
proof -
  let ?cs = "candidates base changed"
  let ?X = "\<lambda>i. ca_changed (?cs ! i)" and ?st = "lis_run ?cs"
  note ok = lis_run_ok[of ?cs, unfolded lis_ok_def]
  show ?thesis
  proof (cases "li_candidates ?st = []")
    case True
    then show ?thesis by (simp add: anchors_def ascending_def Let_def)
  next
    case False
    let ?l = "last (li_candidates ?st)" and ?p = "li_previous ?st"
    have len: "length ?p = length ?cs" and links: "links_ok ?X ?p" using ok by simp_all
    have "\<forall>j < length (li_candidates ?st). li_candidates ?st ! j < length ?cs" using ok by auto
    then have l: "?l < length ?p" using False len by (simp add: last_conv_nth)
    have below: "b < length ?cs" if "b \<in> set (chain ?p ?l)" for b
      using links_down(1)[OF links l that] l len by auto
    have "sorted_wrt (\<lambda>a b. a < b \<and> ?X a < ?X b) (rev (chain ?p ?l))"
      using links_down(2)[OF links l] by (simp add: sorted_wrt_rev)
    then have "sorted_wrt (\<lambda>a b. ca_base (?cs ! a) < ca_base (?cs ! b) \<and> ?X a < ?X b) (rev (chain ?p ?l))"
      by (rule sorted_wrt_mono_rel[rotated]) (auto intro: sorted_wrt_nth_less[OF candidates_sorted] below)
    then show ?thesis
      using False below candidates_match[OF nth_mem, of _ base changed] by (auto simp: anchors_def Let_def ascending_def sorted_wrt_map)
  qed
qed

section \<open>Patches\<close>

text \<open>An edit of a list of texts: the range that it replaces and what it puts there.\<close>

type_synonym edit = "nat \<times> nat \<times> string list"

fun patch :: "nat \<Rightarrow> string list \<Rightarrow> edit list \<Rightarrow> string list" where
  "patch pos base [] = drop pos base"
| "patch pos base ((s, t, r) # es) = take (s - pos) (drop pos base) @ r @ patch t base es"

abbreviation texts :: "block list \<Rightarrow> string list" where
  "texts \<equiv> map stableJson"

definition edit_of :: "('b) BlockHunk_scheme \<Rightarrow> edit" where
  "edit_of h = (hk_start h, hk_end h, texts (hk_replacement h))"

definition before :: "edit \<Rightarrow> edit \<Rightarrow> bool" where
  "before e e' \<longleftrightarrow> fst e < fst e' \<and> fst (snd e) \<le> fst e'"

definition edits_ok :: "nat \<Rightarrow> edit list \<Rightarrow> bool" where
  "edits_ok n es \<longleftrightarrow> sorted_wrt before es \<and> (\<forall>(s, t, r) \<in> set es. s \<le> t \<and> t \<le> n)"

lemma edits_ok_simps [simp]:
  "edits_ok n []"
  "edits_ok n (e # es) \<longleftrightarrow> fst e \<le> fst (snd e) \<and> fst (snd e) \<le> n \<and> (\<forall>e' \<in> set es. before e e') \<and> edits_ok n es"
  by (auto simp: edits_ok_def)

lemma drop_at:
  assumes "c \<le> m" and "m < length xs"
  shows "drop c xs = take (m - c) (drop c xs) @ xs ! m # drop (m + 1) xs"
proof -
  note append_take_drop_id[symmetric, of "drop c xs" "m - c"]
  moreover have "drop (m - c) (drop c xs) = drop m xs" using assms(1) by simp
  moreover have "drop m xs = xs ! m # drop (m + 1) xs" using Cons_nth_drop_Suc[OF assms(2)] by simp
  ultimately show ?thesis by argo
qed

lemma take_at:
  assumes "c \<le> m" and "m < length xs" and "m < s"
  shows "take (s - c) (drop c xs) = take (m - c) (drop c xs) @ xs ! m # take (s - (m + 1)) (drop (m + 1) xs)"
proof -
  have l: "length (take (m - c) (drop c xs)) = m - c" using assms(2) by simp
  have "take (s - c) (take (m - c) (drop c xs) @ xs ! m # drop (m + 1) xs)
      = take (m - c) (drop c xs) @ take (s - c - (m - c)) (xs ! m # drop (m + 1) xs)"
    unfolding take_append l using assms by simp
  also have "take (s - c - (m - c)) (xs ! m # drop (m + 1) xs) = xs ! m # take (s - (m + 1)) (drop (m + 1) xs)"
    using assms by (simp add: take_Cons' Suc_diff_Suc)
  finally show ?thesis unfolding drop_at[OF assms(1,2), symmetric] .
qed

lemma hunks_from_spec:
  assumes "ascending as" and "\<forall>a \<in> set as. matches base changed a" and "bc \<le> length base" and "cc \<le> length changed"
    and "\<forall>a \<in> set as. bc \<le> ca_base a \<and> cc \<le> ca_changed a"
  shows "patch bc (texts base) (map edit_of (hunks_from base bc changed cc as)) = drop cc (texts changed)
    \<and> edits_ok (length base) (map edit_of (hunks_from base bc changed cc as))
    \<and> (\<forall>h \<in> set (hunks_from base bc changed cc as). bc \<le> hk_start h)"
  using assms
proof (induction base bc changed cc as rule: hunks_from.induct)
  case (1 base bc changed cc)
  then show ?case by (auto simp: edit_of_def drop_map)
next
  case (2 base bc changed cc a as)
  let ?rest = "hunks_from base (ca_base a + 1) changed (ca_changed a + 1) as"
  have m: "matches base changed a" and le: "bc \<le> ca_base a" "cc \<le> ca_changed a" using 2 by simp_all
  then have lt: "ca_base a < length base" "ca_changed a < length changed"
    and eq: "stableJson (base ! ca_base a) = stableJson (changed ! ca_changed a)" by (simp_all add: matches_def)
  have ih: "patch (ca_base a + 1) (texts base) (map edit_of ?rest) = drop (ca_changed a + 1) (texts changed)"
    "edits_ok (length base) (map edit_of ?rest)" "\<forall>h \<in> set ?rest. ca_base a + 1 \<le> hk_start h"
    using 2 lt by (simp_all add: ascending_def Suc_le_eq)
  have split: "drop c (texts changed) = take (ca_changed a - c) (drop c (texts changed)) @ texts [changed ! ca_changed a]
      @ drop (ca_changed a + 1) (texts changed)" if "c \<le> ca_changed a" for c
    using drop_at[OF that, of "texts changed"] lt(2) by simp
  have same: "patch b (texts base) es = take (ca_base a - b) (drop b (texts base)) @ texts [base ! ca_base a]
      @ patch (ca_base a + 1) (texts base) es" if "b \<le> ca_base a" "\<forall>e \<in> set es. ca_base a + 1 \<le> fst e" for b es
  proof (cases es)
    case Nil
    then show ?thesis using drop_at[OF that(1), of "texts base"] lt(1) by simp
  next
    case (Cons e es')
    obtain s t r where e: "e = (s, t, r)" by (cases e)
    have "ca_base a + 1 \<le> s" using that Cons e by simp
    then have "take (s - b) (drop b (texts base)) = take (ca_base a - b) (drop b (texts base)) @ texts [base ! ca_base a]
        @ take (s - (ca_base a + 1)) (drop (ca_base a + 1) (texts base))"
      using take_at[OF that(1), of "texts base" s] lt(1) by simp
    then show ?thesis by (simp add: Cons e)
  qed
  have starts: "\<forall>e \<in> set (map edit_of ?rest). ca_base a + 1 \<le> fst e" using ih(3) by (auto simp: edit_of_def)
  show ?case
  proof (cases "bc < ca_base a \<or> cc < ca_changed a")
    case True
    let ?h = "\<lparr>hk_start = bc, hk_end = ca_base a, hk_replacement = take (ca_changed a - cc) (drop cc changed)\<rparr>"
    have hs: "hunks_from base bc changed cc (a # as) = ?h # ?rest" using True by simp
    have "patch (ca_base a) (texts base) (map edit_of ?rest) = texts [base ! ca_base a] @ patch (ca_base a + 1) (texts base) (map edit_of ?rest)"
      using same[OF order_refl starts] by simp
    then have "patch bc (texts base) (map edit_of (?h # ?rest)) = drop cc (texts changed)"
      using ih(1) split[OF le(2)] eq by (simp add: edit_of_def take_map drop_map)
    moreover have "\<forall>e \<in> set (map edit_of ?rest). before (edit_of ?h) e"
      using starts le(1) by (fastforce simp: before_def edit_of_def)
    moreover have "edit_of ?h = (bc, ca_base a, texts (hk_replacement ?h))" by (simp add: edit_of_def)
    moreover have "\<forall>h \<in> set (?h # ?rest). bc \<le> hk_start h" using ih(3) le(1) by fastforce
    ultimately show ?thesis
      unfolding hs using ih(2) le lt by simp
  next
    case False
    then have "bc = ca_base a" "cc = ca_changed a" using le by auto
    then show ?thesis
      using same[OF order_refl starts] split[OF order_refl] ih eq by auto
  qed
qed

definition wf_blocks :: "block list \<Rightarrow> bool" where
  "wf_blocks bs \<longleftrightarrow> list_all json_wf bs"

lemma diff_spec:
  assumes "wf_blocks base" and "wf_blocks changed"
  shows "patch 0 (texts base) (map edit_of (diffBlocks base changed)) = texts changed"
    and "edits_ok (length base) (map edit_of (diffBlocks base changed))"
proof -
  note spec = hunks_from_spec[of "anchors base changed" base changed 0 0] anchors_ok[of base changed]
  show "patch 0 (texts base) (map edit_of (diffBlocks base changed)) = texts changed"
  proof (cases "equal_blocks base changed")
    case True
    then show ?thesis using equal_blocks_texts[OF True] assms by (auto simp: diffBlocks_def wf_blocks_def list_all_iff)
  next
    case False
    then show ?thesis using spec by (simp add: diffBlocks_def)
  qed
  show "edits_ok (length base) (map edit_of (diffBlocks base changed))"
    using spec by (simp add: diffBlocks_def)
qed

section \<open>The merge\<close>

definition place :: "edit \<Rightarrow> edit list \<Rightarrow> edit list" where
  "place e es = filter (\<lambda>e'. fst e' < fst e) es @ e # filter (\<lambda>e'. \<not> fst e' < fst e) es"

definition gain :: "edit \<Rightarrow> int" where
  "gain e = int (length (snd (snd e))) - (int (fst (snd e)) - int (fst e))"

fun prefix_patch :: "nat \<Rightarrow> string list \<Rightarrow> edit list \<Rightarrow> nat \<Rightarrow> string list" where
  "prefix_patch pos base [] p = take (p - pos) (drop pos base)"
| "prefix_patch pos base ((s, t, r) # es) p = take (s - pos) (drop pos base) @ r @ prefix_patch t base es p"

lemma patch_advance:
  "pos \<le> p \<Longrightarrow> \<forall>e \<in> set es. p \<le> fst e \<Longrightarrow> patch pos base es = take (p - pos) (drop pos base) @ patch p base es"
proof (cases es)
  case Nil
  assume "pos \<le> p"
  then show ?thesis using Nil append_take_drop_id[of "p - pos" "drop pos base"] by simp
next
  case (Cons e es')
  assume le: "pos \<le> p" "\<forall>e \<in> set es. p \<le> fst e"
  obtain s t r where e: "e = (s, t, r)" by (cases e)
  then have "p \<le> s" using le Cons by simp
  then have "take (s - pos) (drop pos base) = take (p - pos) (drop pos base) @ take (s - p) (drop p base)"
    using le(1) take_add[of "p - pos" "s - p" "drop pos base"] by simp
  then show ?thesis by (simp add: Cons e)
qed

lemma patch_append:
  assumes "edits_ok (length base) H" and "\<forall>e \<in> set H. pos \<le> fst e \<and> fst (snd e) \<le> p" and "pos \<le> p" and "p \<le> length base"
    and "\<forall>e \<in> set H'. p \<le> fst e"
  shows "patch pos base (H @ H') = prefix_patch pos base H p @ patch p base H'"
    and "int (length (prefix_patch pos base H p)) = int p - int pos + sum_list (map gain H)"
proof -
  have "patch pos base (H @ H') = prefix_patch pos base H p @ patch p base H'
      \<and> int (length (prefix_patch pos base H p)) = int p - int pos + sum_list (map gain H)"
    using assms
  proof (induction H arbitrary: pos)
    case Nil
    then show ?case using patch_advance[of pos p H' base] by simp
  next
    case (Cons e H)
    obtain s t r where e: "e = (s, t, r)" by (cases e)
    have le: "pos \<le> s" "s \<le> t" "t \<le> p" "t \<le> length base" using Cons.prems by (auto simp: e)
    have "\<forall>e \<in> set H. t \<le> fst e \<and> fst (snd e) \<le> p" using Cons.prems by (auto simp: e before_def)
    from Cons.IH[OF _ this le(3) Cons.prems(4,5)] Cons.prems(1) le show ?case by (simp add: e gain_def)
  qed
  then show "patch pos base (H @ H') = prefix_patch pos base H p @ patch p base H'"
    "int (length (prefix_patch pos base H p)) = int p - int pos + sum_list (map gain H)" by auto
qed

lemma filter_sorted:
  assumes "sorted_wrt before es"
  shows "es = filter (\<lambda>e'. fst e' < k) es @ filter (\<lambda>e'. \<not> fst e' < k) es"
  using assms
proof (induction es)
  case (Cons e es)
  show ?case
  proof (cases "fst e < k")
    case True
    then show ?thesis using Cons by simp
  next
    case False
    then have "\<forall>e' \<in> set es. \<not> fst e' < k" using Cons.prems by (auto simp: before_def)
    then have "filter (\<lambda>e'. fst e' < k) es = []" "filter (\<lambda>e'. \<not> fst e' < k) es = es"
      by (simp_all add: filter_empty_conv)
    then show ?thesis using False by simp
  qed
qed simp

lemma place_ok:
  assumes "edits_ok n es" and "s \<le> t" and "t \<le> n" and "\<forall>e \<in> set es. before e (s, t, r) \<or> before (s, t, r) e"
  shows "edits_ok n (place (s, t, r) es)"
  using assms unfolding edits_ok_def place_def
  by (auto simp: sorted_wrt_append sorted_wrt_filter before_def)

lemma splice_at:
  assumes "edits_ok (length base) es" and "s \<le> t" and "t \<le> length base"
    and "\<forall>e \<in> set es. before e (s, t, r) \<or> before (s, t, r) e"
  shows "splice (int s + sum_list (map gain (filter (\<lambda>e'. fst e' < s) es))) (t - s) r (patch 0 base es)
    = patch 0 base (place (s, t, r) es)"
    and "0 \<le> int s + sum_list (map gain (filter (\<lambda>e'. fst e' < s) es))"
proof -
  define H where "H = filter (\<lambda>e'. fst e' < s) es"
  define H' where "H' = filter (\<lambda>e'. \<not> fst e' < s) es"
  have es: "es = H @ H'"
    unfolding H_def H'_def by (rule filter_sorted) (use assms(1) in \<open>simp add: edits_ok_def\<close>)
  have ok: "edits_ok (length base) H" using assms(1) by (auto simp: H_def edits_ok_def sorted_wrt_filter)
  have h: "\<forall>e \<in> set H. 0 \<le> fst e \<and> fst (snd e) \<le> s" using assms(4) by (auto simp: H_def before_def)
  have h': "\<forall>e \<in> set H'. s \<le> fst e \<and> t \<le> fst e" using assms(4) by (auto simp: H'_def before_def)
  note pa = patch_append[OF ok h _ order_trans[OF assms(2,3)]]
  have len: "int (length (prefix_patch 0 base H s)) = int s + sum_list (map gain H)" using pa(2)[of "[]"] by simp
  then show "0 \<le> int s + sum_list (map gain (filter (\<lambda>e'. fst e' < s) es))" unfolding H_def by linarith
  have n: "nat (int s + sum_list (map gain H)) = length (prefix_patch 0 base H s)" using len by linarith
  have p1: "patch 0 base es = prefix_patch 0 base H s @ take (t - s) (drop s base) @ patch t base H'"
    unfolding es using pa(1)[of H'] patch_advance[OF assms(2), of H' base] h' by simp
  have p2: "patch 0 base (place (s, t, r) es) = prefix_patch 0 base H s @ r @ patch t base H'"
    unfolding place_def fst_conv H_def[symmetric] H'_def[symmetric] using pa(1)[of "(s, t, r) # H'"] h' assms(2) by simp
  have "length (take (t - s) (drop s base)) = t - s" using assms(2,3) by simp
  then show "splice (int s + sum_list (map gain (filter (\<lambda>e'. fst e' < s) es))) (t - s) r (patch 0 base es)
      = patch 0 base (place (s, t, r) es)"
    unfolding H_def[symmetric] splice_def n p1 p2 by simp
qed

lemma not_overlaps_before:
  "\<not> overlaps h m \<Longrightarrow> hk_start h \<le> hk_end h \<Longrightarrow> hk_start m \<le> hk_end m \<Longrightarrow>
    before (edit_of m) (edit_of h) \<or> before (edit_of h) (edit_of m)"
  by (auto simp: overlaps_def Let_def before_def edit_of_def split: if_splits)

lemma gain_edit: "gain (edit_of h) = growth (BlockHunk.truncate h)"
  by (simp add: gain_def edit_of_def growth_def BlockHunk.truncate_def)

lemma sum_split: "sum_list (map gain (filter P (filter Q es))) + sum_list (map gain (filter P (filter (\<lambda>e. \<not> Q e) es)))
    = sum_list (map gain (filter P es))"
  by (induction es) auto

lemma sum_place:
  "sum_list (map gain (filter P (place e es))) = (if P e then gain e else 0) + sum_list (map gain (filter P es))"
  using sum_split[of P "\<lambda>e'. fst e' < fst e" es] by (simp add: place_def)

lemma foldl_sum: "foldl (\<lambda>s h. s + f h) (a :: int) xs = a + sum_list (map f xs)"
  by (induction xs arbitrary: a) simp_all

lemma shift_before_sum:
  assumes "\<forall>m \<in> set M. before (edit_of m) e \<or> before e (edit_of m)" and "fst e \<le> fst (snd e)"
    and "\<forall>m \<in> set M. hk_start m \<le> hk_end m"
  shows "shift_before M (fst e) = sum_list (map gain (filter (\<lambda>e'. fst e' < fst e) (map edit_of M)))"
proof -
  have "filter (\<lambda>h. hk_end h \<le> fst e) M = filter (\<lambda>h. hk_start h < fst e) M"
  proof (intro filter_cong refl)
    fix m
    assume "m \<in> set M"
    then have "before (edit_of m) e \<or> before e (edit_of m)" "hk_start m \<le> hk_end m" using assms by auto
    then show "(hk_end m \<le> fst e) = (hk_start m < fst e)"
      using assms(2) by (auto simp: before_def edit_of_def)
  qed
  moreover have "growth m = gain (edit_of m)" for m :: BlockHunk
    by (simp add: gain_def edit_of_def growth_def)
  ultimately show ?thesis
    by (simp add: shift_before_def foldl_sum filter_map comp_def) (simp add: edit_of_def)
qed

definition apart_from :: "edit list \<Rightarrow> edit \<Rightarrow> bool" where
  "apart_from es e \<longleftrightarrow> (\<forall>e' \<in> set es. before e' e \<or> before e e')"

lemma set_place: "set (place e es) = insert e (set es)"
  by (auto simp: place_def)

lemma mset_place: "mset (place e es) = add_mset e (mset es)"
proof -
  have "mset (filter P es) + mset (filter (\<lambda>x. \<not> P x) es) = mset es" for P :: "edit \<Rightarrow> bool"
    by (induction es) auto
  then show ?thesis by (simp add: place_def)
qed

lemma map_of_obj_put_same: "map_of (obj_put k v kvs) k = Some v"
  by (induction k v kvs rule: obj_put.induct) auto

lemma merge_fold:
  assumes "edits_ok (length base) es" and "texts blocks = patch 0 base es"
    and "\<forall>c \<in> set cs. hk_start c \<le> hk_end c \<and> hk_end c \<le> length base \<and> apart_from es (edit_of c)"
    and "\<forall>c \<in> set cs. sum_list (map gain (filter (\<lambda>e. fst e < hk_start c) es)) = shift_before M (hk_start c) + sh"
    and "sorted_wrt (\<lambda>c c'. before (edit_of c) (edit_of c')) cs"
  shows "texts (fst (foldl (apply_change M) (blocks, sh) cs)) = patch 0 base (foldl (\<lambda>es c. place (edit_of c) es) es cs)
    \<and> edits_ok (length base) (foldl (\<lambda>es c. place (edit_of c) es) es cs)"
  using assms
proof (induction cs arbitrary: es blocks sh)
  case (Cons c cs)
  have c: "hk_start c \<le> hk_end c" "hk_end c \<le> length base" "apart_from es (edit_of c)"
    "sum_list (map gain (filter (\<lambda>e. fst e < hk_start c) es)) = shift_before M (hk_start c) + sh"
    using Cons.prems(3,4) by simp_all
  let ?r = "texts (hk_replacement c)"
  have e: "edit_of c = (hk_start c, hk_end c, ?r)" by (simp add: edit_of_def)
  have ap: "\<forall>e \<in> set es. before e (hk_start c, hk_end c, ?r) \<or> before (hk_start c, hk_end c, ?r) e"
    using c(3) by (simp add: apart_from_def e)
  obtain blocks' sh' where step: "apply_change M (blocks, sh) c = (blocks', sh')" by fastforce
  then have b': "blocks' = splice (int (hk_start c) + shift_before M (hk_start c) + sh) (hk_end c - hk_start c) (hk_replacement c) blocks"
    and sh': "sh' = sh + gain (edit_of c)"
    by (simp_all add: apply_change_def Let_def gain_edit)
  have "texts blocks' = splice (int (hk_start c) + (shift_before M (hk_start c) + sh)) (hk_end c - hk_start c) ?r (texts blocks)"
    by (simp add: b' splice_def take_map drop_map add.assoc)
  then have t: "texts blocks' = patch 0 base (place (edit_of c) es)"
    using splice_at(1)[OF Cons.prems(1) c(1,2) ap] Cons.prems(2) c(4) by (simp add: e)
  have ok: "edits_ok (length base) (place (edit_of c) es)"
    unfolding e by (rule place_ok[OF Cons.prems(1) c(1,2) ap])
  have "texts (fst (foldl (apply_change M) (blocks', sh') cs)) = patch 0 base (foldl (\<lambda>es c. place (edit_of c) es) (place (edit_of c) es) cs)
      \<and> edits_ok (length base) (foldl (\<lambda>es c. place (edit_of c) es) (place (edit_of c) es) cs)"
  proof (rule Cons.IH[OF ok t])
    show "\<forall>d \<in> set cs. hk_start d \<le> hk_end d \<and> hk_end d \<le> length base \<and> apart_from (place (edit_of c) es) (edit_of d)"
      using Cons.prems(3,5) by (auto simp: apart_from_def set_place)
    show "\<forall>d \<in> set cs. sum_list (map gain (filter (\<lambda>e. fst e < hk_start d) (place (edit_of c) es))) = shift_before M (hk_start d) + sh'"
    proof
      fix d
      assume d: "d \<in> set cs"
      then have "fst (edit_of c) < hk_start d" using Cons.prems(5) by (auto simp: before_def edit_of_def)
      then show "sum_list (map gain (filter (\<lambda>e. fst e < hk_start d) (place (edit_of c) es))) = shift_before M (hk_start d) + sh'"
        using Cons.prems(4) d by (simp add: sum_place sh')
    qed
    show "sorted_wrt (\<lambda>c c'. before (edit_of c) (edit_of c')) cs" using Cons.prems(5) by simp
  qed
  then show ?case by (simp add: step)
qed simp

lemma sort_key_unique:
  assumes "mset F = mset xs" and "sorted_wrt (\<lambda>a b. fst a < fst b) F"
  shows "sort_key fst xs = (F :: edit list)"
proof (rule properties_for_sort_key)
  show "mset F = mset xs" by (rule assms(1))
  show "sorted (map fst F)"
    using assms(2) by (auto simp: sorted_map intro: sorted_wrt_mono_rel[rotated])
  show "filter (\<lambda>x. fst k = fst x) F = filter (\<lambda>x. fst k = fst x) xs" if k: "k \<in> set F" for k
  proof -
    have one: "filter (\<lambda>x. fst k = fst x) F = [k]"
      using assms(2) k
    proof (induction F)
      case (Cons f F)
      then show ?case by (cases "f = k") (auto simp: filter_empty_conv)
    qed simp
    have "mset (filter (\<lambda>x. fst k = fst x) xs) = mset (filter (\<lambda>x. fst k = fst x) F)"
      using assms(1) by (metis mset_filter)
    then have "mset (filter (\<lambda>x. fst k = fst x) xs) = {#k#}" unfolding one by simp
    then show ?thesis unfolding one by (metis mset_single_iff)
  qed
qed

lemma sorted_wrt_either:
  "sorted_wrt P xs \<Longrightarrow> x \<in> set xs \<Longrightarrow> y \<in> set xs \<Longrightarrow> x \<noteq> y \<Longrightarrow> P x y \<or> P y x"
  by (induction xs) auto

lemma sorted_distinct_wrt:
  assumes "sorted (map f xs)" and "distinct xs" and "\<forall>x \<in> set xs. \<forall>y \<in> set xs. x \<noteq> y \<longrightarrow> P x y \<or> P y x"
    and "\<And>x y. P x y \<Longrightarrow> f x < (f y :: nat)"
  shows "sorted_wrt P xs"
  using assms(1-3)
proof (induction xs)
  case (Cons x xs)
  have "P x y" if y: "y \<in> set xs" for y
  proof -
    have "f x \<le> f y" using Cons.prems(1) y by simp
    then have "\<not> P y x" using assms(4) by (meson not_le)
    moreover have "x \<noteq> y" using Cons.prems(2) y by auto
    ultimately show ?thesis using Cons.prems(3) y by (meson list.set_intros)
  qed
  then show ?case using Cons by simp
qed simp

lemma change_fields:
  "hk_start (change_of b c M i h) = hk_start h" "hk_end (change_of b c M i h) = hk_end h"
  "edit_of (change_of b c M i h) = edit_of h" "dc_id (change_of b c M i h) = ''change-'' @ show_nat i"
  by (simp_all add: change_of_def Let_def edit_of_def)

lemma change_free:
  assumes "\<not> dc_conflict (change_of b c M i h)" and "\<not> dc_alreadyApplied (change_of b c M i h)" and "m \<in> set M"
  shows "\<not> overlaps h m"
  using assms by (auto simp: change_of_def Let_def filter_empty_conv)

lemma mset_places: "mset (foldl (\<lambda>es c. place (edit_of c) es) es xs) = mset es + mset (map edit_of xs)"
  by (induction xs arbitrary: es) (simp_all add: mset_place)

lemma merge_texts:
  fixes base current target :: "block list"
  defines "D \<equiv> diffBlocks base target" and "M \<equiv> diffBlocks base current"
  defines "C \<equiv> map (\<lambda>(i, h). change_of base current M i h) (zip [0..<length D] D)"
  assumes wf: "wf_blocks base" "wf_blocks current" "wf_blocks target"
    and distS: "distinct S" and inS: "\<And>c. c \<in> set S \<Longrightarrow> c \<in> set C \<and> \<not> dc_conflict c \<and> \<not> dc_alreadyApplied c"
    and T: "mset S = mset T"
  shows "texts (fst (foldl (apply_change M) (current, 0) (sort_key hk_start S)))
    = patch 0 (texts base) (sort_key fst (map edit_of M @ map edit_of T))"
proof -
  define cs where "cs = sort_key hk_start S"
  have okM: "edits_ok (length base) (map edit_of M)" and pM: "patch 0 (texts base) (map edit_of M) = texts current"
    using diff_spec[OF wf(1,2)] unfolding M_def by blast+
  have okD: "edits_ok (length base) (map edit_of D)" using diff_spec(2)[OF wf(1,3)] unfolding D_def .
  have CD: "map edit_of C = map edit_of D"
    unfolding C_def by (rule nth_equalityI) (simp_all add: change_fields)
  then have sortC: "sorted_wrt (\<lambda>c c'. before (edit_of c) (edit_of c')) C"
    using okD by (simp add: edits_ok_def sorted_wrt_map flip: CD)
  have range: "hk_start c \<le> hk_end c \<and> hk_end c \<le> length base" if "c \<in> set C" for c
    using okD that unfolding CD[symmetric] edits_ok_def by (auto simp: edit_of_def)
  have rangeM: "hk_start m \<le> hk_end m" if "m \<in> set M" for m
    using okM that unfolding edits_ok_def by (auto simp: edit_of_def)
  have free: "apart_from (map edit_of M) (edit_of c)" if c: "c \<in> set S" for c
  proof -
    obtain i h where h: "c = change_of base current M i h" using inS[OF c] by (auto simp: C_def)
    have "hk_start h \<le> hk_end h" using range[of c] inS[OF c] h by (simp add: change_fields)
    then have "before (edit_of m) (edit_of h) \<or> before (edit_of h) (edit_of m)" if "m \<in> set M" for m
      using not_overlaps_before[of h m] change_free[of base current M i h m] inS[OF c] h that rangeM by blast
    then show ?thesis by (simp add: apart_from_def h change_fields)
  qed
  have cs: "set cs = set S" "distinct cs" "sorted (map hk_start cs)" using distS by (simp_all add: cs_def)
  have "sorted_wrt (\<lambda>c c'. before (edit_of c) (edit_of c')) cs"
    using cs inS sorted_wrt_either[OF sortC] by (intro sorted_distinct_wrt[where f = hk_start]) (auto simp: before_def edit_of_def)
  moreover have "\<forall>c \<in> set cs. sum_list (map gain (filter (\<lambda>e. fst e < hk_start c) (map edit_of M))) = shift_before M (hk_start c) + 0"
  proof
    fix c
    assume "c \<in> set cs"
    then have c: "c \<in> set S" using cs(1) by simp
    have f: "fst (edit_of c) = hk_start c" "fst (snd (edit_of c)) = hk_end c" by (simp_all add: edit_of_def)
    show "sum_list (map gain (filter (\<lambda>e. fst e < hk_start c) (map edit_of M))) = shift_before M (hk_start c) + 0"
      using shift_before_sum[of M "edit_of c"] free[OF c] range[of c] inS[OF c] rangeM
      unfolding f by (simp add: apart_from_def)
  qed
  moreover have "\<forall>c \<in> set cs. hk_start c \<le> hk_end c \<and> hk_end c \<le> length (texts base) \<and> apart_from (map edit_of M) (edit_of c)"
    using cs(1) free inS range by simp
  ultimately have fold: "texts (fst (foldl (apply_change M) (current, 0) cs)) = patch 0 (texts base) (foldl (\<lambda>es c. place (edit_of c) es) (map edit_of M) cs)"
      "edits_ok (length base) (foldl (\<lambda>es c. place (edit_of c) es) (map edit_of M) cs)"
    using merge_fold[of "texts base" "map edit_of M" current cs M 0] okM pM by simp_all
  have "mset (map edit_of cs) = mset (map edit_of T)" using T by (simp add: cs_def)
  then have "mset (foldl (\<lambda>es c. place (edit_of c) es) (map edit_of M) cs) = mset (map edit_of M @ map edit_of T)"
    by (simp add: mset_places)
  moreover have "sorted_wrt (\<lambda>a b. fst a < fst b) (foldl (\<lambda>es c. place (edit_of c) es) (map edit_of M) cs)"
    using fold(2) unfolding edits_ok_def by (elim conjE sorted_wrt_mono_rel[rotated]) (simp add: before_def)
  ultimately show ?thesis using fold(1) by (simp add: sort_key_unique cs_def)
qed

text \<open>The selected changes are those with a selected identifier.\<close>

definition changes_of :: "block list \<Rightarrow> block list \<Rightarrow> block list \<Rightarrow> DraftMergeChange list" where
  "changes_of base current target =
     (let D = diffBlocks base target
      in map (\<lambda>(i, h). change_of base current (diffBlocks base current) i h) (zip [0..<length D] D))"

lemma changes_ids: "distinct (map dc_id (changes_of base current target))"
proof -
  have "map dc_id (changes_of base current target) = map (\<lambda>i. ''change-'' @ show_nat i) [0..<length (diffBlocks base target)]"
    unfolding changes_of_def Let_def by (rule nth_equalityI) (simp_all add: change_fields)
  then show ?thesis by (simp add: distinct_map inj_on_def)
qed

lemma found_change:
  assumes "selectable (find (\<lambda>c. dc_id c = i) C)"
  shows "\<exists>c \<in> set C. find (\<lambda>c. dc_id c = i) C = Some c \<and> dc_id c = i \<and> \<not> dc_conflict c \<and> \<not> dc_alreadyApplied c"
proof -
  obtain c where c: "find (\<lambda>c. dc_id c = i) C = Some c" "\<not> dc_conflict c" "\<not> dc_alreadyApplied c"
    using assms by (auto simp: selectable_def split: option.splits)
  moreover have "c \<in> set C" "dc_id c = i" using c(1) by (auto simp: find_Some_iff)
  ultimately show ?thesis by blast
qed

lemma selected_changes:
  assumes "distinct ids" and "distinct (map dc_id C)"
    and "list_all selectable (map (\<lambda>i. find (\<lambda>c. dc_id c = i) C) ids)"
  defines "S \<equiv> map the (map (\<lambda>i. find (\<lambda>c. dc_id c = i) C) ids)"
  shows "distinct S" and "c \<in> set S \<Longrightarrow> c \<in> set C \<and> \<not> dc_conflict c \<and> \<not> dc_alreadyApplied c"
    and "mset S = mset (filter (\<lambda>c. dc_id c \<in> set ids) C)"
proof -
  have found: "\<exists>c \<in> set C. find (\<lambda>c. dc_id c = i) C = Some c \<and> dc_id c = i \<and> \<not> dc_conflict c \<and> \<not> dc_alreadyApplied c"
    if "i \<in> set ids" for i
    using found_change assms(3) that by (simp add: list_all_iff)
  have idsS: "map dc_id S = ids"
    using found unfolding S_def map_map by (intro map_idI) force
  then show distS: "distinct S" using assms(1) distinct_map by blast
  show inS: "c \<in> set C \<and> \<not> dc_conflict c \<and> \<not> dc_alreadyApplied c" if "c \<in> set S" for c
    using that found unfolding S_def by fastforce
  have "c \<in> set S" if c: "c \<in> set C" "dc_id c \<in> set ids" for c
  proof -
    obtain c' where c': "c' \<in> set C" "find (\<lambda>d. dc_id d = dc_id c) C = Some c'" "dc_id c' = dc_id c"
      using found[OF c(2)] by auto
    have "c' = c" using assms(2) c(1) c'(1,3) by (auto simp: distinct_map inj_on_def)
    moreover have "the (find (\<lambda>d. dc_id d = dc_id c) C) \<in> set S" using c(2) by (auto simp: S_def)
    ultimately show ?thesis using c'(2) by simp
  qed
  then have "set S = set (filter (\<lambda>c. dc_id c \<in> set ids) C)" using inS by (auto simp flip: idsS)
  then show "mset S = mset (filter (\<lambda>c. dc_id c \<in> set ids) C)"
    using distS assms(2) by (subst set_eq_iff_mset_eq_distinct[symmetric]) (auto simp: distinct_map)
qed

lemma content_put:
  "readTipTapDocument v = Some current \<Longrightarrow> field ''content'' (with_content v blocks) = Some (JArr blocks)"
  by (auto simp: readTipTapDocument_def isRecord_def field_def with_content_def map_of_obj_put_same split: json.splits if_splits)

section \<open>Properties\<close>

text \<open>
  The diff is right. Applying the hunks of \<open>diffBlocks\<close> to the base - anchored by a longest increasing
  subsequence of unique unchanged blocks, whatever was moved, repeated or rewritten - gives the changed
  document, and the hunks are in order, inside the base, and never touch.
\<close>

theorem diff_rebuilds:
  assumes "wf_blocks base" and "wf_blocks changed"
  shows "patch 0 (texts base) (map edit_of (diffBlocks base changed)) = texts changed
    \<and> edits_ok (length base) (map edit_of (diffBlocks base changed))"
  using diff_spec[OF assms] by blast

definition para :: "string \<Rightarrow> json" where
  "para s = JObj [(''type'', JStr ''paragraph''), (''text'', JStr s)]"

theorem diff_rebuilds_witness:
  "patch 0 (texts [para ''a'', para ''b'', para ''c'']) (map edit_of (diffBlocks [para ''a'', para ''b'', para ''c'']
      [para ''c'', para ''a'', para ''x'']))
    = texts [para ''c'', para ''a'', para ''x'']"
  using diff_rebuilds[of "[para ''a'', para ''b'', para ''c'']" "[para ''c'', para ''a'', para ''x'']"]
  by (simp add: wf_blocks_def para_def)

text \<open>
  C11: a merge loses nothing of either side. Merging selected changes of a draft into a document that was
  edited meanwhile gives the base with both applied: every change made to the document, and
  every selected change of the draft, each at its place, and nothing else.
\<close>

theorem merge_applies_both:
  assumes merged: "mergeSelectedDraftChanges draft v ver ids = Inr p"
    and wf: "readTipTapDocument v = Some current" "wf_blocks current" "wf_blocks (doc_blocks (ld_baseContent draft))"
      "wf_blocks (doc_blocks (ld_content draft))"
  shows "\<exists>plan blocks. planDraftMerge draft v ver = Inr plan \<and> field ''content'' (pr_content p) = Some (JArr blocks)
    \<and> texts blocks = patch 0 (texts (doc_blocks (ld_baseContent draft)))
        (sort_key fst (map edit_of (diffBlocks (doc_blocks (ld_baseContent draft)) current)
          @ map edit_of (filter (\<lambda>c. dc_id c \<in> set ids) (mp_changes plan))))"
proof -
  let ?base = "doc_blocks (ld_baseContent draft)" and ?target = "doc_blocks (ld_content draft)"
  let ?M = "diffBlocks ?base current" and ?C = "changes_of ?base current ?target"
  obtain plan where plan: "planDraftMerge draft v ver = Inr plan" "mp_changes plan = ?C"
    using wf(1) by (simp add: planDraftMerge_def Let_def changes_of_def)
  define S where "S = map the (map (\<lambda>i. find (\<lambda>c. dc_id c = i) ?C) ids)"
  have dist: "distinct ids" and able: "list_all selectable (map (\<lambda>i. find (\<lambda>c. dc_id c = i) ?C) ids)"
    and p: "pr_content p = with_content v (fst (foldl (apply_change ?M) (current, 0) (sort_key hk_start S)))"
    using merged wf(1) plan by (auto simp: mergeSelectedDraftChanges_def Let_def S_def split: if_splits)
  note sel = selected_changes[OF dist changes_ids able, folded S_def]
  have "texts (fst (foldl (apply_change ?M) (current, 0) (sort_key hk_start S)))
      = patch 0 (texts ?base) (sort_key fst (map edit_of ?M @ map edit_of (filter (\<lambda>c. dc_id c \<in> set ids) ?C)))"
    using merge_texts[OF wf(3,2,4) sel(1) _ sel(3)] sel(2) unfolding changes_of_def Let_def by blast
  then show ?thesis using plan p content_put[OF wf(1)] by auto
qed

definition sample_doc :: "json list \<Rightarrow> json" where
  "sample_doc bs = JObj [(''type'', JStr ''doc''), (''content'', JArr bs)]"

definition sample_draft :: LocalDraft where
  "sample_draft =
     \<lparr>ld_id = ''1'', ld_documentId = ''d'', ld_name = ''n'', ld_createdAt = ''t'', ld_updatedAt = ''t'',
      ld_baseContentVersion = 1, ld_baseContent = sample_doc [para ''a'', para ''b''],
      ld_content = sample_doc [para ''x'', para ''a'', para ''b'']\<rparr>"

text \<open>The draft puts x first, the document has meanwhile got c at the end.\<close>

theorem merge_applies_both_witness:
  "\<exists>p plan blocks. mergeSelectedDraftChanges sample_draft (sample_doc [para ''a'', para ''b'', para ''c'']) 2 [''change-0''] = Inr p
    \<and> planDraftMerge sample_draft (sample_doc [para ''a'', para ''b'', para ''c'']) 2 = Inr plan
    \<and> field ''content'' (pr_content p) = Some (JArr blocks)
    \<and> texts blocks = patch 0 (texts (doc_blocks (ld_baseContent sample_draft)))
        (sort_key fst (map edit_of (diffBlocks (doc_blocks (ld_baseContent sample_draft)) [para ''a'', para ''b'', para ''c''])
          @ map edit_of (filter (\<lambda>c. dc_id c \<in> set [''change-0'']) (mp_changes plan))))"
proof -
  have "case mergeSelectedDraftChanges sample_draft (sample_doc [para ''a'', para ''b'', para ''c'']) 2 [''change-0''] of
      Inl e \<Rightarrow> False | Inr p \<Rightarrow> True"
    by code_simp
  then obtain p where p: "mergeSelectedDraftChanges sample_draft (sample_doc [para ''a'', para ''b'', para ''c'']) 2 [''change-0''] = Inr p"
    by (auto split: sum.splits)
  have "\<exists>plan blocks. planDraftMerge sample_draft (sample_doc [para ''a'', para ''b'', para ''c'']) 2 = Inr plan
    \<and> field ''content'' (pr_content p) = Some (JArr blocks)
    \<and> texts blocks = patch 0 (texts (doc_blocks (ld_baseContent sample_draft)))
        (sort_key fst (map edit_of (diffBlocks (doc_blocks (ld_baseContent sample_draft)) [para ''a'', para ''b'', para ''c''])
          @ map edit_of (filter (\<lambda>c. dc_id c \<in> set [''change-0'']) (mp_changes plan))))"
    by (rule merge_applies_both[OF p])
      (simp_all add: sample_doc_def sample_draft_def para_def readTipTapDocument_def isRecord_def field_def doc_blocks_def wf_blocks_def)
  then show ?thesis using p by blast
qed

text \<open>
  Drafts survive a reload. What \<open>saveLocalDrafts\<close> accepted is what \<open>loadLocalDrafts\<close> returns for the
  same document and user, in the same order, and nothing else in the storage has changed.
\<close>

theorem saved_drafts_load:
  assumes "saveLocalDrafts documentId userId drafts storage = Inr storage'"
    and "list_all (\<lambda>d. json_wf (draft_json d) \<and> isLocalDraft (draft_json d) documentId) drafts"
  shows "loadLocalDrafts documentId userId storage' = Inr (map draft_json drafts)
    \<and> storage' |` (- {draftStorageKey documentId userId}) = storage |` (- {draftStorageKey documentId userId})"
proof -
  let ?raw = "json_stringify (JArr (map draft_json drafts))"
  have s: "storage' = storage(draftStorageKey documentId userId \<mapsto> ?raw)" "length drafts \<le> MAX_LOCAL_DRAFTS"
    "byte_length ?raw \<le> MAX_DRAFT_STORAGE_BYTES"
    using assms(1) by (auto simp: saveLocalDrafts_def Let_def split: if_splits)
  have "json_parse ?raw = Some (JArr (map draft_json drafts))"
    using assms(2) by (intro json_parse_stringify) (simp add: list_all_iff)
  moreover have "filter (\<lambda>v. isLocalDraft v documentId) (map draft_json drafts) = map draft_json drafts"
    using assms(2) by (simp add: filter_id_conv list_all_iff)
  moreover have "?raw \<noteq> []" by simp
  ultimately have "loadLocalDrafts documentId userId storage' = Inr (map draft_json drafts)"
    using s(2,3) unfolding s(1) loadLocalDrafts_def by (simp add: Let_def not_less)
  then show ?thesis using s(1) by (auto simp: restrict_map_def)
qed

lemma save_accepts:
  assumes "byte_length (json_stringify (JArr (map draft_json drafts))) \<le> MAX_DRAFT_STORAGE_BYTES"
    and "length drafts \<le> MAX_LOCAL_DRAFTS" and "list_all (\<lambda>d. ld_documentId d = documentId) drafts"
  shows "\<exists>storage'. saveLocalDrafts documentId userId drafts storage = Inr storage'"
  unfolding saveLocalDrafts_def Let_def using assms by (metis not_less)

theorem saved_drafts_load_witness:
  "\<exists>storage'. saveLocalDrafts ''d'' ''u'' [sample_draft] Map.empty = Inr storage'
    \<and> loadLocalDrafts ''d'' ''u'' storage' = Inr (map draft_json [sample_draft])"
proof -
  have "byte_length (json_stringify (JArr (map draft_json [sample_draft]))) \<le> 999"
    by code_simp
  then have fits: "byte_length (json_stringify (JArr (map draft_json [sample_draft]))) \<le> MAX_DRAFT_STORAGE_BYTES"
    by (rule order_trans) (simp add: MAX_DRAFT_STORAGE_BYTES_def)
  have one: "length [sample_draft] \<le> MAX_LOCAL_DRAFTS" "list_all (\<lambda>d. ld_documentId d = ''d'') [sample_draft]"
    by (simp_all add: MAX_LOCAL_DRAFTS_def sample_draft_def)
  obtain storage' where s: "saveLocalDrafts ''d'' ''u'' [sample_draft] Map.empty = Inr storage'"
    using save_accepts[OF fits one, of "''u''" Map.empty] by blast
  have "list_all (\<lambda>d. json_wf (draft_json d) \<and> isLocalDraft (draft_json d) ''d'') [sample_draft]"
    by (simp add: sample_draft_def draft_json_def sample_doc_def para_def isLocalDraft_def isRecord_def field_def readTipTapDocument_def)
  from saved_drafts_load[OF s this] show ?thesis using s by blast
qed

end
