(* ===== verification/Server_Store.thy ===== *)
theory Server_Store
  imports Pm_Model "HOL-Library.List_Lexorder" "HOL-Library.Char_ord"
begin

text \<open>
  The server's persistence: the tables of \<^verbatim>\<open>server/db/schema.ts\<close> as lists of rows, and the repositories
  (\<^verbatim>\<open>server/repositories\<close>) as functions on them, one SQL statement each. A foreign key that would dangle,
  or a row that would break a unique index, is the error that PostgreSQL raises; times and generated ids are arguments.
\<close>

section \<open>Roles and actors\<close>

datatype Role = OWNER | EDITOR | COMMENTER | VIEWER

datatype OrganizationMemberRole = Admin | Member

record ActorOrganization =
  ao_id :: string
  ao_clerkOrganizationId :: string
  ao_role :: OrganizationMemberRole

record ActorContext =
  ac_userId :: string
  ac_clerkUserId :: string
  ac_organization :: "ActorOrganization option"

section \<open>Tables\<close>

text \<open>A value of type \<open>uuid\<close> has no case: PostgreSQL compares and stores the canonical text.\<close>

abbreviation uuid :: "string \<Rightarrow> string" where
  "uuid s \<equiv> to_lower s"

record UserRow =
  u_id :: string
  u_clerkUserId :: string

record DocumentRow =
  d_id :: string
  d_title :: string
  d_ownerUserId :: string
  d_organizationId :: "string option"
  d_initialContent :: "string option"
  d_content :: "json option"
  d_contentVersion :: int
  d_metadataVersion :: int
  d_createdAt :: nat
  d_updatedAt :: nat

record GrantRow =
  g_documentId :: string
  g_userId :: string
  g_role :: Role
  g_grantedByUserId :: "string option"

datatype thread_status = Open | Resolved

record ThreadRow =
  t_id :: string
  t_documentId :: string
  t_createdByUserId :: string
  t_startItemId :: string
  t_startSide :: string
  t_endItemId :: string
  t_endSide :: string
  t_quotedText :: string
  t_status :: thread_status
  t_createdAt :: nat
  t_updatedAt :: nat

record MessageRow =
  m_id :: string
  m_threadId :: string
  m_createdByUserId :: string
  m_body :: string
  m_createdAt :: nat

datatype suggestion_status = Proposed | Accepted | Rejected | Discharged

record SuggestionRow =
  s_id :: string
  s_documentId :: string
  s_createdByUserId :: string
  s_startItemId :: string
  s_startSide :: string
  s_endItemId :: string
  s_endSide :: string
  s_quotedText :: string
  s_proposedText :: string
  s_status :: suggestion_status
  s_resolvedByUserId :: "string option"
  s_resolvedAt :: "nat option"
  s_createdAt :: nat
  s_updatedAt :: nat

datatype AuditAction =
    DocumentCreate | DocumentRename | DocumentDelete | PermissionGranted | PermissionUpdated | PermissionRevoked
  | CommentCreated | CommentReplied | CommentResolved | SuggestionCreated | SuggestionResolved

record AuditEvent =
  e_actorUserId :: "string option"
  e_action :: AuditAction
  e_resourceType :: string
  e_resourceId :: string
  e_organizationId :: "string option"
  e_metadata :: "(string \<times> json) list"

record Database =
  db_users :: "UserRow list"
  db_documents :: "DocumentRow list"
  db_grants :: "GrantRow list"
  db_threads :: "ThreadRow list"
  db_messages :: "MessageRow list"
  db_suggestions :: "SuggestionRow list"
  db_audit :: "AuditEvent list"

section \<open>Documents\<close>

definition findById :: "string \<Rightarrow> Database \<Rightarrow> DocumentRow option" where
  "findById i db = find (\<lambda>d. d_id d = uuid i) (db_documents db)"

definition insertDocument ::
  "string \<Rightarrow> nat \<Rightarrow> string \<Rightarrow> string \<Rightarrow> string option \<Rightarrow> string option \<Rightarrow> Database \<Rightarrow> (Database \<times> DocumentRow) option" where
  "insertDocument newId now title owner org initial db =
     (if newId \<in> set (map d_id (db_documents db)) \<or> owner \<notin> set (map u_id (db_users db)) then None
      else
        let row = \<lparr>d_id = newId, d_title = title, d_ownerUserId = owner, d_organizationId = org,
              d_initialContent = initial, d_content = None, d_contentVersion = 1, d_metadataVersion = 1,
              d_createdAt = now, d_updatedAt = now\<rparr>
        in Some (db\<lparr>db_documents := db_documents db @ [row]\<rparr>, row))"

text \<open>\<open>UPDATE ... WHERE ... RETURNING\<close>: the rows that match are changed and the first is returned.\<close>

definition update_rows :: "('r \<Rightarrow> bool) \<Rightarrow> ('r \<Rightarrow> 'r) \<Rightarrow> 'r list \<Rightarrow> 'r list \<times> 'r option" where
  "update_rows P f rows =
     (map (\<lambda>r. if P r then f r else r) rows, map_option f (find P rows))"

text \<open>
  The version columns are 32-bit: a larger expected version, or a version that cannot be incremented, is
  a PostgreSQL error (\<open>None\<close>).
\<close>

definition INT4_MAX :: int where
  "INT4_MAX = 2147483647"

definition updateContentConditional ::
  "string \<Rightarrow> int \<Rightarrow> json \<Rightarrow> nat \<Rightarrow> Database \<Rightarrow> (Database \<times> DocumentRow option) option" where
  "updateContentConditional i expected content now db =
     (case update_rows (\<lambda>d. d_id d = uuid i \<and> d_contentVersion d = expected)
             (\<lambda>d. d\<lparr>d_content := Some content, d_contentVersion := d_contentVersion d + 1, d_updatedAt := now\<rparr>)
             (db_documents db) of
        (rows, r) \<Rightarrow>
          if expected > INT4_MAX \<or> (expected = INT4_MAX \<and> r \<noteq> None) then None
          else Some (db\<lparr>db_documents := rows\<rparr>, r))"

definition renameConditional ::
  "string \<Rightarrow> int \<Rightarrow> string \<Rightarrow> nat \<Rightarrow> Database \<Rightarrow> (Database \<times> DocumentRow option) option" where
  "renameConditional i expected title now db =
     (case update_rows (\<lambda>d. d_id d = uuid i \<and> d_metadataVersion d = expected)
             (\<lambda>d. d\<lparr>d_title := title, d_metadataVersion := d_metadataVersion d + 1, d_updatedAt := now\<rparr>)
             (db_documents db) of
        (rows, r) \<Rightarrow>
          if expected > INT4_MAX \<or> (expected = INT4_MAX \<and> r \<noteq> None) then None
          else Some (db\<lparr>db_documents := rows\<rparr>, r))"

text \<open>The rows that reference a deleted document go with it.\<close>

definition deleteById :: "string \<Rightarrow> Database \<Rightarrow> Database \<times> bool" where
  "deleteById i db =
     (let gone = set (map t_id (filter (\<lambda>t. t_documentId t = uuid i) (db_threads db)))
      in (db\<lparr>db_documents := filter (\<lambda>d. d_id d \<noteq> uuid i) (db_documents db),
             db_grants := filter (\<lambda>g. g_documentId g \<noteq> uuid i) (db_grants db),
             db_threads := filter (\<lambda>t. t_documentId t \<noteq> uuid i) (db_threads db),
             db_messages := filter (\<lambda>m. m_threadId m \<notin> gone) (db_messages db),
             db_suggestions := filter (\<lambda>s. s_documentId s \<noteq> uuid i) (db_suggestions db)\<rparr>,
          findById i db \<noteq> None))"

definition escapeLikePattern :: "string \<Rightarrow> string" where
  "escapeLikePattern input =
     concat (map (\<lambda>c. if c \<in> {CHR 92, CHR ''%'', CHR ''_''} then [CHR 92, c] else [c]) input)"

section \<open>Users\<close>

definition findUser :: "string \<Rightarrow> Database \<Rightarrow> UserRow option" where
  "findUser i db = find (\<lambda>u. u_id u = uuid i) (db_users db)"

text \<open>The principal behind a Clerk account, created on first sight.\<close>

definition findOrCreateByClerkUserId :: "string \<Rightarrow> string \<Rightarrow> Database \<Rightarrow> Database \<times> UserRow" where
  "findOrCreateByClerkUserId newId clerkUserId db =
     (case find (\<lambda>u. u_clerkUserId u = clerkUserId) (db_users db) of
        Some u \<Rightarrow> (db, u)
      | None \<Rightarrow>
          let u = \<lparr>u_id = newId, u_clerkUserId = clerkUserId\<rparr>
          in (db\<lparr>db_users := db_users db @ [u]\<rparr>, u))"

section \<open>Grants\<close>

definition findGrant :: "string \<Rightarrow> string \<Rightarrow> Database \<Rightarrow> GrantRow option" where
  "findGrant documentId userId db =
     find (\<lambda>g. g_documentId g = uuid documentId \<and> g_userId g = uuid userId) (db_grants db)"

definition upsertGrant :: "GrantRow \<Rightarrow> Database \<Rightarrow> (Database \<times> GrantRow) option" where
  "upsertGrant row db =
     (if findById (g_documentId row) db = None \<or> g_userId row \<notin> set (map u_id (db_users db)) then None
      else if findGrant (g_documentId row) (g_userId row) db = None
      then Some (db\<lparr>db_grants := db_grants db @ [row]\<rparr>, row)
      else Some (db\<lparr>db_grants := map (\<lambda>g. if g_documentId g = g_documentId row \<and> g_userId g = g_userId row
            then g\<lparr>g_role := g_role row, g_grantedByUserId := g_grantedByUserId row\<rparr> else g) (db_grants db)\<rparr>, row))"

definition deleteGrant :: "string \<Rightarrow> string \<Rightarrow> Database \<Rightarrow> Database \<times> bool" where
  "deleteGrant documentId userId db =
     (db\<lparr>db_grants := filter (\<lambda>g. \<not> (g_documentId g = uuid documentId \<and> g_userId g = uuid userId)) (db_grants db)\<rparr>,
      findGrant documentId userId db \<noteq> None)"

definition listByDocument :: "string \<Rightarrow> Database \<Rightarrow> GrantRow list" where
  "listByDocument documentId db = filter (\<lambda>g. g_documentId g = uuid documentId) (db_grants db)"

text \<open>
  The documents of a scope with the role that SQL computes for them; \<open>like\<close> is PostgreSQL's \<open>ILIKE\<close>. The
  left join yields one row per document, since a grant is unique per document and user.
\<close>

datatype scope = Workspace | Shared

definition in_scope :: "string \<Rightarrow> string option \<Rightarrow> scope \<Rightarrow> Database \<Rightarrow> DocumentRow \<Rightarrow> bool" where
  "in_scope userId org scope db d \<longleftrightarrow>
     (case scope of
        Shared \<Rightarrow> findGrant (d_id d) userId db \<noteq> None \<and> d_ownerUserId d \<noteq> uuid userId
      | Workspace \<Rightarrow> (case org of
            Some oid \<Rightarrow> if oid \<noteq> [] then d_organizationId d = Some (uuid oid) else d_ownerUserId d = uuid userId
          | None \<Rightarrow> d_ownerUserId d = uuid userId))"

definition sql_role :: "string \<Rightarrow> Database \<Rightarrow> DocumentRow \<Rightarrow> Role" where
  "sql_role userId db d =
     (if d_ownerUserId d = uuid userId then OWNER
      else case findGrant (d_id d) userId db of Some g \<Rightarrow> g_role g | None \<Rightarrow> EDITOR)"

definition listAccessible ::
  "(string \<Rightarrow> string \<Rightarrow> bool) \<Rightarrow> string \<Rightarrow> string option \<Rightarrow> scope \<Rightarrow> nat \<Rightarrow> nat \<Rightarrow> string option \<Rightarrow> Database \<Rightarrow> (DocumentRow \<times> Role) list" where
  "listAccessible like userId org scope limit offset pattern db =
     take limit (drop offset
       (map (\<lambda>d. (d, sql_role userId db d))
         (rev (sort_key d_updatedAt (sort_key d_id
           (filter (\<lambda>d. in_scope userId org scope db d
               \<and> (case pattern of None \<Rightarrow> True | Some p \<Rightarrow> p = [] \<or> like (d_title d) (''%'' @ p @ ''%'')))
             (db_documents db)))))))"

section \<open>Comments, suggestions and the audit log\<close>

definition findThread :: "string \<Rightarrow> string \<Rightarrow> Database \<Rightarrow> ThreadRow option" where
  "findThread documentId threadId db =
     find (\<lambda>t. t_documentId t = uuid documentId \<and> t_id t = uuid threadId) (db_threads db)"

definition findThreadById :: "string \<Rightarrow> Database \<Rightarrow> ThreadRow option" where
  "findThreadById threadId db = find (\<lambda>t. t_id t = uuid threadId) (db_threads db)"

definition findMessage :: "string \<Rightarrow> Database \<Rightarrow> MessageRow option" where
  "findMessage messageId db = find (\<lambda>m. m_id m = uuid messageId) (db_messages db)"

definition findSuggestion :: "string \<Rightarrow> string \<Rightarrow> Database \<Rightarrow> SuggestionRow option" where
  "findSuggestion documentId suggestionId db =
     find (\<lambda>s. s_documentId s = uuid documentId \<and> s_id s = uuid suggestionId) (db_suggestions db)"

definition findSuggestionById :: "string \<Rightarrow> Database \<Rightarrow> SuggestionRow option" where
  "findSuggestionById suggestionId db = find (\<lambda>s. s_id s = uuid suggestionId) (db_suggestions db)"

text \<open>Newest first, at most the limit, and whether there are more.\<close>

definition newest :: "('r \<Rightarrow> nat) \<Rightarrow> ('r \<Rightarrow> string) \<Rightarrow> nat \<Rightarrow> 'r list \<Rightarrow> 'r list \<times> bool" where
  "newest time ident limit rows =
     (take limit (rev (sort_key time (sort_key ident rows))), limit < length rows)"

definition THREAD_LIMIT :: nat where "THREAD_LIMIT = 200"

definition MESSAGE_LIMIT_PER_THREAD :: nat where "MESSAGE_LIMIT_PER_THREAD = 50"

definition SUGGESTION_LIMIT :: nat where "SUGGESTION_LIMIT = 200"

definition listThreads :: "string \<Rightarrow> Database \<Rightarrow> ThreadRow list \<times> bool" where
  "listThreads documentId db =
     newest t_updatedAt t_id THREAD_LIMIT (filter (\<lambda>t. t_documentId t = uuid documentId) (db_threads db))"

text \<open>The messages are ranked per thread.\<close>

definition ranked :: "string \<Rightarrow> Database \<Rightarrow> MessageRow list \<times> bool" where
  "ranked threadId db =
     newest m_createdAt m_id MESSAGE_LIMIT_PER_THREAD (filter (\<lambda>m. m_threadId m = threadId) (db_messages db))"

definition listMessages :: "string list \<Rightarrow> Database \<Rightarrow> MessageRow list \<times> bool" where
  "listMessages threadIds db =
     (concat (map (\<lambda>i. fst (ranked i db)) threadIds), list_ex (\<lambda>i. snd (ranked i db)) threadIds)"

definition listSuggestions :: "string \<Rightarrow> Database \<Rightarrow> SuggestionRow list \<times> bool" where
  "listSuggestions documentId db =
     newest s_createdAt s_id SUGGESTION_LIMIT (filter (\<lambda>s. s_documentId s = uuid documentId) (db_suggestions db))"

text \<open>\<open>INSERT ... ON CONFLICT DO NOTHING RETURNING\<close>: no row comes back when the id is taken.\<close>

definition insertThread :: "ThreadRow \<Rightarrow> Database \<Rightarrow> Database \<times> bool" where
  "insertThread row db =
     (if findThreadById (t_id row) db = None then (db\<lparr>db_threads := db_threads db @ [row]\<rparr>, True) else (db, False))"

definition insertMessage :: "MessageRow \<Rightarrow> Database \<Rightarrow> Database \<times> bool" where
  "insertMessage row db =
     (if findMessage (m_id row) db = None then (db\<lparr>db_messages := db_messages db @ [row]\<rparr>, True) else (db, False))"

definition insertSuggestion :: "SuggestionRow \<Rightarrow> Database \<Rightarrow> Database \<times> bool" where
  "insertSuggestion row db =
     (if findSuggestionById (s_id row) db = None
      then (db\<lparr>db_suggestions := db_suggestions db @ [row]\<rparr>, True) else (db, False))"

definition audit :: "(string \<times> json) list \<Rightarrow> ActorContext \<Rightarrow> AuditAction \<Rightarrow> string \<Rightarrow> string \<Rightarrow> string option \<Rightarrow> Database \<Rightarrow> Database" where
  "audit metadata actor action resourceType resourceId org db =
     db\<lparr>db_audit := db_audit db @ [\<lparr>e_actorUserId = Some (ac_userId actor), e_action = action,
         e_resourceType = resourceType, e_resourceId = resourceId, e_organizationId = org, e_metadata = metadata\<rparr>]\<rparr>"

end
