(* ===== verification/Server_Services.thy ===== *)
theory Server_Services
  imports Server_Store
begin

text \<open>
  The server's policy and services (\<^verbatim>\<open>server/auth/authorization.ts\<close>, \<^verbatim>\<open>server/services\<close>). A service reads
  \<open>dbA\<close> to authorize and works on \<open>db\<close> in its transaction, which others may have changed in between; an error
  inside the transaction leaves \<open>db\<close> as it was. The libraries the services call are the record \<open>Libraries\<close>:
  zod's uuid, e-mail and coercion checks, Clerk's directory, PostgreSQL's \<open>ILIKE\<close>.
\<close>

section \<open>Errors\<close>

datatype error_kind = Unauthenticated | NotFound | Forbidden | Conflict | Validation | Dependency | Unknown

type_synonym DomainError = "error_kind \<times> string"

definition USER_SAFE_MESSAGES :: "error_kind \<Rightarrow> string" where
  "USER_SAFE_MESSAGES k =
     (case k of
        Unauthenticated \<Rightarrow> ''You must be signed in.''
      | NotFound \<Rightarrow> ''Document not found.''
      | Forbidden \<Rightarrow> ''You do not have permission to do that.''
      | Conflict \<Rightarrow> ''Document was modified in another tab. Reload to continue.''
      | Validation \<Rightarrow> ''That input is not valid.''
      | Dependency \<Rightarrow> ''The database is unavailable. Try again shortly.''
      | Unknown \<Rightarrow> ''Something went wrong.'')"

definition toActionError :: "DomainError \<Rightarrow> error_kind \<times> string" where
  "toActionError e = (fst e, USER_SAFE_MESSAGES (fst e))"

text \<open>What PostgreSQL raises is no domain error.\<close>

abbreviation db_error :: DomainError where
  "db_error \<equiv> (Unknown, [])"

section \<open>Authorization policy\<close>

datatype Capability = Read | EditContent | Rename | Delete | ManagePermissions | CommentOn

definition CAPABILITIES :: "Capability \<Rightarrow> Role list" where
  "CAPABILITIES c =
     (case c of
        Read \<Rightarrow> [OWNER, EDITOR, COMMENTER, VIEWER]
      | EditContent \<Rightarrow> [OWNER, EDITOR]
      | Rename \<Rightarrow> [OWNER, EDITOR]
      | Delete \<Rightarrow> [OWNER]
      | ManagePermissions \<Rightarrow> [OWNER]
      | CommentOn \<Rightarrow> [OWNER, EDITOR, COMMENTER])"

definition capability_name :: "Capability \<Rightarrow> string" where
  "capability_name c =
     (case c of
        Read \<Rightarrow> ''read'' | EditContent \<Rightarrow> ''editContent'' | Rename \<Rightarrow> ''rename'' | Delete \<Rightarrow> ''delete''
      | ManagePermissions \<Rightarrow> ''managePermissions'' | CommentOn \<Rightarrow> ''comment'')"

definition resolveEffectiveRole :: "ActorContext \<Rightarrow> DocumentRow \<Rightarrow> Role option \<Rightarrow> Role option" where
  "resolveEffectiveRole actor document directRole =
     (if d_ownerUserId document = ac_userId actor then Some OWNER
      else case directRole of
        Some r \<Rightarrow> Some r
      | None \<Rightarrow>
          (case (d_organizationId document, ac_organization actor) of
             (Some o1, Some o2) \<Rightarrow> if o1 = ao_id o2 then Some EDITOR else None
           | _ \<Rightarrow> None))"

definition roleHasCapability :: "Role option \<Rightarrow> Capability \<Rightarrow> bool" where
  "roleHasCapability role c = (case role of None \<Rightarrow> False | Some r \<Rightarrow> r \<in> set (CAPABILITIES c))"

definition assertCapability :: "Role option \<Rightarrow> Capability \<Rightarrow> DomainError + Role" where
  "assertCapability role c =
     (case role of
        Some r \<Rightarrow> if roleHasCapability role c then Inr r else Inl (Forbidden, ''Missing '' @ capability_name c @ '' capability'')
      | None \<Rightarrow> Inl (Forbidden, ''Missing '' @ capability_name c @ '' capability''))"

section \<open>Inputs\<close>

record ClerkUser =
  cu_id :: string
  cu_emailAddresses :: "(string \<times> bool) list"

record Libraries =
  lib_uuid :: "string \<Rightarrow> bool"
  lib_email :: "string \<Rightarrow> bool"
  lib_coerce :: "json \<Rightarrow> int option"
  lib_users :: "string \<Rightarrow> ClerkUser list option"
  lib_ilike :: "string \<Rightarrow> string \<Rightarrow> bool"

record Env =
  env_now :: nat
  env_id :: string
  env_userId :: string

definition uuid_regex :: "string \<Rightarrow> bool" where
  "uuid_regex s \<longleftrightarrow>
     length s = 36 \<and>
     list_all (\<lambda>i. if i \<in> {8, 13, 18, 23} then s ! i = CHR ''-'' else radix_digit 16 (s ! i) \<noteq> None) [0..<36]"

definition MAX_TITLE_LENGTH :: nat where "MAX_TITLE_LENGTH = 200"

definition MAX_INITIAL_CONTENT_LENGTH :: nat where "MAX_INITIAL_CONTENT_LENGTH = 512000"

definition MAX_CONTENT_JSON_BYTES :: nat where "MAX_CONTENT_JSON_BYTES = 2 * 1024 * 1024"

definition MAX_SEARCH_LENGTH :: nat where "MAX_SEARCH_LENGTH = 200"

definition DEFAULT_TITLE :: string where "DEFAULT_TITLE = ''Untitled document''"

definition normalizeTitle :: "json option \<Rightarrow> DomainError + string" where
  "normalizeTitle input =
     (if nullish input then Inr DEFAULT_TITLE
      else case input of
        Some (JStr s) \<Rightarrow>
          (let trimmed = js_trim s in
           if trimmed = [] then Inr DEFAULT_TITLE
           else if length trimmed > MAX_TITLE_LENGTH
             then Inl (Validation, ''Title must be at most 200 characters'')
           else Inr trimmed)
      | _ \<Rightarrow> Inl (Validation, ''Title must be a string''))"

definition validateInitialContent :: "json option \<Rightarrow> DomainError + string option" where
  "validateInitialContent input =
     (if nullish input \<or> input = Some (JStr []) then Inr None
      else case input of
        Some (JStr s) \<Rightarrow>
          if length s > MAX_INITIAL_CONTENT_LENGTH then Inl (Validation, ''initialContent is too large'')
          else Inr (Some s)
      | _ \<Rightarrow> Inl (Validation, ''initialContent must be a string''))"

text \<open>The two checks of a document id: the services' own pattern, and zod's \<open>uuid\<close>.\<close>

definition parseDocumentId :: "json option \<Rightarrow> DomainError + string" where
  "parseDocumentId input =
     (case input of
        Some (JStr s) \<Rightarrow> if uuid_regex s then Inr s else Inl (Validation, ''Invalid document id'')
      | _ \<Rightarrow> Inl (Validation, ''Invalid document id''))"

definition parse_uuid :: "Libraries \<Rightarrow> json option \<Rightarrow> string option" where
  "parse_uuid L input =
     (case input of Some (JStr s) \<Rightarrow> if lib_uuid L s then Some s else None | _ \<Rightarrow> None)"

definition validateDocumentId :: "Libraries \<Rightarrow> json option \<Rightarrow> DomainError + string" where
  "validateDocumentId L input =
     (case parse_uuid L input of Some s \<Rightarrow> Inr s | None \<Rightarrow> Inl (Validation, ''Invalid document id''))"

text \<open>\<open>z.number().int().min(1)\<close>: zod's integers are the safe ones.\<close>

definition parse_version :: "json option \<Rightarrow> int option" where
  "parse_version input =
     (case input of Some (JNum n) \<Rightarrow> if 1 \<le> n \<and> n < 2 ^ 53 then Some n else None | _ \<Rightarrow> None)"

section \<open>Documents\<close>

text \<open>A denial is indistinguishable from a missing document.\<close>

definition requireAccess ::
  "ActorContext \<Rightarrow> string \<Rightarrow> Capability \<Rightarrow> Database \<Rightarrow> DomainError + (DocumentRow \<times> Role)" where
  "requireAccess actor documentId c db =
     (case findById documentId db of
        None \<Rightarrow> Inl (NotFound, ''Document not found'')
      | Some document \<Rightarrow>
          (case resolveEffectiveRole actor document
                  (map_option g_role (findGrant documentId (ac_userId actor) db)) of
             None \<Rightarrow> Inl (NotFound, ''Document not found'')
           | Some role \<Rightarrow>
               if roleHasCapability (Some role) c then Inr (document, role)
               else Inl (NotFound, ''Document not found'')))"

definition organization_of :: "ActorContext \<Rightarrow> string option" where
  "organization_of actor = map_option ao_id (ac_organization actor)"

definition createDocument ::
  "ActorContext \<Rightarrow> json option \<Rightarrow> json option \<Rightarrow> Env \<Rightarrow> Database \<Rightarrow> Database \<times> (DomainError + string)" where
  "createDocument actor title initial env db =
     (case bindE (normalizeTitle title) (\<lambda>t. bindE (validateInitialContent initial) (\<lambda>i. Inr (t, i))) of
        Inl e \<Rightarrow> (db, Inl e)
      | Inr (t, i) \<Rightarrow>
          (case insertDocument (env_id env) (env_now env) t (ac_userId actor) (organization_of actor) i db of
             None \<Rightarrow> (db, Inl db_error)
           | Some (db1, row) \<Rightarrow>
               (audit [(''title'', JStr (d_title row))] actor DocumentCreate ''document'' (d_id row) (organization_of actor) db1, Inr (d_id row))))"

definition getDocument ::
  "ActorContext \<Rightarrow> json option \<Rightarrow> Database \<Rightarrow> DomainError + (DocumentRow \<times> Role)" where
  "getDocument actor documentId db =
     bindE (parseDocumentId documentId) (\<lambda>i. requireAccess actor i Read db)"

definition renameDocument ::
  "ActorContext \<Rightarrow> json option \<Rightarrow> json option \<Rightarrow> json option \<Rightarrow> Env \<Rightarrow> Database \<Rightarrow> Database \<Rightarrow> Database \<times> (DomainError + int)" where
  "renameDocument actor documentId title expectedV env dbA db =
     (case bindE (parseDocumentId documentId) (\<lambda>i.
           bindE (requireAccess actor i Rename dbA) (\<lambda>_.
           bindE (normalizeTitle title) (\<lambda>t.
             case parse_version expectedV of
               None \<Rightarrow> Inl (Validation, ''Invalid expectedMetadataVersion'')
             | Some v \<Rightarrow> Inr (i, t, v)))) of
        Inl e \<Rightarrow> (db, Inl e)
      | Inr (i, t, v) \<Rightarrow>
          (case renameConditional i v t (env_now env) db of
             None \<Rightarrow> (db, Inl db_error)
           | Some (db1, None) \<Rightarrow>
               (db, Inl (if findById i db = None then (NotFound, ''Document not found'')
                         else (Conflict, ''Document was modified concurrently'')))
           | Some (db1, Some updated) \<Rightarrow>
               (audit [(''title'', JStr t)] actor DocumentRename ''document'' i (d_organizationId updated) db1,
                Inr (d_metadataVersion updated))))"

definition deleteDocument ::
  "ActorContext \<Rightarrow> json option \<Rightarrow> Database \<Rightarrow> Database \<Rightarrow> Database \<times> (DomainError + unit)" where
  "deleteDocument actor documentId dbA db =
     (case bindE (parseDocumentId documentId) (\<lambda>i.
           bindE (requireAccess actor i Delete dbA) (\<lambda>(document, _). Inr (i, document))) of
        Inl e \<Rightarrow> (db, Inl e)
      | Inr (i, document) \<Rightarrow>
          (fst (deleteById i (audit [(''title'', JStr (d_title document))] actor DocumentDelete ''document'' i (d_organizationId document) db)), Inr ()))"

text \<open>The stored envelope: an object with \<open>v: 1\<close> and a \<open>doc\<close>.\<close>

definition is_envelope :: "json \<Rightarrow> bool" where
  "is_envelope v \<longleftrightarrow>
     (case v of
        JObj kvs \<Rightarrow> map_of kvs ''v'' = Some (JNum 1) \<and> map_of kvs ''doc'' \<noteq> None
      | _ \<Rightarrow> False)"

definition validate_content :: "json option \<Rightarrow> DomainError + json" where
  "validate_content input =
     (case input of
        None \<Rightarrow> Inl (Validation, ''Content must be a version 1 object envelope'')
      | Some v \<Rightarrow>
          if \<not> is_envelope v then Inl (Validation, ''Content must be a version 1 object envelope'')
          else if length (json_stringify v) > MAX_CONTENT_JSON_BYTES
            then Inl (Validation, ''Content is too large'')
          else Inr v)"

definition saveDocumentContent ::
  "ActorContext \<Rightarrow> json option \<Rightarrow> json option \<Rightarrow> json option \<Rightarrow> Env \<Rightarrow> Database \<Rightarrow> Database \<Rightarrow> Database \<times> (DomainError + int)" where
  "saveDocumentContent actor documentId content expectedV env dbA db =
     (case bindE (parseDocumentId documentId) (\<lambda>i.
           bindE (requireAccess actor i EditContent dbA) (\<lambda>_.
             case parse_version expectedV of
               None \<Rightarrow> Inl (Validation, ''Invalid expectedContentVersion'')
             | Some v \<Rightarrow> bindE (validate_content content) (\<lambda>c. Inr (i, v, c)))) of
        Inl e \<Rightarrow> (db, Inl e)
      | Inr (i, v, c) \<Rightarrow>
          (case updateContentConditional i v c (env_now env) db of
             None \<Rightarrow> (db, Inl db_error)
           | Some (db1, None) \<Rightarrow>
               (db1, Inl (if findById i db1 = None then (NotFound, ''Document not found'')
                          else (Conflict, ''Document was modified concurrently'')))
           | Some (db1, Some updated) \<Rightarrow> (db1, Inr (d_contentVersion updated))))"

definition parse_search :: "json option \<Rightarrow> DomainError + string option" where
  "parse_search input =
     (if nullish input \<or> input = Some (JStr []) then Inr None
      else case input of
        Some (JStr s) \<Rightarrow>
          (let search = take MAX_SEARCH_LENGTH (js_trim s)
           in Inr (if search = [] then None else Some (escapeLikePattern search)))
      | _ \<Rightarrow> Inl (Validation, ''Invalid search''))"

text \<open>A coerced integer from \<open>lo\<close> to \<open>hi\<close>, or the default for a missing one; \<open>null\<close> counts as missing.\<close>

definition parse_count :: "Libraries \<Rightarrow> string \<Rightarrow> int \<Rightarrow> int \<Rightarrow> int \<Rightarrow> json option \<Rightarrow> DomainError + int" where
  "parse_count L what lo hi dflt input =
     (if nullish input then Inr dflt
      else case lib_coerce L (the input) of
        Some n \<Rightarrow> if lo \<le> n \<and> n \<le> hi then Inr n else Inl (Validation, ''Invalid '' @ what)
      | None \<Rightarrow> Inl (Validation, ''Invalid '' @ what))"

definition parse_offset :: "Libraries \<Rightarrow> int \<Rightarrow> json option \<Rightarrow> DomainError + int" where
  "parse_offset L dflt input =
     (case input of
        None \<Rightarrow> Inr dflt
      | Some v \<Rightarrow>
          (case lib_coerce L v of
             Some n \<Rightarrow> if 0 \<le> n then Inr n else Inl (Validation, ''Invalid offset'')
           | None \<Rightarrow> Inl (Validation, ''Invalid offset'')))"

definition parse_scope :: "json option \<Rightarrow> DomainError + scope" where
  "parse_scope input =
     (case input of
        None \<Rightarrow> Inr Workspace
      | Some v \<Rightarrow>
          if v = JStr ''workspace'' then Inr Workspace else if v = JStr ''shared'' then Inr Shared
          else Inl (Validation, ''Invalid document scope''))"

record ListInput =
  li_search :: "json option"
  li_page :: "json option"
  li_pageSize :: "json option"
  li_offset :: "json option"
  li_scope :: "json option"

definition listDocuments ::
  "Libraries \<Rightarrow> ActorContext \<Rightarrow> ListInput \<Rightarrow> Database \<Rightarrow> DomainError + ((DocumentRow \<times> Role) list \<times> bool)" where
  "listDocuments L actor input db =
     bindE (parse_count L ''page'' 1 (2 ^ 53 - 1) 1 (li_page input)) (\<lambda>page.
     bindE (parse_count L ''pageSize'' 1 50 5 (li_pageSize input)) (\<lambda>pageSize.
     bindE (parse_search (li_search input)) (\<lambda>titlePattern.
     bindE (parse_offset L ((page - 1) * pageSize) (li_offset input)) (\<lambda>offset.
     bindE (parse_scope (li_scope input)) (\<lambda>scope.
       let rows = listAccessible (lib_ilike L) (ac_userId actor) (organization_of actor) scope
             (nat pageSize + 1) (nat offset) titlePattern db
       in Inr (take (nat pageSize) rows, length rows > nat pageSize))))))"

section \<open>Permissions\<close>

text \<open>Ownership comes from the document or from a grant; a grant never says \<open>OWNER\<close>.\<close>

definition requireOwnedDocument :: "ActorContext \<Rightarrow> string \<Rightarrow> Database \<Rightarrow> DomainError + DocumentRow" where
  "requireOwnedDocument actor documentId db =
     (case findById documentId db of
        None \<Rightarrow> Inl (NotFound, ''Document not found'')
      | Some document \<Rightarrow>
          (case assertCapability
                  (if d_ownerUserId document = ac_userId actor then Some OWNER
                   else map_option g_role (findGrant documentId (ac_userId actor) db))
                  ManagePermissions of
             Inl e \<Rightarrow> Inl (if fst e = Forbidden then (NotFound, ''Document not found'') else e)
           | Inr _ \<Rightarrow> Inr document))"

definition validateTarget :: "ActorContext \<Rightarrow> json option \<Rightarrow> DomainError + string" where
  "validateTarget actor target =
     (case target of
        Some (JStr s) \<Rightarrow>
          if \<not> uuid_regex s then Inl (Validation, ''Invalid target user'')
          else if s = ac_userId actor then Inl (Validation, ''Cannot grant permissions to yourself'')
          else Inr s
      | _ \<Rightarrow> Inl (Validation, ''Invalid target user''))"

definition role_name :: "Role \<Rightarrow> string" where
  "role_name r = (case r of OWNER \<Rightarrow> ''OWNER'' | EDITOR \<Rightarrow> ''EDITOR'' | COMMENTER \<Rightarrow> ''COMMENTER'' | VIEWER \<Rightarrow> ''VIEWER'')"

definition parse_role :: "json option \<Rightarrow> DomainError + Role" where
  "parse_role input =
     (if input = Some (JStr ''EDITOR'') then Inr EDITOR
      else if input = Some (JStr ''COMMENTER'') then Inr COMMENTER
      else if input = Some (JStr ''VIEWER'') then Inr VIEWER
      else Inl (Validation, ''Invalid role''))"

text \<open>The one Clerk account with this verified address.\<close>

definition account_of :: "Libraries \<Rightarrow> json \<Rightarrow> DomainError + string" where
  "account_of L email =
     (case email of
        JStr s \<Rightarrow>
          (let address = to_lower (js_trim s) in
           if \<not> lib_email L address \<or> length address > 254 then Inl (Validation, ''Enter a valid email address'')
           else case lib_users L address of
             None \<Rightarrow> Inl db_error
           | Some users \<Rightarrow>
               (case filter (\<lambda>u. list_ex (\<lambda>(a, verified). to_lower a = address \<and> verified)
                       (cu_emailAddresses u)) users of
                  [u] \<Rightarrow> Inr (cu_id u)
                | _ \<Rightarrow> Inl (Validation, ''No account with this verified email. Ask them to sign up and verify their email, then try again.'')))
      | _ \<Rightarrow> Inl (Validation, ''Enter a valid email address''))"

text \<open>Who is meant: the given id, or the principal of the account, which is created when it is new.\<close>

definition resolve_target ::
  "Libraries \<Rightarrow> json option \<Rightarrow> json option \<Rightarrow> Env \<Rightarrow> Database \<Rightarrow> Database \<times> (DomainError + json option)" where
  "resolve_target L target email env db =
     (case email of
        None \<Rightarrow> (db, Inr target)
      | Some v \<Rightarrow>
          if target \<noteq> None then (db, Inl (Validation, ''Use either email or collaboration ID''))
          else case account_of L v of
            Inl e \<Rightarrow> (db, Inl e)
          | Inr clerkUserId \<Rightarrow>
              (case findOrCreateByClerkUserId (env_userId env) clerkUserId db of
                 (db1, u) \<Rightarrow> (db1, Inr (Some (JStr (u_id u))))))"

definition grantPermission ::
  "Libraries \<Rightarrow> ActorContext \<Rightarrow> json option \<Rightarrow> json option \<Rightarrow> json option \<Rightarrow> json option \<Rightarrow> Env \<Rightarrow> Database \<Rightarrow> Database \<Rightarrow> Database \<times> (DomainError + Role)" where
  "grantPermission L actor documentId target email role env dbA db =
     (case bindE (parseDocumentId documentId) (\<lambda>i.
           bindE (requireOwnedDocument actor i dbA) (\<lambda>document.
           bindE (parse_role role) (\<lambda>r. Inr (document, r)))) of
        Inl e \<Rightarrow> (db, Inl e)
      | Inr (document, r) \<Rightarrow>
          (case resolve_target L target email env db of
             (db1, Inl e) \<Rightarrow> (db1, Inl e)
           | (db1, Inr t) \<Rightarrow>
               (case validateTarget actor t of
                  Inl e \<Rightarrow> (db1, Inl e)
                | Inr targetUserId \<Rightarrow>
                    (case findUser targetUserId db1 of
                       None \<Rightarrow> (db1, Inl (Validation, ''Target user does not exist''))
                     | Some targetUser \<Rightarrow>
                         if u_id targetUser = d_ownerUserId document
                         then (db1, Inl (Validation, (''Cannot change the owner'' @ [CHR 39] @ ''s role'')))
                         else
                           let existing = findGrant (d_id document) targetUserId db1
                           in case upsertGrant \<lparr>g_documentId = d_id document, g_userId = uuid targetUserId,
                                  g_role = r, g_grantedByUserId = Some (ac_userId actor)\<rparr> db1 of
                                None \<Rightarrow> (db1, Inl db_error)
                              | Some (db2, row) \<Rightarrow>
                                  (audit [(''targetUserId'', JStr targetUserId), (''role'', JStr (role_name r))] actor (if existing \<noteq> None then PermissionUpdated else PermissionGranted)
                                     ''document_permission'' (d_id document) (d_organizationId document) db2,
                                   Inr (g_role row))))))"

definition revokePermission ::
  "ActorContext \<Rightarrow> json option \<Rightarrow> json option \<Rightarrow> Database \<Rightarrow> Database \<Rightarrow> Database \<times> (DomainError + bool)" where
  "revokePermission actor documentId target dbA db =
     (case bindE (parseDocumentId documentId) (\<lambda>i.
           bindE (requireOwnedDocument actor i dbA) (\<lambda>document.
           bindE (validateTarget actor target) (\<lambda>t. Inr (document, t)))) of
        Inl e \<Rightarrow> (db, Inl e)
      | Inr (document, t) \<Rightarrow>
          (case deleteGrant (d_id document) t db of
             (db1, revoked) \<Rightarrow>
               ((if revoked then audit [(''targetUserId'', JStr t)] actor PermissionRevoked ''document_permission'' (d_id document)
                     (d_organizationId document) db1
                 else db1), Inr revoked)))"

definition listGrants :: "ActorContext \<Rightarrow> json option \<Rightarrow> Database \<Rightarrow> DomainError + GrantRow list" where
  "listGrants actor documentId db =
     bindE (parseDocumentId documentId) (\<lambda>i.
     bindE (requireOwnedDocument actor i db) (\<lambda>document. Inr (listByDocument (d_id document) db)))"

end
