(* ===== verification/Server_Comments.thy ===== *)
theory Server_Comments
  imports Server_Services
begin

text \<open>
  The comment and suggestion services (\<^verbatim>\<open>server/services/comments.ts\<close>, \<^verbatim>\<open>suggestions.ts\<close>), and the
  requests of all services in one type with the function that serves them.
\<close>

section \<open>Inputs\<close>

definition field :: "string \<Rightarrow> json option \<Rightarrow> json option" where
  "field k input = (case input of Some (JObj kvs) \<Rightarrow> map_of kvs k | _ \<Rightarrow> None)"

definition parse_text :: "nat \<Rightarrow> nat \<Rightarrow> json option \<Rightarrow> string option" where
  "parse_text lo hi input =
     (case input of Some (JStr s) \<Rightarrow> if lo \<le> length s \<and> length s \<le> hi then Some s else None | _ \<Rightarrow> None)"

definition parse_body :: "json option \<Rightarrow> string option" where
  "parse_body input =
     (case input of Some (JStr s) \<Rightarrow> parse_text 1 4000 (Some (JStr (js_trim s))) | _ \<Rightarrow> None)"

definition parse_itemId :: "json option \<Rightarrow> string option" where
  "parse_itemId input =
     (case input of
        Some (JStr s) \<Rightarrow>
          (case split_on (CHR '':'') s of
             [replica, counter] \<Rightarrow>
               if positive_dec replica \<and> positive_dec counter
                 \<and> dec_val replica \<le> 2 ^ 64 - 1 \<and> dec_val counter \<le> 2 ^ 63 - 1
               then Some s else None
           | _ \<Rightarrow> None)
      | _ \<Rightarrow> None)"

definition parse_side :: "json option \<Rightarrow> string option" where
  "parse_side input =
     (case input of
        Some (JStr s) \<Rightarrow> if s = ''before'' \<or> s = ''after'' then Some s else None
      | _ \<Rightarrow> None)"

record Anchor =
  a_startItemId :: string
  a_startSide :: string
  a_endItemId :: string
  a_endSide :: string

definition parse_anchor :: "json option \<Rightarrow> Anchor option" where
  "parse_anchor input =
     (let start = field ''start'' input; e = field ''end'' input in
      case (parse_itemId (field ''itemId'' start), parse_side (field ''side'' start),
            parse_itemId (field ''itemId'' e), parse_side (field ''side'' e)) of
        (Some si, Some ss, Some ei, Some es) \<Rightarrow>
          Some \<lparr>a_startItemId = si, a_startSide = ss, a_endItemId = ei, a_endSide = es\<rparr>
      | _ \<Rightarrow> None)"

record ThreadInput =
  ti_threadId :: string
  ti_messageId :: string
  ti_anchor :: Anchor
  ti_quote :: string
  ti_body :: string

definition parse_thread :: "Libraries \<Rightarrow> json option \<Rightarrow> ThreadInput option" where
  "parse_thread L input =
     (case (parse_uuid L (field ''threadId'' input), parse_uuid L (field ''messageId'' input),
            parse_anchor (field ''anchor'' input), parse_text 0 1000 (field ''quote'' input),
            parse_body (field ''body'' input)) of
        (Some t, Some m, Some a, Some q, Some b) \<Rightarrow>
          Some \<lparr>ti_threadId = t, ti_messageId = m, ti_anchor = a, ti_quote = q, ti_body = b\<rparr>
      | _ \<Rightarrow> None)"

definition parse_reply :: "Libraries \<Rightarrow> json option \<Rightarrow> (string \<times> string) option" where
  "parse_reply L input =
     (case (parse_uuid L (field ''messageId'' input), parse_body (field ''body'' input)) of
        (Some m, Some b) \<Rightarrow> Some (m, b)
      | _ \<Rightarrow> None)"

definition parse_status :: "json option \<Rightarrow> thread_status option" where
  "parse_status input =
     (if input = Some (JStr ''open'') then Some Open
      else if input = Some (JStr ''resolved'') then Some Resolved else None)"

record SuggestionInput =
  si_suggestionId :: string
  si_anchor :: Anchor
  si_quote :: string
  si_proposedText :: string

definition parse_suggestion :: "Libraries \<Rightarrow> json option \<Rightarrow> SuggestionInput option" where
  "parse_suggestion L input =
     (case (parse_uuid L (field ''suggestionId'' input), parse_anchor (field ''anchor'' input),
            parse_text 0 1000 (field ''quote'' input), parse_text 0 4000 (field ''proposedText'' input)) of
        (Some i, Some a, Some q, Some p) \<Rightarrow>
          Some \<lparr>si_suggestionId = i, si_anchor = a, si_quote = q, si_proposedText = p\<rparr>
      | _ \<Rightarrow> None)"

datatype resolution = Accept | Reject | Discharge

definition parse_resolution :: "json option \<Rightarrow> resolution option" where
  "parse_resolution input =
     (let action = field ''action'' input in
      if action = Some (JStr ''accept'') then Some Accept
      else if action = Some (JStr ''reject'') then Some Reject
      else if action = Some (JStr ''discharge'') then Some Discharge else None)"

section \<open>Comments\<close>

definition requireComment :: "Role \<Rightarrow> DomainError + unit" where
  "requireComment role =
     guardE (role = OWNER \<or> role = EDITOR \<or> role = COMMENTER) (Forbidden, ''Comment access required'')"

definition same_thread :: "ActorContext \<Rightarrow> ThreadInput \<Rightarrow> ThreadRow option \<Rightarrow> MessageRow option \<Rightarrow> bool" where
  "same_thread actor inp row message =
     (case (row, message) of
        (Some t, Some m) \<Rightarrow>
          t_createdByUserId t = ac_userId actor
          \<and> t_startItemId t = a_startItemId (ti_anchor inp) \<and> t_startSide t = a_startSide (ti_anchor inp)
          \<and> t_endItemId t = a_endItemId (ti_anchor inp) \<and> t_endSide t = a_endSide (ti_anchor inp)
          \<and> t_quotedText t = ti_quote inp
          \<and> m_threadId m = ti_threadId inp \<and> m_createdByUserId m = ac_userId actor \<and> m_body m = ti_body inp
      | _ \<Rightarrow> False)"

definition thread_row :: "ActorContext \<Rightarrow> string \<Rightarrow> ThreadInput \<Rightarrow> nat \<Rightarrow> ThreadRow" where
  "thread_row actor documentId inp now =
     \<lparr>t_id = uuid (ti_threadId inp), t_documentId = uuid documentId, t_createdByUserId = ac_userId actor,
      t_startItemId = a_startItemId (ti_anchor inp), t_startSide = a_startSide (ti_anchor inp),
      t_endItemId = a_endItemId (ti_anchor inp), t_endSide = a_endSide (ti_anchor inp),
      t_quotedText = ti_quote inp, t_status = Open, t_createdAt = now, t_updatedAt = now\<rparr>"

definition message_row :: "ActorContext \<Rightarrow> string \<Rightarrow> string \<Rightarrow> string \<Rightarrow> nat \<Rightarrow> MessageRow" where
  "message_row actor messageId threadId body now =
     \<lparr>m_id = uuid messageId, m_threadId = uuid threadId, m_createdByUserId = ac_userId actor,
      m_body = body, m_createdAt = now\<rparr>"

text \<open>The id and whether it is a duplicate. A message id in use is a unique violation, which rolls back.\<close>

definition createThread ::
  "Libraries \<Rightarrow> ActorContext \<Rightarrow> json option \<Rightarrow> json option \<Rightarrow> Env \<Rightarrow> Database \<Rightarrow> Database \<Rightarrow> Database \<times> (DomainError + string \<times> bool)" where
  "createThread L actor documentIdInput input env dbA db =
     (case bindE (validateDocumentId L documentIdInput) (\<lambda>documentId.
           case parse_thread L input of
             None \<Rightarrow> Inl (Validation, ''Invalid comment thread'')
           | Some inp \<Rightarrow>
               bindE (case findThreadById (ti_threadId inp) dbA of
                        Some t \<Rightarrow> guardE (t_documentId t = documentId) (Conflict, ''Comment ID already exists'')
                      | None \<Rightarrow> Inr ()) (\<lambda>_.
               bindE (getDocument actor (Some (JStr documentId)) dbA) (\<lambda>(document, role).
               bindE (requireComment role) (\<lambda>_. Inr (documentId, inp, document))))) of
        Inl e \<Rightarrow> (db, Inl e)
      | Inr (documentId, inp, document) \<Rightarrow>
          (case findThread documentId (ti_threadId inp) db of
             Some existing \<Rightarrow>
               (db, if same_thread actor inp (Some existing) (findMessage (ti_messageId inp) db)
                    then Inr (ti_threadId inp, True) else Inl (Conflict, ''Comment ID already exists''))
           | None \<Rightarrow>
               (case insertThread (thread_row actor documentId inp (env_now env)) db of
                  (_, False) \<Rightarrow>
                    (db, if same_thread actor inp (findThread documentId (ti_threadId inp) db)
                              (findMessage (ti_messageId inp) db)
                         then Inr (ti_threadId inp, True) else Inl (Conflict, ''Comment ID already exists''))
                | (db1, True) \<Rightarrow>
                    (case insertMessage
                        (message_row actor (ti_messageId inp) (ti_threadId inp) (ti_body inp) (env_now env)) db1 of
                       (_, False) \<Rightarrow> (db, Inl db_error)
                     | (db2, True) \<Rightarrow>
                         (audit [(''documentId'', JStr documentId)] actor CommentCreated ''document_comment'' (ti_threadId inp)
                            (d_organizationId document) db2, Inr (ti_threadId inp, False))))))"

definition update_threads :: "(ThreadRow \<Rightarrow> bool) \<Rightarrow> (ThreadRow \<Rightarrow> ThreadRow) \<Rightarrow> Database \<Rightarrow> Database" where
  "update_threads P f db = db\<lparr>db_threads := fst (update_rows P f (db_threads db))\<rparr>"

definition same_message :: "ActorContext \<Rightarrow> ThreadRow \<Rightarrow> string \<Rightarrow> MessageRow option \<Rightarrow> bool" where
  "same_message actor thread body row =
     (case row of
        Some m \<Rightarrow> m_threadId m = t_id thread \<and> m_createdByUserId m = ac_userId actor \<and> m_body m = body
      | None \<Rightarrow> False)"

definition addMessage ::
  "Libraries \<Rightarrow> ActorContext \<Rightarrow> json option \<Rightarrow> json option \<Rightarrow> json option \<Rightarrow> Env \<Rightarrow> Database \<Rightarrow> Database \<Rightarrow> Database \<times> (DomainError + string \<times> bool)" where
  "addMessage L actor documentIdInput threadIdInput input env dbA db =
     (case bindE (validateDocumentId L documentIdInput) (\<lambda>documentId.
           case (parse_uuid L threadIdInput, parse_reply L input) of
             (Some threadId, Some (messageId, body)) \<Rightarrow>
               bindE (getDocument actor (Some (JStr documentId)) dbA) (\<lambda>(document, role).
               bindE (requireComment role) (\<lambda>_. Inr (documentId, threadId, messageId, body, document)))
           | _ \<Rightarrow> Inl (Validation, ''Invalid comment reply'')) of
        Inl e \<Rightarrow> (db, Inl e)
      | Inr (documentId, threadId, messageId, body, document) \<Rightarrow>
          (case findThread documentId threadId db of
             None \<Rightarrow> (db, Inl (NotFound, ''Comment thread not found''))
           | Some thread \<Rightarrow>
               (case findMessage messageId db of
                  Some existing \<Rightarrow>
                    (db, if same_message actor thread body (Some existing) then Inr (m_id existing, True)
                         else Inl (Conflict, ''Comment message ID already exists''))
                | None \<Rightarrow>
                    if t_status thread = Resolved then (db, Inl (Conflict, ''Comment thread is resolved''))
                    else
                      (case insertMessage (message_row actor messageId (t_id thread) body (env_now env)) db of
                         (_, False) \<Rightarrow>
                           (db, if same_message actor thread body (findMessage messageId db)
                                then Inr (m_id (the (findMessage messageId db)), True)
                                else Inl (Conflict, ''Comment message ID already exists''))
                       | (db1, True) \<Rightarrow>
                           (audit [(''documentId'', JStr documentId), (''messageId'', JStr messageId)] actor CommentReplied ''document_comment'' (t_id thread) (d_organizationId document)
                              (update_threads (\<lambda>t. t_id t = t_id thread) (\<lambda>t. t\<lparr>t_updatedAt := env_now env\<rparr>) db1),
                            Inr (messageId, False))))))"

definition setThreadStatus ::
  "Libraries \<Rightarrow> ActorContext \<Rightarrow> json option \<Rightarrow> json option \<Rightarrow> json option \<Rightarrow> Env \<Rightarrow> Database \<Rightarrow> Database \<Rightarrow> Database \<times> (DomainError + thread_status)" where
  "setThreadStatus L actor documentIdInput threadIdInput statusInput env dbA db =
     (case bindE (validateDocumentId L documentIdInput) (\<lambda>documentId.
           case (parse_uuid L threadIdInput, parse_status statusInput) of
             (Some threadId, Some status) \<Rightarrow>
               bindE (getDocument actor (Some (JStr documentId)) dbA) (\<lambda>(document, role).
               bindE (guardE (role = OWNER \<or> role = EDITOR) (Forbidden, ''Only editors can resolve comments''))
                 (\<lambda>_. Inr (documentId, threadId, status, document)))
           | _ \<Rightarrow> Inl (Validation, ''Invalid comment thread status'')) of
        Inl e \<Rightarrow> (db, Inl e)
      | Inr (documentId, threadId, status, document) \<Rightarrow>
          (case findThread documentId threadId db of
             None \<Rightarrow> (db, Inl (NotFound, ''Comment thread not found''))
           | Some thread \<Rightarrow>
               if t_status thread = status then (db, Inr status)
               else
                 (audit [(''documentId'', JStr documentId), (''status'', JStr (if status = Open then ''open'' else ''resolved''))]
                    actor CommentResolved ''document_comment'' (t_id thread) (d_organizationId document)
                    (update_threads (\<lambda>t. t_documentId t = uuid documentId \<and> t_id t = t_id thread)
                       (\<lambda>t. t\<lparr>t_status := status, t_updatedAt := env_now env\<rparr>) db),
                  Inr status)))"

text \<open>The listed threads with their messages, oldest first, and whether threads or messages were cut off.\<close>

definition list_comments ::
  "Libraries \<Rightarrow> ActorContext \<Rightarrow> json option \<Rightarrow> Database \<Rightarrow> DomainError + ((ThreadRow \<times> MessageRow list) list \<times> bool \<times> bool)" where
  "list_comments L actor documentIdInput db =
     bindE (validateDocumentId L documentIdInput) (\<lambda>documentId.
     bindE (getDocument actor (Some (JStr documentId)) db) (\<lambda>_.
       let threads = fst (listThreads documentId db);
           messages = listMessages (map t_id threads) db
       in Inr (map (\<lambda>t. (t, sort_key m_createdAt (sort_key m_id
                 (filter (\<lambda>m. m_threadId m = t_id t) (fst messages))))) threads,
               snd (listThreads documentId db), snd messages)))"

section \<open>Suggestions\<close>

definition requirePropose :: "Role \<Rightarrow> DomainError + unit" where
  "requirePropose role =
     guardE (role = OWNER \<or> role = EDITOR \<or> role = COMMENTER) (Forbidden, ''Suggestion access required'')"

definition sameBytes :: "ActorContext \<Rightarrow> SuggestionInput \<Rightarrow> SuggestionRow option \<Rightarrow> bool" where
  "sameBytes actor inp row =
     (case row of
        None \<Rightarrow> False
      | Some s \<Rightarrow>
          s_createdByUserId s = ac_userId actor
          \<and> s_startItemId s = a_startItemId (si_anchor inp) \<and> s_startSide s = a_startSide (si_anchor inp)
          \<and> s_endItemId s = a_endItemId (si_anchor inp) \<and> s_endSide s = a_endSide (si_anchor inp)
          \<and> s_quotedText s = si_quote inp \<and> s_proposedText s = si_proposedText inp)"

definition suggestion_row :: "ActorContext \<Rightarrow> string \<Rightarrow> SuggestionInput \<Rightarrow> nat \<Rightarrow> SuggestionRow" where
  "suggestion_row actor documentId inp now =
     \<lparr>s_id = uuid (si_suggestionId inp), s_documentId = uuid documentId, s_createdByUserId = ac_userId actor,
      s_startItemId = a_startItemId (si_anchor inp), s_startSide = a_startSide (si_anchor inp),
      s_endItemId = a_endItemId (si_anchor inp), s_endSide = a_endSide (si_anchor inp),
      s_quotedText = si_quote inp, s_proposedText = si_proposedText inp, s_status = Proposed,
      s_resolvedByUserId = None, s_resolvedAt = None, s_createdAt = now, s_updatedAt = now\<rparr>"

definition create_suggestion ::
  "Libraries \<Rightarrow> ActorContext \<Rightarrow> json option \<Rightarrow> json option \<Rightarrow> Env \<Rightarrow> Database \<Rightarrow> Database \<Rightarrow> Database \<times> (DomainError + string \<times> bool)" where
  "create_suggestion L actor documentIdInput input env dbA db =
     (case bindE (validateDocumentId L documentIdInput) (\<lambda>documentId.
           case parse_suggestion L input of
             None \<Rightarrow> Inl (Validation, ''Invalid suggestion'')
           | Some inp \<Rightarrow>
               bindE (case findSuggestionById (si_suggestionId inp) dbA of
                        Some s \<Rightarrow> guardE (s_documentId s = documentId) (Conflict, ''Suggestion ID already exists'')
                      | None \<Rightarrow> Inr ()) (\<lambda>_.
               bindE (getDocument actor (Some (JStr documentId)) dbA) (\<lambda>(document, role).
               bindE (requirePropose role) (\<lambda>_. Inr (documentId, inp, document))))) of
        Inl e \<Rightarrow> (db, Inl e)
      | Inr (documentId, inp, document) \<Rightarrow>
          (case findSuggestion documentId (si_suggestionId inp) db of
             Some existing \<Rightarrow>
               (db, if sameBytes actor inp (Some existing) then Inr (si_suggestionId inp, True)
                    else Inl (Conflict, ''Suggestion ID already exists''))
           | None \<Rightarrow>
               (case insertSuggestion (suggestion_row actor documentId inp (env_now env)) db of
                  (_, False) \<Rightarrow>
                    (db, if sameBytes actor inp (findSuggestion documentId (si_suggestionId inp) db)
                         then Inr (si_suggestionId inp, True)
                         else Inl (Conflict, ''Suggestion ID already exists''))
                | (db1, True) \<Rightarrow>
                    (audit [(''documentId'', JStr documentId)] actor SuggestionCreated ''document_suggestion'' (si_suggestionId inp)
                       (d_organizationId document) db1, Inr (si_suggestionId inp, False)))))"

definition action_name :: "resolution \<Rightarrow> string" where
  "action_name action = (case action of Accept \<Rightarrow> ''accept'' | Reject \<Rightarrow> ''reject'' | Discharge \<Rightarrow> ''discharge'')"

definition next_status :: "resolution \<Rightarrow> suggestion_status" where
  "next_status action = (case action of Accept \<Rightarrow> Accepted | Reject \<Rightarrow> Rejected | Discharge \<Rightarrow> Discharged)"

text \<open>What a resolution of a row is answered: go on, the status a retry repeats, or an error.\<close>

definition resolution_check :: "ActorContext \<Rightarrow> bool \<Rightarrow> SuggestionRow \<Rightarrow> resolution \<Rightarrow> DomainError + suggestion_status option" where
  "resolution_check actor isEditor row action =
     (if s_status row = Proposed then
        (if action = Accept \<and> \<not> isEditor then Inl (Forbidden, ''Only editors can accept suggestions'')
         else if (action = Reject \<or> action = Discharge) \<and> \<not> isEditor
             \<and> s_createdByUserId row \<noteq> ac_userId actor
           then Inl (Forbidden, ''Only editors or the author can resolve a suggestion'')
         else Inr None)
      else if action = Accept \<and> s_status row = Accepted then Inr (Some Accepted)
      else if action = Reject \<and> s_status row = Rejected then Inr (Some Rejected)
      else if s_status row = Discharged then
        (if action = Discharge then Inr (Some Discharged) else Inl (Conflict, ''Suggestion was discharged''))
      else Inl (Conflict, ''Suggestion already resolved''))"

definition resolve_suggestion ::
  "Libraries \<Rightarrow> ActorContext \<Rightarrow> json option \<Rightarrow> json option \<Rightarrow> json option \<Rightarrow> Env \<Rightarrow> Database \<Rightarrow> Database \<Rightarrow> Database \<times> (DomainError + suggestion_status)" where
  "resolve_suggestion L actor documentIdInput suggestionIdInput input env dbA db =
     (case bindE (validateDocumentId L documentIdInput) (\<lambda>documentId.
           case (parse_uuid L suggestionIdInput, parse_resolution input) of
             (Some suggestionId, Some action) \<Rightarrow>
               bindE (getDocument actor (Some (JStr documentId)) dbA) (\<lambda>(document, role).
                 Inr (documentId, suggestionId, action, document, role = OWNER \<or> role = EDITOR))
           | _ \<Rightarrow> Inl (Validation, ''Invalid suggestion resolution'')) of
        Inl e \<Rightarrow> (db, Inl e)
      | Inr (documentId, suggestionId, action, document, isEditor) \<Rightarrow>
          (case findSuggestionById suggestionId db of
             None \<Rightarrow> (db, Inl (NotFound, ''Suggestion not found''))
           | Some row \<Rightarrow>
               if s_documentId row \<noteq> documentId then (db, Inl (NotFound, ''Suggestion not found''))
               else case resolution_check actor isEditor row action of
                 Inl e \<Rightarrow> (db, Inl e)
               | Inr (Some status) \<Rightarrow> (db, Inr status)
               | Inr None \<Rightarrow>
                   (audit [(''documentId'', JStr documentId), (''action'', JStr (action_name action))]
                      actor SuggestionResolved ''document_suggestion'' (s_id row) (d_organizationId document)
                      (db\<lparr>db_suggestions := fst (update_rows (\<lambda>s. s_id s = s_id row)
                          (\<lambda>s. s\<lparr>s_status := next_status action, s_resolvedAt := Some (env_now env),
                             s_resolvedByUserId := Some (ac_userId actor), s_updatedAt := env_now env\<rparr>)
                          (db_suggestions db))\<rparr>),
                    Inr (next_status action))))"

definition list_suggestions ::
  "Libraries \<Rightarrow> ActorContext \<Rightarrow> json option \<Rightarrow> Database \<Rightarrow> DomainError + (SuggestionRow list \<times> bool)" where
  "list_suggestions L actor documentIdInput db =
     bindE (validateDocumentId L documentIdInput) (\<lambda>documentId.
     bindE (getDocument actor (Some (JStr documentId)) db) (\<lambda>_. Inr (listSuggestions documentId db)))"

section \<open>Requests\<close>

datatype Request =
    CreateDocument "json option" "json option"
  | GetDocument "json option"
  | ListDocuments ListInput
  | RenameDocument "json option" "json option" "json option"
  | DeleteDocument "json option"
  | SaveContent "json option" "json option" "json option"
  | Grant "json option" "json option" "json option" "json option"
  | Revoke "json option" "json option"
  | ListGrants "json option"
  | ListComments "json option"
  | CreateThread "json option" "json option"
  | AddMessage "json option" "json option" "json option"
  | SetStatus "json option" "json option" "json option"
  | ListSuggestions "json option"
  | CreateSuggestion "json option" "json option"
  | ResolveSuggestion "json option" "json option" "json option"

datatype Response =
    IdR string
  | DocumentR DocumentRow Role
  | DocumentsR "(DocumentRow \<times> Role) list" bool
  | VersionR int
  | DoneR
  | RoleR Role
  | RevokedR bool
  | GrantsR "GrantRow list"
  | CommentsR "(ThreadRow \<times> MessageRow list) list" bool bool
  | CommittedR string bool
  | ThreadStatusR thread_status
  | SuggestionsR "SuggestionRow list" bool
  | SuggestionStatusR suggestion_status

definition answer :: "('a \<Rightarrow> Response) \<Rightarrow> DomainError + 'a \<Rightarrow> DomainError + Response" where
  "answer f r = bindE r (\<lambda>a. Inr (f a))"

definition serve ::
  "Libraries \<Rightarrow> ActorContext \<Rightarrow> Request \<Rightarrow> Env \<Rightarrow> Database \<Rightarrow> Database \<Rightarrow> Database \<times> (DomainError + Response)" where
  "serve L actor req env dbA db =
     (case req of
        CreateDocument t c \<Rightarrow> apsnd (answer IdR) (createDocument actor t c env db)
      | GetDocument i \<Rightarrow> (db, answer (\<lambda>(d, r). DocumentR d r) (getDocument actor i dbA))
      | ListDocuments inp \<Rightarrow> (db, answer (\<lambda>(ds, more). DocumentsR ds more) (listDocuments L actor inp dbA))
      | RenameDocument i t v \<Rightarrow> apsnd (answer VersionR) (renameDocument actor i t v env dbA db)
      | DeleteDocument i \<Rightarrow> apsnd (answer (\<lambda>_. DoneR)) (deleteDocument actor i dbA db)
      | SaveContent i c v \<Rightarrow> apsnd (answer VersionR) (saveDocumentContent actor i c v env dbA db)
      | Grant i t e r \<Rightarrow> apsnd (answer RoleR) (grantPermission L actor i t e r env dbA db)
      | Revoke i t \<Rightarrow> apsnd (answer RevokedR) (revokePermission actor i t dbA db)
      | ListGrants i \<Rightarrow> (db, answer GrantsR (listGrants actor i dbA))
      | ListComments i \<Rightarrow> (db, answer (\<lambda>(ts, a, b). CommentsR ts a b) (list_comments L actor i dbA))
      | CreateThread i inp \<Rightarrow> apsnd (answer (\<lambda>(x, dup). CommittedR x dup)) (createThread L actor i inp env dbA db)
      | AddMessage i t inp \<Rightarrow> apsnd (answer (\<lambda>(x, dup). CommittedR x dup)) (addMessage L actor i t inp env dbA db)
      | SetStatus i t s \<Rightarrow> apsnd (answer ThreadStatusR) (setThreadStatus L actor i t s env dbA db)
      | ListSuggestions i \<Rightarrow> (db, answer (\<lambda>(ss, more). SuggestionsR ss more) (list_suggestions L actor i dbA))
      | CreateSuggestion i inp \<Rightarrow>
          apsnd (answer (\<lambda>(x, dup). CommittedR x dup)) (create_suggestion L actor i inp env dbA db)
      | ResolveSuggestion i s inp \<Rightarrow>
          apsnd (answer SuggestionStatusR) (resolve_suggestion L actor i s inp env dbA db))"

end
