(* ===== verification/Server_Safety.thy ===== *)
theory Server_Safety
  imports Server_Comments
begin

text \<open>
  What a request can do to the database, as an inductive relation with one rule per kind of write, and that
  \<^const>\<open>serve\<close> never does anything else (\<open>serve_changes\<close>). The guarantees of the service layer follow by
  cases on the relation.
\<close>

section \<open>The writes\<close>

lemma lower_char_idem [simp]: "lower_char (lower_char c) = lower_char c"
proof -
  have lt: "(of_char c :: nat) < 256" by simp
  show ?thesis by (auto simp: lower_char_def Let_def of_char_of mod_less)
qed

lemma to_lower_idem [simp]: "to_lower (to_lower s) = to_lower s"
  by (simp add: to_lower_def)

inductive change :: "ActorContext \<Rightarrow> Env \<Rightarrow> Database \<Rightarrow> Database \<Rightarrow> Database \<Rightarrow> bool"
  for actor :: ActorContext and env :: Env and dbA :: Database where
  same: "change actor env dbA db db"
| created: "insertDocument (env_id env) (env_now env) t (ac_userId actor) org c db = Some (db1, row)
    \<Longrightarrow> change actor env dbA db (audit meta actor DocumentCreate ''document'' (d_id row) org db1)"
| renamed: "requireAccess actor i Rename dbA = Inr (doc, role) \<Longrightarrow> renameConditional i v t (env_now env) db = Some (db1, Some d)
    \<Longrightarrow> change actor env dbA db (audit meta actor DocumentRename ''document'' i (d_organizationId d) db1)"
| saved: "requireAccess actor i EditContent dbA = Inr (doc, role)
    \<Longrightarrow> updateContentConditional i v c (env_now env) db = Some (db1, Some d) \<Longrightarrow> change actor env dbA db db1"
| deleted: "requireAccess actor i Delete dbA = Inr (doc, role)
    \<Longrightarrow> change actor env dbA db (fst (deleteById i (audit meta actor DocumentDelete ''document'' i (d_organizationId doc) db)))"
| granted: "requireOwnedDocument actor i dbA = Inr doc \<Longrightarrow> r \<noteq> OWNER \<Longrightarrow> uuid u \<noteq> d_ownerUserId doc
    \<Longrightarrow> upsertGrant \<lparr>g_documentId = d_id doc, g_userId = uuid u, g_role = r, g_grantedByUserId = Some (ac_userId actor)\<rparr> db
        = Some (db1, row) \<Longrightarrow> a = PermissionUpdated \<or> a = PermissionGranted
    \<Longrightarrow> change actor env dbA db (audit meta actor a ''document_permission'' (d_id doc) (d_organizationId doc) db1)"
| revoked: "requireOwnedDocument actor i dbA = Inr doc \<Longrightarrow> deleteGrant (d_id doc) u db = (db1, True)
    \<Longrightarrow> change actor env dbA db (audit meta actor PermissionRevoked ''document_permission'' (d_id doc) (d_organizationId doc) db1)"
| commented: "requireAccess actor i CommentOn dbA = Inr (doc, role)
    \<Longrightarrow> insertThread (thread_row actor i inp (env_now env)) db = (db1, True)
    \<Longrightarrow> insertMessage (message_row actor (ti_messageId inp) (ti_threadId inp) (ti_body inp) (env_now env)) db1 = (db2, True)
    \<Longrightarrow> change actor env dbA db (audit meta actor CommentCreated ''document_comment'' (ti_threadId inp) (d_organizationId doc) db2)"
| replied: "requireAccess actor i CommentOn dbA = Inr (doc, role) \<Longrightarrow> findThread i t db = Some th \<Longrightarrow> t_status th = Open
    \<Longrightarrow> insertMessage (message_row actor m (t_id th) b (env_now env)) db = (db1, True)
    \<Longrightarrow> change actor env dbA db (audit meta actor CommentReplied ''document_comment'' (t_id th) (d_organizationId doc)
          (update_threads (\<lambda>x. t_id x = t_id th) (\<lambda>x. x\<lparr>t_updatedAt := (env_now env)\<rparr>) db1))"
| status_set: "requireAccess actor i EditContent dbA = Inr (doc, role) \<Longrightarrow> findThread i t db = Some th
    \<Longrightarrow> change actor env dbA db (audit meta actor CommentResolved ''document_comment'' (t_id th) (d_organizationId doc)
          (update_threads (\<lambda>x. t_documentId x = uuid i \<and> t_id x = t_id th)
             (\<lambda>x. x\<lparr>t_status := st, t_updatedAt := (env_now env)\<rparr>) db))"
| suggested: "requireAccess actor i CommentOn dbA = Inr (doc, role)
    \<Longrightarrow> insertSuggestion (suggestion_row actor i sinp (env_now env)) db = (db1, True)
    \<Longrightarrow> change actor env dbA db (audit meta actor SuggestionCreated ''document_suggestion'' (si_suggestionId sinp) (d_organizationId doc) db1)"
| resolved: "requireAccess actor i Read dbA = Inr (doc, role) \<Longrightarrow> findSuggestionById s db = Some row
    \<Longrightarrow> s_documentId row = i \<Longrightarrow> s_status row = Proposed \<Longrightarrow> resolution_check actor (role = OWNER \<or> role = EDITOR) row action = Inr None
    \<Longrightarrow> change actor env dbA db (audit meta actor SuggestionResolved ''document_suggestion'' (s_id row) (d_organizationId doc)
          (db\<lparr>db_suggestions := fst (update_rows (\<lambda>x. s_id x = s_id row)
             (\<lambda>x. x\<lparr>s_status := next_status action, s_resolvedAt := Some (env_now env),
                s_resolvedByUserId := Some (ac_userId actor), s_updatedAt := (env_now env)\<rparr>) (db_suggestions db))\<rparr>))"

text \<open>The document a request is about, and the capability the service asks for first.\<close>

fun target :: "Request \<Rightarrow> (json option \<times> Capability) option" where
  "target (RenameDocument i t v) = Some (i, Rename)"
| "target (DeleteDocument i) = Some (i, Delete)"
| "target (SaveContent i c v) = Some (i, EditContent)"
| "target (Grant i t e r) = Some (i, ManagePermissions)"
| "target (Revoke i t) = Some (i, ManagePermissions)"
| "target (ListGrants i) = Some (i, ManagePermissions)"
| "target (CreateThread i x) = Some (i, CommentOn)"
| "target (AddMessage i t x) = Some (i, CommentOn)"
| "target (SetStatus i t s) = Some (i, EditContent)"
| "target (CreateSuggestion i x) = Some (i, CommentOn)"
| "target (ResolveSuggestion i s x) = Some (i, Read)"
| "target (GetDocument i) = Some (i, Read)"
| "target (ListComments i) = Some (i, Read)"
| "target (ListSuggestions i) = Some (i, Read)"
| "target (CreateDocument t c) = None"
| "target (ListDocuments x) = None"

definition role_on :: "ActorContext \<Rightarrow> string \<Rightarrow> Database \<Rightarrow> Role option" where
  "role_on actor i db =
     (case findById i db of
        None \<Rightarrow> None
      | Some d \<Rightarrow> resolveEffectiveRole actor d (map_option g_role (findGrant i (ac_userId actor) db)))"

lemma requireAccess_Inr:
  "requireAccess actor i c db = Inr (d, r)
   \<longleftrightarrow> findById i db = Some d \<and> role_on actor i db = Some r \<and> r \<in> set (CAPABILITIES c)"
  by (auto simp: requireAccess_def role_on_def roleHasCapability_def split: option.splits if_splits)

lemma requireAccess_Inl:
  "requireAccess actor i c db = Inl e \<Longrightarrow> e = (NotFound, ''Document not found'')"
  by (auto simp: requireAccess_def split: option.splits if_splits)

lemma requireOwnedDocument_Inr:
  "requireOwnedDocument actor i db = Inr d \<longleftrightarrow> requireAccess actor i ManagePermissions db = Inr (d, OWNER)"
  by (auto simp: requireOwnedDocument_def assertCapability_def roleHasCapability_def CAPABILITIES_def
      requireAccess_def resolveEffectiveRole_def split: option.splits if_splits)

lemma requireOwnedDocument_Inl:
  "requireOwnedDocument actor i db = Inl e \<Longrightarrow> e = (NotFound, ''Document not found'')"
  by (auto simp: requireOwnedDocument_def assertCapability_def split: option.splits if_splits)

lemma parseDocumentId_Inr: "parseDocumentId i = Inr s \<longleftrightarrow> i = Some (JStr s) \<and> uuid_regex s"
  by (auto simp: parseDocumentId_def split: option.splits json.splits if_splits)

lemma parse_uuid_Some: "parse_uuid L i = Some s \<longleftrightarrow> i = Some (JStr s) \<and> lib_uuid L s"
  by (auto simp: parse_uuid_def split: option.splits json.splits if_splits)

lemma validateDocumentId_Inr: "validateDocumentId L i = Inr s \<longleftrightarrow> i = Some (JStr s) \<and> lib_uuid L s"
  by (auto simp: validateDocumentId_def parse_uuid_def split: option.splits json.splits if_splits)

lemma getDocument_Inr:
  "getDocument actor i db = Inr (d, r) \<longleftrightarrow>
     (\<exists>s. i = Some (JStr s) \<and> uuid_regex s \<and> requireAccess actor s Read db = Inr (d, r))"
  by (auto simp: getDocument_def bindE_Inr_iff parseDocumentId_Inr)

lemma access_by_role:
  "requireAccess actor i Read db = Inr (d, r) \<Longrightarrow> r \<in> set (CAPABILITIES c) \<Longrightarrow> requireAccess actor i c db = Inr (d, r)"
  by (simp add: requireAccess_Inr)

lemma comment_role: "requireComment r = Inr u \<Longrightarrow> r \<in> set (CAPABILITIES CommentOn)"
  by (auto simp: requireComment_def CAPABILITIES_def)

lemma propose_role: "requirePropose r = Inr u \<Longrightarrow> r \<in> set (CAPABILITIES CommentOn)"
  by (auto simp: requirePropose_def CAPABILITIES_def)

lemma no_grant_to_delete: "deleteGrant i u db = (db1, False) \<Longrightarrow> db1 = db"
  by (auto simp: deleteGrant_def findGrant_def find_None_iff filter_id_conv)

lemma not_updated: "update_rows P f rows = (rows', None) \<Longrightarrow> rows' = rows"
  by (auto simp: update_rows_def find_None_iff intro!: map_idI)

lemma no_content_update:
  "updateContentConditional i v c now db = Some (db1, None) \<Longrightarrow> db1 = db"
  by (auto simp: updateContentConditional_def split: prod.splits if_splits dest!: not_updated)

section \<open>What each service does\<close>

lemma create_effect:
  assumes "createDocument actor t c env db = (db', r)"
  shows "(db' = db \<and> (\<exists>e. r = Inl e)) \<or>
    (\<exists>meta t' c' db1 row. insertDocument (env_id env) (env_now env) t' (ac_userId actor) (organization_of actor) c' db = Some (db1, row)
       \<and> db' = audit meta actor DocumentCreate ''document'' (d_id row) (organization_of actor) db1 \<and> r = Inr (d_id row))"
  using assms unfolding createDocument_def by (auto split: sum.splits prod.splits option.splits; blast)

lemma rename_effect:
  assumes "renameDocument actor i t v env dbA db = (db', r)"
  shows "(db' = db \<and> (\<exists>e. r = Inl e)) \<or>
    (\<exists>meta s doc role t' v' db1 d. i = Some (JStr s) \<and> requireAccess actor s Rename dbA = Inr (doc, role)
       \<and> parse_version v = Some v' \<and> renameConditional s v' t' (env_now env) db = Some (db1, Some d)
       \<and> db' = audit meta actor DocumentRename ''document'' s (d_organizationId d) db1 \<and> r = Inr (d_metadataVersion d))"
  using assms unfolding renameDocument_def
  by (auto split: sum.splits prod.splits option.splits simp: bindE_Inr_iff parseDocumentId_Inr; blast)

lemma delete_effect:
  assumes "deleteDocument actor i dbA db = (db', r)"
  shows "(db' = db \<and> (\<exists>e. r = Inl e)) \<or>
    (\<exists>meta s doc role. i = Some (JStr s) \<and> requireAccess actor s Delete dbA = Inr (doc, role)
       \<and> db' = fst (deleteById s (audit meta actor DocumentDelete ''document'' s (d_organizationId doc) db)) \<and> r = Inr ())"
  using assms unfolding deleteDocument_def
  by (auto split: sum.splits prod.splits option.splits simp: bindE_Inr_iff parseDocumentId_Inr)

lemma save_effect:
  assumes "saveDocumentContent actor i c v env dbA db = (db', r)"
  shows "(db' = db \<and> (\<exists>e. r = Inl e)) \<or>
    (\<exists>s doc role v' c' db1 d. i = Some (JStr s) \<and> requireAccess actor s EditContent dbA = Inr (doc, role)
       \<and> parse_version v = Some v' \<and> validate_content c = Inr c'
       \<and> updateContentConditional s v' c' (env_now env) db = Some (db1, Some d)
       \<and> db' = db1 \<and> r = Inr (d_contentVersion d))"
  using assms unfolding saveDocumentContent_def
  by (auto split: sum.splits prod.splits option.splits
      simp: bindE_Inr_iff parseDocumentId_Inr dest!: no_content_update)

text \<open>Only a grant by e-mail touches the users, and only by adding one.\<close>

definition new_principal :: "Database \<Rightarrow> Database \<Rightarrow> bool" where
  "new_principal db db1 \<longleftrightarrow> db1 = db \<or> (\<exists>u. db1 = db\<lparr>db_users := db_users db @ [u]\<rparr>)"

lemma resolve_target_principal: "resolve_target L t e env db = (db1, r) \<Longrightarrow> new_principal db db1"
  by (auto simp: resolve_target_def new_principal_def findOrCreateByClerkUserId_def Let_def
      split: option.splits if_splits sum.splits prod.splits)

lemma parse_role_grantable: "parse_role x = Inr r \<Longrightarrow> r \<noteq> OWNER"
  by (auto simp: parse_role_def split: if_splits)

lemma findUser_id: "findUser u db = Some x \<Longrightarrow> u_id x = uuid u"
  by (auto simp: findUser_def find_Some_iff)

lemma grant_effect:
  assumes "grantPermission L actor i t e ro env dbA db = (db', r)"
  shows "(db' = db \<and> (\<exists>x. r = Inl x)) \<or>
    (\<exists>s doc db1. i = Some (JStr s) \<and> requireOwnedDocument actor s dbA = Inr doc \<and> new_principal db db1 \<and>
       ((db' = db1 \<and> (\<exists>x. r = Inl x)) \<or>
        (\<exists>meta u ro' row db2 a. ro' \<noteq> OWNER \<and> uuid u \<noteq> d_ownerUserId doc
           \<and> upsertGrant \<lparr>g_documentId = d_id doc, g_userId = uuid u, g_role = ro',
                 g_grantedByUserId = Some (ac_userId actor)\<rparr> db1 = Some (db2, row)
           \<and> (a = PermissionUpdated \<or> a = PermissionGranted)
           \<and> db' = audit meta actor a ''document_permission'' (d_id doc) (d_organizationId doc) db2
           \<and> r = Inr (g_role row))))"
proof (cases "bindE (parseDocumentId i) (\<lambda>i. bindE (requireOwnedDocument actor i dbA) (\<lambda>document.
           bindE (parse_role ro) (\<lambda>r. Inr (document, r))))")
  case (Inl x)
  then show ?thesis using assms by (auto simp: grantPermission_def)
next
  case (Inr x)
  then obtain s doc ro' where x: "x = (doc, ro')" "i = Some (JStr s)" "requireOwnedDocument actor s dbA = Inr doc"
    "parse_role ro = Inr ro'"
    by (auto simp: bindE_Inr_iff parseDocumentId_Inr)
  obtain db1 rt where rt: "resolve_target L t e env db = (db1, rt)" by fastforce
  have np: "new_principal db db1" using resolve_target_principal [OF rt] .
  have no: "ro' \<noteq> OWNER" using x parse_role_grantable by simp
  have "(db' = db1 \<and> (\<exists>x. r = Inl x)) \<or>
        (\<exists>meta u row db2 a. uuid u \<noteq> d_ownerUserId doc
           \<and> upsertGrant \<lparr>g_documentId = d_id doc, g_userId = uuid u, g_role = ro',
                 g_grantedByUserId = Some (ac_userId actor)\<rparr> db1 = Some (db2, row)
           \<and> (a = PermissionUpdated \<or> a = PermissionGranted)
           \<and> db' = audit meta actor a ''document_permission'' (d_id doc) (d_organizationId doc) db2
           \<and> r = Inr (g_role row))"
    using assms Inr rt unfolding grantPermission_def x(1)
    by (auto split: sum.splits option.splits prod.splits if_splits simp: Let_def dest!: findUser_id; blast)
  then show ?thesis using x np no by blast
qed

lemma revoke_effect:
  assumes "revokePermission actor i t dbA db = (db', r)"
  shows "(db' = db \<and> ((\<exists>e. r = Inl e) \<or> r = Inr False)) \<or>
    (\<exists>meta s doc u db1. i = Some (JStr s) \<and> requireOwnedDocument actor s dbA = Inr doc
       \<and> deleteGrant (d_id doc) u db = (db1, True)
       \<and> db' = audit meta actor PermissionRevoked ''document_permission'' (d_id doc) (d_organizationId doc) db1
       \<and> r = Inr True)"
proof (cases r)
  case (Inr b)
  then show ?thesis using assms unfolding revokePermission_def
    by (cases b) (auto split: sum.splits prod.splits if_splits
        simp: bindE_Inr_iff parseDocumentId_Inr dest!: no_grant_to_delete)
qed (use assms in \<open>auto simp: revokePermission_def split: sum.splits prod.splits\<close>)


lemma thread_effect:
  assumes "createThread L actor i x env dbA db = (db', r)"
  shows "(db' = db \<and> (\<forall>t. r \<noteq> Inr (t, False))) \<or>
    (\<exists>meta s inp doc role db1 db2. i = Some (JStr s) \<and> lib_uuid L s \<and> uuid_regex s \<and> parse_thread L x = Some inp
       \<and> requireAccess actor s CommentOn dbA = Inr (doc, role)
       \<and> insertThread (thread_row actor s inp (env_now env)) db = (db1, True)
       \<and> insertMessage (message_row actor (ti_messageId inp) (ti_threadId inp) (ti_body inp) (env_now env)) db1 = (db2, True)
       \<and> db' = audit meta actor CommentCreated ''document_comment'' (ti_threadId inp) (d_organizationId doc) db2
       \<and> r = Inr (ti_threadId inp, False))"
  using assms unfolding createThread_def
  by (auto split: sum.splits prod.splits option.splits bool.splits if_splits
      simp: bindE_Inr_iff validateDocumentId_Inr getDocument_Inr requireAccess_Inr dest!: comment_role)

lemma reply_effect:
  assumes "addMessage L actor i ti x env dbA db = (db', r)"
  shows "(db' = db \<and> (\<forall>t. r \<noteq> Inr (t, False))) \<or>
    (\<exists>meta s t m b doc role th db1. i = Some (JStr s) \<and> parse_reply L x = Some (m, b)
       \<and> requireAccess actor s CommentOn dbA = Inr (doc, role)
       \<and> findThread s t db = Some th \<and> t_status th = Open
       \<and> insertMessage (message_row actor m (t_id th) b (env_now env)) db = (db1, True)
       \<and> db' = audit meta actor CommentReplied ''document_comment'' (t_id th) (d_organizationId doc)
              (update_threads (\<lambda>y. t_id y = t_id th) (\<lambda>y. y\<lparr>t_updatedAt := env_now env\<rparr>) db1)
       \<and> r = Inr (m, False))"
proof -
  have st: "st \<noteq> Resolved \<longleftrightarrow> st = Open" for st by (cases st) auto
  show ?thesis using assms unfolding addMessage_def
    by (auto split: sum.splits prod.splits option.splits bool.splits if_splits
        simp: bindE_Inr_iff validateDocumentId_Inr getDocument_Inr requireAccess_Inr st dest!: comment_role; blast)
qed

lemma editor_role: "role = OWNER \<or> role = EDITOR \<Longrightarrow> role \<in> set (CAPABILITIES EditContent)"
  by (auto simp: CAPABILITIES_def)

lemma status_effect:
  assumes "setThreadStatus L actor i ti x env dbA db = (db', r)"
  shows "db' = db \<or>
    (\<exists>meta s t st doc role th. i = Some (JStr s) \<and> requireAccess actor s EditContent dbA = Inr (doc, role)
       \<and> findThread s t db = Some th \<and> r = Inr st
       \<and> db' = audit meta actor CommentResolved ''document_comment'' (t_id th) (d_organizationId doc)
          (update_threads (\<lambda>x. t_documentId x = uuid s \<and> t_id x = t_id th)
             (\<lambda>x. x\<lparr>t_status := st, t_updatedAt := env_now env\<rparr>) db))"
  using assms unfolding setThreadStatus_def
  by (auto split: sum.splits prod.splits option.splits bool.splits if_splits
        simp: bindE_Inr_iff validateDocumentId_Inr getDocument_Inr requireAccess_Inr dest!: editor_role; blast)

lemma suggest_effect:
  assumes "create_suggestion L actor i x env dbA db = (db', r)"
  shows "(db' = db \<and> (\<forall>t. r \<noteq> Inr (t, False))) \<or>
    (\<exists>meta s inp doc role db1. i = Some (JStr s) \<and> lib_uuid L s \<and> uuid_regex s \<and> parse_suggestion L x = Some inp
       \<and> requireAccess actor s CommentOn dbA = Inr (doc, role)
       \<and> insertSuggestion (suggestion_row actor s inp (env_now env)) db = (db1, True)
       \<and> db' = audit meta actor SuggestionCreated ''document_suggestion'' (si_suggestionId inp) (d_organizationId doc) db1
       \<and> r = Inr (si_suggestionId inp, False))"
  using assms unfolding create_suggestion_def
  by (auto split: sum.splits prod.splits option.splits bool.splits if_splits
      simp: bindE_Inr_iff validateDocumentId_Inr getDocument_Inr requireAccess_Inr dest!: propose_role)

lemma resolution_check_goes_on: "resolution_check actor e row a = Inr None \<Longrightarrow> s_status row = Proposed"
  by (auto simp: resolution_check_def split: if_splits)

lemma resolve_effect:
  assumes "resolve_suggestion L actor i si x env dbA db = (db', r)"
  shows "db' = db \<or>
    (\<exists>meta s sid doc role row action. i = Some (JStr s) \<and> requireAccess actor s Read dbA = Inr (doc, role)
       \<and> si = Some (JStr sid) \<and> findSuggestionById sid db = Some row \<and> s_documentId row = s \<and> parse_resolution x = Some action
       \<and> resolution_check actor (role = OWNER \<or> role = EDITOR) row action = Inr None
       \<and> r = Inr (next_status action)
       \<and> db' = audit meta actor SuggestionResolved ''document_suggestion'' (s_id row) (d_organizationId doc)
          (db\<lparr>db_suggestions := fst (update_rows (\<lambda>y. s_id y = s_id row)
             (\<lambda>y. y\<lparr>s_status := next_status action, s_resolvedAt := Some (env_now env),
                s_resolvedByUserId := Some (ac_userId actor), s_updatedAt := env_now env\<rparr>) (db_suggestions db))\<rparr>))"
  using assms unfolding resolve_suggestion_def
  by (auto split: sum.splits prod.splits option.splits bool.splits if_splits
        simp: bindE_Inr_iff validateDocumentId_Inr getDocument_Inr parse_uuid_Some; blast)

text \<open>A service answer under \<^const>\<open>answer\<close>.\<close>

lemma apsnd_answer: "apsnd (answer f) p = (db', r) \<longleftrightarrow> (\<exists>r0. p = (db', r0) \<and> r = answer f r0)"
  by (cases p) auto

lemma serve_changes:
  assumes "serve L actor req env dbA db = (db', r)"
  shows "\<exists>db1. new_principal db db1 \<and> change actor env dbA db1 db'"
proof -
  have np: "new_principal db db" by (simp add: new_principal_def)
  show ?thesis
  proof (cases req)
    case CreateDocument
    then show ?thesis using assms np
      by (auto simp: serve_def apsnd_answer dest!: create_effect intro: change.intros)
  next
    case RenameDocument
    then show ?thesis using assms np
      by (auto simp: serve_def apsnd_answer dest!: rename_effect intro: change.intros)
  next
    case DeleteDocument
    then show ?thesis using assms np
      by (auto simp: serve_def apsnd_answer dest!: delete_effect intro: change.intros)
  next
    case SaveContent
    then show ?thesis using assms np
      by (auto simp: serve_def apsnd_answer dest!: save_effect intro: change.intros)
  next
    case (Grant i t e ro)
    then obtain r0 where "grantPermission L actor i t e ro env dbA db = (db', r0)"
      using assms by (auto simp: serve_def apsnd_answer)
    from grant_effect [OF this] np show ?thesis by (blast intro: change.same change.granted)
  next
    case Revoke
    then show ?thesis using assms np
      by (auto simp: serve_def apsnd_answer dest!: revoke_effect intro: change.intros)
  next
    case CreateThread
    then show ?thesis using assms np
      by (auto simp: serve_def apsnd_answer dest!: thread_effect intro: change.intros)
  next
    case AddMessage
    then show ?thesis using assms np
      by (auto simp: serve_def apsnd_answer dest!: reply_effect intro: change.intros)
  next
    case SetStatus
    then show ?thesis using assms np
      by (auto simp: serve_def apsnd_answer dest!: status_effect intro: change.intros)
  next
    case CreateSuggestion
    then show ?thesis using assms np
      by (auto simp: serve_def apsnd_answer dest!: suggest_effect intro: change.intros)
  next
    case ResolveSuggestion
    then show ?thesis using assms np
      by (auto simp: serve_def apsnd_answer dest!: resolve_effect intro: change.intros resolution_check_goes_on)
  qed (use assms np in \<open>auto simp: serve_def intro: change.intros\<close>)
qed


section \<open>No write without the capability\<close>

lemma effects_need_role:
  assumes "serve L actor req env dbA db = (db', r)" and "target req = Some (i, c)" and "db' \<noteq> db"
  shows "\<exists>s doc role. i = Some (JStr s) \<and> requireAccess actor s c dbA = Inr (doc, role)"
proof (cases req)
  case (Grant i t e ro)
  then obtain r0 where "grantPermission L actor i t e ro env dbA db = (db', r0)"
    using assms by (auto simp: serve_def apsnd_answer)
  from grant_effect [OF this] assms(2,3) Grant show ?thesis by (auto simp: requireOwnedDocument_Inr)
qed (use assms in \<open>auto simp: serve_def apsnd_answer requireOwnedDocument_Inr
  dest!: rename_effect delete_effect save_effect revoke_effect thread_effect reply_effect status_effect
    suggest_effect resolve_effect\<close>)

lemma reads_write_nothing:
  assumes "serve L actor req env dbA db = (db', r)" and "target req = None" and "db' \<noteq> db"
  shows "\<exists>t c. req = CreateDocument t c"
  using assms by (cases req) (auto simp: serve_def)

text \<open>
  The policy, written out: the role an actor has on a document, and the roles whose writes a request may carry out. A
  suggestion is accepted by an owner or editor; rejected or discharged by them or by its author.
\<close>

definition entitled :: "ActorContext \<Rightarrow> string \<Rightarrow> Role \<Rightarrow> Database \<Rightarrow> bool" where
  "entitled actor s role db \<longleftrightarrow>
     (\<exists>d. findById s db = Some d
        \<and> (if d_ownerUserId d = ac_userId actor then role = OWNER
           else case findGrant s (ac_userId actor) db of
             Some g \<Rightarrow> role = g_role g
           | None \<Rightarrow> role = EDITOR \<and> (\<exists>org. ac_organization actor = Some org \<and> d_organizationId d = Some (ao_id org))))"

definition may_write :: "ActorContext \<Rightarrow> Request \<Rightarrow> string \<Rightarrow> Role \<Rightarrow> Database \<Rightarrow> bool" where
  "may_write actor req s role db \<longleftrightarrow>
     (case req of
        RenameDocument i t v \<Rightarrow> i = Some (JStr s) \<and> role \<in> {OWNER, EDITOR}
      | DeleteDocument i \<Rightarrow> i = Some (JStr s) \<and> role = OWNER
      | SaveContent i c v \<Rightarrow> i = Some (JStr s) \<and> role \<in> {OWNER, EDITOR}
      | Grant i t e r \<Rightarrow> i = Some (JStr s) \<and> role = OWNER
      | Revoke i t \<Rightarrow> i = Some (JStr s) \<and> role = OWNER
      | CreateThread i x \<Rightarrow> i = Some (JStr s) \<and> role \<in> {OWNER, EDITOR, COMMENTER}
      | AddMessage i t x \<Rightarrow> i = Some (JStr s) \<and> role \<in> {OWNER, EDITOR, COMMENTER}
      | SetStatus i t st \<Rightarrow> i = Some (JStr s) \<and> role \<in> {OWNER, EDITOR}
      | CreateSuggestion i x \<Rightarrow> i = Some (JStr s) \<and> role \<in> {OWNER, EDITOR, COMMENTER}
      | ResolveSuggestion i si x \<Rightarrow> i = Some (JStr s)
          \<and> (\<exists>sid row. si = Some (JStr sid) \<and> findSuggestionById sid db = Some row \<and> s_documentId row = s
               \<and> (role \<in> {OWNER, EDITOR}
                  \<or> field ''action'' x \<noteq> Some (JStr ''accept'') \<and> s_createdByUserId row = ac_userId actor))
      | _ \<Rightarrow> False)"

lemma role_entitled: "role_on actor s db = Some role \<Longrightarrow> entitled actor s role db"
  by (auto simp: role_on_def entitled_def resolveEffectiveRole_def split: option.splits if_splits)

lemma resolution_allowed:
  assumes "resolution_check actor (role = OWNER \<or> role = EDITOR) row action = Inr None" and "parse_resolution x = Some action"
  shows "role \<in> {OWNER, EDITOR} \<or> field ''action'' x \<noteq> Some (JStr ''accept'') \<and> s_createdByUserId row = ac_userId actor"
  using assms by (cases action) (auto simp: resolution_check_def parse_resolution_def Let_def split: if_splits)

lemma capability_may_write:
  assumes "target req = Some (Some (JStr s), c)" and "role \<in> set (CAPABILITIES c)" and "serve L actor req env dbA db = (db', r)"
    and "db' \<noteq> db"
  shows "may_write actor req s role db \<or> (\<exists>i si x. req = ResolveSuggestion i si x)"
  using assms by (cases req) (auto simp: may_write_def CAPABILITIES_def serve_def)

text \<open>
  C6: A request that changes the database is a creation, or the actor has on the document it is about (as owner, by the
  actor's grant, or through the organization, in this order) a role that may carry out that write: only owners delete
  and manage access, owners and editors rename, save and set the status of threads, commenters also comment and suggest;
  a suggestion of that document is accepted by owners and editors only, and rejected or discharged by them or its author.
\<close>

theorem only_with_capability:
  assumes "serve L actor req env dbA db = (db', r)" and "db' \<noteq> db"
  shows "(\<exists>t c. req = CreateDocument t c) \<or> (\<exists>s role. entitled actor s role dbA \<and> may_write actor req s role db)"
proof (cases "target req")
  case None
  then show ?thesis using reads_write_nothing [OF assms(1)] assms(2) by blast
next
  case (Some p)
  then obtain i c where t: "target req = Some (i, c)" by (cases p) auto
  then obtain s doc role where a: "i = Some (JStr s)" "requireAccess actor s c dbA = Inr (doc, role)"
    using effects_need_role [OF assms(1) _ assms(2)] by blast
  show ?thesis
  proof (cases "\<exists>i si x. req = ResolveSuggestion i si x")
    case True
    then obtain i si x where req: "req = ResolveSuggestion i si x" by blast
    then obtain r0 where "resolve_suggestion L actor i si x env dbA db = (db', r0)"
      using assms(1) by (auto simp: serve_def apsnd_answer)
    from resolve_effect [OF this] assms(2) obtain s sid doc role row action where
      e: "i = Some (JStr s)" "requireAccess actor s Read dbA = Inr (doc, role)" "si = Some (JStr sid)"
        "findSuggestionById sid db = Some row" "s_documentId row = s" "parse_resolution x = Some action"
        "resolution_check actor (role = OWNER \<or> role = EDITOR) row action = Inr None" by blast
    then have "may_write actor req s role db" using resolution_allowed [OF e(7,6)] by (auto simp: may_write_def req)
    then show ?thesis using e(2) role_entitled by (auto simp: requireAccess_Inr)
  next
    case False
    then have "may_write actor req s role db"
      using capability_may_write [OF _ _ assms] t a by (auto simp: requireAccess_Inr)
    then show ?thesis using a(2) role_entitled by (auto simp: requireAccess_Inr)
  qed
qed


section \<open>What survives a write\<close>

lemma find_update:
  assumes "\<And>r. key (f r) = key r"
  shows "find (\<lambda>r. key r = k) (map (\<lambda>r. if P r then f r else r) rows)
    = map_option (\<lambda>r. if P r then f r else r) (find (\<lambda>r. key r = k) rows)"
  using assms by (induction rows) auto

lemma map_key_update: "(\<And>r. key (f r) = key r) \<Longrightarrow> map key (map (\<lambda>r. if P r then f r else r) rows) = map key rows"
  by auto

lemma find_append: "find P (xs @ ys) = (case find P xs of None \<Rightarrow> find P ys | Some x \<Rightarrow> Some x)"
  by (induction xs) auto

lemma find_filter_key:
  "find (\<lambda>r. key r = k) (filter (\<lambda>r. key r \<noteq> j) rows) = (if k \<noteq> j then find (\<lambda>r. key r = k) rows else None)"
  by (induction rows) auto

lemma find_sound: "find P rows = Some r \<Longrightarrow> r \<in> set rows \<and> P r"
  by (induction rows) (auto split: if_splits)

lemma find_filter_kept: "find P rows = Some r \<Longrightarrow> Q r \<Longrightarrow> find P (filter Q rows) = Some r"
  by (induction rows) (auto split: if_splits)

text \<open>Frame facts of the repositories: what an operation leaves alone.\<close>

lemma audit_frame [simp]:
  "db_documents (audit meta actor a t i o' db) = db_documents db" "db_users (audit meta actor a t i o' db) = db_users db"
  "db_grants (audit meta actor a t i o' db) = db_grants db" "db_threads (audit meta actor a t i o' db) = db_threads db"
  "db_messages (audit meta actor a t i o' db) = db_messages db" "db_suggestions (audit meta actor a t i o' db) = db_suggestions db"
  by (simp_all add: audit_def)

lemma update_threads_frame [simp]:
  "db_documents (update_threads P f db) = db_documents db" "db_users (update_threads P f db) = db_users db"
  "db_grants (update_threads P f db) = db_grants db" "db_messages (update_threads P f db) = db_messages db"
  "db_suggestions (update_threads P f db) = db_suggestions db" "db_audit (update_threads P f db) = db_audit db"
  "db_threads (update_threads P f db) = map (\<lambda>t. if P t then f t else t) (db_threads db)"
  by (simp_all add: update_threads_def update_rows_def)

lemma insertDocument_shape:
  "insertDocument i now t ow og c db = Some (db1, row) \<Longrightarrow>
     db1 = db\<lparr>db_documents := db_documents db @ [row]\<rparr> \<and> d_id row = i \<and> i \<notin> set (map d_id (db_documents db))
     \<and> d_ownerUserId row = ow"
  by (auto simp: insertDocument_def Let_def split: if_splits)

lemma updateContent_shape:
  "updateContentConditional i v c now db = Some (db1, d) \<Longrightarrow>
     db1 = db\<lparr>db_documents := map (\<lambda>d. if d_id d = uuid i \<and> d_contentVersion d = v
       then d\<lparr>d_content := Some c, d_contentVersion := d_contentVersion d + 1, d_updatedAt := now\<rparr> else d) (db_documents db)\<rparr>"
  by (auto simp: updateContentConditional_def update_rows_def split: if_splits)

lemma rename_shape:
  "renameConditional i v t now db = Some (db1, d) \<Longrightarrow>
     db1 = db\<lparr>db_documents := map (\<lambda>d. if d_id d = uuid i \<and> d_metadataVersion d = v
       then d\<lparr>d_title := t, d_metadataVersion := d_metadataVersion d + 1, d_updatedAt := now\<rparr> else d) (db_documents db)\<rparr>"
  by (auto simp: renameConditional_def update_rows_def split: if_splits)

lemma upsertGrant_shape:
  "upsertGrant g db = Some (db1, row) \<Longrightarrow> \<exists>gs. db1 = db\<lparr>db_grants := gs\<rparr>"
  by (auto simp: upsertGrant_def split: if_splits)

lemma deleteGrant_shape:
  "deleteGrant i u db = (db1, b) \<Longrightarrow> \<exists>gs. db1 = db\<lparr>db_grants := gs\<rparr>"
  by (auto simp: deleteGrant_def)

lemma insertThread_shape:
  "insertThread t db = (db1, True) \<Longrightarrow> db1 = db\<lparr>db_threads := db_threads db @ [t]\<rparr> \<and> findThreadById (t_id t) db = None"
  by (auto simp: insertThread_def split: if_splits)

lemma insertMessage_shape:
  "insertMessage m db = (db1, True) \<Longrightarrow> db1 = db\<lparr>db_messages := db_messages db @ [m]\<rparr> \<and> findMessage (m_id m) db = None"
  by (auto simp: insertMessage_def split: if_splits)

lemma insertSuggestion_shape:
  "insertSuggestion s db = (db1, True) \<Longrightarrow>
     db1 = db\<lparr>db_suggestions := db_suggestions db @ [s]\<rparr> \<and> findSuggestionById (s_id s) db = None"
  by (auto simp: insertSuggestion_def split: if_splits)

lemmas shapes = insertDocument_shape updateContent_shape rename_shape upsertGrant_shape deleteGrant_shape
  insertThread_shape insertMessage_shape insertSuggestion_shape

text \<open>A document that is there after a write was there before, unless the write created it.\<close>

lemma change_document:
  assumes "change actor env dbA db db'" and "findById s db' = Some d'" and "uuid s \<noteq> env_id env"
  shows "\<exists>d. findById s db = Some d \<and> d_contentVersion d \<le> d_contentVersion d'
    \<and> d_metadataVersion d \<le> d_metadataVersion d' \<and> d_ownerUserId d = d_ownerUserId d'"
  using assms
proof (cases rule: change.cases)
  case (deleted i doc role)
  then show ?thesis using assms
    by (auto simp: findById_def deleteById_def Let_def find_filter_key [where key = d_id] split: if_splits)
qed (use assms in \<open>auto simp: findById_def find_append find_update [where key = d_id]
    dest!: shapes split: if_splits option.splits\<close>)


lemma found_suggestion_id: "findSuggestionById s db = Some r \<Longrightarrow> s_id r = uuid s"
  by (auto simp: findSuggestionById_def find_Some_iff)

lemma change_settled_suggestion:
  assumes "change actor env dbA db db'" and row: "findSuggestionById s db = Some row" "s_status row \<noteq> Proposed"
    and "findById (s_documentId row) db' \<noteq> None"
  shows "findSuggestionById s db' = Some row"
  using assms(1)
proof (cases rule: change.cases)
  case (deleted i doc role)
  then have "s_documentId row \<noteq> uuid i"
    using assms(4) by (auto simp: findById_def deleteById_def Let_def find_filter_key [where key = d_id] split: if_splits)
  then have "find (\<lambda>x. s_id x = uuid s) (filter (\<lambda>x. s_documentId x \<noteq> uuid i) (db_suggestions db)) = Some row"
    using row(1) unfolding findSuggestionById_def by (simp add: find_filter_kept)
  then show ?thesis using deleted by (simp add: findSuggestionById_def deleteById_def Let_def)
next
  case (resolved i doc role t r action)
  have ne: "s_id r \<noteq> s_id row"
  proof
    assume "s_id r = s_id row"
    then have "uuid t = uuid s" using found_suggestion_id [OF resolved(3)] found_suggestion_id [OF row(1)] by simp
    then have "r = row" using resolved(3) row(1) by (simp add: findSuggestionById_def)
    then show False using resolved(5) row(2) by simp
  qed
  have "find (\<lambda>x. s_id x = uuid s) (db_suggestions db') = map_option (\<lambda>x. if s_id x = s_id r
      then x\<lparr>s_status := next_status action, s_resolvedAt := Some (env_now env),
         s_resolvedByUserId := Some (ac_userId actor), s_updatedAt := env_now env\<rparr> else x)
      (find (\<lambda>x. s_id x = uuid s) (db_suggestions db))"
    using resolved(1) by (simp add: update_rows_def find_update [where key = s_id])
  then show ?thesis using row(1) ne by (simp add: findSuggestionById_def)
next
  case (suggested i doc role sinp db1)
  then show ?thesis using row(1) by (auto simp: findSuggestionById_def find_append dest!: insertSuggestion_shape)
qed (use row in \<open>auto simp: findSuggestionById_def dest!: shapes\<close>)

section \<open>Primary keys\<close>

text \<open>What PostgreSQL's primary keys and the unique index of the grants promise, and every write keeps.\<close>

definition keys_ok :: "Database \<Rightarrow> bool" where
  "keys_ok db \<longleftrightarrow> distinct (map d_id (db_documents db)) \<and> distinct (map t_id (db_threads db))
     \<and> distinct (map m_id (db_messages db)) \<and> distinct (map s_id (db_suggestions db))
     \<and> distinct (map (\<lambda>g. (g_documentId g, g_userId g)) (db_grants db))"

lemma distinct_filter_key: "distinct (map key rows) \<Longrightarrow> distinct (map key (filter P rows))"
  by (simp add: distinct_map_filter)

text \<open>A key that is not found is not in the table, and an update keeps the keys.\<close>

lemma fresh_keys:
  "findThreadById i db = None \<Longrightarrow> uuid i \<notin> t_id ` set (db_threads db)"
  "findMessage i db = None \<Longrightarrow> uuid i \<notin> m_id ` set (db_messages db)"
  "findSuggestionById i db = None \<Longrightarrow> uuid i \<notin> s_id ` set (db_suggestions db)"
  "findGrant i u db = None \<Longrightarrow> (uuid i, uuid u) \<notin> (\<lambda>g. (g_documentId g, g_userId g)) ` set (db_grants db)"
  by (auto simp: findThreadById_def findMessage_def findSuggestionById_def findGrant_def find_None_iff)

lemma keys_of_update: "(\<And>r. P r \<Longrightarrow> key (f r) = key r) \<Longrightarrow> map key (map (\<lambda>r. if P r then f r else r) rows) = map key rows"
  by auto

lemma upsertGrant_keys:
  assumes "upsertGrant g db = Some (db1, row)" and "keys_ok db"
    and "uuid (g_documentId g) = g_documentId g" and "uuid (g_userId g) = g_userId g"
  shows "keys_ok db1"
proof (cases "findGrant (g_documentId g) (g_userId g) db")
  case None
  then have "(g_documentId g, g_userId g) \<notin> (\<lambda>g. (g_documentId g, g_userId g)) ` set (db_grants db)"
    using fresh_keys(4) [OF None] assms(3,4) by simp
  moreover have "db1 = db\<lparr>db_grants := db_grants db @ [g]\<rparr>"
    using None assms(1) by (auto simp: upsertGrant_def split: if_splits)
  ultimately show ?thesis using assms(2) by (simp add: keys_ok_def)
next
  case (Some x)
  let ?f = "\<lambda>h. h\<lparr>g_role := g_role g, g_grantedByUserId := g_grantedByUserId g\<rparr>"
  let ?P = "\<lambda>h. g_documentId h = g_documentId g \<and> g_userId h = g_userId g"
  have "map (\<lambda>g. (g_documentId g, g_userId g)) (map (\<lambda>h. if ?P h then ?f h else h) (db_grants db))
      = map (\<lambda>g. (g_documentId g, g_userId g)) (db_grants db)"
    by (rule keys_of_update) simp
  moreover have "db_grants db1 = map (\<lambda>h. if ?P h then ?f h else h) (db_grants db)"
    using Some assms(1) by (auto simp: upsertGrant_def split: if_splits)
  ultimately have "map (\<lambda>g. (g_documentId g, g_userId g)) (db_grants db1) = map (\<lambda>g. (g_documentId g, g_userId g)) (db_grants db)"
    by (simp only:)
  moreover obtain gs where "db1 = db\<lparr>db_grants := gs\<rparr>" using upsertGrant_shape [OF assms(1)] by blast
  ultimately show ?thesis using assms(2) by (simp add: keys_ok_def)
qed

lemma found_document_id: "findById i db = Some d \<Longrightarrow> d_id d = uuid i"
  by (auto simp: findById_def find_Some_iff)

lemma owned_document_id: "requireOwnedDocument actor i db = Inr d \<Longrightarrow> d_id d = uuid i"
  by (auto simp: requireOwnedDocument_Inr requireAccess_Inr found_document_id)

lemma keys_ok_cong:
  assumes "keys_ok db" and "map d_id (db_documents db') = map d_id (db_documents db)"
    and "map t_id (db_threads db') = map t_id (db_threads db)" and "map m_id (db_messages db') = map m_id (db_messages db)"
    and "map s_id (db_suggestions db') = map s_id (db_suggestions db)" and "db_grants db' = db_grants db"
  shows "keys_ok db'"
  using assms by (simp only: keys_ok_def)

lemma change_keys:
  assumes "change actor env dbA db db'" and "keys_ok db"
  shows "keys_ok db'"
  using assms(1)
proof (cases rule: change.cases)
  case (created t org c db1 row)
  then show ?thesis using assms(2) by (auto simp: keys_ok_def dest!: insertDocument_shape)
next
  case (granted i doc r u db1 row a)
  have "keys_ok db1" using upsertGrant_keys [OF granted(5) assms(2)] owned_document_id [OF granted(2)] by simp
  then show ?thesis using granted(1) by (simp add: keys_ok_def)
next
  case (deleted i doc role)
  then show ?thesis using assms(2) by (simp add: keys_ok_def deleteById_def Let_def distinct_filter_key)
next
  case (revoked i doc u db1)
  then show ?thesis using assms(2) by (auto simp: keys_ok_def deleteGrant_def distinct_filter_key)
next
  case (commented i doc role inp db1 db2)
  note t = insertThread_shape [OF commented(3)] and m = insertMessage_shape [OF commented(4)]
  have "t_id (thread_row actor i inp (env_now env)) \<notin> t_id ` set (db_threads db)"
    using fresh_keys(1) [OF conjunct2 [OF t]] by (simp add: thread_row_def)
  moreover have "m_id (message_row actor (ti_messageId inp) (ti_threadId inp) (ti_body inp) (env_now env)) \<notin> m_id ` set (db_messages db)"
    using fresh_keys(2) [OF conjunct2 [OF m]] t by (simp add: message_row_def)
  ultimately show ?thesis using assms(2) t m commented(1) by (simp add: keys_ok_def)
next
  case (replied i doc role t th m b db1)
  note ins = insertMessage_shape [OF replied(5)]
  have "m_id (message_row actor m (t_id th) b (env_now env)) \<notin> m_id ` set (db_messages db)"
    using fresh_keys(2) [OF conjunct2 [OF ins]] by (simp add: message_row_def)
  moreover have "map t_id (db_threads db') = map t_id (db_threads db)"
    using replied(1) ins by simp
  ultimately show ?thesis using assms(2) ins replied(1) by (simp add: keys_ok_def del: update_threads_frame(7))
next
  case (suggested i doc role sinp db1)
  note ins = insertSuggestion_shape [OF suggested(3)]
  have "s_id (suggestion_row actor i sinp (env_now env)) \<notin> s_id ` set (db_suggestions db)"
    using fresh_keys(3) [OF conjunct2 [OF ins]] by (simp add: suggestion_row_def)
  then show ?thesis using assms(2) ins suggested(1) by (simp add: keys_ok_def)
next
  case (resolved i doc role t r action)
  show ?thesis by (rule keys_ok_cong [OF assms(2)]) (simp_all add: resolved(1) update_rows_def)
next
  case (renamed i doc role v t db1 d)
  note sh = rename_shape [OF renamed(3)]
  show ?thesis by (rule keys_ok_cong [OF assms(2)]) (simp_all add: renamed(1) sh)
next
  case (saved i doc role v c d)
  note sh = updateContent_shape [OF saved(2)]
  show ?thesis by (rule keys_ok_cong [OF assms(2)]) (simp_all add: sh)
next
  case (status_set i doc role t th meta st)
  show ?thesis by (rule keys_ok_cong [OF assms(2)]) (simp_all add: status_set(1))
qed (use assms in simp_all)

section \<open>Histories\<close>

text \<open>A history: calls by any actors, each with the state its authorization read.\<close>

type_synonym Call = "ActorContext \<times> Request \<times> Env \<times> Database"

definition call :: "Libraries \<Rightarrow> Database \<Rightarrow> Call \<Rightarrow> Database" where
  "call L db c = (case c of (actor, req, env, dbA) \<Rightarrow> fst (serve L actor req env dbA db))"

definition history :: "Libraries \<Rightarrow> Call list \<Rightarrow> Database \<Rightarrow> Database" where
  "history L calls db = foldl (call L) db calls"

text \<open>No call generates the id.\<close>

definition never_generates :: "string \<Rightarrow> Call list \<Rightarrow> bool" where
  "never_generates i calls \<longleftrightarrow> list_all (\<lambda>(actor, req, env, dbA). env_id env \<noteq> uuid i) calls"

lemma principal_frame:
  "new_principal db db1 \<Longrightarrow> db_documents db1 = db_documents db \<and> db_grants db1 = db_grants db
    \<and> db_threads db1 = db_threads db \<and> db_messages db1 = db_messages db
    \<and> db_suggestions db1 = db_suggestions db \<and> db_audit db1 = db_audit db"
  by (auto simp: new_principal_def)

lemma call_changes: "\<exists>db1. new_principal db db1 \<and> change (fst c) (fst (snd (snd c))) (snd (snd (snd c))) db1 (call L db c)"
proof -
  obtain actor req env dbA where c: "c = (actor, req, env, dbA)" by (cases c) auto
  show ?thesis using serve_changes [OF surjective_pairing] by (simp add: c call_def)
qed

text \<open>Induction over a history: what every write keeps, as long as the document is there at the end.\<close>

lemma history_Cons: "history L (c # calls) db = history L calls (call L db c)"
  by (simp add: history_def)

lemma never_generates_Cons:
  "never_generates s (c # calls) \<longleftrightarrow> env_id (fst (snd (snd c))) \<noteq> uuid s \<and> never_generates s calls"
  by (cases c) (simp add: never_generates_def)

lemma call_document:
  assumes "findById s (call L db c) = Some d'" and "env_id (fst (snd (snd c))) \<noteq> uuid s"
  shows "\<exists>d. findById s db = Some d \<and> d_contentVersion d \<le> d_contentVersion d'
    \<and> d_metadataVersion d \<le> d_metadataVersion d' \<and> d_ownerUserId d = d_ownerUserId d'"
proof -
  obtain db1 where "new_principal db db1" "change (fst c) (fst (snd (snd c))) (snd (snd (snd c))) db1 (call L db c)"
    using call_changes by blast
  then show ?thesis using change_document [OF _ assms(1)] assms(2) principal_frame [of db db1]
    by (fastforce simp: findById_def)
qed

lemma history_document:
  "findById s (history L calls db) = Some d' \<Longrightarrow> never_generates s calls \<Longrightarrow>
   \<exists>d. findById s db = Some d \<and> d_contentVersion d \<le> d_contentVersion d'
     \<and> d_metadataVersion d \<le> d_metadataVersion d' \<and> d_ownerUserId d = d_ownerUserId d'"
proof (induction calls arbitrary: db)
  case Nil
  then show ?case by (simp add: history_def)
next
  case (Cons c calls)
  then obtain d1 where "findById s (call L db c) = Some d1" "d_contentVersion d1 \<le> d_contentVersion d'"
      "d_metadataVersion d1 \<le> d_metadataVersion d'" "d_ownerUserId d1 = d_ownerUserId d'"
    by (auto simp: history_Cons never_generates_Cons)
  then show ?case using call_document [of s L db c d1] Cons.prems(2) by (fastforce simp: never_generates_Cons)
qed

lemma history_keeps:
  assumes step: "\<And>actor env dbA db db'. change actor env dbA db db' \<Longrightarrow> Q db \<Longrightarrow> findById s db' \<noteq> None \<Longrightarrow> Q db'"
    and principal: "\<And>db db1. new_principal db db1 \<Longrightarrow> Q db \<Longrightarrow> Q db1"
    and "Q db" and "never_generates s calls" and "findById s (history L calls db) \<noteq> None"
  shows "Q (history L calls db)"
  using assms(3-5)
proof (induction calls arbitrary: db)
  case Nil
  then show ?case by (simp add: history_def)
next
  case (Cons c calls)
  obtain db1 where db1: "new_principal db db1" "change (fst c) (fst (snd (snd c))) (snd (snd (snd c))) db1 (call L db c)"
    using call_changes by blast
  have ng: "never_generates s calls" using Cons.prems(2) by (simp add: never_generates_Cons)
  have "findById s (call L db c) \<noteq> None"
    using history_document [OF _ ng, of L "call L db c"] Cons.prems(3) by (auto simp: history_Cons)
  then have "Q (call L db c)" using step [OF db1(2) principal [OF db1(1) Cons.prems(1)]] by blast
  then show ?case using Cons.IH ng Cons.prems(3) by (simp add: history_Cons)
qed

text \<open>
  C34: A suggestion that is accepted, rejected or discharged stays so: whatever requests follow, by whomever, the
  stored suggestion is unchanged as long as its document exists (and no new document takes its id).
\<close>

theorem resolution_is_final:
  assumes "findSuggestionById s db = Some row" and "s_status row \<noteq> Proposed"
    and "never_generates (s_documentId row) calls" and "findById (s_documentId row) (history L calls db) = Some d"
  shows "findSuggestionById s (history L calls db) = Some row"
proof (rule history_keeps [where s = "s_documentId row" and Q = "\<lambda>db. findSuggestionById s db = Some row"])
  fix actor env dbA db db'
  assume "change actor env dbA db db'" "findSuggestionById s db = Some row" "findById (s_documentId row) db' \<noteq> None"
  then show "findSuggestionById s db' = Some row" using change_settled_suggestion assms(2) by blast
next
  fix db db1 assume "new_principal db db1" "findSuggestionById s db = Some row"
  then show "findSuggestionById s db1 = Some row" using principal_frame [of db db1] by (simp add: findSuggestionById_def)
qed (use assms in simp_all)

lemma history_keys: "keys_ok db \<Longrightarrow> keys_ok (history L calls db)"
proof (induction calls arbitrary: db)
  case (Cons c calls)
  obtain db1 where "new_principal db db1" "change (fst c) (fst (snd (snd c))) (snd (snd (snd c))) db1 (call L db c)"
    using call_changes by blast
  then have "keys_ok (call L db c)"
    using change_keys keys_ok_cong [OF Cons.prems, of db1] principal_frame [of db db1] by simp
  then show ?case using Cons.IH by (simp add: history_Cons)
qed (simp add: history_def)

section \<open>No lost update\<close>

lemma unique_row:
  assumes "distinct (map key rows)" and "r \<in> set rows"
  shows "find (\<lambda>x. key x = key r) rows = Some r"
  using assms by (induction rows) (auto simp: image_iff)

lemma save_succeeded:
  assumes "distinct (map d_id (db_documents db))"
    and "updateContentConditional s v c now db = Some (db1, Some d)"
  shows "d_contentVersion d = v + 1 \<and> findById s db1 = Some d"
proof -
  obtain d0 where d0: "find (\<lambda>d. d_id d = uuid s \<and> d_contentVersion d = v) (db_documents db) = Some d0"
      "d = d0\<lparr>d_content := Some c, d_contentVersion := d_contentVersion d0 + 1, d_updatedAt := now\<rparr>"
    using assms(2) by (auto simp: updateContentConditional_def update_rows_def split: if_splits)
  then have "d0 \<in> set (db_documents db)" "d_id d0 = uuid s" "d_contentVersion d0 = v"
    by (auto simp: find_Some_iff)
  then have "find (\<lambda>d. d_id d = uuid s) (db_documents db) = Some d0"
    using unique_row [OF assms(1)] by metis
  then show ?thesis using updateContent_shape [OF assms(2)] d0 \<open>d_contentVersion d0 = v\<close> \<open>d_id d0 = uuid s\<close>
    by (simp add: findById_def find_update [where key = d_id])
qed

text \<open>
  C9: Two saves from the same version never both succeed. After a successful save from version \<open>v\<close> and any
  further requests, another save of that document that expects \<open>v\<close> is refused and changes nothing.
\<close>

theorem no_lost_update:
  assumes "keys_ok db"
    and "serve L actor (SaveContent (Some (JStr s)) c (Some (JNum v))) env dbA db = (db1, Inr (VersionR v1))"
    and "never_generates s calls"
  shows "v1 = v + 1 \<and>
    fst (serve L actor' (SaveContent (Some (JStr s)) c' (Some (JNum v))) env' dbA' (history L calls db1)) = history L calls db1 \<and>
    (\<exists>e. snd (serve L actor' (SaveContent (Some (JStr s)) c' (Some (JNum v))) env' dbA' (history L calls db1)) = Inl e)"
proof -
  obtain r0 where "saveDocumentContent actor (Some (JStr s)) c (Some (JNum v)) env dbA db = (db1, r0)"
      "Inr (VersionR v1) = answer VersionR r0"
    using assms(2) by (auto simp: serve_def apsnd_answer)
  then obtain c1 d where up: "updateContentConditional s v c1 (env_now env) db = Some (db1, Some d)" "v1 = d_contentVersion d"
    by (auto simp: answer_def parse_version_def dest!: save_effect split: if_splits)
  then have d: "d_contentVersion d = v + 1" "findById s db1 = Some d"
    using save_succeeded assms(1) unfolding keys_ok_def by blast+
  have none: "updateContentConditional s v c2 now (history L calls db1) \<noteq> Some (db2, Some d2)" for c2 now db2 d2
  proof
    assume a: "updateContentConditional s v c2 now (history L calls db1) = Some (db2, Some d2)"
    then obtain d3 where d3: "d3 \<in> set (db_documents (history L calls db1))" "d_id d3 = uuid s" "d_contentVersion d3 = v"
      by (auto simp: updateContentConditional_def update_rows_def split: if_splits dest!: find_sound)
    have "keys_ok db1"
      by (rule keys_ok_cong [OF assms(1)]) (simp_all add: updateContent_shape [OF up(1)])
    then have "distinct (map d_id (db_documents (history L calls db1)))"
      using history_keys unfolding keys_ok_def by blast
    then have "findById s (history L calls db1) = Some d3" using unique_row [where key = d_id, OF _ d3(1)] d3(2) by (simp add: findById_def)
    from history_document [OF this assms(3)] obtain d4
      where "findById s db1 = Some d4" "d_contentVersion d4 \<le> d_contentVersion d3" by blast
    then show False using d d3(3) by simp
  qed
  obtain db2 r2 where r2: "saveDocumentContent actor' (Some (JStr s)) c' (Some (JNum v)) env' dbA' (history L calls db1) = (db2, r2)"
    by fastforce
  then have "db2 = history L calls db1 \<and> (\<exists>e. r2 = Inl e)"
    using save_effect [OF r2] none by (auto simp: parse_version_def split: if_splits)
  then show ?thesis using r2 up d by (auto simp: serve_def answer_def)
qed

end
