(* ===== verification/Server_Guarantees.thy ===== *)
theory Server_Guarantees
  imports Server_Safety
begin

text \<open>
  Guarantees of the service layer on top of \<^verbatim>\<open>Server_Safety\<close>: the audit log, the invariant of the access
  list, the roles in listings, the masking of denials, and retries.
\<close>

section \<open>Audit\<close>

lemma frame_audit:
  "insertDocument i now t ow og c db = Some (db1, row) \<Longrightarrow> db_audit db1 = db_audit db"
  "renameConditional i v t now db = Some (db1, d) \<Longrightarrow> db_audit db1 = db_audit db"
  "updateContentConditional i v js now db = Some (db1, d) \<Longrightarrow> db_audit db1 = db_audit db"
  "upsertGrant g db = Some (db1, gr) \<Longrightarrow> db_audit db1 = db_audit db"
  "deleteGrant i u db = (db1, b) \<Longrightarrow> db_audit db1 = db_audit db"
  "insertThread th db = (db1, True) \<Longrightarrow> db_audit db1 = db_audit db"
  "insertMessage m db = (db1, True) \<Longrightarrow> db_audit db1 = db_audit db"
  "insertSuggestion s db = (db1, True) \<Longrightarrow> db_audit db1 = db_audit db"
  by (auto dest!: shapes)

lemma audit_events:
  "db_audit (audit meta actor a t i org db) = db_audit db @
     [\<lparr>e_actorUserId = Some (ac_userId actor), e_action = a, e_resourceType = t, e_resourceId = i, e_organizationId = org, e_metadata = meta\<rparr>]"
  by (simp add: audit_def)

text \<open>The events a request appends: one by the actor, or none.\<close>

definition audited :: "ActorContext \<Rightarrow> Database \<Rightarrow> Database \<Rightarrow> bool" where
  "audited actor db db' \<longleftrightarrow> (\<exists>a t i org meta. db_audit db' = db_audit db @
     [\<lparr>e_actorUserId = Some (ac_userId actor), e_action = a, e_resourceType = t, e_resourceId = i, e_organizationId = org, e_metadata = meta\<rparr>])"

lemma auditedI: "db_audit db1 = db_audit db \<Longrightarrow> audited actor db (audit meta actor a t i org db1)"
  by (auto simp: audited_def audit_events)

lemma deleteById_audit: "db_audit (fst (deleteById i db)) = db_audit db"
  by (simp add: deleteById_def Let_def)

lemma audited_delete: "audited actor db (fst (deleteById i (audit meta actor a t j org db)))"
  by (auto simp: audited_def deleteById_audit audit_events)

lemma principal_audit: "new_principal db db1 \<Longrightarrow> db_audit db1 = db_audit db"
  using principal_frame by blast

lemma grant_audit:
  assumes "grantPermission L actor i t e ro env dbA db = (db', r)"
  shows "(new_principal db db' \<and> (\<exists>x. r = Inl x)) \<or> (audited actor db db' \<and> (\<exists>x. r = Inr x))"
proof -
  have np: "new_principal db db" by (simp add: new_principal_def)
  from grant_effect [OF assms] consider "db' = db" "\<exists>x. r = Inl x"
    | "new_principal db db'" "\<exists>x. r = Inl x"
    | db1 db2 g row a t j org meta where "new_principal db db1" "upsertGrant g db1 = Some (db2, row)"
        "db' = audit meta actor a t j org db2" "\<exists>x. r = Inr x"
    by blast
  then show ?thesis
  proof cases
    case 3
    then have "db_audit db2 = db_audit db" using frame_audit(4) [OF 3(2)] principal_audit [OF 3(1)] by simp
    then show ?thesis using 3 auditedI by blast
  qed (use np in blast)+
qed

text \<open>
  C35: The audit log is append-only and complete: a request that changes anything appends exactly one event, by
  its actor, and is answered successfully, except a content save (which is not audited) and the registration of a
  new principal by a grant that then fails; no request changes or removes an event.
\<close>

theorem audit_complete:
  assumes "serve L actor req env dbA db = (db', r)"
  shows "(audited actor db db' \<and> (\<exists>a. r = Inr a)) \<or>
    (db_audit db' = db_audit db \<and> (db' = db \<or> (\<exists>i c v. req = SaveContent i c v) \<or>
       (new_principal db db' \<and> (\<exists>i t e ro. req = Grant i t e ro) \<and> (\<exists>e. r = Inl e))))"
proof (cases req)
  case (Grant i t e ro)
  then obtain r0 where "grantPermission L actor i t e ro env dbA db = (db', r0)" "r = answer RoleR r0"
    using assms by (auto simp: serve_def apsnd_answer)
  from grant_audit [OF this(1)] this(2) Grant show ?thesis
    by (auto simp: answer_def dest: principal_audit)
qed (use assms in \<open>auto simp: serve_def apsnd_answer answer_def frame_audit audited_delete
  dest!: create_effect rename_effect delete_effect save_effect revoke_effect thread_effect reply_effect status_effect
    suggest_effect resolve_effect intro!: auditedI\<close>)

section \<open>The access list\<close>

text \<open>
  No grant says \<open>OWNER\<close>, none is for the document's owner, each is for an existing document and user, and
  there is at most one per document and user.
\<close>

definition grant_ok :: "Database \<Rightarrow> GrantRow \<Rightarrow> bool" where
  "grant_ok db g \<longleftrightarrow> g_role g \<noteq> OWNER \<and> g_userId g \<in> set (map u_id (db_users db)) \<and>
     list_ex (\<lambda>d. d_id d = g_documentId g \<and> d_ownerUserId d \<noteq> g_userId g) (db_documents db)"

definition acl_ok :: "Database \<Rightarrow> bool" where
  "acl_ok db \<longleftrightarrow> keys_ok db \<and> list_all (grant_ok db) (db_grants db)"

text \<open>A document that two states have, has the same owner in both: nothing changes an owner.\<close>

definition owners_agree :: "Database \<Rightarrow> Database \<Rightarrow> bool" where
  "owners_agree dbA db \<longleftrightarrow>
     list_all (\<lambda>d. case findById (d_id d) dbA of None \<Rightarrow> True | Some d' \<Rightarrow> d_ownerUserId d' = d_ownerUserId d)
       (db_documents db)"

lemma grants_survive:
  assumes "list_all (grant_ok db) (db_grants db)"
    and "db_grants db' = db_grants db" and "set (map u_id (db_users db)) \<subseteq> set (map u_id (db_users db'))"
    and "set (map (\<lambda>d. (d_id d, d_ownerUserId d)) (db_documents db)) \<subseteq> set (map (\<lambda>d. (d_id d, d_ownerUserId d)) (db_documents db'))"
  shows "list_all (grant_ok db') (db_grants db')"
proof -
  have "grant_ok db' g" if ok: "grant_ok db g" for g
  proof -
    obtain d where "d \<in> set (db_documents db)" "d_id d = g_documentId g" "d_ownerUserId d \<noteq> g_userId g"
      using ok by (auto simp: grant_ok_def list_ex_iff)
    then have "(d_id d, d_ownerUserId d) \<in> set (map (\<lambda>d. (d_id d, d_ownerUserId d)) (db_documents db'))"
      using assms(4) by (metis (no_types, lifting) image_eqI list.set_map subset_iff)
    then obtain d' where "d' \<in> set (db_documents db')" "d_id d' = d_id d" "d_ownerUserId d' = d_ownerUserId d"
      by auto
    then show ?thesis using ok \<open>d_id d = g_documentId g\<close> \<open>d_ownerUserId d \<noteq> g_userId g\<close> assms(3)
      by (auto simp: grant_ok_def list_ex_iff)
  qed
  then show ?thesis using assms(1,2) by (auto simp: list_all_iff)
qed


lemma upserted:
  assumes "upsertGrant g db = Some (db1, row)"
  shows "db_documents db1 = db_documents db \<and> db_users db1 = db_users db \<and>
    findById (g_documentId g) db \<noteq> None \<and> g_userId g \<in> set (map u_id (db_users db)) \<and>
    list_all (\<lambda>h. h \<in> set (db_grants db) \<or> (g_documentId h = g_documentId g \<and> g_userId h = g_userId g \<and> g_role h = g_role g))
      (db_grants db1)"
  using assms by (auto simp: upsertGrant_def list_all_iff split: if_splits)

lemma granted_ok:
  assumes "requireOwnedDocument actor i dbA = Inr doc" and "r \<noteq> OWNER" and "uuid u \<noteq> d_ownerUserId doc"
    and up: "upsertGrant \<lparr>g_documentId = d_id doc, g_userId = uuid u, g_role = r, g_grantedByUserId = gb\<rparr> db = Some (db1, row)"
    and "owners_agree dbA db" and old: "list_all (grant_ok db) (db_grants db)"
  shows "list_all (grant_ok db1) (db_grants db1)"
proof -
  note up = upserted [OF up, simplified]
  have frame: "grant_ok db1 = grant_ok db" using up by (auto simp: grant_ok_def fun_eq_iff)
  obtain d where d: "findById (d_id doc) db = Some d" using up by auto
  then have "d \<in> set (db_documents db)" "d_id d = uuid (d_id doc)" by (auto simp: findById_def dest!: find_sound)
  moreover have id: "d_id doc = uuid i" "findById i dbA = Some doc"
    using assms(1) by (auto simp: requireOwnedDocument_Inr requireAccess_Inr found_document_id)
  ultimately have "findById (d_id d) dbA = Some doc" "d_id d = d_id doc" by (simp_all add: findById_def)
  then have "d_ownerUserId d = d_ownerUserId doc"
    using assms(5) \<open>d \<in> set (db_documents db)\<close> by (auto simp: owners_agree_def list_all_iff)
  then have "grant_ok db h" if "g_documentId h = d_id doc" "g_userId h = uuid u" "g_role h = r" for h
    using that assms(2,3) up \<open>d_id d = d_id doc\<close> \<open>d \<in> set (db_documents db)\<close>
    by (auto simp: grant_ok_def list_ex_iff)
  then show ?thesis using up old unfolding frame by (auto simp: list_all_iff)
qed

lemma change_acl:
  assumes "change actor env dbA db db'" and "acl_ok db" and "owners_agree dbA db"
  shows "acl_ok db'"
proof -
  have old: "list_all (grant_ok db) (db_grants db)" using assms(2) by (simp add: acl_ok_def)
  have "list_all (grant_ok db') (db_grants db')"
    using assms(1)
  proof (cases rule: change.cases)
    case (granted i doc r u db1 row a)
    have "list_all (grant_ok db1) (db_grants db1)"
      using granted_ok [OF granted(2-5) assms(3) old] .
    moreover have "grant_ok db' = grant_ok db1" using granted(1) by (auto simp: grant_ok_def fun_eq_iff)
    ultimately show ?thesis using granted(1) by simp
  next
    case (revoked i doc u db1)
    then have "set (db_grants db') \<subseteq> set (db_grants db)" "grant_ok db' = grant_ok db"
      by (auto simp: deleteGrant_def grant_ok_def fun_eq_iff)
    then show ?thesis using old by (auto simp: list_all_iff)
  next
    case (deleted i doc role)
    have "grant_ok db' g" if "grant_ok db g" "g_documentId g \<noteq> uuid i" for g
      using that deleted(1) by (auto simp: grant_ok_def deleteById_def Let_def list_ex_iff)
    then show ?thesis using old deleted(1) by (auto simp: deleteById_def Let_def list_all_iff)
  next
    case (renamed i doc role v t db1 d)
    note sh = rename_shape [OF renamed(3)]
    show ?thesis by (rule grants_survive [OF old]) (auto simp: renamed(1) sh)
  next
    case (saved i doc role v c d)
    note sh = updateContent_shape [OF saved(2)]
    show ?thesis by (rule grants_survive [OF old]) (auto simp: sh)
  qed (rule grants_survive [OF old]; auto dest!: insertDocument_shape insertThread_shape insertMessage_shape
      insertSuggestion_shape)+
  then show ?thesis using change_keys [OF assms(1)] assms(2) by (simp add: acl_ok_def)
qed

text \<open>
  C14: The access list stays sound under every request: at most one grant per document and user, none with the
  role \<open>OWNER\<close>, none for the document's owner, and none for a document or user that does not exist.
\<close>

theorem access_list_sound:
  assumes "acl_ok db" and "owners_agree dbA db"
  shows "acl_ok (fst (serve L actor req env dbA db))"
proof -
  obtain db1 where db1: "new_principal db db1" "change actor env dbA db1 (fst (serve L actor req env dbA db))"
    using serve_changes [OF surjective_pairing] by blast
  have "keys_ok db1" using principal_frame [OF db1(1)] assms(1) by (auto simp: acl_ok_def intro: keys_ok_cong)
  moreover have "list_all (grant_ok db1) (db_grants db1)"
    by (rule grants_survive [of db]) (use assms(1) db1(1) in \<open>auto simp: acl_ok_def new_principal_def\<close>)
  ultimately have "acl_ok db1" by (simp add: acl_ok_def)
  moreover have "owners_agree dbA db1" using assms(2) principal_frame [OF db1(1)] by (simp add: owners_agree_def)
  ultimately show ?thesis using change_acl [OF db1(2)] by blast
qed


section \<open>Listings\<close>

text \<open>The actor's ids come from the database, so they are canonical.\<close>

definition canonical_actor :: "ActorContext \<Rightarrow> bool" where
  "canonical_actor actor \<longleftrightarrow> uuid (ac_userId actor) = ac_userId actor \<and>
     (case ac_organization actor of None \<Rightarrow> True | Some o' \<Rightarrow> uuid (ao_id o') = ao_id o')"

lemma sql_role_is_policy:
  assumes "canonical_actor actor" and "in_scope (ac_userId actor) (organization_of actor) scope db d"
  shows "resolveEffectiveRole actor d (map_option g_role (findGrant (d_id d) (ac_userId actor) db))
    = Some (sql_role (ac_userId actor) db d)"
  using assms by (auto simp: canonical_actor_def in_scope_def organization_of_def sql_role_def resolveEffectiveRole_def
      split: scope.splits option.splits if_splits)

lemma listAccessible_rows:
  "(d, r) \<in> set (listAccessible like userId org scope limit offset pat db) \<Longrightarrow>
     d \<in> set (db_documents db) \<and> in_scope userId org scope db d \<and> r = sql_role userId db d"
  by (auto simp: listAccessible_def dest!: in_set_takeD in_set_dropD)

lemma listAccessible_sorted:
  "sorted_wrt (\<ge>) (map (\<lambda>p. d_updatedAt (fst p)) (listAccessible like userId org scope limit offset pat db))"
proof -
  have srt: "sorted_wrt (\<ge>) (map d_updatedAt (rev (sort_key d_updatedAt (sort_key d_id xs))))" for xs
    using sorted_sort_key [of d_updatedAt "sort_key d_id xs"] by (simp add: sorted_wrt_rev flip: rev_map)
  show ?thesis
    by (simp add: listAccessible_def comp_def flip: take_map drop_map) (intro sorted_wrt_take sorted_wrt_drop srt)
qed

text \<open>
  Every row of a listing is a stored document, with exactly the role that the policy resolves for the actor (so
  no document the actor may not read is listed); a page has at most 50 rows, newest first.
\<close>

theorem listing_follows_policy:
  assumes "canonical_actor actor" and "listDocuments L actor input db = Inr (rows, hasMore)"
  shows "list_all (\<lambda>(d, role). d \<in> set (db_documents db)
      \<and> resolveEffectiveRole actor d (map_option g_role (findGrant (d_id d) (ac_userId actor) db)) = Some role) rows
    \<and> length rows \<le> 50 \<and> sorted_wrt (\<ge>) (map (\<lambda>p. d_updatedAt (fst p)) rows)"
proof -
  obtain n scope limit offset pat where n: "n \<le> 50"
    "rows = take n (listAccessible (lib_ilike L) (ac_userId actor) (organization_of actor) scope limit offset pat db)"
  proof -
    from assms(2) obtain pageSize scope limit offset pat where
      p: "parse_count L ''pageSize'' 1 50 5 (li_pageSize input) = Inr pageSize"
      "rows = take (nat pageSize) (listAccessible (lib_ilike L) (ac_userId actor) (organization_of actor) scope limit offset pat db)"
      unfolding listDocuments_def Let_def bindE_Inr_iff by blast
    from p(1) have "nat pageSize \<le> 50" by (auto simp: parse_count_def split: if_splits option.splits)
    then show thesis using p(2) that by blast
  qed
  have "list_all (\<lambda>(d, role). d \<in> set (db_documents db)
      \<and> resolveEffectiveRole actor d (map_option g_role (findGrant (d_id d) (ac_userId actor) db)) = Some role) rows"
    using listAccessible_rows sql_role_is_policy [OF assms(1)] unfolding n(2) list_all_iff
    by (fastforce dest: in_set_takeD)
  moreover have "length rows \<le> 50" using n by simp
  moreover have "sorted_wrt (\<ge>) (map (\<lambda>p. d_updatedAt (fst p)) rows)"
    unfolding n(2) using listAccessible_sorted by (metis sorted_wrt_take take_map)
  ultimately show ?thesis by blast
qed

section \<open>Denials\<close>

lemma access_denied:
  "role_on actor s db = None \<Longrightarrow> requireAccess actor s c db = Inl (NotFound, ''Document not found'')"
  by (auto simp: role_on_def requireAccess_def split: option.splits)

lemma ownership_denied:
  "role_on actor s db = None \<Longrightarrow> requireOwnedDocument actor s db = Inl (NotFound, ''Document not found'')"
  by (auto simp: role_on_def requireOwnedDocument_def resolveEffectiveRole_def assertCapability_def
      split: option.splits if_splits)

lemma no_role_on_deleted: "role_on actor s (fst (deleteById s db)) = None"
  by (auto simp: role_on_def findById_def deleteById_def Let_def find_filter_key [where key = d_id] split: option.splits)

lemma unique_find:
  assumes "distinct (map key rows)" and "find (\<lambda>r. key r = k) rows = Some r" and "\<not> Q r"
  shows "find (\<lambda>r. key r = k) (filter Q rows) = None"
  using assms by (induction rows) (auto simp: find_None_iff image_iff split: if_splits)

lemma thread_id_check:
  assumes "distinct (map t_id (db_threads db))" and "uuid s = s"
  shows "(case findThreadById t (fst (deleteById s db)) of
       Some t \<Rightarrow> guardE (t_documentId t = s) e | None \<Rightarrow> Inr ())
    = (case findThreadById t db of Some t \<Rightarrow> guardE (t_documentId t = s) e | None \<Rightarrow> Inr ())"
proof (cases "findThreadById t db")
  case None
  then show ?thesis using assms by (auto simp: findThreadById_def deleteById_def Let_def find_None_iff split: option.splits dest!: find_sound)
next
  case (Some r)
  show ?thesis
  proof (cases "t_documentId r = s")
    case True
    then show ?thesis using Some unique_find [OF assms(1), of "uuid t" r "\<lambda>t. t_documentId t \<noteq> s"] assms(2)
      by (simp add: guardE_def findThreadById_def deleteById_def Let_def)
  next
    case False
    then show ?thesis using Some find_filter_kept [of "\<lambda>x. t_id x = uuid t" _ r "\<lambda>t. t_documentId t \<noteq> s"] assms(2)
      by (simp add: guardE_def findThreadById_def deleteById_def Let_def)
  qed
qed

lemma suggestion_id_check:
  assumes "distinct (map s_id (db_suggestions db))" and "uuid s = s"
  shows "(case findSuggestionById t (fst (deleteById s db)) of
       Some t \<Rightarrow> guardE (s_documentId t = s) e | None \<Rightarrow> Inr ())
    = (case findSuggestionById t db of Some t \<Rightarrow> guardE (s_documentId t = s) e | None \<Rightarrow> Inr ())"
proof (cases "findSuggestionById t db")
  case None
  then show ?thesis using assms by (auto simp: findSuggestionById_def deleteById_def Let_def find_None_iff split: option.splits dest!: find_sound)
next
  case (Some r)
  show ?thesis
  proof (cases "s_documentId r = s")
    case True
    then show ?thesis using Some unique_find [OF assms(1), of "uuid t" r "\<lambda>t. s_documentId t \<noteq> s"] assms(2)
      by (simp add: guardE_def findSuggestionById_def deleteById_def Let_def)
  next
    case False
    then show ?thesis using Some find_filter_kept [of "\<lambda>x. s_id x = uuid t" _ r "\<lambda>t. s_documentId t \<noteq> s"] assms(2)
      by (simp add: guardE_def findSuggestionById_def deleteById_def Let_def)
  qed
qed

lemma denied_document:
  assumes "role_on actor s db = None"
  shows "getDocument actor (Some (JStr s)) db = (if uuid_regex s then Inl (NotFound, ''Document not found'')
      else Inl (Validation, ''Invalid document id''))"
  using access_denied [OF assms] by (simp add: getDocument_def parseDocumentId_def)

text \<open>
  C7: To an actor without a role on a document, every request about it is answered exactly as if the document did not
  exist, and changes nothing. The tables have unique keys; a request that creates a comment thread or a suggestion must
  spell the document's id as PostgreSQL does, in lower case.
\<close>

theorem denied_like_missing:
  assumes "role_on actor s db = None" and "target req = Some (Some (JStr s), c)" and "keys_ok db"
    and "uuid s = s \<or> (\<forall>i x. req \<noteq> CreateThread i x \<and> req \<noteq> CreateSuggestion i x)"
  shows "serve L actor req env db db
    = (db, snd (serve L actor req env (fst (deleteById s db)) (fst (deleteById s db))))"
proof -
  have keys: "distinct (map t_id (db_threads db))" "distinct (map s_id (db_suggestions db))"
    using assms(3) by (simp_all add: keys_ok_def)
  note d = access_denied [OF assms(1)] ownership_denied [OF assms(1)] denied_document [OF assms(1)]
    access_denied [OF no_role_on_deleted] ownership_denied [OF no_role_on_deleted] denied_document [OF no_role_on_deleted]
  show ?thesis
  proof (cases req)
    case (CreateThread i x)
    then have c: "uuid s = s" using assms(4) by simp
    show ?thesis using assms(2) CreateThread
      by (auto simp: serve_def answer_def createThread_def validateDocumentId_def parse_uuid_def d
          thread_id_check [OF keys(1) c] split: option.splits)
  next
    case (CreateSuggestion i x)
    then have c: "uuid s = s" using assms(4) by simp
    show ?thesis using assms(2) CreateSuggestion
      by (auto simp: serve_def answer_def create_suggestion_def validateDocumentId_def parse_uuid_def d
          suggestion_id_check [OF keys(2) c] split: option.splits)
  qed (use assms(2) in \<open>auto simp: serve_def answer_def getDocument_def renameDocument_def deleteDocument_def
    saveDocumentContent_def grantPermission_def revokePermission_def listGrants_def list_comments_def addMessage_def
    setThreadStatus_def list_suggestions_def resolve_suggestion_def parseDocumentId_def validateDocumentId_def parse_uuid_def d
    split: option.splits prod.splits\<close>)
qed

text \<open>
  Under another spelling the existence of a hidden document shows: with the id of one of its threads the answer is a
  conflict, and it is that there is no such document once it is deleted.
\<close>

lemma spelling_reveals_document:
  assumes "role_on actor s db = None" and "lib_uuid L s" and "uuid_regex s" and "parse_thread L x = Some inp"
    and "findThreadById (ti_threadId inp) db = Some t" and "t_documentId t = uuid s" and "uuid s \<noteq> s" and "keys_ok db"
  shows "snd (createThread L actor (Some (JStr s)) x env db db) = Inl (Conflict, ''Comment ID already exists'')"
    and "snd (createThread L actor (Some (JStr s)) x env (fst (deleteById s db)) (fst (deleteById s db)))
      = Inl (NotFound, ''Document not found'')"
proof -
  have valid: "validateDocumentId L (Some (JStr s)) = Inr s" using assms(2) by (simp add: validateDocumentId_def parse_uuid_def)
  show "snd (createThread L actor (Some (JStr s)) x env db db) = Inl (Conflict, ''Comment ID already exists'')"
    using assms(4-7) by (simp add: createThread_def valid guardE_def)
  have "distinct (map t_id (db_threads db))" using assms(8) by (simp add: keys_ok_def)
  then have "y = t" if "y \<in> set (db_threads db)" "t_id y = uuid (ti_threadId inp)" for y
  proof -
    have "t \<in> set (db_threads db)" "t_id t = uuid (ti_threadId inp)"
      using assms(5) by (auto simp: findThreadById_def dest: find_sound)
    then show ?thesis using that \<open>distinct _\<close> unfolding distinct_map inj_on_def by metis
  qed
  then have "findThreadById (ti_threadId inp) (fst (deleteById s db)) = None"
    using assms(6) by (auto simp: findThreadById_def deleteById_def Let_def find_None_iff)
  then show "snd (createThread L actor (Some (JStr s)) x env (fst (deleteById s db)) (fst (deleteById s db)))
      = Inl (NotFound, ''Document not found'')"
    using assms(3,4) denied_document [OF no_role_on_deleted] by (simp add: createThread_def valid)
qed


section \<open>Retries\<close>

lemma find_update_pred:
  assumes "\<And>r. R (f r) = R r"
  shows "find R (map (\<lambda>r. if P r then f r else r) rows) = map_option (\<lambda>r. if P r then f r else r) (find R rows)"
  using assms by (induction rows) auto

text \<open>The thread and its first message are stored as the request gave them.\<close>

definition committed :: "ActorContext \<Rightarrow> string \<Rightarrow> ThreadInput \<Rightarrow> Database \<Rightarrow> bool" where
  "committed actor s inp db \<longleftrightarrow> keys_ok db \<and>
     same_thread actor inp (findThread s (ti_threadId inp) db) (findMessage (ti_messageId inp) db)"

lemma committed_thread:
  assumes "committed actor s inp db"
  obtains t m where "findThread s (ti_threadId inp) db = Some t" "findMessage (ti_messageId inp) db = Some m"
    "same_thread actor inp (Some t) (Some m)" "m_threadId m = ti_threadId inp"
  using assms by (auto simp: committed_def same_thread_def split: option.splits)

text \<open>A thread may be touched in its status and time, as far as its identity and anchor stay.\<close>

lemma committed_update:
  assumes "committed actor s inp db" and "keys_ok db'"
    and "db_threads db' = map (\<lambda>t. if P t then f t else t) (db_threads db) @ ts" and "db_messages db' = db_messages db @ ms"
    and "\<And>t. t_id (f t) = t_id t \<and> t_documentId (f t) = t_documentId t \<and> t_createdByUserId (f t) = t_createdByUserId t
      \<and> t_startItemId (f t) = t_startItemId t \<and> t_startSide (f t) = t_startSide t \<and> t_endItemId (f t) = t_endItemId t
      \<and> t_endSide (f t) = t_endSide t \<and> t_quotedText (f t) = t_quotedText t"
  shows "committed actor s inp db'"
proof -
  obtain t m where tm: "findThread s (ti_threadId inp) db = Some t" "findMessage (ti_messageId inp) db = Some m"
    "same_thread actor inp (Some t) (Some m)"
    using committed_thread [OF assms(1)] by blast
  have "findThread s (ti_threadId inp) db' = Some (if P t then f t else t)"
    using tm(1) assms(3,5) by (simp add: findThread_def find_append find_update_pred)
  moreover have "findMessage (ti_messageId inp) db' = Some m"
    using tm(2) assms(4) by (simp add: findMessage_def find_append)
  ultimately show ?thesis using assms(2,5) tm(3) by (auto simp: committed_def same_thread_def)
qed

lemma committed_same:
  assumes "committed actor s inp db" and "keys_ok db'"
    and "db_threads db' = db_threads db @ ts" and "db_messages db' = db_messages db @ ms"
  shows "committed actor s inp db'"
  using committed_update [OF assms(1,2), where P = "\<lambda>_. False" and f = id] assms(3,4) by simp

lemma change_committed:
  assumes "change actor' env dbA db db'" and c: "committed actor s inp db"
    and "findById s db' \<noteq> None" and "uuid (ti_threadId inp) = ti_threadId inp"
  shows "committed actor s inp db'"
proof -
  have keys: "keys_ok db'" using change_keys [OF assms(1)] c by (simp add: committed_def)
  show ?thesis using assms(1)
  proof (cases rule: change.cases)
    case (deleted i doc role)
    then have ne: "uuid s \<noteq> uuid i"
      using assms(3) by (auto simp: findById_def deleteById_def Let_def find_filter_key [where key = d_id])
    obtain t m where tm: "findThread s (ti_threadId inp) db = Some t" "findMessage (ti_messageId inp) db = Some m"
      "same_thread actor inp (Some t) (Some m)" "m_threadId m = ti_threadId inp"
      using committed_thread [OF c] by blast
    have t: "t \<in> set (db_threads db)" "t_documentId t = uuid s" "t_id t = ti_threadId inp"
      using tm(1) assms(4) by (auto simp: findThread_def dest!: find_sound)
    have inj: "inj_on t_id (set (db_threads db))" using c by (simp add: committed_def keys_ok_def distinct_map)
    have neq: "t_id x \<noteq> t_id t" if x: "x \<in> set (db_threads db)" "t_documentId x = uuid i" for x
      using inj_onD [OF inj _ x(1) t(1)] x(2) t(2) ne by auto
    have "m_threadId m \<notin> t_id ` {x \<in> set (db_threads db). t_documentId x = uuid i}"
      using neq tm(4) t(3) by fastforce
    then have "findMessage (ti_messageId inp) db' = Some m"
      using tm(2) deleted(1) by (simp add: findMessage_def deleteById_def Let_def find_filter_kept)
    moreover have "findThread s (ti_threadId inp) db' = Some t"
      using tm(1) deleted(1) t(2) ne by (simp add: findThread_def deleteById_def Let_def find_filter_kept)
    ultimately show ?thesis using keys tm(3) by (simp add: committed_def)
  next
    case (replied i doc role t th mi b db1)
    note ins = insertMessage_shape [OF replied(5)]
    show ?thesis
      by (rule committed_update [OF c keys, where P = "\<lambda>x. t_id x = t_id th" and f = "\<lambda>x. x\<lparr>t_updatedAt := env_now env\<rparr>"])
        (simp_all add: replied(1) ins)
  next
    case (status_set i doc role t th meta st)
    show ?thesis
      by (rule committed_update [OF c keys, where P = "\<lambda>x. t_documentId x = uuid i \<and> t_id x = t_id th"
            and f = "\<lambda>x. x\<lparr>t_status := st, t_updatedAt := env_now env\<rparr>"])
        (simp_all add: status_set(1))
  qed (rule committed_same [OF c keys]; auto dest!: shapes)+
qed

lemma created_committed:
  assumes "keys_ok db" and "keys_ok db1" and "uuid (ti_threadId inp) = ti_threadId inp"
    and "insertThread (thread_row actor s inp now) db = (dbt, True)"
    and "insertMessage (message_row actor (ti_messageId inp) (ti_threadId inp) (ti_body inp) now) dbt = (dbm, True)"
    and "db_threads db1 = db_threads dbm" and "db_messages db1 = db_messages dbm"
  shows "committed actor s inp db1"
proof -
  note sh = insertThread_shape [OF assms(4)] insertMessage_shape [OF assms(5)]
  have "find (\<lambda>t. t_documentId t = uuid s \<and> t_id t = uuid (ti_threadId inp)) (db_threads db) = None"
    using sh(1) by (auto simp: findThreadById_def find_None_iff thread_row_def)
  moreover have "find (\<lambda>m. m_id m = uuid (ti_messageId inp)) (db_messages db) = None"
    using sh by (auto simp: findMessage_def find_None_iff message_row_def)
  ultimately have "findThread s (ti_threadId inp) db1 = Some (thread_row actor s inp now)"
    "findMessage (ti_messageId inp) db1
      = Some (message_row actor (ti_messageId inp) (ti_threadId inp) (ti_body inp) now)"
    using sh assms(6,7) by (simp_all add: findThread_def findMessage_def find_append thread_row_def message_row_def)
  then show ?thesis using assms(2,3) by (simp add: committed_def same_thread_def thread_row_def message_row_def)
qed


lemma committed_answer: "Inr (CommittedR t b) = answer (\<lambda>(x, dup). CommittedR x dup) r \<Longrightarrow> r = Inr (t, b)"
  by (cases r) (auto simp: answer_def)

text \<open>
  A retry is safe: after a comment thread was created, and any further requests of others, sending the
  same request again answers with the same id as a duplicate and changes nothing, as long as the document
  exists and the actor may comment. (The ids are in canonical case.)
\<close>

theorem retry_is_duplicate:
  assumes "keys_ok db" and "parse_thread L x = Some inp" and "uuid (ti_threadId inp) = ti_threadId inp" and "uuid s = s"
    and "serve L actor (CreateThread (Some (JStr s)) x) env dbA db = (db1, Inr (CommittedR t False))"
    and "never_generates s calls" and "role_on actor s (history L calls db1) = Some role"
    and "role \<in> set (CAPABILITIES CommentOn)"
  shows "t = ti_threadId inp \<and> serve L actor (CreateThread (Some (JStr s)) x) env' (history L calls db1) (history L calls db1)
    = (history L calls db1, Inr (CommittedR t True))"
proof -
  let ?db = "history L calls db1"
  from assms(5) have "createThread L actor (Some (JStr s)) x env dbA db = (db1, Inr (t, False))"
    by (auto simp: serve_def apsnd_answer dest!: committed_answer)
  from thread_effect [OF this] assms(2) obtain doc role' dbt dbm meta where
    e: "lib_uuid L s" "uuid_regex s" "requireAccess actor s CommentOn dbA = Inr (doc, role')"
    "insertThread (thread_row actor s inp (env_now env)) db = (dbt, True)"
    "insertMessage (message_row actor (ti_messageId inp) (ti_threadId inp) (ti_body inp) (env_now env)) dbt = (dbm, True)"
    "db1 = audit meta actor CommentCreated ''document_comment'' (ti_threadId inp) (d_organizationId doc) dbm"
    "t = ti_threadId inp"
    by auto
  have "keys_ok db1" using change_keys [OF change.commented [OF e(3-5)] assms(1)] e(6) by simp
  then have c1: "committed actor s inp db1" using created_committed [OF assms(1) _ assms(3) e(4,5)] e(6) by simp
  obtain d where d: "findById s ?db = Some d"
    using assms(7) by (auto simp: role_on_def split: option.splits)
  have c: "committed actor s inp ?db"
  proof (rule history_keeps [where s = s and Q = "committed actor s inp"])
    fix a env dbA db db' assume "change a env dbA db db'" "committed actor s inp db" "findById s db' \<noteq> None"
    then show "committed actor s inp db'" using change_committed assms(3) by blast
  next
    fix db db1 assume np: "new_principal db db1" and cc: "committed actor s inp db"
    have "keys_ok db1" using cc principal_frame [OF np] by (auto simp: committed_def intro: keys_ok_cong)
    then show "committed actor s inp db1" using committed_same [OF cc, of db1 "[]" "[]"] principal_frame [OF np] by simp
  qed (use c1 assms(6) d in simp_all)
  then obtain th m where tm: "findThread s (ti_threadId inp) ?db = Some th" "findMessage (ti_messageId inp) ?db = Some m"
    "same_thread actor inp (Some th) (Some m)"
    using committed_thread by blast
  have th: "t_documentId th = s" "t_id th = ti_threadId inp" "th \<in> set (db_threads ?db)"
    using tm(1) assms(3,4) by (auto simp: findThread_def dest!: find_sound)
  have "distinct (map t_id (db_threads ?db))" using c by (simp add: committed_def keys_ok_def)
  then have byId: "findThreadById (ti_threadId inp) ?db = Some th"
    using unique_row [where key = t_id, OF _ th(3)] th(2) assms(3) by (simp add: findThreadById_def)
  have acc: "requireAccess actor s Read ?db = Inr (d, role)"
    using assms(7,8) d by (auto simp: requireAccess_Inr CAPABILITIES_def)
  have "requireComment role = Inr ()" using assms(8) by (auto simp: requireComment_def CAPABILITIES_def)
  then have "createThread L actor (Some (JStr s)) x env' ?db ?db = (?db, Inr (ti_threadId inp, True))"
    using e(1,2) assms(2) byId th(1) acc tm
    by (simp add: createThread_def validateDocumentId_def parse_uuid_def getDocument_def parseDocumentId_def)
  then show ?thesis using e(7) by (simp add: serve_def answer_def)
qed


text \<open>The ids must be spelled alike: a retry under another spelling of the document's id is refused.\<close>

lemma other_spelling_conflicts:
  assumes "lib_uuid L s" and "parse_thread L x = Some inp" and "findThreadById (ti_threadId inp) db = Some t"
    and "t_documentId t = uuid s" and "uuid s \<noteq> s"
  shows "createThread L actor (Some (JStr s)) x env db db = (db, Inl (Conflict, ''Comment ID already exists''))"
  using assms by (simp add: createThread_def validateDocumentId_def parse_uuid_def guardE_def)

section \<open>The hypotheses at work\<close>

text \<open>Alice owns a document, Bob has a \<open>VIEWER\<close> grant on it, Carol nothing; one suggestion is accepted.\<close>

definition sample_doc :: string where "sample_doc = ''dddddddd-dddd-4ddd-8ddd-dddddddddddd''"

definition sample_actor :: "char \<Rightarrow> ActorContext" where
  "sample_actor c = \<lparr>ac_userId = replicate 8 c, ac_clerkUserId = [c], ac_organization = None\<rparr>"

definition sample_lib :: Libraries where
  "sample_lib = \<lparr>lib_uuid = uuid_regex, lib_email = (\<lambda>_. True), lib_coerce = (\<lambda>_. None), lib_users = (\<lambda>_. None),
     lib_ilike = (\<lambda>_ _. True)\<rparr>"

definition sample_env :: Env where
  "sample_env = \<lparr>env_now = 7, env_id = ''n'', env_userId = ''m''\<rparr>"

definition sample_row :: "int \<Rightarrow> json option \<Rightarrow> nat \<Rightarrow> DocumentRow" where
  "sample_row v c t = \<lparr>d_id = sample_doc, d_title = ''T'', d_ownerUserId = replicate 8 CHR ''a'', d_organizationId = None,
     d_initialContent = None, d_content = c, d_contentVersion = v, d_metadataVersion = 1, d_createdAt = 0, d_updatedAt = t\<rparr>"

definition sample_suggestion :: SuggestionRow where
  "sample_suggestion = \<lparr>s_id = ''s'', s_documentId = sample_doc, s_createdByUserId = replicate 8 CHR ''b'',
     s_startItemId = ''1:1'', s_startSide = ''before'', s_endItemId = ''1:1'', s_endSide = ''after'',
     s_quotedText = [], s_proposedText = ''x'', s_status = Accepted, s_resolvedByUserId = None, s_resolvedAt = None,
     s_createdAt = 0, s_updatedAt = 0\<rparr>"

definition sample_db :: "DocumentRow \<Rightarrow> Database" where
  "sample_db d = \<lparr>db_users = [\<lparr>u_id = replicate 8 CHR ''a'', u_clerkUserId = ''a''\<rparr>, \<lparr>u_id = replicate 8 CHR ''b'', u_clerkUserId = ''b''\<rparr>],
     db_documents = [d],
     db_grants = [\<lparr>g_documentId = sample_doc, g_userId = replicate 8 CHR ''b'', g_role = VIEWER, g_grantedByUserId = None\<rparr>],
     db_threads = [], db_messages = [], db_suggestions = [sample_suggestion], db_audit = []\<rparr>"

abbreviation db_0 :: Database where "db_0 \<equiv> sample_db (sample_row 1 None 0)"

definition sample_content :: json where
  "sample_content = JObj [(''v'', JNum 1), (''doc'', JNull)]"

definition sample_save :: Request where
  "sample_save = SaveContent (Some (JStr sample_doc)) (Some sample_content) (Some (JNum 1))"

abbreviation db_1 :: Database where "db_1 \<equiv> sample_db (sample_row 2 (Some sample_content) 7)"

lemma content_valid: "validate_content (Some sample_content) = Inr sample_content"
proof -
  have "is_envelope sample_content" "length (json_stringify sample_content) = 18" by code_simp+
  then show ?thesis by (simp add: validate_content_def MAX_CONTENT_JSON_BYTES_def)
qed

lemma sample_access:
  "parseDocumentId (Some (JStr sample_doc)) = Inr sample_doc"
  "requireAccess (sample_actor CHR ''a'') sample_doc EditContent db_0 = Inr (sample_row 1 None 0, OWNER)"
  "parse_version (Some (JNum 1)) = Some 1"
  "updateContentConditional sample_doc 1 sample_content 7 db_0 = Some (db_1, Some (sample_row 2 (Some sample_content) 7))"
  by code_simp+

lemma sample_saved: "serve sample_lib (sample_actor CHR ''a'') sample_save sample_env db_0 db_0 = (db_1, Inr (VersionR 2))"
  using sample_access content_valid
  by (simp add: serve_def sample_save_def saveDocumentContent_def sample_env_def answer_def) (simp add: sample_row_def)

lemma sample_keys: "keys_ok db_0" "db_1 \<noteq> db_0"
  by (simp_all add: keys_ok_def sample_db_def sample_row_def)


theorem only_with_capability_witness:
  "\<exists>s role. entitled (sample_actor CHR ''a'') s role db_0 \<and> role \<in> {OWNER, EDITOR}"
  using only_with_capability [OF sample_saved sample_keys(2)] by (auto simp: sample_save_def may_write_def)

theorem audit_complete_witness:
  "audited (sample_actor CHR ''a'') db_0 db_1 \<or> db_audit db_1 = db_audit db_0"
  using audit_complete [OF sample_saved] by blast

theorem no_lost_update_witness:
  "\<exists>e. snd (serve sample_lib (sample_actor CHR ''b'') sample_save sample_env db_1
      (history sample_lib [(sample_actor CHR ''c'', DeleteDocument (Some (JStr sample_doc)), sample_env, db_1)] db_1)) = Inl e"
proof -
  have "never_generates sample_doc [(sample_actor CHR ''c'', DeleteDocument (Some (JStr sample_doc)), sample_env, db_1)]"
    by code_simp
  from no_lost_update [OF sample_keys(1) sample_saved [unfolded sample_save_def] this] show ?thesis
    unfolding sample_save_def by blast
qed

theorem resolution_is_final_witness:
  "findSuggestionById ''s'' (history sample_lib [(sample_actor CHR ''a'', sample_save, sample_env, db_0)] db_0) = Some sample_suggestion"
proof (rule resolution_is_final)
  show "findSuggestionById ''s'' db_0 = Some sample_suggestion" by code_simp
  show "s_status sample_suggestion \<noteq> Proposed" by (simp add: sample_suggestion_def)
  show "never_generates (s_documentId sample_suggestion) [(sample_actor CHR ''a'', sample_save, sample_env, db_0)]"
    by code_simp
  have "history sample_lib [(sample_actor CHR ''a'', sample_save, sample_env, db_0)] db_0 = db_1"
    using sample_saved by (simp add: history_def call_def)
  moreover have "findById (s_documentId sample_suggestion) db_1 = Some (sample_row 2 (Some sample_content) 7)" by code_simp
  ultimately show "findById (s_documentId sample_suggestion)
      (history sample_lib [(sample_actor CHR ''a'', sample_save, sample_env, db_0)] db_0)
    = Some (sample_row 2 (Some sample_content) 7)" by (simp only:)
qed

theorem access_list_sound_witness:
  "acl_ok (fst (serve sample_lib (sample_actor CHR ''a'') sample_save sample_env db_0 db_0))"
proof (rule access_list_sound)
  show "acl_ok db_0" by code_simp
  show "owners_agree db_0 db_0" by code_simp
qed

definition sample_list :: ListInput where
  "sample_list = \<lparr>li_search = None, li_page = None, li_pageSize = None, li_offset = None, li_scope = Some (JStr ''shared'')\<rparr>"

theorem listing_follows_policy_witness:
  "resolveEffectiveRole (sample_actor CHR ''b'') (sample_row 1 None 0)
     (map_option g_role (findGrant sample_doc (replicate 8 CHR ''b'') db_0)) = Some VIEWER"
proof -
  have "listDocuments sample_lib (sample_actor CHR ''b'') sample_list db_0 = Inr ([(sample_row 1 None 0, VIEWER)], False)"
    by code_simp
  moreover have "canonical_actor (sample_actor CHR ''b'')" by code_simp
  ultimately show ?thesis using listing_follows_policy by (fastforce simp: sample_row_def sample_actor_def)
qed

theorem denied_like_missing_witness:
  "serve sample_lib (sample_actor CHR ''c'') sample_save sample_env db_0 db_0
     = (db_0, snd (serve sample_lib (sample_actor CHR ''c'') sample_save sample_env
         (fst (deleteById sample_doc db_0)) (fst (deleteById sample_doc db_0))))"
proof (rule denied_like_missing)
  show "role_on (sample_actor CHR ''c'') sample_doc db_0 = None" by code_simp
  show "target sample_save = Some (Some (JStr sample_doc), EditContent)" by (simp add: sample_save_def)
  show "uuid sample_doc = sample_doc \<or> (\<forall>i x. sample_save \<noteq> CreateThread i x \<and> sample_save \<noteq> CreateSuggestion i x)"
    by (simp add: sample_save_def)
qed (rule sample_keys(1))

definition sample_thread :: json where
  "sample_thread = JObj [(''threadId'', JStr sample_doc), (''messageId'', JStr sample_doc),
     (''anchor'', JObj [(''start'', JObj [(''itemId'', JStr ''1:1''), (''side'', JStr ''before'')]),
        (''end'', JObj [(''itemId'', JStr ''1:2''), (''side'', JStr ''after'')])]),
     (''quote'', JStr ''q''), (''body'', JStr '' hi '')]"

definition sample_input :: ThreadInput where
  "sample_input = \<lparr>ti_threadId = sample_doc, ti_messageId = sample_doc,
     ti_anchor = \<lparr>a_startItemId = ''1:1'', a_startSide = ''before'', a_endItemId = ''1:2'', a_endSide = ''after''\<rparr>,
     ti_quote = ''q'', ti_body = ''hi''\<rparr>"

lemma sample_itemIds:
  "parse_itemId (Some (JStr ''1:1'')) = Some ''1:1''" "parse_itemId (Some (JStr ''1:2'')) = Some ''1:2''"
  by (simp_all add: parse_itemId_def positive_dec_def is_digit_def dec_val_def digit_val_def)

lemma sample_anchor:
  "parse_anchor (field ''anchor'' (Some sample_thread)) = Some (ti_anchor sample_input)"
  by (simp add: parse_anchor_def field_def sample_thread_def sample_itemIds parse_side_def sample_input_def)

lemma sample_fields:
  "parse_uuid sample_lib (field ''threadId'' (Some sample_thread)) = Some sample_doc"
  "parse_uuid sample_lib (field ''messageId'' (Some sample_thread)) = Some sample_doc"
  "parse_text 0 1000 (field ''quote'' (Some sample_thread)) = Some ''q''"
  "parse_body (field ''body'' (Some sample_thread)) = Some ''hi''"
  by code_simp+

lemma sample_parsed: "parse_thread sample_lib (Some sample_thread) = Some sample_input"
  by (simp add: parse_thread_def sample_anchor sample_fields) (simp add: sample_input_def)

definition sample_commented :: Database where
  "sample_commented =
     (let a = sample_actor CHR ''a'';
          db1 = fst (insertThread (thread_row a sample_doc sample_input 7) db_0);
          db2 = fst (insertMessage (message_row a sample_doc sample_doc ''hi'' 7) db1)
      in audit [(''documentId'', JStr sample_doc)] a CommentCreated ''document_comment'' sample_doc None db2)"

lemma sample_steps:
  "validateDocumentId sample_lib (Some (JStr sample_doc)) = Inr sample_doc"
  "findThreadById sample_doc db_0 = None" "findThread sample_doc sample_doc db_0 = None"
  "getDocument (sample_actor CHR ''a'') (Some (JStr sample_doc)) db_0 = Inr (sample_row 1 None 0, OWNER)"
  "requireComment OWNER = Inr ()" "env_now sample_env = 7" "ti_threadId sample_input = sample_doc"
  "ti_messageId sample_input = sample_doc" "ti_body sample_input = ''hi''" "d_organizationId (sample_row 1 None 0) = None"
  by code_simp+

lemma sample_inserts:
  "snd (insertThread (thread_row (sample_actor CHR ''a'') sample_doc sample_input 7) db_0) = True"
  "snd (insertMessage (message_row (sample_actor CHR ''a'') sample_doc sample_doc ''hi'' 7)
     (fst (insertThread (thread_row (sample_actor CHR ''a'') sample_doc sample_input 7) db_0))) = True"
  by code_simp+

lemma sample_created:
  "serve sample_lib (sample_actor CHR ''a'') (CreateThread (Some (JStr sample_doc)) (Some sample_thread)) sample_env db_0 db_0
     = (sample_commented, Inr (CommittedR sample_doc False))"
  using sample_inserts
  by (auto simp: serve_def createThread_def sample_parsed sample_steps answer_def sample_commented_def Let_def
      split: prod.splits)

theorem retry_is_duplicate_witness:
  "serve sample_lib (sample_actor CHR ''a'') (CreateThread (Some (JStr sample_doc)) (Some sample_thread)) sample_env
     sample_commented sample_commented = (sample_commented, Inr (CommittedR sample_doc True))"
proof -
  have "serve sample_lib (sample_actor CHR ''a'') (CreateThread (Some (JStr sample_doc)) (Some sample_thread))
      sample_env db_0 db_0 = (sample_commented, Inr (CommittedR sample_doc False))"
    by (rule sample_created)
  moreover have "role_on (sample_actor CHR ''a'') sample_doc (history sample_lib [] sample_commented) = Some OWNER"
    by code_simp
  moreover have "uuid (ti_threadId sample_input) = ti_threadId sample_input" "uuid sample_doc = sample_doc"
    "never_generates sample_doc []" "OWNER \<in> set (CAPABILITIES CommentOn)"
    by code_simp+
  ultimately show ?thesis
    using retry_is_duplicate [OF sample_keys(1) sample_parsed] by (metis history_def foldl_Nil)
qed

end
