(* ===== verification/Autosave.thy ===== *)
theory Autosave
  imports Save_Status Server_Guarantees
begin

text \<open>
  Saving without the CRDT path: \<^verbatim>\<open>lib/collaboration/provider.tsx\<close> (debounced saves of the whole document with an
  expected version), \<^verbatim>\<open>lib/collaboration/content.ts\<close> (the stored envelope) and the route that takes a save,
  \<^verbatim>\<open>app/api/documents/[documentId]/content/route.ts\<close>, joined to the services by JSON text. A document of the
  editor is a JSON value; it is paired with the object's identity, which the code compares with \<open>===\<close>.
\<close>

section \<open>The stored envelope\<close>

definition content_envelope :: "json \<Rightarrow> json" where
  "content_envelope doc = JObj [(''v'', JNum 1), (''doc'', doc)]"

definition serializeDocumentContent :: "json \<Rightarrow> string" where
  "serializeDocumentContent doc = json_stringify (content_envelope doc)"

definition isEnvelope :: "json \<Rightarrow> bool" where
  "isEnvelope value =
     (case value of JObj kvs \<Rightarrow> map_of kvs ''v'' = Some (JNum 1) \<and> map_of kvs ''doc'' \<noteq> None | _ \<Rightarrow> False)"

definition envelope_doc :: "json \<Rightarrow> json" where
  "envelope_doc value = (case value of JObj kvs \<Rightarrow> the (map_of kvs ''doc'') | _ \<Rightarrow> JNull)"

definition parseDocumentContent :: "json option \<Rightarrow> json \<Rightarrow> json" where
  "parseDocumentContent raw fallback =
     (case raw of
        None \<Rightarrow> fallback
      | Some (JStr s) \<Rightarrow>
          (case json_parse s of
             None \<Rightarrow> fallback
           | Some parsed \<Rightarrow> if isEnvelope parsed then envelope_doc parsed else fallback)
      | Some value \<Rightarrow> if isEnvelope value then envelope_doc value else fallback)"

section \<open>The route\<close>

record Reply =
  rp_status :: nat
  rp_body :: string

definition error_reply :: "nat \<Rightarrow> string \<Rightarrow> string \<Rightarrow> Reply" where
  "error_reply st kind message =
     \<lparr>rp_status = st, rp_body = json_stringify (JObj [(''error'', JObj [(''type'', JStr kind), (''message'', JStr message)])])\<rparr>"

definition save_error :: "error_kind \<Rightarrow> Reply" where
  "save_error kind =
     (case kind of
        Unauthenticated \<Rightarrow> error_reply 401 ''unauthenticated'' ''Sign in required''
      | Validation \<Rightarrow> error_reply 400 ''validation'' ''Invalid save payload''
      | NotFound \<Rightarrow> error_reply 404 ''not_found'' ''Document not found''
      | Forbidden \<Rightarrow> error_reply 403 ''forbidden'' ''Not allowed''
      | Conflict \<Rightarrow> error_reply 409 ''conflict'' ''Content version conflict''
      | Dependency \<Rightarrow> error_reply 503 ''dependency'' ''Database unavailable''
      | Unknown \<Rightarrow> error_reply 500 ''unknown'' ''Something went wrong'')"

text \<open>\<open>saveSchema\<close>: other fields of the body are dropped, those of the content pass.\<close>

definition saveSchema :: "json \<Rightarrow> (json \<times> int) option" where
  "saveSchema body =
     (case body of
        JObj kvs \<Rightarrow>
          (case (map_of kvs ''content'', parse_version (map_of kvs ''expectedContentVersion'')) of
             (Some (JObj content), Some v) \<Rightarrow>
               if map_of content ''v'' = Some (JNum 1) then Some (JObj content, v) else None
           | _ \<Rightarrow> None)
      | _ \<Rightarrow> None)"

definition post_content ::
  "DomainError + ActorContext \<Rightarrow> string \<Rightarrow> string \<Rightarrow> Env \<Rightarrow> Database \<Rightarrow> Database \<Rightarrow> Database \<times> Reply" where
  "post_content who documentId body env dbA db =
     (case json_parse body of
        None \<Rightarrow> (db, error_reply 400 ''validation'' ''Invalid JSON body'')
      | Some parsed \<Rightarrow>
          (case saveSchema parsed of
             None \<Rightarrow> (db, error_reply 400 ''validation'' ''Invalid save payload'')
           | Some (content, v) \<Rightarrow>
               (case who of
                  Inl e \<Rightarrow> (db, save_error (fst e))
                | Inr actor \<Rightarrow>
                    (case saveDocumentContent actor (Some (JStr documentId)) (Some content) (Some (JNum v)) env dbA db of
                       (db1, Inl e) \<Rightarrow> (db1, save_error (fst e))
                     | (db1, Inr version) \<Rightarrow>
                         (db1, \<lparr>rp_status = 200, rp_body = json_stringify (JObj [(''contentVersion'', JNum version)])\<rparr>)))))"

section \<open>The page\<close>

type_synonym Payload = "nat \<times> json"

datatype SaveError = Modified_elsewhere | No_permission | Save_failed

record Autosave =
  as_status :: SaveStatus
  as_saveError :: "SaveError option"
  as_hasConflict :: bool
  as_version :: "json option"
  as_pending :: "Payload option"
  as_inFlight :: "(Payload \<times> string) option"
  as_disposed :: bool
  as_timer :: bool

definition new_autosave :: "int \<Rightarrow> Autosave" where
  "new_autosave v =
     \<lparr>as_status = IdleStatus, as_saveError = None, as_hasConflict = False, as_version = Some (JNum v), as_pending = None,
      as_inFlight = None, as_disposed = False, as_timer = False\<rparr>"

text \<open>The body; a field that is \<open>undefined\<close> is not printed.\<close>

definition save_request :: "Payload \<Rightarrow> json option \<Rightarrow> string" where
  "save_request payload version =
     json_stringify (JObj ((''content'', the (json_parse (serializeDocumentContent (snd payload)))) #
       (case version of None \<Rightarrow> [] | Some v \<Rightarrow> [(''expectedContentVersion'', v)])))"

definition flush_content :: "Autosave \<Rightarrow> Autosave" where
  "flush_content t0 =
     (let t = t0\<lparr>as_timer := False\<rparr>
      in if as_hasConflict t then t
         else case as_pending t of
           None \<Rightarrow> t
         | Some payload \<Rightarrow>
             if as_inFlight t \<noteq> None then t
             else t\<lparr>as_inFlight := Some (payload, save_request payload (as_version t))\<rparr>)"

text \<open>The \<open>finally\<close> of a flush: what is still pending is tried again after two seconds.\<close>

definition retry_later :: "Autosave \<Rightarrow> Autosave" where
  "retry_later t0 =
     (let t = t0\<lparr>as_inFlight := None\<rparr>
      in if \<not> as_disposed t \<and> as_pending t \<noteq> None \<and> \<not> as_hasConflict t \<and> \<not> as_timer t
         then t\<lparr>as_timer := True\<rparr> else t)"

definition save_failed :: "Autosave \<Rightarrow> Autosave" where
  "save_failed t = t\<lparr>as_status := ErrorStatus, as_saveError := Some Save_failed\<rparr>"

text \<open>\<open>response.json()\<close> and the \<open>contentVersion\<close> in it; \<open>None\<close> when one of them throws.\<close>

definition reply_version :: "Reply \<Rightarrow> json option option" where
  "reply_version r =
     (case json_parse (rp_body r) of
        None \<Rightarrow> None
      | Some JNull \<Rightarrow> None
      | Some (JObj kvs) \<Rightarrow> Some (map_of kvs ''contentVersion'')
      | Some _ \<Rightarrow> Some None)"

definition on_reply :: "Payload \<Rightarrow> Reply option \<Rightarrow> Autosave \<Rightarrow> Autosave" where
  "on_reply payload response t =
     (case response of
        None \<Rightarrow> save_failed t
      | Some r \<Rightarrow>
          if 200 \<le> rp_status r \<and> rp_status r < 300 then
            (case reply_version r of
               None \<Rightarrow> save_failed t
             | Some v \<Rightarrow>
                 (let t1 = t\<lparr>as_version := v, as_pending := (if as_pending t = Some payload then None else as_pending t)\<rparr>
                  in t1\<lparr>as_saveError := None, as_status := (if as_pending t1 = None then SavedStatus else SavingStatus)\<rparr>))
          else if rp_status r = 409 then
            t\<lparr>as_hasConflict := True, as_pending := None, as_status := ConflictStatus, as_saveError := Some Modified_elsewhere\<rparr>
          else if rp_status r \<in> {401, 403, 404} then
            t\<lparr>as_hasConflict := True, as_pending := None, as_status := ErrorStatus, as_saveError := Some No_permission\<rparr>
          else save_failed t)"

definition saveContent :: "bool \<Rightarrow> bool \<Rightarrow> Payload \<Rightarrow> Autosave \<Rightarrow> Autosave" where
  "saveContent canEdit crdt payload t =
     (if \<not> canEdit \<or> as_hasConflict t \<or> crdt then t
      else t\<lparr>as_pending := (if snd payload = JNull then None else Some payload),
             as_status := (if as_status t = ConflictStatus then as_status t else SavingStatus), as_timer := True\<rparr>)"

text \<open>What happens to a mounted page; \<open>Typed\<close> carries whether the bridge is in CRDT mode.\<close>

datatype PageEvent = Typed bool Payload | TimerFired | Flushed | BeforeUnload | Answered "Reply option" | Unmounted

definition autosave_step :: "bool \<Rightarrow> PageEvent \<Rightarrow> Autosave \<Rightarrow> Autosave" where
  "autosave_step canEdit e t =
     (case e of
        Typed crdt payload \<Rightarrow> saveContent canEdit crdt payload t
      | TimerFired \<Rightarrow> if as_timer t then flush_content (t\<lparr>as_timer := False\<rparr>) else t
      | Flushed \<Rightarrow> flush_content t
      | BeforeUnload \<Rightarrow> if as_pending t \<noteq> None then flush_content t else t
      | Answered response \<Rightarrow>
          (case as_inFlight t of
             None \<Rightarrow> t
           | Some (payload, _) \<Rightarrow> retry_later (on_reply payload response t))
      | Unmounted \<Rightarrow> t\<lparr>as_disposed := True, as_timer := False\<rparr>)"

section \<open>Page and server\<close>

record EditSystem =
  es_page :: Autosave
  es_db :: Database
  es_reply :: "Reply option"
  es_last :: "json option"

text \<open>
  The request of the page may be carried out at any moment and its answer may be lost or come later. \<open>es_last\<close>
  remembers the last document the page took over from the editor. A request whose answer the page has given up on may
  still be carried out later: to the page it is then a call like that of any other client (\<open>late_request\<close> below), so it
  is an \<open>Other\<close> event.
\<close>

datatype SystemEvent =
    Page PageEvent | Processed "DomainError + ActorContext" Env Database | Delivered | Lost | Other Call

definition system_step :: "Libraries \<Rightarrow> bool \<Rightarrow> string \<Rightarrow> SystemEvent \<Rightarrow> EditSystem \<Rightarrow> EditSystem" where
  "system_step L canEdit documentId e s =
     (case e of
        Page pe \<Rightarrow>
          s\<lparr>es_page := autosave_step canEdit pe (es_page s),
            es_last :=
              (case pe of
                 Typed crdt payload \<Rightarrow>
                   if canEdit \<and> \<not> as_hasConflict (es_page s) \<and> \<not> crdt then Some (snd payload) else es_last s
               | _ \<Rightarrow> es_last s)\<rparr>
      | Processed who env dbA \<Rightarrow>
          (case (as_inFlight (es_page s), es_reply s) of
             (Some (payload, body), None) \<Rightarrow>
               (case post_content who documentId body env dbA (es_db s) of
                  (db1, r) \<Rightarrow> s\<lparr>es_db := db1, es_reply := Some r\<rparr>)
           | _ \<Rightarrow> s)
      | Delivered \<Rightarrow>
          (case es_reply s of
             None \<Rightarrow> s
           | Some r \<Rightarrow> s\<lparr>es_page := autosave_step canEdit (Answered (Some r)) (es_page s), es_reply := None\<rparr>)
      | Lost \<Rightarrow> s\<lparr>es_page := autosave_step canEdit (Answered None) (es_page s), es_reply := None\<rparr>
      | Other c \<Rightarrow> s\<lparr>es_db := history L [c] (es_db s)\<rparr>)"

text \<open>The editor hands over documents; an answer comes through the network; no other request takes the document's id.\<close>

definition edit_ok :: "Payload \<Rightarrow> bool" where
  "edit_ok payload \<longleftrightarrow> snd payload \<noteq> JNull \<and> json_wf (snd payload)"

definition event_ok :: "string \<Rightarrow> SystemEvent \<Rightarrow> bool" where
  "event_ok documentId e =
     (case e of
        Page (Typed _ payload) \<Rightarrow> edit_ok payload
      | Page (Answered _) \<Rightarrow> False
      | Other c \<Rightarrow> never_generates documentId [c]
      | _ \<Rightarrow> True)"

inductive autosave_reaches :: "Libraries \<Rightarrow> bool \<Rightarrow> string \<Rightarrow> EditSystem \<Rightarrow> EditSystem \<Rightarrow> bool" for L canEdit documentId s0 where
  start: "autosave_reaches L canEdit documentId s0 s0"
| step: "autosave_reaches L canEdit documentId s0 (system_step L canEdit documentId e s)"
    if "autosave_reaches L canEdit documentId s0 s" and "event_ok documentId e"

definition loaded_page :: "int \<Rightarrow> Database \<Rightarrow> EditSystem" where
  "loaded_page v db = \<lparr>es_page = new_autosave v, es_db = db, es_reply = None, es_last = None\<rparr>"

section \<open>What a version holds\<close>

lemma envelope_wf: "json_wf doc \<Longrightarrow> json_wf (content_envelope doc)"
  by (simp add: content_envelope_def)

lemma envelope_parses: "json_wf doc \<Longrightarrow> json_parse (serializeDocumentContent doc) = Some (content_envelope doc)"
  by (simp add: serializeDocumentContent_def json_parse_stringify envelope_wf)

lemma content_roundtrip:
  "parseDocumentContent (Some (content_envelope doc)) fallback = doc"
  "json_wf doc \<Longrightarrow> parseDocumentContent (Some (JStr (serializeDocumentContent doc))) fallback = doc"
  by (simp_all add: parseDocumentContent_def envelope_parses) (simp_all add: content_envelope_def isEnvelope_def envelope_doc_def)

text \<open>The document is at least at version \<open>v\<close>, and at \<open>v\<close> it has this content.\<close>

definition stored_at :: "string \<Rightarrow> int \<Rightarrow> json \<Rightarrow> Database \<Rightarrow> bool" where
  "stored_at documentId v doc db \<longleftrightarrow>
     (\<forall>d. findById documentId db = Some d \<longrightarrow>
        v \<le> d_contentVersion d \<and> (d_contentVersion d = v \<longrightarrow> d_content d = Some (content_envelope doc)))"

lemma change_content:
  assumes "change actor env dbA db db'" and "findById s db' = Some d'" and "uuid s \<noteq> env_id env"
  shows "\<exists>d. findById s db = Some d \<and> d_contentVersion d \<le> d_contentVersion d'
    \<and> (d_contentVersion d = d_contentVersion d' \<longrightarrow> d_content d = d_content d')"
  using assms
proof (cases rule: change.cases)
  case (deleted i doc role)
  then show ?thesis using assms
    by (auto simp: findById_def deleteById_def Let_def find_filter_key [where key = d_id] split: if_splits)
qed (use assms in \<open>auto simp: findById_def find_append find_update [where key = d_id]
    dest!: shapes split: if_splits option.splits\<close>)

lemma stored_history:
  assumes "stored_at s v doc db" and "never_generates s [c]"
  shows "stored_at s v doc (history L [c] db)"
  unfolding stored_at_def
proof (intro allI impI)
  fix d' assume d': "findById s (history L [c] db) = Some d'"
  obtain db1 where db1: "new_principal db db1"
      "change (fst c) (fst (snd (snd c))) (snd (snd (snd c))) db1 (history L [c] db)"
    using call_changes [of db c L] by (auto simp: history_def)
  have "uuid s \<noteq> env_id (fst (snd (snd c)))" using assms(2) by (auto simp: never_generates_Cons)
  from change_content [OF db1(2) d' this] assms(1) principal_frame [OF db1(1)]
  show "v \<le> d_contentVersion d' \<and> (d_contentVersion d' = v \<longrightarrow> d_content d' = Some (content_envelope doc))"
    by (fastforce simp: stored_at_def findById_def)
qed

lemma stored_saved:
  assumes "distinct (map d_id (db_documents db))"
    and "updateContentConditional s v (content_envelope doc) now db = Some (db1, Some d)"
  shows "stored_at s (v + 1) doc db1"
proof -
  have "d_content d = Some (content_envelope doc)"
    using assms(2) by (auto simp: updateContentConditional_def update_rows_def split: if_splits)
  then show ?thesis using save_succeeded [OF assms] by (simp add: stored_at_def)
qed

section \<open>A processed save\<close>

lemma request_parses:
  assumes "json_wf (snd payload)" and "json_wf (JNum v)"
  shows "json_parse (save_request payload (Some (JNum v)))
    = Some (JObj [(''content'', content_envelope (snd payload)), (''expectedContentVersion'', JNum v)])"
  using assms json_parse_stringify [of "JObj [(''content'', content_envelope (snd payload)), (''expectedContentVersion'', JNum v)]"]
  by (simp add: save_request_def envelope_parses envelope_wf del: json_stringify.simps)

lemma saveSchema_request:
  "saveSchema (JObj [(''content'', content_envelope doc), (''expectedContentVersion'', JNum v)])
    = (if 1 \<le> v \<and> v < 2 ^ 53 then Some (content_envelope doc, v) else None)"
  by (simp add: saveSchema_def content_envelope_def parse_version_def)

lemma error_status: "\<not> (200 \<le> rp_status (save_error k) \<and> rp_status (save_error k) < 300)"
  by (cases k) (simp_all add: save_error_def error_reply_def)

text \<open>The versions of the database fit \<open>integer\<close>.\<close>

definition version_ok :: "int \<Rightarrow> bool" where
  "version_ok v \<longleftrightarrow> 1 \<le> v \<and> v \<le> INT4_MAX"

lemma version_ok_wf: "version_ok v \<Longrightarrow> json_wf (JNum v) \<and> v < 2 ^ 53"
  by (simp add: version_ok_def INT4_MAX_def)

lemma update_version_ok:
  "version_ok v \<Longrightarrow> updateContentConditional s v c now db = Some (db1, Some d) \<Longrightarrow> version_ok (v + 1)"
  by (auto simp: updateContentConditional_def version_ok_def split: if_splits prod.splits)

definition accepted :: "Reply \<Rightarrow> bool" where
  "accepted r \<longleftrightarrow> 200 \<le> rp_status r \<and> rp_status r < 300"

lemma processed_save:
  assumes "distinct (map d_id (db_documents db))" and "edit_ok payload" and "version_ok v"
    and "post_content who s (save_request payload (Some (JNum v))) env dbA db = (db1, r)" and "accepted r"
  shows "version_ok (v + 1) \<and> reply_version r = Some (Some (JNum (v + 1))) \<and> stored_at s (v + 1) (snd payload) db1"
proof -
  note vw = version_ok_wf [OF assms(3)]
  have "saveSchema (JObj [(''content'', content_envelope (snd payload)), (''expectedContentVersion'', JNum v)])
      = Some (content_envelope (snd payload), v)"
    using vw assms(3) by (simp add: saveSchema_request version_ok_def)
  moreover have "json_parse (save_request payload (Some (JNum v)))
      = Some (JObj [(''content'', content_envelope (snd payload)), (''expectedContentVersion'', JNum v)])"
    using request_parses assms(2) vw by (simp add: edit_ok_def)
  ultimately obtain actor n where save: "saveDocumentContent actor (Some (JStr s)) (Some (content_envelope (snd payload)))
      (Some (JNum v)) env dbA db = (db1, Inr n)"
    and r: "r = \<lparr>rp_status = 200, rp_body = json_stringify (JObj [(''contentVersion'', JNum n)])\<rparr>"
    using assms(4,5) error_status
    by (auto simp: post_content_def accepted_def split: sum.splits prod.splits)
  from save_effect [OF save] obtain d where
    up: "updateContentConditional s v (content_envelope (snd payload)) (env_now env) db = Some (db1, Some d)"
    and n: "n = d_contentVersion d"
    using vw assms(3) by (auto simp: parse_version_def version_ok_def validate_content_def split: if_splits)
  have ok: "version_ok (v + 1)" by (rule update_version_ok [OF assms(3) up])
  have "n = v + 1" using save_succeeded [OF assms(1) up] n by simp
  moreover have "json_parse (json_stringify (JObj [(''contentVersion'', JNum n)])) = Some (JObj [(''contentVersion'', JNum n)])"
    by (rule json_parse_stringify) (use version_ok_wf [OF ok] \<open>n = v + 1\<close> in simp)
  ultimately show ?thesis using ok stored_saved [OF assms(1) up] by (simp add: r reply_version_def)
qed

lemma post_content_keys:
  assumes "keys_ok db" and "post_content who s body env dbA db = (db1, r)"
  shows "keys_ok db1"
proof (cases "db1 = db")
  case False
  then obtain actor c v x where "saveDocumentContent actor (Some (JStr s)) (Some c) (Some (JNum v)) env dbA db = (db1, x)"
    using assms(2) by (auto simp: post_content_def split: option.splits sum.splits prod.splits)
  from save_effect [OF this] False obtain v' c' d where
    "updateContentConditional s v' c' (env_now env) db = Some (db1, Some d)" by auto
  from updateContent_shape [OF this] show ?thesis by (intro keys_ok_cong [OF assms(1)]) simp_all
qed (use assms in simp)

section \<open>The invariant of page and server\<close>

definition page_inv :: "Autosave \<Rightarrow> json option \<Rightarrow> bool" where
  "page_inv t latest \<longleftrightarrow>
     (\<exists>v. as_version t = Some (JNum v) \<and> version_ok v)
     \<and> (\<forall>p body. as_inFlight t = Some (p, body) \<longrightarrow>
          edit_ok p \<and> body = save_request p (as_version t) \<and> as_pending t \<noteq> None \<and> \<not> as_hasConflict t)
     \<and> (\<forall>p. as_pending t = Some p \<longrightarrow> edit_ok p \<and> latest = Some (snd p))
     \<and> (as_status t = IdleStatus \<longrightarrow> as_pending t = None \<and> latest = None)
     \<and> (as_status t = SavedStatus \<longrightarrow> as_pending t = None)"

definition system_inv :: "string \<Rightarrow> EditSystem \<Rightarrow> bool" where
  "system_inv documentId s \<longleftrightarrow>
     keys_ok (es_db s) \<and> page_inv (es_page s) (es_last s)
     \<and> (\<forall>r. es_reply s = Some r \<longrightarrow> as_inFlight (es_page s) \<noteq> None \<and>
          (accepted r \<longrightarrow>
             (\<exists>v p body. as_inFlight (es_page s) = Some (p, body) \<and> version_ok v
               \<and> reply_version r = Some (Some (JNum v)) \<and> stored_at documentId v (snd p) (es_db s))))
     \<and> (as_status (es_page s) = SavedStatus \<longrightarrow>
          (\<exists>v j. as_version (es_page s) = Some (JNum v) \<and> es_last s = Some j \<and> stored_at documentId v j (es_db s)))"

lemma flush_keeps:
  "as_inFlight t = Some x \<Longrightarrow> as_inFlight (flush_content t) = Some x"
  "as_version (flush_content t) = as_version t" "as_status (flush_content t) = as_status t"
  "as_pending (flush_content t) = as_pending t" "as_hasConflict (flush_content t) = as_hasConflict t"
  "as_disposed (flush_content t) = as_disposed t"
  by (simp_all add: flush_content_def Let_def split: option.split)

lemma flush_inv: "page_inv t latest \<Longrightarrow> page_inv (flush_content t) latest"
  by (auto simp: page_inv_def flush_content_def Let_def split: option.splits)

lemma timer_inv: "page_inv t latest \<Longrightarrow> page_inv (t\<lparr>as_timer := b\<rparr>) latest"
  by (auto simp: page_inv_def)

text \<open>An event other than an answer keeps the request in flight and the version.\<close>

definition taken :: "bool \<Rightarrow> PageEvent \<Rightarrow> Autosave \<Rightarrow> json option \<Rightarrow> json option" where
  "taken canEdit e t latest =
     (case e of
        Typed crdt payload \<Rightarrow> if canEdit \<and> \<not> as_hasConflict t \<and> \<not> crdt then Some (snd payload) else latest
      | _ \<Rightarrow> latest)"

lemma quiet_step:
  fixes canEdit e t
  assumes "\<forall>response. e \<noteq> Answered response" and "page_inv t latest" and "event_ok documentId (Page e)"
  defines "t' \<equiv> autosave_step canEdit e t"
  shows "page_inv t' (taken canEdit e t latest)"
    and "as_inFlight t = Some x \<Longrightarrow> as_inFlight t' = Some x" and "as_version t' = as_version t"
    and "as_status t' = SavedStatus \<Longrightarrow> as_status t = SavedStatus \<and> taken canEdit e t latest = latest"
proof -
  show "page_inv t' (taken canEdit e t latest)"
  proof (cases e)
    case (Typed crdt p)
    then show ?thesis using assms(2,3)
      by (auto simp: t'_def autosave_step_def taken_def saveContent_def event_ok_def page_inv_def edit_ok_def)
  next
    case TimerFired
    then show ?thesis using assms(2) flush_inv [OF timer_inv [OF assms(2), of False]]
      by (simp add: t'_def autosave_step_def taken_def)
  next
    case Unmounted
    then show ?thesis using assms(2) by (simp add: t'_def autosave_step_def taken_def page_inv_def)
  qed (use assms(1,2) flush_inv [OF assms(2)] in \<open>simp_all add: t'_def autosave_step_def taken_def\<close>)
  show "as_inFlight t' = Some x" if "as_inFlight t = Some x"
    using that assms(1) by (cases e) (simp_all add: t'_def autosave_step_def saveContent_def flush_keeps)
  show "as_version t' = as_version t"
    using assms(1) by (cases e) (simp_all add: t'_def autosave_step_def saveContent_def flush_keeps)
  show "as_status t' = SavedStatus \<Longrightarrow> as_status t = SavedStatus \<and> taken canEdit e t latest = latest"
    using assms(1) by (cases e) (auto simp: t'_def autosave_step_def saveContent_def flush_keeps taken_def split: if_splits)
qed

lemma retry_keeps:
  "as_status (retry_later t) = as_status t" "as_version (retry_later t) = as_version t"
  "as_pending (retry_later t) = as_pending t" "as_inFlight (retry_later t) = None"
  "as_hasConflict (retry_later t) = as_hasConflict t" "as_disposed (retry_later t) = as_disposed t"
  by (simp_all add: retry_later_def Let_def)

lemma answered_step:
  fixes canEdit response t
  assumes "as_inFlight t = Some (p, body)" and "page_inv t latest"
    and "\<And>r. response = Some r \<Longrightarrow> accepted r \<Longrightarrow> reply_version r = Some (Some (JNum v)) \<and> version_ok v"
  defines "t' \<equiv> autosave_step canEdit (Answered response) t"
  shows "page_inv t' latest"
    and "as_status t' = SavedStatus \<Longrightarrow>
      (\<exists>r. response = Some r \<and> accepted r) \<and> as_version t' = Some (JNum v) \<and> latest = Some (snd p)"
proof -
  have t': "t' = retry_later (on_reply p response t)" using assms(1) by (simp add: t'_def autosave_step_def)
  have i: "as_pending t \<noteq> None" "as_status t \<noteq> IdleStatus"
    "\<And>q. as_pending t = Some q \<Longrightarrow> edit_ok q \<and> latest = Some (snd q)" "\<exists>v. as_version t = Some (JNum v) \<and> version_ok v"
    using assms(1,2) by (auto simp: page_inv_def)
  show "page_inv t' latest"
  proof (cases "\<exists>r. response = Some r \<and> accepted r")
    case True
    then obtain r where r: "response = Some r" "200 \<le> rp_status r" "rp_status r < 300"
        "reply_version r = Some (Some (JNum v))" "version_ok v"
      using assms(3) by (auto simp: accepted_def)
    then show ?thesis using i(3) by (auto simp: t' page_inv_def retry_keeps on_reply_def Let_def)
  next
    case False
    then have "on_reply p response t \<in> {save_failed t,
        t\<lparr>as_hasConflict := True, as_pending := None, as_status := ConflictStatus, as_saveError := Some Modified_elsewhere\<rparr>,
        t\<lparr>as_hasConflict := True, as_pending := None, as_status := ErrorStatus, as_saveError := Some No_permission\<rparr>}"
      by (cases response) (auto simp: on_reply_def accepted_def)
    then show ?thesis using i(3,4) by (auto simp: t' page_inv_def retry_keeps save_failed_def)
  qed
  show "(\<exists>r. response = Some r \<and> accepted r) \<and> as_version t' = Some (JNum v) \<and> latest = Some (snd p)"
    if "as_status t' = SavedStatus"
    using that i(1,3) assms(3)
    by (fastforce simp: t' retry_keeps on_reply_def save_failed_def accepted_def Let_def split: option.splits if_splits)
qed

lemma system_invI:
  assumes "keys_ok (es_db s)" and "page_inv (es_page s) (es_last s)"
    and "\<And>r. es_reply s = Some r \<Longrightarrow> \<exists>p body. as_inFlight (es_page s) = Some (p, body) \<and>
      (accepted r \<longrightarrow> (\<exists>v. version_ok v \<and> reply_version r = Some (Some (JNum v)) \<and> stored_at documentId v (snd p) (es_db s)))"
    and "as_status (es_page s) = SavedStatus \<Longrightarrow>
      \<exists>v j. as_version (es_page s) = Some (JNum v) \<and> es_last s = Some j \<and> stored_at documentId v j (es_db s)"
  shows "system_inv documentId s"
  unfolding system_inv_def using assms by fastforce

lemma system_invD:
  assumes "system_inv documentId s"
  shows "keys_ok (es_db s)" "page_inv (es_page s) (es_last s)"
    and "es_reply s = Some r \<Longrightarrow> \<exists>p body. as_inFlight (es_page s) = Some (p, body) \<and>
      (accepted r \<longrightarrow> (\<exists>v. version_ok v \<and> reply_version r = Some (Some (JNum v)) \<and> stored_at documentId v (snd p) (es_db s)))"
    and "as_status (es_page s) = SavedStatus \<Longrightarrow>
      \<exists>v j. as_version (es_page s) = Some (JNum v) \<and> es_last s = Some j \<and> stored_at documentId v j (es_db s)"
  using assms unfolding system_inv_def by fastforce+

lemma page_event_inv:
  assumes "system_inv documentId s" and "event_ok documentId (Page e)"
  shows "system_inv documentId (system_step L canEdit documentId (Page e) s)"
proof -
  note inv = system_invD [OF assms(1)]
  have e: "\<forall>response. e \<noteq> Answered response" using assms(2) by (auto simp: event_ok_def)
  note q = quiet_step [where canEdit = canEdit, OF e inv(2) assms(2)]
  let ?s = "s\<lparr>es_page := autosave_step canEdit e (es_page s), es_last := taken canEdit e (es_page s) (es_last s)\<rparr>"
  have "system_inv documentId ?s"
  proof (rule system_invI)
    fix r assume "es_reply ?s = Some r"
    then show "\<exists>p body. as_inFlight (es_page ?s) = Some (p, body) \<and> (accepted r \<longrightarrow>
        (\<exists>v. version_ok v \<and> reply_version r = Some (Some (JNum v)) \<and> stored_at documentId v (snd p) (es_db ?s)))"
      using inv(3) [of r] q(2) by auto
  next
    assume "as_status (es_page ?s) = SavedStatus"
    then show "\<exists>v j. as_version (es_page ?s) = Some (JNum v) \<and> es_last ?s = Some j \<and> stored_at documentId v j (es_db ?s)"
      using q(3,4) inv(4) by simp
  qed (use inv(1) q(1) in simp_all)
  then show ?thesis by (simp add: system_step_def taken_def)
qed

lemma processed_inv:
  assumes "system_inv documentId s"
  shows "system_inv documentId (system_step L canEdit documentId (Processed who env dbA) s)"
proof (cases "as_inFlight (es_page s) \<noteq> None \<and> es_reply s = None")
  case True
  note inv = system_invD [OF assms]
  obtain p body where f: "as_inFlight (es_page s) = Some (p, body)" using True by auto
  obtain v where v: "as_version (es_page s) = Some (JNum v)" "version_ok v" using inv(2) by (auto simp: page_inv_def)
  have b: "edit_ok p" "body = save_request p (Some (JNum v))" "as_pending (es_page s) \<noteq> None"
    using inv(2) f v(1) by (auto simp: page_inv_def)
  obtain db1 r where r: "post_content who documentId body env dbA (es_db s) = (db1, r)" by fastforce
  let ?s = "s\<lparr>es_db := db1, es_reply := Some r\<rparr>"
  have "system_inv documentId ?s"
  proof (rule system_invI)
    fix r' assume "es_reply ?s = Some r'"
    then show "\<exists>p body. as_inFlight (es_page ?s) = Some (p, body) \<and> (accepted r' \<longrightarrow>
        (\<exists>v. version_ok v \<and> reply_version r' = Some (Some (JNum v)) \<and> stored_at documentId v (snd p) (es_db ?s)))"
      using f processed_save [OF _ b(1) v(2) r [unfolded b(2)]] inv(1) by (auto simp: keys_ok_def)
  next
    assume "as_status (es_page ?s) = SavedStatus"
    then show "\<exists>v j. as_version (es_page ?s) = Some (JNum v) \<and> es_last ?s = Some j \<and> stored_at documentId v j (es_db ?s)"
      using b(3) inv(2) by (auto simp: page_inv_def)
  qed (use post_content_keys [OF inv(1) r] inv(2) in simp_all)
  then show ?thesis using f True by (simp add: system_step_def r)
next
  case False
  then have "system_step L canEdit documentId (Processed who env dbA) s = s"
    by (auto simp: system_step_def split: option.split)
  then show ?thesis using assms by simp
qed

lemma answer_inv:
  assumes "system_inv documentId s" and "response = None \<or> response = es_reply s"
  shows "system_inv documentId (s\<lparr>es_page := autosave_step canEdit (Answered response) (es_page s), es_reply := None\<rparr>)"
proof (cases "as_inFlight (es_page s)")
  case None
  note inv = system_invD [OF assms(1)]
  from None show ?thesis using inv(1,2,4) by (intro system_invI) (simp_all add: autosave_step_def)
next
  case (Some f)
  note inv = system_invD [OF assms(1)]
  obtain p body where f: "as_inFlight (es_page s) = Some (p, body)" using Some by (cases f) auto
  obtain v where v: "\<And>r. response = Some r \<Longrightarrow> accepted r \<Longrightarrow>
      reply_version r = Some (Some (JNum v)) \<and> version_ok v \<and> stored_at documentId v (snd p) (es_db s)"
    using inv(3) f assms(2) by (cases response) fastforce+
  note a = answered_step [where response = response and v = v and canEdit = canEdit, OF f inv(2)]
  show ?thesis
  proof (rule system_invI)
    assume "as_status (es_page (s\<lparr>es_page := autosave_step canEdit (Answered response) (es_page s), es_reply := None\<rparr>)) = SavedStatus"
    then show "\<exists>v j. as_version (es_page (s\<lparr>es_page := autosave_step canEdit (Answered response) (es_page s), es_reply := None\<rparr>))
          = Some (JNum v)
        \<and> es_last (s\<lparr>es_page := autosave_step canEdit (Answered response) (es_page s), es_reply := None\<rparr>) = Some j
        \<and> stored_at documentId v j (es_db (s\<lparr>es_page := autosave_step canEdit (Answered response) (es_page s), es_reply := None\<rparr>))"
      using a(2) v by auto
  qed (use inv(1) a(1) v in auto)
qed

lemma other_inv:
  assumes "system_inv documentId s" and "never_generates documentId [c]"
  shows "system_inv documentId (s\<lparr>es_db := history L [c] (es_db s)\<rparr>)"
proof -
  note inv = system_invD [OF assms(1)]
  show ?thesis
  proof (rule system_invI)
    fix r assume "es_reply (s\<lparr>es_db := history L [c] (es_db s)\<rparr>) = Some r"
    then show "\<exists>p body. as_inFlight (es_page (s\<lparr>es_db := history L [c] (es_db s)\<rparr>)) = Some (p, body) \<and> (accepted r \<longrightarrow>
        (\<exists>v. version_ok v \<and> reply_version r = Some (Some (JNum v))
          \<and> stored_at documentId v (snd p) (es_db (s\<lparr>es_db := history L [c] (es_db s)\<rparr>))))"
      using inv(3) [of r] stored_history [OF _ assms(2)] by fastforce
  next
    assume "as_status (es_page (s\<lparr>es_db := history L [c] (es_db s)\<rparr>)) = SavedStatus"
    then show "\<exists>v j. as_version (es_page (s\<lparr>es_db := history L [c] (es_db s)\<rparr>)) = Some (JNum v)
        \<and> es_last (s\<lparr>es_db := history L [c] (es_db s)\<rparr>) = Some j
        \<and> stored_at documentId v j (es_db (s\<lparr>es_db := history L [c] (es_db s)\<rparr>))"
      using inv(4) stored_history [OF _ assms(2)] by fastforce
  qed (use inv(1,2) history_keys in simp_all)
qed

lemma system_step_inv:
  assumes "system_inv documentId s" and "event_ok documentId e"
  shows "system_inv documentId (system_step L canEdit documentId e s)"
proof (cases e)
  case (Page pe)
  then show ?thesis using page_event_inv assms by simp
next
  case (Processed who env dbA)
  then show ?thesis using processed_inv [OF assms(1)] by simp
next
  case Delivered
  then show ?thesis using answer_inv [OF assms(1), of "es_reply s" canEdit] assms(1)
    by (auto simp: system_step_def split: option.split)
next
  case Lost
  then show ?thesis using answer_inv [OF assms(1), of None canEdit] by (simp add: system_step_def)
next
  case (Other c)
  then show ?thesis using other_inv [OF assms(1)] assms(2) by (simp add: system_step_def event_ok_def)
qed

lemma late_request:
  assumes "post_content who s body env dbA db = (db1, r)" and "env_id env \<noteq> uuid s"
  shows "db1 = db \<or> (\<exists>c. db1 = history L [c] db \<and> event_ok s (Other c))"
proof (cases "db1 = db")
  case False
  then obtain actor c v x where "saveDocumentContent actor (Some (JStr s)) (Some c) (Some (JNum v)) env dbA db = (db1, x)"
    using assms(1) by (auto simp: post_content_def split: option.splits sum.splits prod.splits)
  then have "db1 = history L [(actor, SaveContent (Some (JStr s)) (Some c) (Some (JNum v)), env, dbA)] db"
    by (simp add: history_def call_def serve_def)
  moreover have "event_ok s (Other (actor, SaveContent (Some (JStr s)) (Some c) (Some (JNum v)), env, dbA))"
    using assms(2) by (simp add: event_ok_def never_generates_def)
  ultimately show ?thesis by blast
qed simp

lemma loaded_page_inv: "keys_ok db \<Longrightarrow> version_ok v \<Longrightarrow> system_inv documentId (loaded_page v db)"
  by (rule system_invI) (simp_all add: loaded_page_def new_autosave_def page_inv_def)

lemma autosave_invariant:
  assumes "autosave_reaches L canEdit documentId (loaded_page v db) s" and "keys_ok db" and "version_ok v"
  shows "system_inv documentId s"
  using assms(1) by induction (use loaded_page_inv [OF assms(2,3)] system_step_inv in blast)+

text \<open>
  C19: the page says that all changes are saved only when they are: outside the CRDT mode, in every state that page, server
  and other requests reach, with answers that are lost or come late, if the page has taken over a document from the
  editor, the status reads so and the document has not been deleted, the server has reached the page's version, and at
  that version its content loads as the last document the page took over. After a deletion the page says so too while
  the server holds nothing, which is why the document must be there.
\<close>

theorem saved_means_stored:
  assumes "autosave_reaches L canEdit documentId (loaded_page v0 db) s" and "keys_ok db" and "version_ok v0"
    and "sv_state (toSaveStatusView (as_status (es_page s)) online False sync) = Saved_mirror"
    and "es_last s = Some j" and "findById documentId (es_db s) = Some d"
  shows "\<exists>v. as_version (es_page s) = Some (JNum v) \<and> v \<le> d_contentVersion d
    \<and> (d_contentVersion d = v \<longrightarrow> parseDocumentContent (d_content d) fallback = j)"
proof -
  note inv = system_invD [OF autosave_invariant [OF assms(1-3)]]
  have "as_status (es_page s) \<in> {IdleStatus, SavedStatus}"
    using assms(4) by (cases "as_status (es_page s)") (auto simp: toSaveStatusView_def standard_view_def split: if_splits)
  moreover have "as_status (es_page s) \<noteq> IdleStatus" using inv(2) assms(5) by (auto simp: page_inv_def)
  ultimately obtain v where "as_version (es_page s) = Some (JNum v)" "stored_at documentId v j (es_db s)"
    using inv(4) assms(5) by auto
  then show ?thesis using assms(6) by (auto simp: stored_at_def content_roundtrip)
qed

section \<open>No edit is forgotten\<close>

definition page_run :: "bool \<Rightarrow> PageEvent list \<Rightarrow> Autosave \<Rightarrow> Autosave" where
  "page_run canEdit es t = foldl (\<lambda>t e. autosave_step canEdit e t) t es"

definition waiting :: "Autosave \<Rightarrow> bool" where
  "waiting t \<longleftrightarrow> \<not> as_disposed t \<and> (as_pending t \<noteq> None \<longrightarrow> as_hasConflict t \<or> as_timer t \<or> as_inFlight t \<noteq> None)"

lemma flush_waiting: "\<not> as_disposed t \<Longrightarrow> waiting (flush_content t)"
  by (auto simp: waiting_def flush_content_def Let_def split: option.split)

lemma retry_waiting: "\<not> as_disposed t \<Longrightarrow> waiting (retry_later t)"
  by (auto simp: waiting_def retry_later_def Let_def)

lemma on_reply_disposed: "as_disposed (on_reply p r t) = as_disposed t"
  by (simp add: on_reply_def save_failed_def Let_def split: option.split)

lemma waiting_step:
  assumes "waiting t" and "e \<noteq> Unmounted"
  shows "waiting (autosave_step canEdit e t)"
proof (cases e)
  case (Typed crdt p)
  then show ?thesis using assms(1) by (simp add: autosave_step_def saveContent_def waiting_def)
next
  case (Answered r)
  have "\<not> as_disposed t" using assms(1) by (simp add: waiting_def)
  then have "waiting (retry_later (on_reply p r t))" for p by (simp add: retry_waiting on_reply_disposed)
  then show ?thesis using Answered assms(1) by (cases "as_inFlight t") (auto simp: autosave_step_def)
qed (use assms flush_waiting in \<open>auto simp: autosave_step_def waiting_def\<close>)

lemma waiting_run: "waiting t \<Longrightarrow> Unmounted \<notin> set es \<Longrightarrow> waiting (page_run canEdit es t)"
proof (induction es arbitrary: t)
  case (Cons e es)
  then show ?case using waiting_step [of t e canEdit] by (auto simp: page_run_def)
qed (simp add: page_run_def)

text \<open>
  C40: no edit is forgotten while the page is open. After any sequence of edits, timers, flushes and answers, as long as no
  conflict or refusal has stopped saving, an unsaved edit is waited for: when no request is in flight the timer is set
  and sends the edit, and when one is, its answer leaves nothing pending or sets the timer again.
\<close>

theorem no_edit_forgotten:
  assumes "Unmounted \<notin> set es" and "t = page_run canEdit es (new_autosave v)"
    and "as_pending t = Some p" and "\<not> as_hasConflict t"
  shows "(as_inFlight t = None \<longrightarrow>
      as_timer t \<and> as_inFlight (autosave_step canEdit TimerFired t) = Some (p, save_request p (as_version t)))
    \<and> (as_inFlight t \<noteq> None \<longrightarrow> (\<forall>r. as_pending (autosave_step canEdit (Answered r) t) = None
        \<or> as_timer (autosave_step canEdit (Answered r) t)))"
proof -
  have "waiting t" using waiting_run [OF _ assms(1)] assms(2) by (simp add: waiting_def new_autosave_def)
  then have w: "\<not> as_disposed t" "as_timer t \<or> as_inFlight t \<noteq> None" using assms(3,4) by (auto simp: waiting_def)
  have "as_pending t' = None \<or> as_timer t'" if "as_inFlight t \<noteq> None" "t' = autosave_step canEdit (Answered r) t" for r t'
  proof -
    have "waiting t'" using waiting_step [OF \<open>waiting t\<close>] that(2) by simp
    moreover have "as_inFlight t' = None"
      using that by (auto simp: autosave_step_def retry_keeps split: option.split)
    moreover have "as_hasConflict t' \<longrightarrow> as_pending t' = None"
      using that assms(4) by (auto simp: autosave_step_def retry_keeps on_reply_def save_failed_def Let_def split: option.split)
    ultimately show ?thesis by (cases "as_pending t'") (simp_all add: waiting_def)
  qed
  moreover have "as_inFlight (autosave_step canEdit TimerFired t) = Some (p, save_request p (as_version t))"
    if "as_timer t" "as_inFlight t = None"
    using that assms(3,4) by (simp add: autosave_step_def flush_content_def Let_def)
  ultimately show ?thesis using w(2) by blast
qed

theorem no_edit_forgotten_witness:
  "as_inFlight (autosave_step True TimerFired (page_run True [Typed False (0, JStr ''x'')] (new_autosave 1)))
    = Some ((0, JStr ''x''), save_request (0, JStr ''x'') (Some (JNum 1)))"
  using no_edit_forgotten [of "[Typed False (0, JStr ''x'')]" _ True 1 "(0, JStr ''x'')", OF _ HOL.refl]
  by (simp add: page_run_def autosave_step_def saveContent_def new_autosave_def)

text \<open>Leaving the page inside the application within the delay drops the edit: no timer is set and no request is sent.\<close>

lemma edit_dropped_on_unmount:
  assumes "as_inFlight t = None" and "\<not> as_hasConflict t" and "snd p \<noteq> JNull"
  defines "t' \<equiv> autosave_step True Unmounted (autosave_step True (Typed False p) t)"
  shows "as_pending t' = Some p" "as_inFlight t' = None" "autosave_step True TimerFired t' = t'"
  using assms by (simp_all add: autosave_step_def saveContent_def)

section \<open>Runs\<close>

abbreviation sample_edit :: Payload where "sample_edit \<equiv> (0, JStr ''x'')"

abbreviation edited_content :: json where "edited_content \<equiv> content_envelope (JStr ''x'')"

abbreviation db_edited :: Database where "db_edited \<equiv> sample_db (sample_row 2 (Some edited_content) 7)"

abbreviation author :: "DomainError + ActorContext" where "author \<equiv> Inr (sample_actor CHR ''a'')"

lemma edited_valid: "validate_content (Some edited_content) = Inr edited_content"
proof -
  have "is_envelope edited_content" "length (json_stringify edited_content) = 17" by code_simp+
  then show ?thesis by (simp add: validate_content_def MAX_CONTENT_JSON_BYTES_def)
qed

lemma edited_update:
  "updateContentConditional sample_doc 1 edited_content 7 db_0
    = Some (db_edited, Some (sample_row 2 (Some edited_content) 7))"
  by code_simp

lemma sample_request:
  "saveSchema (the (json_parse (save_request (n, JStr ''x'') (Some (JNum 1))))) = Some (edited_content, 1)"
  "json_parse (save_request (n, JStr ''x'') (Some (JNum 1)))
    = Some (JObj [(''content'', edited_content), (''expectedContentVersion'', JNum 1)])"
  by (simp_all add: request_parses saveSchema_request)

definition sample_reply :: Reply where
  "sample_reply = \<lparr>rp_status = 200, rp_body = json_stringify (JObj [(''contentVersion'', JNum 2)])\<rparr>"

lemma sample_post:
  "post_content author sample_doc (save_request (n, JStr ''x'') (Some (JNum 1))) Server_Guarantees.sample_env db_0 db_0
    = (db_edited, sample_reply)"
  using edited_update sample_access(1,2) edited_valid
  by (simp add: post_content_def sample_request saveSchema_request saveDocumentContent_def parse_version_def
      Server_Guarantees.sample_env_def sample_reply_def sample_row_def del: json_stringify.simps)

definition first_save :: "SystemEvent list" where
  "first_save = [Page (Typed False sample_edit), Page TimerFired, Processed author Server_Guarantees.sample_env db_0]"

definition system_run :: "SystemEvent list \<Rightarrow> EditSystem \<Rightarrow> EditSystem" where
  "system_run es s = foldl (\<lambda>s e. system_step sample_lib True sample_doc e s) s es"

lemma system_run_reaches:
  "list_all (event_ok sample_doc) es \<Longrightarrow> autosave_reaches sample_lib True sample_doc s0 s
    \<Longrightarrow> autosave_reaches sample_lib True sample_doc s0 (system_run es s)"
  by (induction es arbitrary: s) (simp_all add: system_run_def autosave_reaches.step)

lemma first_save_run:
  "system_run first_save (loaded_page 1 db_0) =
    \<lparr>es_page = (new_autosave 1)\<lparr>as_status := SavingStatus, as_pending := Some sample_edit,
        as_inFlight := Some (sample_edit, save_request sample_edit (Some (JNum 1)))\<rparr>,
     es_db = db_edited, es_reply = Some sample_reply, es_last = Some (JStr ''x'')\<rparr>"
  by (simp add: system_run_def first_save_def system_step_def loaded_page_def autosave_step_def saveContent_def
      new_autosave_def flush_content_def sample_post)

lemma sample_reply_version: "reply_version sample_reply = Some (Some (JNum 2))"
proof -
  have "json_parse (json_stringify (JObj [(''contentVersion'', JNum 2)])) = Some (JObj [(''contentVersion'', JNum 2)])"
    by (rule json_parse_stringify) simp
  then show ?thesis by (simp add: sample_reply_def reply_version_def del: json_stringify.simps)
qed

theorem saved_means_stored_witness:
  "\<exists>v. as_version (es_page (system_run (first_save @ [Delivered]) (loaded_page 1 db_0))) = Some (JNum v) \<and> v \<le> 2
    \<and> (2 = v \<longrightarrow> parseDocumentContent (Some edited_content) JNull = JStr ''x'')"
proof -
  let ?s = "system_run (first_save @ [Delivered]) (loaded_page 1 db_0)"
  have s: "?s = system_step sample_lib True sample_doc Delivered (system_run first_save (loaded_page 1 db_0))"
    by (simp add: system_run_def)
  have f: "as_status (es_page ?s) = SavedStatus" "es_last ?s = Some (JStr ''x'')" "es_db ?s = db_edited"
    unfolding s first_save_run
    by (simp_all add: system_step_def autosave_step_def on_reply_def sample_reply_version retry_later_def Let_def)
      (simp_all add: sample_reply_def)
  have "autosave_reaches sample_lib True sample_doc (loaded_page 1 db_0) ?s"
    by (rule system_run_reaches [OF _ autosave_reaches.start]) (simp add: first_save_def event_ok_def edit_ok_def)
  moreover have "sv_state (toSaveStatusView (as_status (es_page ?s)) True False None) = Saved_mirror"
    by (simp add: f toSaveStatusView_def standard_view_def)
  moreover have "findById sample_doc (es_db ?s) = Some (sample_row 2 (Some edited_content) 7)"
    unfolding f by code_simp
  ultimately show ?thesis
    using saved_means_stored [OF _ sample_keys(1) _ _ f(2), of sample_lib True sample_doc 1 True None _ JNull]
    by (simp add: version_ok_def INT4_MAX_def sample_row_def)
qed

text \<open>
  A save that is carried out but whose answer is lost makes its own retry a conflict: the page stops saving and drops
  what was typed meanwhile, although nobody else wrote.
\<close>

lemma edited_update_again: "updateContentConditional sample_doc 1 edited_content 7 db_edited = Some (db_edited, None)"
  by code_simp

lemma edited_access:
  "requireAccess (sample_actor CHR ''a'') sample_doc EditContent db_edited
    = Inr (sample_row 2 (Some edited_content) 7, OWNER)" "findById sample_doc db_edited \<noteq> None"
  by code_simp+

lemma sample_post_again:
  "post_content author sample_doc (save_request (n, JStr ''x'') (Some (JNum 1))) Server_Guarantees.sample_env db_edited db_edited
    = (db_edited, save_error Conflict)"
  using edited_update_again sample_access(1) edited_access edited_valid
  by (auto simp: post_content_def sample_request saveSchema_request saveDocumentContent_def parse_version_def
      Server_Guarantees.sample_env_def)

definition second_save :: "SystemEvent list" where
  "second_save = [Lost, Page (Typed False (1, JStr ''x'')), Page TimerFired]"

lemma second_save_run:
  "system_run second_save (system_run first_save (loaded_page 1 db_0)) =
    \<lparr>es_page = (new_autosave 1)\<lparr>as_status := SavingStatus, as_saveError := Some Save_failed, as_pending := Some (1, JStr ''x''),
        as_inFlight := Some ((1, JStr ''x''), save_request (1, JStr ''x'') (Some (JNum 1)))\<rparr>,
     es_db = db_edited, es_reply = None, es_last = Some (JStr ''x'')\<rparr>"
  unfolding first_save_run
  by (simp add: system_run_def second_save_def system_step_def autosave_step_def on_reply_def save_failed_def
      retry_later_def saveContent_def new_autosave_def flush_content_def)

lemma conflict_reply: "rp_status (save_error Conflict) = 409"
  by (simp add: save_error_def error_reply_def)

lemma lost_answer_conflicts:
  "system_run (first_save @ second_save @ [Processed author Server_Guarantees.sample_env db_edited, Delivered]) (loaded_page 1 db_0) =
    \<lparr>es_page = (new_autosave 1)\<lparr>as_status := ConflictStatus, as_saveError := Some Modified_elsewhere, as_hasConflict := True\<rparr>,
     es_db = db_edited, es_reply = None, es_last = Some (JStr ''x'')\<rparr>"
proof -
  have "system_run (first_save @ second_save @ es) (loaded_page 1 db_0)
      = system_run es (system_run second_save (system_run first_save (loaded_page 1 db_0)))" for es
    by (simp add: system_run_def)
  then show ?thesis
    by (simp add: second_save_run)
      (simp add: system_run_def system_step_def sample_post_again autosave_step_def on_reply_def conflict_reply
        retry_later_def new_autosave_def)
qed

end
