(* ===== verification/Comment_Outbox.thy ===== *)
theory Comment_Outbox
  imports Draft_Merge Outbox
begin

text \<open>
  The queue of unsent comments, \<^verbatim>\<open>lib/comments/outbox.ts\<close>: one key of \<open>localStorage\<close> per item, shared by all tabs
  of an account. The storage is a list of keys and values; a write may throw, which is an argument. Items are the
  JSON objects themselves; \<open>localeCompare\<close> is a parameter.
\<close>

section \<open>Storage and keys\<close>

type_synonym Storage = "(string \<times> string) list"

definition remove_key :: "string \<Rightarrow> Storage \<Rightarrow> Storage" where
  "remove_key k st = filter (\<lambda>p. fst p \<noteq> k) st"

definition MAX_OUTBOX_ITEMS :: nat where "MAX_OUTBOX_ITEMS = 100"

definition legacyQueueKey :: "string \<Rightarrow> string \<Rightarrow> string" where
  "legacyQueueKey documentId userId =
     ''concord.comments.v1.'' @ encodeURIComponent userId @ ''.'' @ encodeURIComponent documentId"

definition itemKeyPrefix :: "string \<Rightarrow> string \<Rightarrow> string" where
  "itemKeyPrefix documentId userId = legacyQueueKey documentId userId @ ''.outbox.''"

definition itemKey :: "string \<Rightarrow> string \<Rightarrow> string \<Rightarrow> string" where
  "itemKey documentId userId i = itemKeyPrefix documentId userId @ encodeURIComponent i"

section \<open>Items\<close>

definition item_field :: "string \<Rightarrow> json \<Rightarrow> json option" where
  "item_field k v = (case v of JObj kvs \<Rightarrow> map_of kvs k | _ \<Rightarrow> None)"

definition is_text :: "json option \<Rightarrow> bool" where
  "is_text v = (case v of Some (JStr s) \<Rightarrow> True | _ \<Rightarrow> False)"

definition text_of :: "json option \<Rightarrow> string" where
  "text_of v = (case v of Some (JStr s) \<Rightarrow> s | _ \<Rightarrow> [])"

definition item_id :: "json \<Rightarrow> string" where
  "item_id v = text_of (item_field ''id'' v)"

definition isPendingComment :: "json \<Rightarrow> string \<Rightarrow> string \<Rightarrow> bool" where
  "isPendingComment v documentId userId \<longleftrightarrow>
     item_field ''documentId'' v = Some (JStr documentId) \<and> item_field ''userId'' v = Some (JStr userId)
     \<and> is_text (item_field ''id'' v) \<and> is_text (item_field ''threadId'' v) \<and> is_text (item_field ''messageId'' v)
     \<and> is_text (item_field ''body'' v) \<and> is_text (item_field ''createdAt'' v)
     \<and> (item_field ''error'' v = None \<or> is_text (item_field ''error'' v))
     \<and> (item_field ''kind'' v = Some (JStr ''reply'')
        \<or> item_field ''kind'' v = Some (JStr ''thread'') \<and> is_text (item_field ''quote'' v)
          \<and> (case item_field ''anchor'' v of Some (JObj _) \<Rightarrow> True | Some (JArr _) \<Rightarrow> True | _ \<Rightarrow> False))"

definition parseItem :: "string option \<Rightarrow> string \<Rightarrow> string \<Rightarrow> json option" where
  "parseItem raw documentId userId =
     (case raw of
        None \<Rightarrow> None
      | Some s \<Rightarrow>
          (case json_parse s of
             None \<Rightarrow> None
           | Some v \<Rightarrow> if isPendingComment v documentId userId then Some v else None))"

text \<open>\<open>localeCompare\<close> as a number; the sort is stable.\<close>

definition byCreatedAtThenId :: "(string \<Rightarrow> string \<Rightarrow> int) \<Rightarrow> json \<Rightarrow> json \<Rightarrow> int" where
  "byCreatedAtThenId compare left right =
     (let c = compare (text_of (item_field ''createdAt'' left)) (text_of (item_field ''createdAt'' right))
      in if c \<noteq> 0 then c else compare (item_id left) (item_id right))"

section \<open>Operations\<close>

definition stored_items :: "string \<Rightarrow> string \<Rightarrow> Storage \<Rightarrow> (string \<times> json) list" where
  "stored_items documentId userId st =
     foldl (\<lambda>items (k, raw).
         if has_prefix (itemKeyPrefix documentId userId) k then
           (case parseItem (Some raw) documentId userId of
              None \<Rightarrow> items
            | Some item \<Rightarrow> obj_put (item_id item) item items)
         else items) [] st"

text \<open>The migration of the old queue; the first write that throws ends it.\<close>

fun migrate_queue ::
  "(string \<Rightarrow> bool) \<Rightarrow> string \<Rightarrow> string \<Rightarrow> json list \<Rightarrow> (string \<times> json) list \<Rightarrow> Storage \<Rightarrow> (string \<times> json) list \<times> Storage" where
  "migrate_queue fails documentId userId [] items st = (items, st)"
| "migrate_queue fails documentId userId (e # es) items st =
     (if isPendingComment e documentId userId \<and> map_of items (item_id e) = None then
        (if fails (itemKey documentId userId (item_id e)) then (items @ [(item_id e, e)], st)
         else migrate_queue fails documentId userId es (items @ [(item_id e, e)])
           (obj_put (itemKey documentId userId (item_id e)) (json_stringify e) st))
      else migrate_queue fails documentId userId es items st)"

definition readCommentOutbox ::
  "(string \<Rightarrow> string \<Rightarrow> int) \<Rightarrow> (string \<Rightarrow> bool) \<Rightarrow> string \<Rightarrow> string \<Rightarrow> Storage \<Rightarrow> json list \<times> Storage" where
  "readCommentOutbox compare fails documentId userId st =
     (let items = stored_items documentId userId st;
          r = (case map_of st (legacyQueueKey documentId userId) of
                 None \<Rightarrow> (items, st)
               | Some raw \<Rightarrow>
                   (case (case json_parse raw of
                            Some (JArr es) \<Rightarrow> migrate_queue fails documentId userId es items st
                          | _ \<Rightarrow> (items, st)) of
                      (items', st') \<Rightarrow> (items', remove_key (legacyQueueKey documentId userId) st')));
          sorted = sort_by (\<lambda>a b. byCreatedAtThenId compare a b \<le> 0) (map snd (fst r))
      in (drop (length sorted - MAX_OUTBOX_ITEMS) sorted, snd r))"

datatype outbox_error = ScopeOrShapeMismatch | OutboxLimitExceeded | StorageThrew

definition countCommentOutboxItems :: "string \<Rightarrow> string \<Rightarrow> Storage \<Rightarrow> nat" where
  "countCommentOutboxItems documentId userId st =
     length (filter (\<lambda>p. has_prefix (itemKeyPrefix documentId userId) (fst p)) st)"

definition saveCommentOutboxItem ::
  "(string \<Rightarrow> bool) \<Rightarrow> string \<Rightarrow> string \<Rightarrow> json \<Rightarrow> Storage \<Rightarrow> outbox_error + Storage" where
  "saveCommentOutboxItem fails documentId userId item st =
     (if \<not> isPendingComment item documentId userId then Inl ScopeOrShapeMismatch
      else
        let key = itemKey documentId userId (item_id item)
        in if map_of st key = None \<and> MAX_OUTBOX_ITEMS \<le> countCommentOutboxItems documentId userId st
           then Inl OutboxLimitExceeded
           else if fails key then Inl StorageThrew
           else Inr (obj_put key (json_stringify item) st))"

definition deleteCommentOutboxItem :: "string \<Rightarrow> string \<Rightarrow> string \<Rightarrow> Storage \<Rightarrow> Storage" where
  "deleteCommentOutboxItem documentId userId i st = remove_key (itemKey documentId userId i) st"

definition removeCommentOutboxItem :: "json list \<Rightarrow> string \<Rightarrow> json list" where
  "removeCommentOutboxItem items i = filter (\<lambda>item. item_id item \<noteq> i) items"

section \<open>Keys do not collide\<close>

lemma upper_hex2_inject:
  assumes "b < 256" and "b' < 256" and "upper_hex2 b = upper_hex2 b'"
  shows "b = b'"
proof -
  have d: "distinct ''0123456789ABCDEF''" by simp
  have digit: "x = y" if "x < 16" "y < 16" "''0123456789ABCDEF'' ! x = ''0123456789ABCDEF'' ! y" for x y
    using nth_eq_iff_index_eq [OF d, of x y] that by simp
  have "b div 16 < 16" "b' div 16 < 16" using assms(1,2) by auto
  then have "b div 16 = b' div 16" "b mod 16 = b' mod 16"
    using assms(3) by (auto simp: upper_hex2_def intro: digit)
  then show ?thesis by (metis div_mult_mod_eq)
qed

lemma length_upper_hex2 [simp]: "length (upper_hex2 b) = 2"
  by (simp add: upper_hex2_def)

lemma percent_reserved: "\<not> uri_unreserved (CHR ''%'')"
  by (simp add: uri_unreserved_def is_digit_def)

lemma encode_char_inject:
  assumes "encode_char c @ s = encode_char d @ t"
  shows "c = d \<and> s = t"
proof (cases "uri_unreserved c \<or> uri_unreserved d")
  case True
  then show ?thesis using assms percent_reserved by (auto simp: encode_char_def Let_def split: if_splits)
next
  case False
  let ?n = "of_char c :: nat" and ?m = "of_char d :: nat"
  have less: "?n < 256" "?m < 256" by simp_all
  have q: "?n div 64 < 4" "?m div 64 < 4" by (rule less_mult_imp_div_less, simp)+
  let ?x = "if ?n < 128 then ?n else 192 + ?n div 64" and ?y = "if ?m < 128 then ?m else 192 + ?m div 64"
  have "take 2 (tl (encode_char c @ s)) = upper_hex2 ?x" "take 2 (tl (encode_char d @ t)) = upper_hex2 ?y"
    using False by (simp_all add: encode_char_def Let_def)
  then have "?x = ?y" using upper_hex2_inject [of ?x ?y] assms less q by auto
  then have same: "?n < 128 \<longleftrightarrow> ?m < 128" using less q by (auto split: if_splits)
  have "?n = ?m"
  proof (cases "?n < 128")
    case True
    then show ?thesis using \<open>?x = ?y\<close> same by simp
  next
    case False': False
    then have "take 2 (drop 4 (encode_char c @ s)) = upper_hex2 (128 + ?n mod 64)"
      "take 2 (drop 4 (encode_char d @ t)) = upper_hex2 (128 + ?m mod 64)"
      using False same by (simp_all add: encode_char_def Let_def upper_hex2_def)
    moreover have "128 + ?n mod 64 < 256" "128 + ?m mod 64 < 256"
      using mod_less_divisor [of 64 ?n] mod_less_divisor [of 64 ?m] by linarith+
    ultimately have "?n mod 64 = ?m mod 64" using upper_hex2_inject assms by fastforce
    moreover have "?n div 64 = ?m div 64" using \<open>?x = ?y\<close> False' same by simp
    ultimately show ?thesis by (metis div_mult_mod_eq)
  qed
  then have "c = d" by simp
  then show ?thesis using assms by simp
qed

lemma encode_inject: "encodeURIComponent s = encodeURIComponent t \<Longrightarrow> s = t"
proof (induction s arbitrary: t)
  case Nil
  then show ?case by (cases t) (auto simp: encodeURIComponent_def encode_char_def Let_def split: if_splits)
next
  case (Cons c s)
  show ?case
  proof (cases t)
    case Nil
    then show ?thesis using Cons.prems by (auto simp: encodeURIComponent_def encode_char_def Let_def split: if_splits)
  next
    case (Cons d t')
    then show ?thesis using Cons.prems encode_char_inject Cons.IH [of t']
      by (fastforce simp: encodeURIComponent_def)
  qed
qed

lemma itemKey_inject: "itemKey d u i = itemKey d u j \<longleftrightarrow> i = j"
  using encode_inject by (auto simp: itemKey_def)

section \<open>Reading and writing\<close>

lemma get_put: "map_of (obj_put k v st) j = (if j = k then Some v else map_of st j)"
  by (induction k v st rule: obj_put.induct) auto

lemma get_remove: "map_of (remove_key k st) j = (if j = k then None else map_of st j)"
  by (induction st) (auto simp: remove_key_def)

text \<open>What is in the storage under item keys, seen through the parser.\<close>

definition item_at :: "string \<Rightarrow> string \<Rightarrow> string \<Rightarrow> Storage \<Rightarrow> json option" where
  "item_at documentId userId i st = parseItem (map_of st (itemKey documentId userId i)) documentId userId"

lemma item_saved:
  assumes "json_wf item" and "saveCommentOutboxItem fails documentId userId item st = Inr st'"
  shows "item_at documentId userId i st' = (if i = item_id item then Some item else item_at documentId userId i st)"
  using assms
  by (auto simp: saveCommentOutboxItem_def item_at_def Let_def get_put itemKey_inject parseItem_def json_parse_stringify
      split: if_splits)

lemma item_deleted:
  "item_at documentId userId i (deleteCommentOutboxItem documentId userId j st)
    = (if i = j then None else item_at documentId userId i st)"
  by (simp add: item_at_def deleteCommentOutboxItem_def get_remove itemKey_inject parseItem_def)

text \<open>Without an old queue, reading changes nothing.\<close>

lemma read_keeps:
  assumes "map_of st (legacyQueueKey documentId userId) = None"
  shows "snd (readCommentOutbox compare fails documentId userId st) = st"
  using assms by (simp add: readCommentOutbox_def Let_def)

lemma in_obj_put: "p \<in> set (obj_put k v xs) \<Longrightarrow> p = (k, v) \<or> p \<in> set xs"
  by (induction k v xs rule: obj_put.induct) (auto split: if_splits)

lemma stored_items_from:
  "(i, item) \<in> set (stored_items documentId userId st) \<Longrightarrow>
    i = item_id item \<and> (\<exists>k raw. (k, raw) \<in> set st \<and> has_prefix (itemKeyPrefix documentId userId) k
      \<and> parseItem (Some raw) documentId userId = Some item)"
proof (induction st arbitrary: i item rule: rev_induct)
  case Nil
  then show ?case by (simp add: stored_items_def)
next
  case (snoc x st)
  obtain k raw where x: "x = (k, raw)" by (cases x) auto
  have "stored_items documentId userId (st @ [x]) =
      (if has_prefix (itemKeyPrefix documentId userId) k then
         (case parseItem (Some raw) documentId userId of
            None \<Rightarrow> stored_items documentId userId st
          | Some item \<Rightarrow> obj_put (item_id item) item (stored_items documentId userId st))
       else stored_items documentId userId st)"
    by (simp add: stored_items_def x split: option.split)
  then have "(i, item) \<in> set (stored_items documentId userId st) \<or>
      (has_prefix (itemKeyPrefix documentId userId) k \<and> parseItem (Some raw) documentId userId = Some item \<and> i = item_id item)"
    using snoc.prems by (auto split: if_splits option.splits dest!: in_obj_put)
  then show ?case using snoc.IH [of i item] x by auto
qed

lemma read_from:
  assumes "map_of st (legacyQueueKey documentId userId) = None"
    and "item \<in> set (fst (readCommentOutbox compare fails documentId userId st))"
  shows "\<exists>k raw. (k, raw) \<in> set st \<and> has_prefix (itemKeyPrefix documentId userId) k
      \<and> parseItem (Some raw) documentId userId = Some item"
proof -
  have "item \<in> snd ` set (stored_items documentId userId st)"
    using assms set_drop_subset by (fastforce simp: readCommentOutbox_def Let_def)
  then show ?thesis using stored_items_from by fastforce
qed

text \<open>
  The migration loses the rest of the old queue when a write throws: the failing item and those after it are only in
  memory, or nowhere, and the old key is removed.
\<close>

lemma migration_loses:
  assumes "isPendingComment e documentId userId" and "isPendingComment e' documentId userId"
    and "map_of st (legacyQueueKey documentId userId) = Some (json_stringify (JArr [e, e']))" and "json_wf e" "json_wf e'"
    and "stored_items documentId userId st = []" and "fails (itemKey documentId userId (item_id e))"
    and "\<And>k. k \<noteq> legacyQueueKey documentId userId \<Longrightarrow> map_of st k = None"
  shows "map_of (snd (readCommentOutbox compare fails documentId userId st)) k = None"
    and "fst (readCommentOutbox compare fails documentId userId st) = [e]"
proof -
  have "json_parse (json_stringify (JArr [e, e'])) = Some (JArr [e, e'])"
    by (rule json_parse_stringify) (use assms(4,5) in simp)
  then have r: "readCommentOutbox compare fails documentId userId st = ([e], remove_key (legacyQueueKey documentId userId) st)"
    using assms(1-3,6,7) by (simp add: readCommentOutbox_def Let_def sort_by_def MAX_OUTBOX_ITEMS_def del: json_stringify.simps)
  show "map_of (snd (readCommentOutbox compare fails documentId userId st)) k = None"
    using assms(8) by (simp add: r get_remove)
  show "fst (readCommentOutbox compare fails documentId userId st) = [e]" by (simp add: r)
qed

text \<open>A successful migration keeps every entry.\<close>

lemma migrate_mono:
  "map_of items i = Some x \<Longrightarrow> map_of (fst (migrate_queue (\<lambda>_. False) documentId userId es items st)) i = Some x"
  by (induction es arbitrary: items st) auto

lemma migrate_keeps:
  "e \<in> set es \<Longrightarrow> isPendingComment e documentId userId \<Longrightarrow>
   map_of (fst (migrate_queue (\<lambda>_. False) documentId userId es items st)) (item_id e) \<noteq> None"
proof (induction es arbitrary: items st)
  case (Cons x es)
  show ?case
  proof (cases "x = e")
    case True
    then show ?thesis using Cons.prems(2)
      by (cases "map_of items (item_id e)") (auto simp: migrate_mono map_add_Some_iff)
  next
    case False
    then show ?thesis using Cons by auto
  qed
qed simp

end
