(* ===== verification/Comment_Delivery.thy ===== *)
theory Comment_Delivery
  imports Comment_Outbox Server_Guarantees
begin

text \<open>
  Sending queued comments: the queue loop of \<^verbatim>\<open>components/comments-panel.tsx\<close> (\<open>flushOutbox\<close> and its callbacks) in
  every tab, over the shared storage of Comment_Outbox, joined to the comment routes
  (\<^verbatim>\<open>app/api/documents/[documentId]/comments\<close>) and the server's tables. A request that the tab took for lost may still
  be carried out later: it is then a call of the server like any other (\<open>post_comment_call\<close>, \<open>OtherCall\<close>). A page whose
  local storage cannot be read at all shows an empty queue; that is not modelled. While the refresh after a flush is
  awaited a new item waits for the next flush.
\<close>

section \<open>Requests\<close>

definition item_kind :: "json \<Rightarrow> string" where
  "item_kind v = text_of (item_field ''kind'' v)"

text \<open>The body of the POST: the fields are there in a valid item.\<close>

definition request_body :: "json \<Rightarrow> json" where
  "request_body item =
     (let part = (\<lambda>k. (k, get_or JNull (item_field k item)))
      in if item_kind item = ''thread'' then JObj (map part [''threadId'', ''messageId'', ''anchor'', ''quote'', ''body''])
         else JObj (map part [''messageId'', ''body'']))"

text \<open>The two routes; \<open>Inl\<close> carries the status and the text of \<open>commentErrorResponse\<close>.\<close>

definition commentErrorResponse :: "error_kind \<Rightarrow> nat \<times> string" where
  "commentErrorResponse e =
     (case e of
        Unauthenticated \<Rightarrow> (401, ''Sign in required'')
      | NotFound \<Rightarrow> (404, ''Document or comment not found'')
      | Forbidden \<Rightarrow> (403, ''Comment access denied'')
      | Validation \<Rightarrow> (400, ''Invalid comment request'')
      | Conflict \<Rightarrow> (409, ''Comment request conflicts with saved state'')
      | _ \<Rightarrow> (500, ''Something went wrong''))"

type_synonym CommentReply = "(nat \<times> string) + unit"

definition post_comment ::
  "Libraries \<Rightarrow> DomainError + ActorContext \<Rightarrow> string \<Rightarrow> json \<Rightarrow> Env \<Rightarrow> Database \<Rightarrow> Database \<Rightarrow> Database \<times> CommentReply" where
  "post_comment L who documentId item env dbA db =
     (case json_parse (json_stringify (request_body item)) of
        None \<Rightarrow> (db, Inl (400, ''Invalid JSON body''))
      | Some body \<Rightarrow>
          (case who of
             Inl e \<Rightarrow> (db, Inl (commentErrorResponse (fst e)))
           | Inr actor \<Rightarrow>
               (case (if item_kind item = ''thread''
                      then createThread L actor (Some (JStr documentId)) (Some body) env dbA db
                      else addMessage L actor (Some (JStr documentId)) (Some (JStr (text_of (item_field ''threadId'' item))))
                        (Some body) env dbA db) of
                  (db1, Inl e) \<Rightarrow> (db1, Inl (commentErrorResponse (fst e)))
                | (db1, Inr _) \<Rightarrow> (db1, Inr ()))))"

definition deliveryError :: "(nat \<times> string) option \<Rightarrow> string" where
  "deliveryError e =
     (case e of
        None \<Rightarrow> ''Failed to fetch''
      | Some (code, message) \<Rightarrow> if code = 401 then ''Sign in again to sync this comment.'' else message)"

section \<open>A tab\<close>

record CommentTab =
  ct_queue :: "json list"
  ct_flushing :: bool
  ct_saved :: bool
  ct_attempted :: "string list"
  ct_sending :: "json option"
  ct_reply :: "CommentReply option"

definition closed_tab :: CommentTab where
  "closed_tab = \<lparr>ct_queue = [], ct_flushing = False, ct_saved = False, ct_attempted = [], ct_sending = None, ct_reply = None\<rparr>"

text \<open>
  The head of the loop: the first item that was not attempted, or the end of the flush, after a refresh of the
  comments when something was sent.
\<close>

definition next_item :: "CommentTab \<Rightarrow> CommentTab" where
  "next_item t =
     (case find (\<lambda>item. item_id item \<notin> set (ct_attempted t)) (ct_queue t) of
        None \<Rightarrow> t\<lparr>ct_flushing := ct_saved t, ct_sending := None, ct_reply := None\<rparr>
      | Some item \<Rightarrow> t\<lparr>ct_attempted := item_id item # ct_attempted t, ct_sending := Some item, ct_reply := None\<rparr>)"

definition flushComments :: "CommentTab \<Rightarrow> CommentTab" where
  "flushComments t = (if ct_flushing t then t else next_item (t\<lparr>ct_flushing := True, ct_saved := False, ct_attempted := []\<rparr>))"

definition refreshed :: "CommentTab \<Rightarrow> CommentTab" where
  "refreshed t = (if ct_sending t = None then t\<lparr>ct_flushing := False\<rparr> else t)"

definition replace_item :: "json \<Rightarrow> json list \<Rightarrow> json list" where
  "replace_item item queue = map (\<lambda>q. if item_id q = item_id item then item else q) queue"

text \<open>\<open>updatePersistedItem\<close>: the storage first; nothing changes when it throws.\<close>

definition updatePersistedItem ::
  "(string \<Rightarrow> bool) \<Rightarrow> string \<Rightarrow> string \<Rightarrow> json \<Rightarrow> CommentTab \<Rightarrow> Storage \<Rightarrow> (CommentTab \<times> Storage) option" where
  "updatePersistedItem fails documentId userId item t st =
     (case saveCommentOutboxItem fails documentId userId item st of
        Inl _ \<Rightarrow> None
      | Inr st' \<Rightarrow>
          Some (t\<lparr>ct_queue := (if \<exists>q \<in> set (ct_queue t). item_id q = item_id item then replace_item item (ct_queue t)
                  else ct_queue t @ [item])\<rparr>, st'))"

definition with_error :: "string \<Rightarrow> json \<Rightarrow> json" where
  "with_error e item = (case item of JObj kvs \<Rightarrow> JObj (obj_put ''error'' (JStr e) kvs) | v \<Rightarrow> v)"

text \<open>The request was accepted: the item leaves storage, unless the removal throws, and queue.\<close>

definition delivered :: "bool \<Rightarrow> string \<Rightarrow> string \<Rightarrow> json \<Rightarrow> CommentTab \<Rightarrow> Storage \<Rightarrow> CommentTab \<times> Storage" where
  "delivered throws documentId userId item t st =
     (next_item (t\<lparr>ct_queue := removeCommentOutboxItem (ct_queue t) (item_id item), ct_saved := True\<rparr>),
      if throws then st else deleteCommentOutboxItem documentId userId (item_id item) st)"

text \<open>It was refused or lost: the item is kept with the error, in memory at least.\<close>

definition refused ::
  "(string \<Rightarrow> bool) \<Rightarrow> string \<Rightarrow> string \<Rightarrow> string \<Rightarrow> json \<Rightarrow> CommentTab \<Rightarrow> Storage \<Rightarrow> CommentTab \<times> Storage" where
  "refused fails documentId userId e item t st =
     (case find (\<lambda>q. item_id q = item_id item) (ct_queue t) of
        None \<Rightarrow> (next_item t, st)
      | Some failed \<Rightarrow>
          (case updatePersistedItem fails documentId userId (with_error e failed) t st of
             Some (t', st') \<Rightarrow> (next_item t', st')
           | None \<Rightarrow> (next_item (t\<lparr>ct_queue := replace_item (with_error e failed) (ct_queue t)\<rparr>), st)))"

section \<open>Tabs, storage and server\<close>

record CommentSystem =
  cs_tabs :: "nat \<Rightarrow> CommentTab"
  cs_storage :: Storage
  cs_db :: Database

datatype CommentEvent =
    Opened nat "string \<Rightarrow> bool"
  | Enqueued nat json "string \<Rightarrow> bool"
  | Retried nat
  | CommentProcessed nat bool Env Database
  | CommentAnswered nat bool "string \<Rightarrow> bool"
  | CommentLost nat "string \<Rightarrow> bool"
  | Refreshed nat
  | TabClosed nat
  | OtherCall Call

definition set_tab :: "nat \<Rightarrow> CommentTab \<times> Storage \<Rightarrow> CommentSystem \<Rightarrow> CommentSystem" where
  "set_tab i r s = s\<lparr>cs_tabs := (cs_tabs s)(i := fst r), cs_storage := snd r\<rparr>"

definition comment_step ::
  "Libraries \<Rightarrow> (string \<Rightarrow> string \<Rightarrow> int) \<Rightarrow> ActorContext \<Rightarrow> string \<Rightarrow> string \<Rightarrow> CommentEvent \<Rightarrow> CommentSystem \<Rightarrow> CommentSystem" where
  "comment_step L compare actor documentId userId e s =
     (case e of
        Opened i fails \<Rightarrow>
          (case readCommentOutbox compare fails documentId userId (cs_storage s) of
             (items, st) \<Rightarrow> set_tab i (flushComments (closed_tab\<lparr>ct_queue := items\<rparr>), st) s)
      | Enqueued i item fails \<Rightarrow>
          (case updatePersistedItem fails documentId userId item (cs_tabs s i) (cs_storage s) of
             None \<Rightarrow> s
           | Some (t, st) \<Rightarrow> set_tab i (flushComments t, st) s)
      | Retried i \<Rightarrow> set_tab i (flushComments (cs_tabs s i), cs_storage s) s
      | CommentProcessed i signedIn env dbA \<Rightarrow>
          (case (ct_sending (cs_tabs s i), ct_reply (cs_tabs s i)) of
             (Some item, None) \<Rightarrow>
               (case post_comment L (if signedIn then Inr actor else Inl (Unauthenticated, [])) documentId item env dbA (cs_db s) of
                  (db, r) \<Rightarrow> s\<lparr>cs_db := db, cs_tabs := (cs_tabs s)(i := (cs_tabs s i)\<lparr>ct_reply := Some r\<rparr>)\<rparr>)
           | _ \<Rightarrow> s)
      | CommentAnswered i throws fails \<Rightarrow>
          (case (ct_sending (cs_tabs s i), ct_reply (cs_tabs s i)) of
             (Some item, Some (Inr _)) \<Rightarrow> set_tab i (delivered throws documentId userId item (cs_tabs s i) (cs_storage s)) s
           | (Some item, Some (Inl e)) \<Rightarrow>
               set_tab i (refused fails documentId userId (deliveryError (Some e)) item (cs_tabs s i) (cs_storage s)) s
           | _ \<Rightarrow> s)
      | CommentLost i fails \<Rightarrow>
          (case ct_sending (cs_tabs s i) of
             None \<Rightarrow> s
           | Some item \<Rightarrow> set_tab i (refused fails documentId userId (deliveryError None) item (cs_tabs s i) (cs_storage s)) s)
      | Refreshed i \<Rightarrow> set_tab i (refreshed (cs_tabs s i), cs_storage s) s
      | TabClosed i \<Rightarrow> set_tab i (closed_tab, cs_storage s) s
      | OtherCall c \<Rightarrow> s\<lparr>cs_db := history L [c] (cs_db s)\<rparr>)"

section \<open>What the server has\<close>

lemma create_committed:
  assumes "createThread L actor (Some (JStr s)) (Some b) env dbA db = (db1, Inr x)" and "parse_thread L (Some b) = Some inp"
    and "keys_ok db" and "uuid (ti_threadId inp) = ti_threadId inp"
  shows "committed actor s inp db1"
proof (cases "snd x")
  case True
  then have "db1 = db \<and> same_thread actor inp (findThread s (ti_threadId inp) db) (findMessage (ti_messageId inp) db)"
    using assms(1,2) unfolding createThread_def
    by (auto split: sum.splits prod.splits option.splits bool.splits if_splits
        simp: bindE_Inr_iff validateDocumentId_Inr getDocument_Inr)
  then show ?thesis using assms(3) by (simp add: committed_def)
next
  case False
  obtain t where x: "x = (t, False)" using False by (cases x) auto
  from thread_effect [OF assms(1) [unfolded x]] assms(2) obtain doc role dbt dbm meta where
    e: "requireAccess actor s CommentOn dbA = Inr (doc, role)"
    "insertThread (thread_row actor s inp (env_now env)) db = (dbt, True)"
    "insertMessage (message_row actor (ti_messageId inp) (ti_threadId inp) (ti_body inp) (env_now env)) dbt = (dbm, True)"
    "db1 = audit meta actor CommentCreated ''document_comment'' (ti_threadId inp) (d_organizationId doc) dbm"
    by auto
  have "keys_ok db1" using change_keys [OF change.commented [OF e(1-3)] assms(3)] e(4) by simp
  then show ?thesis using created_committed [OF assms(3) _ assms(4) e(2,3)] e(4) by simp
qed

text \<open>The comment is on the server, or its document is gone.\<close>

definition on_server :: "ActorContext \<Rightarrow> string \<Rightarrow> ThreadInput \<Rightarrow> Database \<Rightarrow> bool" where
  "on_server actor s inp db \<longleftrightarrow> findById s db = None \<or> committed actor s inp db"

lemma on_server_call:
  assumes "on_server actor s inp db" and "never_generates s [c]" and "uuid (ti_threadId inp) = ti_threadId inp"
  shows "on_server actor s inp (history L [c] db)"
proof (cases "findById s (history L [c] db)")
  case (Some d)
  then have "findById s db \<noteq> None" using history_document [OF Some assms(2)] by auto
  then have c0: "committed actor s inp db" using assms(1) by (auto simp: on_server_def)
  have "committed actor s inp (history L [c] db)"
  proof (rule history_keeps [where s = s and Q = "committed actor s inp"])
    fix a env dbA db db' assume "change a env dbA db db'" "committed actor s inp db" "findById s db' \<noteq> None"
    then show "committed actor s inp db'" using change_committed assms(3) by blast
  next
    fix db db1 assume np: "new_principal db db1" and cc: "committed actor s inp db"
    have "keys_ok db1" using cc principal_frame [OF np] by (auto simp: committed_def intro: keys_ok_cong)
    then show "committed actor s inp db1" using committed_same [OF cc, of db1 "[]" "[]"] principal_frame [OF np] by simp
  qed (use c0 assms(2) Some in simp_all)
  then show ?thesis by (simp add: on_server_def)
qed (simp add: on_server_def)

text \<open>A processed request is a call of the server.\<close>

lemma post_comment_call:
  assumes "post_comment L who s item env dbA db = (db1, r)" and "uuid s \<noteq> env_id env"
  shows "db1 = db \<or> (\<exists>c. db1 = history L [c] db \<and> never_generates s [c])"
proof -
  have create: "fst (createThread L actor i x env dbA db) = history L [(actor, CreateThread i x, env, dbA)] db" for actor i x
    by (simp add: history_def call_def serve_def apsnd_def)
  have add: "fst (addMessage L actor i t x env dbA db) = history L [(actor, AddMessage i t x, env, dbA)] db" for actor i t x
    by (simp add: history_def call_def serve_def apsnd_def)
  have ng: "never_generates s [(actor, req, env, dbA)]" for actor req using assms(2) by (auto simp: never_generates_def)
  show ?thesis
  proof (cases "json_parse (json_stringify (request_body item))")
    case None
    then show ?thesis using assms(1) by (simp add: post_comment_def)
  next
    case (Some body)
    show ?thesis
    proof (cases who)
      case (Inl e)
      then show ?thesis using assms(1) Some by (simp add: post_comment_def)
    next
      case (Inr actor)
      let ?out = "if item_kind item = ''thread'' then createThread L actor (Some (JStr s)) (Some body) env dbA db
        else addMessage L actor (Some (JStr s)) (Some (JStr (text_of (item_field ''threadId'' item)))) (Some body) env dbA db"
      have o': "db1 = fst ?out" using assms(1) Some Inr by (auto simp: post_comment_def split: prod.splits sum.splits)
      show ?thesis
      proof (cases "item_kind item = ''thread''")
        case True
        then have "db1 = history L [(actor, CreateThread (Some (JStr s)) (Some body), env, dbA)] db" using o' create by simp
        then show ?thesis using ng by blast
      next
        case False
        then have "db1 = history L [(actor, AddMessage (Some (JStr s)) (Some (JStr (text_of (item_field ''threadId'' item))))
            (Some body), env, dbA)] db" using o' add by simp
        then show ?thesis using ng by blast
      qed
    qed
  qed
qed

lemma post_comment_accepted:
  assumes "post_comment L (Inr actor) s item env dbA db = (db1, Inr y)" and "item_kind item = ''thread''"
    and "json_parse (json_stringify (request_body item)) = Some (request_body item)"
    and "parse_thread L (Some (request_body item)) = Some inp" and "keys_ok db" and "uuid (ti_threadId inp) = ti_threadId inp"
  shows "committed actor s inp db1"
proof -
  obtain x where "createThread L actor (Some (JStr s)) (Some (request_body item)) env dbA db = (db1, Inr x)"
    using assms(1-3) by (auto simp: post_comment_def split: prod.splits sum.splits)
  then show ?thesis using create_committed assms(4-6) by blast
qed

section \<open>Copies of an item\<close>

lemma item_field_with_error:
  "item_field k (with_error e item) = (if k = ''error'' \<and> (\<exists>kvs. item = JObj kvs) then Some (JStr e) else item_field k item)"
  by (cases item) (auto simp: item_field_def with_error_def get_put)

lemma with_error_same:
  "item_id (with_error e item) = item_id item" "item_kind (with_error e item) = item_kind item"
  "request_body (with_error e item) = request_body item"
  by (simp_all add: item_id_def item_kind_def request_body_def item_field_with_error Let_def)

lemma with_error_valid: "isPendingComment item d u \<Longrightarrow> isPendingComment (with_error e item) d u"
  by (auto simp: isPendingComment_def item_field_with_error is_text_def)

lemma with_error_wf: "json_wf item \<Longrightarrow> json_wf (with_error e item)"
proof (cases item)
  case (JObj kvs)
  have "\<forall>kv \<in> set (obj_put ''error'' (JStr e) kvs). json_wf (snd kv)" if "\<forall>kv \<in> set kvs. json_wf (snd kv)"
    using that by (auto dest!: in_obj_put)
  then show "json_wf item \<Longrightarrow> ?thesis" using JObj by (simp add: with_error_def distinct_obj_put)
qed (simp_all add: with_error_def)

text \<open>A valid copy of the tracked item \<open>p\<close>, which may carry an error, or any other valid item.\<close>

definition good_item :: "string \<Rightarrow> string \<Rightarrow> json \<Rightarrow> json \<Rightarrow> bool" where
  "good_item d u p q \<longleftrightarrow> isPendingComment q d u \<and> json_wf q
     \<and> (item_id q = item_id p \<longrightarrow> request_body q = request_body p \<and> item_kind q = item_kind p)"

lemma good_with_error: "good_item d u p q \<Longrightarrow> good_item d u p (with_error e q)"
  by (simp add: good_item_def with_error_same with_error_valid with_error_wf)

definition good_storage :: "string \<Rightarrow> string \<Rightarrow> json \<Rightarrow> Storage \<Rightarrow> bool" where
  "good_storage d u p st \<longleftrightarrow> map_of st (legacyQueueKey d u) = None
     \<and> (\<forall>(k, raw) \<in> set st. \<forall>q. has_prefix (itemKeyPrefix d u) k \<and> parseItem (Some raw) d u = Some q \<longrightarrow> good_item d u p q)"

text \<open>A copy of \<open>p\<close> is in the storage.\<close>

definition kept :: "string \<Rightarrow> string \<Rightarrow> json \<Rightarrow> Storage \<Rightarrow> bool" where
  "kept d u p st \<longleftrightarrow>
     (\<exists>q. item_at d u (item_id p) st = Some q \<and> item_id q = item_id p \<and> request_body q = request_body p)"

definition good_tab :: "string \<Rightarrow> string \<Rightarrow> json \<Rightarrow> CommentTab \<Rightarrow> bool" where
  "good_tab d u p t \<longleftrightarrow> (\<forall>q \<in> set (ct_queue t). good_item d u p q) \<and> (\<forall>q. ct_sending t = Some q \<longrightarrow> good_item d u p q)"

lemma legacy_no_item: "itemKey d u i \<noteq> legacyQueueKey d u"
  by (simp add: itemKey_def itemKeyPrefix_def)

lemma good_storage_put:
  assumes "good_storage d u p st" and "good_item d u p q" and "saveCommentOutboxItem fails d u q st = Inr st'"
  shows "good_storage d u p st'"
proof -
  have st': "st' = obj_put (itemKey d u (item_id q)) (json_stringify q) st" and v: "isPendingComment q d u" "json_wf q"
    using assms(2,3) by (auto simp: saveCommentOutboxItem_def good_item_def Let_def split: if_splits)
  have "parseItem (Some (json_stringify q)) d u = Some q" using v by (simp add: parseItem_def json_parse_stringify)
  moreover have "map_of st' (legacyQueueKey d u) = None"
    using assms(1) legacy_no_item [of d u "item_id q"] by (simp add: good_storage_def st' get_put)
  moreover have "x \<in> set st' \<Longrightarrow> x = (itemKey d u (item_id q), json_stringify q) \<or> x \<in> set st" for x
    by (simp add: st' in_obj_put)
  ultimately show ?thesis using assms(1,2) unfolding good_storage_def by fastforce
qed

lemma good_storage_delete: "good_storage d u p st \<Longrightarrow> good_storage d u p (deleteCommentOutboxItem d u i st)"
  using get_remove [of "itemKey d u i" st "legacyQueueKey d u"]
  by (auto simp: good_storage_def deleteCommentOutboxItem_def remove_key_def)

lemma find_good: "find P xs = Some q \<Longrightarrow> \<forall>q \<in> set xs. R q \<Longrightarrow> R q"
  by (induction xs) (auto split: if_splits)

lemma good_next: "good_tab d u p t \<Longrightarrow> good_tab d u p (next_item t)"
  by (auto simp: good_tab_def next_item_def dest: find_good split: option.splits)

lemma next_reply: "ct_reply (next_item t) = None"
  by (simp add: next_item_def split: option.split)

lemma good_flush: "good_tab d u p t \<Longrightarrow> good_tab d u p (flushComments t)"
  using good_next [of d u p "t\<lparr>ct_flushing := True, ct_saved := False, ct_attempted := []\<rparr>"]
  by (simp add: flushComments_def good_tab_def)

lemma good_update:
  assumes "updatePersistedItem fails d u q t st = Some (t', st')" and "good_item d u p q" and "good_tab d u p t" and "good_storage d u p st"
  shows "good_tab d u p t'" and "good_storage d u p st'"
    and "item_at d u i st' = (if i = item_id q then Some q else item_at d u i st)"
    and "ct_sending t' = ct_sending t" and "ct_reply t' = ct_reply t"
  using assms good_storage_put item_saved
  by (auto simp: updatePersistedItem_def good_tab_def replace_item_def good_item_def split: sum.splits if_splits)

lemma kept_update:
  assumes "updatePersistedItem fails d u q t st = Some (t', st')" and "good_item d u p q" and "good_tab d u p t" and "good_storage d u p st"
    and "kept d u p st"
  shows "kept d u p st'"
  using assms(2,5) good_update(3) [OF assms(1-4), of "item_id p"] by (auto simp: kept_def good_item_def)

lemma kept_delete: "kept d u p st \<Longrightarrow> i \<noteq> item_id p \<Longrightarrow> kept d u p (deleteCommentOutboxItem d u i st)"
  by (simp add: kept_def item_deleted)

section \<open>No comment is lost\<close>

definition comment_inv :: "ActorContext \<Rightarrow> string \<Rightarrow> string \<Rightarrow> json \<Rightarrow> ThreadInput \<Rightarrow> CommentSystem \<Rightarrow> bool" where
  "comment_inv actor d u p inp s \<longleftrightarrow>
     keys_ok (cs_db s) \<and> good_storage d u p (cs_storage s) \<and> (\<forall>i. good_tab d u p (cs_tabs s i))
     \<and> (\<forall>i q y. ct_sending (cs_tabs s i) = Some q \<and> ct_reply (cs_tabs s i) = Some (Inr y) \<and> item_id q = item_id p
          \<longrightarrow> on_server actor d inp (cs_db s))
     \<and> (kept d u p (cs_storage s) \<or> on_server actor d inp (cs_db s))"

text \<open>Only one tab and the storage change.\<close>

lemma comment_inv_tab:
  assumes "comment_inv actor d u p inp s" and "good_tab d u p (fst r)" and "good_storage d u p (snd r)"
    and "ct_reply (fst r) = None \<or> fst r = cs_tabs s i
      \<or> (ct_sending (fst r) = ct_sending (cs_tabs s i) \<and> ct_reply (fst r) = ct_reply (cs_tabs s i))"
    and "kept d u p (cs_storage s) \<Longrightarrow> kept d u p (snd r) \<or> on_server actor d inp (cs_db s)"
  shows "comment_inv actor d u p inp (set_tab i r s)"
  using assms unfolding comment_inv_def set_tab_def by auto

definition comment_event_ok :: "string \<Rightarrow> string \<Rightarrow> json \<Rightarrow> CommentEvent \<Rightarrow> bool" where
  "comment_event_ok d u p e \<longleftrightarrow>
     (case e of
        Enqueued i item fails \<Rightarrow> good_item d u p item
      | CommentProcessed i signedIn env dbA \<Rightarrow> uuid d \<noteq> env_id env
      | OtherCall c \<Rightarrow> never_generates d [c]
      | _ \<Rightarrow> True)"

lemma next_tab:
  assumes "comment_inv actor d u p inp s" and "good_tab d u p t" and "good_storage d u p st"
    and "kept d u p (cs_storage s) \<Longrightarrow> kept d u p st \<or> on_server actor d inp (cs_db s)"
  shows "comment_inv actor d u p inp (set_tab i (next_item t, st) s)"
  by (rule comment_inv_tab [OF assms(1)]) (use assms(2-4) in \<open>simp_all add: good_next next_reply\<close>)

lemma refused_inv:
  assumes inv: "comment_inv actor d u p inp s"
  shows "comment_inv actor d u p inp (set_tab i (refused fails d u e item (cs_tabs s i) (cs_storage s)) s)"
proof (cases "find (\<lambda>q. item_id q = item_id item) (ct_queue (cs_tabs s i))")
  case None
  then show ?thesis using next_tab [OF inv] inv by (simp add: refused_def comment_inv_def)
next
  case (Some failed)
  have g: "good_tab d u p (cs_tabs s i)" "good_storage d u p (cs_storage s)" using inv by (simp_all add: comment_inv_def)
  have f: "good_item d u p (with_error e failed)"
    using find_good [OF Some, of "good_item d u p"] g(1) by (simp add: good_tab_def good_with_error)
  show ?thesis
  proof (cases "updatePersistedItem fails d u (with_error e failed) (cs_tabs s i) (cs_storage s)")
    case None
    have "good_tab d u p ((cs_tabs s i)\<lparr>ct_queue := replace_item (with_error e failed) (ct_queue (cs_tabs s i))\<rparr>)"
      using g(1) f by (auto simp: good_tab_def replace_item_def)
    then show ?thesis using next_tab [OF inv _ g(2)] Some None by (simp add: refused_def)
  next
    case (Some r)
    obtain t' st' where r: "r = (t', st')" by (cases r) auto
    note up = good_update [OF Some [unfolded r] f g]
    show ?thesis using next_tab [OF inv up(1,2)] kept_update [OF Some [unfolded r] f g] Some r \<open>find _ _ = Some failed\<close>
      by (simp add: refused_def)
  qed
qed

lemma processed_comment_inv:
  assumes inv: "comment_inv actor d u p inp s" and "uuid d \<noteq> env_id env"
    and body: "json_parse (json_stringify (request_body p)) = Some (request_body p)" "parse_thread L (Some (request_body p)) = Some inp"
    and "item_kind p = ''thread''" and "uuid (ti_threadId inp) = ti_threadId inp"
  shows "comment_inv actor d u p inp (comment_step L compare actor d u (CommentProcessed i signedIn env dbA) s)"
proof (cases "ct_sending (cs_tabs s i) \<noteq> None \<and> ct_reply (cs_tabs s i) = None")
  case True
  then obtain q where q: "ct_sending (cs_tabs s i) = Some q" "ct_reply (cs_tabs s i) = None" by auto
  let ?who = "if signedIn then Inr actor else Inl (Unauthenticated, [])"
  obtain db1 r where r: "post_comment L ?who d q env dbA (cs_db s) = (db1, r)" by fastforce
  have keys: "keys_ok (cs_db s)" using inv by (simp add: comment_inv_def)
  have "db1 = cs_db s \<or> (\<exists>c. db1 = history L [c] (cs_db s) \<and> never_generates d [c])"
    by (rule post_comment_call [OF r assms(2)])
  then have keep: "on_server actor d inp (cs_db s) \<Longrightarrow> on_server actor d inp db1" and keys1: "keys_ok db1"
    using on_server_call assms(6) history_keys [OF keys] keys by blast+
  have new: "on_server actor d inp db1" if "item_id q = item_id p" "r = Inr y" for y
  proof -
    have "good_item d u p q" using inv q(1) by (simp add: comment_inv_def good_tab_def)
    then have "request_body q = request_body p" "item_kind q = ''thread''" using that(1) assms(5) by (simp_all add: good_item_def)
    moreover have "signedIn" using r that(2) calculation(1) body(1) by (auto simp: post_comment_def split: if_splits)
    ultimately have "committed actor d inp db1"
      using post_comment_accepted [of L actor d q env dbA "cs_db s" db1 y inp] r that(2) body assms(6) keys by simp
    then show ?thesis by (simp add: on_server_def)
  qed
  have "comment_inv actor d u p inp
      (s\<lparr>cs_db := db1, cs_tabs := (cs_tabs s)(i := (cs_tabs s i)\<lparr>ct_reply := Some r\<rparr>)\<rparr>)"
    using inv keep keys1 new q(1) unfolding comment_inv_def by (auto simp: good_tab_def)
  then show ?thesis by (simp add: comment_step_def q r)
next
  case False
  then have "comment_step L compare actor d u (CommentProcessed i signedIn env dbA) s = s"
    by (auto simp: comment_step_def split: option.split)
  then show ?thesis using inv by simp
qed

lemma answered_comment_inv:
  assumes inv: "comment_inv actor d u p inp s"
  shows "comment_inv actor d u p inp (comment_step L compare actor d u (CommentAnswered i throws fails) s)"
proof (cases "ct_sending (cs_tabs s i)")
  case None
  then show ?thesis using inv by (simp add: comment_step_def)
next
  case (Some q)
  show ?thesis
  proof (cases "ct_reply (cs_tabs s i)")
    case None
    then show ?thesis using inv Some by (simp add: comment_step_def)
  next
    case (Some r)
    note q = \<open>ct_sending (cs_tabs s i) = Some q\<close> Some
    show ?thesis
    proof (cases r)
      case (Inl e)
      then show ?thesis using refused_inv [OF inv] q by (simp add: comment_step_def)
    next
      case (Inr y)
      let ?t = "(cs_tabs s i)\<lparr>ct_queue := removeCommentOutboxItem (ct_queue (cs_tabs s i)) (item_id q), ct_saved := True\<rparr>"
      let ?st = "if throws then cs_storage s else deleteCommentOutboxItem d u (item_id q) (cs_storage s)"
      have g: "good_tab d u p ?t" "good_storage d u p ?st"
        using inv by (auto simp: comment_inv_def good_tab_def removeCommentOutboxItem_def good_storage_delete)
      have "kept d u p ?st \<or> on_server actor d inp (cs_db s)" if "kept d u p (cs_storage s)"
        using that inv q Inr kept_delete [OF that, of "item_id q"] by (cases "item_id q = item_id p") (auto simp: comment_inv_def)
      then have "comment_inv actor d u p inp (set_tab i (next_item ?t, ?st) s)"
        by (intro next_tab [OF inv g])
      then show ?thesis using q Inr by (simp add: comment_step_def delivered_def)
    qed
  qed
qed

lemma flush_reply: "flushComments t = t \<or> ct_reply (flushComments t) = None"
  by (simp add: flushComments_def next_reply)

lemma opened_comment_inv:
  assumes inv: "comment_inv actor d u p inp s"
  shows "comment_inv actor d u p inp (comment_step L compare actor d u (Opened i fails) s)"
proof -
  obtain items st where r: "readCommentOutbox compare fails d u (cs_storage s) = (items, st)" by fastforce
  have g: "good_storage d u p (cs_storage s)" using inv by (simp add: comment_inv_def)
  then have legacy: "map_of (cs_storage s) (legacyQueueKey d u) = None" by (simp add: good_storage_def)
  have st: "st = cs_storage s" using read_keeps [OF legacy, of compare fails] r by simp
  have "\<forall>q \<in> set items. good_item d u p q"
    using read_from [OF legacy, of _ compare fails] r g by (fastforce simp: good_storage_def)
  then have t: "good_tab d u p (closed_tab\<lparr>ct_queue := items\<rparr>)" by (simp add: good_tab_def closed_tab_def)
  have "ct_reply (flushComments (closed_tab\<lparr>ct_queue := items\<rparr>)) = None"
    using flush_reply [of "closed_tab\<lparr>ct_queue := items\<rparr>"] by (auto simp: closed_tab_def)
  then have "comment_inv actor d u p inp (set_tab i (flushComments (closed_tab\<lparr>ct_queue := items\<rparr>), st) s)"
    by (intro comment_inv_tab [OF inv]) (use good_flush [OF t] g st in auto)
  then show ?thesis by (simp add: comment_step_def r)
qed

lemma flushed_inv:
  assumes inv: "comment_inv actor d u p inp s" and "good_tab d u p t" and "good_storage d u p st"
    and "ct_sending t = ct_sending (cs_tabs s i)" and "ct_reply t = ct_reply (cs_tabs s i)"
    and "kept d u p (cs_storage s) \<Longrightarrow> kept d u p st \<or> on_server actor d inp (cs_db s)"
  shows "comment_inv actor d u p inp (set_tab i (flushComments t, st) s)"
  by (rule comment_inv_tab [OF inv]) (use assms(2-6) good_flush [OF assms(2)] flush_reply [of t] in auto)

lemma comment_step_inv:
  assumes inv: "comment_inv actor d u p inp s" and ok: "comment_event_ok d u p e"
    and body: "json_parse (json_stringify (request_body p)) = Some (request_body p)" "parse_thread L (Some (request_body p)) = Some inp"
    and "item_kind p = ''thread''" and canonical: "uuid (ti_threadId inp) = ti_threadId inp"
  shows "comment_inv actor d u p inp (comment_step L compare actor d u e s)"
proof -
  have g: "good_storage d u p (cs_storage s)" "good_tab d u p (cs_tabs s i)" for i using inv by (simp_all add: comment_inv_def)
  show ?thesis
  proof (cases e)
    case (Opened i fails)
    then show ?thesis using opened_comment_inv [OF inv] by simp
  next
    case (Enqueued i item fails)
    show ?thesis
    proof (cases "updatePersistedItem fails d u item (cs_tabs s i) (cs_storage s)")
      case None
      then show ?thesis using inv Enqueued by (simp add: comment_step_def)
    next
      case (Some r)
      obtain t st where r: "r = (t, st)" by (cases r) auto
      have gi: "good_item d u p item" using ok Enqueued by (simp add: comment_event_ok_def)
      note up = good_update [OF Some [unfolded r] gi g(2) g(1)]
      have "comment_inv actor d u p inp (set_tab i (flushComments t, st) s)"
        using flushed_inv [OF inv up(1,2,4,5)] kept_update [OF Some [unfolded r] gi g(2) g(1)] by blast
      then show ?thesis using Enqueued Some r by (simp add: comment_step_def)
    qed
  next
    case (Retried i)
    then show ?thesis using flushed_inv [OF inv g(2) [of i] g(1)] by (simp add: comment_step_def)
  next
    case (CommentProcessed i signedIn env dbA)
    then show ?thesis using processed_comment_inv [OF inv _ body assms(5) canonical] ok by (simp add: comment_event_ok_def)
  next
    case (CommentAnswered i throws fails)
    then show ?thesis using answered_comment_inv [OF inv] by simp
  next
    case (CommentLost i fails)
    then show ?thesis using refused_inv [OF inv] inv by (simp add: comment_step_def split: option.split)
  next
    case (Refreshed i)
    have "comment_inv actor d u p inp (set_tab i (refreshed (cs_tabs s i), cs_storage s) s)"
      by (rule comment_inv_tab [OF inv]) (use g(1) g(2) [of i] in \<open>auto simp: refreshed_def good_tab_def\<close>)
    then show ?thesis using Refreshed by (simp add: comment_step_def)
  next
    case (TabClosed i)
    have "comment_inv actor d u p inp (set_tab i (closed_tab, cs_storage s) s)"
      by (rule comment_inv_tab [OF inv]) (use g(1) g(2) [of i] in \<open>auto simp: closed_tab_def good_tab_def\<close>)
    then show ?thesis using TabClosed by (simp add: comment_step_def)
  next
    case (OtherCall c)
    have "never_generates d [c]" using ok OtherCall by (simp add: comment_event_ok_def)
    then have "on_server actor d inp (cs_db s) \<Longrightarrow> on_server actor d inp (history L [c] (cs_db s))"
      using on_server_call canonical by blast
    then have "comment_inv actor d u p inp (s\<lparr>cs_db := history L [c] (cs_db s)\<rparr>)"
      using inv history_keys unfolding comment_inv_def by auto
    then show ?thesis using OtherCall by (simp add: comment_step_def)
  qed
qed

definition comment_run ::
  "Libraries \<Rightarrow> (string \<Rightarrow> string \<Rightarrow> int) \<Rightarrow> ActorContext \<Rightarrow> string \<Rightarrow> string \<Rightarrow> CommentEvent list \<Rightarrow> CommentSystem \<Rightarrow> CommentSystem" where
  "comment_run L compare actor d u es s = foldl (\<lambda>s e. comment_step L compare actor d u e s) s es"

lemma comment_run_inv:
  assumes "comment_inv actor d u p inp s" and "\<forall>e \<in> set es. comment_event_ok d u p e"
    and "json_parse (json_stringify (request_body p)) = Some (request_body p)" "parse_thread L (Some (request_body p)) = Some inp"
    and "item_kind p = ''thread''" and "uuid (ti_threadId inp) = ti_threadId inp"
  shows "comment_inv actor d u p inp (comment_run L compare actor d u es s)"
  using assms(1,2)
proof (induction es arbitrary: s)
  case (Cons e es)
  show ?case using Cons.IH [of "comment_step L compare actor d u e s"] comment_step_inv [OF Cons.prems(1) _ assms(3-6)] Cons.prems(2)
    by (simp add: comment_run_def)
qed (simp add: comment_run_def)

text \<open>The start: all tabs closed, and the item saved in the storage of the browser by an earlier page.\<close>

definition queued_at :: "string \<Rightarrow> string \<Rightarrow> json \<Rightarrow> CommentSystem \<Rightarrow> bool" where
  "queued_at d u p s \<longleftrightarrow>
     (\<forall>i. cs_tabs s i = closed_tab) \<and> good_storage d u p (cs_storage s) \<and> kept d u p (cs_storage s) \<and> keys_ok (cs_db s)"

lemma queued_inv: "queued_at d u p s \<Longrightarrow> comment_inv actor d u p inp s"
  by (simp add: queued_at_def comment_inv_def closed_tab_def good_tab_def)

text \<open>
  A queued comment is not lost. Whatever the tabs, the network, the storage and the other clients do - requests
  lost before or after the server handled them, refused, sent by two tabs, sessions expired, writes and removals of the
  storage that throw, tabs closed at any point - a comment thread saved in the browser is still in its storage with the
  same request, or the server's tables have its thread and first message with its anchor and text, until the document is gone.
\<close>

theorem no_comment_lost:
  assumes "queued_at documentId userId p s" and "\<forall>e \<in> set es. comment_event_ok documentId userId p e"
    and "json_wf (request_body p)" and "parse_thread L (Some (request_body p)) = Some inp"
    and "item_kind p = ''thread''" and "uuid (ti_threadId inp) = ti_threadId inp"
  shows "kept documentId userId p (cs_storage (comment_run L compare actor documentId userId es s))
     \<or> committed actor documentId inp (cs_db (comment_run L compare actor documentId userId es s))
     \<or> findById documentId (cs_db (comment_run L compare actor documentId userId es s)) = None"
proof -
  have "json_parse (json_stringify (request_body p)) = Some (request_body p)"
    by (rule json_parse_stringify) (rule assms(3))
  from comment_run_inv [OF queued_inv [OF assms(1)] assms(2) this assms(4-6), of actor compare] show ?thesis
    by (auto simp: comment_inv_def on_server_def)
qed

end
