(* ===== verification/Spec2Isabelle.thy ===== *)
theory Spec2Isabelle
  imports
    Prelude Json Identities Catchup_Briefing Control_Frames Data_Frames Snapshot_Codec Idb
    Worker_Core Worker_Durability Worker_Channel Outbox Transport Snapshot_Resync Sync_Session Session_Safety Save_Status
    Proofs Adapter Adapter_Steps Adapter_Correct Pm_Model Pm_Roundtrip Pm_Lists
    Anchors Replica_Leases Editor_Bridge Bridge_Progress
    Replay Draft_Merge Draft_Correct
    Server_Store Server_Services Server_Comments Server_Safety Server_Guarantees
    Autosave Comment_Outbox Comment_Delivery
begin

text \<open>
  A model of Concord, a collaborative document editor (TypeScript, under
  \<^verbatim>\<open>src/\<close> of the repository). A browser tab keeps a replica of a document in a CRDT engine inside a
  web worker; what the engine learns is logged in IndexedDB before it is acknowledged. The editor's
  document is compared with the replica's view, and the difference becomes operations. Local
  operations are copied into a durable outbox and sent to a gateway over a WebSocket; the gateway
  acknowledges them and serves the operations of other replicas in pages, or a snapshot when the
  client is too far behind. A web server keeps titles, access, comments and suggestions in PostgreSQL.

  The theories, by the file they model:

  \<^item> Prelude: bytes, error results, decimals, \<open>BigInt\<close> on strings, splitting, and the codec
    locales \<open>strict_codec\<close> and \<open>layered_codec\<close>. Json: \<open>JSON.parse\<close> and \<open>JSON.stringify\<close>.
  \<^item> Control_Frames and Data_Frames: \<^verbatim>\<open>lib/sync/protocol.ts\<close>, its text and its binary half: round
    trips, strictness, declared payload types.
  \<^item> Snapshot_Codec: the codecs and the validation of \<^verbatim>\<open>lib/sync/snapshot-resync.ts\<close>, against
    canonical encodings; Snapshot_Resync: the driver that installs a snapshot.
  \<^item> Identities and Catchup_Briefing: \<^verbatim>\<open>lib/sync/identities.ts\<close>, \<^verbatim>\<open>lib/sync/catchup-briefing.ts\<close>.
  \<^item> Idb: \<^verbatim>\<open>lib/crdt/worker/idb.ts\<close>, the log, snapshots and sync cursor of all documents.
  \<^item> Worker_Core and Worker_Durability: \<^verbatim>\<open>lib/crdt/worker/core.ts\<close>, every request of the worker over
    an engine given as a record of functions, and its durability rule: a worker that restarts over the
    same database holds what the lost one held.
  \<^item> Worker_Channel: \<^verbatim>\<open>lib/crdt/worker/client.ts\<close> and \<^verbatim>\<open>lib/crdt/worker/crdt-worker.ts\<close>, calls of the worker over
    message ports: each caller gets the answer to its own request, once.
  \<^item> Outbox: \<^verbatim>\<open>lib/sync/pending-store.ts\<close>, the durable outbox; nothing unacknowledged is dropped.
  \<^item> Transport: \<^verbatim>\<open>lib/sync/transport.ts\<close>, the WebSocket client as one step function over calls, socket
    events and timers.
  \<^item> Sync_Session and Session_Safety: \<^verbatim>\<open>lib/sync/sync-session.ts\<close> and \<^verbatim>\<open>lib/sync/worker-engine-port.ts\<close>,
    the session that joins worker, outbox and transport; its promise chains are queues whose links run one at
    a time, in any interleaving with events.
  \<^item> Save_Status: \<^verbatim>\<open>lib/collaboration/save-status.ts\<close>, \<^verbatim>\<open>lib/collaboration/connection-status.ts\<close> and the
    store they read, \<^verbatim>\<open>store/use-sync-status-store.ts\<close>: what the page says about saving is true of the outbox.
  \<^item> Proofs: \<^verbatim>\<open>lib/crdt/proofs.ts\<close>, Merkle paths and signed receipts of the history; SHA-256 and Ed25519 are
    parameters.
  \<^item> Adapter, Adapter_Steps and Adapter_Correct: \<^verbatim>\<open>lib/crdt/adapter.ts\<close>, the block diff, with the
    engine's projection \<open>Doc::visible_document\<close> as the abstraction: the emitted operations take the view
    to the edited document.
  \<^item> Pm_Model, Pm_Roundtrip and Pm_Lists: \<^verbatim>\<open>lib/crdt/pm-model.ts\<close>, from TipTap's tree to flat blocks and
    back.
  \<^item> Anchors: \<^verbatim>\<open>lib/comments/anchors.ts\<close>, selections and carets as identities of characters, found again in
    later documents.
  \<^item> Editor_Bridge and Bridge_Progress: \<^verbatim>\<open>lib/crdt/editor-bridge.ts\<close>, the bridge between the editor and
    the worker as a step function over edits, worker replies and renders: at rest every edit has been reconciled, and
    the replica's view shows the editor's document where TipTap kept what was rendered; a render keeps edits; the
    bridge comes to rest. Replica_Leases: \<open>replicaIdForDocument\<close> and \<open>acquireReplica\<close> of the same file over local
    storage, session storage and Web Locks: while local storage works each persisted replica has one writer.
  \<^item> Replay: \<^verbatim>\<open>lib/crdt/replay.ts\<close>, time travel over the log, as a refinement of folding a prefix.
  \<^item> Draft_Merge and Draft_Correct: \<^verbatim>\<open>lib/drafts.ts\<close>, the block diff of local drafts and their three-way merge,
    against \<open>patch\<close> on lists of block texts.
  \<^item> Server_Store: the tables of \<^verbatim>\<open>server/db/schema.ts\<close> and the repositories (\<^verbatim>\<open>server/repositories\<close>), one SQL
    statement each; Server_Services and Server_Comments: the policy (\<^verbatim>\<open>server/auth/authorization.ts\<close>) and the
    services (\<^verbatim>\<open>server/services\<close>), joined by \<open>serve\<close>; Server_Safety: the writes a request can cause as an
    inductive relation, who may cause them, version safety; Server_Guarantees: audit, access list, listings,
    masking of denials, retries.
  \<^item> Autosave: \<^verbatim>\<open>lib/collaboration/provider.tsx\<close>, \<^verbatim>\<open>lib/collaboration/content.ts\<close> and the content
    route: whole-document saves where the CRDT is not used, joined to the server's tables: \<open>saved\<close> means stored.
  \<^item> Comment_Outbox and Comment_Delivery: \<^verbatim>\<open>lib/comments/outbox.ts\<close>, the unsent comments in local storage, and
    the loop of \<^verbatim>\<open>components/comments-panel.tsx\<close> that sends them, in every tab, joined to the comment routes and the
    server's tables: a queued comment thread is kept until the server has it.

  Strings are lists of 8-bit characters where JavaScript has UTF-16 code units; editor text is a list of
  code points; integers that the code holds as \<open>bigint\<close> are \<open>nat\<close> or \<open>int\<close>, bytes are 8-bit words. An
  exception is an error value. A method of a store is one step of the model, as it is one IndexedDB
  transaction. All functions are total; no fuel is used: the recursive walks have measures.

  Not modelled: rendering and React hooks, the other HTTP routes, the C++ engine (a record of functions with
  the laws it relies on as named hypotheses) and the Rust gateway, build and test scripts.
\<close>

end
